(* ===== verification/Rust_Prelude.thy ===== *)
theory Rust_Prelude
  imports "HOL-Library.Word"
begin

text \<open>
  The language layer of the development: Rust's machine integers, its panics and its slices, and
  the lemmas on words that the components share.

  A computation of the source that can panic, run into undefined behaviour or fail to return is a
  value of type \<open>'a res\<close>: \<open>Inl f\<close> is the fault that stops the machine, \<open>Inr x\<close> the
  value returned. Rust's own \<open>Option\<close> and \<open>Result\<close> stay values below \<open>Inr\<close>. The boot
  stages are built with \<open>overflow-checks = true\<close> (\<open>Cargo.toml\<close>, profiles stage2, stage3,
  stage4) and the kernel with the dev profile, so \<open>+\<close>, \<open>-\<close> and \<open>*\<close> are the checked
  operations below; only the \<open>mbr\<close> profile turns the checks off, and its arithmetic wraps.
\<close>

unbundle bit_operations_syntax

named_theorems rust_defs \<open>the definitions of the language layer\<close>
named_theorems word_norm \<open>word arithmetic read as arithmetic on natural numbers\<close>

section \<open>Machine integers\<close>

type_synonym u8 = "8 word"
type_synonym u16 = "16 word"
type_synonym u32 = "32 word"
type_synonym u64 = "64 word"

section \<open>Faults and the result of a computation\<close>

datatype fault =
    Arithmetic_Overflow
  | Index_Out_Of_Bounds
  | Divide_By_Zero
  | Unwrap_None
  | Assertion_Failed
  | Explicit_Panic
  | Unimplemented
  | Undefined_Behaviour
  | Diverges

type_synonym 'a res = "fault + 'a"

definition rbind :: "'a res \<Rightarrow> ('a \<Rightarrow> 'b res) \<Rightarrow> 'b res" where
  "rbind m f = (case m of Inl e \<Rightarrow> Inl e | Inr x \<Rightarrow> f x)"

lemma rbind_Inl [simp]: "rbind (Inl e) f = Inl e"
  and rbind_Inr [simp]: "rbind (Inr x) f = f x"
  by (simp_all add: rbind_def)

lemma rbind_eq_Inr: "rbind m f = Inr y \<longleftrightarrow> (\<exists>x. m = Inr x \<and> f x = Inr y)"
  by (cases m) simp_all

lemma rbind_eq_Inl: "rbind m f = Inl e \<longleftrightarrow> m = Inl e \<or> (\<exists>x. m = Inr x \<and> f x = Inl e)"
  by (cases m) simp_all

lemma rbind_assoc: "rbind (rbind m f) g = rbind m (\<lambda>x. rbind (f x) g)"
  by (cases m) simp_all

lemma rbind_cong [fundef_cong]:
  "m = m' \<Longrightarrow> (\<And>x. m' = Inr x \<Longrightarrow> f x = f' x) \<Longrightarrow> rbind m f = rbind m' f'"
  by (cases m') simp_all

definition expect :: "'a option \<Rightarrow> 'a res" where
  [rust_defs]: "expect x = (case x of None \<Rightarrow> Inl Unwrap_None | Some v \<Rightarrow> Inr v)"

definition rassert :: "bool \<Rightarrow> unit res" where
  [rust_defs]: "rassert b = (if b then Inr () else Inl Assertion_Failed)"

lemma expect_simps [simp]: "expect (Some x) = Inr x" "expect None = Inl Unwrap_None"
  by (simp_all add: expect_def)

lemma expect_eq_Inr [simp]: "expect x = Inr v \<longleftrightarrow> x = Some v"
  by (cases x) simp_all

lemma rassert_simps [simp]:
  "b \<Longrightarrow> rassert b = Inr ()" "\<not> b \<Longrightarrow> rassert b = Inl Assertion_Failed"
  by (simp_all add: rassert_def)

lemma rassert_eq_Inr: "rassert b = Inr u \<longleftrightarrow> b"
  by (simp add: rassert_def)

section \<open>Checked arithmetic\<close>

text \<open>
  The operators \<open>+ - * /\<close> and \<open><<\<close>, with the panic of an overflow-checked build, and the
  standard library's \<open>checked_sub\<close> and saturating operations.
\<close>

definition op_add :: "'a::len word \<Rightarrow> 'a word \<Rightarrow> 'a word res" where
  [rust_defs]: "op_add a b =
     (if unat a + unat b < 2 ^ LENGTH('a) then Inr (a + b) else Inl Arithmetic_Overflow)"

definition op_sub :: "'a::len word \<Rightarrow> 'a word \<Rightarrow> 'a word res" where
  [rust_defs]: "op_sub a b = (if b \<le> a then Inr (a - b) else Inl Arithmetic_Overflow)"

definition op_mul :: "'a::len word \<Rightarrow> 'a word \<Rightarrow> 'a word res" where
  [rust_defs]: "op_mul a b =
     (if unat a * unat b < 2 ^ LENGTH('a) then Inr (a * b) else Inl Arithmetic_Overflow)"

definition op_div :: "'a::len word \<Rightarrow> 'a word \<Rightarrow> 'a word res" where
  [rust_defs]: "op_div a b = (if b = 0 then Inl Divide_By_Zero else Inr (a div b))"

text \<open>\<open>a << n\<close>: the shift amount is checked, the bits shifted out are lost.\<close>

definition op_shl :: "'a::len word \<Rightarrow> nat \<Rightarrow> 'a word res" where
  [rust_defs]: "op_shl a n = (if n < LENGTH('a) then Inr (push_bit n a) else Inl Arithmetic_Overflow)"

definition checked_sub :: "'a::len word \<Rightarrow> 'a word \<Rightarrow> 'a word option" where
  [rust_defs]: "checked_sub a b = (if b \<le> a then Some (a - b) else None)"

definition saturating_add :: "'a::len word \<Rightarrow> 'a word \<Rightarrow> 'a word" where
  [rust_defs]: "saturating_add a b = (if unat a + unat b < 2 ^ LENGTH('a) then a + b else - 1)"

definition saturating_sub :: "'a::len word \<Rightarrow> 'a word \<Rightarrow> 'a word" where
  [rust_defs]: "saturating_sub a b = (if b \<le> a then a - b else 0)"

lemma unat_less_exp: "unat (a :: 'a::len word) < 2 ^ LENGTH('a)"
  by (rule unsigned_less)

lemma unat_plus_nowrap:
  "unat a + unat b < 2 ^ LENGTH('a) \<Longrightarrow> unat (a + b :: 'a::len word) = unat a + unat b"
  by (simp add: unat_word_ariths)

lemma unat_minus_nowrap: "b \<le> a \<Longrightarrow> unat (a - b :: 'a::len word) = unat a - unat b"
  by (simp add: unat_sub)

lemma unat_times_nowrap:
  "unat a * unat b < 2 ^ LENGTH('a) \<Longrightarrow> unat (a * b :: 'a::len word) = unat a * unat b"
  by (simp add: unat_word_ariths)

lemma op_add_eq_Inr:
  "op_add a b = Inr (c :: 'a::len word) \<longleftrightarrow> c = a + b \<and> unat c = unat a + unat b"
proof
  assume "op_add a b = Inr c"
  then show "c = a + b \<and> unat c = unat a + unat b"
    by (auto simp: op_add_def unat_plus_nowrap split: if_splits)
next
  assume *: "c = a + b \<and> unat c = unat a + unat b"
  then have "unat a + unat b < 2 ^ LENGTH('a)"
    by (metis unat_less_exp)
  with * show "op_add a b = Inr c" by (simp add: op_add_def)
qed

lemma op_sub_eq_Inr:
  "op_sub a b = Inr (c :: 'a::len word) \<longleftrightarrow> c = a - b \<and> b \<le> a"
  by (auto simp: op_sub_def)

lemma op_mul_eq_Inr:
  "op_mul a b = Inr (c :: 'a::len word) \<longleftrightarrow> c = a * b \<and> unat c = unat a * unat b"
proof
  assume "op_mul a b = Inr c"
  then show "c = a * b \<and> unat c = unat a * unat b"
    by (auto simp: op_mul_def unat_times_nowrap split: if_splits)
next
  assume *: "c = a * b \<and> unat c = unat a * unat b"
  then have "unat a * unat b < 2 ^ LENGTH('a)"
    by (metis unat_less_exp)
  with * show "op_mul a b = Inr c" by (simp add: op_mul_def)
qed

lemmas op_eq_Inr = op_add_eq_Inr op_sub_eq_Inr op_mul_eq_Inr

section \<open>Slices\<close>

definition index_get :: "'a list \<Rightarrow> nat \<Rightarrow> 'a res" where
  [rust_defs]: "index_get xs i = (if i < length xs then Inr (xs ! i) else Inl Index_Out_Of_Bounds)"

definition index_set :: "'a list \<Rightarrow> nat \<Rightarrow> 'a \<Rightarrow> 'a list res" where
  [rust_defs]: "index_set xs i v =
     (if i < length xs then Inr (xs[i := v]) else Inl Index_Out_Of_Bounds)"

lemma index_get_in [simp]: "i < length xs \<Longrightarrow> index_get xs i = Inr (xs ! i)"
  and index_set_in [simp]: "i < length xs \<Longrightarrow> index_set xs i v = Inr (xs[i := v])"
  by (simp_all add: index_get_def index_set_def)

lemma index_get_eq_Inr: "index_get xs i = Inr x \<longleftrightarrow> i < length xs \<and> x = xs ! i"
  by (auto simp: index_get_def)

lemma index_set_eq_Inr: "index_set xs i v = Inr ys \<longleftrightarrow> i < length xs \<and> ys = xs[i := v]"
  by (auto simp: index_set_def)

section \<open>Bits and powers of two\<close>

lemma and_not_mask_eq_shift: "a AND NOT (mask k) = push_bit k (drop_bit k (a :: 'a::len word))"
  by (rule bit_word_eqI) (auto simp: bit_simps)

lemma unat_and_mask: "unat (a AND mask k :: 'a::len word) = unat a mod 2 ^ k"
  by (simp only: take_bit_eq_mask [symmetric] unsigned_take_bit_eq) (simp add: take_bit_eq_mod)

lemma and_mask_plus_and_not_mask: "(a AND NOT (mask k)) + (a AND mask k) = (a :: 'a::len word)"
  by (simp add: and_not_mask_eq_shift bits_ident flip: take_bit_eq_mask)

lemma unat_and_not_mask: "unat (a AND NOT (mask k) :: 'a::len word) = unat a - unat a mod 2 ^ k"
proof -
  have "a AND NOT (mask k) = a - (a AND mask k)"
    by (metis add_diff_cancel_right' and_mask_plus_and_not_mask)
  moreover have "a AND mask k \<le> a" by (simp add: word_and_le2)
  ultimately show ?thesis by (simp add: unat_sub unat_and_mask)
qed

lemma unat_and_not_mask_le: "unat (a AND NOT (mask k) :: 'a::len word) \<le> unat a"
  by (simp add: unat_and_not_mask)

lemma dvd_unat_and_not_mask: "2 ^ k dvd unat (a AND NOT (mask k) :: 'a::len word)"
  by (simp add: unat_and_not_mask dvd_minus_mod)

lemma and_not_mask_of_aligned: "2 ^ k dvd unat a \<Longrightarrow> a AND NOT (mask k) = (a :: 'a::len word)"
  by (rule word_unat_eq_iff [THEN iffD2]) (simp add: unat_and_not_mask)

lemma and_mask_eq_0_iff: "a AND mask k = 0 \<longleftrightarrow> 2 ^ k dvd unat (a :: 'a::len word)"
  by (simp add: unat_eq_0 [symmetric] unat_and_mask dvd_eq_mod_eq_0)

lemma unat_exp: "k < LENGTH('a) \<Longrightarrow> unat ((2 :: 'a::len word) ^ k) = 2 ^ k"
  by transfer (simp add: take_bit_eq_mod)

lemma unat_not: "unat (NOT a) = 2 ^ LENGTH('a) - 1 - unat (a :: 'a::len word)"
proof -
  have "NOT a = - 1 - a" by (simp add: not_eq_complement)
  then show ?thesis by (simp add: unat_sub unsigned_minus_1_eq_mask mask_eq_exp_minus_1)
qed

lemma min_exp_word:
  "i < LENGTH('a) \<Longrightarrow> j < LENGTH('a) \<Longrightarrow> min ((2 :: 'a::len word) ^ i) (2 ^ j) = 2 ^ min i j"
  by (auto simp: min_def word_le_nat_alt unat_exp)

lemma mask_eq_exp_minus_1_word: "(2 :: 'a::len word) ^ k - 1 = mask k"
  by (simp add: mask_eq_exp_minus_1)

lemma unat_div_exp_eq_iff_bit: "bit a k \<longleftrightarrow> odd (unat (a :: 'a::len word) div 2 ^ k)"
  by (simp add: bit_unsigned_iff flip: bit_iff_odd)

text \<open>Widening casts.\<close>

lemma unat_ucast_up:
  "LENGTH('a) \<le> LENGTH('b) \<Longrightarrow> unat (ucast (x :: 'a::len word) :: 'b::len word) = unat x"
  by transfer (simp add: min_absorb2 take_bit_nat_eq)

text \<open>\<open>leading_zeros\<close>, \<open>trailing_zeros\<close> and \<open>next_power_of_two\<close> of the standard library.\<close>

fun bit_length :: "nat \<Rightarrow> nat" where
  "bit_length n = (if n = 0 then 0 else Suc (bit_length (n div 2)))"

fun count_trailing :: "nat \<Rightarrow> nat" where
  "count_trailing n = (if n = 0 \<or> odd n then 0 else Suc (count_trailing (n div 2)))"

declare bit_length.simps [simp del] count_trailing.simps [simp del]

definition leading_zeros :: "'a::len word \<Rightarrow> nat" where
  "leading_zeros a = LENGTH('a) - bit_length (unat a)"

definition trailing_zeros :: "'a::len word \<Rightarrow> nat" where
  "trailing_zeros a = (if a = 0 then LENGTH('a) else count_trailing (unat a))"

definition next_power_of_two :: "'a::len word \<Rightarrow> 'a word res" where
  "next_power_of_two a =
     (let k = (if a \<le> 1 then 0 else bit_length (unat (a - 1)))
      in if k < LENGTH('a) then Inr (2 ^ k) else Inl Arithmetic_Overflow)"

lemma bit_length_bounds: "0 < n \<Longrightarrow> 2 ^ (bit_length n - 1) \<le> n \<and> n < 2 ^ bit_length n \<and> 0 < bit_length n"
proof (induction n rule: bit_length.induct)
  case (1 n)
  show ?case
  proof (cases "n div 2 = 0")
    case True
    with 1(2) have "n = 1" by auto
    then show ?thesis by (simp add: bit_length.simps [of "Suc 0"] bit_length.simps [of 0])
  next
    case False
    define k where "k = bit_length (n div 2)"
    have k: "bit_length n = Suc k" using 1(2) by (simp add: bit_length.simps [of n] k_def)
    from 1 False have IH: "2 ^ (k - 1) \<le> n div 2" "n div 2 < 2 ^ k" "0 < k"
      by (simp_all add: k_def)
    from IH(3) obtain l where "k = Suc l" by (cases k) auto
    with IH k show ?thesis by auto
  qed
qed

lemma bit_length_le: "n < 2 ^ m \<Longrightarrow> bit_length n \<le> m"
proof (cases "n = 0")
  case False
  assume "n < 2 ^ m"
  moreover have "2 ^ (bit_length n - 1) \<le> n" using bit_length_bounds [of n] False by simp
  ultimately have "(2 :: nat) ^ (bit_length n - 1) < 2 ^ m" by (rule order.strict_trans1 [rotated])
  then have "bit_length n - 1 < m" by (simp only: power_strict_increasing_iff [of 2] one_less_numeral_iff semiring_norm)
  then show ?thesis by simp
qed (simp add: bit_length.simps [of 0])

lemma count_trailing_exp: "count_trailing (2 ^ k) = k"
proof (induction k)
  case 0
  show ?case by (subst count_trailing.simps) simp
next
  case (Suc k)
  then show ?case by (subst count_trailing.simps) simp
qed

lemma trailing_zeros_exp: "k < LENGTH('a) \<Longrightarrow> trailing_zeros ((2 :: 'a::len word) ^ k) = k"
proof -
  assume k: "k < LENGTH('a)"
  then have "unat ((2 :: 'a word) ^ k) = 2 ^ k" by (rule unat_exp)
  moreover from this have "(2 :: 'a word) ^ k \<noteq> 0" by (metis power_not_zero unat_0 zero_neq_numeral)
  ultimately show ?thesis by (simp add: trailing_zeros_def count_trailing_exp)
qed

lemma next_power_of_two_spec:
  assumes "next_power_of_two a = Inr (b :: 'a::len word)"
  shows "\<exists>k < LENGTH('a). b = 2 ^ k \<and> unat a \<le> 2 ^ k \<and> (unat a \<le> 1 \<longrightarrow> k = 0) \<and>
           (1 < unat a \<longrightarrow> 2 ^ (k - 1) < unat a)"
proof (cases "a \<le> 1")
  case True
  then have "unat a \<le> 1" by (simp add: word_le_nat_alt)
  with True assms show ?thesis by (auto simp: next_power_of_two_def intro!: exI [of _ 0])
next
  case False
  then have a: "1 < unat a" by (simp add: word_le_nat_alt)
  then have u: "unat (a - 1) = unat a - 1"
    by (subst unat_sub) (auto simp: word_le_nat_alt)
  define k where "k = bit_length (unat a - 1)"
  have k: "2 ^ (k - 1) \<le> unat a - 1" "unat a - 1 < 2 ^ k"
    using bit_length_bounds [of "unat a - 1"] a by (simp_all add: k_def)
  from k a have "2 ^ (k - 1) < unat a" "unat a \<le> 2 ^ k" by linarith+
  with k a u False assms show ?thesis
    by (auto simp: next_power_of_two_def Let_def k_def split: if_splits
        intro!: exI [of _ "bit_length (unat a - Suc 0)"])
qed

text \<open>The lowest set bit, as \<open>x & (!x + 1)\<close>.\<close>

lemma lowest_set_bit:
  assumes "x \<noteq> (0 :: 'a::len word)"
  obtains k where "k < LENGTH('a)" "x AND (NOT x + 1) = 2 ^ k" "2 ^ k dvd unat x"
    "\<And>j. 2 ^ j dvd unat x \<Longrightarrow> j \<le> k"
proof -
  define k where "k = (LEAST n. bit x n)"
  have "\<exists>n. bit x n" using assms bit_word_eqI [of x 0] by auto
  then have k: "bit x k" and low: "\<And>n. n < k \<Longrightarrow> \<not> bit x n"
    unfolding k_def by (auto intro: LeastI_ex dest: not_less_Least)
  have kl: "k < LENGTH('a)" using k by (rule bit_imp_le_length)
  define y where "y = drop_bit k x"
  have x: "x = push_bit k y"
  proof (rule bit_word_eqI)
    fix n
    show "bit x n = bit (push_bit k y) n" if "n < LENGTH('a)"
      using that low [of n] by (cases "n < k") (auto simp: y_def bit_simps)
  qed
  have y: "odd y" using k by (simp add: y_def bit_iff_odd_drop_bit)
  have "NOT x + 1 = - x" by (simp add: minus_eq_not_plus_1)
  also have "\<dots> = push_bit k (- y)" by (simp add: x push_bit_minus)
  finally have "x AND (NOT x + 1) = push_bit k (y AND - y)" by (simp add: x)
  moreover have "y AND - y = 1"
  proof (rule bit_word_eqI)
    fix n
    have "- y = NOT y + 1" by (simp add: minus_eq_not_plus_1)
    also have "\<dots> = NOT y OR 1" using y by (intro disjunctive_add_eq_or) (simp add: and_one_eq mod_2_eq_odd)
    finally show "bit (y AND - y) n = bit 1 n"
      using y by (auto simp: bit_simps bit_0)
  qed
  ultimately have "x AND (NOT x + 1) = 2 ^ k" by simp
  moreover have "2 ^ k dvd unat x"
    using low by (simp flip: and_mask_eq_0_iff) (rule bit_word_eqI, auto simp: bit_simps)
  moreover have "j \<le> k" if "2 ^ j dvd unat x" for j
  proof (rule ccontr)
    assume "\<not> j \<le> k"
    then have "2 ^ Suc k dvd unat x" using that power_le_dvd [of 2 j _ "Suc k"] by auto
    then have "even (unat x div 2 ^ k)" by (auto elim!: dvdE)
    with k show False by (simp add: unat_div_exp_eq_iff_bit)
  qed
  ultimately show ?thesis using kl that by blast
qed

end
