(* ===== verification/External_Crates.thy ===== *)
theory External_Crates
  imports Rust_Prelude
begin

text \<open>
  The third-party crates the repository calls, as parameters of the model. \<open>bit_field\<close> and
  \<open>bitflags\<close> are not part of the sources: the definitions that use them take a record
  \<open>crates\<close> of their operations, and the theorems assume \<open>crates_ok\<close>, the behaviour the two
  crates document. A bit range is given by its first bit and the bit after its last one, and a
  value of a \<open>bitflags\<close> type is its bits.
\<close>

record crates =
  get_bits :: "u64 \<Rightarrow> nat \<Rightarrow> nat \<Rightarrow> u64"
    \<comment> \<open>\<open>BitField::get_bits\<close> on \<open>u64\<close>\<close>
  set_bits :: "u64 \<Rightarrow> nat \<Rightarrow> nat \<Rightarrow> u64 \<Rightarrow> u64 res"
    \<comment> \<open>\<open>BitField::set_bits\<close> on \<open>u64\<close>: panics when the value does not fit the range\<close>
  set_bits16 :: "u16 \<Rightarrow> nat \<Rightarrow> nat \<Rightarrow> u16 \<Rightarrow> u16 res"
  set_bit16 :: "u16 \<Rightarrow> nat \<Rightarrow> bool \<Rightarrow> u16"
  flags_union :: "u64 \<Rightarrow> u64 \<Rightarrow> u64"
    \<comment> \<open>\<open>BitOr::bitor\<close> of a \<open>bitflags\<close> type over \<open>u64\<close>\<close>
  flags_contains :: "u64 \<Rightarrow> u64 \<Rightarrow> bool"
  flags_is_empty :: "u64 \<Rightarrow> bool"
  flags_from_bits_truncate :: "u64 \<Rightarrow> u64 \<Rightarrow> u64"
    \<comment> \<open>\<open>from_bits_truncate\<close>; the first argument is the union of the declared flags\<close>
  flags_from_bits :: "u64 \<Rightarrow> u64 \<Rightarrow> u64 option"
    \<comment> \<open>\<open>from_bits\<close>: \<open>None\<close> when a bit is set that is no declared flag\<close>
  flags_intersection :: "u64 \<Rightarrow> u64 \<Rightarrow> u64"
    \<comment> \<open>\<open>BitAnd::bitand\<close>\<close>
  flags_complement :: "u64 \<Rightarrow> u64 \<Rightarrow> u64"
    \<comment> \<open>\<open>Not::not\<close>: the declared flags that are not set\<close>

definition get_bits_spec :: "(u64 \<Rightarrow> nat \<Rightarrow> nat \<Rightarrow> u64) \<Rightarrow> bool" where
  "get_bits_spec g \<longleftrightarrow>
     (\<forall>w lo hi. lo < hi \<and> hi \<le> 64 \<longrightarrow> g w lo hi = take_bit (hi - lo) (drop_bit lo w))"

definition set_bits_spec :: "('a::len word \<Rightarrow> nat \<Rightarrow> nat \<Rightarrow> 'a word \<Rightarrow> 'a word res) \<Rightarrow> bool" where
  "set_bits_spec s \<longleftrightarrow>
     (\<forall>w lo hi v. lo < hi \<and> hi \<le> LENGTH('a) \<longrightarrow>
        s w lo hi v =
          (if take_bit (hi - lo) v = v
           then Inr ((w AND NOT (push_bit lo (mask (hi - lo)))) OR push_bit lo v)
           else Inl Explicit_Panic))"

definition bitflags_spec :: "crates \<Rightarrow> bool" where
  "bitflags_spec C \<longleftrightarrow>
     (\<forall>a b. flags_union C a b = a OR b) \<and>
     (\<forall>a b. flags_contains C a b \<longleftrightarrow> a AND b = b) \<and>
     (\<forall>a. flags_is_empty C a \<longleftrightarrow> a = 0) \<and>
     (\<forall>m a. flags_from_bits_truncate C m a = a AND m) \<and>
     (\<forall>m a. flags_from_bits C m a = (if a AND m = a then Some a else None)) \<and>
     (\<forall>a b. flags_intersection C a b = a AND b) \<and>
     (\<forall>m a. flags_complement C m a = NOT a AND m)"

definition crates_ok :: "crates \<Rightarrow> bool" where
  "crates_ok C \<longleftrightarrow>
     get_bits_spec (get_bits C) \<and> set_bits_spec (set_bits C) \<and> set_bits_spec (set_bits16 C) \<and>
     (\<forall>w i b. i < 16 \<longrightarrow> set_bit16 C w i b = (if b then set_bit i w else unset_bit i w)) \<and>
     bitflags_spec C"

lemma crates_okD:
  assumes "crates_ok C"
  shows "lo < hi \<Longrightarrow> hi \<le> 64 \<Longrightarrow> get_bits C w lo hi = take_bit (hi - lo) (drop_bit lo w)"
    and "flags_union C a b = a OR b"
    and "flags_contains C a b \<longleftrightarrow> a AND b = b"
    and "flags_is_empty C a \<longleftrightarrow> a = 0"
    and "flags_from_bits_truncate C m a = a AND m"
    and "flags_from_bits C m a = (if a AND m = a then Some a else None)"
    and "flags_intersection C a b = a AND b"
    and "flags_complement C m a = NOT a AND m"
  using assms by (simp_all add: crates_ok_def get_bits_spec_def bitflags_spec_def)

lemma set_bits_okD:
  assumes "crates_ok C" "lo < hi" "hi \<le> 64" "take_bit (hi - lo) v = v"
  shows "set_bits C w lo hi v = Inr ((w AND NOT (push_bit lo (mask (hi - lo)))) OR push_bit lo v)"
  using assms by (simp add: crates_ok_def set_bits_spec_def)

lemma set_bits16_okD:
  assumes "crates_ok C" "lo < hi" "hi \<le> 16"
  shows "set_bits16 C w lo hi v =
           (if take_bit (hi - lo) v = v
            then Inr ((w AND NOT (push_bit lo (mask (hi - lo)))) OR push_bit lo v)
            else Inl Explicit_Panic)"
  using assms by (simp add: crates_ok_def set_bits_spec_def)

lemma set_bit16_okD:
  "crates_ok C \<Longrightarrow> i < 16 \<Longrightarrow> set_bit16 C w i b = (if b then set_bit i w else unset_bit i w)"
  by (simp add: crates_ok_def)

text \<open>
  One implementation with the documented behaviour: the witnesses of the theorems that assume
  \<open>crates_ok\<close> run on it.
\<close>

definition reference_crates :: crates where
  "reference_crates =
     \<lparr>get_bits = (\<lambda>w lo hi. take_bit (hi - lo) (drop_bit lo w)),
      set_bits = (\<lambda>w lo hi v. if take_bit (hi - lo) v = v
        then Inr ((w AND NOT (push_bit lo (mask (hi - lo)))) OR push_bit lo v)
        else Inl Explicit_Panic),
      set_bits16 = (\<lambda>w lo hi v. if take_bit (hi - lo) v = v
        then Inr ((w AND NOT (push_bit lo (mask (hi - lo)))) OR push_bit lo v)
        else Inl Explicit_Panic),
      set_bit16 = (\<lambda>w i b. if b then set_bit i w else unset_bit i w),
      flags_union = (OR),
      flags_contains = (\<lambda>a b. a AND b = b),
      flags_is_empty = (\<lambda>a. a = 0),
      flags_from_bits_truncate = (\<lambda>m a. a AND m),
      flags_from_bits = (\<lambda>m a. if a AND m = a then Some a else None),
      flags_intersection = (AND),
      flags_complement = (\<lambda>m a. NOT a AND m)\<rparr>"

lemma reference_crates_ok: "crates_ok reference_crates"
  by (simp add: crates_ok_def get_bits_spec_def set_bits_spec_def bitflags_spec_def
      reference_crates_def)

end
