(* ===== verification/Memory.thy ===== *)
theory Memory
  imports Rust_Prelude External_Crates
begin

text \<open>
  The address types of \<open>x86_64/src/memory.rs\<close>: physical and virtual addresses, memory regions,
  frames and pages and their inclusive ranges.

  The newtypes \<open>PhysicalAddress(u64)\<close> and \<open>VirtualAddress(u64)\<close> are their \<open>u64\<close>; a frame or
  a page is its start address, and the phantom page size \<open>S\<close> of \<open>PhysicalFrame<S>\<close> and
  \<open>Page<S>\<close> is an argument of the operations. The trait \<open>MemoryRegion\<close> is a record of its
  methods (the dictionary a generic function receives); the locale \<open>memory_region\<close> states what
  its clients rely on.
\<close>

section \<open>Page sizes and addresses\<close>

definition KIB :: u64 where "KIB = 1024"
definition MIB :: u64 where "MIB = KIB * 1024"
definition GIB :: u64 where "GIB = MIB * 1024"
definition TIB :: u64 where "TIB = GIB * 1024"

datatype PageSize = Size4KiB | Size2MiB

fun SIZE :: "PageSize \<Rightarrow> u64" where
  "SIZE Size4KiB = 0x1000"
| "SIZE Size2MiB = 0x200000"

type_synonym PhysicalAddress = u64
type_synonym VirtualAddress = u64
type_synonym PhysicalFrame = PhysicalAddress
type_synonym Page = VirtualAddress

definition PhysicalAddress_align_down :: "PhysicalAddress \<Rightarrow> u64 \<Rightarrow> PhysicalAddress res" where
  "PhysicalAddress_align_down self align = rbind (op_sub align 1) (\<lambda>m. Inr (self AND NOT m))"

definition PhysicalAddress_align_up :: "PhysicalAddress \<Rightarrow> u64 \<Rightarrow> PhysicalAddress res" where
  "PhysicalAddress_align_up self align =
     rbind (op_add self align) (\<lambda>s. rbind (op_sub s 1) (\<lambda>t.
     rbind (op_sub align 1) (\<lambda>m. Inr (t AND NOT m))))"

definition PhysicalAddress_add :: "PhysicalAddress \<Rightarrow> u64 \<Rightarrow> PhysicalAddress res" where
  "PhysicalAddress_add self rhs = op_add self rhs"

definition PhysicalAddress_sub :: "PhysicalAddress \<Rightarrow> u64 \<Rightarrow> PhysicalAddress res" where
  "PhysicalAddress_sub self rhs = expect (checked_sub self rhs)"

definition PhysicalAddress_distance :: "PhysicalAddress \<Rightarrow> PhysicalAddress \<Rightarrow> u64 res" where
  "PhysicalAddress_distance self rhs = expect (checked_sub self rhs)"

definition PhysicalAddress_add_assign :: "PhysicalAddress \<Rightarrow> u64 \<Rightarrow> PhysicalAddress res" where
  "PhysicalAddress_add_assign self rhs = op_add self rhs"

definition VirtualAddress_is_aligned :: "VirtualAddress \<Rightarrow> u64 \<Rightarrow> bool res" where
  "VirtualAddress_is_aligned self align = rbind (op_sub align 1) (\<lambda>m. Inr (self AND m = 0))"

definition VirtualAddress_align_down :: "VirtualAddress \<Rightarrow> u64 \<Rightarrow> VirtualAddress res" where
  "VirtualAddress_align_down self align = rbind (op_sub align 1) (\<lambda>m. Inr (self AND NOT m))"

definition VirtualAddress_align_up :: "VirtualAddress \<Rightarrow> u64 \<Rightarrow> VirtualAddress res" where
  "VirtualAddress_align_up self align =
     rbind (op_add self align) (\<lambda>s. rbind (op_sub s 1) (\<lambda>t.
     rbind (op_sub align 1) (\<lambda>m. Inr (t AND NOT m))))"

definition l4_index :: "crates \<Rightarrow> VirtualAddress \<Rightarrow> nat" where
  "l4_index C self = unat (get_bits C self 39 48)"

definition l3_index :: "crates \<Rightarrow> VirtualAddress \<Rightarrow> nat" where
  "l3_index C self = unat (get_bits C self 30 39)"

definition l2_index :: "crates \<Rightarrow> VirtualAddress \<Rightarrow> nat" where
  "l2_index C self = unat (get_bits C self 21 30)"

definition l1_index :: "crates \<Rightarrow> VirtualAddress \<Rightarrow> nat" where
  "l1_index C self = unat (get_bits C self 12 21)"

definition VirtualAddress_add :: "VirtualAddress \<Rightarrow> u64 \<Rightarrow> VirtualAddress res" where
  "VirtualAddress_add self rhs = op_add self rhs"

definition VirtualAddress_sub :: "VirtualAddress \<Rightarrow> u64 \<Rightarrow> VirtualAddress res" where
  "VirtualAddress_sub self rhs = expect (checked_sub self rhs)"

definition VirtualAddress_distance :: "VirtualAddress \<Rightarrow> VirtualAddress \<Rightarrow> u64 res" where
  "VirtualAddress_distance self rhs = expect (checked_sub self rhs)"

definition VirtualAddress_add_assign :: "VirtualAddress \<Rightarrow> u64 \<Rightarrow> VirtualAddress res" where
  "VirtualAddress_add_assign self rhs = op_add self rhs"

section \<open>Memory regions\<close>

text \<open>The trait \<open>MemoryRegion\<close>, as the dictionary of its methods.\<close>

record 'd MemoryRegion =
  mr_start :: "'d \<Rightarrow> u64"
  mr_set_start :: "'d \<Rightarrow> u64 \<Rightarrow> 'd"
  mr_end :: "'d \<Rightarrow> u64 res"
  mr_size :: "'d \<Rightarrow> u64"
  mr_set_size :: "'d \<Rightarrow> u64 \<Rightarrow> 'd"
  mr_contains :: "'d \<Rightarrow> u64 \<Rightarrow> bool res"
  mr_is_usable :: "'d \<Rightarrow> bool"

record Region =
  region_start :: u64
  region_size :: u64

definition Region_new :: "u64 \<Rightarrow> u64 \<Rightarrow> Region" where
  "Region_new start len = \<lparr>region_start = start, region_size = len\<rparr>"

definition Region_end :: "Region \<Rightarrow> u64 res" where
  "Region_end self = op_add (region_start self) (region_size self)"

definition Region_contains :: "Region \<Rightarrow> u64 \<Rightarrow> bool res" where
  "Region_contains self address =
     (if region_start self \<le> address
      then rbind (Region_end self) (\<lambda>e. Inr (address \<le> e)) else Inr False)"

definition Region_MemoryRegion :: "Region MemoryRegion" where
  "Region_MemoryRegion =
     \<lparr>mr_start = region_start,
      mr_set_start = (\<lambda>self s. self\<lparr>region_start := s\<rparr>),
      mr_end = Region_end,
      mr_size = region_size,
      mr_set_size = (\<lambda>self s. self\<lparr>region_size := s\<rparr>),
      mr_contains = Region_contains,
      mr_is_usable = (\<lambda>self. True)\<rparr>"

datatype PhysicalMemoryRegionType = Reserved | Free | Used

record PhysicalMemoryRegion =
  pmr_start :: u64
  pmr_size :: u64
  pmr_typ :: PhysicalMemoryRegionType

definition PhysicalMemoryRegion_new ::
    "u64 \<Rightarrow> u64 \<Rightarrow> PhysicalMemoryRegionType \<Rightarrow> PhysicalMemoryRegion" where
  "PhysicalMemoryRegion_new start sz typ = \<lparr>pmr_start = start, pmr_size = sz, pmr_typ = typ\<rparr>"

definition PhysicalMemoryRegion_end :: "PhysicalMemoryRegion \<Rightarrow> u64 res" where
  "PhysicalMemoryRegion_end self = op_add (pmr_start self) (pmr_size self)"

definition PhysicalMemoryRegion_contains :: "PhysicalMemoryRegion \<Rightarrow> u64 \<Rightarrow> bool res" where
  "PhysicalMemoryRegion_contains self address =
     (if pmr_start self \<le> address
      then rbind (PhysicalMemoryRegion_end self) (\<lambda>e. Inr (address \<le> e)) else Inr False)"

definition PhysicalMemoryRegion_is_usable :: "PhysicalMemoryRegion \<Rightarrow> bool" where
  "PhysicalMemoryRegion_is_usable self \<longleftrightarrow> pmr_typ self = Free"

definition PhysicalMemoryRegion_MemoryRegion :: "PhysicalMemoryRegion MemoryRegion" where
  "PhysicalMemoryRegion_MemoryRegion =
     \<lparr>mr_start = pmr_start,
      mr_set_start = (\<lambda>self s. self\<lparr>pmr_start := s\<rparr>),
      mr_end = PhysicalMemoryRegion_end,
      mr_size = pmr_size,
      mr_set_size = (\<lambda>self s. self\<lparr>pmr_size := s\<rparr>),
      mr_contains = PhysicalMemoryRegion_contains,
      mr_is_usable = PhysicalMemoryRegion_is_usable\<rparr>"

section \<open>Frames and pages\<close>

definition PhysicalFrame_containing_address ::
    "PageSize \<Rightarrow> PhysicalAddress \<Rightarrow> PhysicalFrame res" where
  "PhysicalFrame_containing_address S address = PhysicalAddress_align_down address (SIZE S)"

definition PhysicalFrame_end :: "PageSize \<Rightarrow> PhysicalFrame \<Rightarrow> u64 res" where
  "PhysicalFrame_end S self = op_add self (SIZE S)"

definition PhysicalFrame_add :: "PageSize \<Rightarrow> PhysicalFrame \<Rightarrow> u64 \<Rightarrow> PhysicalFrame res" where
  "PhysicalFrame_add S self rhs =
     rbind (op_mul rhs (SIZE S)) (\<lambda>d. rbind (PhysicalAddress_add self d)
       (PhysicalFrame_containing_address S))"

definition PhysicalFrame_sub :: "PageSize \<Rightarrow> PhysicalFrame \<Rightarrow> u64 \<Rightarrow> PhysicalFrame res" where
  "PhysicalFrame_sub S self rhs =
     rbind (op_mul rhs (SIZE S)) (\<lambda>d. rbind (PhysicalAddress_sub self d)
       (PhysicalFrame_containing_address S))"

definition PhysicalFrame_distance :: "PageSize \<Rightarrow> PhysicalFrame \<Rightarrow> PhysicalFrame \<Rightarrow> u64 res" where
  "PhysicalFrame_distance S self rhs = rbind (op_sub self rhs) (\<lambda>d. op_div d (SIZE S))"

definition PhysicalFrame_add_assign :: "PageSize \<Rightarrow> PhysicalFrame \<Rightarrow> u64 \<Rightarrow> PhysicalFrame res" where
  "PhysicalFrame_add_assign S self rhs =
     rbind (op_mul (SIZE S) rhs) (\<lambda>d. PhysicalAddress_add_assign self d)"

text \<open>\<open>PhysicalFrameRangeInclusive\<close> is the pair of its fields \<open>(start, end)\<close>.\<close>

fun PhysicalFrameRangeInclusive_next ::
    "PageSize \<Rightarrow> PhysicalFrame \<times> PhysicalFrame \<Rightarrow>
     (PhysicalFrame option \<times> (PhysicalFrame \<times> PhysicalFrame)) res" where
  "PhysicalFrameRangeInclusive_next S (start, stop) =
     (if start \<le> stop
      then rbind (PhysicalFrame_add_assign S start 1) (\<lambda>start'. Inr (Some start, (start', stop)))
      else Inr (None, (start, stop)))"

definition Page_containing_address :: "PageSize \<Rightarrow> VirtualAddress \<Rightarrow> Page res" where
  "Page_containing_address S address = VirtualAddress_align_down address (SIZE S)"

definition Page_for_address :: "PageSize \<Rightarrow> VirtualAddress \<Rightarrow> Page res" where
  "Page_for_address S address =
     rbind (VirtualAddress_is_aligned address (SIZE S)) (\<lambda>b. rbind (rassert b) (\<lambda>_. Inr address))"

definition Page_end :: "PageSize \<Rightarrow> Page \<Rightarrow> VirtualAddress res" where
  "Page_end S self = VirtualAddress_add self (SIZE S)"

definition Page_add :: "PageSize \<Rightarrow> Page \<Rightarrow> u64 \<Rightarrow> Page res" where
  "Page_add S self rhs =
     rbind (op_mul rhs (SIZE S)) (\<lambda>d. rbind (VirtualAddress_add self d)
       (Page_containing_address S))"

definition Page_sub :: "PageSize \<Rightarrow> Page \<Rightarrow> u64 \<Rightarrow> Page res" where
  "Page_sub S self rhs =
     rbind (op_mul rhs (SIZE S)) (\<lambda>d. rbind (VirtualAddress_sub self d)
       (Page_containing_address S))"

definition Page_distance :: "PageSize \<Rightarrow> Page \<Rightarrow> Page \<Rightarrow> u64 res" where
  "Page_distance S self rhs = rbind (op_sub self rhs) (\<lambda>d. op_div d (SIZE S))"

definition Page_add_assign :: "PageSize \<Rightarrow> Page \<Rightarrow> u64 \<Rightarrow> Page res" where
  "Page_add_assign S self rhs =
     rbind (op_mul (SIZE S) rhs) (\<lambda>d. VirtualAddress_add_assign self d)"

fun PageRangeInclusive_next ::
    "PageSize \<Rightarrow> Page \<times> Page \<Rightarrow> (Page option \<times> (Page \<times> Page)) res" where
  "PageRangeInclusive_next S (start, stop) =
     (if start \<le> stop
      then rbind (Page_add_assign S start 1) (\<lambda>start'. Inr (Some start, (start', stop)))
      else Inr (None, (start, stop)))"

text \<open>
  A \<open>for\<close> loop over an inclusive range: \<open>next\<close> runs before the body, and a fault of either
  ends the loop. The body maps the loop's state to the next one.
\<close>

lemma SIZE_pos: "0 < unat (SIZE S)"
  by (cases S) simp_all

lemma range_next_Some:
  "PhysicalFrameRangeInclusive_next S (start, stop) = Inr (Some x, (start', stop')) \<Longrightarrow>
     x = start \<and> stop' = stop \<and> start \<le> stop \<and> unat start' = unat start + unat (SIZE S)"
  "PageRangeInclusive_next S (start, stop) = Inr (Some x, (start', stop')) \<Longrightarrow>
     x = start \<and> stop' = stop \<and> start \<le> stop \<and> unat start' = unat start + unat (SIZE S)"
  by (auto simp: PhysicalFrame_add_assign_def PhysicalAddress_add_assign_def Page_add_assign_def
      VirtualAddress_add_assign_def rbind_eq_Inr op_eq_Inr split: if_splits)

declare PhysicalFrameRangeInclusive_next.simps [simp del] PageRangeInclusive_next.simps [simp del]

function frame_range_for ::
    "PageSize \<Rightarrow> (PhysicalFrame \<Rightarrow> 's \<Rightarrow> 's res) \<Rightarrow> PhysicalFrame \<times> PhysicalFrame \<Rightarrow> 's \<Rightarrow> 's res"
  where
  "frame_range_for S body r st =
     rbind (PhysicalFrameRangeInclusive_next S r) (\<lambda>(item, r').
       case item of None \<Rightarrow> Inr st
       | Some x \<Rightarrow> rbind (body x st) (frame_range_for S body r'))"
  by pat_completeness auto
termination
proof (relation "measure (\<lambda>(S, body, (start, stop), st). Suc (unat stop) - unat start)", goal_cases)
  case 1
  show ?case by simp
next
  case (2 S body r st x item r' x2 st')
  obtain start stop where r: "r = (start, stop)" by (cases r)
  obtain start' stop' where r': "r' = (start', stop')" by (cases r')
  from 2 r r' have "stop' = stop \<and> start \<le> stop \<and> unat start' = unat start + unat (SIZE S)"
    by (auto dest!: range_next_Some(1))
  with r r' SIZE_pos [of S] show ?case by (auto simp: word_le_nat_alt)
qed

function page_range_for ::
    "PageSize \<Rightarrow> (Page \<Rightarrow> 's \<Rightarrow> 's res) \<Rightarrow> Page \<times> Page \<Rightarrow> 's \<Rightarrow> 's res"
  where
  "page_range_for S body r st =
     rbind (PageRangeInclusive_next S r) (\<lambda>(item, r').
       case item of None \<Rightarrow> Inr st
       | Some x \<Rightarrow> rbind (body x st) (page_range_for S body r'))"
  by pat_completeness auto
termination
proof (relation "measure (\<lambda>(S, body, (start, stop), st). Suc (unat stop) - unat start)", goal_cases)
  case 1
  show ?case by simp
next
  case (2 S body r st x item r' x2 st')
  obtain start stop where r: "r = (start, stop)" by (cases r)
  obtain start' stop' where r': "r' = (start', stop')" by (cases r')
  from 2 r r' have "stop' = stop \<and> start \<le> stop \<and> unat start' = unat start + unat (SIZE S)"
    by (auto dest!: range_next_Some(2))
  with r r' SIZE_pos [of S] show ?case by (auto simp: word_le_nat_alt)
qed

declare frame_range_for.simps [simp del] page_range_for.simps [simp del]

section \<open>Alignment\<close>

lemma align_down_exp:
  assumes "k < 64"
  shows "PhysicalAddress_align_down a (2 ^ k) = Inr (a AND NOT (mask k))"
    and "VirtualAddress_align_down a (2 ^ k) = Inr (a AND NOT (mask k))"
proof -
  have "1 \<le> (2 :: u64) ^ k"
    using assms by (simp add: word_le_nat_alt unat_exp)
  then show "PhysicalAddress_align_down a (2 ^ k) = Inr (a AND NOT (mask k))"
    and "VirtualAddress_align_down a (2 ^ k) = Inr (a AND NOT (mask k))"
    by (simp_all add: PhysicalAddress_align_down_def VirtualAddress_align_down_def op_sub_def
        mask_eq_exp_minus_1_word)
qed

lemma align_up_exp:
  assumes "k < 64"
  shows "PhysicalAddress_align_up a (2 ^ k) =
           (if unat a + 2 ^ k < 2 ^ 64 then Inr ((a + mask k) AND NOT (mask k))
            else Inl Arithmetic_Overflow)"
    and "VirtualAddress_align_up a (2 ^ k) = PhysicalAddress_align_up a (2 ^ k)"
proof -
  have k: "unat ((2 :: u64) ^ k) = 2 ^ k" "1 \<le> (2 :: u64) ^ k"
    using assms by (simp_all add: word_le_nat_alt unat_exp)
  have "unat a + 2 ^ k < 2 ^ 64 \<Longrightarrow> 1 \<le> a + 2 ^ k"
    using k unat_plus_nowrap [of a "2 ^ k"] by (simp add: word_le_nat_alt Suc_le_eq)
  moreover have e: "a + 2 ^ k - 1 = a + mask k"
    by (simp add: mask_eq_exp_minus_1)
  ultimately show "PhysicalAddress_align_up a (2 ^ k) =
           (if unat a + 2 ^ k < 2 ^ 64 then Inr ((a + mask k) AND NOT (mask k))
            else Inl Arithmetic_Overflow)"
    using k by (simp add: PhysicalAddress_align_up_def op_add_def op_sub_def e
        mask_eq_exp_minus_1_word)
  show "VirtualAddress_align_up a (2 ^ k) = PhysicalAddress_align_up a (2 ^ k)"
    by (simp add: PhysicalAddress_align_up_def VirtualAddress_align_up_def)
qed

fun SHIFT :: "PageSize \<Rightarrow> nat" where
  "SHIFT Size4KiB = 12"
| "SHIFT Size2MiB = 21"

lemma SIZE_eq_exp: "SIZE S = 2 ^ SHIFT S"
  by (cases S) simp_all

lemma unat_SIZE: "unat (SIZE S) = 2 ^ SHIFT S"
  by (cases S) simp_all

lemma SHIFT_less_64 [simp]: "SHIFT S < 64"
  by (cases S) simp_all

lemma containing_address [simp]:
  "PhysicalFrame_containing_address S a = Inr (a AND NOT (mask (SHIFT S)))"
  "Page_containing_address S a = Inr (a AND NOT (mask (SHIFT S)))"
  by (simp_all add: PhysicalFrame_containing_address_def Page_containing_address_def SIZE_eq_exp
      align_down_exp)

definition page_aligned :: "PageSize \<Rightarrow> u64 \<Rightarrow> bool" where
  "page_aligned S a \<longleftrightarrow> unat a mod 2 ^ SHIFT S = 0"

lemma page_aligned_iff_dvd: "page_aligned S a \<longleftrightarrow> 2 ^ SHIFT S dvd unat a"
  by (simp add: page_aligned_def dvd_eq_mod_eq_0)

lemma page_aligned_containing [simp]: "page_aligned S (a AND NOT (mask (SHIFT S)))"
  by (simp add: page_aligned_iff_dvd dvd_unat_and_not_mask)

lemma containing_aligned: "page_aligned S a \<Longrightarrow> a AND NOT (mask (SHIFT S)) = a"
  by (simp add: page_aligned_iff_dvd and_not_mask_of_aligned)

lemma Page_for_address_aligned: "page_aligned S a \<Longrightarrow> Page_for_address S a = Inr a"
  by (simp add: Page_for_address_def VirtualAddress_is_aligned_def SIZE_eq_exp op_sub_def
      word_le_nat_alt unat_exp mask_eq_exp_minus_1_word and_mask_eq_0_iff page_aligned_iff_dvd)

section \<open>Loops over ranges\<close>

fun rfold :: "('x \<Rightarrow> 's \<Rightarrow> 's res) \<Rightarrow> 'x list \<Rightarrow> 's \<Rightarrow> 's res" where
  "rfold body [] st = Inr st"
| "rfold body (x # xs) st = rbind (body x st) (rfold body xs)"

lemma rfold_append: "rfold body (xs @ ys) st = rbind (rfold body xs st) (rfold body ys)"
  by (induction xs arbitrary: st) (auto simp: rbind_assoc intro!: rbind_cong)

definition range_items :: "PageSize \<Rightarrow> u64 \<Rightarrow> u64 \<Rightarrow> u64 list" where
  "range_items S start stop =
     map (\<lambda>i. start + of_nat i * SIZE S)
       [0 ..< if start \<le> stop then (unat stop - unat start) div unat (SIZE S) + 1 else 0]"

lemma range_items_Cons:
  assumes "start \<le> stop" and "unat start + unat (SIZE S) < 2 ^ 64"
  shows "range_items S start stop = start # range_items S (start + SIZE S) stop"
proof -
  let ?z = "unat (SIZE S)" and ?d = "unat stop - unat start"
  have u: "unat (start + SIZE S) = unat start + ?z"
    using assms(2) by (simp add: unat_plus_nowrap)
  have n: "(if start + SIZE S \<le> stop then (unat stop - unat (start + SIZE S)) div ?z + 1 else 0)
      = ?d div ?z"
  proof (cases "?z \<le> ?d")
    case True
    then have "?d div ?z = (?d - ?z) div ?z + 1"
      by (simp add: SIZE_pos le_div_geq)
    with True assms(1) show ?thesis by (auto simp: word_le_nat_alt u)
  next
    case False
    with assms(1) show ?thesis by (auto simp: word_le_nat_alt u)
  qed
  have "[0 ..< ?d div ?z + 1] = 0 # map Suc [0 ..< ?d div ?z]"
    by (simp add: map_Suc_upt upt_conv_Cons)
  with assms(1) show ?thesis
    by (simp only: range_items_def n) (simp add: algebra_simps)
qed

lemma page_range_for_items:
  assumes "unat stop + unat (SIZE S) < 2 ^ 64"
  shows "page_range_for S body (start, stop) st = rfold body (range_items S start stop) st"
  using assms
proof (induction S body "(start, stop)" st arbitrary: start rule: page_range_for.induct)
  case (1 S body st start)
  show ?case
  proof (cases "start \<le> stop")
    case False
    then show ?thesis
      by (subst page_range_for.simps) (simp add: PageRangeInclusive_next.simps range_items_def)
  next
    case True
    with 1(2) have lt: "unat start + unat (SIZE S) < 2 ^ 64"
      by (simp add: word_le_nat_alt)
    then have nx: "PageRangeInclusive_next S (start, stop) = Inr (Some start, (start + SIZE S, stop))"
      using True by (simp add: PageRangeInclusive_next.simps Page_add_assign_def
          VirtualAddress_add_assign_def op_mul_def op_add_def)
    show ?thesis
      using 1(1) [OF nx refl refl] 1(2) nx True lt
      by (subst page_range_for.simps) (auto simp: range_items_Cons intro!: rbind_cong)
  qed
qed

lemma frame_range_for_eq_page_range_for: "frame_range_for S body r st = page_range_for S body r st"
proof (induction S body r st rule: frame_range_for.induct)
  case (1 S body r st)
  have "PhysicalFrameRangeInclusive_next S r = PageRangeInclusive_next S r"
    by (cases r) (simp add: PhysicalFrameRangeInclusive_next.simps PageRangeInclusive_next.simps
        PhysicalFrame_add_assign_def PhysicalAddress_add_assign_def Page_add_assign_def
        VirtualAddress_add_assign_def)
  with 1 show ?case
    by (subst frame_range_for.simps, subst page_range_for.simps)
      (auto intro!: rbind_cong split: option.splits)
qed

lemma frame_range_for_items:
  "unat stop + unat (SIZE S) < 2 ^ 64 \<Longrightarrow>
     frame_range_for S body (start, stop) st = rfold body (range_items S start stop) st"
  by (simp add: frame_range_for_eq_page_range_for page_range_for_items)

section \<open>The interfaces of the module\<close>

text \<open>
  The trait \<open>MemoryRegion\<close>: what the frame allocators and the boot code rely on. Its three
  implementations provide it (\<open>Region\<close> and \<open>PhysicalMemoryRegion\<close> here,
  \<open>E820MemoryRegion\<close> in the theory of the BIOS structures).
\<close>

locale memory_region =
  fixes D :: "'d MemoryRegion"
  assumes start_set_start: "mr_start D (mr_set_start D r s) = s"
    and size_set_start: "mr_size D (mr_set_start D r s) = mr_size D r"
    and is_usable_set_start: "mr_is_usable D (mr_set_start D r s) = mr_is_usable D r"
    and start_set_size: "mr_start D (mr_set_size D r s) = mr_start D r"
    and size_set_size: "mr_size D (mr_set_size D r s) = s"
    and end_eq: "mr_end D r = op_add (mr_start D r) (mr_size D r)"
    and contains_eq: "mr_contains D r a =
          (if mr_start D r \<le> a then rbind (mr_end D r) (\<lambda>e. Inr (a \<le> e)) else Inr False)"
begin

text \<open>\<open>contains\<close> is inclusive: it accepts the first address behind the region.\<close>

lemma contains_inclusive:
  assumes "unat (mr_start D r) + unat (mr_size D r) < 2 ^ 64"
  shows "mr_contains D r a =
           Inr (unat (mr_start D r) \<le> unat a \<and> unat a \<le> unat (mr_start D r) + unat (mr_size D r))"
  using assms by (auto simp: contains_eq end_eq op_add_def word_le_nat_alt unat_plus_nowrap)

text \<open>\<open>set_start\<close> moves the whole region: its end moves with its start.\<close>

lemma end_set_start: "mr_end D (mr_set_start D r s) = op_add s (mr_size D r)"
  by (simp add: end_eq start_set_start size_set_start)

end

interpretation region: memory_region Region_MemoryRegion
  by unfold_locales (simp_all add: Region_MemoryRegion_def Region_end_def Region_contains_def)

interpretation physical_region: memory_region PhysicalMemoryRegion_MemoryRegion
  by unfold_locales (simp_all add: PhysicalMemoryRegion_MemoryRegion_def
      PhysicalMemoryRegion_end_def PhysicalMemoryRegion_contains_def
      PhysicalMemoryRegion_is_usable_def)

text \<open>
  The trait \<open>FrameAllocator<Size4KiB>\<close>: its safety contract is that \<open>allocate_frame\<close>
  returns only unique unused frames. \<open>avail a\<close> is the set of the frames allocator \<open>a\<close> may
  still hand out; \<open>allocs\<close> collects the frames of successive calls.
\<close>

fun allocs :: "('a \<Rightarrow> (PhysicalFrame option \<times> 'a) res) \<Rightarrow> nat \<Rightarrow> 'a \<Rightarrow> (PhysicalFrame list \<times> 'a) res"
  where
  "allocs alloc 0 a = Inr ([], a)"
| "allocs alloc (Suc n) a =
     rbind (alloc a) (\<lambda>(fo, a'). case fo of None \<Rightarrow> Inr ([], a')
       | Some f \<Rightarrow> rbind (allocs alloc n a') (\<lambda>(fs, a''). Inr (f # fs, a'')))"

locale frame_allocator =
  fixes allocate_frame :: "'a \<Rightarrow> (PhysicalFrame option \<times> 'a) res"
    and inv :: "'a \<Rightarrow> bool"
    and avail :: "'a \<Rightarrow> PhysicalFrame set"
  assumes inv_step: "inv a \<Longrightarrow> allocate_frame a = Inr (fo, a') \<Longrightarrow> inv a'"
    and avail_step: "inv a \<Longrightarrow> allocate_frame a = Inr (fo, a') \<Longrightarrow> avail a' \<subseteq> avail a"
    and frame_avail: "inv a \<Longrightarrow> allocate_frame a = Inr (Some f, a') \<Longrightarrow> f \<in> avail a - avail a'"
    and frame_aligned: "inv a \<Longrightarrow> allocate_frame a = Inr (Some f, a') \<Longrightarrow> page_aligned Size4KiB f"
begin

lemma allocs_avail:
  assumes "inv a" "allocs allocate_frame n a = Inr (fs, a')"
  shows "inv a' \<and> avail a' \<subseteq> avail a \<and> set fs \<subseteq> avail a - avail a' \<and> distinct fs"
  using assms
proof (induction n arbitrary: a fs a')
  case 0
  then show ?case by simp
next
  case (Suc n)
  then obtain fo a1 where a1: "allocate_frame a = Inr (fo, a1)"
    by (auto simp: rbind_eq_Inr)
  note step = inv_step [OF Suc.prems(1) a1] avail_step [OF Suc.prems(1) a1]
  show ?case
  proof (cases fo)
    case None
    with Suc.prems a1 step show ?thesis by auto
  next
    case (Some f)
    with Suc.prems a1 obtain fs1 where fs1: "allocs allocate_frame n a1 = Inr (fs1, a')" "fs = f # fs1"
      by (auto simp: rbind_eq_Inr)
    from Suc.IH [OF step(1) fs1(1)] frame_avail [OF Suc.prems(1) a1 [unfolded Some]] step fs1(2)
    show ?thesis by auto
  qed
qed

end

section \<open>Properties\<close>

text \<open>
  C32. \<open>align_up\<close> and \<open>align_down\<close> with a power of two: \<open>align_down\<close> gives the largest multiple
  that is not above the address; \<open>align_up\<close> gives the smallest multiple that is not below it,
  and panics exactly when the address plus the alignment does not fit in 64 bits.
\<close>

theorem address_alignment:
  assumes "k < 64"
  shows "\<exists>d. VirtualAddress_align_down a (2 ^ k) = Inr d \<and> unat d = unat a div 2 ^ k * 2 ^ k \<and>
     (if unat a + 2 ^ k < 2 ^ 64
      then \<exists>u. VirtualAddress_align_up a (2 ^ k) = Inr u \<and>
             unat u = (unat a + 2 ^ k - 1) div 2 ^ k * 2 ^ k
      else VirtualAddress_align_up a (2 ^ k) = Inl Arithmetic_Overflow)"
proof -
  have down: "unat (x AND NOT (mask k)) = unat x div 2 ^ k * 2 ^ k" for x :: u64
    by (simp add: unat_and_not_mask minus_mod_eq_div_mult)
  have "unat (a + mask k) = unat a + 2 ^ k - 1" if "unat a + 2 ^ k < 2 ^ 64"
  proof -
    have "unat (mask k :: u64) = 2 ^ k - 1" using assms
      by (simp add: mask_eq_exp_minus_1 unat_sub word_le_nat_alt unat_exp)
    with that show ?thesis by (simp add: unat_plus_nowrap)
  qed
  with align_down_exp(2) [OF assms, of a] align_up_exp [OF assms, of a] down show ?thesis by simp
qed

theorem address_alignment_witness:
  "\<exists>d. VirtualAddress_align_down 0x1234 (2 ^ 12) = Inr d \<and> unat d = 0x1000"
  using address_alignment [of 12 "0x1234"] by auto

text \<open>
  C34. A \<open>for\<close> loop over \<open>Page::range_inclusive(start, end)\<close> runs its body on the pages
  \<open>start, start + SIZE, \<dots>\<close> up to \<open>end\<close>, each once and in this order, and stops at the first
  fault of the body, provided that the page behind \<open>end\<close> has an address.
\<close>

theorem page_range_visits_pages:
  assumes "unat stop + unat (SIZE S) < 2 ^ 64"
  shows "page_range_for S body (start, stop) st =
     rfold body (map (\<lambda>i. start + of_nat i * SIZE S)
       [0 ..< if start \<le> stop then (unat stop - unat start) div unat (SIZE S) + 1 else 0]) st"
  by (rule page_range_for_items [OF assms, unfolded range_items_def])

theorem page_range_visits_pages_witness:
  "page_range_for Size4KiB (\<lambda>p acc. Inr (acc @ [p])) (0x1000, 0x3000) [] =
     Inr [0x1000, 0x2000, 0x3000 :: u64]"
  by (subst page_range_visits_pages) (simp_all add: upt_rec)

text \<open>
  A range that ends at the last page of the address space cannot be iterated: after the body ran
  on the last page, \<open>start += 1\<close> overflows and the iterator panics.
\<close>

theorem page_range_last_page_panics:
  "page_range_for Size4KiB (\<lambda>p acc. Inr (acc @ [p])) (0xFFFFFFFFFFFFF000, 0xFFFFFFFFFFFFF000) [] =
     Inl Arithmetic_Overflow"
  by (subst page_range_for.simps)
    (simp add: PageRangeInclusive_next.simps Page_add_assign_def VirtualAddress_add_assign_def
      op_mul_def op_add_def)

end
