(* ===== verification/Paging.thy ===== *)
theory Paging
  imports Memory
begin

text \<open>
  Page tables: the entries and tables of \<open>x86_64/src/paging/mod.rs\<close>, the walker and the mapper of
  \<open>mapped_page_table.rs\<close> and \<open>offset_page_table.rs\<close>.

  Tables live in memory and are changed through references into it, so the model has an explicit
  store: \<open>table_memory\<close> gives the 8-byte word at each address, and a \<open>&mut PageTable\<close> or
  \<open>&mut PageTableEntry\<close> is its address. A reference to a table at a null or misaligned address is
  undefined behaviour. The trait \<open>PageTableFrameMapping\<close> is its one method
  \<open>frame_to_virtual\<close>, an argument \<open>P\<close>; the frame allocator is its method \<open>allocate_frame\<close> with
  its state. The result of the TLB flush a mapping returns is the page it names.
\<close>

section \<open>Page table entries\<close>

type_synonym PageTableEntryFlags = u64
type_synonym PageTableEntry = u64

definition NONE :: PageTableEntryFlags where "NONE = 0"
definition PRESENT :: PageTableEntryFlags where "PRESENT = 1"
definition WRITABLE :: PageTableEntryFlags where "WRITABLE = push_bit 1 1"
definition USER_ACCESSIBLE :: PageTableEntryFlags where "USER_ACCESSIBLE = push_bit 2 1"
definition HUGE_PAGE :: PageTableEntryFlags where "HUGE_PAGE = push_bit 7 1"
definition NO_EXECUTE :: PageTableEntryFlags where "NO_EXECUTE = push_bit 63 1"

text \<open>The union of all declared flags: bits 0 to 11 and 52 to 63.\<close>

definition all_entry_flags :: PageTableEntryFlags where
  "all_entry_flags = 0xFFF0000000000FFF"

definition TABLE_ENTRY_COUNT :: nat where "TABLE_ENTRY_COUNT = 512"

definition PageTableEntry_is_present :: "PageTableEntry \<Rightarrow> bool" where
  "PageTableEntry_is_present self \<longleftrightarrow> self AND PRESENT \<noteq> 0"

definition PageTableEntry_is_unused :: "PageTableEntry \<Rightarrow> bool" where
  "PageTableEntry_is_unused self \<longleftrightarrow> self = 0"

definition PageTableEntry_address :: "crates \<Rightarrow> PageTableEntry \<Rightarrow> PhysicalAddress" where
  "PageTableEntry_address C self = push_bit 12 (get_bits C self 12 48)"

definition PageTableEntry_physical_frame :: "crates \<Rightarrow> PageTableEntry \<Rightarrow> PhysicalFrame res" where
  "PageTableEntry_physical_frame C self =
     PhysicalFrame_containing_address Size4KiB (PageTableEntry_address C self)"

definition PageTableEntry_set_address ::
    "PhysicalAddress \<Rightarrow> PageTableEntryFlags \<Rightarrow> PageTableEntry" where
  "PageTableEntry_set_address addr flags = addr OR flags"

definition PageTableEntry_flags :: "crates \<Rightarrow> PageTableEntry \<Rightarrow> PageTableEntryFlags" where
  "PageTableEntry_flags C self = flags_from_bits_truncate C all_entry_flags self"

definition PageTableEntry_set_flags :: "PageTableEntryFlags \<Rightarrow> PageTableEntry" where
  "PageTableEntry_set_flags flags = flags"

definition PageTableEntry_add_flags ::
    "PageTableEntry \<Rightarrow> PageTableEntryFlags \<Rightarrow> PageTableEntry" where
  "PageTableEntry_add_flags self flags = self OR flags"

definition PageTableEntry_set_unused :: "PageTableEntry" where
  "PageTableEntry_set_unused = 0"

section \<open>Page tables in memory\<close>

type_synonym table_memory = "u64 \<Rightarrow> u64"

definition PageTable_SIZE :: u64 where "PageTable_SIZE = 4096"

text \<open>\<open>&mut table[index]\<close>: the address of an entry, after the bounds check.\<close>

definition PageTable_index :: "VirtualAddress \<Rightarrow> nat \<Rightarrow> u64 res" where
  "PageTable_index table index =
     (if index < TABLE_ENTRY_COUNT then Inr (table + of_nat (8 * index)) else Inl Index_Out_Of_Bounds)"

definition write_empty_table :: "table_memory \<Rightarrow> VirtualAddress \<Rightarrow> table_memory" where
  "write_empty_table m table = (\<lambda>x. if x AND NOT (mask 12) = table then 0 else m x)"

definition PageTable_initialize_empty_at_address ::
    "table_memory \<Rightarrow> VirtualAddress \<Rightarrow> table_memory res" where
  "PageTable_initialize_empty_at_address m address =
     (if address mod PageTable_SIZE \<noteq> 0 then Inl Assertion_Failed
      else if address = 0 then Inl Undefined_Behaviour
      else Inr (write_empty_table m address))"

definition PageTable_at_address :: "VirtualAddress \<Rightarrow> VirtualAddress res" where
  "PageTable_at_address address =
     (if address = 0 \<or> address mod PageTable_SIZE \<noteq> 0 then Inl Undefined_Behaviour else Inr address)"

datatype MappingError = FrameAllocationFailed | PageAlreadyMapped
datatype UnmappingError = PageNotMapped
datatype TranslationError = NotMapped

section \<open>The page table walker\<close>

type_synonym frame_mapping = "PhysicalFrame \<Rightarrow> VirtualAddress res"
type_synonym 'a allocate = "'a \<Rightarrow> (PhysicalFrame option \<times> 'a) res"

definition get_or_allocate_pagetable ::
    "crates \<Rightarrow> frame_mapping \<Rightarrow> 'a allocate \<Rightarrow> table_memory \<Rightarrow> u64 \<Rightarrow> PageTableEntryFlags \<Rightarrow> 'a \<Rightarrow>
     (VirtualAddress option \<times> table_memory \<times> 'a) res" where
  "get_or_allocate_pagetable C P allocate m entry flags allocator =
     (if PageTableEntry_is_unused (m entry)
      then rbind (allocate allocator) (\<lambda>(frame, allocator').
           case frame of
             None \<Rightarrow> Inr (None, m, allocator')
           | Some f \<Rightarrow>
               let m' = m(entry := PageTableEntry_set_address f flags) in
               rbind (P f) (\<lambda>virtual_address.
               rbind (PageTable_initialize_empty_at_address m' virtual_address) (\<lambda>m''.
               Inr (Some virtual_address, m'', allocator'))))
      else let m' = (if \<not> flags_is_empty C flags \<and>
                        \<not> flags_contains C (PageTableEntry_flags C (m entry)) flags
                     then m(entry := PageTableEntry_add_flags (m entry) flags) else m) in
           rbind (PageTableEntry_physical_frame C (m' entry)) (\<lambda>f.
           rbind (P f) (\<lambda>virtual_address.
           rbind (PageTable_at_address virtual_address) (\<lambda>table.
           Inr (Some table, m', allocator)))))"

definition get_pagetable ::
    "crates \<Rightarrow> frame_mapping \<Rightarrow> table_memory \<Rightarrow> u64 \<Rightarrow> VirtualAddress option res" where
  "get_pagetable C P m entry =
     (if PageTableEntry_is_unused (m entry) then Inr None
      else rbind (PageTableEntry_physical_frame C (m entry)) (\<lambda>f.
           rbind (P f) (\<lambda>virtual_address.
           rbind (PageTable_at_address virtual_address) (\<lambda>table. Inr (Some table)))))"

section \<open>The mapper\<close>

definition parent_flags :: "crates \<Rightarrow> PageTableEntryFlags" where
  "parent_flags C = flags_union C (flags_union C PRESENT WRITABLE) USER_ACCESSIBLE"

text \<open>
  One level of \<open>map_to\<close>: the table below entry \<open>index\<close> of \<open>table\<close>, or the early return with
  \<open>FrameAllocationFailed\<close>. The continuation is the rest of the function.
\<close>

definition map_level ::
    "crates \<Rightarrow> frame_mapping \<Rightarrow> 'a allocate \<Rightarrow> VirtualAddress \<Rightarrow> nat \<Rightarrow> table_memory \<Rightarrow> 'a \<Rightarrow>
     (VirtualAddress \<Rightarrow> table_memory \<Rightarrow> 'a \<Rightarrow> ((MappingError + Page) \<times> table_memory \<times> 'a) res) \<Rightarrow>
     ((MappingError + Page) \<times> table_memory \<times> 'a) res" where
  "map_level C P allocate table index m allocator rest =
     rbind (PageTable_index table index) (\<lambda>entry.
     rbind (get_or_allocate_pagetable C P allocate m entry (parent_flags C) allocator)
       (\<lambda>(next_table, m', allocator').
          case next_table of
            None \<Rightarrow> Inr (Inl FrameAllocationFailed, m', allocator')
          | Some t \<Rightarrow> rest t m' allocator'))"

definition set_leaf ::
    "VirtualAddress \<Rightarrow> nat \<Rightarrow> PhysicalAddress \<Rightarrow> PageTableEntryFlags \<Rightarrow> Page \<Rightarrow> table_memory \<Rightarrow> 'a \<Rightarrow>
     ((MappingError + Page) \<times> table_memory \<times> 'a) res" where
  "set_leaf table index frame flags page m allocator =
     rbind (PageTable_index table index) (\<lambda>pte.
       if PageTableEntry_is_present (m pte) then Inr (Inl PageAlreadyMapped, m, allocator)
       else Inr (Inr page, m(pte := PageTableEntry_set_address frame flags), allocator))"

definition map_to_4KiB ::
    "crates \<Rightarrow> frame_mapping \<Rightarrow> 'a allocate \<Rightarrow> VirtualAddress \<Rightarrow>
     PhysicalFrame \<Rightarrow> Page \<Rightarrow> PageTableEntryFlags \<Rightarrow> table_memory \<Rightarrow> 'a \<Rightarrow>
     ((MappingError + Page) \<times> table_memory \<times> 'a) res" where
  "map_to_4KiB C P allocate pml4t frame page flags m allocator =
     map_level C P allocate pml4t (l4_index C page) m allocator (\<lambda>l3 m allocator.
     map_level C P allocate l3 (l3_index C page) m allocator (\<lambda>l2 m allocator.
     map_level C P allocate l2 (l2_index C page) m allocator (\<lambda>l1 m allocator.
     set_leaf l1 (l1_index C page) frame flags page m allocator)))"

definition map_to_2MiB ::
    "crates \<Rightarrow> frame_mapping \<Rightarrow> 'a allocate \<Rightarrow> VirtualAddress \<Rightarrow>
     PhysicalFrame \<Rightarrow> Page \<Rightarrow> PageTableEntryFlags \<Rightarrow> table_memory \<Rightarrow> 'a \<Rightarrow>
     ((MappingError + Page) \<times> table_memory \<times> 'a) res" where
  "map_to_2MiB C P allocate pml4t frame page flags m allocator =
     map_level C P allocate pml4t (l4_index C page) m allocator (\<lambda>l3 m allocator.
     map_level C P allocate l3 (l3_index C page) m allocator (\<lambda>l2 m allocator.
     set_leaf l2 (l2_index C page) frame (flags_union C flags HUGE_PAGE) page m allocator))"

definition identity_map_4KiB ::
    "crates \<Rightarrow> frame_mapping \<Rightarrow> 'a allocate \<Rightarrow> VirtualAddress \<Rightarrow>
     PhysicalFrame \<Rightarrow> PageTableEntryFlags \<Rightarrow> table_memory \<Rightarrow> 'a \<Rightarrow>
     ((MappingError + Page) \<times> table_memory \<times> 'a) res" where
  "identity_map_4KiB C P allocate pml4t frame flags m allocator =
     rbind (Page_containing_address Size4KiB frame) (\<lambda>page.
     map_to_4KiB C P allocate pml4t frame page flags m allocator)"

definition identity_map_2MiB ::
    "crates \<Rightarrow> frame_mapping \<Rightarrow> 'a allocate \<Rightarrow> VirtualAddress \<Rightarrow>
     PhysicalFrame \<Rightarrow> PageTableEntryFlags \<Rightarrow> table_memory \<Rightarrow> 'a \<Rightarrow>
     ((MappingError + Page) \<times> table_memory \<times> 'a) res" where
  "identity_map_2MiB C P allocate pml4t frame flags m allocator =
     rbind (Page_containing_address Size2MiB frame) (\<lambda>page.
     map_to_2MiB C P allocate pml4t frame page flags m allocator)"

text \<open>One level of a walk that does not allocate; \<open>missing\<close> is what the caller does without a table.\<close>

definition walk_level ::
    "crates \<Rightarrow> frame_mapping \<Rightarrow> table_memory \<Rightarrow> 'b res \<Rightarrow> VirtualAddress \<Rightarrow> nat \<Rightarrow>
     (VirtualAddress \<Rightarrow> 'b res) \<Rightarrow> 'b res" where
  "walk_level C P m missing table index rest =
     rbind (PageTable_index table index) (\<lambda>entry.
     rbind (get_pagetable C P m entry) (\<lambda>next_table.
       case next_table of None \<Rightarrow> missing | Some t \<Rightarrow> rest t))"

definition clear_leaf ::
    "crates \<Rightarrow> PageSize \<Rightarrow> table_memory \<Rightarrow> Page \<Rightarrow> VirtualAddress \<Rightarrow> nat \<Rightarrow>
     ((UnmappingError + PhysicalFrame \<times> Page) \<times> table_memory) res" where
  "clear_leaf C S m page table index =
     rbind (PageTable_index table index) (\<lambda>pte.
       if \<not> flags_contains C (PageTableEntry_flags C (m pte)) PRESENT
       then Inr (Inl PageNotMapped, m)
       else let m' = m(pte := PageTableEntry_set_unused) in
            rbind (PhysicalFrame_containing_address S (PageTableEntry_address C (m' pte))) (\<lambda>frame.
            Inr (Inr (frame, page), m')))"

definition unmap_4KiB ::
    "crates \<Rightarrow> frame_mapping \<Rightarrow> VirtualAddress \<Rightarrow> Page \<Rightarrow> table_memory \<Rightarrow>
     ((UnmappingError + PhysicalFrame \<times> Page) \<times> table_memory) res" where
  "unmap_4KiB C P pml4t page m =
     walk_level C P m (Inl Unwrap_None) pml4t (l4_index C page) (\<lambda>l3.
     walk_level C P m (Inl Unwrap_None) l3 (l3_index C page) (\<lambda>l2.
     walk_level C P m (Inl Unwrap_None) l2 (l2_index C page) (\<lambda>l1.
     clear_leaf C Size4KiB m page l1 (l1_index C page))))"

definition unmap_2MiB ::
    "crates \<Rightarrow> frame_mapping \<Rightarrow> VirtualAddress \<Rightarrow> Page \<Rightarrow> table_memory \<Rightarrow>
     ((UnmappingError + PhysicalFrame \<times> Page) \<times> table_memory) res" where
  "unmap_2MiB C P pml4t page m =
     walk_level C P m (Inl Unwrap_None) pml4t (l4_index C page) (\<lambda>l3.
     walk_level C P m (Inl Unwrap_None) l3 (l3_index C page) (\<lambda>l2.
     clear_leaf C Size2MiB m page l2 (l2_index C page)))"

definition read_leaf ::
    "crates \<Rightarrow> PageSize \<Rightarrow> table_memory \<Rightarrow> VirtualAddress \<Rightarrow> nat \<Rightarrow>
     (TranslationError + PhysicalFrame \<times> PageTableEntryFlags) res" where
  "read_leaf C S m table index =
     rbind (PageTable_index table index) (\<lambda>pte.
       if PageTableEntry_is_present (m pte)
       then rbind (PhysicalFrame_containing_address S (PageTableEntry_address C (m pte))) (\<lambda>frame.
            Inr (Inr (frame, PageTableEntry_flags C (m pte))))
       else Inr (Inl NotMapped))"

definition translate_4KiB ::
    "crates \<Rightarrow> frame_mapping \<Rightarrow> VirtualAddress \<Rightarrow> table_memory \<Rightarrow> Page \<Rightarrow>
     (TranslationError + PhysicalFrame \<times> PageTableEntryFlags) res" where
  "translate_4KiB C P pml4t m page =
     walk_level C P m (Inr (Inl NotMapped)) pml4t (l4_index C page) (\<lambda>l3.
     walk_level C P m (Inr (Inl NotMapped)) l3 (l3_index C page) (\<lambda>l2.
     walk_level C P m (Inr (Inl NotMapped)) l2 (l2_index C page) (\<lambda>l1.
     read_leaf C Size4KiB m l1 (l1_index C page))))"

definition translate_2MiB ::
    "crates \<Rightarrow> frame_mapping \<Rightarrow> VirtualAddress \<Rightarrow> table_memory \<Rightarrow> Page \<Rightarrow>
     (TranslationError + PhysicalFrame \<times> PageTableEntryFlags) res" where
  "translate_2MiB C P pml4t m page =
     walk_level C P m (Inr (Inl NotMapped)) pml4t (l4_index C page) (\<lambda>l3.
     walk_level C P m (Inr (Inl NotMapped)) l3 (l3_index C page) (\<lambda>l2.
     read_leaf C Size2MiB m l2 (l2_index C page)))"

text \<open>
  \<open>OffsetPageTable\<close>: the mapper above over the mapping \<open>PhysicalOffset\<close>, whose methods it calls
  unchanged.
\<close>

definition PhysicalOffset_frame_to_virtual :: "u64 \<Rightarrow> frame_mapping" where
  "PhysicalOffset_frame_to_virtual offset frame = op_add offset frame"

definition OffsetPageTable_map_to_4KiB where
  "OffsetPageTable_map_to_4KiB C offset = map_to_4KiB C (PhysicalOffset_frame_to_virtual offset)"

definition OffsetPageTable_map_to_2MiB where
  "OffsetPageTable_map_to_2MiB C offset = map_to_2MiB C (PhysicalOffset_frame_to_virtual offset)"

definition OffsetPageTable_unmap_4KiB where
  "OffsetPageTable_unmap_4KiB C offset = unmap_4KiB C (PhysicalOffset_frame_to_virtual offset)"

definition OffsetPageTable_unmap_2MiB where
  "OffsetPageTable_unmap_2MiB C offset = unmap_2MiB C (PhysicalOffset_frame_to_virtual offset)"

definition OffsetPageTable_translate_4KiB where
  "OffsetPageTable_translate_4KiB C offset = translate_4KiB C (PhysicalOffset_frame_to_virtual offset)"

definition OffsetPageTable_translate_2MiB where
  "OffsetPageTable_translate_2MiB C offset = translate_2MiB C (PhysicalOffset_frame_to_virtual offset)"

end
