(* ===== verification/Page_Tree.thy ===== *)
theory Page_Tree
  imports Paging
begin

text \<open>
  The page tables in memory as a tree. A table is found by the path of the indices that lead to it
  from the level 4 table; the invariant says that no two paths lead to the same table. Two updates
  keep it: writing an entry without changing the table it points to, and hanging a fresh empty
  table below an unused entry. The processor's own walk (\<open>mmu_lookup\<close>) is the specification the
  mapper is held to.
\<close>

section \<open>The bits of an entry\<close>

definition frame_of :: "PageTableEntry \<Rightarrow> PhysicalFrame" where
  "frame_of e = push_bit 12 (take_bit 36 (drop_bit 12 e))"

definition frame_bits_ok :: "PhysicalFrame \<Rightarrow> bool" where
  "frame_bits_ok f \<longleftrightarrow> frame_of f = f"

definition flag_bits_ok :: "PageTableEntryFlags \<Rightarrow> bool" where
  "flag_bits_ok flags \<longleftrightarrow> frame_of flags = 0"

lemma bit_frame_of: "bit (frame_of e) n \<longleftrightarrow> 12 \<le> n \<and> n < 48 \<and> bit e n"
  by (auto simp: frame_of_def bit_simps)

lemma frame_of_eq_and: "frame_of e = e AND 0xFFFFFFFFF000"
proof -
  have "frame_of e = e AND push_bit 12 (mask 36)"
    by (rule bit_word_eqI) (auto simp: bit_frame_of bit_simps)
  also have "push_bit 12 (mask 36) = (0xFFFFFFFFF000 :: u64)" by (simp add: mask_eq_exp_minus_1)
  finally show ?thesis .
qed

lemma frame_of_or: "frame_of (a OR b) = frame_of a OR frame_of b"
  by (rule bit_word_eqI) (auto simp: bit_frame_of bit_or_iff)

lemma frame_of_entry: "frame_bits_ok f \<Longrightarrow> flag_bits_ok fl \<Longrightarrow> frame_of (f OR fl) = f"
  by (simp add: frame_of_or frame_bits_ok_def flag_bits_ok_def)

lemma frame_of_add_flags: "flag_bits_ok fl \<Longrightarrow> frame_of (e OR fl) = frame_of e"
  by (simp add: frame_of_or flag_bits_ok_def)

lemma frame_of_aligned: "frame_of e AND NOT (mask 12) = frame_of e"
  by (rule bit_word_eqI) (auto simp: bit_frame_of bit_simps)

lemma frame_bits_okI:
  assumes "page_aligned Size4KiB f" "unat f < 2 ^ 48"
  shows "frame_bits_ok f"
proof -
  have "f AND mask 12 = 0" using assms(1) by (simp add: page_aligned_iff_dvd and_mask_eq_0_iff)
  then have low: "\<not> bit f n" if "n < 12" for n
    using that by (metis bit_and_iff bit_mask_iff bit_0_eq bot_apply bot_bool_def bit_imp_le_length possible_bit_word)
  have high: "n < 48" if "bit f n" for n
  proof (rule ccontr)
    assume "\<not> n < 48"
    then have "(2 :: nat) ^ 48 \<le> 2 ^ n" by (intro power_increasing) simp_all
    with assms(2) have "unat f div 2 ^ n = 0" by (intro div_less) simp
    with that show False by (simp add: unat_div_exp_eq_iff_bit)
  qed
  have "frame_of f = f"
    by (rule bit_word_eqI) (use low high in \<open>auto simp: bit_frame_of not_less [symmetric]\<close>)
  then show ?thesis by (simp add: frame_bits_ok_def)
qed

lemma entry_address:
  assumes "crates_ok C"
  shows "PageTableEntry_address C e = frame_of e" "PageTableEntry_physical_frame C e = Inr (frame_of e)"
  using assms by (simp_all add: PageTableEntry_physical_frame_def PageTableEntry_address_def
      crates_okD(1) frame_of_def frame_of_aligned [unfolded frame_of_def])

lemma parent_flags_eq: "crates_ok C \<Longrightarrow> parent_flags C = 7"
  by (simp add: parent_flags_def crates_okD PRESENT_def WRITABLE_def USER_ACCESSIBLE_def)

lemma parent_flags_bits: "flag_bits_ok 7" "\<not> bit (7 :: u64) 7" "bit (7 :: u64) 0"
  by (simp_all add: flag_bits_ok_def frame_of_def)

lemma is_present_bit: "PageTableEntry_is_present e \<longleftrightarrow> bit e 0"
  by (simp add: PageTableEntry_is_present_def PRESENT_def and_one_eq bit_0 mod_2_eq_odd)

section \<open>Entry addresses\<close>

definition entry_at :: "VirtualAddress \<Rightarrow> nat \<Rightarrow> u64" where
  "entry_at table i = table + of_nat (8 * i)"

lemma entry_at_page:
  assumes "page_aligned Size4KiB t" "i < 512"
  shows "entry_at t i AND NOT (mask 12) = t" "unat (entry_at t i) = unat t + 8 * i"
proof -
  obtain k where k: "unat t = 4096 * k" using assms(1) by (auto simp: page_aligned_iff_dvd elim!: dvdE)
  have "4096 * k < 2 ^ 64" using unat_less_exp [of t] k by simp
  then have lt: "unat t + 8 * i < 2 ^ 64" using assms(2) k by simp
  have u: "unat (of_nat (8 * i) :: u64) = 8 * i"
    using assms(2) by (simp add: unsigned_of_nat take_bit_eq_mod del: of_nat_mult)
  show u2: "unat (entry_at t i) = unat t + 8 * i"
    unfolding entry_at_def using lt u by (subst unat_plus_nowrap) (simp_all del: of_nat_mult)
  have "unat (entry_at t i AND NOT (mask 12)) = unat t"
    unfolding unat_and_not_mask u2 using assms(2) k by (simp add: mod_mult_self4)
  then show "entry_at t i AND NOT (mask 12) = t" by (simp add: word_unat_eq_iff)
qed

lemma entry_at_inj:
  assumes "page_aligned Size4KiB t" "page_aligned Size4KiB s" "i < 512" "j < 512"
  shows "entry_at t i = entry_at s j \<longleftrightarrow> t = s \<and> i = j"
  using entry_at_page [OF assms(1,3)] entry_at_page [OF assms(2,4)] by (metis add_left_cancel mult_cancel1 zero_neq_numeral)

lemma PageTable_index_in [simp]: "i < 512 \<Longrightarrow> PageTable_index t i = Inr (entry_at t i)"
  by (simp add: PageTable_index_def TABLE_ENTRY_COUNT_def entry_at_def)

lemma PageTable_at_address_aligned:
  "t \<noteq> 0 \<Longrightarrow> page_aligned Size4KiB t \<Longrightarrow> PageTable_at_address t = Inr t"
  "t \<noteq> 0 \<Longrightarrow> page_aligned Size4KiB t \<Longrightarrow>
     PageTable_initialize_empty_at_address m t = Inr (write_empty_table m t)"
  by (simp_all add: PageTable_at_address_def PageTable_initialize_empty_at_address_def
      PageTable_SIZE_def page_aligned_def unat_mod word_unat_eq_iff)

lemma table_index_less: "crates_ok C \<Longrightarrow> l4_index C a < 512" "crates_ok C \<Longrightarrow> l3_index C a < 512"
  "crates_ok C \<Longrightarrow> l2_index C a < 512" "crates_ok C \<Longrightarrow> l1_index C a < 512"
proof -
  have "unat (take_bit 9 w :: u64) < 512" for w
    using take_bit_nat_less_exp [of 9 "unat w"] by (simp add: unsigned_take_bit_eq)
  then show "crates_ok C \<Longrightarrow> l4_index C a < 512" "crates_ok C \<Longrightarrow> l3_index C a < 512"
    "crates_ok C \<Longrightarrow> l2_index C a < 512" "crates_ok C \<Longrightarrow> l1_index C a < 512"
    by (simp_all add: l4_index_def l3_index_def l2_index_def l1_index_def crates_okD)
qed

section \<open>Tables and paths\<close>

text \<open>An entry points to a table when it is used and not a huge page.\<close>

definition table_entry :: "PageTableEntry \<Rightarrow> bool" where
  "table_entry e \<longleftrightarrow> e \<noteq> 0 \<and> \<not> bit e 7"

definition child :: "frame_mapping \<Rightarrow> PageTableEntry \<Rightarrow> VirtualAddress option" where
  "child P e = (if table_entry e then Some (projr (P (frame_of e))) else None)"

fun table_at :: "frame_mapping \<Rightarrow> table_memory \<Rightarrow> VirtualAddress \<Rightarrow> nat list \<Rightarrow> VirtualAddress option" where
  "table_at P m t [] = Some t"
| "table_at P m t (i # p) =
     (case child P (m (entry_at t i)) of None \<Rightarrow> None | Some t' \<Rightarrow> table_at P m t' p)"

lemma table_at_snoc:
  "table_at P m t (p @ [i]) =
     (case table_at P m t p of None \<Rightarrow> None | Some s \<Rightarrow> child P (m (entry_at s i)))"
  by (induction p arbitrary: t) (auto split: option.splits)

definition path_ok :: "nat list \<Rightarrow> bool" where
  "path_ok p \<longleftrightarrow> length p \<le> 3 \<and> (\<forall>i \<in> set p. i < 512)"

lemma path_ok_snoc [simp]: "path_ok (p @ [i]) \<longleftrightarrow> path_ok p \<and> length p < 3 \<and> i < 512"
  by (auto simp: path_ok_def)

text \<open>The entry \<open>i\<close> of the table at path \<open>p\<close>; 0 (unused) where there is no table.\<close>

definition entry_of :: "frame_mapping \<Rightarrow> table_memory \<Rightarrow> VirtualAddress \<Rightarrow> nat list \<Rightarrow> nat \<Rightarrow> PageTableEntry" where
  "entry_of P m root p i =
     (case table_at P m root p of None \<Rightarrow> 0 | Some t \<Rightarrow> m (entry_at t i))"

text \<open>
  What the processor does with the page with the indices \<open>i4, i3, i2, i1\<close>: every entry on the way
  has to be present, and a huge entry of the level 2 table ends the walk.
\<close>

datatype mmu_result = Small PhysicalFrame PageTableEntry | Huge PhysicalFrame PageTableEntry

definition mmu_lookup ::
    "frame_mapping \<Rightarrow> table_memory \<Rightarrow> VirtualAddress \<Rightarrow> nat \<times> nat \<times> nat \<times> nat \<Rightarrow> mmu_result option" where
  "mmu_lookup P m root = (\<lambda>(i4, i3, i2, i1).
     let e4 = entry_of P m root [] i4; e3 = entry_of P m root [i4] i3;
         e2 = entry_of P m root [i4, i3] i2; e1 = entry_of P m root [i4, i3, i2] i1
     in if \<not> (bit e4 0 \<and> bit e3 0 \<and> bit e2 0) then None
        else if bit e2 7 then Some (Huge (frame_of e2) e2)
        else if bit e1 0 then Some (Small (frame_of e1) e1) else None)"

section \<open>The invariant\<close>

text \<open>
  The trait \<open>PageTableFrameMapping\<close>: its implementer guarantees that \<open>frame_to_virtual\<close> gives a
  usable table pointer, and distinct pointers for distinct frames. \<open>usable f\<close> says for which
  frames it has to.
\<close>

locale page_table_frame_mapping =
  fixes P :: frame_mapping and usable :: "PhysicalFrame \<Rightarrow> bool"
  assumes to_virtual: "usable f \<Longrightarrow> \<exists>v. P f = Inr v \<and> v \<noteq> 0 \<and> page_aligned Size4KiB v"
    and to_virtual_inj: "usable f \<Longrightarrow> usable g \<Longrightarrow> P f = P g \<Longrightarrow> f = g"
    and usable_bits: "usable f \<Longrightarrow> frame_bits_ok f"

text \<open>
  The tables form a tree below the level 4 table \<open>root\<close>; every entry that points to a table is
  present and points to a usable frame.
\<close>

definition tables_ok :: "frame_mapping \<Rightarrow> (PhysicalFrame \<Rightarrow> bool) \<Rightarrow> VirtualAddress \<Rightarrow> table_memory \<Rightarrow> bool" where
  "tables_ok P usable root m \<longleftrightarrow>
     root \<noteq> 0 \<and> page_aligned Size4KiB root \<and>
     (\<forall>p i. path_ok (p @ [i]) \<and> table_entry (entry_of P m root p i) \<longrightarrow>
        bit (entry_of P m root p i) 0 \<and> usable (frame_of (entry_of P m root p i))) \<and>
     (\<forall>p q t. path_ok p \<and> path_ok q \<and> table_at P m root p = Some t \<and> table_at P m root q = Some t \<longrightarrow> p = q)"

definition tables :: "frame_mapping \<Rightarrow> VirtualAddress \<Rightarrow> table_memory \<Rightarrow> VirtualAddress set" where
  "tables P root m = {t. \<exists>p. path_ok p \<and> table_at P m root p = Some t}"

lemma table_at_parent: "table_at P m t (p @ [i]) = Some s \<Longrightarrow> \<exists>u. table_at P m t p = Some u"
  by (auto simp: table_at_snoc split: option.splits)

lemma table_at_snoc_entry:
  "table_at P m root (p @ [i]) = child P (entry_of P m root p i)"
  by (auto simp: table_at_snoc entry_of_def child_def table_entry_def split: option.splits)

context page_table_frame_mapping
begin

lemma tables_okD:
  assumes "tables_ok P usable root m"
  shows "path_ok (p @ [i]) \<Longrightarrow> table_entry (entry_of P m root p i) \<Longrightarrow> bit (entry_of P m root p i) 0"
    and "path_ok (p @ [i]) \<Longrightarrow> table_entry (entry_of P m root p i) \<Longrightarrow> usable (frame_of (entry_of P m root p i))"
    and "path_ok p \<Longrightarrow> path_ok q \<Longrightarrow> table_at P m root p = Some t \<Longrightarrow> table_at P m root q = Some t \<Longrightarrow> p = q"
  using assms unfolding tables_ok_def by blast+

lemma table_at_ok:
  assumes "tables_ok P usable root m" "path_ok p" "table_at P m root p = Some t"
  shows "t \<noteq> 0" "page_aligned Size4KiB t"
proof -
  have "t \<noteq> 0 \<and> page_aligned Size4KiB t"
  proof (cases p rule: rev_cases)
    case Nil
    with assms show ?thesis by (simp add: tables_ok_def)
  next
    case (snoc q i)
    with assms(3) have te: "table_entry (entry_of P m root q i)"
      and t: "t = projr (P (frame_of (entry_of P m root q i)))"
      by (auto simp: table_at_snoc_entry child_def split: if_splits)
    from to_virtual [OF tables_okD(2) [OF assms(1) _ te]] assms(2) snoc t show ?thesis by auto
  qed
  then show "t \<noteq> 0" "page_aligned Size4KiB t" by simp_all
qed

lemma entry_at_same:
  assumes "tables_ok P usable root m" "path_ok p" "path_ok q" "i < 512" "j < 512"
    and "table_at P m root p = Some t" "table_at P m root q = Some s"
  shows "entry_at t i = entry_at s j \<longleftrightarrow> p = q \<and> i = j"
  using entry_at_inj [of t s i j] table_at_ok [OF assms(1)] assms tables_okD(3) [OF assms(1)] by auto

subsection \<open>Writing an entry\<close>

lemma table_at_write:
  assumes ok: "tables_ok P usable root m" and p: "path_ok p" "i < 512" "table_at P m root p = Some t"
    and e: "length p = 3 \<or> child P e = child P (m (entry_at t i))"
  shows "path_ok q \<Longrightarrow> table_at P (m(entry_at t i := e)) root q = table_at P m root q"
proof (induction q rule: rev_induct)
  case Nil
  then show ?case by simp
next
  case (snoc j q)
  then have q: "path_ok q" "length q < 3" "j < 512" by simp_all
  have IH: "table_at P (m(entry_at t i := e)) root q = table_at P m root q" using snoc.IH q(1) .
  show ?case
  proof (cases "table_at P m root q")
    case None
    with IH show ?thesis by (simp add: table_at_snoc del: fun_upd_apply)
  next
    case (Some s)
    have "entry_at t i = entry_at s j \<longleftrightarrow> p = q \<and> i = j"
      by (rule entry_at_same [OF ok p(1) q(1) p(2) q(3) p(3) Some])
    with Some e q(2) p(3) have "child P ((m(entry_at t i := e)) (entry_at s j)) = child P (m (entry_at s j))"
      by auto
    with IH Some show ?thesis by (simp add: table_at_snoc del: fun_upd_apply)
  qed
qed

lemma entry_of_write:
  assumes ok: "tables_ok P usable root m" and p: "path_ok p" "i < 512" "table_at P m root p = Some t"
    and e: "length p = 3 \<or> child P e = child P (m (entry_at t i))" and q: "path_ok q" "j < 512"
  shows "entry_of P (m(entry_at t i := e)) root q j =
           (if q = p \<and> j = i then e else entry_of P m root q j)"
proof (cases "table_at P m root q")
  case None
  with table_at_write [OF ok p e q(1)] p(3) show ?thesis by (auto simp: entry_of_def)
next
  case (Some s)
  have "entry_at t i = entry_at s j \<longleftrightarrow> p = q \<and> i = j"
    by (rule entry_at_same [OF ok p(1) q(1) p(2) q(2) p(3) Some])
  with table_at_write [OF ok p e q(1)] Some show ?thesis by (auto simp: entry_of_def)
qed

lemma tables_ok_write:
  assumes ok: "tables_ok P usable root m" and p: "path_ok p" "i < 512" "table_at P m root p = Some t"
    and e: "length p = 3 \<or> child P e = child P (m (entry_at t i))"
    and new: "length p < 3 \<Longrightarrow> table_entry e \<Longrightarrow> bit e 0 \<and> usable (frame_of e)"
  shows "tables_ok P usable root (m(entry_at t i := e))"
proof -
  let ?m = "m(entry_at t i := e)"
  have tab: "table_at P ?m root q = table_at P m root q" if "path_ok q" for q
    by (rule table_at_write [OF ok p e that])
  have "bit (entry_of P ?m root q j) 0 \<and> usable (frame_of (entry_of P ?m root q j))"
    if q: "path_ok (q @ [j])" and te: "table_entry (entry_of P ?m root q j)" for q j
  proof -
    have eq: "entry_of P ?m root q j = (if q = p \<and> j = i then e else entry_of P m root q j)"
      using q by (intro entry_of_write [OF ok p e]) simp_all
    show ?thesis
    proof (cases "q = p \<and> j = i")
      case True
      with new te q eq show ?thesis by simp
    next
      case False
      with te eq tables_okD(1,2) [OF ok q] show ?thesis by simp
    qed
  qed
  moreover have "q = r" if "path_ok q" "path_ok r" "table_at P ?m root q = Some s" "table_at P ?m root r = Some s" for q r s
    using that tab tables_okD(3) [OF ok] by simp
  ultimately show ?thesis using ok unfolding tables_ok_def by blast
qed

subsection \<open>Hanging a fresh table below an unused entry\<close>

lemma write_empty_other:
  assumes "page_aligned Size4KiB s" "s \<noteq> v" "j < 512"
  shows "write_empty_table m v (entry_at s j) = m (entry_at s j)"
  using entry_at_page(1) [OF assms(1,3)] assms(2) by (simp add: write_empty_table_def)

lemma write_empty_same:
  assumes "page_aligned Size4KiB v" "j < 512"
  shows "write_empty_table m v (entry_at v j) = 0"
  using entry_at_page(1) [OF assms] by (simp add: write_empty_table_def)

lemma fresh_table:
  assumes ok: "tables_ok P usable root m" and p: "path_ok (p @ [i])" "table_at P m root p = Some t"
    and un: "m (entry_at t i) = 0" and f: "usable f" "P f = Inr v" "v \<notin> tables P root m"
    and fl: "flag_bits_ok fl" "\<not> bit fl 7" "bit fl 0"
  defines "m' \<equiv> write_empty_table (m(entry_at t i := f OR fl)) v"
  shows "path_ok q \<Longrightarrow> table_at P m' root q = (if q = p @ [i] then Some v else table_at P m root q)"
proof (induction q rule: rev_induct)
  case Nil
  then show ?case by simp
next
  case (snoc j q)
  then have q: "path_ok q" "length q < 3" "j < 512" by simp_all
  have p': "path_ok p" "i < 512" using p(1) by simp_all
  have v: "page_aligned Size4KiB v" using to_virtual [OF f(1)] f(2) by auto
  have none: "table_at P m root (p @ [i]) = None" using p(2) un by (simp add: table_at_snoc child_def table_entry_def)
  show ?case
  proof (cases "q = p @ [i]")
    case True
    with snoc q none write_empty_same [OF v q(3)] show ?thesis
      by (simp add: table_at_snoc m'_def child_def table_entry_def del: append_assoc)
  next
    case False
    then have IH: "table_at P m' root q = table_at P m root q" using snoc.IH q(1) by simp
    show ?thesis
    proof (cases "table_at P m root q")
      case None
      with IH p(2) show ?thesis by (auto simp: table_at_snoc)
    next
      case (Some s)
      have s: "page_aligned Size4KiB s" using table_at_ok(2) [OF ok q(1) Some] .
      have "s \<noteq> v" using f(3) q(1) Some by (auto simp: tables_def)
      then have m': "m' (entry_at s j) = (m(entry_at t i := f OR fl)) (entry_at s j)"
        unfolding m'_def by (rule write_empty_other [OF s _ q(3)])
      have same: "entry_at t i = entry_at s j \<longleftrightarrow> p = q \<and> i = j"
        by (rule entry_at_same [OF ok p'(1) q(1) p'(2) q(3) p(2) Some])
      have "bit (f OR fl) 0" "\<not> bit (f OR fl) 7"
        using fl usable_bits [OF f(1)] bit_frame_of [of f 7] by (auto simp: frame_bits_ok_def bit_or_iff)
      moreover from this have "f OR fl \<noteq> 0" by auto
      ultimately have "child P (f OR fl) = Some v"
        using frame_of_entry [OF usable_bits [OF f(1)] fl(1)] f(2) by (simp add: child_def table_entry_def)
      with IH Some m' same show ?thesis by (auto simp: table_at_snoc)
    qed
  qed
qed

lemma fresh_entry:
  assumes ok: "tables_ok P usable root m" and p: "path_ok (p @ [i])" "table_at P m root p = Some t"
    and un: "m (entry_at t i) = 0" and f: "usable f" "P f = Inr v" "v \<notin> tables P root m"
    and fl: "flag_bits_ok fl" "\<not> bit fl 7" "bit fl 0"
  defines "m' \<equiv> write_empty_table (m(entry_at t i := f OR fl)) v"
  assumes q: "path_ok q" "j < 512"
  shows "entry_of P m' root q j = (if q = p \<and> j = i then f OR fl else entry_of P m root q j)"
proof -
  have p': "path_ok p" "i < 512" using p(1) by simp_all
  have v: "page_aligned Size4KiB v" using to_virtual [OF f(1)] f(2) by auto
  have tab: "table_at P m' root q = (if q = p @ [i] then Some v else table_at P m root q)"
    unfolding m'_def by (rule fresh_table [OF ok p un f fl q(1)])
  show ?thesis
  proof (cases "q = p @ [i]")
    case True
    have "table_at P m root q = None" using True p(2) un by (simp add: table_at_snoc child_def table_entry_def)
    with True tab write_empty_same [OF v q(2)] show ?thesis by (auto simp: entry_of_def m'_def)
  next
    case False
    show ?thesis
    proof (cases "table_at P m root q")
      case None
      with False tab p(2) show ?thesis by (auto simp: entry_of_def)
    next
      case (Some s)
      have s: "page_aligned Size4KiB s" using table_at_ok(2) [OF ok q(1) Some] .
      have "s \<noteq> v" using f(3) q(1) Some by (auto simp: tables_def)
      then have "m' (entry_at s j) = (m(entry_at t i := f OR fl)) (entry_at s j)"
        unfolding m'_def by (rule write_empty_other [OF s _ q(2)])
      with entry_at_same [OF ok p'(1) q(1) p'(2) q(2) p(2) Some] False tab Some show ?thesis
        by (auto simp: entry_of_def)
    qed
  qed
qed

lemma fresh_tables_ok:
  assumes ok: "tables_ok P usable root m" and p: "path_ok (p @ [i])" "table_at P m root p = Some t"
    and un: "m (entry_at t i) = 0" and f: "usable f" "P f = Inr v" "v \<notin> tables P root m"
    and fl: "flag_bits_ok fl" "\<not> bit fl 7" "bit fl 0"
  defines "m' \<equiv> write_empty_table (m(entry_at t i := f OR fl)) v"
  shows "tables_ok P usable root m'" "tables P root m' \<subseteq> insert v (tables P root m)"
proof -
  note tab = fresh_table [OF ok p un f fl, folded m'_def]
  note ent = fresh_entry [OF ok p un f fl, folded m'_def]
  have "bit (entry_of P m' root q j) 0 \<and> usable (frame_of (entry_of P m' root q j))"
    if q: "path_ok (q @ [j])" and te: "table_entry (entry_of P m' root q j)" for q j
  proof (cases "q = p \<and> j = i")
    case True
    then show ?thesis
      using ent [of q j] q f(1) fl(3) frame_of_entry [OF usable_bits [OF f(1)] fl(1)] by (simp add: bit_or_iff)
  next
    case False
    with te ent [of q j] q tables_okD(1,2) [OF ok q] show ?thesis by auto
  qed
  moreover have "q = r" if "path_ok q" "path_ok r" "table_at P m' root q = Some s" "table_at P m' root r = Some s" for q r s
    using that tab f(3) tables_okD(3) [OF ok] by (auto simp: tables_def split: if_splits)
  ultimately show "tables_ok P usable root m'" using ok unfolding tables_ok_def by blast
  show "tables P root m' \<subseteq> insert v (tables P root m)"
    using tab by (auto simp: tables_def split: if_splits)
qed

subsection \<open>Writing outside the tables\<close>

lemma write_outside:
  assumes ok: "tables_ok P usable root m" and v: "page_aligned Size4KiB v" "v \<notin> tables P root m" "i < 512"
    and q: "path_ok q"
  shows "table_at P (m(entry_at v i := x)) root q = table_at P m root q"
    and "j < 512 \<Longrightarrow> entry_of P (m(entry_at v i := x)) root q j = entry_of P m root q j"
proof -
  have other: "(m(entry_at v i := x)) (entry_at s j) = m (entry_at s j)"
    if "table_at P m root p = Some s" "path_ok p" "j < 512" for p s j
  proof -
    have "s \<noteq> v" using that v(2) by (auto simp: tables_def)
    with entry_at_inj [OF v(1) table_at_ok(2) [OF ok that(2,1)] v(3) that(3)] show ?thesis by auto
  qed
  have tab: "table_at P (m(entry_at v i := x)) root q = table_at P m root q" if "path_ok q" for q
    using that
  proof (induction q rule: rev_induct)
    case Nil
    then show ?case by simp
  next
    case (snoc j q)
    then show ?case
      using other [of q _ j] by (auto simp: table_at_snoc simp del: fun_upd_apply split: option.splits)
  qed
  show "table_at P (m(entry_at v i := x)) root q = table_at P m root q" by (rule tab [OF q])
  show "entry_of P (m(entry_at v i := x)) root q j = entry_of P m root q j" if "j < 512"
    using tab [OF q] other [OF _ q that] by (auto simp: entry_of_def simp del: fun_upd_apply split: option.splits)
qed

end

end
