(* ===== verification/Bump_Frame_Allocator.thy ===== *)
theory Bump_Frame_Allocator
  imports Memory
begin

text \<open>
  The bump allocator of \<open>x86_64/src/paging/bump_frame_allocator.rs\<close>, which hands out physical
  frames in the order of the memory map: first for the boot loader's stage 4 (over the BIOS
  regions), then for the kernel (over the regions of the boot information). The memory map is the
  list of the regions the iterator still yields; the generic region type \<open>D\<close> is its
  \<open>MemoryRegion\<close> dictionary.
\<close>

record 'd BumpFrameAllocator =
  bump_memory_map :: "'d list"
  bump_next :: u64

definition BumpFrameAllocator_new :: "'d list \<Rightarrow> 'd BumpFrameAllocator" where
  "BumpFrameAllocator_new memory_map = \<lparr>bump_memory_map = memory_map, bump_next = 0\<rparr>"

text \<open>The loop of \<open>new_starting_at\<close>: skip the regions before the frame, then cut the region.\<close>

fun advance_to_frame :: "'d MemoryRegion \<Rightarrow> PhysicalFrame \<Rightarrow> 'd list \<Rightarrow> 'd list res" where
  "advance_to_frame D frame [] = Inr []"
| "advance_to_frame D frame (region # rest) =
     rbind (mr_contains D region frame) (\<lambda>inside.
       if inside
       then if \<not> mr_is_usable D region then Inl Explicit_Panic
            else Inr (mr_set_start D region frame # rest)
       else advance_to_frame D frame rest)"

definition BumpFrameAllocator_new_starting_at ::
    "'d MemoryRegion \<Rightarrow> PhysicalFrame \<Rightarrow> 'd list \<Rightarrow> 'd BumpFrameAllocator res" where
  "BumpFrameAllocator_new_starting_at D frame memory_map =
     rbind (advance_to_frame D frame memory_map) (\<lambda>m. Inr \<lparr>bump_memory_map = m, bump_next = 0\<rparr>)"

fun region_ends :: "'d MemoryRegion \<Rightarrow> 'd list \<Rightarrow> u64 list res" where
  "region_ends D [] = Inr []"
| "region_ends D (r # rs) = rbind (mr_end D r) (\<lambda>e. rbind (region_ends D rs) (\<lambda>es. Inr (e # es)))"

definition max_physical_address :: "'d MemoryRegion \<Rightarrow> 'd BumpFrameAllocator \<Rightarrow> PhysicalAddress res" where
  "max_physical_address D self =
     rbind (region_ends D (bump_memory_map self)) (\<lambda>es.
       if es = [] then Inl Unwrap_None else Inr (Max (set es)))"

text \<open>The number of items of \<open>(start..end).step_by(4096)\<close>.\<close>

definition step_count :: "u64 \<Rightarrow> u64 \<Rightarrow> nat" where
  "step_count start stop = (unat stop - unat start + 4095) div 4096"

text \<open>
  \<open>usable_frames().nth(n)\<close>: the iterator is lazy, so a region behind the \<open>n\<close>-th frame is not
  looked at.
\<close>

fun usable_frames_nth :: "'d MemoryRegion \<Rightarrow> 'd list \<Rightarrow> nat \<Rightarrow> PhysicalFrame option res" where
  "usable_frames_nth D [] n = Inr None"
| "usable_frames_nth D (r # rs) n =
     (if \<not> mr_is_usable D r then usable_frames_nth D rs n
      else rbind (mr_end D r) (\<lambda>e.
        if n < step_count (mr_start D r) e
        then rbind (PhysicalFrame_containing_address Size4KiB (mr_start D r + of_nat n * SIZE Size4KiB))
               (\<lambda>f. Inr (Some f))
        else usable_frames_nth D rs (n - step_count (mr_start D r) e)))"

definition bump_allocate_frame ::
    "'d MemoryRegion \<Rightarrow> 'd BumpFrameAllocator \<Rightarrow> (PhysicalFrame option \<times> 'd BumpFrameAllocator) res" where
  "bump_allocate_frame D self =
     rbind (usable_frames_nth D (bump_memory_map self) (unat (bump_next self))) (\<lambda>frame.
     rbind (op_add (bump_next self) 1) (\<lambda>n. Inr (frame, self\<lparr>bump_next := n\<rparr>)))"

section \<open>The frames of a memory map\<close>

definition region_in_range :: "'d MemoryRegion \<Rightarrow> 'd \<Rightarrow> bool" where
  "region_in_range D r \<longleftrightarrow> unat (mr_start D r) + unat (mr_size D r) < 2 ^ 64"

definition region_frames :: "'d MemoryRegion \<Rightarrow> 'd \<Rightarrow> PhysicalFrame list" where
  "region_frames D r =
     map (\<lambda>i. (mr_start D r + of_nat i * SIZE Size4KiB) AND NOT (mask 12))
       [0 ..< (unat (mr_size D r) + 4095) div 4096]"

definition map_frames :: "'d MemoryRegion \<Rightarrow> 'd list \<Rightarrow> PhysicalFrame list" where
  "map_frames D rs = concat (map (region_frames D) (filter (mr_is_usable D) rs))"

lemma map_frames_simps [simp]:
  "map_frames D [] = []"
  "map_frames D (r # rs) = (if mr_is_usable D r then region_frames D r else []) @ map_frames D rs"
  by (simp_all add: map_frames_def)

definition bump_inv :: "'d MemoryRegion \<Rightarrow> 'd BumpFrameAllocator \<Rightarrow> bool" where
  "bump_inv D a \<longleftrightarrow>
     (\<forall>r \<in> set (bump_memory_map a). mr_is_usable D r \<longrightarrow> region_in_range D r) \<and>
     distinct (map_frames D (bump_memory_map a))"

definition bump_avail :: "'d MemoryRegion \<Rightarrow> 'd BumpFrameAllocator \<Rightarrow> PhysicalFrame set" where
  "bump_avail D a = set (drop (unat (bump_next a)) (map_frames D (bump_memory_map a)))"

text \<open>
  A memory map as the firmware should report it: the usable regions start at page boundaries,
  do not wrap around and are separated by page boundaries (no two of them share a page).
\<close>

definition region_page_end :: "'d MemoryRegion \<Rightarrow> 'd \<Rightarrow> nat" where
  "region_page_end D r = unat (mr_start D r) + (unat (mr_size D r) + 4095) div 4096 * 4096"

fun well_formed_map :: "'d MemoryRegion \<Rightarrow> 'd list \<Rightarrow> bool" where
  "well_formed_map D [] = True"
| "well_formed_map D (r # rs) =
     ((mr_is_usable D r \<longrightarrow>
         region_in_range D r \<and> page_aligned Size4KiB (mr_start D r) \<and>
         list_all (\<lambda>r'. mr_is_usable D r' \<longrightarrow>
           region_page_end D r \<le> unat (mr_start D r') \<or>
           region_page_end D r' \<le> unat (mr_start D r)) rs) \<and>
      well_formed_map D rs)"

lemma region_frames_nth_unat:
  assumes "page_aligned Size4KiB (mr_start D r)" "region_in_range D r"
    and "i < (unat (mr_size D r) + 4095) div 4096"
  shows "unat ((mr_start D r + of_nat i * SIZE Size4KiB) AND NOT (mask 12)) =
           unat (mr_start D r) + 4096 * i"
proof -
  let ?s = "mr_start D r"
  have lt: "unat ?s + 4096 * i < 2 ^ 64"
    using assms(2,3) by (simp add: region_in_range_def)
  then have u: "unat (?s + of_nat i * SIZE Size4KiB) = unat ?s + 4096 * i"
    by (simp add: unat_word_ariths unsigned_of_nat take_bit_eq_mod mod_simps mult.commute)
  have "2 ^ 12 dvd unat (?s + of_nat i * SIZE Size4KiB)"
    using assms(1) u by (simp add: page_aligned_iff_dvd dvd_add)
  from and_not_mask_of_aligned [OF this] u show ?thesis by simp
qed

lemma set_region_frames:
  assumes "page_aligned Size4KiB (mr_start D r)" "region_in_range D r" "f \<in> set (region_frames D r)"
  shows "unat (mr_start D r) \<le> unat f \<and> unat f + 4096 \<le> region_page_end D r"
proof -
  from assms(3) obtain i where i: "i < (unat (mr_size D r) + 4095) div 4096"
    "f = (mr_start D r + of_nat i * SIZE Size4KiB) AND NOT (mask 12)"
    by (auto simp: region_frames_def)
  then have "unat f = unat (mr_start D r) + 4096 * i"
    using region_frames_nth_unat assms(1,2) by metis
  with i(1) show ?thesis by (simp add: region_page_end_def)
qed

lemma distinct_region_frames:
  assumes "page_aligned Size4KiB (mr_start D r)" "region_in_range D r"
  shows "distinct (region_frames D r)"
proof -
  have "inj_on (\<lambda>i. (mr_start D r + of_nat i * SIZE Size4KiB) AND NOT (mask 12))
          {0 ..< (unat (mr_size D r) + 4095) div 4096}"
  proof (rule inj_onI)
    fix i j
    assume "i \<in> {0 ..< (unat (mr_size D r) + 4095) div 4096}"
      "j \<in> {0 ..< (unat (mr_size D r) + 4095) div 4096}"
      and "(mr_start D r + of_nat i * SIZE Size4KiB) AND NOT (mask 12) =
           (mr_start D r + of_nat j * SIZE Size4KiB) AND NOT (mask 12)"
    then have "unat (mr_start D r) + 4096 * i = unat (mr_start D r) + 4096 * j"
      using region_frames_nth_unat [OF assms, of i] region_frames_nth_unat [OF assms, of j] by simp
    then show "i = j" by simp
  qed
  then show ?thesis by (simp add: region_frames_def distinct_map)
qed

lemma well_formed_map_usable:
  assumes "well_formed_map D rs" "r \<in> set rs" "mr_is_usable D r"
  shows "region_in_range D r \<and> page_aligned Size4KiB (mr_start D r)"
  using assms by (induction D rs rule: well_formed_map.induct) auto

lemma distinct_map_frames:
  assumes "well_formed_map D rs"
  shows "distinct (map_frames D rs)"
  using assms
proof (induction D rs rule: well_formed_map.induct)
  case (1 D)
  then show ?case by simp
next
  case (2 D r rs)
  show ?case
  proof (cases "mr_is_usable D r")
    case False
    with 2 show ?thesis by simp
  next
    case True
    with 2(2) have r: "page_aligned Size4KiB (mr_start D r)" "region_in_range D r"
      and apart: "\<And>r'. r' \<in> set rs \<Longrightarrow> mr_is_usable D r' \<Longrightarrow>
        region_page_end D r \<le> unat (mr_start D r') \<or> region_page_end D r' \<le> unat (mr_start D r)"
      by (auto simp: list_all_iff)
    have "set (region_frames D r) \<inter> set (map_frames D rs) = {}"
    proof (rule ccontr)
      assume "\<not> ?thesis"
      then obtain f r' where f: "f \<in> set (region_frames D r)" "f \<in> set (region_frames D r')"
        and r': "r' \<in> set rs" "mr_is_usable D r'"
        by (auto simp: map_frames_def)
      have "region_in_range D r' \<and> page_aligned Size4KiB (mr_start D r')"
        using 2(2) r' by (auto dest: well_formed_map_usable)
      with set_region_frames [OF r f(1)] set_region_frames [of D r' f] f(2) apart [OF r']
      show False by auto
    qed
    with 2 True show ?thesis by (simp add: distinct_region_frames [OF r])
  qed
qed

lemma well_formed_map_bump_inv:
  "well_formed_map D (bump_memory_map a) \<Longrightarrow> bump_inv D a"
  by (auto simp: bump_inv_def distinct_map_frames dest: well_formed_map_usable)

lemma map_frames_aligned: "f \<in> set (map_frames D rs) \<Longrightarrow> page_aligned Size4KiB f"
  using page_aligned_containing [of Size4KiB] by (auto simp: map_frames_def region_frames_def)

context memory_region
begin

lemma step_count_region:
  assumes "region_in_range D r"
  shows "mr_end D r = Inr (mr_start D r + mr_size D r)"
    and "step_count (mr_start D r) (mr_start D r + mr_size D r) = (unat (mr_size D r) + 4095) div 4096"
  using assms by (simp_all add: region_in_range_def end_eq op_add_def step_count_def unat_plus_nowrap)

lemma usable_frames_nth_eq:
  assumes "\<forall>r \<in> set rs. mr_is_usable D r \<longrightarrow> region_in_range D r"
  shows "usable_frames_nth D rs n =
           Inr (if n < length (map_frames D rs) then Some (map_frames D rs ! n) else None)"
  using assms
proof (induction rs arbitrary: n)
  case Nil
  then show ?case by simp
next
  case (Cons r rs)
  have len: "length (region_frames D r) = (unat (mr_size D r) + 4095) div 4096"
    by (simp add: region_frames_def)
  show ?case
  proof (cases "mr_is_usable D r")
    case False
    with Cons show ?thesis by simp
  next
    case True
    with Cons.prems have r: "region_in_range D r" by simp
    with True Cons len show ?thesis
      by (auto simp: step_count_region nth_append region_frames_def simp del: SIZE.simps)
  qed
qed

lemma bump_allocate_frame_eq:
  assumes "bump_inv D a" "unat (bump_next a) + 1 < 2 ^ 64"
  shows "bump_allocate_frame D a =
     Inr (if unat (bump_next a) < length (map_frames D (bump_memory_map a))
          then Some (map_frames D (bump_memory_map a) ! unat (bump_next a)) else None,
          a\<lparr>bump_next := bump_next a + 1\<rparr>)"
  using assms by (simp add: bump_allocate_frame_def usable_frames_nth_eq bump_inv_def op_add_def)

lemma bump_allocate_frameE:
  assumes "bump_inv D a" "bump_allocate_frame D a = Inr (fo, a')"
  shows "a' = a\<lparr>bump_next := bump_next a + 1\<rparr> \<and> unat (bump_next a + 1) = unat (bump_next a) + 1 \<and>
     fo = (if unat (bump_next a) < length (map_frames D (bump_memory_map a))
           then Some (map_frames D (bump_memory_map a) ! unat (bump_next a)) else None)"
  using assms by (auto simp: bump_allocate_frame_def usable_frames_nth_eq bump_inv_def rbind_eq_Inr
      op_add_eq_Inr)

sublocale bump: frame_allocator "bump_allocate_frame D" "bump_inv D" "bump_avail D"
proof (unfold_locales, goal_cases)
  case (1 a fo a')
  from bump_allocate_frameE [OF 1] 1(1) show ?case by (simp add: bump_inv_def)
next
  case (2 a fo a')
  then have "a' = a\<lparr>bump_next := bump_next a + 1\<rparr>" "unat (bump_next a + 1) = unat (bump_next a) + 1"
    by (auto dest: bump_allocate_frameE)
  then show ?case by (simp add: bump_avail_def set_drop_subset_set_drop)
next
  case (3 a f a')
  let ?fs = "map_frames D (bump_memory_map a)" and ?n = "unat (bump_next a)"
  from 3 have a': "a' = a\<lparr>bump_next := bump_next a + 1\<rparr>" "unat (bump_next a + 1) = ?n + 1"
    and f: "?n < length ?fs" "f = ?fs ! ?n"
    by (auto dest: bump_allocate_frameE split: if_splits)
  have "distinct (drop ?n ?fs)" "drop ?n ?fs = f # drop (?n + 1) ?fs"
    using 3(1) f by (simp_all add: bump_inv_def Cons_nth_drop_Suc)
  with a' show ?case by (simp add: bump_avail_def)
next
  case (4 a f a')
  then have "f \<in> set (map_frames D (bump_memory_map a))"
    by (auto dest: bump_allocate_frameE split: if_splits)
  then show ?case by (rule map_frames_aligned)
qed

text \<open>
  \<open>new_starting_at\<close> keeps the size of the region it cuts, so that the region's end moves up by
  the bytes it skipped.
\<close>

lemma advance_to_frame_hit:
  assumes "region_in_range D r" "mr_is_usable D r"
    and "unat (mr_start D r) \<le> unat f" "unat f \<le> unat (mr_start D r) + unat (mr_size D r)"
  shows "advance_to_frame D f (r # rs) = Inr (mr_set_start D r f # rs)"
  using assms by (simp add: contains_inclusive region_in_range_def)

end

interpretation kernel_frames: frame_allocator
  "bump_allocate_frame PhysicalMemoryRegion_MemoryRegion"
  "bump_inv PhysicalMemoryRegion_MemoryRegion"
  "bump_avail PhysicalMemoryRegion_MemoryRegion"
  by (rule physical_region.bump.frame_allocator_axioms)

section \<open>The frames handed out\<close>

context memory_region
begin

lemma allocs_in_order:
  assumes "bump_inv D a" "unat (bump_next a) + n < 2 ^ 64"
  shows "\<exists>a'. allocs (bump_allocate_frame D) n a =
           Inr (take n (drop (unat (bump_next a)) (map_frames D (bump_memory_map a))), a')"
  using assms
proof (induction n arbitrary: a)
  case 0
  then show ?case by simp
next
  case (Suc n)
  let ?fs = "map_frames D (bump_memory_map a)" and ?k = "unat (bump_next a)"
  let ?a = "a\<lparr>bump_next := bump_next a + 1\<rparr>"
  have k: "unat (bump_next a + 1) = ?k + 1" using Suc.prems(2) by (simp add: unat_plus_nowrap)
  have inv: "bump_inv D ?a" using Suc.prems(1) by (simp add: bump_inv_def)
  have step: "bump_allocate_frame D a = Inr (if ?k < length ?fs then Some (?fs ! ?k) else None, ?a)"
    using Suc.prems by (intro bump_allocate_frame_eq) simp_all
  show ?case
  proof (cases "?k < length ?fs")
    case False
    with step show ?thesis by simp
  next
    case True
    with step Suc.IH [OF inv] Suc.prems(2) k show ?thesis
      by (auto simp: Cons_nth_drop_Suc [symmetric])
  qed
qed

end

lemma map_frames_in_region:
  assumes "well_formed_map D rs" "f \<in> set (map_frames D rs)"
  shows "\<exists>r \<in> set rs. mr_is_usable D r \<and> unat (mr_start D r) \<le> unat f \<and>
           unat f < unat (mr_start D r) + unat (mr_size D r)"
proof -
  from assms(2) obtain r where r: "r \<in> set rs" "mr_is_usable D r" "f \<in> set (region_frames D r)"
    by (auto simp: map_frames_def)
  from r(3) obtain i where i: "i < (unat (mr_size D r) + 4095) div 4096"
    "f = (mr_start D r + of_nat i * SIZE Size4KiB) AND NOT (mask 12)"
    by (auto simp: region_frames_def)
  have "unat f = unat (mr_start D r) + 4096 * i"
    using well_formed_map_usable [OF assms(1) r(1,2)] i region_frames_nth_unat [of D r i] by simp
  with i(1) have "unat (mr_start D r) \<le> unat f \<and> unat f < unat (mr_start D r) + unat (mr_size D r)"
    by linarith
  with r(1,2) show ?thesis by blast
qed

text \<open>
  C16. On a well-formed memory map the bump allocator meets the contract of \<open>FrameAllocator\<close>: the
  first \<open>n\<close> calls of \<open>allocate_frame\<close> return, in order, the first \<open>n\<close> frames of the
  usable regions (all of them when there are fewer, then \<open>None\<close>); no frame is returned twice,
  and each is page aligned and starts inside a usable region.
\<close>

theorem bump_allocates_unique_frames:
  assumes "well_formed_map PhysicalMemoryRegion_MemoryRegion rs" "n < 2 ^ 64"
  shows "\<exists>fs a'. allocs (bump_allocate_frame PhysicalMemoryRegion_MemoryRegion) n
            (BumpFrameAllocator_new rs) = Inr (fs, a') \<and>
     fs = take n (map_frames PhysicalMemoryRegion_MemoryRegion rs) \<and> distinct fs \<and>
     (\<forall>f \<in> set fs. page_aligned Size4KiB f \<and>
        (\<exists>r \<in> set rs. pmr_typ r = Free \<and> unat (pmr_start r) \<le> unat f \<and>
           unat f < unat (pmr_start r) + unat (pmr_size r)))"
proof -
  let ?D = PhysicalMemoryRegion_MemoryRegion
  have inv: "bump_inv ?D (BumpFrameAllocator_new rs)"
    by (rule well_formed_map_bump_inv) (simp add: BumpFrameAllocator_new_def assms(1))
  from physical_region.allocs_in_order [OF inv, of n] assms(2) obtain a' where
    "allocs (bump_allocate_frame ?D) n (BumpFrameAllocator_new rs) = Inr (take n (map_frames ?D rs), a')"
    by (auto simp: BumpFrameAllocator_new_def)
  moreover have "distinct (take n (map_frames ?D rs))"
    using distinct_map_frames [OF assms(1)] by simp
  ultimately show ?thesis
    using map_frames_in_region [OF assms(1)] map_frames_aligned [of _ ?D rs]
    by (fastforce simp: PhysicalMemoryRegion_MemoryRegion_def PhysicalMemoryRegion_is_usable_def
        dest: in_set_takeD)
qed

lemma region_frames_0x1000_0x2000:
  "map_frames PhysicalMemoryRegion_MemoryRegion [PhysicalMemoryRegion_new 0x1000 0x2000 Free] = [0x1000, 0x2000]"
  by (simp add: region_frames_def PhysicalMemoryRegion_MemoryRegion_def PhysicalMemoryRegion_new_def
      PhysicalMemoryRegion_is_usable_def upt_rec mask_eq_exp_minus_1)

theorem bump_allocates_unique_frames_witness:
  "\<exists>a'. allocs (bump_allocate_frame PhysicalMemoryRegion_MemoryRegion) 3
     (BumpFrameAllocator_new [PhysicalMemoryRegion_new 0x1000 0x2000 Free]) = Inr ([0x1000, 0x2000], a')"
proof -
  have "well_formed_map PhysicalMemoryRegion_MemoryRegion [PhysicalMemoryRegion_new 0x1000 0x2000 Free]"
    by (simp add: region_in_range_def page_aligned_def PhysicalMemoryRegion_MemoryRegion_def
        PhysicalMemoryRegion_new_def)
  from bump_allocates_unique_frames [OF this, of 3] show ?thesis
    by (auto simp: region_frames_0x1000_0x2000 simp del: map_frames_simps)
qed

text \<open>
  On a memory map with a usable region that does not start on a page boundary the contract
  fails: with two usable regions that meet inside a page the same frame is returned twice.
\<close>

theorem bump_returns_shared_frame_twice:
  "rbind (allocs (bump_allocate_frame PhysicalMemoryRegion_MemoryRegion) 2
     (BumpFrameAllocator_new [PhysicalMemoryRegion_new 0x1000 0x800 Free,
                              PhysicalMemoryRegion_new 0x1800 0x800 Free])) (\<lambda>(fs, _). Inr fs) =
     Inr [0x1000, 0x1000]"
proof -
  let ?D = PhysicalMemoryRegion_MemoryRegion
  let ?rs = "[PhysicalMemoryRegion_new 0x1000 0x800 Free, PhysicalMemoryRegion_new 0x1800 0x800 Free]"
  have fs: "map_frames ?D ?rs = [0x1000, 0x1000]"
    by (simp add: region_frames_def PhysicalMemoryRegion_MemoryRegion_def PhysicalMemoryRegion_new_def
        PhysicalMemoryRegion_is_usable_def mask_eq_exp_minus_1)
  have "\<forall>r \<in> set ?rs. mr_is_usable ?D r \<longrightarrow> region_in_range ?D r"
    by (simp add: region_in_range_def PhysicalMemoryRegion_MemoryRegion_def PhysicalMemoryRegion_new_def)
  note nth = physical_region.usable_frames_nth_eq [OF this, unfolded fs]
  show ?thesis
    unfolding numeral_2_eq_2 allocs.simps BumpFrameAllocator_new_def
    by (simp add: bump_allocate_frame_def nth op_add_def del: usable_frames_nth.simps)
qed

text \<open>
  \<open>new_starting_at\<close> keeps the size of the region it advances into. The region then ends
  behind its true end by the number of bytes skipped, so that the allocator hands out that many
  bytes of frames which the memory map does not report as usable.
\<close>

theorem new_starting_at_overshoots:
  fixes r :: PhysicalMemoryRegion
  assumes "pmr_typ r = Free" "page_aligned Size4KiB (pmr_start r)" "page_aligned Size4KiB (pmr_size r)"
    and "page_aligned Size4KiB f" "unat (pmr_start r) < unat f"
    and "unat f < unat (pmr_start r) + unat (pmr_size r)" "unat f + unat (pmr_size r) < 2 ^ 64"
  shows "\<exists>a. BumpFrameAllocator_new_starting_at PhysicalMemoryRegion_MemoryRegion f (r # rs) = Inr a \<and>
           pmr_start r + pmr_size r \<in> set (map_frames PhysicalMemoryRegion_MemoryRegion (bump_memory_map a))"
proof -
  let ?D = PhysicalMemoryRegion_MemoryRegion and ?r = "r\<lparr>pmr_start := f\<rparr>"
  let ?e = "pmr_start r + pmr_size r"
  have "region_in_range ?D r" using assms(5,7)
    by (simp add: region_in_range_def PhysicalMemoryRegion_MemoryRegion_def)
  then have hit: "BumpFrameAllocator_new_starting_at ?D f (r # rs) =
      Inr \<lparr>bump_memory_map = ?r # rs, bump_next = 0\<rparr>"
    using physical_region.advance_to_frame_hit [of r f rs] assms(1,5,6)
    by (simp add: BumpFrameAllocator_new_starting_at_def PhysicalMemoryRegion_MemoryRegion_def
        PhysicalMemoryRegion_is_usable_def)
  have ue: "unat ?e = unat (pmr_start r) + unat (pmr_size r)" using assms(5,7) by (simp add: unat_plus_nowrap)
  have "4096 dvd unat ?e" "4096 dvd unat f"
    using assms(2,3,4) ue by (simp_all add: page_aligned_iff_dvd dvd_add)
  then obtain i where i: "unat ?e = unat f + 4096 * i" using ue assms(6)
    by (metis dvd_diff_nat dvd_def le_add_diff_inverse less_imp_le)
  have lt: "i < (unat (pmr_size r) + 4095) div 4096" using i ue assms(5) by linarith
  have r': "region_in_range ?D ?r" "page_aligned Size4KiB (mr_start ?D ?r)" "mr_size ?D ?r = pmr_size r"
    "mr_start ?D ?r = f"
    using assms(4,7) by (simp_all add: region_in_range_def PhysicalMemoryRegion_MemoryRegion_def)
  have "(f + of_nat i * SIZE Size4KiB) AND NOT (mask 12) = ?e"
    using region_frames_nth_unat [OF r'(2,1), of i] lt i r'(3,4) by (simp add: word_unat_eq_iff)
  then have "?e \<in> set (region_frames ?D ?r)" using lt r'(3,4)
    by (auto simp: region_frames_def simp del: SIZE.simps intro!: image_eqI [of _ _ i])
  moreover have "mr_is_usable ?D ?r" using assms(1)
    by (simp add: PhysicalMemoryRegion_MemoryRegion_def PhysicalMemoryRegion_is_usable_def)
  ultimately show ?thesis using hit by simp
qed

theorem new_starting_at_overshoots_witness:
  "\<exists>a. BumpFrameAllocator_new_starting_at PhysicalMemoryRegion_MemoryRegion 0x3000
         [PhysicalMemoryRegion_new 0x1000 0x4000 Free] = Inr a \<and>
       0x5000 \<in> set (map_frames PhysicalMemoryRegion_MemoryRegion (bump_memory_map a))"
  using new_starting_at_overshoots [of "PhysicalMemoryRegion_new 0x1000 0x4000 Free" "0x3000" "[]"]
  by (simp add: PhysicalMemoryRegion_new_def page_aligned_def)

end
