(* ===== verification/Page_Mapper.thy ===== *)
theory Page_Mapper
  imports Page_Tree Bump_Frame_Allocator
begin

text \<open>
  Correctness of the mapper of \<open>x86_64/src/paging/mapped_page_table.rs\<close> against the processor's
  walk: what \<open>map_to\<close>, \<open>unmap\<close> and \<open>translate\<close> do to every page, for any frame mapping and any
  frame allocator that meet their contracts, and the instance the kernel and the boot loader use:
  \<open>OffsetPageTable\<close> over the bump allocator.
\<close>

section \<open>One level of the walk\<close>

lemma entry_of_below_unused:
  assumes "entry_of P m root p i = 0"
  shows "entry_of P m root (p @ [i]) j = 0"
proof -
  have "table_at P m root (p @ [i]) = None"
    unfolding table_at_snoc_entry using assms by (simp add: child_def table_entry_def)
  then show ?thesis by (simp add: entry_of_def)
qed

text \<open>
  Changing a parent entry without changing the table below it, or from unused to an empty table,
  changes nothing for the processor.
\<close>

lemma mmu_lookup_parent:
  assumes same: "\<And>q j. path_ok q \<Longrightarrow> j < 512 \<Longrightarrow> \<not> (q = p \<and> j = i) \<Longrightarrow>
        entry_of P m' root q j = entry_of P m root q j"
    and p: "path_ok (p @ [i])"
    and new: "bit (entry_of P m' root p i) 0" "\<not> bit (entry_of P m' root p i) 7"
    and old: "entry_of P m root p i = 0 \<or> bit (entry_of P m root p i) 0 \<and> \<not> bit (entry_of P m root p i) 7"
    and idx: "i4 < 512" "i3 < 512" "i2 < 512" "i1 < 512"
  shows "mmu_lookup P m' root (i4, i3, i2, i1) = mmu_lookup P m root (i4, i3, i2, i1)"
proof -
  have paths: "path_ok []" "path_ok [i4]" "path_ok [i4, i3]" "path_ok [i4, i3, i2]"
    using idx by (simp_all add: path_ok_def)
  note ent = same [OF paths(1) idx(1)] same [OF paths(2) idx(2)] same [OF paths(3) idx(3)] same [OF paths(4) idx(4)]
  have leaf: "entry_of P m' root [i4, i3, i2] i1 = entry_of P m root [i4, i3, i2] i1"
  proof -
    have "p \<noteq> [i4, i3, i2]" using p by auto
    with ent(4) show ?thesis by simp
  qed
  have zero: "entry_of P m root (p @ [i]) j = 0" if "entry_of P m root p i = 0" for j
    by (rule entry_of_below_unused [OF that])
  consider "p = []" "i = i4" | "p = [i4]" "i = i3" | "p = [i4, i3]" "i = i2"
    | "\<not> (p = [] \<and> i = i4)" "\<not> (p = [i4] \<and> i = i3)" "\<not> (p = [i4, i3] \<and> i = i2)" by blast
  then show ?thesis
  proof cases
    case 1
    with ent leaf new old zero [of i3] show ?thesis by (auto simp: mmu_lookup_def Let_def)
  next
    case 2
    with ent leaf new old zero [of i2] show ?thesis by (auto simp: mmu_lookup_def Let_def)
  next
    case 3
    with ent leaf new old zero [of i1] show ?thesis by (auto simp: mmu_lookup_def Let_def)
  next
    case 4
    with ent leaf show ?thesis by (auto simp: mmu_lookup_def Let_def)
  qed
qed

text \<open>The allocator can be asked \<open>n\<close> more times without a fault.\<close>

fun can_allocate :: "'a allocate \<Rightarrow> nat \<Rightarrow> 'a \<Rightarrow> bool" where
  "can_allocate allocate 0 a = True"
| "can_allocate allocate (Suc n) a = (\<exists>fo a'. allocate a = Inr (fo, a') \<and> can_allocate allocate n a')"

lemma can_allocate_le: "can_allocate allocate (Suc n) a \<Longrightarrow> can_allocate allocate n a"
  by (induction n arbitrary: a) auto

definition fresh_frames ::
    "frame_mapping \<Rightarrow> (PhysicalFrame \<Rightarrow> bool) \<Rightarrow> VirtualAddress \<Rightarrow> table_memory \<Rightarrow> PhysicalFrame set \<Rightarrow> bool" where
  "fresh_frames P usable root m A \<longleftrightarrow> (\<forall>f \<in> A. usable f \<and> projr (P f) \<notin> tables P root m)"

text \<open>The indices of a page, level 4 first; two pages of 4 KiB are the same when they agree in them.\<close>

definition page_indices :: "crates \<Rightarrow> Page \<Rightarrow> nat \<times> nat \<times> nat \<times> nat" where
  "page_indices C page = (l4_index C page, l3_index C page, l2_index C page, l1_index C page)"

definition indices_ok :: "nat \<times> nat \<times> nat \<times> nat \<Rightarrow> bool" where
  "indices_ok = (\<lambda>(i4, i3, i2, i1). i4 < 512 \<and> i3 < 512 \<and> i2 < 512 \<and> i1 < 512)"

lemma mmu_lookup_leaf_other:
  assumes same: "\<And>q j. path_ok q \<Longrightarrow> j < 512 \<Longrightarrow> \<not> (q = [i4, i3, i2] \<and> j = i1) \<Longrightarrow>
        entry_of P m' root q j = entry_of P m root q j"
    and ix: "indices_ok ix" "ix \<noteq> (i4, i3, i2, i1)"
  shows "mmu_lookup P m' root ix = mmu_lookup P m root ix"
proof -
  obtain j4 j3 j2 j1 where j: "ix = (j4, j3, j2, j1)" by (cases ix)
  with ix(1) have lt: "j4 < 512" "j3 < 512" "j2 < 512" "j1 < 512" by (simp_all add: indices_ok_def)
  then have "path_ok []" "path_ok [j4]" "path_ok [j4, j3]" "path_ok [j4, j3, j2]"
    by (simp_all add: path_ok_def)
  with same [of "[]" j4] same [of "[j4]" j3] same [of "[j4, j3]" j2] same [of "[j4, j3, j2]" j1] lt ix(2) j
  show ?thesis by (simp add: mmu_lookup_def)
qed

text \<open>
  The state in which the mapper works: the tables form a tree, and the frames the allocator may
  still hand out are usable and not in use as tables.
\<close>

definition mapper_ready ::
    "frame_mapping \<Rightarrow> (PhysicalFrame \<Rightarrow> bool) \<Rightarrow> ('a \<Rightarrow> bool) \<Rightarrow> ('a \<Rightarrow> PhysicalFrame set) \<Rightarrow>
     VirtualAddress \<Rightarrow> table_memory \<Rightarrow> 'a \<Rightarrow> bool" where
  "mapper_ready P usable ainv avail root m a \<longleftrightarrow>
     tables_ok P usable root m \<and> ainv a \<and> fresh_frames P usable root m (avail a)"

text \<open>What one level of \<open>map_to\<close> leaves behind.\<close>

definition level_done_at :: "frame_mapping \<Rightarrow> VirtualAddress \<Rightarrow> nat list \<Rightarrow> nat \<Rightarrow> table_memory \<Rightarrow> table_memory \<Rightarrow> VirtualAddress \<Rightarrow> bool" where
  "level_done_at P root p i m m' v \<longleftrightarrow>
     table_at P m' root (p @ [i]) = Some v \<and>
     bit (entry_of P m' root p i) 0 \<and> \<not> bit (entry_of P m' root p i) 7 \<and>
     (entry_of P m root p i = 0 \<or> bit (entry_of P m root p i) 0 \<and> \<not> bit (entry_of P m root p i) 7) \<and>
     (\<forall>q j. path_ok q \<and> j < 512 \<and> \<not> (q = p \<and> j = i) \<longrightarrow> entry_of P m' root q j = entry_of P m root q j)"

text \<open>Writing a leaf: an entry that has no table below, before and after.\<close>

definition leaf_write :: "nat list \<Rightarrow> PageTableEntry \<Rightarrow> PageTableEntry \<Rightarrow> bool" where
  "leaf_write p old new \<longleftrightarrow> length p = 3 \<or> length p = 2 \<and> \<not> table_entry old \<and> \<not> table_entry new"

text \<open>No entry above the page is a huge page.\<close>

definition no_huge_above_page :: "crates \<Rightarrow> frame_mapping \<Rightarrow> VirtualAddress \<Rightarrow> table_memory \<Rightarrow> Page \<Rightarrow> bool" where
  "no_huge_above_page C P root m page \<longleftrightarrow>
     \<not> bit (entry_of P m root [] (l4_index C page)) 7 \<and>
     \<not> bit (entry_of P m root [l4_index C page] (l3_index C page)) 7 \<and>
     \<not> bit (entry_of P m root [l4_index C page, l3_index C page] (l2_index C page)) 7"

text \<open>
  What a mapping operation may do besides changing a leaf: it takes frames from the allocator and makes
  tables of them, it writes only into tables, and it creates no huge page above level \<open>n\<close>.
\<close>

definition grows_at ::
    "nat \<Rightarrow> frame_mapping \<Rightarrow> ('a \<Rightarrow> PhysicalFrame set) \<Rightarrow> VirtualAddress \<Rightarrow>
     table_memory \<Rightarrow> 'a \<Rightarrow> table_memory \<Rightarrow> 'a \<Rightarrow> bool" where
  "grows_at n P avail root m a m' a' \<longleftrightarrow>
     avail a' \<subseteq> avail a \<and> tables P root m \<subseteq> tables P root m' \<and>
     tables P root m' \<subseteq> tables P root m \<union> (\<lambda>f. projr (P f)) ` (avail a - avail a') \<and>
     (\<forall>q j. path_ok q \<and> j < 512 \<and> length q < n \<and> bit (entry_of P m' root q j) 7 \<longrightarrow> bit (entry_of P m root q j) 7) \<and>
     (\<forall>x. x AND NOT (mask 12) \<notin> tables P root m' \<longrightarrow> m' x = m x)"

text \<open>The entries of the root outside the given places are the same.\<close>

definition root_kept :: "frame_mapping \<Rightarrow> nat set \<Rightarrow> VirtualAddress \<Rightarrow> table_memory \<Rightarrow> table_memory \<Rightarrow> bool" where
  "root_kept P I root m m' \<longleftrightarrow> (\<forall>i < 512. i \<notin> I \<longrightarrow> entry_of P m' root [] i = entry_of P m root [] i)"

text \<open>A frame of the given ones is now a table.\<close>

definition took_table :: "frame_mapping \<Rightarrow> PhysicalFrame set \<Rightarrow> VirtualAddress \<Rightarrow> table_memory \<Rightarrow> bool" where
  "took_table P A root m \<longleftrightarrow> (\<exists>f \<in> A. projr (P f) \<in> tables P root m)"

lemma root_keptI: "(\<And>i. i < 512 \<Longrightarrow> i \<notin> I \<Longrightarrow> entry_of P m' root [] i = entry_of P m root [] i) \<Longrightarrow> root_kept P I root m m'"
  by (simp add: root_kept_def)

lemma root_kept_trans: "root_kept P I root m m1 \<Longrightarrow> root_kept P J root m1 m2 \<Longrightarrow> I \<union> J \<subseteq> K \<Longrightarrow> root_kept P K root m m2"
  unfolding root_kept_def by (metis UnCI subsetD)

lemma root_kept_refl: "root_kept P I root m m"
  by (simp add: root_kept_def)

lemma grows_refl: "avail a' \<subseteq> avail a \<Longrightarrow> grows_at n P avail root m a m a'"
  by (auto simp: grows_at_def)

lemma growsD:
  assumes "grows_at n P avail root m a m' a'"
  shows "avail a' \<subseteq> avail a" "tables P root m \<subseteq> tables P root m'"
    and "t \<in> tables P root m' \<Longrightarrow> t \<notin> tables P root m \<Longrightarrow> \<exists>f \<in> avail a - avail a'. t = projr (P f)"
    and "path_ok q \<Longrightarrow> j < 512 \<Longrightarrow> length q < n \<Longrightarrow> bit (entry_of P m' root q j) 7 \<Longrightarrow> bit (entry_of P m root q j) 7"
    and "x AND NOT (mask 12) \<notin> tables P root m' \<Longrightarrow> m' x = m x"
  using assms by (auto simp: grows_at_def)

lemma grows_trans [trans]:
  assumes "grows_at n P avail root m a m1 a1" "grows_at n P avail root m1 a1 m2 a2"
  shows "grows_at n P avail root m a m2 a2"
proof -
  note 1 = growsD [OF assms(1)] and 2 = growsD [OF assms(2)]
  have "t \<in> tables P root m \<union> (\<lambda>f. projr (P f)) ` (avail a - avail a2)" if t: "t \<in> tables P root m2" for t
  proof (cases "t \<in> tables P root m1")
    case True
    with 1(3) [of t] 2(1) show ?thesis by fast
  next
    case False
    with 2(3) [OF t] 1(1) show ?thesis by fast
  qed
  moreover have "avail a2 \<subseteq> avail a" "tables P root m \<subseteq> tables P root m2" using order_trans [OF 2(1) 1(1)] order_trans [OF 1(2) 2(2)] by simp_all
  moreover have "m2 x = m x" if "x AND NOT (mask 12) \<notin> tables P root m2" for x
    using 2(5) [OF that] 1(5) [of x] 2(2) that by fastforce
  ultimately show ?thesis using 1(4) 2(4) unfolding grows_at_def by (simp add: subset_iff)
qed

lemma grows_mono: "grows_at n P avail root m a m' a' \<Longrightarrow> k \<le> n \<Longrightarrow> grows_at k P avail root m a m' a'"
  by (auto simp: grows_at_def)

text \<open>What the mapper relies on: the frame mapping and the frame allocator, and their crates.\<close>

locale table_mapper =
  page_table_frame_mapping P usable + frame_allocator allocate inv avail
  for P :: frame_mapping and usable :: "PhysicalFrame \<Rightarrow> bool"
    and allocate :: "'a allocate" and inv :: "'a \<Rightarrow> bool" and avail :: "'a \<Rightarrow> PhysicalFrame set" +
  fixes C :: crates
  assumes crates: "crates_ok C"
begin

abbreviation ready :: "VirtualAddress \<Rightarrow> table_memory \<Rightarrow> 'a \<Rightarrow> bool" where
  "ready \<equiv> mapper_ready P usable inv avail"

abbreviation level_done where
  "level_done \<equiv> level_done_at P"

abbreviation grows where
  "grows n \<equiv> grows_at n P avail"

abbreviation no_huge_above where
  "no_huge_above \<equiv> no_huge_above_page C P"

lemma readyD:
  assumes "ready root m a"
  shows "tables_ok P usable root m" "inv a"
    "f \<in> avail a \<Longrightarrow> usable f" "f \<in> avail a \<Longrightarrow> projr (P f) \<notin> tables P root m"
  using assms by (auto simp: mapper_ready_def fresh_frames_def)

lemma flags_check:
  "e \<noteq> 0 \<Longrightarrow> \<not> flags_is_empty C 7 \<and> \<not> flags_contains C (PageTableEntry_flags C e) 7 \<longleftrightarrow> e AND 7 \<noteq> 7"
proof -
  have "(e AND all_entry_flags) AND 7 = e AND (7 :: u64)"
    by (simp add: all_entry_flags_def and.assoc)
  then show ?thesis using crates by (simp add: crates_okD PageTableEntry_flags_def)
qed

lemma get_or_allocate_used:
  assumes r: "ready root m a" and p: "path_ok (p @ [i])" "table_at P m root p = Some t"
    and used: "m (entry_at t i) \<noteq> 0" "\<not> bit (m (entry_at t i)) 7"
  defines "e \<equiv> m (entry_at t i)"
  shows "\<exists>m' v. get_or_allocate_pagetable C P allocate m (entry_at t i) (parent_flags C) a = Inr (Some v, m', a) \<and>
     ready root m' a \<and> table_at P m' root (p @ [i]) = Some v \<and> grows 3 root m a m' a \<and>
     (m' = m \<or> m' = m(entry_at t i := e OR 7)) \<and>
     (\<forall>q j. path_ok q \<and> j < 512 \<longrightarrow>
        entry_of P m' root q j = (if q = p \<and> j = i then m' (entry_at t i) else entry_of P m root q j))"
proof -
  note ok = readyD(1) [OF r]
  have p': "path_ok p" "i < 512" "length p < 3" using p(1) by simp_all
  have ent: "entry_of P m root p i = e" using p(2) by (simp add: entry_of_def e_def)
  have te: "table_entry e" using used by (simp add: table_entry_def e_def)
  note us = tables_okD(1,2) [OF ok p(1), unfolded ent, OF te]
  obtain v where v: "P (frame_of e) = Inr v" "v \<noteq> 0" "page_aligned Size4KiB v"
    using to_virtual [OF us(2)] by blast
  define m' where "m' = (if e AND 7 \<noteq> 7 then m(entry_at t i := e OR 7) else m)"
  have fr: "frame_of (e OR 7) = frame_of e" by (rule frame_of_add_flags [OF parent_flags_bits(1)])
  have te': "table_entry (e OR 7)" using te parent_flags_bits(2)
    by (auto simp: table_entry_def bit_or_iff) (metis bit_0_eq bit_or_iff bot_apply bot_bool_def parent_flags_bits(3))
  have ch: "length p = 3 \<or> child P (e OR 7) = child P (m (entry_at t i))"
    using te te' fr by (simp add: child_def flip: e_def)
  have get: "get_or_allocate_pagetable C P allocate m (entry_at t i) (parent_flags C) a = Inr (Some v, m', a)"
    using used(1) v fr flags_check [OF used(1)]
    by (simp add: entry_address(2) [OF crates] get_or_allocate_pagetable_def PageTableEntry_is_unused_def parent_flags_eq [OF crates]
        PageTableEntry_add_flags_def PageTable_at_address_aligned Let_def e_def m'_def)
  have tab: "table_at P m' root q = table_at P m root q" if "path_ok q" for q
    using table_at_write [OF ok p'(1,2) p(2) ch that] by (simp add: m'_def)
  have "entry_of P m' root q j = (if q = p \<and> j = i then m' (entry_at t i) else entry_of P m root q j)"
    if "path_ok q" "j < 512" for q j
    using entry_of_write [OF ok p'(1,2) p(2) ch that] ent by (auto simp: m'_def e_def)
  moreover have "tables_ok P usable root m'"
    using tables_ok_write [OF ok p'(1,2) p(2) ch] us fr ok by (auto simp: m'_def bit_or_iff)
  moreover have "tables P root m' = tables P root m" using tab by (auto simp: tables_def)
  moreover have "table_at P m' root (p @ [i]) = Some v"
    using tab [OF p(1)] te v(1) ent by (simp add: table_at_snoc_entry child_def)
  ultimately have *: "ready root m' a" "tables P root m' = tables P root m" "table_at P m' root (p @ [i]) = Some v"
    "\<And>q j. path_ok q \<Longrightarrow> j < 512 \<Longrightarrow>
       entry_of P m' root q j = (if q = p \<and> j = i then m' (entry_at t i) else entry_of P m root q j)"
    using r by (simp_all add: mapper_ready_def fresh_frames_def)
  have "grows 3 root m a m' a"
    unfolding grows_at_def *(2)
  proof (intro conjI allI impI)
    fix q j assume q: "path_ok q \<and> j < 512 \<and> length q < 3 \<and> bit (entry_of P m' root q j) 7"
    then show "bit (entry_of P m root q j) 7"
      using *(4) [of q j] used(2) parent_flags_bits(2) by (auto simp: m'_def e_def bit_or_iff split: if_splits)
  next
    fix x assume x: "x AND NOT (mask 12) \<notin> tables P root m"
    have "t \<in> tables P root m" using p(2) p'(1) by (auto simp: tables_def)
    then have "x \<noteq> entry_at t i" using x entry_at_page(1) [OF table_at_ok(2) [OF ok p'(1) p(2)] p'(2)] by auto
    then show "m' x = m x" by (simp add: m'_def)
  qed auto
  with * get show ?thesis by (auto simp: m'_def)
qed

lemma get_or_allocate_unused:
  assumes r: "ready root m a" and p: "path_ok (p @ [i])" "table_at P m root p = Some t"
    and un: "m (entry_at t i) = 0" and al: "allocate a = Inr (fo, a')"
  shows "case fo of
     None \<Rightarrow> get_or_allocate_pagetable C P allocate m (entry_at t i) (parent_flags C) a = Inr (None, m, a') \<and>
             ready root m a' \<and> grows 3 root m a m a'
   | Some f \<Rightarrow> \<exists>m' v. get_or_allocate_pagetable C P allocate m (entry_at t i) (parent_flags C) a =
               Inr (Some v, m', a') \<and> ready root m' a' \<and> table_at P m' root (p @ [i]) = Some v \<and>
       grows 3 root m a m' a' \<and>
       (\<forall>q j. path_ok q \<and> j < 512 \<longrightarrow>
          entry_of P m' root q j = (if q = p \<and> j = i then f OR 7 else entry_of P m root q j)) \<and>
       frame_bits_ok f \<and> f \<in> avail a \<and> v = projr (P f)"
proof -
  note ok = readyD(1) [OF r] and step = inv_step [OF readyD(2) [OF r] al] avail_step [OF readyD(2) [OF r] al]
  show ?thesis
  proof (cases fo)
    case None
    with al un step r show ?thesis
      by (auto simp: get_or_allocate_pagetable_def PageTableEntry_is_unused_def mapper_ready_def fresh_frames_def
          intro!: grows_refl)
  next
    case (Some f)
    have av: "f \<in> avail a" "f \<notin> avail a'" using frame_avail [OF readyD(2) [OF r] al [unfolded Some]] by simp_all
    have us: "usable f" using readyD(3) [OF r av(1)] .
    obtain v where v: "P f = Inr v" "v \<noteq> 0" "page_aligned Size4KiB v" using to_virtual [OF us] by blast
    have vt: "v \<notin> tables P root m" using readyD(4) [OF r av(1)] v(1) by simp
    let ?m = "write_empty_table (m(entry_at t i := f OR 7)) v"
    note fr = fresh_table [OF ok p un us v(1) vt parent_flags_bits]
      fresh_entry [OF ok p un us v(1) vt parent_flags_bits]
      fresh_tables_ok [OF ok p un us v(1) vt parent_flags_bits]
    have get: "get_or_allocate_pagetable C P allocate m (entry_at t i) (parent_flags C) a = Inr (Some v, ?m, a')"
      using un al Some v
      by (simp add: get_or_allocate_pagetable_def PageTableEntry_is_unused_def parent_flags_eq [OF crates]
          PageTableEntry_set_address_def PageTable_at_address_aligned)
    have "fresh_frames P usable root ?m (avail a')"
      unfolding fresh_frames_def
    proof
      fix g assume g: "g \<in> avail a'"
      then have ga: "g \<in> avail a" using step(2) by blast
      have "g \<noteq> f" using g av(2) by blast
      moreover obtain w where "P g = Inr w" using to_virtual [OF readyD(3) [OF r ga]] by blast
      ultimately have "projr (P g) \<noteq> v" using to_virtual_inj [OF readyD(3) [OF r ga] us] v(1) by auto
      with readyD(3,4) [OF r ga] fr(4) show "usable g \<and> projr (P g) \<notin> tables P root ?m" by blast
    qed
    then have rd: "ready root ?m a'" using fr(3) step(1) by (simp add: mapper_ready_def)
    have p': "path_ok p" "i < 512" using p(1) by simp_all
    have tin: "t \<in> tables P root m" using p(2) p'(1) by (auto simp: tables_def)
    have vin: "v \<in> tables P root ?m" using fr(1) [OF p(1)] p(1) unfolding tables_def by (simp, metis)
    have tsub: "tables P root m \<subseteq> tables P root ?m"
    proof
      fix s assume "s \<in> tables P root m"
      then obtain q where q: "path_ok q" "table_at P m root q = Some s" by (auto simp: tables_def)
      moreover have "q \<noteq> p @ [i]" using q p(2) un by (auto simp: table_at_snoc child_def table_entry_def)
      ultimately show "s \<in> tables P root ?m" using fr(1) [OF q(1)] by (auto simp: tables_def)
    qed
    have gr: "grows 3 root m a ?m a'"
      unfolding grows_at_def
    proof (intro conjI allI impI)
      show "tables P root ?m \<subseteq> tables P root m \<union> (\<lambda>f. projr (P f)) ` (avail a - avail a')"
        using fr(4) v(1) av by (auto intro!: image_eqI [of _ _ f])
    next
      fix q j assume "path_ok q \<and> j < 512 \<and> length q < 3 \<and> bit (entry_of P ?m root q j) 7"
      then show "bit (entry_of P m root q j) 7"
        using fr(2) [of q j] usable_bits [OF us] parent_flags_bits(2) bit_frame_of [of f 7]
        by (auto simp: frame_bits_ok_def bit_or_iff split: if_splits)
    next
      fix x assume x: "x AND NOT (mask 12) \<notin> tables P root ?m"
      then have "x AND NOT (mask 12) \<noteq> t" "x AND NOT (mask 12) \<noteq> v" using tin vin tsub by auto
      moreover have "entry_at t i AND NOT (mask 12) = t"
        by (rule entry_at_page(1) [OF table_at_ok(2) [OF ok p'(1) p(2)] p'(2)])
      ultimately show "?m x = m x" by (auto simp: write_empty_table_def)
    qed (use step(2) tsub in auto)
    have "\<forall>q j. path_ok q \<and> j < 512 \<longrightarrow>
        entry_of P ?m root q j = (if q = p \<and> j = i then f OR 7 else entry_of P m root q j)"
      using fr(2) by blast
    moreover have "table_at P ?m root (p @ [i]) = Some v" using fr(1) [OF p(1)] by simp
    ultimately show ?thesis using get rd usable_bits [OF us] Some gr av(1) v(1) by auto
  qed
qed

lemma level_doneD:
  assumes "level_done root p i m m' v"
  shows "table_at P m' root (p @ [i]) = Some v"
    and "bit (entry_of P m' root p i) 0" "\<not> bit (entry_of P m' root p i) 7"
    and "path_ok q \<Longrightarrow> j < 512 \<Longrightarrow> \<not> (q = p \<and> j = i) \<Longrightarrow> entry_of P m' root q j = entry_of P m root q j"
  using assms by (simp_all add: level_done_at_def)

lemma map_level_step:
  assumes r: "ready root m a" and p: "path_ok (p @ [i])" "table_at P m root p = Some t"
    and huge: "\<not> bit (entry_of P m root p i) 7" and ca: "can_allocate allocate (Suc n) a"
  shows "(\<exists>a'. map_level C P allocate t i m a rest = Inr (Inl FrameAllocationFailed, m, a') \<and> ready root m a' \<and>
        grows 3 root m a m a') \<or>
     (\<exists>v m' a'. map_level C P allocate t i m a rest = rest v m' a' \<and> ready root m' a' \<and> grows 3 root m a m' a' \<and>
        can_allocate allocate n a' \<and> level_done root p i m m' v \<and>
        (entry_of P m root p i = 0 \<longrightarrow> v \<in> (\<lambda>f. projr (P f)) ` avail a))"
proof -
  have i: "i < 512" "path_ok p" using p(1) by simp_all
  have ent: "entry_of P m root p i = m (entry_at t i)" using p(2) by (simp add: entry_of_def)
  show ?thesis
  proof (cases "m (entry_at t i) = 0")
    case False
    from get_or_allocate_used [OF r p False] huge ent obtain m' v where
      g: "get_or_allocate_pagetable C P allocate m (entry_at t i) (parent_flags C) a = Inr (Some v, m', a)"
        "ready root m' a" "table_at P m' root (p @ [i]) = Some v" "grows 3 root m a m' a"
        "m' = m \<or> m' = m(entry_at t i := m (entry_at t i) OR 7)"
        "\<And>q j. path_ok q \<Longrightarrow> j < 512 \<Longrightarrow>
           entry_of P m' root q j = (if q = p \<and> j = i then m' (entry_at t i) else entry_of P m root q j)"
      by auto
    have te: "table_entry (entry_of P m root p i)" using False huge ent by (simp add: table_entry_def)
    then have b0: "bit (m (entry_at t i)) 0" using tables_okD(1) [OF readyD(1) [OF r] p(1)] ent by simp
    have "bit (m' (entry_at t i)) 0" "\<not> bit (m' (entry_at t i)) 7"
      using g(5) b0 huge ent parent_flags_bits(2) by (auto simp: bit_or_iff)
    with g i ent b0 huge have "level_done root p i m m' v" by (auto simp: level_done_at_def)
    with g i can_allocate_le [OF ca] False ent show ?thesis by (auto simp: map_level_def)
  next
    case True
    from ca obtain fo a' where al: "allocate a = Inr (fo, a')" "can_allocate allocate n a'" by auto
    note u = get_or_allocate_unused [OF r p True al(1)]
    show ?thesis
    proof (cases fo)
      case None
      with u i show ?thesis by (auto simp: map_level_def)
    next
      case (Some f)
      with u obtain m' v where
        g: "get_or_allocate_pagetable C P allocate m (entry_at t i) (parent_flags C) a = Inr (Some v, m', a')"
          "ready root m' a'" "table_at P m' root (p @ [i]) = Some v" "frame_bits_ok f" "grows 3 root m a m' a'"
          "v \<in> (\<lambda>f. projr (P f)) ` avail a"
          "\<And>q j. path_ok q \<Longrightarrow> j < 512 \<Longrightarrow>
             entry_of P m' root q j = (if q = p \<and> j = i then f OR 7 else entry_of P m root q j)"
        by auto
      have "bit (f OR 7) 0" "\<not> bit (f OR 7) 7"
        using g(4) parent_flags_bits bit_frame_of [of f 7] by (auto simp: frame_bits_ok_def bit_or_iff)
      with g i ent True have "level_done root p i m m' v" by (auto simp: level_done_at_def)
      with g i al(2) show ?thesis
        by (intro disjI2 exI [of _ v] exI [of _ m'] exI [of _ a'] conjI) (simp_all add: map_level_def)
    qed
  qed
qed

lemma level_done_mmu:
  assumes "level_done root p i m m' v" "path_ok (p @ [i])" "i4 < 512" "i3 < 512" "i2 < 512" "i1 < 512"
  shows "mmu_lookup P m' root (i4, i3, i2, i1) = mmu_lookup P m root (i4, i3, i2, i1)"
  by (rule mmu_lookup_parent [of p i]) (use assms in \<open>auto simp: level_done_at_def\<close>)

lemma leaf_write_step:
  assumes ok: "tables_ok P usable root m" and p: "path_ok p" "i < 512" "table_at P m root p = Some t"
    and lw: "leaf_write p (entry_of P m root p i) e"
  shows "tables_ok P usable root (m(entry_at t i := e))"
    and "path_ok q \<Longrightarrow> j < 512 \<Longrightarrow> entry_of P (m(entry_at t i := e)) root q j =
           (if q = p \<and> j = i then e else entry_of P m root q j)"
    and "tables P root (m(entry_at t i := e)) = tables P root m"
proof -
  have ent: "entry_of P m root p i = m (entry_at t i)" using p(3) by (simp add: entry_of_def)
  have ch: "length p = 3 \<or> child P e = child P (m (entry_at t i))"
    using lw ent by (auto simp: leaf_write_def child_def)
  show "tables_ok P usable root (m(entry_at t i := e))"
    by (rule tables_ok_write [OF ok p ch]) (use lw in \<open>auto simp: leaf_write_def\<close>)
  show "path_ok q \<Longrightarrow> j < 512 \<Longrightarrow> entry_of P (m(entry_at t i := e)) root q j =
           (if q = p \<and> j = i then e else entry_of P m root q j)"
    by (rule entry_of_write [OF ok p ch])
  show "tables P root (m(entry_at t i := e)) = tables P root m"
    using table_at_write [OF ok p ch] by (auto simp: tables_def)
qed

lemma ready_leaf_write:
  assumes "ready root m a" "path_ok p" "i < 512" "table_at P m root p = Some t"
    and "leaf_write p (entry_of P m root p i) e"
  shows "ready root (m(entry_at t i := e)) a"
  using assms(1) leaf_write_step(1,3) [OF readyD(1) [OF assms(1)] assms(2-5)]
  by (simp add: mapper_ready_def fresh_frames_def)

lemma grows_leaf_write:
  assumes ok: "tables_ok P usable root m" and p: "path_ok p" "i < 512" "table_at P m root p = Some t"
    and lw: "leaf_write p (entry_of P m root p i) e" and n: "length p \<ge> n"
  shows "grows n root m a (m(entry_at t i := e)) a"
proof -
  note s = leaf_write_step [OF ok p lw]
  have "t \<in> tables P root m" using p by (auto simp: tables_def)
  then have "x \<noteq> entry_at t i" if "x AND NOT (mask 12) \<notin> tables P root m" for x
    using that entry_at_page(1) [OF table_at_ok(2) [OF ok p(1,3)] p(2)] by auto
  then show ?thesis using n s(2) by (auto simp: grows_at_def s(3) split: if_splits)
qed

text \<open>
  The walk down to the table \<open>l1\<close> of a page: either the allocator runs out of frames on the way, or
  the table is reached; in both cases the processor sees what it saw before.
\<close>

lemma map_two_levels:
  assumes r: "ready root m a" and ca: "can_allocate allocate (Suc (Suc n)) a"
    and h: "\<not> bit (entry_of P m root [] (l4_index C page)) 7"
      "\<not> bit (entry_of P m root [l4_index C page] (l3_index C page)) 7"
  shows "\<exists>m' a'. ready root m' a' \<and> grows 3 root m a m' a' \<and>
     (\<forall>i4 < 512. \<forall>i3 < 512. \<forall>i2 < 512. \<forall>i1 < 512.
        mmu_lookup P m' root (i4, i3, i2, i1) = mmu_lookup P m root (i4, i3, i2, i1)) \<and>
     (\<forall>q j. path_ok q \<and> j < 512 \<and> 2 \<le> length q \<longrightarrow> entry_of P m' root q j = entry_of P m root q j) \<and>
     root_kept P {l4_index C page} root m m' \<and>
     ((map_level C P allocate root (l4_index C page) m a (\<lambda>l3 m a.
         map_level C P allocate l3 (l3_index C page) m a rest) = Inr (Inl FrameAllocationFailed, m', a')) \<or>
      (\<exists>l2. map_level C P allocate root (l4_index C page) m a (\<lambda>l3 m a.
         map_level C P allocate l3 (l3_index C page) m a rest) = rest l2 m' a' \<and>
         can_allocate allocate n a' \<and> table_at P m' root [l4_index C page, l3_index C page] = Some l2 \<and>
         bit (entry_of P m' root [] (l4_index C page)) 0 \<and>
         bit (entry_of P m' root [l4_index C page] (l3_index C page)) 0 \<and>
         (\<forall>j < 512. \<forall>k < 512. entry_of P m' root [l4_index C page, l3_index C page] j =
                      entry_of P m root [l4_index C page, l3_index C page] j \<and>
            entry_of P m' root [l4_index C page, l3_index C page, k] j =
              entry_of P m root [l4_index C page, l3_index C page, k] j) \<and>
         (entry_of P m root [] (l4_index C page) = 0 \<longrightarrow> took_table P (avail a) root m')))"
proof -
  let ?i4 = "l4_index C page" and ?i3 = "l3_index C page"
  note ix = table_index_less [OF crates]
  have pk: "path_ok ([] @ [?i4])" "path_ok ([?i4] @ [?i3])" "path_ok [?i4]" "path_ok []"
    using ix by (simp_all add: path_ok_def)
  have root: "table_at P m root [] = Some root" by simp
  let ?f = "\<lambda>l3 m a. map_level C P allocate l3 ?i3 m a rest"
  from map_level_step [OF r pk(1) root h(1) ca, of ?f] show ?thesis
  proof (elim disjE exE conjE)
    fix a' assume "map_level C P allocate root ?i4 m a ?f = Inr (Inl FrameAllocationFailed, m, a')" "ready root m a'"
      "grows 3 root m a m a'"
    then show ?thesis by (auto simp: root_kept_def)
  next
    fix l3 m1 a1
    assume 1: "map_level C P allocate root ?i4 m a ?f = ?f l3 m1 a1" "ready root m1 a1"
      "can_allocate allocate (Suc n) a1" "level_done root [] ?i4 m m1 l3" and g1: "grows 3 root m a m1 a1"
      and fresh: "entry_of P m root [] ?i4 = 0 \<longrightarrow> l3 \<in> (\<lambda>f. projr (P f)) ` avail a"
    have t: "table_at P m1 root [?i4] = Some l3" using level_doneD(1) [OF 1(4)] by simp
    have "entry_of P m1 root [?i4] ?i3 = entry_of P m root [?i4] ?i3"
      by (rule level_doneD(4) [OF 1(4) pk(3) ix(2)]) simp
    then have h1: "\<not> bit (entry_of P m1 root [?i4] ?i3) 7" using h(2) by simp
    note mmu1 = level_done_mmu [OF 1(4) pk(1)]
    from map_level_step [OF 1(2) pk(2) t h1 1(3), of rest] show ?thesis
    proof (elim disjE exE conjE)
      fix a' assume "map_level C P allocate l3 ?i3 m1 a1 rest = Inr (Inl FrameAllocationFailed, m1, a')"
        "ready root m1 a'" "grows 3 root m1 a1 m1 a'"
      moreover have "\<forall>q j. path_ok q \<and> j < 512 \<and> 2 \<le> length q \<longrightarrow> entry_of P m1 root q j = entry_of P m root q j"
        using level_doneD(4) [OF 1(4)] by fastforce
      moreover have "root_kept P {?i4} root m m1" using level_doneD(4) [OF 1(4) pk(4)] by (intro root_keptI) simp
      ultimately show ?thesis using 1(1) mmu1 grows_trans [OF g1] by (intro exI [of _ m1] exI [of _ a']) auto
    next
      fix l2 m2 a2
      assume 2: "map_level C P allocate l3 ?i3 m1 a1 rest = rest l2 m2 a2" "ready root m2 a2"
        "can_allocate allocate n a2" "level_done root [?i4] ?i3 m1 m2 l2" and g2: "grows 3 root m1 a1 m2 a2"
      note mmu2 = level_done_mmu [OF 2(4) pk(2)]
      have "entry_of P m2 root [] ?i4 = entry_of P m1 root [] ?i4"
        by (rule level_doneD(4) [OF 2(4) pk(4) ix(1)]) simp
      then have b4: "bit (entry_of P m2 root [] ?i4) 0" using level_doneD(2) [OF 1(4)] by simp
      have below: "entry_of P m2 root q j = entry_of P m root q j"
        if "path_ok q" "j < 512" "length q \<ge> 2" for q j
      proof -
        have "q \<noteq> []" "q \<noteq> [?i4]" using that(3) by auto
        with level_doneD(4) [OF 1(4) that(1,2)] level_doneD(4) [OF 2(4) that(1,2)] show ?thesis by simp
      qed
      have "path_ok [?i4, ?i3]" "\<And>k. k < 512 \<Longrightarrow> path_ok [?i4, ?i3, k]"
        using ix by (simp_all add: path_ok_def)
      moreover have "l3 \<in> tables P root m1" unfolding tables_def using t pk(3) by blast
      then have "entry_of P m root [] ?i4 = 0 \<longrightarrow> took_table P (avail a) root m2"
        using fresh growsD(2) [OF g2] unfolding took_table_def by blast
      moreover have "root_kept P {?i4} root m m2"
        using level_doneD(4) [OF 1(4) pk(4)] level_doneD(4) [OF 2(4) pk(4)] by (intro root_keptI) simp
      moreover have "table_at P m2 root [?i4, ?i3] = Some l2" using level_doneD(1) [OF 2(4)] by simp
      ultimately show ?thesis
        using 1(1) 2(1-3) mmu1 mmu2 b4 below level_doneD(2) [OF 2(4)] grows_trans [OF g1 g2]
        by (intro exI [of _ m2] exI [of _ a2]) (simp del: table_at.simps)
    qed
  qed
qed

lemma set_leaf_4KiB:
  assumes r: "ready root m a" and t: "table_at P m root [i4, i3, i2] = Some l1" and pk: "path_ok [i4, i3, i2]" "i1 < 512"
    and up: "bit (entry_of P m root [] i4) 0" "bit (entry_of P m root [i4] i3) 0"
      "bit (entry_of P m root [i4, i3] i2) 0" "\<not> bit (entry_of P m root [i4, i3] i2) 7"
    and fr: "frame_bits_ok frame" "flag_bits_ok flags"
  shows "\<exists>res m'. set_leaf l1 i1 frame flags page m a = Inr (res, m', a) \<and> ready root m' a \<and> grows 3 root m a m' a \<and>
     root_kept P {} root m m' \<and>
     (case res of
        Inl err \<Rightarrow> err = PageAlreadyMapped \<and> m' = m \<and> mmu_lookup P m root (i4, i3, i2, i1) \<noteq> None
      | Inr pg \<Rightarrow> pg = page \<and> mmu_lookup P m root (i4, i3, i2, i1) = None \<and>
          (\<forall>ix. indices_ok ix \<longrightarrow> mmu_lookup P m' root ix =
             (if ix = (i4, i3, i2, i1)
              then if bit flags 0 then Some (Small frame (frame OR flags)) else None
              else mmu_lookup P m root ix)))"
proof -
  have ent: "entry_of P m root [i4, i3, i2] i1 = m (entry_at l1 i1)" using t by (simp add: entry_of_def)
  show ?thesis
  proof (cases "bit (m (entry_at l1 i1)) 0")
    case True
    with r up ent pk(2) show ?thesis
      by (simp add: set_leaf_def is_present_bit mmu_lookup_def Let_def grows_refl root_kept_def)
  next
    case False
    let ?m = "m(entry_at l1 i1 := frame OR flags)"
    have lw: "leaf_write [i4, i3, i2] (entry_of P m root [i4, i3, i2] i1) (frame OR flags)"
      by (simp add: leaf_write_def)
    note e = leaf_write_step(2) [OF readyD(1) [OF r] pk t lw]
    have same: "entry_of P ?m root q j = entry_of P m root q j"
      if "path_ok q" "j < 512" "\<not> (q = [i4, i3, i2] \<and> j = i1)" for q j
      using e [OF that(1,2)] that(3) by simp
    have lt: "i4 < 512" "i3 < 512" "i2 < 512" and pks: "path_ok []" "path_ok [i4]" "path_ok [i4, i3]"
      using pk(1) by (simp_all add: path_ok_def)
    have "\<not> bit frame 0" using fr(1) bit_frame_of [of frame 0] by (simp add: frame_bits_ok_def)
    then have "mmu_lookup P ?m root (i4, i3, i2, i1) =
        (if bit flags 0 then Some (Small frame (frame OR flags)) else None)"
      using same [OF pks(1) lt(1)] same [OF pks(2) lt(2)] same [OF pks(3) lt(3)] e [OF pk] up frame_of_entry [OF fr]
      by (simp add: mmu_lookup_def bit_or_iff)
    moreover have "mmu_lookup P m root (i4, i3, i2, i1) = None" using False up ent by (simp add: mmu_lookup_def)
    moreover have "mmu_lookup P ?m root ix = mmu_lookup P m root ix"
      if "indices_ok ix" "ix \<noteq> (i4, i3, i2, i1)" for ix
      by (rule mmu_lookup_leaf_other [OF same that])
    moreover have "root_kept P {} root m ?m" using same [OF pks(1)] by (intro root_keptI) simp
    ultimately show ?thesis
      using False ready_leaf_write [OF r pk t lw] grows_leaf_write [OF readyD(1) [OF r] pk t lw, of 3 a] pk(2)
      by (simp add: set_leaf_def is_present_bit PageTableEntry_set_address_def)
  qed
qed

lemma map_to_4KiB_grows:
  assumes r: "ready root m a" and ca: "can_allocate allocate 3 a" and h: "no_huge_above root m page"
    and fr: "frame_bits_ok frame" "flag_bits_ok flags"
  shows "\<exists>res m' a'. map_to_4KiB C P allocate root frame page flags m a = Inr (res, m', a') \<and> ready root m' a' \<and>
     grows 3 root m a m' a' \<and> root_kept P {l4_index C page} root m m' \<and>
     (case res of
        Inl FrameAllocationFailed \<Rightarrow> (\<forall>ix. indices_ok ix \<longrightarrow> mmu_lookup P m' root ix = mmu_lookup P m root ix)
      | Inl PageAlreadyMapped \<Rightarrow> mmu_lookup P m root (page_indices C page) \<noteq> None \<and>
          (\<forall>ix. indices_ok ix \<longrightarrow> mmu_lookup P m' root ix = mmu_lookup P m root ix)
      | Inr pg \<Rightarrow> pg = page \<and> mmu_lookup P m root (page_indices C page) = None \<and>
          (\<forall>ix. indices_ok ix \<longrightarrow> mmu_lookup P m' root ix =
             (if ix = page_indices C page
              then if bit flags 0 then Some (Small frame (frame OR flags)) else None
              else mmu_lookup P m root ix)))"
proof -
  let ?i4 = "l4_index C page" and ?i3 = "l3_index C page" and ?i2 = "l2_index C page" and ?i1 = "l1_index C page"
  note ix = table_index_less [OF crates, of page]
  have pk: "path_ok ([?i4, ?i3] @ [?i2])" "path_ok [?i4, ?i3, ?i2]" using ix by (simp_all add: path_ok_def)
  have pks: "path_ok []" "path_ok [?i4]" using ix by (simp_all add: path_ok_def)
  have iok: "indices_ok (page_indices C page)" using ix by (simp add: indices_ok_def page_indices_def)
  let ?leaf = "\<lambda>l1 m a. set_leaf l1 ?i1 frame flags page m a"
  let ?rest = "\<lambda>l2 m a. map_level C P allocate l2 ?i2 m a ?leaf"
  have ca': "can_allocate allocate (Suc (Suc 1)) a" using ca by (simp add: numeral_3_eq_3)
  from map_two_levels [OF r ca', of page ?rest] h obtain m1 a1 where
    1: "ready root m1 a1" "\<And>ix. indices_ok ix \<Longrightarrow> mmu_lookup P m1 root ix = mmu_lookup P m root ix"
    and g1: "grows 3 root m a m1 a1" and k1: "root_kept P {?i4} root m m1"
    and alt: "map_to_4KiB C P allocate root frame page flags m a = Inr (Inl FrameAllocationFailed, m1, a1) \<or>
      (\<exists>l2. map_to_4KiB C P allocate root frame page flags m a = ?rest l2 m1 a1 \<and>
         can_allocate allocate 1 a1 \<and> table_at P m1 root [?i4, ?i3] = Some l2 \<and>
         bit (entry_of P m1 root [] ?i4) 0 \<and> bit (entry_of P m1 root [?i4] ?i3) 0 \<and>
         (\<forall>j < 512. entry_of P m1 root [?i4, ?i3] j = entry_of P m root [?i4, ?i3] j))"
    by (auto simp: map_to_4KiB_def no_huge_above_page_def indices_ok_def)
  from alt show ?thesis
  proof (elim disjE exE conjE)
    assume "map_to_4KiB C P allocate root frame page flags m a = Inr (Inl FrameAllocationFailed, m1, a1)"
    with 1 g1 k1 show ?thesis by simp
  next
    fix l2
    assume 2: "map_to_4KiB C P allocate root frame page flags m a = ?rest l2 m1 a1" "can_allocate allocate 1 a1"
      "table_at P m1 root [?i4, ?i3] = Some l2"
      "bit (entry_of P m1 root [] ?i4) 0" "bit (entry_of P m1 root [?i4] ?i3) 0"
      "\<forall>j < 512. entry_of P m1 root [?i4, ?i3] j = entry_of P m root [?i4, ?i3] j"
    have h2: "\<not> bit (entry_of P m1 root [?i4, ?i3] ?i2) 7" using 2(6) ix h by (simp add: no_huge_above_page_def)
    have ca1: "can_allocate allocate (Suc 0) a1" using 2(2) by simp
    from map_level_step [OF 1(1) pk(1) 2(3) h2 ca1, of ?leaf] show ?thesis
    proof (elim disjE exE conjE)
      fix a' assume "?rest l2 m1 a1 = Inr (Inl FrameAllocationFailed, m1, a')" "ready root m1 a'" "grows 3 root m1 a1 m1 a'"
      with 1 2(1) grows_trans [OF g1] k1 show ?thesis by simp
    next
      fix l1 m2 a2
      assume 3: "?rest l2 m1 a1 = ?leaf l1 m2 a2" "ready root m2 a2" "level_done root [?i4, ?i3] ?i2 m1 m2 l1"
        and g2: "grows 3 root m1 a1 m2 a2"
      have mmu: "mmu_lookup P m2 root ix = mmu_lookup P m root ix" if "indices_ok ix" for ix
        using level_done_mmu [OF 3(3) pk(1)] 1(2) [OF that] that by (cases ix) (simp add: indices_ok_def)
      have "entry_of P m2 root [] ?i4 = entry_of P m1 root [] ?i4"
        "entry_of P m2 root [?i4] ?i3 = entry_of P m1 root [?i4] ?i3"
        by (rule level_doneD(4) [OF 3(3) pks(1) ix(1)], simp) (rule level_doneD(4) [OF 3(3) pks(2) ix(2)], simp)
      then have up: "bit (entry_of P m2 root [] ?i4) 0" "bit (entry_of P m2 root [?i4] ?i3) 0"
        "bit (entry_of P m2 root [?i4, ?i3] ?i2) 0" "\<not> bit (entry_of P m2 root [?i4, ?i3] ?i2) 7"
        "table_at P m2 root [?i4, ?i3, ?i2] = Some l1"
        using 2(4,5) level_doneD(1-3) [OF 3(3)] by simp_all
      from set_leaf_4KiB [OF 3(2) up(5) pk(2) ix(4) up(1-4) fr, of page] obtain res m3 where
        4: "?leaf l1 m2 a2 = Inr (res, m3, a2)" "ready root m3 a2" and g3: "grows 3 root m2 a2 m3 a2" "root_kept P {} root m2 m3"
        and 5:
          "case res of
             Inl err \<Rightarrow> err = PageAlreadyMapped \<and> m3 = m2 \<and> mmu_lookup P m2 root (?i4, ?i3, ?i2, ?i1) \<noteq> None
           | Inr pg \<Rightarrow> pg = page \<and> mmu_lookup P m2 root (?i4, ?i3, ?i2, ?i1) = None \<and>
               (\<forall>ix. indices_ok ix \<longrightarrow> mmu_lookup P m3 root ix =
                  (if ix = (?i4, ?i3, ?i2, ?i1)
                   then if bit flags 0 then Some (Small frame (frame OR flags)) else None
                   else mmu_lookup P m2 root ix))" by blast
      from 2(1) 3(1) 4(1) have "map_to_4KiB C P allocate root frame page flags m a = Inr (res, m3, a2)" by simp
      moreover have "root_kept P {} root m1 m2" using level_doneD(4) [OF 3(3) pks(1)] by (intro root_keptI) simp
      then have "root_kept P {?i4} root m m3" using root_kept_trans [OF root_kept_trans [OF k1 _ order_refl] g3(2)] by simp
      ultimately show ?thesis using 4(2) 5 mmu [OF iok] mmu grows_trans [OF grows_trans [OF g1 g2] g3(1)]
        by (intro exI [of _ res] exI [of _ m3] exI [of _ a2] conjI)
          (auto simp: page_indices_def split: sum.splits)
    qed
  qed
qed

lemma map_to_4KiB_spec:
  assumes r: "ready root m a" and ca: "can_allocate allocate 3 a" and h: "no_huge_above root m page"
    and fr: "frame_bits_ok frame" "flag_bits_ok flags"
  shows "\<exists>res m' a'. map_to_4KiB C P allocate root frame page flags m a = Inr (res, m', a') \<and> ready root m' a' \<and>
     (case res of
        Inl FrameAllocationFailed \<Rightarrow> (\<forall>ix. indices_ok ix \<longrightarrow> mmu_lookup P m' root ix = mmu_lookup P m root ix)
      | Inl PageAlreadyMapped \<Rightarrow> mmu_lookup P m root (page_indices C page) \<noteq> None \<and>
          (\<forall>ix. indices_ok ix \<longrightarrow> mmu_lookup P m' root ix = mmu_lookup P m root ix)
      | Inr pg \<Rightarrow> pg = page \<and> mmu_lookup P m root (page_indices C page) = None \<and>
          (\<forall>ix. indices_ok ix \<longrightarrow> mmu_lookup P m' root ix =
             (if ix = page_indices C page
              then if bit flags 0 then Some (Small frame (frame OR flags)) else None
              else mmu_lookup P m root ix)))"
  using map_to_4KiB_grows [OF assms] by (elim exE conjE) (intro exI conjI)

subsection \<open>Huge pages\<close>

lemma set_leaf_2MiB:
  assumes r: "ready root m a" and t: "table_at P m root [i4, i3] = Some l2" and pk: "path_ok [i4, i3]" "i2 < 512"
    and up: "bit (entry_of P m root [] i4) 0" "bit (entry_of P m root [i4] i3) 0"
    and fr: "frame_bits_ok frame" "flag_bits_ok flags"
  shows "\<exists>res m'. set_leaf l2 i2 frame (flags OR HUGE_PAGE) page m a = Inr (res, m', a) \<and> ready root m' a \<and>
     grows 2 root m a m' a \<and>
     (\<forall>q j. path_ok q \<and> j < 512 \<and> (q, j) \<noteq> ([i4, i3], i2) \<longrightarrow> entry_of P m' root q j = entry_of P m root q j) \<and>
     (case res of
        Inl err \<Rightarrow> err = PageAlreadyMapped \<and> m' = m \<and> bit (entry_of P m root [i4, i3] i2) 0
      | Inr pg \<Rightarrow> pg = page \<and> (\<forall>i1 < 512. mmu_lookup P m root (i4, i3, i2, i1) = None) \<and>
          (\<forall>j4 j3 j2 j1. indices_ok (j4, j3, j2, j1) \<longrightarrow> mmu_lookup P m' root (j4, j3, j2, j1) =
             (if (j4, j3, j2) = (i4, i3, i2)
              then if bit flags 0 then Some (Huge frame (frame OR flags OR HUGE_PAGE)) else None
              else mmu_lookup P m root (j4, j3, j2, j1))))"
proof -
  let ?e = "frame OR flags OR HUGE_PAGE"
  have ent: "entry_of P m root [i4, i3] i2 = m (entry_at l2 i2)" using t by (simp add: entry_of_def)
  show ?thesis
  proof (cases "bit (m (entry_at l2 i2)) 0")
    case True
    with r ent pk(2) show ?thesis by (simp add: set_leaf_def is_present_bit grows_refl)
  next
    case False
    have pk': "path_ok ([i4, i3] @ [i2])" using pk by (simp add: path_ok_def)
    have old: "\<not> table_entry (entry_of P m root [i4, i3] i2)"
      using False ent tables_okD(1) [OF readyD(1) [OF r] pk'] by auto
    have b7: "bit ?e 7" by (simp add: HUGE_PAGE_def bit_or_iff)
    then have lw: "leaf_write [i4, i3] (entry_of P m root [i4, i3] i2) ?e"
      using old by (simp add: leaf_write_def table_entry_def)
    let ?m = "m(entry_at l2 i2 := ?e)"
    note e = leaf_write_step(2) [OF readyD(1) [OF r] pk t lw]
    have fl: "flag_bits_ok (flags OR HUGE_PAGE)" using fr(2)
      by (simp add: flag_bits_ok_def frame_of_or) (simp add: frame_of_def HUGE_PAGE_def)
    have "\<not> bit frame 0" using fr(1) bit_frame_of [of frame 0] by (simp add: frame_bits_ok_def)
    then have b0: "bit ?e 0 \<longleftrightarrow> bit flags 0" by (simp add: bit_or_iff HUGE_PAGE_def)
    have new: "mmu_lookup P ?m root (j4, j3, j2, j1) =
        (if (j4, j3, j2) = (i4, i3, i2)
         then if bit flags 0 then Some (Huge frame ?e) else None
         else mmu_lookup P m root (j4, j3, j2, j1))" if "indices_ok (j4, j3, j2, j1)" for j4 j3 j2 j1
    proof -
      have lt: "j4 < 512" "j3 < 512" "j2 < 512" "j1 < 512" using that by (simp_all add: indices_ok_def)
      then have "path_ok []" "path_ok [j4]" "path_ok [j4, j3]" "path_ok [j4, j3, j2]" by (simp_all add: path_ok_def)
      note ee = e [OF this(1) lt(1)] e [OF this(2) lt(2)] e [OF this(3) lt(3)] e [OF this(4) lt(4)]
      show ?thesis
        using ee up b0 b7 frame_of_entry [OF fr(1) fl] by (auto simp: mmu_lookup_def Let_def)
    qed
    have "mmu_lookup P m root (i4, i3, i2, i1) = None" for i1
      using False ent by (simp add: mmu_lookup_def Let_def)
    with new show ?thesis
      using False ready_leaf_write [OF r pk t lw] grows_leaf_write [OF readyD(1) [OF r] pk t lw, of 2 a] pk(2) e
      by (simp add: set_leaf_def is_present_bit PageTableEntry_set_address_def del: fun_upd_apply)
  qed
qed

lemma map_to_2MiB_grows:
  assumes r: "ready root m a" and ca: "can_allocate allocate 2 a"
    and h: "\<not> bit (entry_of P m root [] (l4_index C page)) 7"
      "\<not> bit (entry_of P m root [l4_index C page] (l3_index C page)) 7"
    and fr: "frame_bits_ok frame" "flag_bits_ok flags"
  shows "\<exists>res m' a'. map_to_2MiB C P allocate root frame page flags m a = Inr (res, m', a') \<and> ready root m' a' \<and>
     grows 2 root m a m' a' \<and>
     (\<forall>q j. path_ok q \<and> j < 512 \<and> length q = 2 \<and> (q, j) \<noteq> ([l4_index C page, l3_index C page], l2_index C page) \<longrightarrow>
        entry_of P m' root q j = entry_of P m root q j) \<and>
     ((\<exists>pg. res = Inr pg) \<and> entry_of P m root [] (l4_index C page) = 0 \<longrightarrow> took_table P (avail a) root m') \<and>
     (case res of
        Inl err \<Rightarrow> (err = PageAlreadyMapped \<longrightarrow>
            bit (entry_of P m root [l4_index C page, l3_index C page] (l2_index C page)) 0) \<and>
          (\<forall>ix. indices_ok ix \<longrightarrow> mmu_lookup P m' root ix = mmu_lookup P m root ix)
      | Inr pg \<Rightarrow> pg = page \<and>
          (\<forall>j4 j3 j2 j1. indices_ok (j4, j3, j2, j1) \<longrightarrow> mmu_lookup P m' root (j4, j3, j2, j1) =
             (if (j4, j3, j2) = (l4_index C page, l3_index C page, l2_index C page)
              then if bit flags 0 then Some (Huge frame (frame OR flags OR HUGE_PAGE)) else None
              else mmu_lookup P m root (j4, j3, j2, j1))))"
proof -
  let ?i4 = "l4_index C page" and ?i3 = "l3_index C page" and ?i2 = "l2_index C page"
  note ix = table_index_less [OF crates, of page]
  have pk: "path_ok [?i4, ?i3]" using ix by (simp add: path_ok_def)
  have fu: "flags_union C flags HUGE_PAGE = flags OR HUGE_PAGE" using crates by (simp add: crates_okD)
  let ?leaf = "\<lambda>l2 m a. set_leaf l2 ?i2 frame (flags OR HUGE_PAGE) page m a"
  have ca': "can_allocate allocate (Suc (Suc 0)) a" using ca by (simp add: numeral_2_eq_2)
  from map_two_levels [OF r ca' h, of ?leaf] obtain m1 a1 where
    1: "ready root m1 a1" "\<And>ix. indices_ok ix \<Longrightarrow> mmu_lookup P m1 root ix = mmu_lookup P m root ix"
    and g1: "grows 3 root m a m1 a1"
    and low: "\<And>q j. path_ok q \<Longrightarrow> j < 512 \<Longrightarrow> length q = 2 \<Longrightarrow> entry_of P m1 root q j = entry_of P m root q j"
    and alt: "map_to_2MiB C P allocate root frame page flags m a = Inr (Inl FrameAllocationFailed, m1, a1) \<or>
      (\<exists>l2. map_to_2MiB C P allocate root frame page flags m a = ?leaf l2 m1 a1 \<and>
         table_at P m1 root [?i4, ?i3] = Some l2 \<and>
         bit (entry_of P m1 root [] ?i4) 0 \<and> bit (entry_of P m1 root [?i4] ?i3) 0 \<and>
         (\<forall>j < 512. entry_of P m1 root [?i4, ?i3] j = entry_of P m root [?i4, ?i3] j) \<and>
         (entry_of P m root [] ?i4 = 0 \<longrightarrow> took_table P (avail a) root m1))"
    by (auto simp: map_to_2MiB_def indices_ok_def fu)
  from alt show ?thesis
  proof (elim disjE exE conjE)
    assume "map_to_2MiB C P allocate root frame page flags m a = Inr (Inl FrameAllocationFailed, m1, a1)"
    with 1 grows_mono [OF g1, of 2] low show ?thesis by simp
  next
    fix l2
    assume 2: "map_to_2MiB C P allocate root frame page flags m a = ?leaf l2 m1 a1"
      "table_at P m1 root [?i4, ?i3] = Some l2"
      "bit (entry_of P m1 root [] ?i4) 0" "bit (entry_of P m1 root [?i4] ?i3) 0"
      "\<forall>j < 512. entry_of P m1 root [?i4, ?i3] j = entry_of P m root [?i4, ?i3] j"
      and fresh: "entry_of P m root [] ?i4 = 0 \<longrightarrow> took_table P (avail a) root m1"
    from set_leaf_2MiB [OF 1(1) 2(2) pk ix(3) 2(3,4) fr, of page] obtain res m2 where
      3: "?leaf l2 m1 a1 = Inr (res, m2, a1)" "ready root m2 a1" "grows 2 root m1 a1 m2 a1"
        "case res of
           Inl err \<Rightarrow> err = PageAlreadyMapped \<and> m2 = m1 \<and> bit (entry_of P m1 root [?i4, ?i3] ?i2) 0
         | Inr pg \<Rightarrow> pg = page \<and> (\<forall>i1 < 512. mmu_lookup P m1 root (?i4, ?i3, ?i2, i1) = None) \<and>
             (\<forall>j4 j3 j2 j1. indices_ok (j4, j3, j2, j1) \<longrightarrow> mmu_lookup P m2 root (j4, j3, j2, j1) =
                (if (j4, j3, j2) = (?i4, ?i3, ?i2)
                 then if bit flags 0 then Some (Huge frame (frame OR flags OR HUGE_PAGE)) else None
                 else mmu_lookup P m1 root (j4, j3, j2, j1)))"
      and rest: "\<And>q j. path_ok q \<Longrightarrow> j < 512 \<Longrightarrow> (q, j) \<noteq> ([?i4, ?i3], ?i2) \<Longrightarrow> entry_of P m2 root q j = entry_of P m1 root q j" by blast
    have "\<forall>q j. path_ok q \<and> j < 512 \<and> length q = 2 \<and> (q, j) \<noteq> ([?i4, ?i3], ?i2) \<longrightarrow> entry_of P m2 root q j = entry_of P m root q j"
      using rest low by metis
    moreover from 2(1) 3(1) have "map_to_2MiB C P allocate root frame page flags m a = Inr (res, m2, a1)" by simp
    moreover have "entry_of P m root [] ?i4 = 0 \<longrightarrow> took_table P (avail a) root m2"
      using fresh growsD(2) [OF 3(3)] unfolding took_table_def by blast
    ultimately show ?thesis using 3(2,4) 1(2) 2(5) ix(3) grows_trans [OF grows_mono [OF g1] 3(3)]
      by (intro exI [of _ res] exI [of _ m2] exI [of _ a1] conjI) (auto split: sum.splits)
  qed
qed

lemma map_to_2MiB_spec:
  assumes r: "ready root m a" and ca: "can_allocate allocate 2 a"
    and h: "\<not> bit (entry_of P m root [] (l4_index C page)) 7"
      "\<not> bit (entry_of P m root [l4_index C page] (l3_index C page)) 7"
    and fr: "frame_bits_ok frame" "flag_bits_ok flags"
  shows "\<exists>res m' a'. map_to_2MiB C P allocate root frame page flags m a = Inr (res, m', a') \<and> ready root m' a' \<and>
     (case res of
        Inl _ \<Rightarrow> \<forall>ix. indices_ok ix \<longrightarrow> mmu_lookup P m' root ix = mmu_lookup P m root ix
      | Inr pg \<Rightarrow> pg = page \<and>
          (\<forall>j4 j3 j2 j1. indices_ok (j4, j3, j2, j1) \<longrightarrow> mmu_lookup P m' root (j4, j3, j2, j1) =
             (if (j4, j3, j2) = (l4_index C page, l3_index C page, l2_index C page)
              then if bit flags 0 then Some (Huge frame (frame OR flags OR HUGE_PAGE)) else None
              else mmu_lookup P m root (j4, j3, j2, j1))))"
proof -
  from map_to_2MiB_grows [OF assms] obtain res m' a' where
    *: "map_to_2MiB C P allocate root frame page flags m a = Inr (res, m', a')" "ready root m' a'"
    and c: "case res of
        Inl err \<Rightarrow> (err = PageAlreadyMapped \<longrightarrow>
            bit (entry_of P m root [l4_index C page, l3_index C page] (l2_index C page)) 0) \<and>
          (\<forall>ix. indices_ok ix \<longrightarrow> mmu_lookup P m' root ix = mmu_lookup P m root ix)
      | Inr pg \<Rightarrow> pg = page \<and>
          (\<forall>j4 j3 j2 j1. indices_ok (j4, j3, j2, j1) \<longrightarrow> mmu_lookup P m' root (j4, j3, j2, j1) =
             (if (j4, j3, j2) = (l4_index C page, l3_index C page, l2_index C page)
              then if bit flags 0 then Some (Huge frame (frame OR flags OR HUGE_PAGE)) else None
              else mmu_lookup P m root (j4, j3, j2, j1)))" by blast
  from c show ?thesis
    by (intro exI [of _ res] exI [of _ m'] exI [of _ a'] conjI *) (cases res; simp del: split_paired_All)
qed

subsection \<open>Walking without allocating\<close>

lemma walk_level_step:
  assumes ok: "tables_ok P usable root m" and p: "path_ok (p @ [i])" "table_at P m root p = Some t"
    and huge: "\<not> bit (entry_of P m root p i) 7"
  shows "walk_level C P m missing t i rest =
           (case table_at P m root (p @ [i]) of None \<Rightarrow> missing | Some v \<Rightarrow> rest v)"
proof -
  have i: "i < 512" using p(1) by simp
  have ent: "entry_of P m root p i = m (entry_at t i)" using p(2) by (simp add: entry_of_def)
  show ?thesis
  proof (cases "m (entry_at t i) = 0")
    case True
    with i p(2) show ?thesis
      by (simp add: walk_level_def get_pagetable_def PageTableEntry_is_unused_def table_at_snoc child_def table_entry_def)
  next
    case False
    then have te: "table_entry (entry_of P m root p i)" using huge ent by (simp add: table_entry_def)
    obtain v where "P (frame_of (m (entry_at t i))) = Inr v" "v \<noteq> 0" "page_aligned Size4KiB v"
      using to_virtual [OF tables_okD(2) [OF ok p(1) te]] ent by auto
    with False i te ent show ?thesis
      by (simp add: walk_level_def get_pagetable_def PageTableEntry_is_unused_def
          table_at_snoc_entry child_def entry_address(2) [OF crates] PageTable_at_address_aligned)
  qed
qed

lemma parent_present:
  assumes "tables_ok P usable root m" "path_ok (p @ [i])" "table_at P m root (p @ [i]) = Some v"
  shows "bit (entry_of P m root p i) 0"
proof -
  have "table_entry (entry_of P m root p i)"
    using assms(3) by (simp add: table_at_snoc_entry child_def split: if_splits)
  then show ?thesis by (rule tables_okD(1) [OF assms(1,2)])
qed

lemma walk_4KiB:
  assumes ok: "tables_ok P usable root m" and h: "no_huge_above root m page"
  shows "walk_level C P m missing root (l4_index C page) (\<lambda>l3.
         walk_level C P m missing l3 (l3_index C page) (\<lambda>l2.
         walk_level C P m missing l2 (l2_index C page) rest)) =
     (case table_at P m root [l4_index C page, l3_index C page, l2_index C page] of
        None \<Rightarrow> missing | Some l1 \<Rightarrow> rest l1)"
    and "table_at P m root [l4_index C page, l3_index C page, l2_index C page] = Some l1 \<Longrightarrow>
         mmu_lookup P m root (page_indices C page) =
           (if bit (m (entry_at l1 (l1_index C page))) 0
            then Some (Small (frame_of (m (entry_at l1 (l1_index C page)))) (m (entry_at l1 (l1_index C page))))
            else None)"
    and "table_at P m root [l4_index C page, l3_index C page, l2_index C page] = None \<Longrightarrow>
         mmu_lookup P m root (page_indices C page) = None"
proof -
  let ?i4 = "l4_index C page" and ?i3 = "l3_index C page" and ?i2 = "l2_index C page" and ?i1 = "l1_index C page"
  note ix = table_index_less [OF crates, of page]
  have pk: "path_ok ([] @ [?i4])" "path_ok ([?i4] @ [?i3])" "path_ok ([?i4, ?i3] @ [?i2])"
    using ix by (simp_all add: path_ok_def)
  have h': "\<not> bit (entry_of P m root [] ?i4) 7" "\<not> bit (entry_of P m root [?i4] ?i3) 7"
    "\<not> bit (entry_of P m root [?i4, ?i3] ?i2) 7" using h by (simp_all add: no_huge_above_page_def)
  have split: "table_at P m root [?i4, ?i3] = table_at P m root ([?i4] @ [?i3])"
    "table_at P m root [?i4, ?i3, ?i2] = table_at P m root ([?i4, ?i3] @ [?i2])"
    "table_at P m root [?i4] = table_at P m root ([] @ [?i4])" by simp_all
  have none: "table_at P m root (p @ [i]) = None" if "table_at P m root p = None" for p i
    using that by (simp add: table_at_snoc)
  show "walk_level C P m missing root ?i4 (\<lambda>l3. walk_level C P m missing l3 ?i3 (\<lambda>l2.
      walk_level C P m missing l2 ?i2 rest)) =
     (case table_at P m root [?i4, ?i3, ?i2] of None \<Rightarrow> missing | Some l1 \<Rightarrow> rest l1)"
  proof (cases "table_at P m root [?i4]")
    case None
    then have "table_at P m root [?i4, ?i3, ?i2] = None" using none split by metis
    with None show ?thesis
      by (simp add: walk_level_step [OF ok pk(1) _ h'(1), of root] del: table_at.simps(2))
  next
    case 3: (Some l3)
    show ?thesis
    proof (cases "table_at P m root [?i4, ?i3]")
      case None
      then have "table_at P m root [?i4, ?i3, ?i2] = None" using none split by metis
      with None 3 show ?thesis
        by (simp add: walk_level_step [OF ok pk(1) _ h'(1), of root] walk_level_step [OF ok pk(2) 3 h'(2)]
            del: table_at.simps(2))
    next
      case 2: (Some l2)
      with 3 show ?thesis
        by (simp add: walk_level_step [OF ok pk(1) _ h'(1), of root] walk_level_step [OF ok pk(2) 3 h'(2)]
            walk_level_step [OF ok pk(3) 2 h'(3)] del: table_at.simps(2))
    qed
  qed
  show "mmu_lookup P m root (page_indices C page) =
      (if bit (m (entry_at l1 ?i1)) 0 then Some (Small (frame_of (m (entry_at l1 ?i1))) (m (entry_at l1 ?i1))) else None)"
    if t: "table_at P m root [?i4, ?i3, ?i2] = Some l1"
  proof -
    from t split(2) have t1: "table_at P m root ([?i4, ?i3] @ [?i2]) = Some l1" by simp
    from table_at_parent [OF t1] split(1) obtain l2 where t2: "table_at P m root ([?i4] @ [?i3]) = Some l2" by auto
    from table_at_parent [OF t2] split(3) obtain l3 where t3: "table_at P m root ([] @ [?i4]) = Some l3" by auto
    have e1: "entry_of P m root [?i4, ?i3, ?i2] ?i1 = m (entry_at l1 ?i1)"
      using t by (simp add: entry_of_def del: table_at.simps)
    show ?thesis
      unfolding mmu_lookup_def page_indices_def
      using parent_present [OF ok pk(1) t3] parent_present [OF ok pk(2) t2] parent_present [OF ok pk(3) t1] h'(3) e1
      by (simp add: Let_def)
  qed
  show "mmu_lookup P m root (page_indices C page) = None" if t: "table_at P m root [?i4, ?i3, ?i2] = None"
    using t h'(3) by (simp add: mmu_lookup_def page_indices_def entry_of_def Let_def del: table_at.simps)
qed

lemma translate_4KiB_spec:
  assumes ok: "tables_ok P usable root m" and h: "no_huge_above root m page"
  shows "translate_4KiB C P root m page =
     Inr (case mmu_lookup P m root (page_indices C page) of
            Some (Small f e) \<Rightarrow> Inr (f, e AND all_entry_flags) | _ \<Rightarrow> Inl NotMapped)"
proof (cases "table_at P m root [l4_index C page, l3_index C page, l2_index C page]")
  case None
  with walk_4KiB [OF ok h] show ?thesis by (simp add: translate_4KiB_def del: table_at.simps)
next
  case (Some l1)
  have fl: "PageTableEntry_flags C e = e AND all_entry_flags" for e
    using crates by (simp add: PageTableEntry_flags_def crates_okD)
  show ?thesis
    unfolding translate_4KiB_def walk_4KiB(1) [OF ok h] Some option.case walk_4KiB(2) [OF ok h Some]
    using table_index_less(4) [OF crates, of page]
    by (simp add: read_leaf_def is_present_bit entry_address(1) [OF crates] frame_of_aligned fl)
qed

lemma unmap_4KiB_grows:
  assumes ok: "tables_ok P usable root m" and h: "no_huge_above root m page"
    and mapped: "mmu_lookup P m root (page_indices C page) \<noteq> None"
  shows "\<exists>m'. unmap_4KiB C P root page m = Inr (Inr (0, page), m') \<and> tables_ok P usable root m' \<and>
     grows 3 root m a m' a \<and> root_kept P {} root m m' \<and>
     (\<forall>ix. indices_ok ix \<longrightarrow> mmu_lookup P m' root ix =
        (if ix = page_indices C page then None else mmu_lookup P m root ix))"
proof -
  let ?i4 = "l4_index C page" and ?i3 = "l3_index C page" and ?i2 = "l2_index C page" and ?i1 = "l1_index C page"
  note ix = table_index_less [OF crates, of page]
  have pk: "path_ok [?i4, ?i3, ?i2]" using ix by (simp add: path_ok_def)
  obtain l1 where t: "table_at P m root [?i4, ?i3, ?i2] = Some l1"
    using mapped walk_4KiB(3) [OF ok h] by (cases "table_at P m root [?i4, ?i3, ?i2]") auto
  have b: "bit (m (entry_at l1 ?i1)) 0" using walk_4KiB(2) [OF ok h t] mapped by (auto split: if_splits)
  let ?m = "m(entry_at l1 ?i1 := 0)"
  have lw: "leaf_write [?i4, ?i3, ?i2] (entry_of P m root [?i4, ?i3, ?i2] ?i1) 0" by (simp add: leaf_write_def)
  note lws = leaf_write_step [OF ok pk ix(4) t lw]
  have "flags_contains C (PageTableEntry_flags C (m (entry_at l1 ?i1))) PRESENT"
  proof -
    have "(m (entry_at l1 ?i1) AND all_entry_flags) AND 1 = m (entry_at l1 ?i1) AND 1"
      by (simp add: all_entry_flags_def and.assoc)
    also have "\<dots> = 1" using b by (simp add: and_one_eq bit_0 mod_2_eq_odd)
    finally show ?thesis using crates by (simp add: crates_okD PageTableEntry_flags_def PRESENT_def)
  qed
  moreover have "PageTableEntry_address C 0 = 0" by (simp add: entry_address(1) [OF crates] frame_of_def)
  ultimately have un: "unmap_4KiB C P root page m = Inr (Inr (0, page), ?m)"
    unfolding unmap_4KiB_def walk_4KiB(1) [OF ok h] t option.case
    using ix(4) by (simp add: clear_leaf_def PageTableEntry_set_unused_def)
  have other: "mmu_lookup P ?m root j = mmu_lookup P m root j"
    if "indices_ok j" "j \<noteq> page_indices C page" for j
    by (rule mmu_lookup_leaf_other [of ?i4 ?i3 ?i2 ?i1])
      (use lws(2) that in \<open>auto simp: page_indices_def simp del: fun_upd_apply\<close>)
  have "path_ok [?i4, ?i3]" using ix by (simp add: path_ok_def)
  then have "mmu_lookup P ?m root (page_indices C page) = None"
    using lws(2) [OF pk ix(4)] lws(2) [of "[?i4, ?i3]" ?i2] ix(3) h
    by (simp add: mmu_lookup_def page_indices_def Let_def no_huge_above_page_def del: fun_upd_apply)
  moreover have "grows 3 root m a ?m a" using grows_leaf_write [OF ok pk ix(4) t lw] by simp
  moreover have "path_ok []" by (simp add: path_ok_def)
  then have "root_kept P {} root m ?m" using lws(2) by (intro root_keptI) (simp del: fun_upd_apply)
  ultimately show ?thesis using un lws(1) other by (auto simp del: fun_upd_apply)
qed

lemma unmap_4KiB_spec:
  assumes "tables_ok P usable root m" "no_huge_above root m page" "mmu_lookup P m root (page_indices C page) \<noteq> None"
  shows "\<exists>m'. unmap_4KiB C P root page m = Inr (Inr (0, page), m') \<and> tables_ok P usable root m' \<and>
     (\<forall>ix. indices_ok ix \<longrightarrow> mmu_lookup P m' root ix =
        (if ix = page_indices C page then None else mmu_lookup P m root ix))"
  using unmap_4KiB_grows [OF assms] by blast

subsection \<open>A huge page above\<close>

text \<open>
  The walker does not look at the huge bit: below a huge page of 2 MiB it takes the mapped data for
  a table of level 1.
\<close>

lemma map_to_4KiB_below_huge:
  assumes ok: "tables_ok P usable root m" and t: "table_at P m root [l4_index C page, l3_index C page] = Some l2"
    and up: "entry_of P m root [] (l4_index C page) AND 7 = 7"
      "entry_of P m root [l4_index C page] (l3_index C page) AND 7 = 7"
      "entry_of P m root [l4_index C page, l3_index C page] (l2_index C page) AND 7 = 7"
    and huge: "bit (entry_of P m root [l4_index C page, l3_index C page] (l2_index C page)) 7"
    and v: "P (frame_of (entry_of P m root [l4_index C page, l3_index C page] (l2_index C page))) = Inr v"
      "v \<noteq> 0" "page_aligned Size4KiB v"
    and data: "\<not> bit (m (entry_at v (l1_index C page))) 0"
  shows "map_to_4KiB C P allocate root frame page flags m a =
           Inr (Inr page, m(entry_at v (l1_index C page) := frame OR flags), a)"
proof -
  let ?i4 = "l4_index C page" and ?i3 = "l3_index C page" and ?i2 = "l2_index C page" and ?i1 = "l1_index C page"
  note ix = table_index_less [OF crates, of page]
  have pk: "path_ok ([] @ [?i4])" "path_ok ([?i4] @ [?i3])" using ix by (simp_all add: path_ok_def)
  have t2: "table_at P m root ([?i4] @ [?i3]) = Some l2" using t by simp
  then obtain l3 where t3: "table_at P m root ([] @ [?i4]) = Some l3" using table_at_parent by fastforce
  have nz: "e \<noteq> 0" if "e AND 7 = (7 :: u64)" for e using that by auto
  have follow: "map_level C P allocate tb i m a rest = rest w m a"
    if "i < 512" "e = m (entry_at tb i)" "e AND 7 = 7" "P (frame_of e) = Inr w" "w \<noteq> 0" "page_aligned Size4KiB w"
    for tb i e w rest
    using that nz [OF that(3)] flags_check [OF nz [OF that(3)]]
    by (auto simp: map_level_def get_or_allocate_pagetable_def PageTableEntry_is_unused_def
        parent_flags_eq [OF crates] entry_address(2) [OF crates] PageTable_at_address_aligned Let_def)
  have child_P: "P (frame_of (entry_of P m root p i)) = Inr w \<and> w \<noteq> 0 \<and> page_aligned Size4KiB w"
    if "path_ok (p @ [i])" "table_at P m root (p @ [i]) = Some w" for p i w
  proof -
    have te: "table_entry (entry_of P m root p i)" and w: "w = projr (P (frame_of (entry_of P m root p i)))"
      using that(2) by (auto simp: table_at_snoc_entry child_def split: if_splits)
    from to_virtual [OF tables_okD(2) [OF ok that(1) te]] w show ?thesis by auto
  qed
  have e4: "entry_of P m root [] ?i4 = m (entry_at root ?i4)" by (simp add: entry_of_def)
  have e3: "entry_of P m root [?i4] ?i3 = m (entry_at l3 ?i3)" using t3 by (simp add: entry_of_def)
  have e2: "entry_of P m root [?i4, ?i3] ?i2 = m (entry_at l2 ?i2)" using t by (simp add: entry_of_def)
  show ?thesis
    unfolding map_to_4KiB_def
    using follow [OF ix(1) e4 up(1)] follow [OF ix(2) e3 up(2)] follow [OF ix(3) e2 up(3) v]
      child_P [OF pk(1) t3] child_P [OF pk(2) t2] ix(4) data
    by (simp add: set_leaf_def is_present_bit PageTableEntry_set_address_def)
qed

end

end
