(* ===== verification/Offset_Page_Table.thy ===== *)
theory Offset_Page_Table
  imports Page_Mapper
begin

text \<open>
  The instance of the mapper that the kernel and the boot loader use: \<open>OffsetPageTable\<close> with the
  mapping \<open>PhysicalOffset\<close> (\<open>x86_64/src/paging/offset_page_table.rs\<close>) over the bump frame
  allocator. It meets the contracts, and the properties of mapping, translation and unmapping
  are stated for it.
\<close>

section \<open>The contracts are met\<close>

definition usable_offset :: "u64 \<Rightarrow> PhysicalFrame \<Rightarrow> bool" where
  "usable_offset offset f \<longleftrightarrow>
     page_aligned Size4KiB offset \<and> frame_bits_ok f \<and> unat offset + unat f < 2 ^ 64 \<and> offset + f \<noteq> 0"

lemma frame_bits_aligned: "frame_bits_ok f \<Longrightarrow> page_aligned Size4KiB f"
  by (metis SHIFT.simps(1) frame_bits_ok_def frame_of_aligned page_aligned_containing)

interpretation offset_mapping: page_table_frame_mapping
  "PhysicalOffset_frame_to_virtual offset" "usable_offset offset" for offset
proof (unfold_locales, goal_cases)
  case (1 f)
  then have "unat (offset + f) = unat offset + unat f" by (simp add: usable_offset_def unat_plus_nowrap)
  with 1 frame_bits_aligned [of f] show ?case
    by (auto simp: usable_offset_def PhysicalOffset_frame_to_virtual_def op_add_def page_aligned_iff_dvd dvd_add)
next
  case (2 f g)
  then show ?case
    by (auto simp: usable_offset_def PhysicalOffset_frame_to_virtual_def op_add_def)
next
  case (3 f)
  then show ?case by (simp add: usable_offset_def)
qed

abbreviation region_frames_allocator :: "PhysicalMemoryRegion BumpFrameAllocator allocate" where
  "region_frames_allocator \<equiv> bump_allocate_frame PhysicalMemoryRegion_MemoryRegion"

lemma offset_table_mapper:
  "crates_ok C \<Longrightarrow>
     table_mapper (PhysicalOffset_frame_to_virtual offset) (usable_offset offset) region_frames_allocator
       (bump_inv PhysicalMemoryRegion_MemoryRegion) (bump_avail PhysicalMemoryRegion_MemoryRegion) C"
  by (intro table_mapper.intro table_mapper_axioms.intro
      offset_mapping.page_table_frame_mapping_axioms physical_region.bump.frame_allocator_axioms)

interpretation offset_tables: table_mapper
  "PhysicalOffset_frame_to_virtual offset" "usable_offset offset" region_frames_allocator
  "bump_inv PhysicalMemoryRegion_MemoryRegion" "bump_avail PhysicalMemoryRegion_MemoryRegion"
  reference_crates for offset
  by (rule offset_table_mapper [OF reference_crates_ok])

text \<open>The tables of an \<open>OffsetPageTable\<close> and its allocator, ready for the mapper.\<close>

definition offset_ready ::
    "u64 \<Rightarrow> VirtualAddress \<Rightarrow> table_memory \<Rightarrow> PhysicalMemoryRegion BumpFrameAllocator \<Rightarrow> bool" where
  "offset_ready offset =
     mapper_ready (PhysicalOffset_frame_to_virtual offset) (usable_offset offset)
       (bump_inv PhysicalMemoryRegion_MemoryRegion) (bump_avail PhysicalMemoryRegion_MemoryRegion)"

definition offset_mmu ::
    "u64 \<Rightarrow> table_memory \<Rightarrow> VirtualAddress \<Rightarrow> nat \<times> nat \<times> nat \<times> nat \<Rightarrow> mmu_result option" where
  "offset_mmu offset = mmu_lookup (PhysicalOffset_frame_to_virtual offset)"

definition offset_no_huge :: "crates \<Rightarrow> u64 \<Rightarrow> VirtualAddress \<Rightarrow> table_memory \<Rightarrow> Page \<Rightarrow> bool" where
  "offset_no_huge C offset = no_huge_above_page C (PhysicalOffset_frame_to_virtual offset)"

lemmas offset_defs = offset_ready_def offset_mmu_def offset_no_huge_def OffsetPageTable_map_to_4KiB_def
  OffsetPageTable_map_to_2MiB_def OffsetPageTable_unmap_4KiB_def OffsetPageTable_unmap_2MiB_def
  OffsetPageTable_translate_4KiB_def OffsetPageTable_translate_2MiB_def

lemma bump_can_allocate:
  "bump_inv PhysicalMemoryRegion_MemoryRegion a \<Longrightarrow> unat (bump_next a) + n < 2 ^ 64 \<Longrightarrow>
     can_allocate region_frames_allocator n a"
proof (induction n arbitrary: a)
  case 0
  then show ?case by simp
next
  case (Suc n)
  have "unat (bump_next a + 1) = unat (bump_next a) + 1" using Suc.prems(2) by (simp add: unat_plus_nowrap)
  then have "can_allocate region_frames_allocator n (a\<lparr>bump_next := bump_next a + 1\<rparr>)"
    using Suc.prems by (intro Suc.IH) (simp_all add: bump_inv_def)
  with physical_region.bump_allocate_frame_eq [OF Suc.prems(1)] Suc.prems(2) show ?case by auto
qed

section \<open>Mapped pages have no huge page above\<close>

lemma mmu_Small_no_huge:
  assumes "mmu_lookup P m root (page_indices C page) = Some (Small f e)"
  shows "no_huge_above_page C P root m page"
proof -
  let ?i4 = "l4_index C page" and ?i3 = "l3_index C page" and ?i2 = "l2_index C page"
  have b: "bit (entry_of P m root [?i4] ?i3) 0" "bit (entry_of P m root [?i4, ?i3] ?i2) 0"
    "\<not> bit (entry_of P m root [?i4, ?i3] ?i2) 7"
    using assms by (auto simp: mmu_lookup_def page_indices_def Let_def split: if_splits)
  have "\<not> bit (entry_of P m root p i) 7" if "bit (entry_of P m root (p @ [i]) j) 0" for p i j
  proof
    assume "bit (entry_of P m root p i) 7"
    then have "table_at P m root (p @ [i]) = None" unfolding table_at_snoc_entry by (simp add: child_def table_entry_def)
    with that show False by (simp add: entry_of_def)
  qed
  from this [of "[]" ?i4 ?i3] this [of "[?i4]" ?i3 ?i2] b show ?thesis by (simp add: no_huge_above_page_def)
qed

text \<open>An empty level 4 table.\<close>

lemma table_at_empty: "table_at P (\<lambda>_. 0) root p = Some t \<longleftrightarrow> p = [] \<and> t = root"
  by (cases p) (auto simp: child_def table_entry_def)

lemma tables_ok_empty:
  "root \<noteq> 0 \<Longrightarrow> page_aligned Size4KiB root \<Longrightarrow> tables_ok P usable root (\<lambda>_. 0)"
  by (auto simp: tables_ok_def table_at_empty entry_of_def table_entry_def split: option.splits)

lemma offset_ready_empty:
  assumes "root \<noteq> 0" "page_aligned Size4KiB root" "bump_inv PhysicalMemoryRegion_MemoryRegion a"
    and "\<forall>f \<in> bump_avail PhysicalMemoryRegion_MemoryRegion a. usable_offset offset f \<and> offset + f \<noteq> root"
  shows "offset_ready offset root (\<lambda>_. 0) a"
proof -
  have "tables (PhysicalOffset_frame_to_virtual offset) root (\<lambda>_. 0) = {root}"
    by (auto simp: tables_def table_at_empty path_ok_def)
  moreover have "projr (PhysicalOffset_frame_to_virtual offset f) = offset + f" if "usable_offset offset f" for f
    using that by (simp add: usable_offset_def PhysicalOffset_frame_to_virtual_def op_add_def)
  ultimately show ?thesis
    using assms by (auto simp: offset_ready_def mapper_ready_def fresh_frames_def tables_ok_empty)
qed

lemma offset_map_4KiB_spec:
  assumes "crates_ok C" "offset_ready offset root m a" "unat (bump_next a) + 3 < 2 ^ 64"
    and "offset_no_huge C offset root m page" "frame_bits_ok frame" "flag_bits_ok flags"
  shows "\<exists>res m' a'. OffsetPageTable_map_to_4KiB C offset region_frames_allocator root frame page flags m a =
       Inr (res, m', a') \<and> offset_ready offset root m' a' \<and>
     (case res of
        Inl FrameAllocationFailed \<Rightarrow>
          \<forall>ix. indices_ok ix \<longrightarrow> offset_mmu offset m' root ix = offset_mmu offset m root ix
      | Inl PageAlreadyMapped \<Rightarrow> offset_mmu offset m root (page_indices C page) \<noteq> None \<and>
          (\<forall>ix. indices_ok ix \<longrightarrow> offset_mmu offset m' root ix = offset_mmu offset m root ix)
      | Inr pg \<Rightarrow> pg = page \<and> offset_mmu offset m root (page_indices C page) = None \<and>
          (\<forall>ix. indices_ok ix \<longrightarrow> offset_mmu offset m' root ix =
             (if ix = page_indices C page
              then if bit flags 0 then Some (Small frame (frame OR flags)) else None
              else offset_mmu offset m root ix)))"
proof -
  have "can_allocate region_frames_allocator 3 a"
    using assms(2,3) by (intro bump_can_allocate) (simp_all add: offset_ready_def mapper_ready_def)
  from table_mapper.map_to_4KiB_spec [OF offset_table_mapper [OF assms(1)] assms(2) [unfolded offset_defs] this
      assms(4) [unfolded offset_defs] assms(5,6)]
  show ?thesis unfolding offset_defs .
qed

lemma offset_map_2MiB_spec:
  assumes "crates_ok C" "offset_ready offset root m a" "unat (bump_next a) + 2 < 2 ^ 64"
    and "\<not> bit (entry_of (PhysicalOffset_frame_to_virtual offset) m root [] (l4_index C page)) 7"
    and "\<not> bit (entry_of (PhysicalOffset_frame_to_virtual offset) m root [l4_index C page] (l3_index C page)) 7"
    and "frame_bits_ok frame" "flag_bits_ok flags"
  shows "\<exists>res m' a'. OffsetPageTable_map_to_2MiB C offset region_frames_allocator root frame page flags m a =
       Inr (res, m', a') \<and> offset_ready offset root m' a' \<and>
     (case res of
        Inl _ \<Rightarrow> \<forall>ix. indices_ok ix \<longrightarrow> offset_mmu offset m' root ix = offset_mmu offset m root ix
      | Inr pg \<Rightarrow> pg = page \<and>
          (\<forall>j4 j3 j2 j1. indices_ok (j4, j3, j2, j1) \<longrightarrow> offset_mmu offset m' root (j4, j3, j2, j1) =
             (if (j4, j3, j2) = (l4_index C page, l3_index C page, l2_index C page)
              then if bit flags 0 then Some (Huge frame (frame OR flags OR HUGE_PAGE)) else None
              else offset_mmu offset m root (j4, j3, j2, j1))))"
proof -
  have "can_allocate region_frames_allocator 2 a"
    using assms(2,3) by (intro bump_can_allocate) (simp_all add: offset_ready_def mapper_ready_def)
  from table_mapper.map_to_2MiB_spec [OF offset_table_mapper [OF assms(1)] assms(2) [unfolded offset_defs] this
      assms(4-7)]
  show ?thesis unfolding offset_defs .
qed

section \<open>Example states\<close>

text \<open>The state of the witnesses: an empty level 4 table at 0x1000 and free frames from 0x10000 on.\<close>

definition example_frames :: "PhysicalMemoryRegion BumpFrameAllocator" where
  "example_frames = BumpFrameAllocator_new [PhysicalMemoryRegion_new 0x10000 0x10000 Free]"

lemma example_ready: "offset_ready 0 0x1000 (\<lambda>_. 0) example_frames" "bump_next example_frames = 0"
proof -
  let ?D = PhysicalMemoryRegion_MemoryRegion and ?rs = "[PhysicalMemoryRegion_new 0x10000 0x10000 Free]"
  have wf: "well_formed_map ?D ?rs"
    by (simp add: region_in_range_def page_aligned_def PhysicalMemoryRegion_MemoryRegion_def PhysicalMemoryRegion_new_def)
  have "usable_offset 0 f \<and> 0 + f \<noteq> 0x1000" if "f \<in> bump_avail ?D example_frames" for f
  proof -
    have f: "f \<in> set (map_frames ?D ?rs)"
      using that set_drop_subset by (auto simp: bump_avail_def example_frames_def BumpFrameAllocator_new_def)
    then have "page_aligned Size4KiB f" "0x10000 \<le> unat f" "unat f < 0x20000"
      using map_frames_aligned [OF f] map_frames_in_region [OF wf f]
      by (auto simp: PhysicalMemoryRegion_MemoryRegion_def PhysicalMemoryRegion_new_def)
    then show ?thesis by (auto simp: usable_offset_def page_aligned_def frame_bits_okI)
  qed
  moreover have "bump_inv ?D example_frames"
    using wf by (intro well_formed_map_bump_inv) (simp add: example_frames_def BumpFrameAllocator_new_def)
  ultimately show "offset_ready 0 0x1000 (\<lambda>_. 0) example_frames"
    by (intro offset_ready_empty) (simp_all add: page_aligned_def)
  show "bump_next example_frames = 0" by (simp add: example_frames_def BumpFrameAllocator_new_def)
qed

lemma example_no_huge: "offset_no_huge reference_crates 0 0x1000 (\<lambda>_. 0) page"
  by (simp add: offset_no_huge_def no_huge_above_page_def entry_of_def split: option.split)

lemma example_mmu: "offset_mmu offset (\<lambda>_. 0) root ix = None"
  by (cases ix) (simp add: offset_mmu_def mmu_lookup_def entry_of_def Let_def split: option.split)

lemma example_nth:
  "n < 16 \<Longrightarrow> usable_frames_nth PhysicalMemoryRegion_MemoryRegion
     [PhysicalMemoryRegion_new 0x10000 0x10000 Free] n = Inr (Some ((0x10000 + of_nat n * 0x1000) AND NOT (mask 12)))"
  by (simp add: PhysicalMemoryRegion_MemoryRegion_def PhysicalMemoryRegion_new_def
      PhysicalMemoryRegion_is_usable_def PhysicalMemoryRegion_end_def op_add_def step_count_def)

lemmas example_run_defs = map_level_def reference_crates_def l4_index_def l3_index_def l2_index_def
  l1_index_def take_bit_eq_mod drop_bit_eq_div entry_at_def get_or_allocate_pagetable_def
  PageTableEntry_is_unused_def bump_allocate_frame_def example_frames_def BumpFrameAllocator_new_def
  PhysicalOffset_frame_to_virtual_def op_add_def PageTable_initialize_empty_at_address_def
  PageTable_SIZE_def write_empty_table_def set_leaf_def PageTableEntry_is_present_def mask_eq_exp_minus_1

lemma example_map_ok:
  "\<exists>m' a'. OffsetPageTable_map_to_4KiB reference_crates 0 region_frames_allocator 0x1000
      0x40000 0x444444440000 3 (\<lambda>_. 0) example_frames = Inr (Inr 0x444444440000, m', a')"
  by (simp add: OffsetPageTable_map_to_4KiB_def map_to_4KiB_def example_run_defs example_nth
      del: usable_frames_nth.simps)

lemma example_bits: "frame_bits_ok 0x40000" "flag_bits_ok 3"
  by (simp_all add: frame_bits_ok_def flag_bits_ok_def frame_of_def)

lemma example_mapped:
  "\<exists>m' a'. OffsetPageTable_map_to_4KiB reference_crates 0 region_frames_allocator 0x1000
      0x40000 0x444444440000 3 (\<lambda>_. 0) example_frames = Inr (Inr 0x444444440000, m', a') \<and>
     offset_ready 0 0x1000 m' a' \<and>
     offset_mmu 0 m' 0x1000 (page_indices reference_crates 0x444444440000) = Some (Small 0x40000 0x40003)"
proof -
  have "indices_ok (page_indices reference_crates 0x444444440000)"
    using table_index_less [OF reference_crates_ok] by (simp add: indices_ok_def page_indices_def)
  moreover from example_map_ok offset_map_4KiB_spec [OF reference_crates_ok example_ready(1) _ example_no_huge example_bits,
      of "0x444444440000"] obtain m' a' where
    "OffsetPageTable_map_to_4KiB reference_crates 0 region_frames_allocator 0x1000
      0x40000 0x444444440000 3 (\<lambda>_. 0) example_frames = Inr (Inr 0x444444440000, m', a')"
    "offset_ready 0 0x1000 m' a'"
    "\<forall>ix. indices_ok ix \<longrightarrow> offset_mmu 0 m' 0x1000 ix =
       (if ix = page_indices reference_crates 0x444444440000
        then if bit (3 :: u64) 0 then Some (Small 0x40000 (0x40000 OR 3)) else None
        else offset_mmu 0 (\<lambda>_. 0) 0x1000 ix)"
    by (auto simp: example_ready(2) simp del: split_paired_All)
  ultimately show ?thesis by (simp del: split_paired_All)
qed

section \<open>Properties\<close>

text \<open>
  C9. \<open>map_to\<close> for 4 KiB pages, held to the processor's walk. On well-formed tables, with no huge
  page above the page, it returns and keeps the tables well-formed. When it answers \<open>Ok\<close>, the
  page was not mapped before and is now mapped to the frame with the flags (or, without the flag
  PRESENT, still not mapped), and every other page is mapped as before. When it answers
  \<open>PageAlreadyMapped\<close>, the page was mapped, and every page is mapped as before, as it is after
  \<open>FrameAllocationFailed\<close>.
\<close>

theorem map_to_4KiB_correct:
  assumes "crates_ok C" "offset_ready offset root m a" "unat (bump_next a) + 3 < 2 ^ 64"
    and "offset_no_huge C offset root m page" "frame_bits_ok frame" "flag_bits_ok flags"
  shows "\<exists>res m' a'. OffsetPageTable_map_to_4KiB C offset region_frames_allocator root frame page flags m a =
       Inr (res, m', a') \<and> offset_ready offset root m' a' \<and>
     (case res of
        Inl FrameAllocationFailed \<Rightarrow>
          \<forall>ix. indices_ok ix \<longrightarrow> offset_mmu offset m' root ix = offset_mmu offset m root ix
      | Inl PageAlreadyMapped \<Rightarrow> offset_mmu offset m root (page_indices C page) \<noteq> None \<and>
          (\<forall>ix. indices_ok ix \<longrightarrow> offset_mmu offset m' root ix = offset_mmu offset m root ix)
      | Inr pg \<Rightarrow> pg = page \<and> offset_mmu offset m root (page_indices C page) = None \<and>
          (\<forall>ix. indices_ok ix \<longrightarrow> offset_mmu offset m' root ix =
             (if ix = page_indices C page
              then if bit flags 0 then Some (Small frame (frame OR flags)) else None
              else offset_mmu offset m root ix)))"
  using assms by (rule offset_map_4KiB_spec)

theorem map_to_4KiB_correct_witness:
  "\<exists>res m' a'. OffsetPageTable_map_to_4KiB reference_crates 0 region_frames_allocator 0x1000
      0x40000 0x444444440000 3 (\<lambda>_. 0) example_frames = Inr (res, m', a') \<and> res \<noteq> Inl PageAlreadyMapped"
  using map_to_4KiB_correct [OF reference_crates_ok example_ready(1) _ example_no_huge example_bits, of "0x444444440000"]
  by (auto simp: example_ready(2) example_mmu)

text \<open>
  C11. Round trip: after \<open>map_to\<close> answered \<open>Ok\<close> with the flag PRESENT, \<open>translate\<close> of the page
  gives the frame and the flags that were mapped.
\<close>

theorem translate_after_map:
  assumes "crates_ok C" "offset_ready offset root m a" "unat (bump_next a) + 3 < 2 ^ 64"
    and "offset_no_huge C offset root m page" "frame_bits_ok frame"
    and "flags AND all_entry_flags = flags" "bit flags 0"
    and "OffsetPageTable_map_to_4KiB C offset region_frames_allocator root frame page flags m a =
           Inr (Inr page, m', a')"
  shows "OffsetPageTable_translate_4KiB C offset root m' page = Inr (Inr (frame, flags))"
proof -
  let ?P = "PhysicalOffset_frame_to_virtual offset"
  note T = offset_table_mapper [OF assms(1), of offset]
  have ca: "can_allocate region_frames_allocator 3 a"
    using assms(2,3) by (intro bump_can_allocate) (simp_all add: offset_ready_def mapper_ready_def)
  have "flags AND 0xFFFFFFFFF000 = (flags AND all_entry_flags) AND 0xFFFFFFFFF000"
    by (simp only: assms(6))
  then have fl: "flag_bits_ok flags"
    by (simp add: flag_bits_ok_def frame_of_eq_and all_entry_flags_def and.assoc)
  have "frame AND 0xFFFFFFFFF000 = frame" using assms(5) by (simp add: frame_bits_ok_def frame_of_eq_and)
  then have "frame AND all_entry_flags = (frame AND 0xFFFFFFFFF000) AND all_entry_flags" by (simp only:)
  then have fr: "frame AND all_entry_flags = 0" by (simp add: all_entry_flags_def and.assoc)
  have pi: "indices_ok (page_indices C page)"
    using table_index_less [OF assms(1), of page] by (simp add: indices_ok_def page_indices_def)
  from table_mapper.map_to_4KiB_spec [OF T assms(2) [unfolded offset_defs] ca assms(4) [unfolded offset_defs]
      assms(5) fl] assms(7,8) pi have
    mm: "mmu_lookup ?P m' root (page_indices C page) = Some (Small frame (frame OR flags))"
    and ok: "tables_ok ?P (usable_offset offset) root m'"
    by (auto simp: OffsetPageTable_map_to_4KiB_def mapper_ready_def simp del: split_paired_All)
  from table_mapper.translate_4KiB_spec [OF T ok mmu_Small_no_huge [OF mm]] mm assms(6) fr
  show ?thesis by (simp add: OffsetPageTable_translate_4KiB_def bit.conj_disj_distrib2)
qed

theorem translate_after_map_witness:
  "\<exists>m' a'. OffsetPageTable_map_to_4KiB reference_crates 0 region_frames_allocator 0x1000
      0x40000 0x444444440000 3 (\<lambda>_. 0) example_frames = Inr (Inr 0x444444440000, m', a') \<and>
     OffsetPageTable_translate_4KiB reference_crates 0 0x1000 m' 0x444444440000 = Inr (Inr (0x40000, 3))"
proof -
  obtain m' a' where m: "OffsetPageTable_map_to_4KiB reference_crates 0 region_frames_allocator 0x1000
      0x40000 0x444444440000 3 (\<lambda>_. 0) example_frames = Inr (Inr 0x444444440000, m', a')"
    using example_map_ok by blast
  from translate_after_map [OF reference_crates_ok example_ready(1) _ example_no_huge example_bits(1) _ _ m] m
  show ?thesis by (auto simp: example_ready(2) all_entry_flags_def)
qed

text \<open>
  C18. \<open>unmap\<close> of a mapped 4 KiB page removes the mapping of this page and of no other. But the frame
  it returns is always frame 0, whatever frame was mapped: the entry is cleared before its address
  is read.
\<close>

theorem unmap_returns_frame_zero:
  assumes "crates_ok C" "offset_ready offset root m a" "offset_no_huge C offset root m page"
    and "offset_mmu offset m root (page_indices C page) \<noteq> None"
  shows "\<exists>m'. OffsetPageTable_unmap_4KiB C offset root page m = Inr (Inr (0, page), m') \<and>
     (\<forall>ix. indices_ok ix \<longrightarrow> offset_mmu offset m' root ix =
        (if ix = page_indices C page then None else offset_mmu offset m root ix))"
proof -
  have "tables_ok (PhysicalOffset_frame_to_virtual offset) (usable_offset offset) root m"
    using assms(2) by (simp add: offset_ready_def mapper_ready_def)
  from table_mapper.unmap_4KiB_spec [OF offset_table_mapper [OF assms(1)] this
      assms(3,4) [unfolded offset_defs]] show ?thesis unfolding offset_defs by blast
qed

theorem unmap_returns_frame_zero_witness:
  "\<exists>m' a' m''. OffsetPageTable_map_to_4KiB reference_crates 0 region_frames_allocator 0x1000
      0x40000 0x444444440000 3 (\<lambda>_. 0) example_frames = Inr (Inr 0x444444440000, m', a') \<and>
     OffsetPageTable_unmap_4KiB reference_crates 0 0x1000 0x444444440000 m' =
       Inr (Inr (0, 0x444444440000), m'')"
proof -
  obtain m' a' where m: "OffsetPageTable_map_to_4KiB reference_crates 0 region_frames_allocator 0x1000
      0x40000 0x444444440000 3 (\<lambda>_. 0) example_frames = Inr (Inr 0x444444440000, m', a')"
    "offset_ready 0 0x1000 m' a'"
    "offset_mmu 0 m' 0x1000 (page_indices reference_crates 0x444444440000) = Some (Small 0x40000 0x40003)"
    using example_mapped by blast
  have "offset_no_huge reference_crates 0 0x1000 m' 0x444444440000"
    unfolding offset_no_huge_def by (rule mmu_Small_no_huge) (use m(3) in \<open>simp add: offset_mmu_def\<close>)
  from unmap_returns_frame_zero [OF reference_crates_ok m(2) this] m(1,3) show ?thesis by auto
qed

text \<open>
  C17. \<open>map_to\<close> for 2 MiB pages: on well-formed tables it returns and keeps them well-formed. When it
  answers \<open>Ok\<close>, the 512 pages of the huge page are mapped by it and all other pages as before; on
  an error every page is mapped as before.
\<close>

theorem map_to_2MiB_correct:
  assumes "crates_ok C" "offset_ready offset root m a" "unat (bump_next a) + 2 < 2 ^ 64"
    and "offset_no_huge C offset root m page" "frame_bits_ok frame" "flag_bits_ok flags"
  shows "\<exists>res m' a'. OffsetPageTable_map_to_2MiB C offset region_frames_allocator root frame page flags m a =
       Inr (res, m', a') \<and> offset_ready offset root m' a' \<and>
     (case res of
        Inl _ \<Rightarrow> \<forall>ix. indices_ok ix \<longrightarrow> offset_mmu offset m' root ix = offset_mmu offset m root ix
      | Inr pg \<Rightarrow> pg = page \<and>
          (\<forall>j4 j3 j2 j1. indices_ok (j4, j3, j2, j1) \<longrightarrow> offset_mmu offset m' root (j4, j3, j2, j1) =
             (if (j4, j3, j2) = (l4_index C page, l3_index C page, l2_index C page)
              then if bit flags 0 then Some (Huge frame (frame OR flags OR HUGE_PAGE)) else None
              else offset_mmu offset m root (j4, j3, j2, j1))))"
  by (rule offset_map_2MiB_spec [OF assms(1-3) _ _ assms(5,6)])
    (use assms(4) in \<open>simp_all add: offset_no_huge_def no_huge_above_page_def\<close>)

theorem map_to_2MiB_correct_witness:
  "\<exists>res m' a'. OffsetPageTable_map_to_2MiB reference_crates 0 region_frames_allocator 0x1000
      0x400000 0x444444400000 3 (\<lambda>_. 0) example_frames = Inr (res, m', a') \<and> offset_ready 0 0x1000 m' a'"
proof -
  have "frame_bits_ok 0x400000" by (simp add: frame_bits_ok_def frame_of_def)
  from map_to_2MiB_correct [OF reference_crates_ok example_ready(1) _ example_no_huge this example_bits(2),
      of "0x444444400000"] show ?thesis by (auto simp: example_ready(2))
qed

text \<open>The state of the last witness: tables at 0x1000, 0x2000 and 0x3000, a huge page at 0x200000.\<close>

definition example_huge :: table_memory where
  "example_huge = (\<lambda>_. 0)(0x1000 := 0x2007, 0x2000 := 0x3007, 0x3000 := 0x200087)"

lemma example_huge_at:
  assumes "i < 512"
  shows "example_huge (entry_at 0x1000 i) = (if i = 0 then 0x2007 else 0)"
    "example_huge (entry_at 0x2000 i) = (if i = 0 then 0x3007 else 0)"
    "example_huge (entry_at 0x3000 i) = (if i = 0 then 0x200087 else 0)"
proof -
  have a: "page_aligned Size4KiB (0x1000 :: u64)" "page_aligned Size4KiB (0x2000 :: u64)" "page_aligned Size4KiB (0x3000 :: u64)"
    by (simp_all add: page_aligned_def)
  have e0: "0x1000 = entry_at 0x1000 0" "0x2000 = entry_at 0x2000 0" "0x3000 = entry_at 0x3000 0"
    by (simp_all add: entry_at_def)
  have m: "example_huge = (\<lambda>_. 0)(entry_at 0x1000 0 := 0x2007, entry_at 0x2000 0 := 0x3007, entry_at 0x3000 0 := 0x200087)"
    by (simp add: example_huge_def flip: e0)
  show "example_huge (entry_at 0x1000 i) = (if i = 0 then 0x2007 else 0)"
    "example_huge (entry_at 0x2000 i) = (if i = 0 then 0x3007 else 0)"
    "example_huge (entry_at 0x3000 i) = (if i = 0 then 0x200087 else 0)"
    unfolding m using entry_at_inj [OF a(1) _ assms, of _ 0] entry_at_inj [OF a(2) _ assms, of _ 0]
      entry_at_inj [OF a(3) _ assms, of _ 0] a by simp_all
qed

lemma example_huge_tables:
  assumes "path_ok p"
  shows "table_at (PhysicalOffset_frame_to_virtual 0) example_huge 0x1000 p =
     (if p = [] then Some 0x1000 else if p = [0] then Some 0x2000 else if p = [0, 0] then Some 0x3000 else None)"
proof -
  let ?P = "PhysicalOffset_frame_to_virtual 0"
  have ch: "child ?P 0 = None" "child ?P 0x2007 = Some 0x2000" "child ?P 0x3007 = Some 0x3000" "child ?P 0x200087 = None"
    by (simp_all add: child_def table_entry_def frame_of_def PhysicalOffset_frame_to_virtual_def op_add_def
        take_bit_eq_mod drop_bit_eq_div)
  show ?thesis
  proof (cases p)
    case (Cons i q)
    then have i: "i < 512" and q: "\<forall>j \<in> set q. j < 512" using assms by (auto simp: path_ok_def)
    show ?thesis
    proof (cases q)
      case Nil
      with Cons i ch show ?thesis by (simp add: example_huge_at)
    next
      case q2: (Cons j r)
      with q have j: "j < 512" and r: "\<forall>k \<in> set r. k < 512" by simp_all
      with Cons q2 i ch show ?thesis by (cases r) (simp_all add: example_huge_at)
    qed
  qed simp
qed

lemma example_huge_entries:
  assumes "path_ok p" "i < 512"
  shows "entry_of (PhysicalOffset_frame_to_virtual 0) example_huge 0x1000 p i =
     (if i \<noteq> 0 then 0 else if p = [] then 0x2007 else if p = [0] then 0x3007
      else if p = [0, 0] then 0x200087 else 0)"
  using assms(2) by (simp add: entry_of_def example_huge_tables [OF assms(1)] example_huge_at)

lemma example_huge_ok: "tables_ok (PhysicalOffset_frame_to_virtual 0) (usable_offset 0) 0x1000 example_huge"
proof -
  have "usable_offset 0 0x2000" "usable_offset 0 0x3000"
    by (simp_all add: usable_offset_def page_aligned_def frame_bits_ok_def frame_of_def)
  moreover have "frame_of 0x2007 = 0x2000" "frame_of 0x3007 = 0x3000" by (simp_all add: frame_of_eq_and)
  ultimately show ?thesis
    unfolding tables_ok_def
    by (auto simp: page_aligned_def example_huge_entries example_huge_tables table_entry_def split: if_splits)
qed

text \<open>
  \<open>map_to\<close> of a 4 KiB page inside a mapped huge page does not answer \<open>PageAlreadyMapped\<close>. The
  walker takes the contents of the huge page for a level 1 table; where the word it finds has
  bit 0 clear, \<open>map_to\<close> overwrites it with the new entry and answers \<open>Ok\<close>, while the processor
  still maps the page by the huge page.
\<close>

theorem map_to_4KiB_corrupts_huge_page:
  fixes offset :: u64 and C :: crates and page :: Page
  defines "P \<equiv> PhysicalOffset_frame_to_virtual offset"
    and "i4 \<equiv> l4_index C page" and "i3 \<equiv> l3_index C page" and "i2 \<equiv> l2_index C page" and "i1 \<equiv> l1_index C page"
  assumes "crates_ok C" "tables_ok P (usable_offset offset) root m" "table_at P m root [i4, i3] = Some l2"
    and "entry_of P m root [] i4 AND 7 = 7" "entry_of P m root [i4] i3 AND 7 = 7"
    and "entry_of P m root [i4, i3] i2 AND 7 = 7" "bit (entry_of P m root [i4, i3] i2) 7"
    and "P (frame_of (entry_of P m root [i4, i3] i2)) = Inr v" "v \<noteq> 0" "page_aligned Size4KiB v"
    and "v \<notin> tables P root m" "\<not> bit (m (entry_at v i1)) 0"
  shows "\<exists>m'. OffsetPageTable_map_to_4KiB C offset region_frames_allocator root frame page flags m a =
       Inr (Inr page, m', a) \<and> m' (entry_at v i1) = frame OR flags \<and>
     offset_mmu offset m' root (page_indices C page) =
       Some (Huge (frame_of (entry_of P m root [i4, i3] i2)) (entry_of P m root [i4, i3] i2))"
proof -
  note ix = table_index_less [OF assms(6), of page, folded i4_def i3_def i2_def i1_def]
  let ?m = "m(entry_at v i1 := frame OR flags)"
  have map: "OffsetPageTable_map_to_4KiB C offset region_frames_allocator root frame page flags m a =
      Inr (Inr page, ?m, a)"
    using table_mapper.map_to_4KiB_below_huge [OF offset_table_mapper [OF assms(6)], of offset root m page l2 v] assms
    by (simp add: OffsetPageTable_map_to_4KiB_def)
  have pk: "path_ok []" "path_ok [i4]" "path_ok [i4, i3]" using ix by (simp_all add: path_ok_def)
  note wo = offset_mapping.write_outside(2) [OF assms(7) [unfolded P_def] assms(15) assms(16) [unfolded P_def] ix(4),
      folded P_def]
  have b0: "bit e 0" if "e AND 7 = (7 :: u64)" for e
    using that by (metis bit_and_iff parent_flags_bits(3))
  have "offset_mmu offset ?m root (page_indices C page) =
      Some (Huge (frame_of (entry_of P m root [i4, i3] i2)) (entry_of P m root [i4, i3] i2))"
    unfolding offset_mmu_def mmu_lookup_def page_indices_def P_def [symmetric]
    using wo [OF pk(1) ix(1)] wo [OF pk(2) ix(2)] wo [OF pk(3) ix(3)] b0 [OF assms(9)] b0 [OF assms(10)] b0 [OF assms(11)]
      assms(12)
    by (simp add: Let_def i4_def i3_def i2_def del: fun_upd_apply)
  with map show ?thesis by auto
qed

theorem map_to_4KiB_corrupts_huge_page_witness:
  "\<exists>m'. OffsetPageTable_map_to_4KiB reference_crates 0 region_frames_allocator 0x1000 0x40000 0 3 example_huge
        example_frames = Inr (Inr 0, m', example_frames) \<and> m' 0x200000 = 0x40003"
proof -
  let ?P = "PhysicalOffset_frame_to_virtual 0"
  have i: "l4_index reference_crates 0 = 0" "l3_index reference_crates 0 = 0" "l2_index reference_crates 0 = 0"
    "l1_index reference_crates 0 = 0"
    by (simp_all add: l4_index_def l3_index_def l2_index_def l1_index_def reference_crates_def)
  have pk: "path_ok []" "path_ok [0]" "path_ok [0, 0]" by (simp_all add: path_ok_def)
  have t: "table_at ?P example_huge 0x1000 [0, 0] = Some 0x3000" using example_huge_tables [OF pk(3)] by simp
  have v: "0x200000 \<notin> tables ?P 0x1000 example_huge"
    by (auto simp: tables_def example_huge_tables split: if_splits)
  have e: "entry_of ?P example_huge 0x1000 [] 0 = 0x2007" "entry_of ?P example_huge 0x1000 [0] 0 = 0x3007"
    "entry_of ?P example_huge 0x1000 [0, 0] 0 = 0x200087"
    using example_huge_entries pk by simp_all
  have f: "?P (frame_of (entry_of ?P example_huge 0x1000 [0, 0] 0)) = Inr 0x200000"
    by (simp add: e frame_of_eq_and PhysicalOffset_frame_to_virtual_def op_add_def)
  have d: "example_huge (entry_at 0x200000 0) = 0" by (simp add: example_huge_def entry_at_def)
  from map_to_4KiB_corrupts_huge_page [where C = reference_crates and offset = 0 and page = 0, unfolded i,
      OF reference_crates_ok example_huge_ok t _ _ _ _ f _ _ v, of "0x40000" 3 example_frames] d
  show ?thesis by (auto simp: page_aligned_def entry_at_def e)
qed

end
