(* ===== verification/Fresh_Pages.thy ===== *)
theory Fresh_Pages
  imports Page_Mapper
begin

text \<open>
  The step that the kernel and stage 4 repeat for every page of the heap, of the kernel stack and of
  the uninitialised data: allocate a frame and map the page to it. What a list of such steps does is
  proved once for every mapper, and that enough frames make it succeed.
\<close>

section \<open>Allocating and mapping a page\<close>

text \<open>\<open>expect\<close> on the result of \<open>map_to\<close>.\<close>

definition expect_mapped :: "((MappingError + Page) \<times> table_memory \<times> 'a) res \<Rightarrow> (table_memory \<times> 'a) res" where
  "expect_mapped r = rbind r (\<lambda>(res, m, a). case res of Inl _ \<Rightarrow> Inl Unwrap_None | Inr _ \<Rightarrow> Inr (m, a))"

definition map_fresh_page ::
    "crates \<Rightarrow> frame_mapping \<Rightarrow> 'a allocate \<Rightarrow> VirtualAddress \<Rightarrow> PageTableEntryFlags \<Rightarrow> Page \<Rightarrow>
     table_memory \<times> 'a \<Rightarrow> (table_memory \<times> 'a) res" where
  "map_fresh_page C P allocate root flags page = (\<lambda>(m, a).
     rbind (allocate a) (\<lambda>(fo, a).
     rbind (expect fo) (\<lambda>frame.
     expect_mapped (map_to_4KiB C P allocate root frame page flags m a))))"

section \<open>Enough frames\<close>

fun can_supply :: "'a allocate \<Rightarrow> nat \<Rightarrow> 'a \<Rightarrow> bool" where
  "can_supply allocate 0 a = True"
| "can_supply allocate (Suc n) a = (\<exists>f a'. allocate a = Inr (Some f, a') \<and> can_supply allocate n a')"

lemma can_supply_Suc: "can_supply allocate (Suc n) a \<Longrightarrow> can_supply allocate n a"
  by (induction n arbitrary: a) auto

lemma can_supply_le: "can_supply allocate n a \<Longrightarrow> k \<le> n \<Longrightarrow> can_supply allocate k a"
  by (induction n) (auto simp del: can_supply.simps dest: can_supply_Suc elim: le_SucE)

lemma can_supply_allocate: "can_supply allocate n a \<Longrightarrow> can_allocate allocate n a"
  by (induction n arbitrary: a) auto

lemma get_or_allocate_supply:
  assumes "can_supply allocate (Suc n) a" "get_or_allocate_pagetable C P allocate m e fl a = Inr (t, m', a')"
  shows "t \<noteq> None \<and> can_supply allocate n a'"
proof (cases "PageTableEntry_is_unused (m e)")
  case True
  with assms show ?thesis by (auto simp: get_or_allocate_pagetable_def rbind_eq_Inr Let_def)
next
  case False
  with assms can_supply_Suc [OF assms(1)] show ?thesis
    by (auto simp: get_or_allocate_pagetable_def rbind_eq_Inr Let_def simp del: can_supply.simps)
qed

lemma map_level_supply:
  assumes "can_supply allocate (Suc n) a" "map_level C P allocate t i m a rest = Inr (res, m', a')"
  shows "\<exists>t1 m1 a1. rest t1 m1 a1 = Inr (res, m', a') \<and> can_supply allocate n a1"
proof -
  from assms(2) obtain e n1 m1 a1 where g: "get_or_allocate_pagetable C P allocate m e (parent_flags C) a = Inr (n1, m1, a1)"
      "(case n1 of None \<Rightarrow> Inr (Inl FrameAllocationFailed, m1, a1) | Some t \<Rightarrow> rest t m1 a1) = Inr (res, m', a')"
    by (auto simp: map_level_def rbind_eq_Inr)
  from get_or_allocate_supply [OF assms(1) g(1)] g(2) show ?thesis by (cases n1) auto
qed

lemma set_leaf_supply:
  "set_leaf t i f fl page m a = Inr (res, m', a') \<Longrightarrow> res \<noteq> Inl FrameAllocationFailed \<and> a' = a"
  by (auto simp: set_leaf_def rbind_eq_Inr split: if_splits)

lemma map_to_4KiB_supply:
  assumes "can_supply allocate (3 + n) a" "map_to_4KiB C P allocate root f page fl m a = Inr (res, m', a')"
  shows "res \<noteq> Inl FrameAllocationFailed \<and> can_supply allocate n a'"
proof -
  have "can_supply allocate (Suc (Suc (Suc n))) a" using assms(1) by (simp add: numeral_3_eq_3)
  from map_level_supply [OF this assms(2) [unfolded map_to_4KiB_def]] obtain t1 m1 a1 where
    1: "map_level C P allocate t1 (l3_index C page) m1 a1 (\<lambda>l2 m allocator.
          map_level C P allocate l2 (l2_index C page) m allocator (\<lambda>l1 m allocator.
            set_leaf l1 (l1_index C page) f fl page m allocator)) = Inr (res, m', a')"
      "can_supply allocate (Suc (Suc n)) a1" by blast
  from map_level_supply [OF 1(2,1)] obtain t2 m2 a2 where
    2: "map_level C P allocate t2 (l2_index C page) m2 a2 (\<lambda>l1 m allocator.
          set_leaf l1 (l1_index C page) f fl page m allocator) = Inr (res, m', a')"
      "can_supply allocate (Suc n) a2" by blast
  from map_level_supply [OF 2(2,1)] set_leaf_supply show ?thesis by fastforce
qed

lemma map_to_2MiB_supply:
  assumes "can_supply allocate (2 + n) a" "map_to_2MiB C P allocate root f page fl m a = Inr (res, m', a')"
  shows "res \<noteq> Inl FrameAllocationFailed \<and> can_supply allocate n a'"
proof -
  have "can_supply allocate (Suc (Suc n)) a" using assms(1) by (simp add: numeral_2_eq_2)
  from map_level_supply [OF this assms(2) [unfolded map_to_2MiB_def]] obtain t1 m1 a1 where
    1: "map_level C P allocate t1 (l3_index C page) m1 a1 (\<lambda>l2 m allocator.
          set_leaf l2 (l2_index C page) f (flags_union C fl HUGE_PAGE) page m allocator) = Inr (res, m', a')"
      "can_supply allocate (Suc n) a1" by blast
  from map_level_supply [OF 1(2,1)] set_leaf_supply show ?thesis by fastforce
qed

context memory_region
begin

lemma bump_can_supply:
  assumes "bump_inv D a" "unat (bump_next a) + n \<le> length (map_frames D (bump_memory_map a))" "unat (bump_next a) + n < 2 ^ 64"
  shows "can_supply (bump_allocate_frame D) n a"
  using assms
proof (induction n arbitrary: a)
  case 0
  then show ?case by simp
next
  case (Suc n)
  have "unat (bump_next a + 1) = unat (bump_next a) + 1" using Suc.prems(3) by (simp add: unat_plus_nowrap)
  then have "can_supply (bump_allocate_frame D) n (a\<lparr>bump_next := bump_next a + 1\<rparr>)"
    using Suc.prems by (intro Suc.IH) (simp_all add: bump_inv_def)
  with bump_allocate_frame_eq [OF Suc.prems(1)] Suc.prems(2,3) show ?case by auto
qed

end

section \<open>Distinct pages\<close>

lemma unat_index:
  assumes "crates_ok C"
  shows "l4_index C p = unat p div 2 ^ 39 mod 512" "l3_index C p = unat p div 2 ^ 30 mod 512"
    "l2_index C p = unat p div 2 ^ 21 mod 512" "l1_index C p = unat p div 2 ^ 12 mod 512"
proof -
  have "unat (take_bit 9 (drop_bit k p)) = unat p div 2 ^ k mod 512" for k
    by (simp only: unsigned_take_bit_eq unat_drop_bit_eq) (simp add: take_bit_eq_mod drop_bit_eq_div)
  then show "l4_index C p = unat p div 2 ^ 39 mod 512" "l3_index C p = unat p div 2 ^ 30 mod 512"
    "l2_index C p = unat p div 2 ^ 21 mod 512" "l1_index C p = unat p div 2 ^ 12 mod 512"
    using assms by (simp_all add: l4_index_def l3_index_def l2_index_def l1_index_def crates_okD)
qed

text \<open>Two page-aligned addresses with the same upper 16 bits and the same indices are the same page.\<close>

lemma page_indices_inj:
  assumes "crates_ok C" "page_aligned Size4KiB p" "page_aligned Size4KiB q" "unat p div 2 ^ 48 = unat q div 2 ^ 48"
    and "page_indices C p = page_indices C q"
  shows "p = q"
proof -
  have up: "a div 2 ^ k = (a div 2 ^ (k + 9)) * 512 + a div 2 ^ k mod 512" for a k :: nat
    by (simp add: power_add div_mult2_eq)
  note ix = assms(5) [unfolded page_indices_def unat_index [OF assms(1)] prod.inject]
  from up [of "unat p" 39] up [of "unat q" 39] assms(4) ix have "unat p div 2 ^ 39 = unat q div 2 ^ 39" by simp
  with up [of "unat p" 30] up [of "unat q" 30] ix have "unat p div 2 ^ 30 = unat q div 2 ^ 30" by simp
  with up [of "unat p" 21] up [of "unat q" 21] ix have "unat p div 2 ^ 21 = unat q div 2 ^ 21" by simp
  with up [of "unat p" 12] up [of "unat q" 12] ix have "unat p div 2 ^ 12 = unat q div 2 ^ 12" by simp
  moreover have "unat x = unat x div 2 ^ 12 * 2 ^ 12" if "page_aligned Size4KiB x" for x
    using that by (auto simp: page_aligned_def)
  ultimately show ?thesis using assms(2,3) by (metis word_unat_eq_iff)
qed

text \<open>The pages of a range that does not cross the upper 16 bits.\<close>

lemma range_pages:
  assumes "page_aligned Size4KiB s" "unat s + 4096 * n < 2 ^ 64" "i < n"
  shows "unat (s + of_nat i * SIZE Size4KiB) = unat s + 4096 * i" "page_aligned Size4KiB (s + of_nat i * SIZE Size4KiB)"
proof -
  have "unat s + 4096 * i < 2 ^ 64" using assms(2,3) by simp
  then show u: "unat (s + of_nat i * SIZE Size4KiB) = unat s + 4096 * i"
    by (simp add: unat_word_ariths unsigned_of_nat take_bit_eq_mod mod_simps mult.commute)
  show "page_aligned Size4KiB (s + of_nat i * SIZE Size4KiB)"
    unfolding page_aligned_iff_dvd u using assms(1) by (simp add: page_aligned_iff_dvd)
qed

lemma distinct_range_pages:
  assumes "crates_ok C" "page_aligned Size4KiB s" "unat s + 4096 * n < 2 ^ 64"
    and "(unat s + 4096 * n - 1) div 2 ^ 48 = unat s div 2 ^ 48"
  shows "distinct (map (page_indices C) (map (\<lambda>i. s + of_nat i * SIZE Size4KiB) [0 ..< n]))"
  unfolding distinct_map
proof (intro conjI inj_onI distinct_upt)
  have up: "(unat s + 4096 * i) div 2 ^ 48 = unat s div 2 ^ 48" if "i < n" for i
  proof (rule antisym)
    have "unat s + 4096 * i \<le> unat s + 4096 * n - 1" using that by simp
    then show "(unat s + 4096 * i) div 2 ^ 48 \<le> unat s div 2 ^ 48" using assms(4) div_le_mono by metis
  qed (simp add: div_le_mono)
  have eq: "i = j" if "i < n" "j < n"
    "page_indices C (s + of_nat i * SIZE Size4KiB) = page_indices C (s + of_nat j * SIZE Size4KiB)" for i j
  proof -
    note r = range_pages [OF assms(2,3)]
    have "unat (s + of_nat i * SIZE Size4KiB) div 2 ^ 48 = unat (s + of_nat j * SIZE Size4KiB) div 2 ^ 48"
      unfolding r(1) [OF that(1)] r(1) [OF that(2)] up [OF that(1)] up [OF that(2)] ..
    from page_indices_inj [OF assms(1) r(2) [OF that(1)] r(2) [OF that(2)] this that(3)]
    have "unat (s + of_nat i * SIZE Size4KiB) = unat (s + of_nat j * SIZE Size4KiB)" by (rule arg_cong)
    then show ?thesis unfolding r(1) [OF that(1)] r(1) [OF that(2)] by simp
  qed
  show "x = y" if "x \<in> set (map (\<lambda>i. s + of_nat i * SIZE Size4KiB) [0 ..< n])"
    "y \<in> set (map (\<lambda>i. s + of_nat i * SIZE Size4KiB) [0 ..< n])" "page_indices C x = page_indices C y" for x y
  proof -
    from that(1,2) obtain i j where ij: "i < n" "j < n" "x = s + of_nat i * SIZE Size4KiB" "y = s + of_nat j * SIZE Size4KiB"
      by (auto simp del: SIZE.simps)
    with eq [OF ij(1,2)] that(3) show ?thesis by (simp del: SIZE.simps)
  qed
  show "i = j" if "i \<in> set [0 ..< n]" "j \<in> set [0 ..< n]"
    "s + of_nat i * SIZE Size4KiB = s + of_nat j * SIZE Size4KiB" for i j
    using that eq by (auto simp del: SIZE.simps)
qed

section \<open>Mapping a list of pages\<close>

text \<open>What the processor sees of a list of pages mapped to a list of frames, in order.\<close>

definition mapped_pages ::
    "crates \<Rightarrow> PageTableEntryFlags \<Rightarrow> (Page \<times> PhysicalFrame) list \<Rightarrow> (nat \<times> nat \<times> nat \<times> nat \<Rightarrow> mmu_result option) \<Rightarrow>
     nat \<times> nat \<times> nat \<times> nat \<Rightarrow> mmu_result option" where
  "mapped_pages C flags pfs old ix =
     (case map_of (map (\<lambda>(p, f). (page_indices C p, f)) pfs) ix of
        Some f \<Rightarrow> if bit flags 0 then Some (Small f (f OR flags)) else None
      | None \<Rightarrow> old ix)"

lemma mapped_pages_Nil [simp]: "mapped_pages C flags [] old = old"
  by (simp add: mapped_pages_def fun_eq_iff del: split_paired_All)

lemma mapped_pages_other:
  "ix \<notin> page_indices C ` set ps \<Longrightarrow> length fs = length ps \<Longrightarrow> mapped_pages C flags (zip ps fs) old ix = old ix"
proof -
  assume a: "ix \<notin> page_indices C ` set ps" "length fs = length ps"
  then have "ix \<notin> fst ` set (map (\<lambda>(p, f). (page_indices C p, f)) (zip ps fs))"
    by (auto dest: set_zip_leftD)
  then have "map_of (map (\<lambda>(p, f). (page_indices C p, f)) (zip ps fs)) ix = None"
    by (rule iffD2 [OF map_of_eq_None_iff])
  then show ?thesis by (simp add: mapped_pages_def)
qed

lemma mapped_pages_nth:
  assumes "distinct (map (page_indices C) ps)" "length fs = length ps" "i < length ps" "bit flags 0"
  shows "mapped_pages C flags (zip ps fs) old (page_indices C (ps ! i)) = Some (Small (fs ! i) (fs ! i OR flags))"
proof -
  have "map (\<lambda>(p, f). (page_indices C p, f)) (zip ps fs) = zip (map (page_indices C) ps) fs"
    by (simp add: zip_map1 split_def)
  moreover have "map_of (zip (map (page_indices C) ps) fs) (map (page_indices C) ps ! i) = Some (fs ! i)"
    using assms by (intro map_of_zip_nth) simp_all
  ultimately show ?thesis using assms(3,4) by (simp add: mapped_pages_def)
qed

context table_mapper
begin

lemma indices_ok_page: "indices_ok (page_indices C page)"
  using table_index_less [OF crates] by (simp add: indices_ok_def page_indices_def)

lemma no_huge_grows:
  assumes "grows 3 root m a m' a'" "no_huge_above root m page"
  shows "no_huge_above root m' page"
proof -
  have "path_ok []" "path_ok [l4_index C page]" "path_ok [l4_index C page, l3_index C page]"
    using table_index_less [OF crates] by (simp_all add: path_ok_def)
  with growsD(4) [OF assms(1)] assms(2) table_index_less [OF crates] show ?thesis
    unfolding no_huge_above_page_def by (metis length_Cons list.size(3) One_nat_def Suc_1 lessI less_Suc_eq numeral_3_eq_3)
qed

lemma map_fresh_page_spec:
  assumes r: "ready root m a" and s: "can_supply allocate (4 + n) a" and h: "no_huge_above root m page"
    and fl: "flag_bits_ok flags" and un: "mmu_lookup P m root (page_indices C page) = None"
  shows "\<exists>f m' a'. map_fresh_page C P allocate root flags page (m, a) = Inr (m', a') \<and> ready root m' a' \<and>
     grows 3 root m a m' a' \<and> f \<in> avail a - avail a' \<and> projr (P f) \<notin> tables P root m' \<and> can_supply allocate n a' \<and>
     root_kept P {l4_index C page} root m m' \<and>
     (\<forall>ix. indices_ok ix \<longrightarrow> mmu_lookup P m' root ix =
        (if ix = page_indices C page then if bit flags 0 then Some (Small f (f OR flags)) else None
         else mmu_lookup P m root ix))"
proof -
  have "can_supply allocate (Suc (3 + n)) a" using s by (simp only: numeral_eq_Suc add_Suc pred_numeral_simps BitM.simps)
  then obtain f a1 where a1: "allocate a = Inr (Some f, a1)" "can_supply allocate (3 + n) a1" 
    by (simp only: can_supply.simps) blast
  note inv = readyD(2) [OF r]
  have f: "f \<in> avail a - avail a1" "avail a1 \<subseteq> avail a" "inv a1"
    using frame_avail [OF inv a1(1)] avail_step [OF inv a1(1)] inv_step [OF inv a1(1)] by auto
  have g1: "grows 3 root m a m a1" using f(2) by (rule grows_refl)
  have r1: "ready root m a1" using r f(2,3) by (auto simp: mapper_ready_def fresh_frames_def)
  have us: "usable f" "projr (P f) \<notin> tables P root m" using readyD(3,4) [OF r] f(1) by auto
  have ca: "can_allocate allocate 3 a1" using can_supply_le [OF a1(2), of 3] by (intro can_supply_allocate) simp
  from map_to_4KiB_grows [OF r1 ca h usable_bits [OF us(1)] fl] obtain res m' a' where
    2: "map_to_4KiB C P allocate root f page flags m a1 = Inr (res, m', a')" "ready root m' a'" "grows 3 root m a1 m' a'"
      "root_kept P {l4_index C page} root m m'"
    and c: "case res of
        Inl FrameAllocationFailed \<Rightarrow> (\<forall>ix. indices_ok ix \<longrightarrow> mmu_lookup P m' root ix = mmu_lookup P m root ix)
      | Inl PageAlreadyMapped \<Rightarrow> mmu_lookup P m root (page_indices C page) \<noteq> None \<and>
          (\<forall>ix. indices_ok ix \<longrightarrow> mmu_lookup P m' root ix = mmu_lookup P m root ix)
      | Inr pg \<Rightarrow> pg = page \<and> mmu_lookup P m root (page_indices C page) = None \<and>
          (\<forall>ix. indices_ok ix \<longrightarrow> mmu_lookup P m' root ix =
             (if ix = page_indices C page
              then if bit flags 0 then Some (Small f (f OR flags)) else None
              else mmu_lookup P m root ix))" by blast
  note su = map_to_4KiB_supply [OF a1(2) 2(1)]
  from su c un obtain pg where pg: "res = Inr pg" by (cases res) (auto split: MappingError.splits)
  have "projr (P f) \<notin> tables P root m'"
  proof
    assume "projr (P f) \<in> tables P root m'"
    then obtain g where g: "g \<in> avail a1" "projr (P f) = projr (P g)" using growsD(3) [OF 2(3)] us(2) by blast
    then have "usable g" using readyD(3) [OF r1] by blast
    with g us(1) to_virtual_inj [of f g] to_virtual [of f] to_virtual [of g] f(1) show False by auto
  qed
  moreover have "map_fresh_page C P allocate root flags page (m, a) = Inr (m', a')"
    using a1(1) 2(1) pg by (simp add: map_fresh_page_def expect_mapped_def)
  moreover have "f \<in> avail a - avail a'" using f(1) growsD(1) [OF 2(3)] by blast
  ultimately show ?thesis using 2(2,4) grows_trans [OF g1 2(3)] su c pg
    by (intro exI [of _ f] exI [of _ m'] exI [of _ a']) (simp del: split_paired_All)
qed

lemma map_fresh_pages_spec:
  assumes "ready root m a" "can_supply allocate (4 * length pages + n) a" "\<And>p. p \<in> set pages \<Longrightarrow> no_huge_above root m p"
    and "flag_bits_ok flags" "\<And>p. p \<in> set pages \<Longrightarrow> mmu_lookup P m root (page_indices C p) = None"
    and "distinct (map (page_indices C) pages)"
  shows "\<exists>fs m' a'. rfold (map_fresh_page C P allocate root flags) pages (m, a) = Inr (m', a') \<and> ready root m' a' \<and>
     grows 3 root m a m' a' \<and> length fs = length pages \<and> distinct fs \<and> set fs \<subseteq> avail a - avail a' \<and>
     can_supply allocate n a' \<and> (\<forall>f \<in> set fs. projr (P f) \<notin> tables P root m') \<and>
     root_kept P (l4_index C ` set pages) root m m' \<and>
     (\<forall>ix. indices_ok ix \<longrightarrow> mmu_lookup P m' root ix = mapped_pages C flags (zip pages fs) (mmu_lookup P m root) ix)"
  using assms
proof (induction pages arbitrary: m a)
  case Nil
  then show ?case by (auto simp: grows_refl root_kept_refl simp del: split_paired_All)
next
  case (Cons p pages)
  have s: "can_supply allocate (4 + (4 * length pages + n)) a" using Cons.prems(2) by (simp add: algebra_simps)
  from map_fresh_page_spec [OF Cons.prems(1) s Cons.prems(3) [OF list.set_intros(1)] Cons.prems(4)
      Cons.prems(5) [OF list.set_intros(1)]] obtain f m1 a1 where
    1: "map_fresh_page C P allocate root flags p (m, a) = Inr (m1, a1)" "ready root m1 a1" "grows 3 root m a m1 a1"
      "f \<in> avail a - avail a1" "can_supply allocate (4 * length pages + n) a1"
      "projr (P f) \<notin> tables P root m1" "root_kept P {l4_index C p} root m m1"
    and mmu: "\<And>ix. indices_ok ix \<Longrightarrow> mmu_lookup P m1 root ix =
        (if ix = page_indices C p then if bit flags 0 then Some (Small f (f OR flags)) else None
         else mmu_lookup P m root ix)" by blast
  have u1: "mmu_lookup P m1 root (page_indices C q) = None" if "q \<in> set pages" for q
  proof -
    have "page_indices C q \<noteq> page_indices C p" using Cons.prems(6) that by (metis distinct.simps(2) image_eqI list.simps(9) set_map)
    with mmu [OF indices_ok_page] Cons.prems(5) [of q] that show ?thesis by simp
  qed
  have h1: "no_huge_above root m1 q" if "q \<in> set pages" for q
    using no_huge_grows [OF 1(3)] Cons.prems(3) [of q] that by simp
  obtain fs m' a' where 2: "rfold (map_fresh_page C P allocate root flags) pages (m1, a1) = Inr (m', a')" "ready root m' a'"
     "grows 3 root m1 a1 m' a'" "length fs = length pages" "distinct fs" "set fs \<subseteq> avail a1 - avail a'"
     "can_supply allocate n a'" "\<forall>f \<in> set fs. projr (P f) \<notin> tables P root m'"
     "root_kept P (l4_index C ` set pages) root m1 m'"
    and mmu2: "\<And>ix. indices_ok ix \<Longrightarrow> mmu_lookup P m' root ix = mapped_pages C flags (zip pages fs) (mmu_lookup P m1 root) ix"
    using Cons.IH [OF 1(2,5) h1 Cons.prems(4) u1] Cons.prems(6) by auto
  have "mmu_lookup P m' root ix = mapped_pages C flags (zip (p # pages) (f # fs)) (mmu_lookup P m root) ix"
    if "indices_ok ix" for ix
  proof (cases "ix = page_indices C p")
    case True
    have "page_indices C p \<notin> fst ` set (map (\<lambda>(p, f). (page_indices C p, f)) (zip pages fs))"
      using Cons.prems(6) 2(4) by (auto dest: set_zip_leftD)
    then have "map_of (map (\<lambda>(p, f). (page_indices C p, f)) (zip pages fs)) (page_indices C p) = None"
      by (rule iffD2 [OF map_of_eq_None_iff])
    with True mmu2 [OF that] mmu [OF that] show ?thesis by (simp add: mapped_pages_def)
  next
    case False
    with mmu2 [OF that] mmu [OF that] show ?thesis by (simp add: mapped_pages_def split: option.split)
  qed
  moreover have "projr (P f) \<notin> tables P root m'"
  proof
    assume "projr (P f) \<in> tables P root m'"
    then obtain g where g: "g \<in> avail a1" "projr (P f) = projr (P g)" using growsD(3) [OF 2(3)] 1(6) by blast
    moreover have "usable f" "usable g" using readyD(3) [OF Cons.prems(1), of f] readyD(3) [OF 1(2) g(1)] 1(4) by auto
    ultimately show False using to_virtual_inj [of f g] to_virtual [of f] to_virtual [of g] 1(4) by auto
  qed
  moreover have "set (f # fs) \<subseteq> avail a - avail a'" "f \<notin> set fs" using 1(4) 2(6) growsD(1) [OF 1(3)] growsD(1) [OF 2(3)] by auto
  moreover have "root_kept P (l4_index C ` set (p # pages)) root m m'" by (rule root_kept_trans [OF 1(7) 2(9)]) auto
  ultimately show ?case
    using 1(1) 2 grows_trans [OF 1(3) 2(3)]
    by (intro exI [of _ "f # fs"] exI [of _ m'] exI [of _ a']) (simp del: split_paired_All)
qed

end

end
