(* ===== verification/Buddy_Blocks.thy ===== *)
theory Buddy_Blocks
  imports Rust_Prelude
begin

text \<open>
  The abstract side of the buddy allocator (\<open>kernel/src/allocator/buddy_allocator.rs\<close>): the
  free blocks as one list of start addresses per size class, the invariant of that structure, and
  the effect on the free memory of taking a block, splitting it and merging it with its buddy.
  Addresses are read as natural numbers, so that a block is an interval.
\<close>

abbreviation MAX_ORDER :: nat where "MAX_ORDER \<equiv> 20"

type_synonym free_lists = "nat \<Rightarrow> u64 list"

definition block :: "nat \<Rightarrow> u64 \<Rightarrow> nat set" where
  "block i a = {unat a ..< unat a + 2 ^ i}"

definition free_memory :: "free_lists \<Rightarrow> nat set" where
  "free_memory L = (\<Union>i. \<Union>a \<in> set (L i). block i a)"

text \<open>
  A block of class \<open>i\<close> is aligned to its size and large enough for the 16 byte \<open>Chunk\<close> header;
  no two blocks overlap.
\<close>

definition block_ok :: "nat \<Rightarrow> u64 \<Rightarrow> bool" where
  "block_ok i a \<longleftrightarrow> 4 \<le> i \<and> i < MAX_ORDER \<and> a \<noteq> 0 \<and> 2 ^ i dvd unat a"

definition blocks_inv :: "free_lists \<Rightarrow> bool" where
  "blocks_inv L \<longleftrightarrow>
     (\<forall>i. \<forall>a \<in> set (L i). block_ok i a) \<and>
     (\<forall>i. distinct (L i)) \<and>
     (\<forall>i j. \<forall>a \<in> set (L i). \<forall>b \<in> set (L j). (i, a) \<noteq> (j, b) \<longrightarrow> block i a \<inter> block j b = {})"

lemma blocks_invD:
  assumes "blocks_inv L"
  shows "a \<in> set (L i) \<Longrightarrow> block_ok i a"
    and "distinct (L i)"
    and "a \<in> set (L i) \<Longrightarrow> b \<in> set (L j) \<Longrightarrow> (i, a) \<noteq> (j, b) \<Longrightarrow> block i a \<inter> block j b = {}"
  using assms unfolding blocks_inv_def by blast+

lemma mem_block_start: "unat a \<in> block i a"
  by (simp add: block_def)

lemma block_subset_free: "a \<in> set (L i) \<Longrightarrow> block i a \<subseteq> free_memory L"
  by (auto simp: free_memory_def)

lemma blocks_inv_disjoint_addr:
  "blocks_inv L \<Longrightarrow> a \<in> set (L i) \<Longrightarrow> a \<in> set (L j) \<Longrightarrow> i = j"
  using blocks_invD(3) [of L a i a j] mem_block_start by blast

lemma block_ok_dvd_16: "block_ok i a \<Longrightarrow> 16 dvd unat a"
proof -
  assume "block_ok i a"
  then have "2 ^ 4 dvd unat a"
    by (metis block_ok_def power_le_dvd)
  then show ?thesis by simp
qed

lemma block_ok_le_2_64:
  assumes "block_ok i a"
  shows "unat a + 2 ^ i \<le> 2 ^ 64"
proof -
  have "(2 :: nat) ^ i dvd 2 ^ 64" 
    by (rule le_imp_power_dvd) (use assms in \<open>simp add: block_ok_def\<close>)
  moreover have "2 ^ i dvd unat a" and "unat a < 2 ^ 64"
    using assms unat_less_exp [of a] by (auto simp: block_ok_def)
  ultimately have "2 ^ i dvd 2 ^ 64 - unat a" "0 < 2 ^ 64 - unat a"
    by (simp_all only: dvd_diff_nat zero_less_diff)
  then have "2 ^ i \<le> 2 ^ 64 - unat a" by (rule dvd_imp_le)
  then show ?thesis using \<open>unat a < 2 ^ 64\<close> by simp
qed

section \<open>Removing and adding a block\<close>

definition free_elsewhere :: "nat \<Rightarrow> free_lists \<Rightarrow> nat set" where
  "free_elsewhere i L = (\<Union>j \<in> - {i}. \<Union>a \<in> set (L j). block j a)"

lemma free_memory_at: "free_memory L = (\<Union>a \<in> set (L i). block i a) \<union> free_elsewhere i L"
  by (auto simp: free_memory_def free_elsewhere_def)

lemma free_memory_update:
  "free_memory (L(i := xs)) = (\<Union>a \<in> set xs. block i a) \<union> free_elsewhere i L"
  by (subst free_memory_at [of _ i]) (auto simp: free_elsewhere_def)

lemma blocks_inv_remove:
  assumes "blocks_inv L" "set xs \<subseteq> set (L i)" "distinct xs"
  shows "blocks_inv (L(i := xs))"
proof -
  have sub: "\<And>j. set ((L(i := xs)) j) \<subseteq> set (L j)" using assms(2) by auto
  show ?thesis
    unfolding blocks_inv_def
  proof (intro conjI allI ballI impI)
    show "block_ok j a" if "a \<in> set ((L(i := xs)) j)" for j a
      using that sub assms(1) by (blast dest: blocks_invD(1))
    show "distinct ((L(i := xs)) j)" for j
      using assms by (auto dest: blocks_invD(2))
    show "block j a \<inter> block k b = {}"
      if "a \<in> set ((L(i := xs)) j)" "b \<in> set ((L(i := xs)) k)" "(j, a) \<noteq> (k, b)" for j k a b
      using that sub blocks_invD(3) [OF assms(1)] by blast
  qed
qed

lemma blocks_inv_add:
  assumes "blocks_inv L" "block_ok i a" "block i a \<inter> free_memory L = {}"
  shows "blocks_inv (L(i := a # L i))"
proof -
  have new: "a \<notin> set (L i)"
    using assms(3) mem_block_start block_subset_free by fastforce
  have apart: "block i a \<inter> block j b = {}" if "b \<in> set (L j)" for j b
    using assms(3) block_subset_free [of b L j] that by blast
  show ?thesis
    unfolding blocks_inv_def
  proof (intro conjI allI ballI impI)
    show "block_ok j b" if "b \<in> set ((L(i := a # L i)) j)" for j b
      using that assms(1,2) by (auto dest: blocks_invD(1) split: if_splits)
    show "distinct ((L(i := a # L i)) j)" for j
      using assms(1) new by (auto dest: blocks_invD(2))
    show "block j b \<inter> block k c = {}"
      if "b \<in> set ((L(i := a # L i)) j)" "c \<in> set ((L(i := a # L i)) k)" "(j, b) \<noteq> (k, c)" for j k b c
      using that apart blocks_invD(3) [OF assms(1), of b j c k]
      by (auto split: if_splits simp: Int_commute)
  qed
qed

lemma free_memory_add: "free_memory (L(i := a # L i)) = free_memory L \<union> block i a"
  by (auto simp: free_memory_update free_memory_at [of L i])

lemma free_memory_remove:
  assumes "blocks_inv L" "a \<in> set (L i)" "set xs = set (L i) - {a}"
  shows "free_memory L = free_memory (L(i := xs)) \<union> block i a"
    and "free_memory (L(i := xs)) \<inter> block i a = {}"
proof -
  have "set (L i) = insert a (set xs)" using assms(2,3) by blast
  then show "free_memory L = free_memory (L(i := xs)) \<union> block i a"
    by (auto simp: free_memory_update free_memory_at [of L i])
  have "block j b \<inter> block i a = {}" if "b \<in> set ((L(i := xs)) j)" for j b
    using that assms(2,3) by (intro blocks_invD(3) [OF assms(1)]) (auto split: if_splits)
  then show "free_memory (L(i := xs)) \<inter> block i a = {}"
    by (auto simp: free_memory_def)
qed

section \<open>Splitting a block\<close>

lemma unat_add_exp:
  assumes "block_ok (Suc i) a"
  shows "unat (a + 2 ^ i) = unat a + 2 ^ i"
proof -
  have "unat ((2 :: u64) ^ i) = 2 ^ i" using assms by (simp add: unat_exp block_ok_def)
  moreover have "unat a + 2 ^ i < 2 ^ 64"
  proof -
    have "unat a + 2 ^ i < unat a + 2 ^ Suc i" by simp
    then show ?thesis using block_ok_le_2_64 [OF assms] by (rule order.strict_trans2)
  qed
  ultimately show ?thesis by (simp add: unat_plus_nowrap)
qed

lemma block_split:
  assumes "block_ok (Suc i) a" "4 \<le> i"
  shows "block (Suc i) a = block i a \<union> block i (a + 2 ^ i)"
    and "block i a \<inter> block i (a + 2 ^ i) = {}"
    and "block_ok i a" and "block_ok i (a + 2 ^ i)"
proof -
  note u = unat_add_exp [OF assms(1)]
  show "block (Suc i) a = block i a \<union> block i (a + 2 ^ i)"
    and "block i a \<inter> block i (a + 2 ^ i) = {}"
    by (auto simp: block_def u)
  have d: "(2 :: nat) ^ i dvd unat a"
    using assms(1) power_le_dvd [of "2 :: nat" "Suc i" "unat a" i] by (simp add: block_ok_def)
  then show "block_ok i a" using assms by (simp add: block_ok_def)
  have "2 ^ i dvd unat (a + 2 ^ i)" "unat (a + 2 ^ i) \<noteq> 0" using d u by simp_all
  then show "block_ok i (a + 2 ^ i)"
    using assms by (auto simp: block_ok_def)
qed

section \<open>Buddies\<close>

definition buddy_of :: "nat \<Rightarrow> u64 \<Rightarrow> u64" where
  "buddy_of i a = a XOR push_bit i 1"

lemma unat_buddy_of:
  assumes "i < 64" "2 ^ i dvd unat a"
  shows "unat (buddy_of i a) =
           (if even (unat a div 2 ^ i) then unat a + 2 ^ i else unat a - 2 ^ i)"
proof -
  obtain m where m: "unat a = 2 ^ i * m" using assms(2) by (elim dvdE)
  have "unat (push_bit i (1 :: u64)) = push_bit i 1"
    using assms(1) by (simp add: push_bit_eq_mult unat_exp)
  then have "unat (buddy_of i a) = push_bit i m XOR push_bit i 1"
    by (simp add: buddy_of_def unsigned_xor_eq m push_bit_eq_mult mult.commute)
  also have "\<dots> = push_bit i (m XOR 1)" by simp
  also have "m XOR 1 = (if even m then m + 1 else m - 1)"
    using xor_one_eq [of m] by (auto elim: oddE)
  finally show ?thesis
    by (simp add: m push_bit_eq_mult algebra_simps diff_mult_distrib2)
qed

text \<open>A block and its buddy make up the block of the next class at the lower address.\<close>

lemma block_merge:
  assumes "block_ok i a" "buddy_of i a \<noteq> 0"
  shows "block (Suc i) (min a (buddy_of i a)) = block i a \<union> block i (buddy_of i a)"
    and "2 ^ Suc i dvd unat (min a (buddy_of i a))"
    and "min a (buddy_of i a) \<noteq> 0"
proof -
  let ?b = "buddy_of i a"
  have i: "i < 64" and d: "2 ^ i dvd unat a" and a0: "a \<noteq> 0"
    using assms(1) by (simp_all add: block_ok_def)
  obtain m where m: "unat a = 2 ^ i * m" using d by (elim dvdE)
  note ub = unat_buddy_of [OF i d]
  have "block (Suc i) (min a ?b) = block i a \<union> block i ?b \<and> 2 ^ Suc i dvd unat (min a ?b)"
  proof (cases "even m")
    case True
    then have b: "unat ?b = unat a + 2 ^ i" using ub m by simp
    then have "min a ?b = a" by (simp add: min_def word_le_nat_alt)
    with b True m show ?thesis by (auto simp: block_def)
  next
    case False
    then have b: "unat ?b = unat a - 2 ^ i" "2 ^ i \<le> unat a" using ub m odd_pos [of m] by auto
    then have "?b \<le> a" by (simp add: word_le_nat_alt)
    then have "min a ?b = ?b" by (rule min_absorb2)
    with b False m show ?thesis
      by (auto simp: block_def elim!: oddE simp: algebra_simps)
  qed
  then show "block (Suc i) (min a ?b) = block i a \<union> block i ?b"
    and "2 ^ Suc i dvd unat (min a ?b)" by blast+
  show "min a ?b \<noteq> 0" using a0 assms(2) by (simp add: min_def)
qed

end
