(* ===== verification/Buddy_List.thy ===== *)
theory Buddy_List
  imports Buddy_Blocks
begin

text \<open>
  The free lists of the buddy allocator as the code has them: \<open>Chunk\<close> headers written into the
  free memory itself, linked by raw pointers (\<open>Chunk\<close>, \<open>LinkedList\<close> and
  \<open>LinkedListTrait\<close> of \<open>kernel/src/allocator/buddy_allocator.rs\<close>), and the lemmas that each
  list operation refines its effect on the abstract lists of \<open>Buddy_Blocks\<close>.

  Memory is the partial map from an address to the header stored there. A header takes 16 bytes:
  storing one destroys every other header it overlaps, and reading an address that holds no
  header, or making a reference to a null or misaligned address, is undefined behaviour.
\<close>

record Chunk =
  chunk_next :: "u64 option"
  chunk_size :: u64

type_synonym chunk_memory = "u64 \<rightharpoonup> Chunk"
type_synonym LinkedList = "u64 option"

definition headers_overlap :: "u64 \<Rightarrow> u64 \<Rightarrow> bool" where
  "headers_overlap a x \<longleftrightarrow> x - a < 16 \<or> a - x < 16"

definition store_header :: "chunk_memory \<Rightarrow> u64 \<Rightarrow> Chunk \<Rightarrow> chunk_memory" where
  "store_header m a c = (\<lambda>x. if x = a then Some c else if headers_overlap a x then None else m x)"

definition load_header :: "chunk_memory \<Rightarrow> u64 \<Rightarrow> Chunk res" where
  "load_header m a = (case m a of None \<Rightarrow> Inl Undefined_Behaviour | Some c \<Rightarrow> Inr c)"

definition Chunk_new_at_address :: "chunk_memory \<Rightarrow> u64 \<Rightarrow> u64 \<Rightarrow> chunk_memory res" where
  "Chunk_new_at_address m address sz =
     (if address = 0 \<or> address AND 7 \<noteq> 0 then Inl Undefined_Behaviour
      else Inr (store_header m address \<lparr>chunk_next = None, chunk_size = sz\<rparr>))"

definition LinkedList_push_front ::
    "chunk_memory \<Rightarrow> LinkedList \<Rightarrow> u64 \<Rightarrow> (chunk_memory \<times> LinkedList) res" where
  "LinkedList_push_front m self chunk =
     rbind (load_header m chunk) (\<lambda>c. Inr (m(chunk \<mapsto> c\<lparr>chunk_next := self\<rparr>), Some chunk))"

definition LinkedList_pop_front ::
    "chunk_memory \<Rightarrow> LinkedList \<Rightarrow> (u64 option \<times> chunk_memory \<times> LinkedList) res" where
  "LinkedList_pop_front m self =
     (case self of None \<Rightarrow> Inr (None, m, None)
      | Some chunk \<Rightarrow>
          rbind (load_header m chunk) (\<lambda>c.
            Inr (Some chunk, m(chunk \<mapsto> c\<lparr>chunk_next := None\<rparr>), chunk_next c)))"

definition LinkedList_is_empty :: "LinkedList \<Rightarrow> bool" where
  "LinkedList_is_empty self \<longleftrightarrow> self = None"

text \<open>
  The loop of \<open>remove\<close>: the answer is the node found with its predecessor and its successor. On
  a cyclic list without the node it does not return.
\<close>

partial_function (option) remove_loop ::
    "chunk_memory \<Rightarrow> u64 \<Rightarrow> u64 option \<Rightarrow> u64 option \<Rightarrow> (u64 option \<times> u64 option) option res option"
  where
  "remove_loop m start last_chunk cur_chunk =
     (case cur_chunk of None \<Rightarrow> Some (Inr None)
      | Some node \<Rightarrow>
          (case m node of None \<Rightarrow> Some (Inl Undefined_Behaviour)
           | Some c \<Rightarrow>
               if node = start then Some (Inr (Some (last_chunk, chunk_next c)))
               else remove_loop m start cur_chunk (chunk_next c)))"

definition LinkedList_remove ::
    "chunk_memory \<Rightarrow> LinkedList \<Rightarrow> u64 \<Rightarrow> (u64 option \<times> chunk_memory \<times> LinkedList) res" where
  "LinkedList_remove m self start =
     (case remove_loop m start None self of
        None \<Rightarrow> Inl Diverges
      | Some found \<Rightarrow> rbind found (\<lambda>hit.
          case hit of None \<Rightarrow> Inr (None, m, self)
          | Some (None, nxt) \<Rightarrow> Inr (Some start, m, nxt)
          | Some (Some prev, nxt) \<Rightarrow>
              rbind (load_header m prev) (\<lambda>c.
                Inr (Some start, m(prev \<mapsto> c\<lparr>chunk_next := nxt\<rparr>), self))))"

section \<open>Chains of headers\<close>

text \<open>\<open>chain m i p as\<close>: following the links from \<open>p\<close> visits \<open>as\<close>, all of size \<open>2 ^ i\<close>.\<close>

fun chain :: "chunk_memory \<Rightarrow> nat \<Rightarrow> LinkedList \<Rightarrow> u64 list \<Rightarrow> bool" where
  "chain m i p [] \<longleftrightarrow> p = None"
| "chain m i p (a # as) \<longleftrightarrow>
     p = Some a \<and> (\<exists>n. m a = Some \<lparr>chunk_next = n, chunk_size = 2 ^ i\<rparr> \<and> chain m i n as)"

lemma chain_cong: "chain m i p as \<Longrightarrow> (\<And>a. a \<in> set as \<Longrightarrow> m' a = m a) \<Longrightarrow> chain m' i p as"
  by (induction as arbitrary: p) fastforce+

lemma chain_upd: "chain m i p as \<Longrightarrow> x \<notin> set as \<Longrightarrow> chain (m(x := v)) i p as"
  by (erule chain_cong) auto

lemma headers_apart:
  assumes "16 dvd unat a" "16 dvd unat x" "a \<noteq> x"
  shows "\<not> headers_overlap a x"
proof -
  have far: "16 \<le> unat (y - z)" if dvd: "16 dvd unat y" "16 dvd unat z" and "y \<noteq> z" for y z :: u64
  proof -
    obtain m n where mn: "unat y = 16 * m" "unat z = 16 * n" using dvd by (auto elim!: dvdE)
    moreover have "unat y < 2 ^ 64" "unat z < 2 ^ 64"
      using unat_less_exp [of y] unat_less_exp [of z] by simp_all
    moreover have "m \<noteq> n" using mn \<open>y \<noteq> z\<close> by (metis word_unat_eq_iff)
    ultimately show ?thesis by (simp add: unat_sub_if' mn) arith
  qed
  from far [of x a] far [of a x] assms show ?thesis
    by (auto simp: headers_overlap_def word_less_nat_alt)
qed

section \<open>The lists refine the abstract lists\<close>

lemma chain_load: "chain m i (Some a) as \<Longrightarrow> \<exists>n. m a = Some \<lparr>chunk_next = n, chunk_size = 2 ^ i\<rparr>"
  by (cases as) auto

lemma remove_loop_chain:
  assumes "chain m i p as" "distinct as"
  shows "remove_loop m x lst p =
    Some (Inr (if x \<in> set as
               then Some (case takeWhile (\<lambda>y. y \<noteq> x) as of [] \<Rightarrow> lst | y # ys \<Rightarrow> Some (last (y # ys)),
                          chunk_next (the (m x)))
               else None))"
  using assms
proof (induction as arbitrary: p lst)
  case Nil
  then show ?case by (simp add: remove_loop.simps)
next
  case (Cons a as)
  then obtain n where p: "p = Some a" and a: "m a = Some \<lparr>chunk_next = n, chunk_size = 2 ^ i\<rparr>"
    and n: "chain m i n as" by auto
  show ?case
  proof (cases "x = a")
    case True
    then show ?thesis by (subst remove_loop.simps) (simp add: p a)
  next
    case False
    have "remove_loop m x lst p = remove_loop m x (Some a) n"
      by (subst remove_loop.simps) (use False in \<open>simp add: p a\<close>)
    also note Cons.IH [OF n, of "Some a"]
    finally show ?thesis
      using False Cons.prems(2) by (auto split: list.splits)
  qed
qed

lemma chain_unlink:
  assumes "chain m i p (xs @ x # ys)" "distinct (xs @ x # ys)" "xs \<noteq> []"
  shows "\<exists>n. m (last xs) = Some \<lparr>chunk_next = n, chunk_size = 2 ^ i\<rparr> \<and>
     chain (m(last xs \<mapsto> \<lparr>chunk_next = chunk_next (the (m x)), chunk_size = 2 ^ i\<rparr>))
       i p (xs @ ys)"
  using assms
proof (induction xs arbitrary: p)
  case Nil
  then show ?case by simp
next
  case (Cons z xs)
  then obtain n where p: "p = Some z" and z: "m z = Some \<lparr>chunk_next = n, chunk_size = 2 ^ i\<rparr>"
    and n: "chain m i n (xs @ x # ys)" by auto
  show ?case
  proof (cases "xs = []")
    case True
    with n have "chain m i (chunk_next (the (m x))) ys" by auto
    then have "chain (m(z \<mapsto> c)) i (chunk_next (the (m x))) ys" for c
      using Cons.prems(2) by (intro chain_upd) auto
    with True p z show ?thesis by (simp add: fun_upd_same del: fun_upd_apply)
  next
    case False
    then have "last xs \<noteq> z" using Cons.prems(2) last_in_set [of xs] by auto
    with Cons.IH [OF n _ False] Cons.prems(2) False p z show ?thesis by auto
  qed
qed

lemma LinkedList_remove_absent:
  "chain m i p as \<Longrightarrow> distinct as \<Longrightarrow> x \<notin> set as \<Longrightarrow> LinkedList_remove m p x = Inr (None, m, p)"
  by (simp add: LinkedList_remove_def remove_loop_chain)

lemma LinkedList_remove_present:
  assumes "chain m i p as" "distinct as" "x \<in> set as"
  shows "\<exists>m' p'. LinkedList_remove m p x = Inr (Some x, m', p') \<and>
           chain m' i p' (remove1 x as) \<and> (\<forall>y. y \<notin> set as \<longrightarrow> m' y = m y)"
proof -
  define xs where "xs = takeWhile (\<lambda>y. y \<noteq> x) as"
  obtain ys where as: "as = xs @ x # ys" and x: "x \<notin> set xs"
  proof -
    have "dropWhile (\<lambda>y. y \<noteq> x) as \<noteq> []" using assms(3) by (auto simp: dropWhile_eq_Nil_conv)
    then obtain z ys where d: "dropWhile (\<lambda>y. y \<noteq> x) as = z # ys" by (cases "dropWhile (\<lambda>y. y \<noteq> x) as") auto
    then have "z = x" using hd_dropWhile [of "\<lambda>y. y \<noteq> x" as] by auto
    with d that show ?thesis
      by (metis (mono_tags, lifting) set_takeWhileD takeWhile_dropWhile_id xs_def)
  qed
  have loop: "remove_loop m x None p =
      Some (Inr (Some (case xs of [] \<Rightarrow> None | y # zs \<Rightarrow> Some (last xs), chunk_next (the (m x)))))"
    using assms by (simp add: remove_loop_chain xs_def split: list.splits)
  have rem: "remove1 x as = xs @ ys" using x by (simp add: as remove1_append)
  show ?thesis
  proof (cases "xs = []")
    case True
    with assms(1) as have "chain m i (chunk_next (the (m x))) ys" by auto
    with True loop rem show ?thesis by (auto simp: LinkedList_remove_def)
  next
    case False
    from chain_unlink [OF assms(1,2) [unfolded as] False] loop rem False as show ?thesis
      by (auto simp: LinkedList_remove_def load_header_def split: list.splits)
  qed
qed

lemma LinkedList_pop_front_Nil: "chain m i p [] \<Longrightarrow> LinkedList_pop_front m p = Inr (None, m, None)"
  by (simp add: LinkedList_pop_front_def)

lemma LinkedList_pop_front_Cons:
  assumes "chain m i p (a # as)" "a \<notin> set as"
  shows "\<exists>p'. LinkedList_pop_front m p =
           Inr (Some a, m(a \<mapsto> \<lparr>chunk_next = None, chunk_size = 2 ^ i\<rparr>), p') \<and>
           chain (m(a \<mapsto> \<lparr>chunk_next = None, chunk_size = 2 ^ i\<rparr>)) i p' as"
  using assms by (auto simp: LinkedList_pop_front_def load_header_def intro: chain_upd)

text \<open>
  \<open>Chunk::new_at_address\<close> followed by \<open>push_front\<close>, the two calls with which the allocator
  frees a block. Headers at multiples of 16 do not touch each other.
\<close>

definition push_new :: "chunk_memory \<Rightarrow> LinkedList \<Rightarrow> u64 \<Rightarrow> u64 \<Rightarrow> (chunk_memory \<times> LinkedList) res" where
  "push_new m self address sz =
     rbind (Chunk_new_at_address m address sz) (\<lambda>m. LinkedList_push_front m self address)"

lemma push_new_eq:
  assumes "a \<noteq> 0" "16 dvd unat a"
  shows "push_new m p a sz = Inr ((store_header m a \<lparr>chunk_next = p, chunk_size = sz\<rparr>), Some a)"
proof -
  have "(2 :: nat) ^ 3 dvd unat a" using assms(2) dvd_trans [of 8 16 "unat a"] by simp
  then have "a AND mask 3 = 0" by (simp only: and_mask_eq_0_iff)
  then have "a AND 7 = 0" by (simp add: mask_eq_exp_minus_1)
  with assms(1) show ?thesis
    by (auto simp: push_new_def Chunk_new_at_address_def LinkedList_push_front_def load_header_def
        store_header_def)
qed

lemma store_header_apart:
  "16 dvd unat a \<Longrightarrow> 16 dvd unat x \<Longrightarrow> x \<noteq> a \<Longrightarrow> store_header m a c x = m x"
  using headers_apart [of a x] by (auto simp: store_header_def)

lemma store_header_same [simp]: "store_header m a c a = Some c"
  by (simp add: store_header_def)

end
