(* ===== verification/Buddy_Allocator.thy ===== *)
theory Buddy_Allocator
  imports Buddy_List Memory
begin

text \<open>
  The kernel's heap allocator (\<open>kernel/src/allocator/buddy_allocator.rs\<close>): \<open>BuddyAllocator\<close>
  with its operations \<open>add_region\<close>, \<open>alloc\<close> and \<open>dealloc\<close>, and the \<open>GlobalAlloc\<close> entry
  points above them. The state is the array of list heads together with the memory that holds the
  chunk headers. The relation \<open>rep\<close> connects it to the abstract free lists of \<open>Buddy_Blocks\<close>;
  every operation is shown to return (no fault, no endless loop) and to refine its abstract effect.
\<close>

record Layout =
  layout_size :: u64
  layout_align :: u64

record BuddyAllocator =
  chunks :: chunk_memory
  buddies :: "LinkedList list"

definition BuddyAllocator_new :: "chunk_memory \<Rightarrow> BuddyAllocator" where
  "BuddyAllocator_new m = \<lparr>chunks = m, buddies = replicate MAX_ORDER None\<rparr>"

definition previous_power_of_two :: "u64 \<Rightarrow> u64 res" where
  "previous_power_of_two num =
     rbind (op_sub (64 :: u32) (of_nat (leading_zeros num))) (\<lambda>d.
     rbind (op_sub d 1) (\<lambda>s. op_shl 1 (unat s)))"

text \<open>\<open>self.buddies[i].push_front(Chunk::new_at_address(address, size))\<close>, and the two removals.\<close>

definition push_chunk :: "BuddyAllocator \<Rightarrow> nat \<Rightarrow> u64 \<Rightarrow> u64 \<Rightarrow> BuddyAllocator res" where
  "push_chunk self i address sz =
     rbind (Chunk_new_at_address (chunks self) address sz) (\<lambda>m.
     rbind (index_get (buddies self) i) (\<lambda>l.
     rbind (LinkedList_push_front m l address) (\<lambda>(m', l').
     Inr (self\<lparr>chunks := m', buddies := (buddies self)[i := l']\<rparr>))))"

definition pop_chunk :: "BuddyAllocator \<Rightarrow> nat \<Rightarrow> (u64 option \<times> BuddyAllocator) res" where
  "pop_chunk self i =
     rbind (index_get (buddies self) i) (\<lambda>l.
     rbind (LinkedList_pop_front (chunks self) l) (\<lambda>(c, m', l').
     Inr (c, self\<lparr>chunks := m', buddies := (buddies self)[i := l']\<rparr>)))"

definition remove_chunk :: "BuddyAllocator \<Rightarrow> nat \<Rightarrow> u64 \<Rightarrow> (u64 option \<times> BuddyAllocator) res" where
  "remove_chunk self i start =
     rbind (index_get (buddies self) i) (\<lambda>l.
     rbind (LinkedList_remove (chunks self) l start) (\<lambda>(c, m', l').
     Inr (c, self\<lparr>chunks := m', buddies := (buddies self)[i := l']\<rparr>)))"

section \<open>Adding a region\<close>

definition region_chunk_size :: "u64 \<Rightarrow> u64 \<Rightarrow> u64 res" where
  "region_chunk_size current_start stop =
     rbind (if 0 < current_start
            then rbind (op_add (NOT current_start) 1) (\<lambda>n. Inr (current_start AND n))
            else Inr 64) (\<lambda>lowbit.
     rbind (op_sub stop current_start) (\<lambda>left.
     rbind (previous_power_of_two left) (\<lambda>p.
     Inr (min (min lowbit p) (push_bit (MAX_ORDER - 1) 1)))))"

lemma previous_power_of_two_0: "previous_power_of_two 0 = Inl Arithmetic_Overflow"
  by (simp add: previous_power_of_two_def leading_zeros_def bit_length.simps rust_defs)

lemma previous_power_of_two_spec:
  assumes "num \<noteq> 0"
  obtains k where "previous_power_of_two num = Inr (2 ^ k)" "k < 64" "2 ^ k \<le> unat num" "unat num < 2 ^ Suc k"
proof -
  define b where "b = bit_length (unat num)"
  have n: "0 < unat num" using assms by (simp add: unat_gt_0)
  note bounds = bit_length_bounds [OF n, folded b_def]
  have b64: "b \<le> 64" using bit_length_le [of "unat num" 64] unat_less_exp [of num] by (simp add: b_def)
  have lz: "leading_zeros num = 64 - b" by (simp add: leading_zeros_def b_def)
  have u: "unat (of_nat (64 - b) :: u32) = 64 - b"
    by (simp add: unsigned_of_nat take_bit_nat_eq_self)
  have d: "op_sub (64 :: u32) (of_nat (64 - b)) = Inr (64 - of_nat (64 - b))"
    by (simp add: op_sub_def word_le_nat_alt u)
  have ud: "unat (64 - of_nat (64 - b) :: u32) = b"
    by (subst unat_sub) (use b64 u in \<open>simp_all add: word_le_nat_alt\<close>)
  have s: "op_sub (64 - of_nat (64 - b) :: u32) 1 = Inr (64 - of_nat (64 - b) - 1)"
    using bounds by (simp add: op_sub_def word_le_nat_alt ud Suc_le_eq)
  have us: "unat (64 - of_nat (64 - b) - 1 :: u32) = b - 1"
    by (subst unat_sub) (use bounds ud in \<open>simp_all add: word_le_nat_alt Suc_le_eq\<close>)
  have "previous_power_of_two num = Inr (2 ^ (b - 1))"
    unfolding previous_power_of_two_def lz d s rbind_Inr us op_shl_def using bounds b64 by auto
  moreover have "unat num < 2 ^ Suc (b - 1)" using bounds by simp
  ultimately show ?thesis using bounds b64 that [of "b - 1"] by auto
qed

lemma region_chunk_size_exp:
  assumes "cur < stop"
  obtains k where "region_chunk_size cur stop = Inr (2 ^ k)" "k < MAX_ORDER"
    "unat cur + 2 ^ k \<le> unat stop" "cur \<noteq> 0 \<Longrightarrow> 2 ^ k dvd unat cur"
    "\<And>j. cur \<noteq> 0 \<Longrightarrow> j < MAX_ORDER \<Longrightarrow> 2 ^ j dvd unat cur \<Longrightarrow> unat cur + 2 ^ j \<le> unat stop \<Longrightarrow> j \<le> k"
proof -
  have lt: "unat cur < unat stop" using assms by (simp add: word_less_nat_alt)
  have left: "op_sub stop cur = Inr (stop - cur)" "unat (stop - cur) = unat stop - unat cur"
    using assms by (simp_all add: op_sub_def unat_sub less_imp_le)
  have "stop - cur \<noteq> 0" using assms by auto
  then obtain p where p: "previous_power_of_two (stop - cur) = Inr (2 ^ p)" "p < 64"
    "2 ^ p \<le> unat stop - unat cur" "unat stop - unat cur < 2 ^ Suc p"
    using left(2) by (metis previous_power_of_two_spec)
  obtain l where l: "l < 64"
    "(if 0 < cur then rbind (op_add (NOT cur) 1) (\<lambda>n. Inr (cur AND n)) else Inr 64) = Inr (2 ^ l)"
    "cur \<noteq> 0 \<Longrightarrow> 2 ^ l dvd unat cur" "\<And>j. cur \<noteq> 0 \<Longrightarrow> 2 ^ j dvd unat cur \<Longrightarrow> j \<le> l"
  proof (cases "cur = 0")
    case True
    then show ?thesis by (intro that [of 6]) simp_all
  next
    case False
    obtain k where k: "k < LENGTH(64)" "cur AND (NOT cur + 1) = 2 ^ k" "2 ^ k dvd unat cur"
      "\<And>j. 2 ^ j dvd unat cur \<Longrightarrow> j \<le> k"
      using lowest_set_bit [OF False] by metis
    have "unat (NOT cur) = 2 ^ 64 - 1 - unat cur"
      by (simp add: unat_not)
    moreover have "0 < unat cur" using False by (simp add: unat_gt_0)
    ultimately have "unat (NOT cur) + 1 < 2 ^ 64" using unat_less_exp [of cur] by simp
    then have "op_add (NOT cur) 1 = Inr (NOT cur + 1)" by (simp add: op_add_def)
    with k False show ?thesis by (intro that [of k]) (simp_all add: word_gt_0)
  qed
  define k where "k = min (min l p) 19"
  have "region_chunk_size cur stop = Inr (2 ^ k)"
    unfolding region_chunk_size_def k_def l(2) left(1)
    using l(1) p(1,2) min_exp_word [of "min l p" 19, where 'a = 64]
    by (simp add: min_exp_word)
  moreover have "(2 :: nat) ^ k \<le> 2 ^ p" by (simp add: k_def)
  then have "unat cur + 2 ^ k \<le> unat stop" using p(3) lt by linarith
  moreover have "2 ^ k dvd unat cur" if "cur \<noteq> 0"
    using l(3) [OF that] by (rule power_le_dvd) (simp add: k_def)
  moreover have "j \<le> k" if "cur \<noteq> 0" "j < MAX_ORDER" "2 ^ j dvd unat cur" "unat cur + 2 ^ j \<le> unat stop" for j
  proof -
    have "2 ^ j \<le> unat stop - unat cur" using that(4) by simp
    then have "(2 :: nat) ^ j < 2 ^ Suc p" using p(4) by (rule order.strict_trans1)
    then have "j \<le> p" by (simp add: power_strict_increasing_iff del: power_Suc)
    with l(4) [OF that(1,3)] that(2) show ?thesis by (simp add: k_def)
  qed
  ultimately show ?thesis using that [of k] by (simp add: k_def)
qed

function add_region_loop :: "BuddyAllocator \<Rightarrow> u64 \<Rightarrow> u64 \<Rightarrow> BuddyAllocator res" where
  "add_region_loop self current_start stop =
     (if current_start < stop
      then rbind (region_chunk_size current_start stop) (\<lambda>sz.
           rbind (push_chunk self (trailing_zeros sz) current_start sz) (\<lambda>self'.
           rbind (op_add current_start sz) (\<lambda>next_start. add_region_loop self' next_start stop)))
      else Inr self)"
  by pat_completeness auto
termination
proof (relation "measure (\<lambda>(self, cur, stop). unat stop - unat cur)", goal_cases)
  case 1
  show ?case by simp
next
  case (2 self cur stop sz self' cur')
  from region_chunk_size_exp [OF 2(1)] obtain k where
    "region_chunk_size cur stop = Inr (2 ^ k)" "k < MAX_ORDER" "unat cur + 2 ^ k \<le> unat stop"
    by metis
  with 2 have "unat cur' = unat cur + 2 ^ k" "unat cur < unat stop"
    by (auto simp: op_add_eq_Inr unat_exp word_less_nat_alt)
  then show ?case by (simp add: diff_less_mono2)
qed

declare add_region_loop.simps [simp del]

definition BuddyAllocator_add_region ::
    "BuddyAllocator \<Rightarrow> VirtualAddress \<Rightarrow> VirtualAddress \<Rightarrow> BuddyAllocator res" where
  "BuddyAllocator_add_region self start stop =
     rbind (rassert (start \<le> stop)) (\<lambda>_. add_region_loop self start stop)"

definition BuddyAllocator_init ::
    "BuddyAllocator \<Rightarrow> VirtualAddress \<Rightarrow> u64 \<Rightarrow> BuddyAllocator res" where
  "BuddyAllocator_init self start sz =
     rbind (VirtualAddress_add start sz) (\<lambda>stop. BuddyAllocator_add_region self start stop)"

fun BuddyAllocator_init_from_memory_map ::
    "BuddyAllocator \<Rightarrow> PhysicalMemoryRegion list \<Rightarrow> BuddyAllocator res" where
  "BuddyAllocator_init_from_memory_map self [] = Inr self"
| "BuddyAllocator_init_from_memory_map self (region # rest) =
     (if \<not> PhysicalMemoryRegion_is_usable region
      then BuddyAllocator_init_from_memory_map self rest
      else rbind (PhysicalMemoryRegion_end region) (\<lambda>e.
           rbind (op_sub e 1) (\<lambda>stop.
           rbind (BuddyAllocator_add_region self (pmr_start region) stop) (\<lambda>self'.
           BuddyAllocator_init_from_memory_map self' rest))))"

section \<open>Allocation and deallocation\<close>

definition align_layout_size :: "Layout \<Rightarrow> u64 res" where
  "align_layout_size layout =
     rbind (next_power_of_two (layout_size layout)) (\<lambda>p. Inr (max p (max (layout_align layout) 16)))"

text \<open>
  The inner loop of \<open>alloc\<close> over the classes \<open>j\<close> to split. The flag is \<open>False\<close> when the
  loop ended with \<open>return None\<close>.
\<close>

fun alloc_splits :: "BuddyAllocator \<Rightarrow> nat list \<Rightarrow> (bool \<times> BuddyAllocator) res" where
  "alloc_splits self [] = Inr (True, self)"
| "alloc_splits self (j # js) =
     rbind (pop_chunk self j) (\<lambda>(popped, self1).
       case popped of
         None \<Rightarrow> Inr (False, self1)
       | Some addr \<Rightarrow>
           rbind (op_shl 1 (j - 1)) (\<lambda>sz.
           rbind (push_chunk self1 (j - 1) addr sz) (\<lambda>self2.
           rbind (VirtualAddress_add addr sz) (\<lambda>addr2.
           rbind (push_chunk self2 (j - 1) addr2 sz) (\<lambda>self3. alloc_splits self3 js)))))"

fun alloc_classes :: "BuddyAllocator \<Rightarrow> nat \<Rightarrow> nat list \<Rightarrow> (u64 option \<times> BuddyAllocator) res" where
  "alloc_classes self cls [] = pop_chunk self cls"
| "alloc_classes self cls (i # is) =
     rbind (index_get (buddies self) i) (\<lambda>l.
       if LinkedList_is_empty l then alloc_classes self cls is
       else rbind (alloc_splits self (rev [cls + 1 ..< i + 1])) (\<lambda>(completed, self').
              if completed then pop_chunk self' cls else Inr (None, self')))"

definition BuddyAllocator_alloc ::
    "BuddyAllocator \<Rightarrow> Layout \<Rightarrow> (u64 option \<times> BuddyAllocator) res" where
  "BuddyAllocator_alloc self layout =
     rbind (align_layout_size layout) (\<lambda>sz.
       let cls = trailing_zeros sz in
       alloc_classes self cls [cls ..< length (buddies self)])"

lemma remove_chunk_length:
  "remove_chunk self i a = Inr (c, self') \<Longrightarrow> length (buddies self') = length (buddies self)"
  by (auto simp: remove_chunk_def rbind_eq_Inr)

function dealloc_loop :: "BuddyAllocator \<Rightarrow> nat \<Rightarrow> Region \<Rightarrow> BuddyAllocator res" where
  "dealloc_loop self current_class region =
     (if current_class < length (buddies self)
      then rbind (op_shl 1 current_class) (\<lambda>size_bit.
           let buddy = region\<lparr>region_start := region_start region XOR size_bit\<rparr> in
           rbind (remove_chunk self current_class (region_start buddy)) (\<lambda>(removed, self').
             case removed of
               Some _ \<Rightarrow>
                 rbind (op_mul (region_size region) 2) (\<lambda>sz.
                 dealloc_loop self' (current_class + 1)
                   (region\<lparr>region_start := min (region_start region) (region_start buddy),
                           region_size := sz\<rparr>))
             | None \<Rightarrow> push_chunk self' current_class (region_start region) (region_size region)))
      else Inr self)"
  by pat_completeness auto
termination
  by (relation "measure (\<lambda>(self, cls, region). length (buddies self) - cls)")
    (auto dest!: remove_chunk_length)

declare dealloc_loop.simps [simp del]

definition BuddyAllocator_dealloc :: "BuddyAllocator \<Rightarrow> u64 \<Rightarrow> BuddyAllocator res" where
  "BuddyAllocator_dealloc self chunk =
     rbind (load_header (chunks self) chunk) (\<lambda>c.
       dealloc_loop self (trailing_zeros (chunk_size c)) (Region_new chunk (chunk_size c)))"

text \<open>The entry points of \<open>GlobalAlloc for Locked<BuddyAllocator>\<close>, with the lock held.\<close>

definition GlobalAlloc_alloc :: "BuddyAllocator \<Rightarrow> Layout \<Rightarrow> (u64 \<times> BuddyAllocator) res" where
  "GlobalAlloc_alloc self layout =
     rbind (BuddyAllocator_alloc self layout) (\<lambda>(chunk, self').
       case chunk of Some p \<Rightarrow> Inr (p, self') | None \<Rightarrow> Inl Explicit_Panic)"

definition GlobalAlloc_dealloc :: "BuddyAllocator \<Rightarrow> u64 \<Rightarrow> Layout \<Rightarrow> BuddyAllocator res" where
  "GlobalAlloc_dealloc self ptr layout =
     rbind (align_layout_size layout) (\<lambda>sz.
     rbind (Chunk_new_at_address (chunks self) ptr sz) (\<lambda>m.
     BuddyAllocator_dealloc (self\<lparr>chunks := m\<rparr>) ptr))"

end
