(* ===== verification/Buddy_Spec.thy ===== *)
theory Buddy_Spec
  imports Buddy_Blocks
begin

text \<open>
  The buddy algorithm on the abstract free lists: allocation by repeated splitting and
  deallocation by repeated merging, without headers, pointers and machine faults. The allocator of
  \<open>kernel/src/allocator/buddy_allocator.rs\<close> is shown to refine these functions; here they are
  related to the set of free addresses.
\<close>

section \<open>Allocation\<close>

definition split_class :: "nat \<Rightarrow> free_lists \<Rightarrow> free_lists" where
  "split_class j L =
     (case L j of [] \<Rightarrow> L
      | a # as \<Rightarrow> L(j := as, j - 1 := (a + 2 ^ (j - 1)) # a # L (j - 1)))"

definition list_alloc :: "free_lists \<Rightarrow> nat \<Rightarrow> u64 option \<times> free_lists" where
  "list_alloc L cls =
     (case find (\<lambda>i. L i \<noteq> []) [cls ..< MAX_ORDER] of
        None \<Rightarrow> (None, L)
      | Some i \<Rightarrow>
          let L' = fold split_class (rev [cls + 1 ..< i + 1]) L
          in (Some (hd (L' cls)), L'(cls := tl (L' cls))))"

lemma split_class_step:
  assumes inv: "blocks_inv L" and ne: "L (Suc j) = a # as" and j: "4 \<le> j"
  defines "L1 \<equiv> L(Suc j := as)"
  defines "L2 \<equiv> L1(j := a # L1 j)"
  defines "L3 \<equiv> L2(j := (a + 2 ^ j) # L2 j)"
  shows "split_class (Suc j) L = L3"
    and "block_ok (Suc j) a" "block_ok j a" "block_ok j (a + 2 ^ j)"
    and "blocks_inv L1" "block j a \<inter> free_memory L1 = {}"
    and "blocks_inv L2" "block j (a + 2 ^ j) \<inter> free_memory L2 = {}"
    and "blocks_inv L3" "free_memory L3 = free_memory L"
proof -
  show "split_class (Suc j) L = L3"
    by (auto simp: split_class_def ne L1_def L2_def L3_def)
  have mem: "a \<in> set (L (Suc j))" and dist: "distinct (a # as)"
    using ne blocks_invD(2) [OF inv, of "Suc j"] by simp_all
  show ok: "block_ok (Suc j) a" using blocks_invD(1) [OF inv mem] .
  note parts = block_split [OF ok j]
  show ok1: "block_ok j a" and ok2: "block_ok j (a + 2 ^ j)" by (rule parts(3,4))+
  have as: "set as = set (L (Suc j)) - {a}" using ne dist by auto
  note rem = free_memory_remove [OF inv mem as, folded L1_def]
  show inv1: "blocks_inv L1"
    unfolding L1_def using inv dist ne by (intro blocks_inv_remove) auto
  show d1: "block j a \<inter> free_memory L1 = {}" using rem(2) parts(1) by blast
  show inv2: "blocks_inv L2" unfolding L2_def by (rule blocks_inv_add [OF inv1 ok1 d1])
  have f2: "free_memory L2 = free_memory L1 \<union> block j a" by (simp only: L2_def free_memory_add)
  show d2: "block j (a + 2 ^ j) \<inter> free_memory L2 = {}" using rem(2) parts(1,2) f2 by blast
  show "blocks_inv L3" unfolding L3_def by (rule blocks_inv_add [OF inv2 ok2 d2])
  have "free_memory L3 = free_memory L2 \<union> block j (a + 2 ^ j)" by (simp only: L3_def free_memory_add)
  with f2 rem(1) parts(1) show "free_memory L3 = free_memory L" by blast
qed

lemma rev_upt_Suc: "cls \<le> j \<Longrightarrow> rev [cls + 1 ..< Suc j + 1] = Suc j # rev [cls + 1 ..< j + 1]"
  by simp

lemma fold_split_class:
  assumes "blocks_inv L" "L i \<noteq> []" "4 \<le> cls" "cls \<le> i"
  shows "blocks_inv (fold split_class (rev [cls + 1 ..< i + 1]) L) \<and>
         free_memory (fold split_class (rev [cls + 1 ..< i + 1]) L) = free_memory L \<and>
         fold split_class (rev [cls + 1 ..< i + 1]) L cls \<noteq> []"
  using assms
proof (induction "i - cls" arbitrary: i L)
  case 0
  then have "i = cls" by simp
  with 0 show ?case by simp
next
  case (Suc n)
  then obtain j where i: "i = Suc j" and j: "cls \<le> j" by (cases i) auto
  obtain a as where ne: "L (Suc j) = a # as" using Suc.prems(2) i by (cases "L (Suc j)") auto
  have j4: "4 \<le> j" using j Suc.prems(3) by simp
  note step = split_class_step [OF Suc.prems(1) ne j4]
  define L' where "L' = split_class (Suc j) L"
  have L': "blocks_inv L'" "free_memory L' = free_memory L" "L' j \<noteq> []"
    unfolding L'_def using step(9,10) by (simp_all add: step(1))
  show ?case
    using Suc.hyps(1) [OF _ L'(1,3) Suc.prems(3) j] Suc.hyps(2) L'(2) j
    by (simp add: i rev_upt_Suc flip: L'_def)
qed

lemma list_alloc_Some:
  assumes inv: "blocks_inv L" and cls: "4 \<le> cls" and r: "list_alloc L cls = (Some a, L')"
  shows "blocks_inv L'" "block_ok cls a" "free_memory L = free_memory L' \<union> block cls a"
    "free_memory L' \<inter> block cls a = {}"
proof -
  from r obtain i where f: "find (\<lambda>i. L i \<noteq> []) [cls ..< MAX_ORDER] = Some i"
    by (cases "find (\<lambda>i. L i \<noteq> []) [cls ..< MAX_ORDER]") (auto simp: list_alloc_def)
  then have i: "cls \<le> i" "L i \<noteq> []"
    by (auto simp: find_Some_iff simp del: upt_Suc dest!: nth_mem)
  define M where "M = fold split_class (rev [cls + 1 ..< i + 1]) L"
  have M: "blocks_inv M" "free_memory M = free_memory L" "M cls \<noteq> []"
    using fold_split_class [OF inv i(2) cls i(1)] by (simp_all add: M_def)
  from r f have a: "a = hd (M cls)" and L': "L' = M(cls := tl (M cls))"
    by (simp_all add: list_alloc_def Let_def M_def)
  have mem: "a \<in> set (M cls)" and tl: "set (tl (M cls)) = set (M cls) - {a}"
    using M(3) blocks_invD(2) [OF M(1), of cls] a by (cases "M cls"; auto)+
  show "block_ok cls a" by (rule blocks_invD(1) [OF M(1) mem])
  show "blocks_inv L'" unfolding L'
    using M(1) tl blocks_invD(2) [OF M(1), of cls] by (intro blocks_inv_remove) (auto simp: distinct_tl)
  show "free_memory L = free_memory L' \<union> block cls a" "free_memory L' \<inter> block cls a = {}"
    using free_memory_remove [OF M(1) mem tl] M(2) by (simp_all add: L')
qed

lemma list_alloc_None:
  "fst (list_alloc L cls) = None \<longleftrightarrow> (\<forall>i. cls \<le> i \<and> i < MAX_ORDER \<longrightarrow> L i = [])"
  "fst (list_alloc L cls) = None \<Longrightarrow> snd (list_alloc L cls) = L"
proof -
  have "find (\<lambda>i. L i \<noteq> []) [cls ..< MAX_ORDER] = None \<longleftrightarrow>
      (\<forall>i. cls \<le> i \<and> i < MAX_ORDER \<longrightarrow> L i = [])"
    by (auto simp: find_None_iff)
  then show "fst (list_alloc L cls) = None \<longleftrightarrow> (\<forall>i. cls \<le> i \<and> i < MAX_ORDER \<longrightarrow> L i = [])"
    by (cases "find (\<lambda>i. L i \<noteq> []) [cls ..< MAX_ORDER]") (simp_all add: list_alloc_def Let_def)
  show "fst (list_alloc L cls) = None \<Longrightarrow> snd (list_alloc L cls) = L"
    by (simp add: list_alloc_def Let_def split: option.splits)
qed

section \<open>Deallocation\<close>

function list_dealloc :: "free_lists \<Rightarrow> nat \<Rightarrow> u64 \<Rightarrow> free_lists" where
  "list_dealloc L cls a =
     (if cls < MAX_ORDER
      then let b = buddy_of cls a in
           if b \<in> set (L cls)
           then list_dealloc (L(cls := remove1 b (L cls))) (cls + 1) (min a b)
           else L(cls := a # L cls)
      else L)"
  by pat_completeness auto
termination
  by (relation "measure (\<lambda>(L, cls, a). MAX_ORDER - cls)") auto

declare list_dealloc.simps [simp del]

text \<open>
  One merging step: the buddy leaves its list, and the two make up an aligned block of the next
  class that is disjoint from what remains.
\<close>

lemma merge_step:
  assumes inv: "blocks_inv L" and ok: "block_ok cls a" and d: "block cls a \<inter> free_memory L = {}"
    and b: "buddy_of cls a \<in> set (L cls)"
  defines "L1 \<equiv> L(cls := remove1 (buddy_of cls a) (L cls))" and "c \<equiv> min a (buddy_of cls a)"
  shows "blocks_inv L1" "c \<noteq> 0" "2 ^ (cls + 1) dvd unat c" "block (cls + 1) c \<inter> free_memory L1 = {}"
    "free_memory L1 \<union> block (cls + 1) c = free_memory L \<union> block cls a"
proof -
  have "buddy_of cls a \<noteq> 0" using blocks_invD(1) [OF inv b] by (simp add: block_ok_def)
  note merge = block_merge [OF ok this, folded c_def]
  have set1: "set (remove1 (buddy_of cls a) (L cls)) = set (L cls) - {buddy_of cls a}"
    using blocks_invD(2) [OF inv] by (simp add: set_remove1_eq)
  note rem = free_memory_remove [OF inv b set1, folded L1_def]
  show "blocks_inv L1" unfolding L1_def
    using inv set1 by (intro blocks_inv_remove) (auto simp: distinct_remove1 blocks_invD(2))
  show "c \<noteq> 0" "2 ^ (cls + 1) dvd unat c" using merge(2,3) by simp_all
  show "block (cls + 1) c \<inter> free_memory L1 = {}" using merge(1) rem d by auto
  show "free_memory L1 \<union> block (cls + 1) c = free_memory L \<union> block cls a"
    using merge(1) rem(1) by auto
qed

lemma list_dealloc_correct:
  assumes "blocks_inv L" "4 \<le> cls" "cls \<le> MAX_ORDER" "a \<noteq> 0" "2 ^ cls dvd unat a"
    and "block cls a \<inter> free_memory L = {}"
  shows "blocks_inv (list_dealloc L cls a) \<and>
     (free_memory (list_dealloc L cls a) = free_memory L \<union> block cls a \<or>
      (\<exists>x. 2 ^ MAX_ORDER dvd unat x \<and> block MAX_ORDER x \<subseteq> free_memory L \<union> block cls a \<and>
           free_memory (list_dealloc L cls a) = free_memory L \<union> block cls a - block MAX_ORDER x))"
  using assms
proof (induction L cls a rule: list_dealloc.induct)
  case (1 L cls a)
  show ?case
  proof (cases "cls < MAX_ORDER")
    case False
    with 1 have "cls = MAX_ORDER" by simp
    with 1 show ?thesis by (subst (1 2 3) list_dealloc.simps) auto
  next
    case True
    with 1 have ok: "block_ok cls a" by (simp add: block_ok_def)
    show ?thesis
    proof (cases "buddy_of cls a \<in> set (L cls)")
      case False
      with True have "list_dealloc L cls a = L(cls := a # L cls)"
        by (subst list_dealloc.simps) simp
      with blocks_inv_add [OF 1(2) ok 1(7)] free_memory_add [of L cls a] show ?thesis
        by (simp del: fun_upd_apply)
    next
      case b: True
      note step = merge_step [OF 1(2) ok 1(7) b]
      from True b have "list_dealloc L cls a =
          list_dealloc (L(cls := remove1 (buddy_of cls a) (L cls))) (cls + 1) (min a (buddy_of cls a))"
        by (subst list_dealloc.simps) (simp add: Let_def)
      with 1(1) [OF True refl b step(1) _ _ step(2-4)] 1(3) True step(5) show ?thesis
        by (simp del: fun_upd_apply)
    qed
  qed
qed

section \<open>Buddies are merged\<close>

text \<open>
  No two buddies are free at the same time in one class (of the top class, two may be: blocks are
  at most half a MiB). Then the lists hold the free memory in the largest possible blocks, and
  allocation fails only when no aligned block of the class is free.
\<close>

definition coalesced :: "free_lists \<Rightarrow> bool" where
  "coalesced L \<longleftrightarrow> (\<forall>i < MAX_ORDER - 1. \<forall>a \<in> set (L i). buddy_of i a \<notin> set (L i))"

lemma coalescedD: "coalesced L \<Longrightarrow> i < MAX_ORDER - 1 \<Longrightarrow> a \<in> set (L i) \<Longrightarrow> buddy_of i a \<notin> set (L i)"
  by (simp add: coalesced_def)

lemma buddy_of_invol [simp]: "buddy_of i (buddy_of i a) = a"
  by (simp add: buddy_of_def xor.assoc)

lemma buddy_of_neq: "i < 64 \<Longrightarrow> buddy_of i a \<noteq> a"
  by (auto simp: buddy_of_def bit_simps dest!: arg_cong [where f = "\<lambda>w. bit w i"])

lemma coalesced_update:
  assumes "coalesced L" "\<forall>a \<in> set xs. i < MAX_ORDER - 1 \<longrightarrow> buddy_of i a \<notin> set xs"
  shows "coalesced (L(i := xs))"
  using assms by (auto simp: coalesced_def)

lemma coalesced_subset: "coalesced L \<Longrightarrow> set xs \<subseteq> set (L i) \<Longrightarrow> coalesced (L(i := xs))"
  by (rule coalesced_update) (auto simp: coalesced_def)

lemma coalesced_add: "coalesced L \<Longrightarrow> buddy_of i a \<notin> set (L i) \<Longrightarrow> coalesced (L(i := a # L i))"
  by (rule coalesced_update) (auto simp: coalesced_def buddy_of_neq dest: buddy_of_invol [THEN subst])

lemma list_dealloc_coalesced: "coalesced L \<Longrightarrow> coalesced (list_dealloc L cls a)"
proof (induction L cls a rule: list_dealloc.induct)
  case (1 L cls a)
  have "coalesced (L(cls := remove1 (buddy_of cls a) (L cls)))"
    using 1(2) by (rule coalesced_subset) (rule set_remove1_subset)
  with 1(1) [OF _ refl] coalesced_add [OF 1(2), of cls a] 1(2) show ?case
    by (subst list_dealloc.simps) (simp add: Let_def del: fun_upd_apply)
qed

lemma fold_split_coalesced:
  assumes "coalesced (L(i := tl (L i)))" "L i \<noteq> []" "cls \<le> i" "i < MAX_ORDER"
    and "\<forall>j. cls \<le> j \<and> j < i \<longrightarrow> L j = []"
  shows "coalesced ((fold split_class (rev [cls + 1 ..< i + 1]) L)
           (cls := tl (fold split_class (rev [cls + 1 ..< i + 1]) L cls)))"
  using assms
proof (induction "i - cls" arbitrary: i L)
  case 0
  then have "i = cls" by simp
  with 0 show ?case by simp
next
  case (Suc n)
  then obtain j where i: "i = Suc j" and j: "cls \<le> j" by (cases i) auto
  obtain a as where ne: "L (Suc j) = a # as" using Suc.prems(2) i by (cases "L (Suc j)") auto
  have Lj: "L j = []" using Suc.prems(5) i j by simp
  define L' where "L' = L(Suc j := as, j := [a + 2 ^ j, a])"
  have sp: "split_class (Suc j) L = L'" by (simp add: split_class_def ne Lj L'_def)
  have e: "L'(j := tl (L' j)) = (L(Suc j := as))(j := [a])" by (simp add: L'_def)
  have c: "coalesced (L'(j := tl (L' j)))" unfolding e
    by (rule coalesced_update) (use Suc.prems(1,4) i ne buddy_of_neq [of j a] in auto)
  have "\<forall>k. cls \<le> k \<and> k < j \<longrightarrow> L' k = []" using Suc.prems(5) i by (auto simp: L'_def)
  moreover have "L' j \<noteq> []" by (simp add: L'_def)
  ultimately show ?case
    using Suc.hyps(1) [OF _ c _ j] Suc.hyps(2) Suc.prems(4) i j
    unfolding i rev_upt_Suc [OF j] fold_Cons o_apply sp by (simp del: upt_Suc)
qed

lemma list_alloc_coalesced:
  assumes "coalesced L"
  shows "coalesced (snd (list_alloc L cls))"
proof (cases "find (\<lambda>i. L i \<noteq> []) [cls ..< MAX_ORDER]")
  case None
  with assms show ?thesis by (simp add: list_alloc_def)
next
  case (Some i)
  then have i: "cls \<le> i" "i < MAX_ORDER" "L i \<noteq> []" "\<forall>j. cls \<le> j \<and> j < i \<longrightarrow> L j = []"
    by (auto simp: find_Some_iff simp del: upt_Suc) (metis add_diff_inverse_nat add_less_cancel_left leD)
  have "coalesced (L(i := tl (L i)))"
    using assms i(3) by (intro coalesced_subset) (auto dest: list.set_sel)
  from fold_split_coalesced [OF this i(3,1,2,4)] Some show ?thesis
    by (simp add: list_alloc_def Let_def)
qed

lemma mem_block_iff_div:
  assumes "2 ^ i dvd unat a"
  shows "x \<in> block i a \<longleftrightarrow> x div 2 ^ i = unat a div 2 ^ i"
proof -
  obtain m where m: "unat a = 2 ^ i * m" using assms by (elim dvdE)
  show ?thesis
  proof
    assume "x \<in> block i a"
    then show "x div 2 ^ i = unat a div 2 ^ i"
      by (intro div_nat_eqI) (simp_all add: block_def m)
  next
    assume "x div 2 ^ i = unat a div 2 ^ i"
    then have "x = 2 ^ i * m + x mod 2 ^ i" by (metis m mult_div_mod_eq dvd_mult_div_cancel assms)
    moreover have "x mod 2 ^ i < 2 ^ i" by simp
    ultimately show "x \<in> block i a" unfolding block_def m atLeastLessThan_iff by linarith
  qed
qed

lemma block_laminar:
  assumes "2 ^ i dvd unat a" "2 ^ j dvd unat b" "i \<le> j" "x \<in> block i a" "x \<in> block j b"
  shows "block i a \<subseteq> block j b"
proof
  fix y assume "y \<in> block i a"
  with assms(1,4) have eq: "y div 2 ^ i = x div 2 ^ i" by (simp add: mem_block_iff_div)
  have d: "z div 2 ^ j = z div 2 ^ i div 2 ^ (j - i)" for z :: nat
    using assms(3) by (simp flip: div_mult2_eq power_add)
  from assms(2,5) eq show "y \<in> block j b" by (simp add: mem_block_iff_div d)
qed

lemma block_subset_same:
  assumes "2 ^ c dvd unat h" "2 ^ c dvd unat b" "block c h \<subseteq> block c b"
  shows "h = b"
proof -
  have "unat h \<in> block c b" using assms(3) mem_block_start by blast
  then have "unat h div 2 ^ c = unat b div 2 ^ c" by (simp add: mem_block_iff_div assms(2))
  with assms(1,2) show ?thesis by (metis dvd_div_mult_self word_unat_eq_iff)
qed

lemma free_block_covered:
  assumes inv: "blocks_inv L" and co: "coalesced L"
  shows "4 \<le> cls \<Longrightarrow> cls < MAX_ORDER \<Longrightarrow> 2 ^ cls dvd unat a \<Longrightarrow> block cls a \<subseteq> free_memory L \<Longrightarrow>
           \<exists>i b. cls \<le> i \<and> b \<in> set (L i) \<and> block cls a \<subseteq> block i b"
proof (induction cls arbitrary: a rule: nat_induct_at_least [of 4])
  case base
  then have "unat a \<in> free_memory L" using mem_block_start by blast
  then obtain i b where b: "b \<in> set (L i)" "unat a \<in> block i b" by (auto simp: free_memory_def)
  with blocks_invD(1) [OF inv b(1)] block_laminar [OF base(2) _ _ mem_block_start b(2)] show ?case
    by (auto simp: block_ok_def)
next
  case (Suc c)
  have a0: "a \<noteq> 0"
  proof
    assume "a = 0"
    then have "0 \<in> free_memory L" using Suc.prems(3) mem_block_start [of a "Suc c"] by auto
    then obtain i b where "b \<in> set (L i)" "0 \<in> block i b" by (auto simp: free_memory_def)
    with blocks_invD(1) [OF inv] show False by (auto simp: block_ok_def block_def unat_eq_0)
  qed
  with Suc have ok: "block_ok (Suc c) a" by (simp add: block_ok_def)
  note halves = block_split [OF ok Suc.hyps(1)]
  have lift: ?case if h: "2 ^ c dvd unat h" "block c h \<subseteq> block (Suc c) a" "b \<in> set (L i)" "Suc c \<le> i"
    "block c h \<subseteq> block i b" for h i b
  proof -
    have "unat h \<in> block (Suc c) a" "unat h \<in> block i b" using h(2,5) mem_block_start by blast+
    with block_laminar [OF Suc.prems(2) _ h(4)] blocks_invD(1) [OF inv h(3)] h(3,4) show ?thesis
      by (intro exI [of _ i] exI [of _ b]) (simp add: block_ok_def)
  qed
  have "2 ^ c dvd unat a" "2 ^ c dvd unat (a + 2 ^ c)" using halves(3,4) by (simp_all add: block_ok_def)
  with Suc.IH Suc.prems halves(1) obtain i1 b1 i2 b2 where
    1: "c \<le> i1" "b1 \<in> set (L i1)" "block c a \<subseteq> block i1 b1" and
    2: "c \<le> i2" "b2 \<in> set (L i2)" "block c (a + 2 ^ c) \<subseteq> block i2 b2"
    by (metis Suc_lessD le_sup_iff)
  show ?case
  proof (cases "Suc c \<le> i1 \<or> Suc c \<le> i2")
    case True
    with 1 2 lift halves show ?thesis by (metis block_ok_def Un_upper1 Un_upper2)
  next
    case False
    then have i: "i1 = c" "i2 = c" using 1(1) 2(1) by simp_all
    have "b1 = a" "b2 = a + 2 ^ c"
      using block_subset_same [of c a b1] block_subset_same [of c "a + 2 ^ c" b2] 1 2 i halves(3,4) blocks_invD(1) [OF inv]
      by (auto simp: block_ok_def)
    moreover have "buddy_of c a = a + 2 ^ c"
    proof -
      have "even (unat a div 2 ^ c)" using Suc.prems(2) by (auto elim!: dvdE)
      then show ?thesis
        using unat_buddy_of [of c a] halves(3) Suc.prems(1) unat_add_exp [OF ok]
        by (simp add: word_unat_eq_iff block_ok_def)
    qed
    ultimately have False using coalescedD [OF co, of c a] 1(2) 2(2) i Suc.prems(1) by simp
    then show ?thesis ..
  qed
qed

end
