(* ===== verification/Buddy_Correct.thy ===== *)
theory Buddy_Correct
  imports Buddy_Allocator Buddy_Spec
begin

text \<open>
  Correctness of the buddy allocator: the operations of \<open>Buddy_Allocator\<close>, on headers and raw
  pointers, refine the list functions of \<open>Buddy_Spec\<close> and so the abstract specification of an
  allocator as the set of its free addresses.
\<close>

section \<open>The representation\<close>

text \<open>
  The heads and the headers in memory represent the lists \<open>L\<close>. The invariant of the lists makes
  it an invariant of the allocator.
\<close>

definition heap_rep :: "BuddyAllocator \<Rightarrow> free_lists \<Rightarrow> bool" where
  "heap_rep self L \<longleftrightarrow>
     length (buddies self) = MAX_ORDER \<and> blocks_inv L \<and>
     (\<forall>i < MAX_ORDER. chain (chunks self) i (buddies self ! i) (L i))"

lemma heap_repD:
  assumes "heap_rep self L"
  shows "length (buddies self) = MAX_ORDER" "blocks_inv L"
    "i < MAX_ORDER \<Longrightarrow> chain (chunks self) i (buddies self ! i) (L i)"
  using assms by (simp_all add: heap_rep_def)

lemma heap_rep_new: "heap_rep (BuddyAllocator_new m) (\<lambda>_. [])"
  by (simp add: heap_rep_def BuddyAllocator_new_def blocks_inv_def)

text \<open>What the owners of allocated blocks write into them does not disturb the allocator.\<close>

lemma heap_rep_write_outside:
  assumes "heap_rep self L" "\<And>i x. x \<in> set (L i) \<Longrightarrow> m x = chunks self x"
  shows "heap_rep (self\<lparr>chunks := m\<rparr>) L"
proof -
  have "chain m i (buddies self ! i) (L i)" if "i < MAX_ORDER" for i
    using heap_repD(3) [OF assms(1) that]
    by (rule chain_cong) (rule assms(2))
  with assms(1) show ?thesis by (simp add: heap_rep_def)
qed

lemma push_chunk_rep:
  assumes rep: "heap_rep self L" and ok: "block_ok i a" and d: "block i a \<inter> free_memory L = {}"
  shows "\<exists>self'. push_chunk self i a (2 ^ i) = Inr self' \<and> heap_rep self' (L(i := a # L i))"
proof -
  note rep' = heap_repD [OF rep]
  let ?m = "store_header (chunks self) a \<lparr>chunk_next = buddies self ! i, chunk_size = 2 ^ i\<rparr>"
  let ?self = "self\<lparr>chunks := ?m, buddies := (buddies self)[i := Some a]\<rparr>"
  have i: "i < MAX_ORDER" and a0: "a \<noteq> 0" using ok by (simp_all add: block_ok_def)
  note a16 = block_ok_dvd_16 [OF ok]
  have "push_new (chunks self) (buddies self ! i) a (2 ^ i) = Inr (?m, Some a)"
    by (rule push_new_eq [OF a0 a16])
  then have "push_chunk self i a (2 ^ i) = Inr ?self"
    using i rep'(1) by (auto simp: push_chunk_def push_new_def rbind_eq_Inr)
  moreover have old: "chain ?m j (buddies self ! j) (L j)" if "j < MAX_ORDER" for j
  proof (rule chain_cong [OF rep'(3) [OF that]])
    fix x assume x: "x \<in> set (L j)"
    have "x \<noteq> a" using x d mem_block_start block_subset_free by blast
    moreover have "16 dvd unat x" using blocks_invD(1) [OF rep'(2) x] by (rule block_ok_dvd_16)
    ultimately show "?m x = chunks self x" using a16 by (simp add: store_header_apart)
  qed
  then have "heap_rep ?self (L(i := a # L i))"
    using rep'(1) i blocks_inv_add [OF rep'(2) ok d]
    by (auto simp: heap_rep_def nth_list_update simp del: fun_upd_apply) (simp_all add: fun_upd_def)
  ultimately show ?thesis by blast
qed

lemma pop_chunk_rep_Nil:
  assumes "heap_rep self L" "i < MAX_ORDER" "L i = []"
  shows "pop_chunk self i = Inr (None, self)"
proof -
  have "buddies self ! i = None" using heap_repD(3) [OF assms(1,2)] assms(3) by simp
  then have "(buddies self)[i := None] = buddies self" by (metis list_update_id)
  with \<open>buddies self ! i = None\<close> assms(2) heap_repD(1) [OF assms(1)] show ?thesis
    by (simp add: pop_chunk_def LinkedList_pop_front_def)
qed

text \<open>Unlinking a node of class \<open>i\<close> touches no header of another class.\<close>

lemma unlink_rep:
  assumes rep: "heap_rep self L" and i: "i < MAX_ORDER" and c: "chain m i p xs"
    and frame: "\<And>y. y \<notin> set (L i) \<Longrightarrow> m y = chunks self y"
    and xs: "set xs \<subseteq> set (L i)" "distinct xs"
  shows "heap_rep (self\<lparr>chunks := m, buddies := (buddies self)[i := p]\<rparr>) (L(i := xs))"
proof -
  note rep' = heap_repD [OF rep]
  have "chain m j (buddies self ! j) (L j)" if "j < MAX_ORDER" "j \<noteq> i" for j
    using rep'(3) [OF that(1)]
    by (rule chain_cong) (metis frame blocks_inv_disjoint_addr [OF rep'(2)] that(2))
  with rep' i c blocks_inv_remove [OF rep'(2) xs] show ?thesis
    by (auto simp: heap_rep_def nth_list_update)
qed

lemma pop_chunk_rep_Cons:
  assumes rep: "heap_rep self L" and i: "i < MAX_ORDER" and L: "L i = a # as"
  shows "\<exists>self'. pop_chunk self i = Inr (Some a, self') \<and> heap_rep self' (L(i := as))"
proof -
  note rep' = heap_repD [OF rep]
  have dist: "distinct (a # as)" using blocks_invD(2) [OF rep'(2), of i] L by simp
  from LinkedList_pop_front_Cons [of "chunks self" i "buddies self ! i" a as] rep'(3) [OF i] L dist
  obtain p' where p': "LinkedList_pop_front (chunks self) (buddies self ! i) =
        Inr (Some a, (chunks self)(a \<mapsto> \<lparr>chunk_next = None, chunk_size = 2 ^ i\<rparr>), p')"
    "chain ((chunks self)(a \<mapsto> \<lparr>chunk_next = None, chunk_size = 2 ^ i\<rparr>)) i p' as"
    by auto
  have "pop_chunk self i = Inr (Some a, self\<lparr>chunks := (chunks self)(a \<mapsto>
      \<lparr>chunk_next = None, chunk_size = 2 ^ i\<rparr>), buddies := (buddies self)[i := p']\<rparr>)"
    using p'(1) i rep'(1) by (simp add: pop_chunk_def)
  moreover have "heap_rep (self\<lparr>chunks := (chunks self)(a \<mapsto>
      \<lparr>chunk_next = None, chunk_size = 2 ^ i\<rparr>), buddies := (buddies self)[i := p']\<rparr>) (L(i := as))"
    by (rule unlink_rep [OF rep i p'(2)]) (use L dist in auto)
  ultimately show ?thesis by blast
qed

lemma remove_chunk_rep:
  assumes rep: "heap_rep self L" and i: "i < MAX_ORDER"
  shows "x \<notin> set (L i) \<Longrightarrow> remove_chunk self i x = Inr (None, self)"
    and "x \<in> set (L i) \<Longrightarrow>
      \<exists>self'. remove_chunk self i x = Inr (Some x, self') \<and> heap_rep self' (L(i := remove1 x (L i)))"
proof -
  note rep' = heap_repD [OF rep]
  note ch = rep'(3) [OF i] blocks_invD(2) [OF rep'(2), of i]
  show "remove_chunk self i x = Inr (None, self)" if "x \<notin> set (L i)"
    using LinkedList_remove_absent [OF ch that] i rep'(1) by (simp add: remove_chunk_def)
  assume x: "x \<in> set (L i)"
  from LinkedList_remove_present [OF ch x] obtain m' p' where
    m': "LinkedList_remove (chunks self) (buddies self ! i) x = Inr (Some x, m', p')"
      "chain m' i p' (remove1 x (L i))" "\<And>y. y \<notin> set (L i) \<Longrightarrow> m' y = chunks self y"
    by blast
  have "heap_rep (self\<lparr>chunks := m', buddies := (buddies self)[i := p']\<rparr>) (L(i := remove1 x (L i)))"
    by (rule unlink_rep [OF rep i m'(2,3)]) (use ch(2) set_remove1_subset in \<open>auto simp: distinct_remove1\<close>)
  with m'(1) i rep'(1) show "\<exists>self'. remove_chunk self i x = Inr (Some x, self') \<and>
      heap_rep self' (L(i := remove1 x (L i)))"
    by (auto simp: remove_chunk_def)
qed

section \<open>Allocation refines \<open>list_alloc\<close>\<close>

lemma alloc_splits_rep:
  assumes "heap_rep self L" "L i \<noteq> []" "4 \<le> cls" "cls \<le> i" "i < MAX_ORDER"
  shows "\<exists>self'. alloc_splits self (rev [cls + 1 ..< i + 1]) = Inr (True, self') \<and>
           heap_rep self' (fold split_class (rev [cls + 1 ..< i + 1]) L)"
  using assms
proof (induction "i - cls" arbitrary: i L self)
  case 0
  then have "i = cls" by simp
  with 0 show ?case by simp
next
  case (Suc n)
  then obtain j where i: "i = Suc j" and j: "cls \<le> j" "4 \<le> j" by (cases i) auto
  obtain a as where ne: "L (Suc j) = a # as" using Suc.prems(2) i by (cases "L (Suc j)") auto
  note step = split_class_step [OF heap_repD(2) [OF Suc.prems(1)] ne j(2)]
  from pop_chunk_rep_Cons [OF Suc.prems(1) _ ne] Suc.prems(5) i obtain self1 where
    1: "pop_chunk self (Suc j) = Inr (Some a, self1)" "heap_rep self1 (L(Suc j := as))" by auto
  from push_chunk_rep [OF 1(2) step(3,6)] obtain self2 where
    2: "push_chunk self1 j a (2 ^ j) = Inr self2"
      "heap_rep self2 ((L(Suc j := as))(j := a # (L(Suc j := as)) j))" by blast
  from push_chunk_rep [OF 2(2) step(4,8)] step(1) obtain self3 where
    3: "push_chunk self2 j (a + 2 ^ j) (2 ^ j) = Inr self3" "heap_rep self3 (split_class (Suc j) L)"
    by (metis (no_types, lifting))
  have ne3: "split_class (Suc j) L j \<noteq> []" by (simp add: step(1))
  have "VirtualAddress_add a (2 ^ j) = Inr (a + 2 ^ j)"
    using unat_add_exp [OF step(2)] Suc.prems(5) i
    by (simp add: VirtualAddress_add_def op_add_eq_Inr unat_exp)
  moreover have "op_shl 1 j = Inr (2 ^ j :: u64)" using Suc.prems(5) i by (simp add: op_shl_def)
  ultimately have "alloc_splits self (rev [cls + 1 ..< i + 1]) = alloc_splits self3 (rev [cls + 1 ..< j + 1])"
    unfolding i rev_upt_Suc [OF j(1)] by (simp add: 1(1) 2(1) 3(1) del: upt_Suc)
  moreover have "fold split_class (rev [cls + 1 ..< i + 1]) L =
      fold split_class (rev [cls + 1 ..< j + 1]) (split_class (Suc j) L)"
    unfolding i rev_upt_Suc [OF j(1)] by simp
  ultimately show ?case
    using Suc.hyps(1) [OF _ 3(2) ne3 Suc.prems(3) j(1)] Suc.hyps(2) Suc.prems(5) i by simp
qed

lemma alloc_classes_rep:
  assumes rep: "heap_rep self L" and cls: "4 \<le> cls" "cls < MAX_ORDER"
    and "\<forall>i \<in> set is. cls \<le> i \<and> i < MAX_ORDER"
    and "\<And>i. find (\<lambda>i. L i \<noteq> []) is = None \<Longrightarrow> L cls = []"
  shows "\<exists>self'. alloc_classes self cls is =
     Inr (case find (\<lambda>i. L i \<noteq> []) is of None \<Rightarrow> None
          | Some i \<Rightarrow> Some (hd (fold split_class (rev [cls + 1 ..< i + 1]) L cls)), self') \<and>
     heap_rep self' (case find (\<lambda>i. L i \<noteq> []) is of None \<Rightarrow> L
          | Some i \<Rightarrow> let L' = fold split_class (rev [cls + 1 ..< i + 1]) L in L'(cls := tl (L' cls)))"
  using assms(4,5)
proof (induction "is")
  case Nil
  with rep cls pop_chunk_rep_Nil [OF rep cls(2)] show ?case by simp
next
  case (Cons i "is")
  have i: "cls \<le> i" "i < MAX_ORDER" using Cons.prems(1) by simp_all
  show ?case
  proof (cases "L i = []")
    case True
    then have "buddies self ! i = None" using heap_repD(3) [OF rep i(2)] by simp
    with True Cons i heap_repD(1) [OF rep] show ?thesis by (simp add: LinkedList_is_empty_def)
  next
    case False
    then have ne: "buddies self ! i \<noteq> None" using heap_repD(3) [OF rep i(2)] by (cases "L i") auto
    from alloc_splits_rep [OF rep False cls(1) i] obtain self1 where
      1: "alloc_splits self (rev [cls + 1 ..< i + 1]) = Inr (True, self1)"
        "heap_rep self1 (fold split_class (rev [cls + 1 ..< i + 1]) L)" by blast
    define M where "M = fold split_class (rev [cls + 1 ..< i + 1]) L"
    have "M cls \<noteq> []"
      using fold_split_class [OF heap_repD(2) [OF rep] False cls(1) i(1)] by (simp add: M_def)
    then obtain a as where M: "M cls = a # as" by (cases "M cls") auto
    from pop_chunk_rep_Cons [OF 1(2) [folded M_def] cls(2) M] obtain self2 where
      2: "pop_chunk self1 cls = Inr (Some a, self2)" "heap_rep self2 (M(cls := as))" by blast
    have "alloc_classes self cls (i # is) = Inr (Some a, self2)"
      using 1(1) 2(1) ne i heap_repD(1) [OF rep]
      by (auto simp: LinkedList_is_empty_def simp del: upt_Suc)
    moreover have fnd: "find (\<lambda>i. L i \<noteq> []) (i # is) = Some i" using False by simp
    ultimately show ?thesis
      unfolding fnd option.case Let_def M_def [symmetric] using 2(2) M
      by (auto simp del: alloc_classes.simps find.simps fun_upd_apply)
  qed
qed

lemma alloc_rep:
  assumes "heap_rep self L" "align_layout_size layout = Inr (2 ^ cls)" "4 \<le> cls" "cls < MAX_ORDER"
  shows "\<exists>self'. BuddyAllocator_alloc self layout = Inr (fst (list_alloc L cls), self') \<and>
           heap_rep self' (snd (list_alloc L cls))"
proof -
  have "\<And>i. find (\<lambda>i. L i \<noteq> []) [cls ..< MAX_ORDER] = None \<Longrightarrow> L cls = []"
    using assms(4) by (auto simp: find_None_iff)
  from alloc_classes_rep [OF assms(1,3,4) _ this, of "[cls ..< MAX_ORDER]"] assms heap_repD(1) [OF assms(1)]
  show ?thesis
    by (simp add: BuddyAllocator_alloc_def trailing_zeros_exp list_alloc_def Let_def
        split: option.splits del: upt_Suc)
qed

section \<open>Deallocation refines \<open>list_dealloc\<close>\<close>

lemma dealloc_loop_rep:
  assumes "heap_rep self L" "4 \<le> cls" "cls \<le> MAX_ORDER" "a \<noteq> 0" "2 ^ cls dvd unat a"
    and "block cls a \<inter> free_memory L = {}"
  shows "\<exists>self'. dealloc_loop self cls \<lparr>region_start = a, region_size = 2 ^ cls\<rparr> = Inr self' \<and>
           heap_rep self' (list_dealloc L cls a)"
  using assms
proof (induction L cls a arbitrary: self rule: list_dealloc.induct)
  case (1 L cls a)
  note len = heap_repD(1) [OF 1(2)] and inv = heap_repD(2) [OF 1(2)]
  show ?case
  proof (cases "cls < MAX_ORDER")
    case False
    with 1(2) len show ?thesis
      by (subst dealloc_loop.simps, subst list_dealloc.simps) simp
  next
    case True
    with 1 have ok: "block_ok cls a" by (simp add: block_ok_def)
    let ?b = "buddy_of cls a"
    have bit: "op_shl 1 cls = Inr (push_bit cls 1 :: u64)" using True by (simp add: op_shl_def)
    show ?thesis
    proof (cases "?b \<in> set (L cls)")
      case False
      with True have "list_dealloc L cls a = L(cls := a # L cls)"
        by (subst list_dealloc.simps) simp
      with remove_chunk_rep(1) [OF 1(2) True False] push_chunk_rep [OF 1(2) ok 1(7)] True len bit
      show ?thesis
        by (subst dealloc_loop.simps) (simp add: buddy_of_def del: fun_upd_apply)
    next
      case b: True
      from remove_chunk_rep(2) [OF 1(2) True b] obtain self1 where
        r: "remove_chunk self cls ?b = Inr (Some ?b, self1)"
          "heap_rep self1 (L(cls := remove1 ?b (L cls)))" by blast
      note step = merge_step [OF inv ok 1(7) b]
      have "op_mul (2 ^ cls) 2 = Inr (2 ^ (cls + 1) :: u64)"
        using True unat_exp [where 'a = 64, of "cls + 1"] unat_exp [where 'a = 64, of cls]
        by (simp add: op_mul_eq_Inr)
      with True len bit r(1) have "dealloc_loop self cls \<lparr>region_start = a, region_size = 2 ^ cls\<rparr> =
          dealloc_loop self1 (cls + 1) \<lparr>region_start = min a ?b, region_size = 2 ^ (cls + 1)\<rparr>"
        by (subst dealloc_loop.simps) (simp add: buddy_of_def)
      moreover from True b have "list_dealloc L cls a =
          list_dealloc (L(cls := remove1 ?b (L cls))) (cls + 1) (min a ?b)"
        by (subst list_dealloc.simps) (simp add: Let_def)
      ultimately show ?thesis
        using "1.IH" [OF True refl b r(2) _ _ step(2-4)] "1.prems"(2) True
        by (simp del: fun_upd_apply)
    qed
  qed
qed

section \<open>Layouts\<close>

text \<open>What a \<open>Layout\<close> guarantees: a power of two as alignment and a size below \<open>isize::MAX\<close>.\<close>

definition Layout_valid :: "Layout \<Rightarrow> bool" where
  "Layout_valid layout \<longleftrightarrow>
     (\<exists>j < 63. layout_align layout = 2 ^ j) \<and> unat (layout_size layout) < 2 ^ 63"

definition layout_class :: "Layout \<Rightarrow> nat" where
  "layout_class layout =
     (case align_layout_size layout of Inr sz \<Rightarrow> trailing_zeros sz | Inl _ \<Rightarrow> 64)"

lemma max_exp_word:
  "i < LENGTH('a) \<Longrightarrow> j < LENGTH('a) \<Longrightarrow> max ((2 :: 'a::len word) ^ i) (2 ^ j) = 2 ^ max i j"
  by (auto simp: max_def word_le_nat_alt unat_exp)

lemma layout_class:
  assumes "Layout_valid layout"
  shows "align_layout_size layout = Inr (2 ^ layout_class layout)"
    and "4 \<le> layout_class layout" "layout_class layout < 64"
    and "unat (layout_size layout) \<le> 2 ^ layout_class layout"
    and "unat (layout_align layout) dvd 2 ^ layout_class layout"
proof -
  from assms obtain j where j: "j < 63" "layout_align layout = 2 ^ j"
    and sz: "unat (layout_size layout) < 2 ^ 63" by (auto simp: Layout_valid_def)
  have "unat (layout_size layout - 1) < 2 ^ 63" if "\<not> layout_size layout \<le> 1"
    using that sz by (subst unat_sub) (auto simp: word_le_nat_alt)
  then have "\<exists>p. next_power_of_two (layout_size layout) = Inr p"
    using bit_length_le [of "unat (layout_size layout - 1)" 63]
    by (auto simp: next_power_of_two_def Let_def)
  then obtain k where k: "k < 64" "next_power_of_two (layout_size layout) = Inr (2 ^ k)"
    "unat (layout_size layout) \<le> 2 ^ k"
    using next_power_of_two_spec [where a = "layout_size layout"] by auto
  define c where "c = max k (max j 4)"
  have "max ((2 :: u64) ^ j) 16 = 2 ^ max j 4" using max_exp_word [where 'a = 64, of j 4] j by simp
  then have al: "align_layout_size layout = Inr (2 ^ c)"
    using k j max_exp_word [where 'a = 64, of k "max j 4"] by (simp add: align_layout_size_def c_def)
  have c64: "c < 64" using k j by (simp add: c_def)
  have lc: "layout_class layout = c" using c64 by (simp add: layout_class_def al trailing_zeros_exp)
  show "align_layout_size layout = Inr (2 ^ layout_class layout)" by (simp add: lc al)
  show "4 \<le> layout_class layout" "layout_class layout < 64" using c64 by (simp_all add: lc c_def)
  have "(2 :: nat) ^ k \<le> 2 ^ c" by (simp add: c_def)
  with k(3) show "unat (layout_size layout) \<le> 2 ^ layout_class layout" unfolding lc by (rule order_trans)
  show "unat (layout_align layout) dvd 2 ^ layout_class layout"
    using j by (simp add: lc unat_exp le_imp_power_dvd c_def)
qed

section \<open>The operations on the free memory\<close>

text \<open>The heap keeps its free lists coalesced; \<open>heap_free\<close> is the set of its free addresses.\<close>

definition heap_free :: "BuddyAllocator \<Rightarrow> nat set \<Rightarrow> bool" where
  "heap_free self F \<longleftrightarrow> (\<exists>L. heap_rep self L \<and> coalesced L \<and> free_memory L = F)"

definition layout_block :: "Layout \<Rightarrow> u64 \<Rightarrow> nat set" where
  "layout_block layout p = block (layout_class layout) p"

definition layout_pointer :: "Layout \<Rightarrow> u64 \<Rightarrow> bool" where
  "layout_pointer layout p \<longleftrightarrow> block_ok (layout_class layout) p"

lemma layout_pointer_aligned:
  assumes "Layout_valid layout" "layout_pointer layout p"
  shows "unat (layout_align layout) dvd unat p" "p \<noteq> 0"
    "{unat p ..< unat p + unat (layout_size layout)} \<subseteq> layout_block layout p"
  using assms layout_class [OF assms(1)] dvd_trans
  by (auto simp: layout_pointer_def block_ok_def layout_block_def block_def)

lemma alloc_heap_free:
  assumes "heap_free self F" "Layout_valid layout" "layout_class layout < MAX_ORDER"
  shows "\<exists>r self' F'. BuddyAllocator_alloc self layout = Inr (r, self') \<and> heap_free self' F' \<and>
    (case r of
       None \<Rightarrow> F' = F \<and> (\<forall>a. 2 ^ layout_class layout dvd unat a \<longrightarrow> \<not> layout_block layout a \<subseteq> F)
     | Some p \<Rightarrow> layout_pointer layout p \<and> F = F' \<union> layout_block layout p \<and>
                 F' \<inter> layout_block layout p = {})"
proof -
  let ?c = "layout_class layout"
  note c = layout_class [OF assms(2)]
  from assms(1) obtain L where L: "heap_rep self L" "coalesced L" "free_memory L = F"
    by (auto simp: heap_free_def)
  obtain r L' where la: "list_alloc L ?c = (r, L')" by (cases "list_alloc L ?c")
  from alloc_rep [OF L(1) c(1,2) assms(3)] la obtain self' where
    s: "BuddyAllocator_alloc self layout = Inr (r, self')" "heap_rep self' L'" by auto
  have co: "coalesced L'" using list_alloc_coalesced [OF L(2), of ?c] la by simp
  show ?thesis
  proof (cases r)
    case None
    have "L' = L" "\<forall>i. ?c \<le> i \<and> i < MAX_ORDER \<longrightarrow> L i = []"
      using list_alloc_None [of L ?c] la None by simp_all
    moreover have "i < MAX_ORDER" if "b \<in> set (L i)" for i b
      using blocks_invD(1) [OF heap_repD(2) [OF L(1)] that] by (simp add: block_ok_def)
    ultimately have "\<not> layout_block layout a \<subseteq> F" if "2 ^ ?c dvd unat a" for a
      using free_block_covered [OF heap_repD(2) [OF L(1)] L(2) c(2) assms(3) that] L(3)
      by (fastforce simp: layout_block_def)
    with s co L(3) None \<open>L' = L\<close> show ?thesis by (auto simp: heap_free_def)
  next
    case (Some p)
    from list_alloc_Some [OF heap_repD(2) [OF L(1)] c(2) la [unfolded Some]] s co L(3) Some
    show ?thesis
      by (auto simp: heap_free_def layout_block_def layout_pointer_def intro!: exI [of _ "free_memory L'"])
  qed
qed

lemma alloc_class_out_of_bounds:
  assumes "heap_free self F" "Layout_valid layout" "MAX_ORDER \<le> layout_class layout"
  shows "BuddyAllocator_alloc self layout = Inl Index_Out_Of_Bounds"
proof -
  from assms(1) have "length (buddies self) = MAX_ORDER" by (auto simp: heap_free_def heap_rep_def)
  with layout_class [OF assms(2)] assms(3) show ?thesis
    by (simp add: BuddyAllocator_alloc_def trailing_zeros_exp pop_chunk_def index_get_def)
qed

lemma dealloc_refines:
  assumes L: "heap_rep self L" "coalesced L" and "Layout_valid layout" "layout_pointer layout p"
    and d: "layout_block layout p \<inter> free_memory L = {}"
  shows "\<exists>self'. GlobalAlloc_dealloc self p layout = Inr self' \<and>
           heap_rep self' (list_dealloc L (layout_class layout) p) \<and>
           coalesced (list_dealloc L (layout_class layout) p)"
proof -
  let ?c = "layout_class layout"
  note c = layout_class [OF assms(3)]
  have ok: "block_ok ?c p" using assms(4) by (simp add: layout_pointer_def)
  have p: "?c < MAX_ORDER" "p \<noteq> 0" "2 ^ ?c dvd unat p" using ok by (simp_all add: block_ok_def)
  let ?m = "store_header (chunks self) p \<lparr>chunk_next = None, chunk_size = 2 ^ ?c\<rparr>"
  have new: "Chunk_new_at_address (chunks self) p (2 ^ ?c) = Inr ?m"
    using push_new_eq [OF p(2) block_ok_dvd_16 [OF ok], of "chunks self" None "2 ^ ?c"]
    by (auto simp: push_new_def Chunk_new_at_address_def split: if_splits)
  have "?m x = chunks self x" if "x \<in> set (L i)" for i x
  proof (rule store_header_apart)
    show "16 dvd unat p" by (rule block_ok_dvd_16 [OF ok])
    show "16 dvd unat x" using blocks_invD(1) [OF heap_repD(2) [OF L(1)] that] by (rule block_ok_dvd_16)
    show "x \<noteq> p" using that d mem_block_start block_subset_free unfolding layout_block_def by blast
  qed
  then have rep: "heap_rep (self\<lparr>chunks := ?m\<rparr>) L" by (rule heap_rep_write_outside [OF L(1)])
  have d': "block ?c p \<inter> free_memory L = {}" using d by (simp add: layout_block_def)
  from dealloc_loop_rep [OF rep c(2) _ p(2,3) d'] p(1) obtain self' where
    "dealloc_loop (self\<lparr>chunks := ?m\<rparr>) ?c \<lparr>region_start = p, region_size = 2 ^ ?c\<rparr> = Inr self'"
    "heap_rep self' (list_dealloc L ?c p)" by auto
  moreover have "BuddyAllocator_dealloc (self\<lparr>chunks := ?m\<rparr>) p =
      dealloc_loop (self\<lparr>chunks := ?m\<rparr>) ?c \<lparr>region_start = p, region_size = 2 ^ ?c\<rparr>"
    using c(3) by (simp add: BuddyAllocator_dealloc_def load_header_def Region_new_def trailing_zeros_exp)
  ultimately show ?thesis
    using c(1) new list_dealloc_coalesced [OF L(2)] by (auto simp: GlobalAlloc_dealloc_def)
qed

lemma dealloc_heap_free:
  assumes "heap_free self F" "Layout_valid layout" "layout_pointer layout p"
    and d: "layout_block layout p \<inter> F = {}"
  shows "\<exists>self' F'. GlobalAlloc_dealloc self p layout = Inr self' \<and> heap_free self' F' \<and>
     (F' = F \<union> layout_block layout p \<or>
      (\<exists>x. 2 ^ MAX_ORDER dvd unat x \<and> block MAX_ORDER x \<subseteq> F \<union> layout_block layout p \<and>
           F' = F \<union> layout_block layout p - block MAX_ORDER x))"
proof -
  let ?c = "layout_class layout"
  from assms(1) obtain L where L: "heap_rep self L" "coalesced L" "free_memory L = F"
    by (auto simp: heap_free_def)
  have p: "?c < MAX_ORDER" "p \<noteq> 0" "2 ^ ?c dvd unat p"
    using assms(3) by (simp_all add: layout_pointer_def block_ok_def)
  from dealloc_refines [OF L(1,2) assms(2,3)] d L(3) obtain self' where
    "GlobalAlloc_dealloc self p layout = Inr self'" "heap_free self' (free_memory (list_dealloc L ?c p))"
    by (auto simp: heap_free_def)
  with list_dealloc_correct [OF heap_repD(2) [OF L(1)] layout_class(2) [OF assms(2)] _ p(2,3)] p(1) L(3) d
  show ?thesis by (auto simp: layout_block_def)
qed

end
