(* ===== verification/Buddy_Heap.thy ===== *)
theory Buddy_Heap
  imports Buddy_Correct
begin

text \<open>
  The heap over its life: \<open>add_region\<close> and \<open>init\<close> give the allocator exactly the memory of the
  region; then clients allocate, write into their blocks and free them in any order. The
  contract of a global allocator is the locale \<open>global_allocator\<close>; the buddy allocator of
  \<open>kernel/src/allocator/buddy_allocator.rs\<close> is shown to satisfy it on every heap that holds no
  aligned block of 1 MiB, such as the kernel's heap of 100 KiB (\<open>kernel/src/allocator.rs\<close>).
\<close>

section \<open>Adding a region\<close>

text \<open>
  The blocks added so far lie below \<open>cur\<close>; one that could be the lower half of a larger block
  is that small because the region ends too early.
\<close>

definition filled_up_to :: "free_lists \<Rightarrow> u64 \<Rightarrow> u64 \<Rightarrow> bool" where
  "filled_up_to L cur stop \<longleftrightarrow>
     (\<forall>i < MAX_ORDER - 1. \<forall>a \<in> set (L i).
        unat a < unat cur \<and> (even (unat a div 2 ^ i) \<longrightarrow> unat stop < unat a + 2 * 2 ^ i))"

lemma filled_up_to_step:
  assumes f: "filled_up_to L cur stop" and c: "coalesced L" and k: "k < MAX_ORDER" "2 ^ k dvd unat cur"
    and nxt: "unat nxt = unat cur + 2 ^ k" "unat nxt \<le> unat stop"
    and mx: "\<And>j. j < MAX_ORDER \<Longrightarrow> 2 ^ j dvd unat cur \<Longrightarrow> unat cur + 2 ^ j \<le> unat stop \<Longrightarrow> j \<le> k"
  shows "coalesced (L(k := cur # L k))" "filled_up_to (L(k := cur # L k)) nxt stop"
proof -
  obtain m where m: "unat cur = 2 ^ k * m" using k(2) by (elim dvdE)
  have ub: "unat (buddy_of k cur) = (if even m then unat cur + 2 ^ k else unat cur - 2 ^ k)"
    using unat_buddy_of [of k cur] k m by simp
  have "coalesced (L(k := cur # L k))"
  proof (cases "k < MAX_ORDER - 1")
    case True
    have "buddy_of k cur \<notin> set (L k)"
    proof
      assume b: "buddy_of k cur \<in> set (L k)"
      with f True have lt: "unat (buddy_of k cur) < unat cur"
        and ev: "even (unat (buddy_of k cur) div 2 ^ k) \<longrightarrow> unat stop < unat (buddy_of k cur) + 2 * 2 ^ k"
        by (auto simp: filled_up_to_def)
      then have odd: "odd m" using ub by (auto split: if_splits)
      then obtain n where "m = 2 * n + 1" by (elim oddE)
      then have "unat (buddy_of k cur) = 2 ^ k * (2 * n)" using ub m odd by (simp add: algebra_simps)
      with ev have "unat stop < 2 ^ k * (2 * n) + 2 * 2 ^ k" by simp
      with nxt m \<open>m = 2 * n + 1\<close> show False by (simp add: algebra_simps)
    qed
    then show ?thesis by (rule coalesced_add [OF c])
  next
    case False
    with c show ?thesis by (intro coalesced_update) auto
  qed
  then show "coalesced (L(k := cur # L k))" .
  have new: "unat stop < unat cur + 2 * 2 ^ k" if "even (unat cur div 2 ^ k)" "k < MAX_ORDER - 1"
  proof (rule ccontr)
    assume "\<not> unat stop < unat cur + 2 * 2 ^ k"
    moreover have "2 ^ Suc k dvd unat cur" using that(1) m by (auto elim!: evenE)
    ultimately show False using mx [of "Suc k"] that(2) by simp
  qed
  show "filled_up_to (L(k := cur # L k)) nxt stop"
    unfolding filled_up_to_def
  proof (intro allI ballI impI)
    fix i a assume i: "i < MAX_ORDER - 1" and a: "a \<in> set ((L(k := cur # L k)) i)"
    show "unat a < unat nxt \<and> (even (unat a div 2 ^ i) \<longrightarrow> unat stop < unat a + 2 * 2 ^ i)"
    proof (cases "a \<in> set (L i)")
      case True
      with f i have "unat a < unat cur \<and> (even (unat a div 2 ^ i) \<longrightarrow> unat stop < unat a + 2 * 2 ^ i)"
        by (simp add: filled_up_to_def)
      with nxt(1) show ?thesis by linarith
    next
      case False
      with a have "i = k" "a = cur" by (auto split: if_splits)
      with new i nxt show ?thesis by simp
    qed
  qed
qed

lemma add_region_loop_correct:
  assumes "heap_rep self L" "coalesced L" "filled_up_to L cur stop"
    and "cur \<noteq> 0" "16 dvd unat cur" "16 dvd unat stop" "{unat cur ..< unat stop} \<inter> free_memory L = {}"
  shows "\<exists>self'. add_region_loop self cur stop = Inr self' \<and>
           heap_free self' (free_memory L \<union> {unat cur ..< unat stop})"
  using assms
proof (induction self cur stop arbitrary: L rule: add_region_loop.induct)
  case (1 self cur stop)
  show ?case
  proof (cases "cur < stop")
    case False
    then have "{unat cur ..< unat stop} = {}" by (simp add: word_less_nat_alt)
    with False 1 show ?thesis by (subst add_region_loop.simps) (auto simp: heap_free_def)
  next
    case True
    obtain k where k: "region_chunk_size cur stop = Inr (2 ^ k)" "k < MAX_ORDER"
      "unat cur + 2 ^ k \<le> unat stop" "2 ^ k dvd unat cur"
      and mx: "\<And>j. j < MAX_ORDER \<Longrightarrow> 2 ^ j dvd unat cur \<Longrightarrow> unat cur + 2 ^ j \<le> unat stop \<Longrightarrow> j \<le> k"
      using region_chunk_size_exp [OF True] 1(5) by metis
    have lt: "unat cur < unat stop" using True by (simp add: word_less_nat_alt)
    have "4 \<le> k" using mx [of 4] 1(6,7) lt by (auto elim!: dvdE)
    with k 1(5) have ok: "block_ok k cur" by (simp add: block_ok_def)
    have blk: "block k cur \<subseteq> {unat cur ..< unat stop}" using k(3) by (auto simp: block_def)
    with 1(8) have d: "block k cur \<inter> free_memory L = {}" by blast
    from push_chunk_rep [OF 1(2) ok d] obtain self1 where
      p: "push_chunk self k cur (2 ^ k) = Inr self1" "heap_rep self1 (L(k := cur # L k))" by blast
    let ?n = "cur + 2 ^ k"
    have lt64: "unat cur + 2 ^ k < 2 ^ 64" using k(3) unat_less_exp [of stop] by simp
    then have n: "op_add cur (2 ^ k) = Inr ?n" "unat ?n = unat cur + 2 ^ k"
      using k(2) by (simp_all add: op_add_def unat_exp unat_plus_nowrap)
    have "(2 :: nat) ^ 4 dvd 2 ^ k" using \<open>4 \<le> k\<close> by (rule le_imp_power_dvd)
    then have n16: "16 dvd unat ?n" using n(2) 1(6) by (simp add: dvd_add)
    have n0: "?n \<noteq> 0" using n(2) by (metis add_is_0 power_eq_0_iff unat_0 zero_neq_numeral)
    have n_stop: "unat ?n \<le> unat stop" using n(2) k(3) by simp
    note fs = filled_up_to_step [OF 1(4,3) k(2,4) n(2) n_stop mx]
    have split: "{unat cur ..< unat stop} = block k cur \<union> {unat ?n ..< unat stop}"
      using n(2) k(3) by (auto simp: block_def)
    have d': "{unat ?n ..< unat stop} \<inter> free_memory (L(k := cur # L k)) = {}"
      using 1(8) split n(2) by (auto simp: free_memory_add block_def simp del: fun_upd_apply)
    from True k(1,2) p(1) n(1) have "add_region_loop self cur stop = add_region_loop self1 ?n stop"
      by (subst add_region_loop.simps) (simp add: trailing_zeros_exp)
    moreover have "\<exists>self'. add_region_loop self1 ?n stop = Inr self' \<and>
        heap_free self' (free_memory (L(k := cur # L k)) \<union> {unat ?n ..< unat stop})"
      by (rule "1.IH" [OF True k(1) _ n(1) p(2) fs n0 n16 1(7) d'])
        (use p(1) k(2) in \<open>simp add: trailing_zeros_exp\<close>)
    ultimately show ?thesis
      unfolding free_memory_add split by (simp add: Un_assoc)
  qed
qed

lemma init_correct:
  assumes "start \<noteq> 0" "16 dvd unat start" "16 dvd unat sz" "unat start + unat sz < 2 ^ 64"
  shows "\<exists>self. BuddyAllocator_init (BuddyAllocator_new m) start sz = Inr self \<and>
           heap_free self {unat start ..< unat start + unat sz}"
proof -
  have u: "unat (start + sz) = unat start + unat sz" using assms(4) by (simp add: unat_plus_nowrap)
  have "coalesced (\<lambda>_. [])" "filled_up_to (\<lambda>_. []) start (start + sz)" "free_memory (\<lambda>_. []) = {}"
    by (simp_all add: coalesced_def filled_up_to_def free_memory_def)
  with add_region_loop_correct [OF heap_rep_new, of start "start + sz" m] assms u show ?thesis
    by (auto simp: BuddyAllocator_init_def VirtualAddress_add_def op_add_def
        BuddyAllocator_add_region_def word_le_nat_alt)
qed

section \<open>The contract of a global allocator\<close>

text \<open>
  What the clients of \<open>GlobalAlloc\<close> rely on. \<open>rep h F\<close>: the allocator is in a consistent
  state \<open>h\<close> in which exactly the addresses of \<open>F\<close> are free; \<open>footprint l p\<close> is the memory
  that a pointer \<open>p\<close> of layout \<open>l\<close> owns; \<open>writes h U h'\<close>: \<open>h'\<close> comes from \<open>h\<close> by writing
  only into the bytes of \<open>U\<close>. \<open>H\<close> is all the memory of the heap.
\<close>

locale global_allocator =
  fixes alloc :: "'h \<Rightarrow> Layout \<Rightarrow> (u64 \<times> 'h) res"
    and dealloc :: "'h \<Rightarrow> u64 \<Rightarrow> Layout \<Rightarrow> 'h res"
    and writes :: "'h \<Rightarrow> nat set \<Rightarrow> 'h \<Rightarrow> bool"
    and rep :: "'h \<Rightarrow> nat set \<Rightarrow> bool"
    and layout_ok :: "Layout \<Rightarrow> bool"
    and pointer_ok :: "Layout \<Rightarrow> u64 \<Rightarrow> bool"
    and footprint :: "Layout \<Rightarrow> u64 \<Rightarrow> nat set"
    and H :: "nat set"
  assumes alloc_ok: "rep h F \<Longrightarrow> F \<subseteq> H \<Longrightarrow> layout_ok l \<Longrightarrow> alloc h l = Inr (p, h') \<Longrightarrow>
        pointer_ok l p \<and> (\<exists>F'. rep h' F' \<and> F = F' \<union> footprint l p \<and> F' \<inter> footprint l p = {})"
    and dealloc_ok: "rep h F \<Longrightarrow> F \<union> footprint l p \<subseteq> H \<Longrightarrow> layout_ok l \<Longrightarrow> pointer_ok l p \<Longrightarrow>
        footprint l p \<inter> F = {} \<Longrightarrow> \<exists>h'. dealloc h p l = Inr h' \<and> rep h' (F \<union> footprint l p)"
    and writes_ok: "rep h F \<Longrightarrow> writes h U h' \<Longrightarrow> U \<inter> F = {} \<Longrightarrow> rep h' F"

text \<open>
  The clients: the heap with the live allocations. A step is an allocation, the release of a live
  allocation, or a write into live memory.
\<close>

type_synonym 'h client = "'h \<times> (u64 \<times> Layout) list"

definition live_memory :: "(Layout \<Rightarrow> u64 \<Rightarrow> nat set) \<Rightarrow> (u64 \<times> Layout) list \<Rightarrow> nat set" where
  "live_memory fp live = (\<Union>(p, l) \<in> set live. fp l p)"

inductive client_step ::
    "('h \<Rightarrow> Layout \<Rightarrow> (u64 \<times> 'h) res) \<Rightarrow> ('h \<Rightarrow> u64 \<Rightarrow> Layout \<Rightarrow> 'h res) \<Rightarrow>
     ('h \<Rightarrow> nat set \<Rightarrow> 'h \<Rightarrow> bool) \<Rightarrow> (Layout \<Rightarrow> bool) \<Rightarrow> (Layout \<Rightarrow> u64 \<Rightarrow> nat set) \<Rightarrow>
     'h client \<Rightarrow> 'h client \<Rightarrow> bool"
  for alloc dealloc writes layout_ok fp where
  Alloc: "layout_ok l \<Longrightarrow> alloc h l = Inr (p, h') \<Longrightarrow>
    client_step alloc dealloc writes layout_ok fp (h, live) (h', (p, l) # live)"
| Dealloc: "(p, l) \<in> set live \<Longrightarrow> dealloc h p l = Inr h' \<Longrightarrow>
    client_step alloc dealloc writes layout_ok fp (h, live) (h', remove1 (p, l) live)"
| Write: "writes h (live_memory fp live) h' \<Longrightarrow>
    client_step alloc dealloc writes layout_ok fp (h, live) (h', live)"

text \<open>The live allocations own disjoint memory.\<close>

fun live_disjoint :: "(Layout \<Rightarrow> u64 \<Rightarrow> nat set) \<Rightarrow> (u64 \<times> Layout) list \<Rightarrow> bool" where
  "live_disjoint fp [] \<longleftrightarrow> True"
| "live_disjoint fp ((p, l) # live) \<longleftrightarrow> fp l p \<inter> live_memory fp live = {} \<and> live_disjoint fp live"

lemma live_memory_simps [simp]:
  "live_memory fp [] = {}" "live_memory fp ((p, l) # live) = fp l p \<union> live_memory fp live"
  by (auto simp: live_memory_def)

lemma live_disjoint_remove1:
  assumes "live_disjoint fp live" "(p, l) \<in> set live"
  shows "live_disjoint fp (remove1 (p, l) live)"
    and "live_memory fp live = live_memory fp (remove1 (p, l) live) \<union> fp l p"
    and "live_memory fp (remove1 (p, l) live) \<inter> fp l p = {}"
proof -
  have "live_disjoint fp (remove1 (p, l) live) \<and>
      live_memory fp live = live_memory fp (remove1 (p, l) live) \<union> fp l p \<and>
      live_memory fp (remove1 (p, l) live) \<inter> fp l p = {}"
    using assms
  proof (induction live)
    case Nil
    then show ?case by simp
  next
    case (Cons x live)
    then show ?case by (cases x) (auto simp: Int_Un_distrib Int_Un_distrib2)
  qed
  then show "live_disjoint fp (remove1 (p, l) live)"
    "live_memory fp live = live_memory fp (remove1 (p, l) live) \<union> fp l p"
    "live_memory fp (remove1 (p, l) live) \<inter> fp l p = {}" by blast+
qed

text \<open>
  Free and live memory are disjoint and make up the heap, no two live allocations overlap, and
  each live pointer is a good pointer for its layout.
\<close>

definition client_inv ::
    "('h \<Rightarrow> nat set \<Rightarrow> bool) \<Rightarrow> (Layout \<Rightarrow> bool) \<Rightarrow> (Layout \<Rightarrow> u64 \<Rightarrow> bool) \<Rightarrow>
     (Layout \<Rightarrow> u64 \<Rightarrow> nat set) \<Rightarrow> nat set \<Rightarrow> 'h client \<Rightarrow> bool" where
  "client_inv rep layout_ok pointer_ok fp H s \<longleftrightarrow>
     (case s of (h, live) \<Rightarrow>
        \<exists>F. rep h F \<and> F \<inter> live_memory fp live = {} \<and> F \<union> live_memory fp live = H \<and>
            live_disjoint fp live \<and> (\<forall>(p, l) \<in> set live. layout_ok l \<and> pointer_ok l p))"

lemma client_invI:
  assumes "rep h F" "F \<inter> live_memory fp live = {}" "F \<union> live_memory fp live = H"
    "live_disjoint fp live" "\<And>p l. (p, l) \<in> set live \<Longrightarrow> layout_ok l \<and> pointer_ok l p"
  shows "client_inv rep layout_ok pointer_ok fp H (h, live)"
  using assms by (auto simp: client_inv_def)

lemma client_invE:
  assumes "client_inv rep layout_ok pointer_ok fp H (h, live)"
  obtains F where "rep h F" "F \<inter> live_memory fp live = {}" "F \<union> live_memory fp live = H"
    "live_disjoint fp live" "\<And>p l. (p, l) \<in> set live \<Longrightarrow> layout_ok l \<and> pointer_ok l p"
  using assms by (fastforce simp: client_inv_def)

context global_allocator
begin

abbreviation inv :: "'h client \<Rightarrow> bool" where
  "inv \<equiv> client_inv rep layout_ok pointer_ok footprint H"

lemma client_inv_step:
  assumes "inv s" "client_step alloc dealloc writes layout_ok footprint s t"
  shows "inv t"
  using assms(2)
proof (cases rule: client_step.cases)
  case (Alloc l h p h' live)
  obtain F where F: "rep h F" "F \<inter> live_memory footprint live = {}"
    "F \<union> live_memory footprint live = H" "live_disjoint footprint live"
    "\<And>p l. (p, l) \<in> set live \<Longrightarrow> layout_ok l \<and> pointer_ok l p"
    using client_invE [OF assms(1) [unfolded Alloc(1)]] by metis
  with alloc_ok [OF F(1) _ Alloc(3,4)] obtain F' where
    "pointer_ok l p" "rep h' F'" "F = F' \<union> footprint l p" "F' \<inter> footprint l p = {}" by blast
  with F Alloc(3) show ?thesis unfolding Alloc(2) by (intro client_invI [of _ _ F']) auto
next
  case (Dealloc p l live h h')
  obtain F where F: "rep h F" "F \<inter> live_memory footprint live = {}"
    "F \<union> live_memory footprint live = H" "live_disjoint footprint live"
    "\<And>p l. (p, l) \<in> set live \<Longrightarrow> layout_ok l \<and> pointer_ok l p"
    using client_invE [OF assms(1) [unfolded Dealloc(1)]] by metis
  note rem = live_disjoint_remove1 [OF F(4) Dealloc(3)]
  have "F \<union> footprint l p \<subseteq> H" "footprint l p \<inter> F = {}" "layout_ok l" "pointer_ok l p"
    using F(2,3) rem F(5) [OF Dealloc(3)] by blast+
  with dealloc_ok [OF F(1), of l p] Dealloc(4) have rep': "rep h' (F \<union> footprint l p)" by auto
  show ?thesis unfolding Dealloc(2)
  proof (rule client_invI [of rep h' "F \<union> footprint l p"])
    show "rep h' (F \<union> footprint l p)" by (rule rep')
    show "(F \<union> footprint l p) \<inter> live_memory footprint (remove1 (p, l) live) = {}"
      "F \<union> footprint l p \<union> live_memory footprint (remove1 (p, l) live) = H"
      using F(2,3) rem(2,3) by blast+
    show "live_disjoint footprint (remove1 (p, l) live)" by (rule rem(1))
    show "layout_ok l' \<and> pointer_ok l' p'" if "(p', l') \<in> set (remove1 (p, l) live)" for p' l'
      using that set_remove1_subset [of "(p, l)" live] by (intro F(5)) blast
  qed
next
  case (Write h live h')
  obtain F where F: "rep h F" "F \<inter> live_memory footprint live = {}"
    "F \<union> live_memory footprint live = H" "live_disjoint footprint live"
    "\<And>p l. (p, l) \<in> set live \<Longrightarrow> layout_ok l \<and> pointer_ok l p"
    using client_invE [OF assms(1) [unfolded Write(1)]] by metis
  have "rep h' F" using writes_ok [OF F(1) Write(3)] F(2) by blast
  then show ?thesis unfolding Write(2) using F(2-5) by (rule client_invI)
qed

lemma client_inv_reachable:
  "(client_step alloc dealloc writes layout_ok footprint)\<^sup>*\<^sup>* s t \<Longrightarrow> inv s \<Longrightarrow> inv t"
  by (induction rule: rtranclp_induct) (auto intro: client_inv_step)

text \<open>A live allocation can always be released.\<close>

lemma dealloc_live:
  assumes "inv (h, live)" "(p, l) \<in> set live"
  shows "\<exists>h'. dealloc h p l = Inr h'"
proof -
  obtain F where F: "rep h F" "F \<inter> live_memory footprint live = {}"
    "F \<union> live_memory footprint live = H" "live_disjoint footprint live"
    "\<And>p l. (p, l) \<in> set live \<Longrightarrow> layout_ok l \<and> pointer_ok l p"
    using client_invE [OF assms(1)] by metis
  have "footprint l p \<subseteq> live_memory footprint live"
    using live_disjoint_remove1(2) [OF F(4) assms(2)] by blast
  with F(2,3) F(5) [OF assms(2)] dealloc_ok [OF F(1), of l p] show ?thesis by blast
qed

end

section \<open>The buddy allocator as a global allocator\<close>

text \<open>
  A write to a byte of \<open>U\<close> may change every header that takes in this byte; the heads of the
  lists are out of reach.
\<close>

definition heap_writes :: "BuddyAllocator \<Rightarrow> nat set \<Rightarrow> BuddyAllocator \<Rightarrow> bool" where
  "heap_writes h U h' \<longleftrightarrow>
     buddies h' = buddies h \<and>
     (\<forall>x. {unat x ..< unat x + 16} \<inter> U = {} \<longrightarrow> chunks h' x = chunks h x)"

definition no_full_MiB :: "nat set \<Rightarrow> bool" where
  "no_full_MiB H \<longleftrightarrow> (\<forall>x. 2 ^ MAX_ORDER dvd unat x \<longrightarrow> \<not> block MAX_ORDER x \<subseteq> H)"

lemma heap_free_writes:
  assumes "heap_free h F" "heap_writes h U h'" "U \<inter> F = {}"
  shows "heap_free h' F"
proof -
  from assms(1) obtain L where L: "heap_rep h L" "coalesced L" "free_memory L = F"
    by (auto simp: heap_free_def)
  have "chunks h' x = chunks h x" if x: "x \<in> set (L i)" for i x
  proof -
    have "4 \<le> i" using blocks_invD(1) [OF heap_repD(2) [OF L(1)] x] by (simp add: block_ok_def)
    then have "(2 :: nat) ^ 4 \<le> 2 ^ i" by (rule power_increasing) simp
    then have "{unat x ..< unat x + 16} \<subseteq> block i x" by (auto simp: block_def)
    with block_subset_free [of x L i] x L(3) assms(3) have "{unat x ..< unat x + 16} \<inter> U = {}" by blast
    with assms(2) show ?thesis by (simp add: heap_writes_def)
  qed
  then have "heap_rep (h\<lparr>chunks := chunks h'\<rparr>) L" by (rule heap_rep_write_outside [OF L(1)])
  moreover have "h\<lparr>chunks := chunks h'\<rparr> = h'" using assms(2) by (simp add: heap_writes_def)
  ultimately show ?thesis using L(2,3) by (auto simp: heap_free_def)
qed

lemma GlobalAlloc_alloc_heap_free:
  assumes "heap_free h F" "Layout_valid l" "GlobalAlloc_alloc h l = Inr (p, h')"
  shows "layout_pointer l p \<and>
     (\<exists>F'. heap_free h' F' \<and> F = F' \<union> layout_block l p \<and> F' \<inter> layout_block l p = {})"
proof (cases "layout_class l < MAX_ORDER")
  case False
  with alloc_class_out_of_bounds [OF assms(1,2)] assms(3) show ?thesis by (simp add: GlobalAlloc_alloc_def)
next
  case True
  from alloc_heap_free [OF assms(1,2) True] assms(3) show ?thesis
    by (auto simp: GlobalAlloc_alloc_def split: option.splits)
qed

lemma GlobalAlloc_dealloc_heap_free:
  assumes "heap_free h F" "no_full_MiB H" "F \<union> layout_block l p \<subseteq> H" "Layout_valid l"
    and "layout_pointer l p" "layout_block l p \<inter> F = {}"
  shows "\<exists>h'. GlobalAlloc_dealloc h p l = Inr h' \<and> heap_free h' (F \<union> layout_block l p)"
  using dealloc_heap_free [OF assms(1,4,5,6)] assms(2,3) unfolding no_full_MiB_def by blast

lemma buddy_global_allocator:
  "no_full_MiB H \<Longrightarrow>
     global_allocator GlobalAlloc_alloc GlobalAlloc_dealloc heap_writes heap_free Layout_valid
       layout_pointer layout_block H"
  by unfold_locales
    (blast dest: GlobalAlloc_alloc_heap_free GlobalAlloc_dealloc_heap_free intro: heap_free_writes)+

text \<open>The kernel's heap (\<open>HEAP_START\<close> and \<open>HEAP_SIZE\<close> of \<open>kernel/src/allocator.rs\<close>).\<close>

definition HEAP_START :: VirtualAddress where "HEAP_START = 0x444444440000"

definition HEAP_SIZE :: u64 where "HEAP_SIZE = 100 * 1024"

definition heap_range :: "nat set" where
  "heap_range = {unat HEAP_START ..< unat HEAP_START + unat HEAP_SIZE}"

lemma no_full_MiB_small:
  assumes "n < 2 ^ MAX_ORDER"
  shows "no_full_MiB {s ..< s + n}"
  unfolding no_full_MiB_def
proof (intro allI impI notI)
  fix x :: u64
  assume "block MAX_ORDER x \<subseteq> {s ..< s + n}"
  then have "unat x \<in> {s ..< s + n}" "unat x + 2 ^ MAX_ORDER - 1 \<in> {s ..< s + n}"
    by (auto simp: block_def)
  with assms show False by simp
qed

interpretation kernel_heap: global_allocator GlobalAlloc_alloc GlobalAlloc_dealloc heap_writes
  heap_free Layout_valid layout_pointer layout_block heap_range
  by (rule buddy_global_allocator) (simp add: heap_range_def HEAP_SIZE_def no_full_MiB_small)

abbreviation heap_inv :: "BuddyAllocator client \<Rightarrow> bool" where
  "heap_inv \<equiv> client_inv heap_free Layout_valid layout_pointer layout_block heap_range"

abbreviation heap_step :: "BuddyAllocator client \<Rightarrow> BuddyAllocator client \<Rightarrow> bool" where
  "heap_step \<equiv> client_step GlobalAlloc_alloc GlobalAlloc_dealloc heap_writes Layout_valid layout_block"

lemma kernel_heap_init:
  "\<exists>h. BuddyAllocator_init (BuddyAllocator_new m) HEAP_START HEAP_SIZE = Inr h \<and> heap_inv (h, [])"
  using init_correct [of HEAP_START HEAP_SIZE m]
  by (auto simp: HEAP_START_def HEAP_SIZE_def heap_range_def client_inv_def)

text \<open>
  Freeing one half of an aligned block of 1 MiB while the other half is free: the loop of
  \<open>dealloc\<close> takes the buddy off its list, moves to class \<open>MAX_ORDER\<close> and ends there.
\<close>

lemma dealloc_top_class:
  assumes "heap_free self F" "Layout_valid layout" "layout_class layout = MAX_ORDER - 1"
    and "layout_pointer layout p" "layout_block layout p \<inter> F = {}"
    and "block (MAX_ORDER - 1) (buddy_of (MAX_ORDER - 1) p) \<subseteq> F"
    and "2 ^ (MAX_ORDER - 1) dvd unat (buddy_of (MAX_ORDER - 1) p)"
  shows "\<exists>self'. GlobalAlloc_dealloc self p layout = Inr self' \<and>
           heap_free self' (F - block (MAX_ORDER - 1) (buddy_of (MAX_ORDER - 1) p))"
proof -
  let ?c = "MAX_ORDER - 1" and ?b = "buddy_of (MAX_ORDER - 1) p"
  from assms(1) obtain L where L: "heap_rep self L" "coalesced L" "free_memory L = F"
    by (auto simp: heap_free_def)
  note inv = heap_repD(2) [OF L(1)]
  obtain i b where b: "?c \<le> i" "b \<in> set (L i)" "block ?c ?b \<subseteq> block i b"
    using free_block_covered [OF inv L(2), of ?c ?b] assms(6,7) L(3) by auto
  have i: "i = ?c" using b(1) blocks_invD(1) [OF inv b(2)] by (simp add: block_ok_def)
  then have "2 ^ ?c dvd unat b" using blocks_invD(1) [OF inv b(2)] by (simp add: block_ok_def)
  with i have "b = ?b"
    using b(3) block_subset_same [OF assms(7), of b] by simp
  with b i have mem: "?b \<in> set (L ?c)" by simp
  have ok: "block_ok ?c p" using assms(3,4) by (simp add: layout_pointer_def)
  have d: "block ?c p \<inter> free_memory L = {}" using assms(3,5) L(3) by (simp add: layout_block_def)
  have ld: "list_dealloc L ?c p = L(?c := remove1 ?b (L ?c))"
    using mem by (subst list_dealloc.simps) (simp add: Let_def list_dealloc.simps)
  have set1: "set (remove1 ?b (L ?c)) = set (L ?c) - {?b}" using blocks_invD(2) [OF inv] by (simp add: set_remove1_eq)
  have "free_memory (list_dealloc L ?c p) = F - block ?c ?b"
    unfolding ld using free_memory_remove [OF inv mem set1] L(3) by blast
  with dealloc_refines [OF L(1,2) assms(2,4)] assms(3,5) L(3) show ?thesis by (auto simp: heap_free_def)
qed

section \<open>Properties\<close>

text \<open>
  C5. \<open>BuddyAllocator::alloc\<close> returns on every consistent heap and every layout of a class below
  \<open>MAX_ORDER\<close>. A pointer it returns is not null, aligned as the layout asks, and the block of
  the layout's class behind it has at least the size of the layout and is taken out of the free
  memory, exactly. It returns \<open>None\<close> only when no aligned block of that size is free, and then
  the free memory is unchanged.
\<close>

theorem buddy_alloc_correct:
  assumes "heap_free self F" "Layout_valid layout" "layout_class layout < MAX_ORDER"
  shows "\<exists>r self' F'. BuddyAllocator_alloc self layout = Inr (r, self') \<and> heap_free self' F' \<and>
    (case r of
       None \<Rightarrow> F' = F \<and> (\<forall>a. 2 ^ layout_class layout dvd unat a \<longrightarrow> \<not> layout_block layout a \<subseteq> F)
     | Some p \<Rightarrow>
         p \<noteq> 0 \<and> unat (layout_align layout) dvd unat p \<and>
         {unat p ..< unat p + unat (layout_size layout)} \<subseteq> layout_block layout p \<and>
         layout_block layout p \<subseteq> F \<and> F' = F - layout_block layout p)"
proof -
  from alloc_heap_free [OF assms] obtain r self' F' where
    r: "BuddyAllocator_alloc self layout = Inr (r, self')" "heap_free self' F'"
      "case r of
         None \<Rightarrow> F' = F \<and> (\<forall>a. 2 ^ layout_class layout dvd unat a \<longrightarrow> \<not> layout_block layout a \<subseteq> F)
       | Some p \<Rightarrow> layout_pointer layout p \<and> F = F' \<union> layout_block layout p \<and>
                   F' \<inter> layout_block layout p = {}" by blast
  with layout_pointer_aligned [OF assms(2)] show ?thesis
    by (intro exI [of _ r] exI [of _ self'] exI [of _ F'] conjI) (auto split: option.splits)
qed

lemma layout_class_64_8: "layout_class \<lparr>layout_size = 64, layout_align = 8\<rparr> = 6"
  by (simp add: layout_class_def align_layout_size_def next_power_of_two_def bit_length.simps
      trailing_zeros_def count_trailing.simps max_def word_le_nat_alt)

lemma Layout_valid_64_8: "Layout_valid \<lparr>layout_size = 64, layout_align = 8\<rparr>"
  by (auto simp: Layout_valid_def intro!: exI [of _ 3])

theorem buddy_alloc_correct_witness:
  "\<exists>self p self' F'. BuddyAllocator_init (BuddyAllocator_new (\<lambda>_. None)) 0x1000 256 = Inr self \<and>
     BuddyAllocator_alloc self \<lparr>layout_size = 64, layout_align = 8\<rparr> = Inr (Some p, self') \<and>
     block 6 p \<subseteq> {4096 ..< 4352} \<and> heap_free self' F' \<and> F' = {4096 ..< 4352} - block 6 p"
proof -
  let ?l = "\<lparr>layout_size = 64, layout_align = 8\<rparr>"
  obtain self where s: "BuddyAllocator_init (BuddyAllocator_new (\<lambda>_. None)) 0x1000 256 = Inr self"
    "heap_free self {4096 ..< 4352}"
    using init_correct [of "0x1000" 256 "\<lambda>_. None"] by auto
  have "2 ^ layout_class ?l dvd unat (0x1000 :: u64)" "layout_block ?l 0x1000 \<subseteq> {4096 ..< 4352}"
    by (simp_all add: layout_class_64_8 layout_block_def block_def)
  with s buddy_alloc_correct [OF s(2) Layout_valid_64_8] show ?thesis
    by (auto simp: layout_class_64_8 layout_block_def split: option.splits)
qed

text \<open>
  C38. A request whose class is \<open>MAX_ORDER\<close> or more (more than half a MiB) is not answered with
  \<open>None\<close>: \<open>alloc\<close> panics with an index out of bounds on \<open>self.buddies[class]\<close>.
\<close>

theorem buddy_alloc_too_large:
  assumes "heap_free self F" "Layout_valid layout" "2 ^ 19 < unat (layout_size layout)"
  shows "BuddyAllocator_alloc self layout = Inl Index_Out_Of_Bounds"
proof -
  have "(2 :: nat) ^ 19 < 2 ^ layout_class layout"
    using assms(3) layout_class(4) [OF assms(2)] by (rule order.strict_trans2)
  then have "MAX_ORDER \<le> layout_class layout"
    using power_strict_increasing_iff [of "2 :: nat" 19 "layout_class layout"] by linarith
  with assms show ?thesis by (intro alloc_class_out_of_bounds)
qed

theorem buddy_alloc_too_large_witness:
  "BuddyAllocator_alloc (BuddyAllocator_new (\<lambda>_. None))
     \<lparr>layout_size = 0x80001, layout_align = 8\<rparr> = Inl Index_Out_Of_Bounds"
proof (rule buddy_alloc_too_large)
  show "heap_free (BuddyAllocator_new (\<lambda>_. None)) {}"
    using heap_rep_new [of "\<lambda>_. None"]
    by (auto simp: heap_free_def coalesced_def free_memory_def intro!: exI [of _ "\<lambda>_. []"])
  show "Layout_valid \<lparr>layout_size = 0x80001, layout_align = 8\<rparr>"
    by (auto simp: Layout_valid_def intro!: exI [of _ 3])
qed simp

text \<open>
  C6. \<open>GlobalAlloc::dealloc\<close> of an allocated block returns, keeps the heap consistent and its
  buddies merged, and gives the block back to the free memory, exactly, unless the merging
  completes an aligned block of 1 MiB: then this whole block disappears from the free memory.
\<close>

theorem buddy_dealloc_correct:
  assumes "heap_free self F" "Layout_valid layout" "layout_pointer layout p"
    and "layout_block layout p \<inter> F = {}"
  shows "\<exists>self' F'. GlobalAlloc_dealloc self p layout = Inr self' \<and> heap_free self' F' \<and>
     (F' = F \<union> layout_block layout p \<or>
      (\<exists>x. 2 ^ MAX_ORDER dvd unat x \<and> block MAX_ORDER x \<subseteq> F \<union> layout_block layout p \<and>
           F' = F \<union> layout_block layout p - block MAX_ORDER x))"
  using assms by (rule dealloc_heap_free)

theorem buddy_dealloc_correct_witness:
  "\<exists>self'. GlobalAlloc_dealloc (BuddyAllocator_new (\<lambda>_. None)) 0x1000
     \<lparr>layout_size = 64, layout_align = 8\<rparr> = Inr self' \<and> heap_free self' {4096 ..< 4160}"
proof -
  let ?l = "\<lparr>layout_size = 64, layout_align = 8\<rparr>"
  have "heap_free (BuddyAllocator_new (\<lambda>_. None)) {}"
    using heap_rep_new [of "\<lambda>_. None"]
    by (auto simp: heap_free_def coalesced_def free_memory_def intro!: exI [of _ "\<lambda>_. []"])
  moreover have "layout_pointer ?l 0x1000" "layout_block ?l 0x1000 = {4096 ..< 4160}"
    by (simp_all add: layout_pointer_def block_ok_def layout_block_def layout_class_64_8 block_def)
  moreover have "no_full_MiB {4096 ..< 4160}" using no_full_MiB_small [of 64 4096] by simp
  ultimately show ?thesis
    using buddy_dealloc_correct [of "BuddyAllocator_new (\<lambda>_. None)" "{}" ?l "0x1000"]
    by (auto simp: Layout_valid_64_8 no_full_MiB_def)
qed

text \<open>
  The memory lost: freeing one half of an aligned MiB while the other half is free leaves
  neither half free. (The code means to merge them; there is no list for the merged block.)
\<close>

theorem buddy_dealloc_leaks_full_MiB:
  assumes "heap_free self F" "Layout_valid layout" "layout_class layout = 19"
    and "layout_pointer layout p" "layout_block layout p \<inter> F = {}"
    and "block 19 (buddy_of 19 p) \<subseteq> F" "2 ^ 19 dvd unat (buddy_of 19 p)"
  shows "\<exists>self'. GlobalAlloc_dealloc self p layout = Inr self' \<and>
           heap_free self' (F - block 19 (buddy_of 19 p))"
  using dealloc_top_class [of self F layout p] assms by simp

lemma layout_512KiB:
  "Layout_valid \<lparr>layout_size = 0x80000, layout_align = 8\<rparr>"
  "layout_class \<lparr>layout_size = 0x80000, layout_align = 8\<rparr> = 19"
  by (auto simp: Layout_valid_def intro!: exI [of _ 3])
    (simp add: layout_class_def align_layout_size_def next_power_of_two_def bit_length.simps
      trailing_zeros_def count_trailing.simps max_def word_le_nat_alt)

theorem buddy_dealloc_leaks_full_MiB_witness:
  "\<exists>self self'. BuddyAllocator_init (BuddyAllocator_new (\<lambda>_. None)) 0x100000 0x80000 = Inr self \<and>
     GlobalAlloc_dealloc self 0x180000 \<lparr>layout_size = 0x80000, layout_align = 8\<rparr> = Inr self' \<and>
     heap_free self' {}"
proof -
  let ?l = "\<lparr>layout_size = 0x80000, layout_align = 8\<rparr>"
  obtain self where s: "BuddyAllocator_init (BuddyAllocator_new (\<lambda>_. None)) 0x100000 0x80000 = Inr self"
    "heap_free self {0x100000 ..< 0x180000}"
    using init_correct [of "0x100000" "0x80000" "\<lambda>_. None"] by auto
  have b: "buddy_of 19 0x180000 = 0x100000" by (simp add: buddy_of_def)
  have "\<exists>self'. GlobalAlloc_dealloc self 0x180000 ?l = Inr self' \<and>
      heap_free self' ({0x100000 ..< 0x180000} - block 19 (buddy_of 19 0x180000))"
    by (rule buddy_dealloc_leaks_full_MiB [OF s(2)])
      (simp_all add: layout_512KiB b block_def layout_pointer_def block_ok_def layout_block_def)
  with s(1) show ?thesis by (simp add: b block_def)
qed

text \<open>
  C3. The kernel's heap over its life. \<open>init\<close> on \<open>HEAP_START\<close> and \<open>HEAP_SIZE\<close> succeeds, and
  after any sequence of allocations, releases of live allocations and writes into live memory:
  no two live allocations overlap, no live allocation is free, live and free memory make up the
  whole heap (nothing is lost), every live pointer is aligned for its layout, and every live
  allocation can be released.
\<close>

theorem kernel_heap_safe:
  "\<exists>h0. BuddyAllocator_init (BuddyAllocator_new m) HEAP_START HEAP_SIZE = Inr h0 \<and>
     (\<forall>h live. heap_step\<^sup>*\<^sup>* (h0, []) (h, live) \<longrightarrow>
        heap_inv (h, live) \<and>
        (\<forall>p l. (p, l) \<in> set live \<longrightarrow> unat (layout_align l) dvd unat p \<and>
           (\<exists>h'. GlobalAlloc_dealloc h p l = Inr h')))"
proof -
  obtain h0 where h0: "BuddyAllocator_init (BuddyAllocator_new m) HEAP_START HEAP_SIZE = Inr h0"
    "heap_inv (h0, [])" using kernel_heap_init by blast
  have "heap_inv (h, live) \<and> (\<forall>p l. (p, l) \<in> set live \<longrightarrow> unat (layout_align l) dvd unat p \<and>
      (\<exists>h'. GlobalAlloc_dealloc h p l = Inr h'))"
    if "heap_step\<^sup>*\<^sup>* (h0, []) (h, live)" for h live
  proof -
    have inv: "heap_inv (h, live)" using that h0(2) by (rule kernel_heap.client_inv_reachable)
    then have "Layout_valid l \<and> layout_pointer l p" if "(p, l) \<in> set live" for p l
      using that by (elim client_invE) blast
    with inv layout_pointer_aligned(1) kernel_heap.dealloc_live [OF inv] show ?thesis by blast
  qed
  with h0(1) show ?thesis by blast
qed

theorem kernel_heap_safe_witness:
  "\<exists>h0. BuddyAllocator_init (BuddyAllocator_new (\<lambda>_. None)) HEAP_START HEAP_SIZE = Inr h0 \<and>
     heap_inv (h0, [])"
  using kernel_heap_safe [of "\<lambda>_. None"] by blast

text \<open>
  C21. Round trip: releasing a fresh allocation restores the free memory, on every heap without a
  full aligned MiB.
\<close>

theorem alloc_dealloc_roundtrip:
  assumes "heap_free h F" "no_full_MiB F" "Layout_valid l" "GlobalAlloc_alloc h l = Inr (p, h')"
  shows "\<exists>h''. GlobalAlloc_dealloc h' p l = Inr h'' \<and> heap_free h'' F"
proof -
  from GlobalAlloc_alloc_heap_free [OF assms(1,3,4)] obtain F' where F': "layout_pointer l p"
    "heap_free h' F'" "F = F' \<union> layout_block l p" "F' \<inter> layout_block l p = {}" by blast
  with GlobalAlloc_dealloc_heap_free [OF F'(2) assms(2) _ assms(3) F'(1)] show ?thesis by blast
qed

theorem alloc_dealloc_roundtrip_witness:
  "\<exists>h p h' h''. BuddyAllocator_init (BuddyAllocator_new (\<lambda>_. None)) 0x1000 256 = Inr h \<and>
     GlobalAlloc_alloc h \<lparr>layout_size = 64, layout_align = 8\<rparr> = Inr (p, h') \<and>
     GlobalAlloc_dealloc h' p \<lparr>layout_size = 64, layout_align = 8\<rparr> = Inr h'' \<and>
     heap_free h'' {4096 ..< 4352}"
proof -
  let ?l = "\<lparr>layout_size = 64, layout_align = 8\<rparr>"
  obtain h where h: "BuddyAllocator_init (BuddyAllocator_new (\<lambda>_. None)) 0x1000 256 = Inr h"
    "heap_free h {4096 ..< 4352}"
    using init_correct [of "0x1000" 256 "\<lambda>_. None"] by auto
  have "2 ^ layout_class ?l dvd unat (0x1000 :: u64)" "layout_block ?l 0x1000 \<subseteq> {4096 ..< 4352}"
    by (simp_all add: layout_class_64_8 layout_block_def block_def)
  with alloc_heap_free [OF h(2) Layout_valid_64_8] obtain p h' where
    p: "GlobalAlloc_alloc h ?l = Inr (p, h')"
    by (auto simp: layout_class_64_8 GlobalAlloc_alloc_def split: option.splits)
  moreover have "no_full_MiB {4096 ..< 4352}" using no_full_MiB_small [of 256 4096] by simp
  ultimately show ?thesis using alloc_dealloc_roundtrip [OF h(2) _ Layout_valid_64_8 p] h(1) by blast
qed

text \<open>
  C39. \<open>init\<close> of an empty allocator on a region whose bounds are multiples of 16 (the size of a
  chunk header), not at address 0 and not wrapping around, returns, and makes exactly the region free.
\<close>

theorem buddy_init_correct:
  assumes "start \<noteq> 0" "16 dvd unat start" "16 dvd unat sz" "unat start + unat sz < 2 ^ 64"
  shows "\<exists>self. BuddyAllocator_init (BuddyAllocator_new m) start sz = Inr self \<and>
           heap_free self {unat start ..< unat start + unat sz}"
  using assms by (rule init_correct)

theorem buddy_init_correct_witness:
  "\<exists>self. BuddyAllocator_init (BuddyAllocator_new (\<lambda>_. None)) 0x1010 0x70 = Inr self \<and>
     heap_free self {4112 ..< 4224}"
  using buddy_init_correct [of "0x1010" "0x70" "\<lambda>_. None"] by simp

end
