(* ===== verification/Segments.thy ===== *)
theory Segments
  imports Memory
begin

text \<open>
  Segmentation: privilege levels (\<open>x86_64/src/lib.rs\<close>), segment selectors, segment descriptors and
  the global descriptor table (\<open>x86_64/src/gdt.rs\<close>), the task state segment (\<open>x86_64/src/tss.rs\<close>),
  and the tables that stage 2, stage 3, stage 4 and the kernel build from them. The processor's
  reading of a descriptor is stated beside them, so that the bit fields written are compared with
  the bit fields the hardware reads.
\<close>

named_theorems segment_defs \<open>the constants of the segment descriptors\<close>

section \<open>Privilege levels and selectors\<close>

datatype PrivilegeLevel = Ring0 | Ring1 | Ring2 | Ring3

fun PrivilegeLevel_as_u16 :: "PrivilegeLevel \<Rightarrow> u16" where
  "PrivilegeLevel_as_u16 Ring0 = 0"
| "PrivilegeLevel_as_u16 Ring1 = 1"
| "PrivilegeLevel_as_u16 Ring2 = 2"
| "PrivilegeLevel_as_u16 Ring3 = 3"

definition PrivilegeLevel_from :: "u8 \<Rightarrow> PrivilegeLevel res" where
  "PrivilegeLevel_from v =
     (if v = 0 then Inr Ring0 else if v = 1 then Inr Ring1 else if v = 2 then Inr Ring2
      else if v = 3 then Inr Ring3 else Inl Explicit_Panic)"

type_synonym SegmentSelector = u16

definition SegmentSelector_new :: "u16 \<Rightarrow> PrivilegeLevel \<Rightarrow> SegmentSelector" where
  "SegmentSelector_new idx rpl = push_bit 3 idx OR PrivilegeLevel_as_u16 rpl"

section \<open>Segment descriptors\<close>

datatype SystemSegmentType = LDT | TssAvailable | TssBusy

fun SystemSegmentType_as_u64 :: "SystemSegmentType \<Rightarrow> u64" where
  "SystemSegmentType_as_u64 LDT = 0x2"
| "SystemSegmentType_as_u64 TssAvailable = 0x9"
| "SystemSegmentType_as_u64 TssBusy = 0xB"

type_synonym SegmentDescriptorFlags = u64

definition SEG_ACCESSED :: SegmentDescriptorFlags where [segment_defs]: "SEG_ACCESSED = push_bit 40 1"
definition SEG_READ_WRITE :: SegmentDescriptorFlags where [segment_defs]: "SEG_READ_WRITE = push_bit 41 1"
definition SEG_CONFORMING :: SegmentDescriptorFlags where [segment_defs]: "SEG_CONFORMING = push_bit 42 1"
definition SEG_EXECUTABLE :: SegmentDescriptorFlags where [segment_defs]: "SEG_EXECUTABLE = push_bit 43 1"
definition SEG_USER_SEGMENT :: SegmentDescriptorFlags where [segment_defs]: "SEG_USER_SEGMENT = push_bit 44 1"
definition SEG_PRESENT :: SegmentDescriptorFlags where [segment_defs]: "SEG_PRESENT = push_bit 47 1"
definition SEG_LONG_MODE :: SegmentDescriptorFlags where [segment_defs]: "SEG_LONG_MODE = push_bit 53 1"
definition SEG_PROTECTED_MODE :: SegmentDescriptorFlags where [segment_defs]: "SEG_PROTECTED_MODE = push_bit 54 1"
definition SEG_GRANULARITY :: SegmentDescriptorFlags where [segment_defs]: "SEG_GRANULARITY = push_bit 55 1"

datatype SegmentDescriptor = UserSegment u64 | SystemSegment u64 u64

definition SegmentDescriptor_new_user ::
    "crates \<Rightarrow> SegmentDescriptorFlags \<Rightarrow> u32 \<Rightarrow> u32 \<Rightarrow> SegmentDescriptor res" where
  "SegmentDescriptor_new_user C flags limit base =
     (let limit_low = limit AND 0xFFFF;
          limit_high = drop_bit 16 limit AND 0xF;
          base_low = base AND 0xFFFFFF;
          base_high = drop_bit 24 base AND 0xFF
      in rbind (if base \<noteq> 0
           then rbind (set_bits C flags 16 40 (ucast base_low)) (\<lambda>d. set_bits C d 56 64 (ucast base_high))
           else Inr flags) (\<lambda>desc.
         rbind (set_bits C desc 0 16 (ucast limit_low)) (\<lambda>desc.
         rbind (set_bits C desc 48 52 (ucast limit_high)) (\<lambda>desc. Inr (UserSegment desc)))))"

text \<open>\<open>size_of::<TaskStateSegment>()\<close>: the structure is packed to four bytes.\<close>

definition TaskStateSegment_size :: u64 where
  "TaskStateSegment_size = 4 + 3 * 8 + 8 + 7 * 8 + 8 + 2 + 2"

definition SegmentDescriptor_new_tss_segment :: "crates \<Rightarrow> u64 \<Rightarrow> SegmentDescriptor res" where
  "SegmentDescriptor_new_tss_segment C ptr =
     rbind (set_bits C SEG_PRESENT 16 40 (get_bits C ptr 0 24)) (\<lambda>low.
     rbind (set_bits C low 56 64 (get_bits C ptr 24 32)) (\<lambda>low.
     rbind (set_bits C 0 0 32 (get_bits C ptr 32 64)) (\<lambda>high.
     rbind (op_sub TaskStateSegment_size 1) (\<lambda>limit.
     rbind (set_bits C low 0 16 limit) (\<lambda>low.
     rbind (set_bits C low 40 44 (SystemSegmentType_as_u64 TssAvailable)) (\<lambda>low.
     Inr (SystemSegment low high)))))))"

definition flags_unions :: "crates \<Rightarrow> u64 list \<Rightarrow> u64" where
  "flags_unions C fs = foldl (flags_union C) (hd fs) (tl fs)"

definition protected_mode_code_segment :: "crates \<Rightarrow> SegmentDescriptor res" where
  "protected_mode_code_segment C =
     SegmentDescriptor_new_user C
       (flags_unions C [SEG_READ_WRITE, SEG_EXECUTABLE, SEG_PRESENT, SEG_USER_SEGMENT,
          SEG_PROTECTED_MODE, SEG_GRANULARITY, SEG_ACCESSED]) 0xFFFFF 0"

definition protected_mode_data_segment :: "crates \<Rightarrow> SegmentDescriptor res" where
  "protected_mode_data_segment C =
     SegmentDescriptor_new_user C
       (flags_unions C [SEG_READ_WRITE, SEG_PRESENT, SEG_USER_SEGMENT, SEG_PROTECTED_MODE,
          SEG_GRANULARITY, SEG_ACCESSED]) 0xFFFFF 0"

definition long_mode_code_segment :: "crates \<Rightarrow> SegmentDescriptor res" where
  "long_mode_code_segment C =
     SegmentDescriptor_new_user C
       (flags_unions C [SEG_READ_WRITE, SEG_EXECUTABLE, SEG_PRESENT, SEG_USER_SEGMENT, SEG_LONG_MODE,
          SEG_ACCESSED, SEG_GRANULARITY]) 0 0"

definition long_mode_data_segment :: "crates \<Rightarrow> SegmentDescriptor res" where
  "long_mode_data_segment C =
     SegmentDescriptor_new_user C
       (flags_unions C [SEG_READ_WRITE, SEG_PRESENT, SEG_USER_SEGMENT, SEG_ACCESSED, SEG_GRANULARITY]) 0 0"

definition kernel_code_segment :: "crates \<Rightarrow> SegmentDescriptor res" where
  "kernel_code_segment C = long_mode_code_segment C"

definition kernel_data_segment :: "crates \<Rightarrow> SegmentDescriptor res" where
  "kernel_data_segment C = long_mode_data_segment C"

fun SegmentDescriptor_value_low :: "SegmentDescriptor \<Rightarrow> u64" where
  "SegmentDescriptor_value_low (UserSegment v) = v"
| "SegmentDescriptor_value_low (SystemSegment v _) = v"

definition descriptor_privilege_level :: "SegmentDescriptor \<Rightarrow> PrivilegeLevel res" where
  "descriptor_privilege_level self =
     (let dpl = drop_bit 45 (SegmentDescriptor_value_low self) AND 3 in PrivilegeLevel_from (ucast dpl))"

section \<open>The global descriptor table\<close>

definition GLOBAL_DESCRIPTOR_TABLE_ENTRY_COUNT :: nat where
  "GLOBAL_DESCRIPTOR_TABLE_ENTRY_COUNT = 8"

record GlobalDescriptorTable =
  gdt_entries :: "u64 list"
  gdt_size :: nat

definition GlobalDescriptorTable_new :: GlobalDescriptorTable where
  "GlobalDescriptorTable_new =
     \<lparr>gdt_entries = replicate GLOBAL_DESCRIPTOR_TABLE_ENTRY_COUNT 0, gdt_size = 1\<rparr>"

definition GlobalDescriptorTable_push ::
    "GlobalDescriptorTable \<Rightarrow> u64 \<Rightarrow> (nat \<times> GlobalDescriptorTable) res" where
  "GlobalDescriptorTable_push self val =
     (if gdt_size self < length (gdt_entries self)
      then rbind (index_set (gdt_entries self) (gdt_size self) val) (\<lambda>es.
           Inr (gdt_size self, self\<lparr>gdt_entries := es, gdt_size := gdt_size self + 1\<rparr>))
      else Inl Explicit_Panic)"

definition GlobalDescriptorTable_add_entry ::
    "GlobalDescriptorTable \<Rightarrow> SegmentDescriptor \<Rightarrow> (SegmentSelector \<times> GlobalDescriptorTable) res" where
  "GlobalDescriptorTable_add_entry self entry =
     rbind (case entry of
         UserSegment val \<Rightarrow> GlobalDescriptorTable_push self val
       | SystemSegment low high \<Rightarrow>
           rbind (GlobalDescriptorTable_push self low) (\<lambda>(idx, self).
           rbind (GlobalDescriptorTable_push self high) (\<lambda>(_, self). Inr (idx, self)))) (\<lambda>(idx, self).
     rbind (descriptor_privilege_level entry) (\<lambda>rpl.
     Inr (SegmentSelector_new (of_nat idx) rpl, self)))"

text \<open>The operand of \<open>lgdt\<close>: the limit (the table's size in bytes minus one) and the base.\<close>

definition GlobalDescriptorTableDescriptor_new :: "GlobalDescriptorTable \<Rightarrow> u64 \<Rightarrow> u16 \<times> u64" where
  "GlobalDescriptorTableDescriptor_new table address = (of_nat (gdt_size table * 8 - 1), address)"

section \<open>The task state segment\<close>

definition DOUBLE_FAULT_IST_IDX :: nat where "DOUBLE_FAULT_IST_IDX = 0"

record TaskStateSegment =
  privilege_stack_table :: "VirtualAddress list"
  interrupt_stack_table :: "VirtualAddress list"
  iomap_base :: u16

definition TaskStateSegment_new :: TaskStateSegment where
  "TaskStateSegment_new =
     \<lparr>privilege_stack_table = replicate 3 0, interrupt_stack_table = replicate 7 0,
      iomap_base = ucast TaskStateSegment_size\<rparr>"

text \<open>The kernel's \<open>TSS\<close>, given the address of the static double fault stack of five pages.\<close>

definition STACK_SIZE :: u64 where "STACK_SIZE = SIZE Size4KiB * 5"

definition kernel_TSS :: "VirtualAddress \<Rightarrow> TaskStateSegment res" where
  "kernel_TSS stack_start =
     rbind (VirtualAddress_add stack_start STACK_SIZE) (\<lambda>stack_end.
     rbind (index_set (interrupt_stack_table TaskStateSegment_new) DOUBLE_FAULT_IST_IDX stack_end) (\<lambda>ist.
     Inr (TaskStateSegment_new\<lparr>interrupt_stack_table := ist\<rparr>)))"

section \<open>The tables of the boot stages and of the kernel\<close>

text \<open>A code segment and a data segment after the null descriptor (stages 2, 3 and 4).\<close>

definition two_segment_gdt :: "SegmentDescriptor res \<Rightarrow> SegmentDescriptor res \<Rightarrow> GlobalDescriptorTable res" where
  "two_segment_gdt code data =
     rbind code (\<lambda>c. rbind (GlobalDescriptorTable_add_entry GlobalDescriptorTable_new c) (\<lambda>(_, gdt).
     rbind data (\<lambda>d. rbind (GlobalDescriptorTable_add_entry gdt d) (\<lambda>(_, gdt). Inr gdt))))"

definition stage2_GDT :: "crates \<Rightarrow> GlobalDescriptorTable res" where
  "stage2_GDT C = two_segment_gdt (protected_mode_code_segment C) (protected_mode_data_segment C)"

definition stage3_GDT :: "crates \<Rightarrow> GlobalDescriptorTable res" where
  "stage3_GDT C = two_segment_gdt (long_mode_code_segment C) (long_mode_data_segment C)"

definition stage4_GDT :: "crates \<Rightarrow> GlobalDescriptorTable res" where
  "stage4_GDT C = two_segment_gdt (kernel_code_segment C) (kernel_data_segment C)"

text \<open>The kernel's \<open>GDT\<close>: the table and the selectors of the TSS, the code and the data segment.\<close>

definition kernel_GDT ::
    "crates \<Rightarrow> u64 \<Rightarrow> (GlobalDescriptorTable \<times> SegmentSelector \<times> SegmentSelector \<times> SegmentSelector) res" where
  "kernel_GDT C tss_ptr =
     rbind (SegmentDescriptor_new_tss_segment C tss_ptr) (\<lambda>t.
     rbind (GlobalDescriptorTable_add_entry GlobalDescriptorTable_new t) (\<lambda>(tss_selector, gdt).
     rbind (kernel_code_segment C) (\<lambda>c.
     rbind (GlobalDescriptorTable_add_entry gdt c) (\<lambda>(kernel_code_selector, gdt).
     rbind (kernel_data_segment C) (\<lambda>d.
     rbind (GlobalDescriptorTable_add_entry gdt d) (\<lambda>(kernel_data_selector, gdt).
     Inr (gdt, tss_selector, kernel_code_selector, kernel_data_selector)))))))"

section \<open>What the processor reads\<close>

definition descriptor_base :: "u64 \<Rightarrow> u32" where
  "descriptor_base d = ucast (take_bit 24 (drop_bit 16 d)) OR push_bit 24 (ucast (drop_bit 56 d))"

definition descriptor_limit :: "u64 \<Rightarrow> u32" where
  "descriptor_limit d = ucast (take_bit 16 d) OR push_bit 16 (ucast (take_bit 4 (drop_bit 48 d)))"

text \<open>The access byte and the four flag bits: everything but base and limit.\<close>

definition descriptor_flags_mask :: u64 where
  "descriptor_flags_mask = 0x00F0FF0000000000"

definition descriptor_type :: "u64 \<Rightarrow> u64" where
  "descriptor_type d = take_bit 4 (drop_bit 40 d)"

definition tss_base :: "u64 \<Rightarrow> u64 \<Rightarrow> u64" where
  "tss_base low high = ucast (descriptor_base low) OR push_bit 32 high"

text \<open>The descriptor a selector selects: its index counts eight-byte entries.\<close>

definition selector_index :: "SegmentSelector \<Rightarrow> nat" where
  "selector_index s = unat (drop_bit 3 s)"

definition selector_rpl :: "SegmentSelector \<Rightarrow> u16" where
  "selector_rpl s = take_bit 2 s"


section \<open>Bit fields\<close>

lemma field_masks:
  "(0xFFFF :: u32) = mask 16" "(0xFFFFFF :: u32) = mask 24" "(0xF :: u32) = mask 4" "(0xFF :: u32) = mask 8"
  "(3 :: u64) = mask 2"
  by (simp_all add: mask_eq_exp_minus_1)

definition put :: "nat \<Rightarrow> nat \<Rightarrow> u64 \<Rightarrow> u64 \<Rightarrow> u64" where
  "put lo n v w = (w AND NOT (push_bit lo (mask n))) OR push_bit lo (take_bit n v)"

lemma bit_put [bit_simps]:
  "bit (put lo n v w) i \<longleftrightarrow> (if i < 64 \<and> lo \<le> i \<and> i < lo + n then bit v (i - lo) else bit w i)"
  by (auto simp: put_def bit_simps dest: bit_imp_le_length)

lemma set_bits_put:
  "crates_ok C \<Longrightarrow> lo < hi \<Longrightarrow> hi \<le> 64 \<Longrightarrow> take_bit (hi - lo) v = v \<Longrightarrow>
   set_bits C w lo hi v = Inr (put lo (hi - lo) v w)"
  by (simp add: set_bits_okD put_def)

lemma take_bit_ucast_masked: "take_bit n (ucast (v AND mask n) :: 'b::len word) = ucast (v AND mask n :: 'a::len word)"
  by (rule bit_word_eqI) (auto simp: bit_simps)

lemma new_user_eq:
  assumes "crates_ok C"
  shows "SegmentDescriptor_new_user C flags limit base = Inr (UserSegment
    (put 48 4 (ucast (drop_bit 16 limit)) (put 0 16 (ucast limit)
       (if base = 0 then flags else put 56 8 (ucast (drop_bit 24 base)) (put 16 24 (ucast base) flags)))))"
proof -
  have p: "put lo n (ucast (v AND mask n)) w = put lo n (ucast v) w" for lo n w and v :: u32
    by (rule bit_word_eqI) (auto simp: bit_simps dest: bit_imp_le_length)
  show ?thesis
    by (simp add: SegmentDescriptor_new_user_def Let_def field_masks set_bits_put [OF assms]
        take_bit_ucast_masked p)
qed

lemma new_tss_eq:
  assumes "crates_ok C"
  shows "SegmentDescriptor_new_tss_segment C ptr = Inr (SystemSegment
    (put 40 4 9 (put 0 16 103 (put 56 8 (drop_bit 24 ptr) (put 16 24 ptr SEG_PRESENT))))
    (put 0 32 (drop_bit 32 ptr) 0))"
proof -
  have "put lo n (take_bit n v) w = put lo n v w" for lo n v w
    by (simp add: put_def)
  then show ?thesis
    by (simp add: SegmentDescriptor_new_tss_segment_def set_bits_put [OF assms] crates_okD(1) [OF assms]
        TaskStateSegment_size_def op_sub_def)
qed


lemma flags_unions_eq: "crates_ok C \<Longrightarrow> flags_unions C fs = foldl (OR) (hd fs) (tl fs)"
proof -
  assume "crates_ok C"
  then have "flags_union C = (OR)" by (intro ext) (rule crates_okD(2))
  then show ?thesis by (simp add: flags_unions_def)
qed

lemma segment_values:
  assumes "crates_ok C"
  shows "protected_mode_code_segment C = Inr (UserSegment 0x00CF9B000000FFFF)"
    and "protected_mode_data_segment C = Inr (UserSegment 0x00CF93000000FFFF)"
    and "long_mode_code_segment C = Inr (UserSegment 0x00A09B0000000000)"
    and "long_mode_data_segment C = Inr (UserSegment 0x0080930000000000)"
  by (simp_all add: protected_mode_code_segment_def protected_mode_data_segment_def
      long_mode_code_segment_def long_mode_data_segment_def new_user_eq [OF assms]
      flags_unions_eq [OF assms] segment_defs put_def mask_eq_exp_minus_1)

section \<open>Properties\<close>

text \<open>
  \<open>new_user\<close> builds the descriptor that the processor reads as it was asked for: for flags that
  lie in the access byte and the flag nibble, the base field is the base, the limit field holds
  the low 20 bits of the limit, and the flags are the flags.
\<close>

theorem new_user_roundtrip:
  assumes "crates_ok C" "flags AND descriptor_flags_mask = flags"
  shows "\<exists>d. SegmentDescriptor_new_user C flags limit base = Inr (UserSegment d) \<and>
     descriptor_base d = base \<and> descriptor_limit d = take_bit 20 limit \<and>
     d AND descriptor_flags_mask = flags"
proof -
  have m: "descriptor_flags_mask = push_bit 40 (mask 8) OR push_bit 52 (mask 4)"
    by (simp add: descriptor_flags_mask_def mask_eq_exp_minus_1)
  have f: "bit flags i \<longleftrightarrow> bit flags i \<and> (40 \<le> i \<and> i < 48 \<or> 52 \<le> i \<and> i < 56)" for i
    by (subst assms(2) [symmetric]) (auto simp: m bit_simps)
  define d where "d = put 48 4 (ucast (drop_bit 16 limit)) (put 0 16 (ucast limit)
       (if base = 0 then flags else put 56 8 (ucast (drop_bit 24 base)) (put 16 24 (ucast base) flags)))"
  have b: "bit d i \<longleftrightarrow> (if i < 16 then bit limit i else if i < 40 then bit base (i - 16) else if i < 48 then bit flags i
      else if i < 52 then bit limit (i - 32) else if i < 56 then bit flags i
      else i < 64 \<and> bit base (i - 32))" for i
    using f [of i] unfolding d_def by (auto simp: bit_simps dest: bit_imp_le_length)
  have "descriptor_base d = base"
    by (rule bit_word_eqI) (auto simp: descriptor_base_def bit_simps b)
  moreover have "descriptor_limit d = take_bit 20 limit"
    by (rule bit_word_eqI) (auto simp: descriptor_limit_def bit_simps b)
  moreover have "d AND descriptor_flags_mask = flags"
  proof (rule bit_word_eqI)
    show "bit (d AND descriptor_flags_mask) i = bit flags i" if "i < LENGTH(64)" for i
      using f [of i] by (auto simp: bit_simps b m)
  qed
  moreover have "SegmentDescriptor_new_user C flags limit base = Inr (UserSegment d)"
    by (simp add: new_user_eq [OF assms(1)] d_def)
  ultimately show ?thesis by blast
qed

theorem new_user_roundtrip_witness:
  "\<exists>d. SegmentDescriptor_new_user reference_crates SEG_PRESENT 0xFFFFF 0x12345678 = Inr (UserSegment d) \<and>
     descriptor_base d = 0x12345678 \<and> descriptor_limit d = 0xFFFFF"
  using new_user_roundtrip [OF reference_crates_ok, of SEG_PRESENT "0xFFFFF" "0x12345678"]
  by (auto simp: SEG_PRESENT_def descriptor_flags_mask_def)

lemma bit_SEG_PRESENT: "bit SEG_PRESENT i \<longleftrightarrow> i = 47"
proof -
  have "SEG_PRESENT = 2 ^ 47" by (simp add: SEG_PRESENT_def)
  then show ?thesis unfolding \<open>SEG_PRESENT = 2 ^ 47\<close> bit_exp_iff by (auto simp: possible_bit_def)
qed

lemma new_tss_values:
  assumes "crates_ok C"
  shows "\<exists>low high. SegmentDescriptor_new_tss_segment C ptr = Inr (SystemSegment low high) \<and>
     tss_base low high = ptr \<and> descriptor_limit low = 103 \<and> descriptor_type low = 9 \<and> bit low 47 \<and>
     \<not> bit low 44 \<and> descriptor_privilege_level (SystemSegment low high) = Inr Ring0"
proof -
  define low where "low = put 40 4 9 (put 0 16 103 (put 56 8 (drop_bit 24 ptr) (put 16 24 ptr SEG_PRESENT)))"
  define high where "high = put 0 32 (drop_bit 32 ptr) 0"
  have b: "bit low i \<longleftrightarrow> (if i < 16 then bit (103 :: u64) i else if i < 40 then bit ptr (i - 16)
      else if i < 44 then bit (9 :: u64) (i - 40) else if i < 56 then i = 47 else i < 64 \<and> bit ptr (i - 32))" for i
    unfolding low_def using bit_SEG_PRESENT by (auto simp: bit_simps)
  have h: "bit high i \<longleftrightarrow> i < 32 \<and> bit ptr (i + 32)" for i
    unfolding high_def by (auto simp: bit_simps add.commute)
  have "tss_base low high = ptr"
  proof (rule bit_word_eqI)
    show "bit (tss_base low high) i = bit ptr i" if "i < LENGTH(64)" for i
      using that by (cases "i < 32") (auto simp: tss_base_def descriptor_base_def bit_simps b h)
  qed
  moreover have "take_bit 16 low = take_bit 16 103"
    by (rule bit_word_eqI) (auto simp only: bit_take_bit_iff b if_True)
  moreover have "take_bit 4 (drop_bit 48 low) = 0"
    by (rule bit_word_eqI) (auto simp: bit_simps b)
  moreover have "take_bit 4 (drop_bit 40 low) = take_bit 4 9"
  proof (rule bit_word_eqI)
    show "bit (take_bit 4 (drop_bit 40 low)) i = bit (take_bit 4 (9 :: u64)) i" for i
      using b [of "40 + i"] by (auto simp only: bit_take_bit_iff bit_drop_bit_eq o_apply if_False split: if_splits) auto
  qed
  moreover have "drop_bit 45 low AND 3 = 0"
    by (rule bit_word_eqI) (auto simp: field_masks bit_simps b)
  ultimately show ?thesis using b [of 47] b [of 44]
    by (simp add: new_tss_eq [OF assms] low_def [symmetric] high_def [symmetric] descriptor_privilege_level_def
        PrivilegeLevel_from_def descriptor_limit_def descriptor_type_def)
qed

text \<open>
  \<open>new_tss_segment\<close> describes the task state segment it is given: an available 64-bit TSS of ring 0,
  present, with the 64-bit base address split over the two words and a limit of 103 (its 104 bytes).
\<close>

theorem new_tss_segment_fields:
  assumes "crates_ok C"
  shows "\<exists>low high. SegmentDescriptor_new_tss_segment C ptr = Inr (SystemSegment low high) \<and>
     tss_base low high = ptr \<and> descriptor_limit low = 103 \<and> descriptor_type low = 9 \<and> bit low 47 \<and>
     \<not> bit low 44 \<and> descriptor_privilege_level (SystemSegment low high) = Inr Ring0"
  using assms by (rule new_tss_values)

theorem new_tss_segment_fields_witness:
  "\<exists>low high. SegmentDescriptor_new_tss_segment reference_crates 0xFFFF800012345678 = Inr (SystemSegment low high) \<and>
     tss_base low high = 0xFFFF800012345678"
  using new_tss_segment_fields [OF reference_crates_ok, of "0xFFFF800012345678"] by blast


definition gdt_ok :: "GlobalDescriptorTable \<Rightarrow> bool" where
  "gdt_ok g \<longleftrightarrow> length (gdt_entries g) = GLOBAL_DESCRIPTOR_TABLE_ENTRY_COUNT \<and> 1 \<le> gdt_size g \<and>
     gdt_size g \<le> length (gdt_entries g) \<and> gdt_entries g ! 0 = 0"

fun descriptor_words :: "SegmentDescriptor \<Rightarrow> u64 list" where
  "descriptor_words (UserSegment v) = [v]"
| "descriptor_words (SystemSegment low high) = [low, high]"

lemma selector_fields:
  assumes "idx < 8"
  shows "selector_index (SegmentSelector_new (of_nat idx) rpl) = idx"
    and "selector_rpl (SegmentSelector_new (of_nat idx) rpl) = PrivilegeLevel_as_u16 rpl"
proof -
  have "idx \<in> {0, 1, 2, 3, 4, 5, 6, 7}" using assms by auto
  then show "selector_index (SegmentSelector_new (of_nat idx) rpl) = idx"
    "selector_rpl (SegmentSelector_new (of_nat idx) rpl) = PrivilegeLevel_as_u16 rpl"
    by (cases rpl; auto simp: selector_index_def selector_rpl_def SegmentSelector_new_def)+
qed

lemma PrivilegeLevel_from_two_bits: "\<exists>rpl. PrivilegeLevel_from (ucast (w AND 3 :: u64)) = Inr rpl \<and>
    PrivilegeLevel_as_u16 rpl = ucast (w AND 3)"
proof -
  have "unat (w AND 3) < 4" using unat_and_mask [of w 2] by (simp add: field_masks)
  then have "unat (w AND 3) \<in> {0, 1, 2, 3}" by auto
  then have "w AND 3 \<in> {0, 1, 2, 3}" by (auto simp: word_unat_eq_iff)
  then show ?thesis by (auto simp: PrivilegeLevel_from_def)
qed

lemma gdt_push:
  assumes "gdt_ok g"
  shows "GlobalDescriptorTable_push g v =
    (if gdt_size g < 8 then Inr (gdt_size g, g\<lparr>gdt_entries := (gdt_entries g)[gdt_size g := v], gdt_size := Suc (gdt_size g)\<rparr>)
     else Inl Explicit_Panic)"
  using assms by (simp add: GlobalDescriptorTable_push_def gdt_ok_def GLOBAL_DESCRIPTOR_TABLE_ENTRY_COUNT_def)

lemma gdt_ok_push:
  "gdt_ok g \<Longrightarrow> gdt_size g < 8 \<Longrightarrow>
   gdt_ok (g\<lparr>gdt_entries := (gdt_entries g)[gdt_size g := v], gdt_size := Suc (gdt_size g)\<rparr>)"
  by (auto simp: gdt_ok_def GLOBAL_DESCRIPTOR_TABLE_ENTRY_COUNT_def nth_list_update)

text \<open>
  \<open>add_entry\<close>: a user descriptor takes the next free entry, a system descriptor the next two, the
  entries before it stay, and the selector returned carries the index of the entry and the
  privilege level of the descriptor; when there is not enough room it panics.
\<close>

theorem gdt_add_entry:
  assumes "gdt_ok g"
  shows "if gdt_size g + length (descriptor_words entry) \<le> 8
     then \<exists>s g'. GlobalDescriptorTable_add_entry g entry = Inr (s, g') \<and> gdt_ok g' \<and>
        selector_index s = gdt_size g \<and> selector_rpl s = ucast (drop_bit 45 (SegmentDescriptor_value_low entry) AND 3) \<and>
        take (gdt_size g') (gdt_entries g') = take (gdt_size g) (gdt_entries g) @ descriptor_words entry
     else GlobalDescriptorTable_add_entry g entry = Inl Explicit_Panic"
proof -
  obtain rpl where rpl: "descriptor_privilege_level entry = Inr rpl"
    "PrivilegeLevel_as_u16 rpl = ucast (drop_bit 45 (SegmentDescriptor_value_low entry) AND 3)"
    using PrivilegeLevel_from_two_bits [of "drop_bit 45 (SegmentDescriptor_value_low entry)"]
    by (auto simp: descriptor_privilege_level_def)
  have len: "length (gdt_entries g) = 8" using assms by (simp add: gdt_ok_def GLOBAL_DESCRIPTOR_TABLE_ENTRY_COUNT_def)
  show ?thesis
  proof (cases entry)
    case (UserSegment v)
    then show ?thesis
      using rpl len gdt_ok_push [OF assms, of v]
      by (auto simp: GlobalDescriptorTable_add_entry_def gdt_push [OF assms] selector_fields take_Suc_conv_app_nth)
  next
    case (SystemSegment low high)
    show ?thesis
    proof (cases "gdt_size g < 8")
      case True
      note ok = gdt_ok_push [OF assms True, of low]
      show ?thesis
        using SystemSegment rpl len ok gdt_ok_push [OF ok, of high] True
        by (auto simp: GlobalDescriptorTable_add_entry_def gdt_push [OF assms] gdt_push [OF ok] selector_fields
            take_Suc_conv_app_nth)
    next
      case False
      then show ?thesis by (simp add: SystemSegment GlobalDescriptorTable_add_entry_def gdt_push [OF assms])
    qed
  qed
qed

theorem gdt_add_entry_witness:
  "\<exists>s g'. GlobalDescriptorTable_add_entry GlobalDescriptorTable_new (UserSegment 0) = Inr (s, g') \<and> selector_index s = 1"
  using gdt_add_entry [of GlobalDescriptorTable_new "UserSegment 0"]
  by (auto simp: gdt_ok_def GlobalDescriptorTable_new_def GLOBAL_DESCRIPTOR_TABLE_ENTRY_COUNT_def)

lemma segment_privilege:
  "v \<in> {0x00CF9B000000FFFF, 0x00CF93000000FFFF, 0x00A09B0000000000, 0x0080930000000000} \<Longrightarrow>
     descriptor_privilege_level (UserSegment v) = Inr Ring0"
  by (auto simp: descriptor_privilege_level_def PrivilegeLevel_from_def)

lemmas add_entry_defs = GlobalDescriptorTable_add_entry_def GlobalDescriptorTable_push_def GlobalDescriptorTable_new_def
  GLOBAL_DESCRIPTOR_TABLE_ENTRY_COUNT_def SegmentSelector_new_def eval_nat_numeral

text \<open>The two words of the descriptor of a task state segment, as numbers.\<close>

lemma new_tss_words:
  assumes "crates_ok C"
  shows "SegmentDescriptor_new_tss_segment C ptr = Inr (SystemSegment
     (0x0000890000000067 OR push_bit 16 (take_bit 24 ptr) OR push_bit 56 (take_bit 8 (drop_bit 24 ptr))) (drop_bit 32 ptr))"
proof -
  have k: "(0x0000890000000067 :: u64) = take_bit 16 103 OR push_bit 40 (take_bit 4 9) OR SEG_PRESENT"
    by (simp add: SEG_PRESENT_def)
  have "put 40 4 9 (put 0 16 103 (put 56 8 (drop_bit 24 ptr) (put 16 24 ptr SEG_PRESENT))) =
      0x0000890000000067 OR push_bit 16 (take_bit 24 ptr) OR push_bit 56 (take_bit 8 (drop_bit 24 ptr))"
    unfolding k
  proof (rule bit_word_eqI)
    fix i assume "i < LENGTH(64)"
    then show "bit (put 40 4 9 (put 0 16 103 (put 56 8 (drop_bit 24 ptr) (put 16 24 ptr SEG_PRESENT)))) i =
        bit ((take_bit 16 103 OR push_bit 40 (take_bit 4 9) OR SEG_PRESENT) OR push_bit 16 (take_bit 24 ptr) OR push_bit 56 (take_bit 8 (drop_bit 24 ptr)) :: u64) i"
      unfolding bit_put bit_or_iff bit_push_bit_iff bit_take_bit_iff bit_drop_bit_eq o_apply bit_SEG_PRESENT
      by (auto simp: possible_bit_def)
  qed
  moreover have "put 0 32 (drop_bit 32 ptr) 0 = drop_bit 32 ptr"
    by (rule bit_word_eqI) (auto simp: bit_simps dest: bit_imp_le_length)
  ultimately show ?thesis by (simp only: new_tss_eq [OF assms])
qed

lemma kernel_GDT_values:
  assumes "crates_ok C"
  shows "\<exists>g low high. kernel_GDT C tss_ptr = Inr (g, 0x08, 0x18, 0x20) \<and>
      take (gdt_size g) (gdt_entries g) = [0, low, high, 0x00A09B0000000000, 0x0080930000000000] \<and>
      low = 0x0000890000000067 OR push_bit 16 (take_bit 24 tss_ptr) OR push_bit 56 (take_bit 8 (drop_bit 24 tss_ptr)) \<and>
      high = drop_bit 32 tss_ptr \<and> tss_base low high = tss_ptr \<and> descriptor_limit low = 103 \<and> descriptor_type low = 9 \<and>
      bit low 47 \<and> (\<forall>a. GlobalDescriptorTableDescriptor_new g a = (39, a))"
proof -
  obtain low high where t: "SegmentDescriptor_new_tss_segment C tss_ptr = Inr (SystemSegment low high)"
    "tss_base low high = tss_ptr" "descriptor_limit low = 103" "descriptor_type low = 9" "bit low 47"
    "descriptor_privilege_level (SystemSegment low high) = Inr Ring0"
    using new_tss_values [OF assms, of tss_ptr] by blast
  have w: "low = 0x0000890000000067 OR push_bit 16 (take_bit 24 tss_ptr) OR push_bit 56 (take_bit 8 (drop_bit 24 tss_ptr))" "high = drop_bit 32 tss_ptr"
    using t(1) unfolding new_tss_words [OF assms] by simp_all
  have "\<exists>g. kernel_GDT C tss_ptr = Inr (g, 0x08, 0x18, 0x20) \<and>
      take (gdt_size g) (gdt_entries g) = [0, low, high, 0x00A09B0000000000, 0x0080930000000000] \<and>
      (\<forall>a. GlobalDescriptorTableDescriptor_new g a = (39, a))"
    using t(1,6)
    by (simp add: kernel_GDT_def kernel_code_segment_def kernel_data_segment_def segment_values [OF assms] segment_privilege
        add_entry_defs GlobalDescriptorTableDescriptor_new_def)
  with w t(2-5) show ?thesis by blast
qed

text \<open>
  C31. The tables the system runs on, word by word. In the boot stages selector 0x08 is a present code segment of the
  mode the stage enters (32-bit with the full 4 GiB limit in stage 2, 64-bit in stages 3 and 4) and
  0x10 a present writable data segment, which are the selectors the far jumps and the segment loads
  use. In the kernel the TSS, the code and the data segment are 0x08, 0x18 and 0x20; the two words of the TSS hold
  what the processor reads as a present, available 64-bit TSS of privilege level 0 at \<open>tss_ptr\<close>, with the limit
  of its 104 bytes, and nothing else.
\<close>

theorem descriptor_tables_layout:
  assumes "crates_ok C"
  shows "(\<exists>g. stage2_GDT C = Inr g \<and> take (gdt_size g) (gdt_entries g) = [0, 0x00CF9B000000FFFF, 0x00CF93000000FFFF]) \<and>
     (\<exists>g. stage3_GDT C = Inr g \<and> stage4_GDT C = Inr g \<and>
        take (gdt_size g) (gdt_entries g) = [0, 0x00A09B0000000000, 0x0080930000000000]) \<and>
     (\<exists>g low high. kernel_GDT C tss_ptr = Inr (g, 0x08, 0x18, 0x20) \<and>
        take (gdt_size g) (gdt_entries g) = [0, low, high, 0x00A09B0000000000, 0x0080930000000000] \<and>
        low = 0x0000890000000067 OR push_bit 16 (take_bit 24 tss_ptr) OR push_bit 56 (take_bit 8 (drop_bit 24 tss_ptr)) \<and>
        high = drop_bit 32 tss_ptr \<and>
        tss_base low high = tss_ptr \<and> descriptor_limit low = 103 \<and> descriptor_type low = 9 \<and> bit low 47 \<and>
        GlobalDescriptorTableDescriptor_new g a = (39, a))"
proof (intro conjI)
  note vals = segment_values [OF assms]
  show "\<exists>g. stage2_GDT C = Inr g \<and> take (gdt_size g) (gdt_entries g) = [0, 0x00CF9B000000FFFF, 0x00CF93000000FFFF]"
    by (simp add: stage2_GDT_def two_segment_gdt_def vals segment_privilege add_entry_defs)
  show "\<exists>g. stage3_GDT C = Inr g \<and> stage4_GDT C = Inr g \<and>
      take (gdt_size g) (gdt_entries g) = [0, 0x00A09B0000000000, 0x0080930000000000]"
    by (simp add: stage3_GDT_def stage4_GDT_def kernel_code_segment_def kernel_data_segment_def
        two_segment_gdt_def vals segment_privilege add_entry_defs)
qed (use kernel_GDT_values [OF assms, of tss_ptr] in blast)

theorem descriptor_tables_layout_witness:
  "\<exists>g. kernel_GDT reference_crates 0xFFFF800012345678 = Inr (g, 0x08, 0x18, 0x20) \<and>
     take (gdt_size g) (gdt_entries g) = [0, 0x1200893456780067, 0xFFFF8000, 0x00A09B0000000000, 0x0080930000000000]"
  using descriptor_tables_layout [OF reference_crates_ok, of "0xFFFF800012345678"] by auto

end
