(* ===== verification/Port_IO.thy ===== *)
theory Port_IO
  imports External_Crates
begin

text \<open>
  Port input and output: \<open>x86_64/src/port.rs\<close>, the driver of the two cascaded 8259 interrupt
  controllers (\<open>kernel/src/interrupts/hardware/pic8259.rs\<close>) and the serial port
  (\<open>x86_64/src/uart.rs\<close>, with the \<open>print\<close> macros of \<open>x86_64/src/print.rs\<close> on top of it). The
  devices behind the ports are an argument of the drivers: what \<open>in\<close> answers and what \<open>in\<close> and
  \<open>out\<close> do to a device state of any type. The properties instantiate it with the register model of
  the 8259 and with a log of all port accesses.
\<close>

record 'w ports =
  port_in :: "u16 \<Rightarrow> 'w \<Rightarrow> u8 \<times> 'w"
  port_out :: "u16 \<Rightarrow> u8 \<Rightarrow> 'w \<Rightarrow> 'w"

text \<open>A \<open>Port<u8>\<close> is its address.\<close>

type_synonym Port = u16

definition Port_read :: "'w ports \<Rightarrow> Port \<Rightarrow> 'w \<Rightarrow> u8 \<times> 'w" where
  "Port_read P self w = port_in P self w"

definition Port_write :: "'w ports \<Rightarrow> Port \<Rightarrow> u8 \<Rightarrow> 'w \<Rightarrow> 'w" where
  "Port_write P self val w = port_out P self val w"

definition io_wait :: "'w ports \<Rightarrow> 'w \<Rightarrow> 'w" where
  "io_wait P w = port_out P 0x80 0 w"

section \<open>The interrupt controllers\<close>

definition ICW1_Icw4 :: u8 where "ICW1_Icw4 = 0x1"
definition ICW1_Init :: u8 where "ICW1_Init = 0x10"
definition ICW4_Mode8086 :: u8 where "ICW4_Mode8086 = 0x1"
definition EndOfInterrupt :: u8 where "EndOfInterrupt = 0x20"
definition MASTER_PIC_BASE :: u16 where "MASTER_PIC_BASE = 0x20"
definition SLAVE_PIC_BASE :: u16 where "SLAVE_PIC_BASE = 0xa0"

record Pic =
  command :: Port
  data :: Port

definition Pic_write_command :: "'w ports \<Rightarrow> Pic \<Rightarrow> u8 \<Rightarrow> 'w \<Rightarrow> 'w" where
  "Pic_write_command P self val w = Port_write P (command self) val w"

definition Pic_read_data :: "'w ports \<Rightarrow> Pic \<Rightarrow> 'w \<Rightarrow> u8 \<times> 'w" where
  "Pic_read_data P self w = Port_read P (data self) w"

definition Pic_write_data :: "'w ports \<Rightarrow> Pic \<Rightarrow> u8 \<Rightarrow> 'w \<Rightarrow> 'w" where
  "Pic_write_data P self val w = Port_write P (data self) val w"

record ChainedPics =
  master :: Pic
  slave :: Pic

definition ChainedPics_new :: ChainedPics where
  "ChainedPics_new =
     \<lparr>master = \<lparr>command = MASTER_PIC_BASE, data = MASTER_PIC_BASE + 1\<rparr>,
      slave = \<lparr>command = SLAVE_PIC_BASE, data = SLAVE_PIC_BASE + 1\<rparr>\<rparr>"

definition ChainedPics_disable :: "'w ports \<Rightarrow> ChainedPics \<Rightarrow> 'w \<Rightarrow> 'w" where
  "ChainedPics_disable P self w =
     Pic_write_data P (slave self) 0xff (Pic_write_data P (master self) 0xff w)"

definition ChainedPics_init :: "'w ports \<Rightarrow> ChainedPics \<Rightarrow> u8 \<Rightarrow> u8 \<Rightarrow> 'w \<Rightarrow> 'w" where
  "ChainedPics_init P self master_offset slave_offset w =
     (let (master_mask, w) = Pic_read_data P (master self) w;
          (slave_mask, w) = Pic_read_data P (slave self) w;
          w = io_wait P (Pic_write_command P (master self) (ICW1_Init OR ICW1_Icw4) w);
          w = io_wait P (Pic_write_command P (slave self) (ICW1_Init OR ICW1_Icw4) w);
          w = io_wait P (Pic_write_data P (master self) master_offset w);
          w = io_wait P (Pic_write_data P (slave self) slave_offset w);
          w = io_wait P (Pic_write_data P (master self) 0x4 w);
          w = io_wait P (Pic_write_data P (slave self) 0x2 w);
          w = io_wait P (Pic_write_data P (master self) ICW4_Mode8086 w);
          w = io_wait P (Pic_write_data P (slave self) ICW4_Mode8086 w);
          w = Pic_write_data P (master self) master_mask w
      in Pic_write_data P (slave self) slave_mask w)"

definition notify_end_of_interrupt :: "'w ports \<Rightarrow> ChainedPics \<Rightarrow> u8 \<Rightarrow> 'w \<Rightarrow> 'w" where
  "notify_end_of_interrupt P self irq_number w =
     (let w = (if irq_number \<ge> 0x8 then Pic_write_command P (slave self) EndOfInterrupt w else w)
      in Pic_write_command P (master self) EndOfInterrupt w)"

section \<open>The serial port\<close>

text \<open>\<open>LineStatusFlags\<close>; the bits of this 8-bit flag type are held in a wider word.\<close>

definition TRANSMITTER_HOLDING_REGISTER_EMPTY :: u64 where
  "TRANSMITTER_HOLDING_REGISTER_EMPTY = push_bit 5 1"

definition DATA_READY :: u64 where "DATA_READY = push_bit 0 1"

definition all_line_status_flags :: u64 where "all_line_status_flags = 0xFF"

record SerialPort =
  uart_data :: Port
  int_en :: Port
  fifo_ctrl :: Port
  line_ctrl :: Port
  modem_ctrl :: Port
  line_stat :: Port
  mode_stat :: Port

definition SerialPort_new :: "u16 \<Rightarrow> SerialPort res" where
  "SerialPort_new base =
     rbind (op_add base 1) (\<lambda>p1. rbind (op_add base 2) (\<lambda>p2. rbind (op_add base 3) (\<lambda>p3.
     rbind (op_add base 4) (\<lambda>p4. rbind (op_add base 5) (\<lambda>p5. rbind (op_add base 6) (\<lambda>p6.
     Inr \<lparr>uart_data = base, int_en = p1, fifo_ctrl = p2, line_ctrl = p3, modem_ctrl = p4,
          line_stat = p5, mode_stat = p6\<rparr>))))))"

definition SerialPort_init :: "'w ports \<Rightarrow> SerialPort \<Rightarrow> 'w \<Rightarrow> 'w" where
  "SerialPort_init P self w =
     (let w = Port_write P (int_en self) 0x0 w;
          w = Port_write P (line_ctrl self) 0x80 w;
          w = Port_write P (uart_data self) 0x3 w;
          w = Port_write P (int_en self) 0x0 w;
          w = Port_write P (line_ctrl self) 0x3 w;
          w = Port_write P (fifo_ctrl self) 0xC7 w;
          w = Port_write P (modem_ctrl self) 0x0B w
      in Port_write P (int_en self) 0x01 w)"

definition line_status_flags :: "crates \<Rightarrow> 'w ports \<Rightarrow> SerialPort \<Rightarrow> 'w \<Rightarrow> u64 \<times> 'w" where
  "line_status_flags C P self w =
     (let (val, w) = Port_read P (line_stat self) w
      in (flags_from_bits_truncate C all_line_status_flags (ucast val), w))"

definition line_status_contains :: "crates \<Rightarrow> 'w ports \<Rightarrow> SerialPort \<Rightarrow> u64 \<Rightarrow> 'w \<Rightarrow> bool \<times> 'w" where
  "line_status_contains C P self flag w =
     (let (flags, w) = line_status_flags C P self w in (flags_contains C flags flag, w))"

text \<open>\<open>wait_for!\<close> polls until the condition holds; when it never does there is no result.\<close>

partial_function (option) wait_for :: "('w \<Rightarrow> bool \<times> 'w) \<Rightarrow> 'w \<Rightarrow> 'w option" where
  "wait_for cond w = (if fst (cond w) then Some (snd (cond w)) else wait_for cond (snd (cond w)))"

definition SerialPort_send :: "crates \<Rightarrow> 'w ports \<Rightarrow> SerialPort \<Rightarrow> u8 \<Rightarrow> 'w \<Rightarrow> 'w option" where
  "SerialPort_send C P self val w =
     (case wait_for (line_status_contains C P self TRANSMITTER_HOLDING_REGISTER_EMPTY) w of
        None \<Rightarrow> None
      | Some w \<Rightarrow> Some (Port_write P (uart_data self) val w))"

definition SerialPort_recv :: "crates \<Rightarrow> 'w ports \<Rightarrow> SerialPort \<Rightarrow> 'w \<Rightarrow> (u8 \<times> 'w) option" where
  "SerialPort_recv C P self w =
     (case wait_for (line_status_contains C P self DATA_READY) w of
        None \<Rightarrow> None
      | Some w \<Rightarrow> Some (Port_read P (uart_data self) w))"

text \<open>\<open>write_str\<close> on the Unicode scalar values of the string.\<close>

definition send_char :: "crates \<Rightarrow> 'w ports \<Rightarrow> SerialPort \<Rightarrow> nat \<Rightarrow> 'w \<Rightarrow> 'w option" where
  "send_char C P self c w = (if c < 128 then SerialPort_send C P self (of_nat c) w else SerialPort_send C P self 46 w)"

fun SerialPort_write_str :: "crates \<Rightarrow> 'w ports \<Rightarrow> SerialPort \<Rightarrow> nat list \<Rightarrow> 'w \<Rightarrow> 'w option" where
  "SerialPort_write_str C P self [] w = Some w"
| "SerialPort_write_str C P self (c # s) w =
     (case send_char C P self c w of None \<Rightarrow> None | Some w \<Rightarrow> SerialPort_write_str C P self s w)"


section \<open>The 8259\<close>

text \<open>
  One controller as its data sheet describes it: the mask register, the first initialisation word, the vector offset, the
  cascade and the mode register, the interrupts in service (bit 0 has the highest priority), and which
  initialisation word the data port expects next (none in operation). A write of a word with bit 4
  set to the command port starts the initialisation and clears the mask. This first word says which words follow:
  bit 1 (SNGL) that there is no third word, as the controller has no cascade, and bit 0 (IC4) that there is a fourth
  word; without that the functions it selects are cleared and the controller is in operation after the third word, so
  that the next write to the data port sets the mask.
\<close>

datatype expects = Operating | Expect_ICW2 | Expect_ICW3 | Expect_ICW4

record chip =
  imr :: u8
  icw1 :: u8
  vector_offset :: u8
  cascade :: u8
  mode_word :: u8
  in_service :: "nat set"
  expecting :: expects

definition end_of_interrupt :: "chip \<Rightarrow> chip" where
  "end_of_interrupt c =
     (if in_service c = {} then c else c\<lparr>in_service := in_service c - {Min (in_service c)}\<rparr>)"

definition chip_command :: "u8 \<Rightarrow> chip \<Rightarrow> chip" where
  "chip_command v c =
     (if bit v 4
      then c\<lparr>imr := 0, icw1 := v, mode_word := if bit v 0 then mode_word c else 0, in_service := {}, expecting := Expect_ICW2\<rparr>
      else if v = 0x20 then end_of_interrupt c else c)"

text \<open>What follows the third initialisation word, or the second of a controller without cascade.\<close>

definition after_cascade :: "chip \<Rightarrow> expects" where
  "after_cascade c = (if bit (icw1 c) 0 then Expect_ICW4 else Operating)"

definition chip_data :: "u8 \<Rightarrow> chip \<Rightarrow> chip" where
  "chip_data v c = (case expecting c of
       Operating \<Rightarrow> c\<lparr>imr := v\<rparr>
     | Expect_ICW2 \<Rightarrow> c\<lparr>vector_offset := v AND 0xF8, expecting := if bit (icw1 c) 1 then after_cascade c else Expect_ICW3\<rparr>
     | Expect_ICW3 \<Rightarrow> c\<lparr>cascade := v, expecting := after_cascade c\<rparr>
     | Expect_ICW4 \<Rightarrow> c\<lparr>mode_word := v, expecting := Operating\<rparr>)"

type_synonym chips = "chip \<times> chip"

definition pic_ports :: "chips ports" where
  "pic_ports =
     \<lparr>port_in = (\<lambda>p w. (if p = 0x21 then imr (fst w) else if p = 0xA1 then imr (snd w) else 0, w)),
      port_out = (\<lambda>p v w.
        if p = 0x20 then (chip_command v (fst w), snd w)
        else if p = 0x21 then (chip_data v (fst w), snd w)
        else if p = 0xA0 then (fst w, chip_command v (snd w))
        else if p = 0xA1 then (fst w, chip_data v (snd w)) else w)\<rparr>"

lemmas pic_driver_defs = Pic_write_command_def Pic_write_data_def Pic_read_data_def Port_read_def Port_write_def
  io_wait_def ChainedPics_new_def MASTER_PIC_BASE_def SLAVE_PIC_BASE_def pic_ports_def

text \<open>The end-of-interrupt command reaches the slave exactly for numbers from 8 on.\<close>

lemma end_of_interrupt_chips:
  "notify_end_of_interrupt pic_ports ChainedPics_new n (m, s) =
     (end_of_interrupt m, if 8 \<le> n then end_of_interrupt s else s)"
  by (simp add: notify_end_of_interrupt_def pic_driver_defs chip_command_def EndOfInterrupt_def)

text \<open>The words that \<open>init\<close> writes reach each controller in their order, with the other one's in between.\<close>

lemma pics_init_words:
  "ChainedPics_init pic_ports ChainedPics_new master_offset slave_offset (m, s) =
     (chip_data (imr m) (chip_data 1 (chip_data 4 (chip_data master_offset (chip_command 0x11 m)))),
      chip_data (imr s) (chip_data 1 (chip_data 2 (chip_data slave_offset (chip_command 0x11 s)))))"
  by (simp add: ChainedPics_init_def pic_driver_defs ICW1_Init_def ICW1_Icw4_def ICW4_Mode8086_def)

lemma init_words_chip:
  assumes "off AND 0xF8 = off"
  shows "chip_data (imr c) (chip_data 1 (chip_data line (chip_data off (chip_command 0x11 c)))) =
     c\<lparr>icw1 := 0x11, vector_offset := off, cascade := line, mode_word := 1, in_service := {}, expecting := Operating\<rparr>"
proof -
  define c1 where "c1 = c\<lparr>imr := 0, icw1 := 0x11, in_service := {}, expecting := Expect_ICW2\<rparr>"
  have "chip_command 0x11 c = c1" by (simp add: chip_command_def c1_def bit_0)
  moreover have "chip_data off c1 = c1\<lparr>vector_offset := off, expecting := Expect_ICW3\<rparr>"
    using assms by (simp add: chip_data_def c1_def)
  moreover have "after_cascade (c1\<lparr>vector_offset := v, expecting := e\<rparr>) = Expect_ICW4" for v e
    by (simp add: after_cascade_def c1_def bit_0)
  ultimately show ?thesis by (simp add: chip_data_def) (simp add: c1_def)
qed

section \<open>The log of port accesses\<close>

datatype access = In u16 u8 | Out u16 u8

definition log_ports :: "(access list \<Rightarrow> u16 \<Rightarrow> u8) \<Rightarrow> access list ports" where
  "log_ports answer =
     \<lparr>port_in = (\<lambda>p w. (answer w p, w @ [In p (answer w p)])),
      port_out = (\<lambda>p v w. w @ [Out p v])\<rparr>"

text \<open>The bytes written to a port.\<close>

fun bytes_out :: "u16 \<Rightarrow> access list \<Rightarrow> u8 list" where
  "bytes_out p [] = []"
| "bytes_out p (In q v # w) = bytes_out p w"
| "bytes_out p (Out q v # w) = (if q = p then v # bytes_out p w else bytes_out p w)"

lemma bytes_out_append [simp]: "bytes_out p (v @ w) = bytes_out p v @ bytes_out p w"
  by (induction p v rule: bytes_out.induct) simp_all

text \<open>A device that answers a poll of the status register with the flag after finitely many polls.\<close>

definition poll :: "(access list \<Rightarrow> u16 \<Rightarrow> u8) \<Rightarrow> u16 \<Rightarrow> access list \<Rightarrow> access list" where
  "poll answer p w = w @ [In p (answer w p)]"

definition eventually_set :: "(access list \<Rightarrow> u16 \<Rightarrow> u8) \<Rightarrow> u16 \<Rightarrow> nat \<Rightarrow> access list \<Rightarrow> bool" where
  "eventually_set answer p flag w \<longleftrightarrow> (\<exists>n. bit (answer ((poll answer p ^^ n) w) p) flag)"

lemma line_status_bit:
  assumes "crates_ok C" "n < 8"
  shows "line_status_contains C (log_ports answer) self (push_bit n 1) w =
    (bit (answer w (line_stat self)) n, poll answer (line_stat self) w)"
proof -
  have "((ucast (answer w (line_stat self)) AND 0xFF) AND 2 ^ n = (2 ^ n :: u64)) \<longleftrightarrow> bit (answer w (line_stat self)) n"
    (is "?l \<longleftrightarrow> ?r")
  proof
    assume ?l
    then have "bit ((ucast (answer w (line_stat self)) AND 0xFF) AND 2 ^ n :: u64) n"
      using assms(2) by (simp add: bit_exp_iff possible_bit_def)
    then show ?r by (simp add: bit_and_iff bit_unsigned_iff)
  next
    have m: "(0xFF :: u64) = mask 8" by (simp add: mask_eq_exp_minus_1)
    assume ?r
    then show ?l using assms(2) unfolding m by (intro bit_word_eqI) (auto simp: bit_simps)
  qed
  then show ?thesis
    by (simp add: line_status_contains_def line_status_flags_def Port_read_def log_ports_def poll_def
        crates_okD [OF assms(1)] all_line_status_flags_def)
qed


lemma wait_for_iterate:
  assumes "fst (cond (((snd \<circ> cond) ^^ n) w))"
  shows "\<exists>n. wait_for cond w = Some (((snd \<circ> cond) ^^ Suc n) w) \<and> fst (cond (((snd \<circ> cond) ^^ n) w)) \<and>
    (\<forall>k < n. \<not> fst (cond (((snd \<circ> cond) ^^ k) w)))"
  using assms
proof (induction n arbitrary: w)
  case 0
  then show ?case by (intro exI [of _ 0]) (simp add: wait_for.simps)
next
  case (Suc n)
  show ?case
  proof (cases "fst (cond w)")
    case True
    then show ?thesis by (intro exI [of _ 0]) (simp add: wait_for.simps)
  next
    case False
    have sh: "((snd \<circ> cond) ^^ k) (snd (cond w)) = ((snd \<circ> cond) ^^ Suc k) w" for k
      by (simp add: funpow_swap1)
    from Suc.prems have "fst (cond (((snd \<circ> cond) ^^ n) (snd (cond w))))" by (simp only: sh)
    from Suc.IH [OF this] obtain m where m: "wait_for cond (snd (cond w)) = Some (((snd \<circ> cond) ^^ Suc m) (snd (cond w)))"
      "fst (cond (((snd \<circ> cond) ^^ m) (snd (cond w))))" "\<forall>k < m. \<not> fst (cond (((snd \<circ> cond) ^^ k) (snd (cond w))))"
      by blast
    have "\<not> fst (cond (((snd \<circ> cond) ^^ k) w))" if "k < Suc m" for k
      using that m(3) False by (cases k) (auto simp: sh simp del: funpow.simps(2))
    moreover have "wait_for cond w = Some (((snd \<circ> cond) ^^ Suc (Suc m)) w)"
      using m(1) False by (subst wait_for.simps) (simp only: sh, simp)
    ultimately show ?thesis using m(2) [unfolded sh] by blast
  qed
qed

lemma wait_for_SomeD:
  "wait_for cond w = Some w' \<Longrightarrow> \<exists>n. fst (cond (((snd \<circ> cond) ^^ n) w))"
proof (erule wait_for.raw_induct [of "\<lambda>cond w w'. \<exists>n. fst (cond (((snd \<circ> cond) ^^ n) w))", rotated])
  fix wf and cond :: "'a \<Rightarrow> bool \<times> 'a" and w w'
  assume 1: "\<And>cond w w'. wf cond w = Some w' \<Longrightarrow> \<exists>n. fst (cond (((snd \<circ> cond) ^^ n) w))"
    "(if fst (cond w) then Some (snd (cond w)) else wf cond (snd (cond w))) = Some w'"
  show "\<exists>n. fst (cond (((snd \<circ> cond) ^^ n) w))"
  proof (cases "fst (cond w)")
    case True
    then show ?thesis by (intro exI [of _ 0]) simp
  next
    case False
    with 1(2) obtain n where "fst (cond (((snd \<circ> cond) ^^ n) (snd (cond w))))" using 1(1) by (metis)
    then have "fst (cond (((snd \<circ> cond) ^^ Suc n) w))" by (simp add: funpow_swap1)
    then show ?thesis by blast
  qed
qed

definition uart_poll where
  "uart_poll C answer sp w = line_status_contains C (log_ports answer) sp TRANSMITTER_HOLDING_REGISTER_EMPTY w"

lemma uart_poll_eq:
  "crates_ok C \<Longrightarrow> uart_poll C answer sp = (\<lambda>w. (bit (answer w (line_stat sp)) 5, poll answer (line_stat sp) w))"
  by (rule ext) (simp add: uart_poll_def TRANSMITTER_HOLDING_REGISTER_EMPTY_def line_status_bit del: push_bit_of_1)


lemma uart_poll_iterate:
  assumes "crates_ok C"
  shows "((snd \<circ> uart_poll C answer sp) ^^ n) w = (poll answer (line_stat sp) ^^ n) w"
  by (simp add: uart_poll_eq [OF assms] o_def)

lemma poll_log: "\<exists>vs. (poll answer p ^^ n) w = w @ map (In p) vs"
proof (induction n)
  case (Suc n)
  then obtain vs where "(poll answer p ^^ n) w = w @ map (In p) vs" by blast
  then have "(poll answer p ^^ Suc n) w = w @ map (In p) (vs @ [answer ((poll answer p ^^ n) w) p])"
    by (simp add: poll_def)
  then show ?case by blast
qed simp

lemma send_log:
  assumes "crates_ok C" "eventually_set answer (line_stat sp) 5 w"
  shows "\<exists>vs v. SerialPort_send C (log_ports answer) sp c w =
     Some (w @ map (In (line_stat sp)) vs @ [In (line_stat sp) v, Out (uart_data sp) c]) \<and> bit v 5"
proof -
  let ?p = "line_stat sp"
  from assms(2) obtain n where "bit (answer ((poll answer ?p ^^ n) w) ?p) 5" by (auto simp: eventually_set_def)
  then have "fst (uart_poll C answer sp (((snd \<circ> uart_poll C answer sp) ^^ n) w))"
    by (simp only: uart_poll_iterate [OF assms(1)]) (simp add: uart_poll_eq [OF assms(1)])
  from wait_for_iterate [of "uart_poll C answer sp", OF this] obtain n
    where n: "wait_for (uart_poll C answer sp) w = Some ((poll answer ?p ^^ Suc n) w)"
      "fst (uart_poll C answer sp ((poll answer ?p ^^ n) w))"
    unfolding uart_poll_iterate [OF assms(1)] by blast
  obtain vs where vs: "(poll answer ?p ^^ n) w = w @ map (In ?p) vs" using poll_log by blast
  have "wait_for (line_status_contains C (log_ports answer) sp TRANSMITTER_HOLDING_REGISTER_EMPTY) w =
      Some (w @ map (In ?p) vs @ [In ?p (answer (w @ map (In ?p) vs) ?p)])"
    using n(1) vs by (simp add: poll_def uart_poll_def [abs_def])
  moreover have "bit (answer (w @ map (In ?p) vs) ?p) 5"
    using n(2) vs by (simp add: uart_poll_eq [OF assms(1)])
  ultimately show ?thesis
    by (auto simp: SerialPort_send_def Port_write_def log_ports_def)
qed

text \<open>Every byte sent directly follows a poll that found the transmitter empty.\<close>

fun paced :: "u16 \<Rightarrow> u16 \<Rightarrow> bool \<Rightarrow> access list \<Rightarrow> bool" where
  "paced st dp ready [] \<longleftrightarrow> True"
| "paced st dp ready (In q v # w) \<longleftrightarrow> paced st dp (q = st \<and> bit v 5) w"
| "paced st dp ready (Out q v # w) \<longleftrightarrow> (q = dp \<longrightarrow> ready) \<and> paced st dp False w"

lemma paced_weaken: "paced st dp False w \<Longrightarrow> paced st dp b w"
  by (cases "(st, dp, b, w)" rule: paced.cases) auto

lemma paced_polls: "bit v 5 \<Longrightarrow> paced st dp False rest \<Longrightarrow>
    paced st dp b (map (In st) vs @ In st v # Out dp c # rest)"
  by (induction vs arbitrary: b) auto

lemma paced_append: "paced st dp b v \<Longrightarrow> paced st dp False w \<Longrightarrow> paced st dp b (v @ w)"
  by (induction st dp b v rule: paced.induct) (auto intro: paced_weaken)

lemma bytes_out_polls [simp]: "bytes_out p (map (In q) vs) = []"
  by (induction vs) auto

definition sent_byte :: "nat \<Rightarrow> u8" where
  "sent_byte c = (if c < 128 then of_nat c else 46)"

lemma send_char_eq: "send_char C P sp c w = SerialPort_send C P sp (sent_byte c) w"
  by (simp add: send_char_def sent_byte_def)

lemma write_str_log:
  assumes "crates_ok C" "\<And>w. eventually_set answer (line_stat sp) 5 w"
  shows "\<exists>t. SerialPort_write_str C (log_ports answer) sp s w = Some (w @ t) \<and>
     bytes_out (uart_data sp) t = map sent_byte s \<and> paced (line_stat sp) (uart_data sp) False t"
proof (induction s arbitrary: w)
  case (Cons c s)
  obtain vs v where v: "SerialPort_send C (log_ports answer) sp (sent_byte c) w =
      Some (w @ map (In (line_stat sp)) vs @ [In (line_stat sp) v, Out (uart_data sp) (sent_byte c)])" "bit v 5"
    using send_log [OF assms(1) assms(2)] by blast
  from Cons.IH obtain t where t: "SerialPort_write_str C (log_ports answer) sp s
        (w @ map (In (line_stat sp)) vs @ [In (line_stat sp) v, Out (uart_data sp) (sent_byte c)]) =
      Some ((w @ map (In (line_stat sp)) vs @ [In (line_stat sp) v, Out (uart_data sp) (sent_byte c)]) @ t)"
    "bytes_out (uart_data sp) t = map sent_byte s" "paced (line_stat sp) (uart_data sp) False t"
    by blast
  then show ?case
    using v paced_polls [OF v(2) t(3), of False vs "sent_byte c"]
    by (intro exI [of _ "map (In (line_stat sp)) vs @ In (line_stat sp) v # Out (uart_data sp) (sent_byte c) # t"])
       (simp add: send_char_eq)
qed simp

section \<open>Properties\<close>

text \<open>
  C28. \<open>ChainedPics::init\<close> on two 8259 controllers in any state: afterwards both are in operation, each has taken the four
  initialisation words as what they are meant for (the first announces the third and the fourth), with the
  interrupt vectors moved to the given offsets, the slave on line 2 of the master, 8086 mode without automatic end of
  interrupt, edge-triggered inputs, nothing in service, and the interrupt masks they had before (the initialisation
  clears them). The delays between the words are not visible to this model.
\<close>

theorem pics_init_remaps:
  assumes "master_offset AND 0xF8 = master_offset" "slave_offset AND 0xF8 = slave_offset"
  shows "ChainedPics_init pic_ports ChainedPics_new master_offset slave_offset (m, s) =
     (m\<lparr>icw1 := 0x11, vector_offset := master_offset, cascade := 4, mode_word := 1, in_service := {}, expecting := Operating\<rparr>,
      s\<lparr>icw1 := 0x11, vector_offset := slave_offset, cascade := 2, mode_word := 1, in_service := {}, expecting := Operating\<rparr>)"
  using assms by (simp add: pics_init_words init_words_chip)

theorem pics_init_remaps_witness:
  "vector_offset (snd (ChainedPics_init pic_ports ChainedPics_new 0x20 0x28
     (\<lparr>imr = 0xB8, icw1 = 0x11, vector_offset = 8, cascade = 0, mode_word = 0, in_service = {}, expecting = Operating\<rparr>,
      \<lparr>imr = 0x8E, icw1 = 0x11, vector_offset = 0x70, cascade = 0, mode_word = 0, in_service = {}, expecting = Operating\<rparr>))) = 0x28"
  using pics_init_remaps [of "0x20" "0x28"] by simp

text \<open>
  C30. Printing: on a serial line whose transmitter always becomes empty after finitely many polls,
  \<open>write_str\<close> returns, the bytes written to the data port are the characters of the string in order
  (a full stop for a character outside ASCII), and each is written right after a poll of the line
  status that found the transmitter empty.
\<close>

theorem write_str_sends:
  assumes "crates_ok C" "SerialPort_new base = Inr sp" "\<forall>w. eventually_set answer (base + 5) 5 w"
  shows "\<exists>t. SerialPort_write_str C (log_ports answer) sp s w = Some (w @ t) \<and>
     bytes_out base t = map (\<lambda>c. if c < 128 then of_nat c else 46) s \<and> paced (base + 5) base False t"
proof -
  have "line_stat sp = base + 5" "uart_data sp = base"
    using assms(2) by (auto simp: SerialPort_new_def rbind_eq_Inr op_add_eq_Inr)
  then show ?thesis
    using write_str_log [OF assms(1), of answer sp s w] assms(3) by (simp add: sent_byte_def [abs_def])
qed

theorem write_str_sends_witness:
  "\<exists>sp t. SerialPort_new 0x3F8 = Inr sp \<and>
     SerialPort_write_str reference_crates (log_ports (\<lambda>_ _. 0x60)) sp [72, 105, 0x2764] [] = Some t \<and>
     bytes_out 0x3F8 t = [72, 105, 46]"
proof -
  let ?sp = "\<lparr>uart_data = 0x3F8, int_en = 0x3F9, fifo_ctrl = 0x3FA, line_ctrl = 0x3FB, modem_ctrl = 0x3FC,
    line_stat = 0x3FD, mode_stat = 0x3FE\<rparr>"
  have sp: "SerialPort_new 0x3F8 = Inr ?sp"
    by (simp add: SerialPort_new_def op_add_def)
  have "eventually_set (\<lambda>_ _. 0x60) (0x3F8 + 5) 5 w" for w
    by (simp add: eventually_set_def)
  then show ?thesis
    using write_str_sends [OF reference_crates_ok sp, of "\<lambda>_ _. 0x60" "[72, 105, 0x2764]" "[]"] sp by auto
qed

text \<open>
  There is no time-out: \<open>send\<close> on a line whose transmitter never becomes empty does not return.
\<close>

theorem send_blocks_without_transmitter:
  assumes "crates_ok C" "\<forall>w. \<not> bit (answer w (line_stat sp)) 5"
  shows "SerialPort_send C (log_ports answer) sp c w = None"
proof -
  have "wait_for (uart_poll C answer sp) w = None"
    using wait_for_SomeD [of "uart_poll C answer sp" w] assms(2)
    by (cases "wait_for (uart_poll C answer sp) w") (auto simp: uart_poll_eq [OF assms(1)])
  then show ?thesis by (simp add: SerialPort_send_def uart_poll_def [abs_def])
qed

theorem send_blocks_without_transmitter_witness:
  "SerialPort_send reference_crates (log_ports (\<lambda>_ _. 0)) \<lparr>uart_data = 0x3F8, int_en = 0x3F9, fifo_ctrl = 0x3FA,
     line_ctrl = 0x3FB, modem_ctrl = 0x3FC, line_stat = 0x3FD, mode_stat = 0x3FE\<rparr> 65 [] = None"
  by (rule send_blocks_without_transmitter [OF reference_crates_ok]) simp

end
