(* ===== verification/Spin_Mutex.thy ===== *)
theory Spin_Mutex
  imports Rust_Prelude
begin

text \<open>
  The spin lock of \<open>x86_64/src/mutex.rs\<close>, which guards the kernel's heap allocator and the serial
  port. Threads interleave at the atomic operations on \<open>lock_status\<close>; an interrupt handler is a
  thread that runs on top of the code it interrupts. A thread is described by whether it is inside
  the loop of \<open>lock\<close> and by the number of guards it holds.
\<close>

record 'v Mutex =
  mutex_inner :: 'v
  lock_status :: bool

definition Mutex_new :: "'v \<Rightarrow> 'v Mutex" where
  "Mutex_new val = \<lparr>mutex_inner = val, lock_status = False\<rparr>"

text \<open>\<open>compare_exchange(current, new)\<close>: the success flag and the mutex afterwards.\<close>

definition compare_exchange :: "'v Mutex \<Rightarrow> bool \<Rightarrow> bool \<Rightarrow> bool \<times> 'v Mutex" where
  "compare_exchange self current new =
     (if lock_status self = current then (True, self\<lparr>lock_status := new\<rparr>) else (False, self))"

text \<open>One turn of the loop of \<open>lock\<close>: \<open>True\<close> when the guard is taken.\<close>

definition Mutex_lock_turn :: "'v Mutex \<Rightarrow> bool \<times> 'v Mutex" where
  "Mutex_lock_turn self = compare_exchange self False True"

definition MutexGuard_deref_mut :: "('v \<Rightarrow> 'v) \<Rightarrow> 'v Mutex \<Rightarrow> 'v Mutex" where
  "MutexGuard_deref_mut f self = self\<lparr>mutex_inner := f (mutex_inner self)\<rparr>"

definition MutexGuard_drop :: "'v Mutex \<Rightarrow> 'v Mutex" where
  "MutexGuard_drop self = self\<lparr>lock_status := False\<rparr>"

text \<open>\<open>lock\<close> where there is only one thread: it never returns when the lock is taken.\<close>

definition static_lock :: "'v Mutex \<Rightarrow> 'v Mutex res" where
  "static_lock self = (case Mutex_lock_turn self of (True, guard) \<Rightarrow> Inr guard | (False, _) \<Rightarrow> Inl Diverges)"

lemma static_lock_new: "static_lock (Mutex_new v) = Inr \<lparr>mutex_inner = v, lock_status = True\<rparr>"
  by (simp add: static_lock_def Mutex_new_def Mutex_lock_turn_def compare_exchange_def)

lemma MutexGuard_drop_new: "MutexGuard_drop \<lparr>mutex_inner = v, lock_status = True\<rparr> = Mutex_new v"
  by (simp add: MutexGuard_drop_def Mutex_new_def)

section \<open>Interleavings\<close>

record thread =
  spinning :: bool
  guards :: nat

type_synonym ('t, 'v) threads_state = "'v Mutex \<times> ('t \<Rightarrow> thread)"

inductive mutex_step :: "('t, 'v) threads_state \<Rightarrow> ('t, 'v) threads_state \<Rightarrow> bool" where
  Call: "\<not> spinning (T t) \<Longrightarrow>
    mutex_step (M, T) (M, T(t := (T t)\<lparr>spinning := True\<rparr>))"
| Acquire: "spinning (T t) \<Longrightarrow> Mutex_lock_turn M = (True, M') \<Longrightarrow>
    mutex_step (M, T) (M', T(t := \<lparr>spinning = False, guards = guards (T t) + 1\<rparr>))"
| Spin: "spinning (T t) \<Longrightarrow> Mutex_lock_turn M = (False, M') \<Longrightarrow>
    mutex_step (M, T) (M', T)"
| Access: "\<not> spinning (T t) \<Longrightarrow> 0 < guards (T t) \<Longrightarrow>
    mutex_step (M, T) (MutexGuard_deref_mut f M, T)"
| Drop: "\<not> spinning (T t) \<Longrightarrow> 0 < guards (T t) \<Longrightarrow>
    mutex_step (M, T) (MutexGuard_drop M, T(t := (T t)\<lparr>guards := guards (T t) - 1\<rparr>))"

inductive_cases mutex_stepE: "mutex_step s s'"

definition no_threads :: "'t \<Rightarrow> thread" where
  "no_threads = (\<lambda>_. \<lparr>spinning = False, guards = 0\<rparr>)"

text \<open>The lock is taken when some thread holds a guard; then it is the only guard.\<close>

definition mutex_inv :: "('t, 'v) threads_state \<Rightarrow> bool" where
  "mutex_inv s \<longleftrightarrow>
     (\<exists>holder. (lock_status (fst s) \<longleftrightarrow> holder \<noteq> None) \<and>
        (\<forall>t. guards (snd s t) = (if holder = Some t then 1 else 0)))"

lemma lock_turn_simps:
  "Mutex_lock_turn M = (True, M') \<longleftrightarrow> \<not> lock_status M \<and> M' = M\<lparr>lock_status := True\<rparr>"
  "Mutex_lock_turn M = (False, M') \<longleftrightarrow> lock_status M \<and> M' = M"
  by (auto simp: Mutex_lock_turn_def compare_exchange_def)

lemma mutex_inv_holder:
  assumes "mutex_inv (M, T)" "0 < guards (T t)"
  shows "lock_status M \<and> (\<forall>u. guards (T u) = (if u = t then 1 else 0))"
proof -
  from assms(1) obtain h where h: "lock_status M \<longleftrightarrow> h \<noteq> None" "\<And>t. guards (T t) = (if h = Some t then 1 else 0)"
    by (auto simp: mutex_inv_def)
  with assms(2) have "h = Some t" by (auto split: if_splits)
  with h show ?thesis by auto
qed

lemma mutex_inv_free: "mutex_inv (M, T) \<Longrightarrow> \<not> lock_status M \<Longrightarrow> guards (T t) = 0"
  by (auto simp: mutex_inv_def)

lemma mutex_invI:
  "lock_status M \<Longrightarrow> (\<And>u. guards (T u) = (if u = t then 1 else 0)) \<Longrightarrow> mutex_inv (M, T)"
  "\<not> lock_status M \<Longrightarrow> (\<And>u. guards (T u) = 0) \<Longrightarrow> mutex_inv (M, T)"
  by (auto simp: mutex_inv_def intro: exI [of _ "Some t"])

lemma mutex_inv_step: "mutex_step s s' \<Longrightarrow> mutex_inv s \<Longrightarrow> mutex_inv s'"
proof (induction rule: mutex_step.induct)
  case (Call T t M)
  have "guards ((T(t := (T t)\<lparr>spinning := True\<rparr>)) u) = guards (T u)" for u by simp
  with Call(2) show ?case by (simp add: mutex_inv_def)
next
  case (Acquire T t M M')
  then show ?case
    using mutex_inv_free [of M T] by (intro mutex_invI(1) [of _ _ t]) (auto simp: lock_turn_simps)
next
  case (Spin T t M M')
  then show ?case by (simp add: lock_turn_simps)
next
  case (Access T t M f)
  then show ?case by (simp add: mutex_inv_def MutexGuard_deref_mut_def)
next
  case (Drop T t M)
  then show ?case
    using mutex_inv_holder [of M T t] by (intro mutex_invI(2)) (auto simp: MutexGuard_drop_def)
qed

lemma mutex_inv_reachable: "mutex_step\<^sup>*\<^sup>* s s' \<Longrightarrow> mutex_inv s \<Longrightarrow> mutex_inv s'"
  by (induction rule: rtranclp_induct) (auto intro: mutex_inv_step)

lemma mutex_inv_initial: "mutex_inv (Mutex_new val, no_threads)"
  by (simp add: mutex_inv_def Mutex_new_def no_threads_def)

section \<open>Properties\<close>

text \<open>
  C23. Mutual exclusion: in every state that any number of threads reach from a new mutex at most one
  guard exists. The lock is taken exactly when it exists, and the protected value changes only in
  a step of the thread that holds it.
\<close>

theorem mutex_exclusion:
  assumes "mutex_step\<^sup>*\<^sup>* (Mutex_new val, no_threads) (M, T)"
  shows "(\<forall>t u. 0 < guards (T t) \<and> 0 < guards (T u) \<longrightarrow> t = u \<and> guards (T t) = 1) \<and>
     (lock_status M \<longleftrightarrow> (\<exists>t. 0 < guards (T t))) \<and>
     (\<forall>M' T'. mutex_step (M, T) (M', T') \<and> mutex_inner M' \<noteq> mutex_inner M \<longrightarrow>
        (\<exists>t. 0 < guards (T t) \<and> \<not> spinning (T t) \<and> (\<forall>u. 0 < guards (T u) \<longrightarrow> u = t)))"
proof (intro conjI allI impI)
  have inv: "mutex_inv (M, T)" using mutex_inv_reachable [OF assms mutex_inv_initial] .
  show "t = u" "guards (T t) = 1" if "0 < guards (T t) \<and> 0 < guards (T u)" for t u
    using mutex_inv_holder [OF inv, of t] that by (auto split: if_splits)
  show "lock_status M \<longleftrightarrow> (\<exists>t. 0 < guards (T t))"
  proof
    assume "lock_status M"
    with inv obtain t where "guards (T t) = 1" by (fastforce simp: mutex_inv_def)
    then show "\<exists>t. 0 < guards (T t)" by (intro exI [of _ t]) simp
  qed (use mutex_inv_holder [OF inv] in blast)
  fix M' T'
  assume a: "mutex_step (M, T) (M', T') \<and> mutex_inner M' \<noteq> mutex_inner M"
  then have "mutex_step (M, T) (M', T')" ..
  then show "\<exists>t. 0 < guards (T t) \<and> \<not> spinning (T t) \<and> (\<forall>u. 0 < guards (T u) \<longrightarrow> u = t)"
  proof (cases rule: mutex_step.cases)
    case (Access t f)
    with mutex_inv_holder [OF inv, of t] show ?thesis by (intro exI [of _ t]) (auto split: if_splits)
  qed (use a in \<open>auto simp: lock_turn_simps MutexGuard_drop_def\<close>)
qed

theorem mutex_exclusion_witness:
  "\<exists>M (T :: bool \<Rightarrow> thread). mutex_step\<^sup>*\<^sup>* (Mutex_new (0 :: nat), no_threads) (M, T) \<and> guards (T True) = 1 \<and>
     lock_status M"
proof -
  let ?T1 = "no_threads(True := \<lparr>spinning = True, guards = 0\<rparr>)"
  let ?T2 = "no_threads(True := \<lparr>spinning = False, guards = Suc 0\<rparr>)"
  let ?M = "\<lparr>mutex_inner = 0, lock_status = True\<rparr>"
  have "mutex_step (Mutex_new (0 :: nat), no_threads) (Mutex_new 0, ?T1)"
    using mutex_step.Call [of no_threads True "Mutex_new (0 :: nat)"] by (simp add: no_threads_def)
  moreover have "mutex_step (Mutex_new (0 :: nat), ?T1) (?M, ?T2)"
    using mutex_step.Acquire [of ?T1 True "Mutex_new (0 :: nat)" ?M]
    by (simp add: Mutex_new_def lock_turn_simps)
  ultimately have r: "mutex_step\<^sup>*\<^sup>* (Mutex_new (0 :: nat), no_threads) (?M, ?T2)" by auto
  from mutex_exclusion [OF r] r show ?thesis by (intro exI [of _ ?M] exI [of _ ?T2]) auto
qed

text \<open>
  The lock is not re-entrant: a thread that calls \<open>lock\<close> while it holds the guard (an interrupt
  handler that needs the lock of the code it interrupted) spins for ever, in every continuation
  of the execution, and so the lock is never free again.
\<close>

theorem mutex_reentrant_deadlock:
  assumes "mutex_step\<^sup>*\<^sup>* (Mutex_new val, no_threads) (M, T)" "spinning (T t)" "0 < guards (T t)"
    and "mutex_step\<^sup>*\<^sup>* (M, T) (M', T')"
  shows "spinning (T' t) \<and> guards (T' t) = 1 \<and> lock_status M'"
proof -
  have "mutex_inv (M, T)" using mutex_inv_reachable [OF assms(1) mutex_inv_initial] .
  with assms(4) have "mutex_inv (M', T') \<and> spinning (T' t) \<and> 0 < guards (T' t)"
    using assms(2,3)
  proof (induction "(M', T')" arbitrary: M' T' rule: rtranclp_induct)
    case base
    then show ?case by simp
  next
    case (step y)
    obtain M1 T1 where y: "y = (M1, T1)" by (cases y)
    with step have IH: "mutex_inv (M1, T1)" "spinning (T1 t)" "0 < guards (T1 t)" by auto
    note h = mutex_inv_holder [OF IH(1,3)]
    from step(2) [unfolded y] have "spinning (T' t) \<and> 0 < guards (T' t)"
    proof (cases rule: mutex_step.cases)
      case (Drop u)
      with h have "u = t" by (auto split: if_splits)
      with Drop IH(2) show ?thesis by simp
    qed (use IH h in \<open>auto simp: lock_turn_simps\<close>)
    with mutex_inv_step [OF step(2)] y IH(1) show ?case by simp
  qed
  then show ?thesis using mutex_inv_holder [of M' T' t] by simp
qed

theorem mutex_reentrant_deadlock_witness:
  "\<exists>M (T :: bool \<Rightarrow> thread). mutex_step\<^sup>*\<^sup>* (Mutex_new (0 :: nat), no_threads) (M, T) \<and>
     (\<forall>M' T'. mutex_step\<^sup>*\<^sup>* (M, T) (M', T') \<longrightarrow> spinning (T' True))"
proof -
  let ?T1 = "no_threads(True := \<lparr>spinning = True, guards = 0\<rparr>)"
  let ?T2 = "no_threads(True := \<lparr>spinning = False, guards = Suc 0\<rparr>)"
  let ?T3 = "no_threads(True := \<lparr>spinning = True, guards = Suc 0\<rparr>)"
  let ?M = "\<lparr>mutex_inner = 0, lock_status = True\<rparr>"
  have "mutex_step (Mutex_new (0 :: nat), no_threads) (Mutex_new 0, ?T1)"
    using mutex_step.Call [of no_threads True "Mutex_new (0 :: nat)"] by (simp add: no_threads_def)
  moreover have "mutex_step (Mutex_new (0 :: nat), ?T1) (?M, ?T2)"
    using mutex_step.Acquire [of ?T1 True "Mutex_new (0 :: nat)" ?M]
    by (simp add: Mutex_new_def lock_turn_simps)
  moreover have "mutex_step (?M, ?T2) (?M, ?T3)"
    using mutex_step.Call [of ?T2 True ?M] by simp
  ultimately have r: "mutex_step\<^sup>*\<^sup>* (Mutex_new (0 :: nat), no_threads) (?M, ?T3)"
    by (elim converse_rtranclp_into_rtranclp) (rule r_into_rtranclp)
  from mutex_reentrant_deadlock [OF r, of True] r show ?thesis by (intro exI [of _ ?M] exI [of _ ?T3]) auto
qed

end
