(* ===== verification/Interrupts.thy ===== *)
theory Interrupts
  imports Segments Port_IO Spin_Mutex
begin

text \<open>
  Interrupt handling: the interrupt descriptor table (\<open>x86_64/src/idt.rs\<close>), the assembly wrappers
  around the handlers (\<open>x86_64/src/interrupts.rs\<close>), and the kernel's table and handlers
  (\<open>kernel/src/interrupts/mod.rs\<close>, with the table of \<open>stage4/src/interrupts.rs\<close>). The addresses of
  the wrappers are chosen by the linker and are an argument.
\<close>

section \<open>Interrupt descriptors\<close>

type_synonym InterruptDescriptorOptions = u16

definition InterruptDescriptorOptions_default :: InterruptDescriptorOptions where
  "InterruptDescriptorOptions_default = push_bit 8 0xe"

definition set_present :: "crates \<Rightarrow> InterruptDescriptorOptions \<Rightarrow> bool \<Rightarrow> InterruptDescriptorOptions" where
  "set_present C self present = set_bit16 C self 15 present"

definition disable_interrupts :: "crates \<Rightarrow> InterruptDescriptorOptions \<Rightarrow> bool \<Rightarrow> InterruptDescriptorOptions" where
  "disable_interrupts C self dis = set_bit16 C self 8 (\<not> dis)"

definition set_privilege_level ::
    "crates \<Rightarrow> InterruptDescriptorOptions \<Rightarrow> PrivilegeLevel \<Rightarrow> InterruptDescriptorOptions res" where
  "set_privilege_level C self level = set_bits16 C self 13 15 (PrivilegeLevel_as_u16 level)"

definition set_interrupt_stack_index ::
    "crates \<Rightarrow> InterruptDescriptorOptions \<Rightarrow> u16 \<Rightarrow> InterruptDescriptorOptions res" where
  "set_interrupt_stack_index C self index = rbind (op_add index 1) (\<lambda>i. set_bits16 C self 0 3 i)"

record InterruptDescriptor =
  pointer_low :: u16
  segment_selector :: SegmentSelector
  options :: InterruptDescriptorOptions
  pointer_middle :: u16
  pointer_high :: u32

definition missing :: InterruptDescriptor where
  "missing = \<lparr>pointer_low = 0, segment_selector = SegmentSelector_new 0 Ring0,
     options = InterruptDescriptorOptions_default, pointer_middle = 0, pointer_high = 0\<rparr>"

text \<open>\<open>cs\<close> is the value of the code segment register, which the code reads.\<close>

definition set_handler_function :: "crates \<Rightarrow> u16 \<Rightarrow> InterruptDescriptor \<Rightarrow> u64 \<Rightarrow> InterruptDescriptor" where
  "set_handler_function C cs self handler_address =
     self\<lparr>pointer_low := ucast handler_address, pointer_middle := ucast (drop_bit 16 handler_address),
          pointer_high := ucast (drop_bit 32 handler_address), segment_selector := cs,
          options := set_present C (options self) True\<rparr>"

section \<open>The table\<close>

record InterruptDescriptorTable =
  divide_error :: InterruptDescriptor
  debug :: InterruptDescriptor
  non_maskable_interrupt :: InterruptDescriptor
  breakpoint :: InterruptDescriptor
  overflow :: InterruptDescriptor
  bound_range_exceeded :: InterruptDescriptor
  invalid_opcode :: InterruptDescriptor
  device_not_available :: InterruptDescriptor
  double_fault :: InterruptDescriptor
  coprocessor_segment_overrun :: InterruptDescriptor
  invalid_tss :: InterruptDescriptor
  segment_not_present :: InterruptDescriptor
  stack_segment_fault :: InterruptDescriptor
  general_protection_fault :: InterruptDescriptor
  page_fault :: InterruptDescriptor
  reserved_1 :: InterruptDescriptor
  x87_floating_point :: InterruptDescriptor
  alignment_check :: InterruptDescriptor
  machine_check :: InterruptDescriptor
  simd_floating_point :: InterruptDescriptor
  virtualization :: InterruptDescriptor
  control_protection_exception :: InterruptDescriptor
  reserved_2 :: "InterruptDescriptor list"
  hypervisor_injection_exception :: InterruptDescriptor
  vmm_communication_exception :: InterruptDescriptor
  security_exception :: InterruptDescriptor
  reserved_3 :: InterruptDescriptor
  interrupts :: "InterruptDescriptor list"

definition InterruptDescriptorTable_default :: InterruptDescriptorTable where
  "InterruptDescriptorTable_default =
     \<lparr>divide_error = missing, debug = missing, non_maskable_interrupt = missing, breakpoint = missing,
      overflow = missing, bound_range_exceeded = missing, invalid_opcode = missing,
      device_not_available = missing, double_fault = missing, coprocessor_segment_overrun = missing,
      invalid_tss = missing, segment_not_present = missing, stack_segment_fault = missing,
      general_protection_fault = missing, page_fault = missing, reserved_1 = missing,
      x87_floating_point = missing, alignment_check = missing, machine_check = missing,
      simd_floating_point = missing, virtualization = missing, control_protection_exception = missing,
      reserved_2 = replicate 6 missing, hypervisor_injection_exception = missing,
      vmm_communication_exception = missing, security_exception = missing, reserved_3 = missing,
      interrupts = replicate (256 - 32) missing\<rparr>"

text \<open>The order of the descriptors in memory (\<open>repr(C)\<close>): the vector is the position.\<close>

definition idt_layout :: "InterruptDescriptorTable \<Rightarrow> InterruptDescriptor list" where
  "idt_layout t =
     [divide_error t, debug t, non_maskable_interrupt t, breakpoint t, overflow t, bound_range_exceeded t,
      invalid_opcode t, device_not_available t, double_fault t, coprocessor_segment_overrun t, invalid_tss t,
      segment_not_present t, stack_segment_fault t, general_protection_fault t, page_fault t, reserved_1 t,
      x87_floating_point t, alignment_check t, machine_check t, simd_floating_point t, virtualization t,
      control_protection_exception t] @ reserved_2 t @
     [hypervisor_injection_exception t, vmm_communication_exception t, security_exception t, reserved_3 t] @
     interrupts t"

text \<open>The operand of \<open>lidt\<close>.\<close>

definition InterruptTableDescriptor_for :: "InterruptDescriptorTable \<Rightarrow> u64 \<Rightarrow> u16 \<times> u64" where
  "InterruptTableDescriptor_for t address = (of_nat (16 * length (idt_layout t) - 1), address)"

section \<open>The kernel's table\<close>

datatype InterruptIndex = Timer | Keyboard

fun InterruptIndex_as_u8 :: "InterruptIndex \<Rightarrow> u8" where
  "InterruptIndex_as_u8 Timer = 0"
| "InterruptIndex_as_u8 Keyboard = 1"

definition InterruptIndex_as_usize :: "InterruptIndex \<Rightarrow> nat" where
  "InterruptIndex_as_usize self = unat (InterruptIndex_as_u8 self)"

definition MASTER_PIC_OFFSET :: u8 where "MASTER_PIC_OFFSET = 0x20"
definition SLAVE_PIC_OFFSET :: u8 where "SLAVE_PIC_OFFSET = MASTER_PIC_OFFSET + 8"

definition as_remapped_idt_number :: "InterruptIndex \<Rightarrow> u8 res" where
  "as_remapped_idt_number self = op_add (InterruptIndex_as_u8 self) MASTER_PIC_OFFSET"

datatype kernel_handler =
    Divide_by_zero_handler | Debug_handler | Non_maskable_interrupt_handler | Breakpoint_handler | Invalid_opcode_handler
  | Device_not_available_handler | Invalid_tss_handler | Segment_not_present_handler
  | Stack_segment_fault_handler | Page_fault_handler | Alignment_check_handler | Double_fault_handler
  | Timer_interrupt_handler | Keyboard_interrupt_handler

text \<open>\<open>addr\<close> gives the address of the wrapper around each handler.\<close>

definition kernel_IDT :: "crates \<Rightarrow> u16 \<Rightarrow> (kernel_handler \<Rightarrow> u64) \<Rightarrow> InterruptDescriptorTable res" where
  "kernel_IDT C cs addr =
     (let set = (\<lambda>d h. set_handler_function C cs d (addr h));
          idt = InterruptDescriptorTable_default;
          idt = idt\<lparr>divide_error := set (divide_error idt) Divide_by_zero_handler\<rparr>;
          idt = idt\<lparr>debug := set (debug idt) Debug_handler\<rparr>;
          idt = idt\<lparr>non_maskable_interrupt := set (non_maskable_interrupt idt) Non_maskable_interrupt_handler\<rparr>;
          idt = idt\<lparr>breakpoint := set (breakpoint idt) Breakpoint_handler\<rparr>;
          idt = idt\<lparr>invalid_opcode := set (invalid_opcode idt) Invalid_opcode_handler\<rparr>;
          idt = idt\<lparr>device_not_available := set (device_not_available idt) Device_not_available_handler\<rparr>;
          idt = idt\<lparr>invalid_tss := set (invalid_tss idt) Invalid_tss_handler\<rparr>;
          idt = idt\<lparr>segment_not_present := set (segment_not_present idt) Segment_not_present_handler\<rparr>;
          idt = idt\<lparr>stack_segment_fault := set (stack_segment_fault idt) Stack_segment_fault_handler\<rparr>;
          idt = idt\<lparr>page_fault := set (page_fault idt) Page_fault_handler\<rparr>;
          idt = idt\<lparr>alignment_check := set (alignment_check idt) Alignment_check_handler\<rparr>;
          df = set (double_fault idt) Double_fault_handler
      in rbind (set_interrupt_stack_index C (options df) (of_nat DOUBLE_FAULT_IST_IDX)) (\<lambda>opt.
         let idt = idt\<lparr>double_fault := df\<lparr>options := opt\<rparr>\<rparr> in
         rbind (index_get (interrupts idt) (InterruptIndex_as_usize Timer)) (\<lambda>d.
         rbind (index_set (interrupts idt) (InterruptIndex_as_usize Timer) (set d Timer_interrupt_handler)) (\<lambda>is.
         let idt = idt\<lparr>interrupts := is\<rparr> in
         rbind (index_get (interrupts idt) (InterruptIndex_as_usize Keyboard)) (\<lambda>d.
         rbind (index_set (interrupts idt) (InterruptIndex_as_usize Keyboard) (set d Keyboard_interrupt_handler)) (\<lambda>is.
         Inr (idt\<lparr>interrupts := is\<rparr>)))))))"

text \<open>The table of stage 4; the numbers name the same handlers.\<close>

definition stage4_IDT :: "crates \<Rightarrow> u16 \<Rightarrow> (kernel_handler \<Rightarrow> u64) \<Rightarrow> InterruptDescriptorTable" where
  "stage4_IDT C cs addr =
     (let set = (\<lambda>d h. set_handler_function C cs d (addr h));
          idt = InterruptDescriptorTable_default;
          idt = idt\<lparr>divide_error := set (divide_error idt) Divide_by_zero_handler\<rparr>;
          idt = idt\<lparr>breakpoint := set (breakpoint idt) Breakpoint_handler\<rparr>;
          idt = idt\<lparr>invalid_opcode := set (invalid_opcode idt) Invalid_opcode_handler\<rparr>;
          idt = idt\<lparr>page_fault := set (page_fault idt) Page_fault_handler\<rparr>;
          idt = idt\<lparr>alignment_check := set (alignment_check idt) Alignment_check_handler\<rparr>
      in idt\<lparr>double_fault := set (double_fault idt) Double_fault_handler\<rparr>)"

section \<open>The wrappers around the handlers\<close>

datatype reg = RAX | RCX | RDX | RSI | RDI | R8 | R9 | R10 | R11 | RSP

record machine =
  regs :: "reg \<Rightarrow> u64"
  stack :: "u64 \<Rightarrow> u64"

definition push :: "reg \<Rightarrow> machine \<Rightarrow> machine" where
  "push r s = (let sp = regs s RSP - 8
     in s\<lparr>regs := (regs s)(RSP := sp), stack := (stack s)(sp := regs s r)\<rparr>)"

definition pop :: "reg \<Rightarrow> machine \<Rightarrow> machine" where
  "pop r s = (let sp = regs s RSP
     in s\<lparr>regs := (regs s)(r := stack s sp, RSP := sp + 8)\<rparr>)"

definition scratch_registers :: "reg list" where
  "scratch_registers = [RAX, RCX, RDX, RSI, RDI, R8, R9, R10, R11]"

definition push_scratch_registers :: "machine \<Rightarrow> machine" where
  "push_scratch_registers s = fold push scratch_registers s"

definition pop_scratch_registers :: "machine \<Rightarrow> machine" where
  "pop_scratch_registers s = fold pop scratch_registers s"

definition set_reg :: "reg \<Rightarrow> u64 \<Rightarrow> machine \<Rightarrow> machine" where
  "set_reg r v s = s\<lparr>regs := (regs s)(r := v)\<rparr>"

text \<open>
  The wrappers up to \<open>iretq\<close>. The call of the handler is a function on machine states that gets
  the two argument registers.
\<close>

type_synonym handler_call = "u64 \<Rightarrow> u64 \<Rightarrow> machine \<Rightarrow> machine"

definition call :: "handler_call \<Rightarrow> machine \<Rightarrow> machine" where
  "call h s = h (regs s RDI) (regs s RSI) s"

definition handler_without_error_code :: "handler_call \<Rightarrow> machine \<Rightarrow> machine" where
  "handler_without_error_code h s =
     (let s = push_scratch_registers s;
          s = set_reg RDI (regs s RSP) s;
          s = set_reg RDI (regs s RDI + 9 * 8) s;
          s = call h s
      in pop_scratch_registers s)"

definition handler_with_error_code :: "handler_call \<Rightarrow> machine \<Rightarrow> machine" where
  "handler_with_error_code h s =
     (let s = push_scratch_registers s;
          s = set_reg RSI (stack s (regs s RSP + 9 * 8)) s;
          s = set_reg RDI (regs s RSP) s;
          s = set_reg RDI (regs s RDI + 10 * 8) s;
          s = set_reg RSP (regs s RSP - 8) s;
          s = call h s;
          s = set_reg RSP (regs s RSP + 8) s;
          s = pop_scratch_registers s
      in set_reg RSP (regs s RSP + 8) s)"


section \<open>The handlers of the kernel\<close>

text \<open>
  A handler prints on the serial port, which its lock guards: when the interrupted code holds the
  lock, the handler spins. It then returns, loops for ever (\<open>loop {}\<close>) or panics. The exceptions
  are the cases of \<open>exception_handler\<close>; the two hardware interrupts have definitions of their own.
\<close>

datatype 'w handler_end = Returns 'w | Loops 'w | Panics 'w | Spins

definition print_str :: "crates \<Rightarrow> 'w ports \<Rightarrow> SerialPort Mutex \<Rightarrow> string \<Rightarrow> 'w \<Rightarrow> 'w option" where
  "print_str C P SERIAL s w =
     (case Mutex_lock_turn SERIAL of
        (True, m) \<Rightarrow> SerialPort_write_str C P (mutex_inner m) (map of_char s) w
      | (False, _) \<Rightarrow> None)"

definition println_str :: "crates \<Rightarrow> 'w ports \<Rightarrow> SerialPort Mutex \<Rightarrow> string \<Rightarrow> 'w \<Rightarrow> 'w option" where
  "println_str C P SERIAL s w = print_str C P SERIAL (s @ ''\<newline>'') w"

definition after_print :: "'w option \<Rightarrow> ('w \<Rightarrow> 'w handler_end) \<Rightarrow> 'w handler_end" where
  "after_print r k = (case r of None \<Rightarrow> Spins | Some w \<Rightarrow> k w)"

text \<open>Decimal, and hexadecimal as \<open>{:#016x}\<close> writes it: prefixed, padded with zeros to 16 characters.\<close>

definition digit :: "nat \<Rightarrow> char" where
  "digit d = ''0123456789abcdef'' ! d"

fun digits :: "nat \<Rightarrow> nat \<Rightarrow> string" where
  "digits b n = (if b < 2 \<or> n < b then [digit n] else digits b (n div b) @ [digit (n mod b)])"

declare digits.simps [simp del]

definition fmt_u64 :: "u64 \<Rightarrow> string" where
  "fmt_u64 v = digits 10 (unat v)"

definition fmt_hex16 :: "u64 \<Rightarrow> string" where
  "fmt_hex16 v = (let ds = digits 16 (unat v) in ''0x'' @ replicate (16 - 2 - length ds) CHR ''0'' @ ds)"

record ExceptionStackFrame =
  instruction_pointer :: u64
  code_segment :: u64
  cpu_flags :: u64
  stack_pointer :: u64
  stack_segment :: u64

definition fmt_frame :: "ExceptionStackFrame \<Rightarrow> string" where
  "fmt_frame f =
     ''ExceptionFrame {\<newline>'' @
     ''    IP: '' @ fmt_hex16 (instruction_pointer f) @ ''\<newline>'' @
     ''    CS: '' @ fmt_hex16 (code_segment f) @ ''\<newline>'' @
     ''    FLAGS: '' @ fmt_hex16 (cpu_flags f) @ ''\<newline>'' @
     ''    SP: '' @ fmt_hex16 (stack_pointer f) @ ''\<newline>'' @
     ''    SS: '' @ fmt_hex16 (stack_segment f) @ ''\<newline>'' @
     ''}''"

text \<open>
  \<open>PageFaultErrorCode\<close> declares five flags. How \<open>bitflags\<close> prints them is the argument \<open>fmt_flags\<close>.
\<close>

definition all_page_fault_flags :: u64 where "all_page_fault_flags = 0x1F"

definition PageFaultErrorCode_from_bits :: "crates \<Rightarrow> u64 \<Rightarrow> u64 option" where
  "PageFaultErrorCode_from_bits C b = flags_from_bits C all_page_fault_flags b"

definition exception_handler ::
    "crates \<Rightarrow> (u64 \<Rightarrow> string) \<Rightarrow> 'w ports \<Rightarrow> SerialPort Mutex \<Rightarrow> kernel_handler \<Rightarrow> ExceptionStackFrame \<Rightarrow> u64 \<Rightarrow> 'w \<Rightarrow> 'w handler_end" where
  "exception_handler C fmt_flags P SERIAL h frame error_code w =
     (let out = println_str C P SERIAL in case h of
        Divide_by_zero_handler \<Rightarrow> after_print (out ''Exception: divide by zero'' w) Loops
      | Invalid_opcode_handler \<Rightarrow> after_print (out ''Invalid opcode handler'' w) Loops
      | Segment_not_present_handler \<Rightarrow>
          after_print (out (''General protection fault handler \<newline> error_code: '' @ fmt_u64 error_code @
            '' \<newline> exception frame: '' @ fmt_frame frame) w) Loops
      | Page_fault_handler \<Rightarrow>
          (case PageFaultErrorCode_from_bits C error_code of
             None \<Rightarrow> Panics w
           | Some error \<Rightarrow>
               after_print (out (''Page fault handler \<newline> error_code: '' @ fmt_flags error @
                 '' \<newline> exception frame: '' @ fmt_frame frame) w) Loops)
      | Alignment_check_handler \<Rightarrow> after_print (out ''Alignment check handler'' w) Loops
      | Invalid_tss_handler \<Rightarrow> after_print (out (''Invalid tss handler: '' @ fmt_frame frame) w) Loops
      | Stack_segment_fault_handler \<Rightarrow> after_print (out (''Stack segment handler: '' @ fmt_frame frame) w) Loops
      | Breakpoint_handler \<Rightarrow> after_print (out (''Int3 triggered: '' @ fmt_frame frame) w) Returns
      | Non_maskable_interrupt_handler \<Rightarrow>
          after_print (out (''Non maskable interrupt handler '' @ fmt_frame frame) w) Returns
      | Debug_handler \<Rightarrow> after_print (out (''Debug handler '' @ fmt_frame frame) w) Returns
      | Device_not_available_handler \<Rightarrow>
          after_print (out (''Device not available handler '' @ fmt_frame frame) w) Returns
      | Double_fault_handler \<Rightarrow>
          after_print (out (''Double fault error code: '' @ fmt_u64 error_code) w) (\<lambda>w.
          after_print (out (''Double fault handler: '' @ fmt_frame frame) w) Loops)
      | _ \<Rightarrow> Returns w)"

text \<open>The end of a hardware interrupt: \<open>PICS.lock().notify_end_of_interrupt(..)\<close>.\<close>

definition notify_pics :: "'w ports \<Rightarrow> ChainedPics Mutex \<Rightarrow> InterruptIndex \<Rightarrow> 'w \<Rightarrow> 'w handler_end" where
  "notify_pics P PICS index w =
     (case Mutex_lock_turn PICS of
        (False, _) \<Rightarrow> Spins
      | (True, m) \<Rightarrow>
          (case as_remapped_idt_number index of
             Inl _ \<Rightarrow> Panics w
           | Inr n \<Rightarrow> Returns (notify_end_of_interrupt P (mutex_inner m) n w)))"

definition timer_interrupt_handler ::
    "crates \<Rightarrow> 'w ports \<Rightarrow> SerialPort Mutex \<Rightarrow> ChainedPics Mutex \<Rightarrow> 'w \<Rightarrow> 'w handler_end" where
  "timer_interrupt_handler C P SERIAL PICS w =
     after_print (print_str C P SERIAL ''.'' w) (notify_pics P PICS Timer)"

definition keyboard_interrupt_handler ::
    "crates \<Rightarrow> 'w ports \<Rightarrow> SerialPort Mutex \<Rightarrow> ChainedPics Mutex \<Rightarrow> 'w \<Rightarrow> 'w handler_end" where
  "keyboard_interrupt_handler C P SERIAL PICS w =
     (let (scancode, w) = Port_read P 0x60 w
      in after_print (print_str C P SERIAL (digits 10 (unat scancode)) w) (notify_pics P PICS Keyboard))"

text \<open>\<open>without_interrupts\<close> on the interrupt flag: \<open>cli\<close>, the closure, \<open>sti\<close>.\<close>

definition without_interrupts :: "(bool \<times> 's \<Rightarrow> 'r \<times> bool \<times> 's) \<Rightarrow> bool \<times> 's \<Rightarrow> 'r \<times> bool \<times> 's" where
  "without_interrupts c st =
     (let (ret, _, s) = c (False, snd st) in (ret, True, s))"

section \<open>What the processor reads from a gate\<close>

definition gate_offset :: "InterruptDescriptor \<Rightarrow> u64" where
  "gate_offset d = ucast (pointer_low d) OR push_bit 16 (ucast (pointer_middle d)) OR push_bit 32 (ucast (pointer_high d))"

definition gate_present :: "InterruptDescriptor \<Rightarrow> bool" where
  "gate_present d \<longleftrightarrow> bit (options d) 15"

definition gate_type :: "InterruptDescriptor \<Rightarrow> u16" where
  "gate_type d = take_bit 4 (drop_bit 8 (options d))"

definition gate_ist :: "InterruptDescriptor \<Rightarrow> u16" where
  "gate_ist d = take_bit 3 (options d)"

lemma set_handler_offset [simp]: "gate_offset (set_handler_function C cs d a) = a"
proof (rule bit_word_eqI)
  fix i assume "i < LENGTH(64)"
  then show "bit (gate_offset (set_handler_function C cs d a)) i = bit a i"
    by (cases "i < 16"; cases "i < 32") (auto simp: gate_offset_def set_handler_function_def bit_simps)
qed

lemma default_options: "InterruptDescriptorOptions_default = 0xE00"
  by (simp add: InterruptDescriptorOptions_default_def)

lemma missing_options: "options missing = 0xE00" "\<not> gate_present missing"
  by (simp_all add: missing_def default_options gate_present_def)

lemma set_present_default: "crates_ok C \<Longrightarrow> set_present C 0xE00 True = 0x8E00"
  by (simp add: set_present_def set_bit16_okD set_bit_eq_or)

lemma options_set_missing [simp]:
  "crates_ok C \<Longrightarrow> options (set_handler_function C cs missing a) = 0x8E00"
  "segment_selector (set_handler_function C cs d a) = cs"
  by (simp_all add: set_handler_function_def missing_options set_present_default)

section \<open>The gates of the kernel's table\<close>

text \<open>Which handler serves which vector, by the numbers of the processor manual and of the remapped controllers.\<close>

definition kernel_vector :: "nat \<Rightarrow> kernel_handler option" where
  "kernel_vector v = map_of
     [(0, Divide_by_zero_handler), (1, Debug_handler), (2, Non_maskable_interrupt_handler), (3, Breakpoint_handler),
      (6, Invalid_opcode_handler), (7, Device_not_available_handler), (8, Double_fault_handler),
      (10, Invalid_tss_handler), (11, Segment_not_present_handler), (12, Stack_segment_fault_handler),
      (14, Page_fault_handler), (17, Alignment_check_handler), (0x20, Timer_interrupt_handler),
      (0x21, Keyboard_interrupt_handler)] v"

definition gate_of :: "InterruptDescriptor \<Rightarrow> (u64 \<times> SegmentSelector \<times> u16 \<times> u16) option" where
  "gate_of d = (if gate_present d then Some (gate_offset d, segment_selector d, gate_type d, gate_ist d) else None)"

lemma gate_of_missing [simp]: "gate_of missing = None"
  by (simp add: gate_of_def missing_options)

lemma gate_of_handler:
  "crates_ok C \<Longrightarrow> gate_of (set_handler_function C cs missing a) = Some (a, cs, 0xE, 0)"
  by (simp add: gate_of_def gate_present_def gate_type_def gate_ist_def)

lemma gate_of_options [simp]:
  "gate_of (d\<lparr>options := 0x8E01\<rparr>) = Some (gate_offset d, segment_selector d, 0xE, 1)"
  by (simp add: gate_of_def gate_present_def gate_type_def gate_ist_def gate_offset_def)

lemma double_fault_ist: "crates_ok C \<Longrightarrow> set_interrupt_stack_index C 0x8E00 (of_nat DOUBLE_FAULT_IST_IDX) = Inr 0x8E01"
  by (simp add: set_interrupt_stack_index_def DOUBLE_FAULT_IST_IDX_def op_add_def set_bits16_okD mask_eq_exp_minus_1)

lemma kernel_IDT_layout:
  assumes "crates_ok C"
  shows "\<exists>t. kernel_IDT C cs addr = Inr t \<and>
    idt_layout t =
      (let h = (\<lambda>k. set_handler_function C cs missing (addr k)) in
       [h Divide_by_zero_handler, h Debug_handler, h Non_maskable_interrupt_handler, h Breakpoint_handler, missing, missing,
        h Invalid_opcode_handler, h Device_not_available_handler, (h Double_fault_handler)\<lparr>options := 0x8E01\<rparr>, missing,
        h Invalid_tss_handler, h Segment_not_present_handler, h Stack_segment_fault_handler, missing,
        h Page_fault_handler, missing, missing, h Alignment_check_handler] @ replicate 14 missing @
       [h Timer_interrupt_handler, h Keyboard_interrupt_handler] @ replicate 222 missing)"
proof -
  have r: "replicate 224 missing = missing # missing # replicate 222 missing"
    using replicate_add [of 2 222 missing] by (simp add: numeral_2_eq_2)
  have q: "replicate 14 missing = [missing, missing, missing, missing] @ replicate 6 missing @ [missing, missing, missing, missing]"
    by (simp add: eval_nat_numeral)
  show ?thesis
    using assms
    by (simp add: kernel_IDT_def InterruptDescriptorTable_default_def double_fault_ist InterruptIndex_as_usize_def
        idt_layout_def Let_def r q)
qed

lemma kernel_IDT_descriptor:
  assumes "crates_ok C"
  shows "\<exists>t. kernel_IDT C cs addr = Inr t \<and> length (idt_layout t) = 256 \<and> (\<forall>a. InterruptTableDescriptor_for t a = (4095, a))"
  using kernel_IDT_layout [OF assms, of cs addr] by (auto simp: Let_def InterruptTableDescriptor_for_def)

section \<open>Properties\<close>

text \<open>
  C24. The kernel's interrupt table: every vector that has a handler is a present interrupt gate of type
  0xE to the wrapper of this handler in the kernel's code segment, the double fault alone switches
  to the first interrupt stack, and all other vectors are not present. In particular there is no
  gate for the general protection fault (vector 13), although the source has a handler for it.
\<close>

theorem kernel_idt_gates:
  assumes "crates_ok C"
  shows "\<exists>t. kernel_IDT C cs addr = Inr t \<and> length (idt_layout t) = 256 \<and>
     (\<forall>v < 256. gate_of (idt_layout t ! v) =
        map_option (\<lambda>h. (addr h, cs, 0xE, if h = Double_fault_handler then 1 else 0)) (kernel_vector v)) \<and>
     kernel_vector 13 = None \<and> InterruptTableDescriptor_for t a = (4095, a)"
proof -
  obtain t where t: "kernel_IDT C cs addr = Inr t" and lay: "idt_layout t =
      (let h = (\<lambda>k. set_handler_function C cs missing (addr k)) in
       [h Divide_by_zero_handler, h Debug_handler, h Non_maskable_interrupt_handler, h Breakpoint_handler, missing, missing,
        h Invalid_opcode_handler, h Device_not_available_handler, (h Double_fault_handler)\<lparr>options := 0x8E01\<rparr>, missing,
        h Invalid_tss_handler, h Segment_not_present_handler, h Stack_segment_fault_handler, missing,
        h Page_fault_handler, missing, missing, h Alignment_check_handler] @ replicate 14 missing @
       [h Timer_interrupt_handler, h Keyboard_interrupt_handler] @ replicate 222 missing)"
    using kernel_IDT_layout [OF assms] by blast
  have len: "length (idt_layout t) = 256" by (simp add: lay Let_def)
  have "gate_of (idt_layout t ! v) =
      map_option (\<lambda>h. (addr h, cs, 0xE, if h = Double_fault_handler then 1 else 0)) (kernel_vector v)" if "v < 256" for v
  proof -
    have "v \<in> {0, 1, 2, 3, 4, 5, 6, 7, 8, 9, 10, 11, 12, 13, 14, 15, 16, 17, 0x20, 0x21} \<or> 18 \<le> v \<and> v < 32 \<or> 34 \<le> v"
      by (simp only: insert_iff empty_iff) presburger
    then consider "v \<in> {0, 1, 2, 3, 4, 5, 6, 7, 8, 9, 10, 11, 12, 13, 14, 15, 16, 17, 0x20, 0x21}" | "18 \<le> v" "v < 32" | "34 \<le> v"
      by blast
    then show ?thesis
    proof cases
      case 1
      then show ?thesis
        by (elim insertE emptyE) (simp_all add: lay Let_def kernel_vector_def gate_of_handler [OF assms] nth_append)
    next
      case 2
      then have "v - Suc (Suc (Suc (Suc (Suc (Suc (Suc (Suc (Suc (Suc (Suc (Suc (Suc (Suc (Suc (Suc (Suc (Suc 0))))))))))))))))) < 14"
        by linarith
      with 2 show ?thesis by (simp add: lay Let_def kernel_vector_def nth_append)
    next
      case 3
      with that show ?thesis by (simp add: lay Let_def kernel_vector_def nth_append)
    qed
  qed
  with t len show ?thesis by (simp add: kernel_vector_def InterruptTableDescriptor_for_def)
qed

theorem kernel_idt_gates_witness:
  "\<exists>t. kernel_IDT reference_crates 0x18 (\<lambda>_. 0xFFFF800000001234) = Inr t \<and>
     gate_of (idt_layout t ! 8) = Some (0xFFFF800000001234, 0x18, 0xE, 1) \<and> gate_of (idt_layout t ! 13) = None"
proof -
  have "\<exists>t. kernel_IDT reference_crates 0x18 (\<lambda>_. 0xFFFF800000001234) = Inr t \<and>
     (\<forall>v < 256. gate_of (idt_layout t ! v) =
        map_option (\<lambda>h. (0xFFFF800000001234, 0x18, 0xE, if h = Double_fault_handler then 1 else 0)) (kernel_vector v))"
    using kernel_idt_gates [OF reference_crates_ok, of "0x18" "\<lambda>_. 0xFFFF800000001234"] by blast
  then show ?thesis by (auto simp: kernel_vector_def)
qed


section \<open>The wrappers\<close>

text \<open>
  What the C calling convention promises of the handler: the stack pointer comes back, and the \<open>n\<close>
  words of the stack above it belong to the caller. The scratch registers may change.
\<close>

definition keeps_stack :: "nat \<Rightarrow> handler_call \<Rightarrow> bool" where
  "keeps_stack n h \<longleftrightarrow> (\<forall>a b s. regs (h a b s) RSP = regs s RSP \<and>
     (\<forall>k < n. stack (h a b s) (regs s RSP + of_nat (8 * k)) = stack s (regs s RSP + of_nat (8 * k))))"

lemma keeps_stackD:
  assumes "keeps_stack n h"
  shows "regs (h a b s) RSP = regs s RSP"
    and "regs s RSP = p \<Longrightarrow> k < n \<Longrightarrow> stack (h a b s) (p + of_nat (8 * k)) = stack s (p + of_nat (8 * k))"
  using assms unfolding keeps_stack_def by blast+

lemma push_simps:
  "regs (push r s) = (regs s)(RSP := regs s RSP - 8)"
  "stack (push r s) = (stack s)(regs s RSP - 8 := regs s r)"
  by (simp_all add: push_def Let_def)

lemma pop_simps:
  "regs (pop r s) = (regs s)(r := stack s (regs s RSP), RSP := regs s RSP + 8)"
  "stack (pop r s) = stack s"
  by (simp_all add: pop_def Let_def)

lemma less_9_cases: "(i :: nat) < 9 \<Longrightarrow> i \<in> {0, 1, 2, 3, 4, 5, 6, 7, 8}"
  by auto

lemma push_scratch_frame:
  "regs (push_scratch_registers s) = (regs s)(RSP := regs s RSP - 72)"
  "stack (push_scratch_registers s) (regs s RSP) = stack s (regs s RSP)"
  by (simp_all add: push_scratch_registers_def scratch_registers_def push_simps fun_eq_iff)

lemma push_scratch_saved:
  assumes "i < 9"
  shows "stack (push_scratch_registers s) (regs s RSP - 72 + of_nat (8 * i)) = regs s (scratch_registers ! (8 - i))"
  using less_9_cases [OF assms]
  by (elim insertE emptyE) (simp_all add: push_scratch_registers_def scratch_registers_def push_simps)

lemma fold_pop:
  assumes "distinct rs" "RSP \<notin> set rs"
  shows "regs (fold pop rs s) RSP = regs s RSP + of_nat (8 * length rs)" "stack (fold pop rs s) = stack s"
    and "r \<notin> set rs \<Longrightarrow> r \<noteq> RSP \<Longrightarrow> regs (fold pop rs s) r = regs s r"
    and "i < length rs \<Longrightarrow> regs (fold pop rs s) (rs ! i) = stack s (regs s RSP + of_nat (8 * i))"
  using assms
proof (induction rs arbitrary: s i r)
  case (Cons q rs)
  {
    case 1
    then show ?case using Cons.IH(1) [of "pop q s"] by (simp add: pop_simps algebra_simps)
  next
    case 2
    then show ?case using Cons.IH(2) [of "pop q s"] by (simp add: pop_simps)
  next
    case 3
    then show ?case using Cons.IH(3) [of r "pop q s"] by (simp add: pop_simps)
  next
    case 4
    then show ?case
      using Cons.IH(3) [of q "pop q s"] Cons.IH(4) [of "i - 1" "pop q s"]
      by (cases i) (auto simp: pop_simps algebra_simps)
  }
qed simp_all

lemma scratch_registers_ok: "distinct scratch_registers" "RSP \<notin> set scratch_registers" "length scratch_registers = 9"
  by (simp_all add: scratch_registers_def)

lemma pop_scratch_frame:
  "regs (pop_scratch_registers s) RSP = regs s RSP + 72" "stack (pop_scratch_registers s) = stack s"
  using fold_pop(1,2) [OF scratch_registers_ok(1,2)]
  by (simp_all add: pop_scratch_registers_def scratch_registers_ok(3))

lemma pop_scratch_loaded:
  assumes "i < 9"
  shows "regs (pop_scratch_registers s) (scratch_registers ! i) = stack s (regs s RSP + of_nat (8 * i))"
  using fold_pop(4) [OF scratch_registers_ok(1,2), of i] assms
  by (simp add: pop_scratch_registers_def scratch_registers_ok(3))

lemma without_error_code_eq:
  "\<exists>s1. handler_without_error_code h s = pop_scratch_registers (h (regs s RSP) (regs s RSI) s1) \<and>
     regs s1 RSP = regs s RSP - 72 \<and> stack s1 = stack (push_scratch_registers s)"
  by (rule exI [of _ "(push_scratch_registers s)\<lparr>regs := (regs s)(RDI := regs s RSP, RSP := regs s RSP - 72)\<rparr>"])
     (simp add: handler_without_error_code_def call_def set_reg_def Let_def push_scratch_frame fun_upd_twist)

lemma with_error_code_eq:
  "\<exists>s1. handler_with_error_code h s =
       (let s = h (regs s RSP + 8) (stack s (regs s RSP)) s1;
            s = set_reg RSP (regs s RSP + 8) s;
            s = pop_scratch_registers s
        in set_reg RSP (regs s RSP + 8) s) \<and>
     regs s1 RSP = regs s RSP - 80 \<and> stack s1 = stack (push_scratch_registers s)"
  by (rule exI [of _ "(push_scratch_registers s)\<lparr>regs :=
        (regs s)(RSI := stack s (regs s RSP), RDI := regs s RSP + 8, RSP := regs s RSP - 80)\<rparr>"])
     (simp add: handler_with_error_code_def call_def set_reg_def Let_def push_scratch_frame add.commute)

lemma without_error_code_regs:
  assumes "keeps_stack 9 h"
  shows "regs (handler_without_error_code h s) RSP = regs s RSP"
    and "i < 9 \<Longrightarrow> regs (handler_without_error_code h s) (scratch_registers ! i) = regs s (scratch_registers ! (8 - i))"
proof -
  obtain s1 where s1: "handler_without_error_code h s = pop_scratch_registers (h (regs s RSP) (regs s RSI) s1)"
     "regs s1 RSP = regs s RSP - 72" "stack s1 = stack (push_scratch_registers s)"
    using without_error_code_eq by blast
  then show "regs (handler_without_error_code h s) RSP = regs s RSP"
    using assms by (simp add: pop_scratch_frame keeps_stack_def)
  show "regs (handler_without_error_code h s) (scratch_registers ! i) = regs s (scratch_registers ! (8 - i))" if "i < 9"
    unfolding s1(1) pop_scratch_loaded [OF that] keeps_stackD(1) [OF assms] s1(2)
      keeps_stackD(2) [OF assms s1(2) that] s1(3) by (rule push_scratch_saved [OF that])
qed

lemma with_error_code_regs:
  assumes "keeps_stack 10 h"
  shows "regs (handler_with_error_code h s) RSP = regs s RSP + 8"
    and "i < 9 \<Longrightarrow> regs (handler_with_error_code h s) (scratch_registers ! i) = regs s (scratch_registers ! (8 - i))"
proof -
  obtain s1 where s1: "handler_with_error_code h s =
       (let s = h (regs s RSP + 8) (stack s (regs s RSP)) s1;
            s = set_reg RSP (regs s RSP + 8) s;
            s = pop_scratch_registers s
        in set_reg RSP (regs s RSP + 8) s)"
     "regs s1 RSP = regs s RSP - 80" "stack s1 = stack (push_scratch_registers s)"
    using with_error_code_eq by blast
  then show "regs (handler_with_error_code h s) RSP = regs s RSP + 8"
    using assms by (simp add: pop_scratch_frame keeps_stack_def set_reg_def Let_def)
  show "regs (handler_with_error_code h s) (scratch_registers ! i) = regs s (scratch_registers ! (8 - i))" if "i < 9"
  proof -
    let ?s2 = "h (regs s RSP + 8) (stack s (regs s RSP)) s1"
    have "regs s RSP - 80 + of_nat (8 * Suc i) = regs s RSP - 72 + of_nat (8 * i)" by simp
    then have "stack ?s2 (regs s RSP - 72 + of_nat (8 * i)) = regs s (scratch_registers ! (8 - i))"
      using keeps_stackD(2) [OF assms s1(2), of "Suc i"] that push_scratch_saved [OF that, of s] s1(3) by (simp only:)
    moreover have "scratch_registers ! i \<noteq> RSP"
      using less_9_cases [OF that] by (elim insertE emptyE) (simp_all add: scratch_registers_def)
    moreover have "regs ?s2 RSP = regs s RSP - 80" using assms s1(2) by (simp add: keeps_stack_def)
    moreover define s3 where "s3 = set_reg RSP (regs ?s2 RSP + 8) ?s2"
    moreover have "regs s3 RSP = regs s RSP - 72" "stack s3 = stack ?s2"
      using calculation(3) by (simp_all add: s3_def set_reg_def)
    moreover have "regs (handler_with_error_code h s) (scratch_registers ! i) = regs (pop_scratch_registers s3) (scratch_registers ! i)"
      using calculation(2) unfolding s1(1) Let_def s3_def by (simp add: set_reg_def)
    ultimately show ?thesis using pop_scratch_loaded [OF that, of s3] by (simp only:)
  qed
qed


lemma aligned_minus_multiple:
  assumes "take_bit 4 (x + a) = (0 :: u64)" "take_bit 4 (a + b) = 0"
  shows "take_bit 4 (x - b) = 0"
proof -
  have dvd: "take_bit 4 w = 0 \<longleftrightarrow> 16 dvd uint w" for w :: u64
    by (simp add: word_uint_eq_iff uint_mod take_bit_eq_mod dvd_eq_mod_eq_0)
  have m: "16 dvd k mod 18446744073709551616 \<longleftrightarrow> 16 dvd k" for k :: int by (simp add: dvd_mod_iff)
  from assms have "16 dvd uint x + uint a" "16 dvd uint a + uint b"
    by (simp_all add: dvd uint_word_ariths m)
  then have "16 dvd uint x - uint b" by presburger
  then show ?thesis by (simp add: dvd uint_word_ariths m)
qed

text \<open>
  C25. The wrappers call the handlers as the C calling convention asks: the first argument points to the
  exception frame the processor pushed, the second one is the error code, the stack pointer is a
  multiple of 16 (when the processor aligned the stack before it pushed the frame), and at \<open>iretq\<close> the
  stack pointer is back at the exception frame.
\<close>

theorem wrappers_call_handler:
  assumes "keeps_stack 10 h"
  shows "(take_bit 4 (regs s RSP + 40) = 0 \<longrightarrow>
       (\<exists>s1. handler_without_error_code h s = pop_scratch_registers (h (regs s RSP) (regs s RSI) s1) \<and>
          take_bit 4 (regs s1 RSP) = 0) \<and>
       regs (handler_without_error_code h s) RSP = regs s RSP) \<and>
     (take_bit 4 (regs s RSP + 48) = 0 \<longrightarrow>
       (\<exists>s1 s2. s2 = h (regs s RSP + 8) (stack s (regs s RSP)) s1 \<and>
          handler_with_error_code h s =
            (let s = pop_scratch_registers (set_reg RSP (regs s2 RSP + 8) s2) in set_reg RSP (regs s RSP + 8) s) \<and>
          take_bit 4 (regs s1 RSP) = 0) \<and>
       regs (handler_with_error_code h s) RSP = regs s RSP + 8)"
proof -
  have 9: "keeps_stack 9 h" using assms by (simp add: keeps_stack_def)
  have w: "\<exists>s1. handler_without_error_code h s = pop_scratch_registers (h (regs s RSP) (regs s RSI) s1) \<and>
          take_bit 4 (regs s1 RSP) = 0" if a: "take_bit 4 (regs s RSP + 40) = 0"
  proof -
    obtain s1 where s1: "handler_without_error_code h s = pop_scratch_registers (h (regs s RSP) (regs s RSI) s1)"
      "regs s1 RSP = regs s RSP - 72" using without_error_code_eq by blast
    have "take_bit 4 (regs s1 RSP) = 0" unfolding s1(2) by (rule aligned_minus_multiple [OF a]) simp
    with s1 show ?thesis by blast
  qed
  have e: "\<exists>s1 s2. s2 = h (regs s RSP + 8) (stack s (regs s RSP)) s1 \<and>
          handler_with_error_code h s =
            (let s = pop_scratch_registers (set_reg RSP (regs s2 RSP + 8) s2) in set_reg RSP (regs s RSP + 8) s) \<and>
          take_bit 4 (regs s1 RSP) = 0" if a: "take_bit 4 (regs s RSP + 48) = 0"
  proof -
    obtain s1 where s1: "handler_with_error_code h s =
       (let s = h (regs s RSP + 8) (stack s (regs s RSP)) s1;
            s = set_reg RSP (regs s RSP + 8) s;
            s = pop_scratch_registers s
        in set_reg RSP (regs s RSP + 8) s)" "regs s1 RSP = regs s RSP - 80"
      using with_error_code_eq by blast
    have "take_bit 4 (regs s1 RSP) = 0" unfolding s1(2) by (rule aligned_minus_multiple [OF a]) simp
    with s1(1) show ?thesis unfolding Let_def by blast
  qed
  from w e show ?thesis
    using without_error_code_regs(1) [OF 9] with_error_code_regs(1) [OF assms] by blast
qed

theorem wrappers_call_handler_witness:
  "regs (handler_with_error_code (\<lambda>_ _ s. s) \<lparr>regs = (\<lambda>_. 0x7FD0), stack = (\<lambda>_. 7)\<rparr>) RSP = 0x7FD8"
  using wrappers_call_handler [of "\<lambda>_ _ s. s" "\<lparr>regs = (\<lambda>_. 0x7FD0), stack = (\<lambda>_. 7)\<rparr>"]
  by (simp add: keeps_stack_def)

text \<open>
  C27. The wrappers do not restore the scratch registers: they are popped in the order they were pushed,
  so the interrupted code continues with them in reverse order (rax holds the old r11, rcx the old
  r10, rdx the old r9, rsi the old r8, and the other way round; only rdi is restored).
\<close>

theorem scratch_registers_reversed:
  assumes "keeps_stack 10 h" "i < 9"
  shows "regs (handler_without_error_code h s) (scratch_registers ! i) = regs s (scratch_registers ! (8 - i)) \<and>
     regs (handler_with_error_code h s) (scratch_registers ! i) = regs s (scratch_registers ! (8 - i)) \<and>
     (regs s RAX \<noteq> regs s R11 \<longrightarrow> regs (handler_without_error_code h s) RAX \<noteq> regs s RAX)"
proof -
  have 9: "keeps_stack 9 h" using assms(1) by (simp add: keeps_stack_def)
  note wo = without_error_code_regs(2) [OF 9]
  have "regs (handler_without_error_code h s) RAX = regs s R11"
    using wo [of 0 s] by (simp add: scratch_registers_def)
  with wo [OF assms(2)] with_error_code_regs(2) [OF assms] show ?thesis by simp
qed

theorem scratch_registers_reversed_witness:
  "regs (handler_without_error_code (\<lambda>_ _ s. s) \<lparr>regs = (\<lambda>r. if r = RAX then 1 else 2), stack = (\<lambda>_. 0)\<rparr>) RAX = 2"
  using scratch_registers_reversed [of "\<lambda>_ _ s. s" 0 "\<lparr>regs = (\<lambda>r. if r = RAX then 1 else 2), stack = (\<lambda>_. 0)\<rparr>"]
  by (simp add: keeps_stack_def scratch_registers_def)


text \<open>
  C37. The end of a hardware interrupt is reported with the remapped vector number (0x20 or 0x21), which is
  never below 8: for the timer and the keyboard, both lines of the master, the slave controller gets
  an end-of-interrupt as well, and a slave interrupt in service is completed that nobody handled.
\<close>

theorem end_of_interrupt_always_hits_slave:
  "\<exists>n. as_remapped_idt_number index = Inr n \<and>
     notify_end_of_interrupt pic_ports ChainedPics_new n (m, s) = (end_of_interrupt m, end_of_interrupt s) \<and>
     (in_service s = {6} \<longrightarrow> end_of_interrupt s \<noteq> s)"
proof -
  have "\<exists>n. as_remapped_idt_number index = Inr n \<and> 8 \<le> n"
    by (cases index) (simp_all add: as_remapped_idt_number_def MASTER_PIC_OFFSET_def op_add_def)
  moreover have "end_of_interrupt s \<noteq> s" if "in_service s = {6}"
  proof -
    have "in_service (end_of_interrupt s) = {}" using that by (simp add: end_of_interrupt_def)
    with that show ?thesis by auto
  qed
  ultimately show ?thesis by (auto simp: end_of_interrupt_chips)
qed

theorem end_of_interrupt_always_hits_slave_witness:
  "\<exists>n. as_remapped_idt_number Timer = Inr n \<and>
     snd (notify_end_of_interrupt pic_ports ChainedPics_new n
       (\<lparr>imr = 0, icw1 = 0x11, vector_offset = 0x20, cascade = 4, mode_word = 1, in_service = {0}, expecting = Operating\<rparr>,
        \<lparr>imr = 0, icw1 = 0x11, vector_offset = 0x28, cascade = 2, mode_word = 1, in_service = {6}, expecting = Operating\<rparr>)) \<noteq>
     \<lparr>imr = 0, icw1 = 0x11, vector_offset = 0x28, cascade = 2, mode_word = 1, in_service = {6}, expecting = Operating\<rparr>"
  using end_of_interrupt_always_hits_slave [of Timer
      "\<lparr>imr = 0, icw1 = 0x11, vector_offset = 0x20, cascade = 4, mode_word = 1, in_service = {0}, expecting = Operating\<rparr>"
      "\<lparr>imr = 0, icw1 = 0x11, vector_offset = 0x28, cascade = 2, mode_word = 1, in_service = {6}, expecting = Operating\<rparr>"]
  by auto

lemma print_str_free:
  "print_str C P (Mutex_new sp) s w = SerialPort_write_str C P sp (map of_char s) w"
  by (simp add: print_str_def Mutex_lock_turn_def compare_exchange_def Mutex_new_def)

text \<open>
  The text that goes out on the serial line between two logs of port accesses: the bytes written to the data port are
  its characters, each right after a poll of the line status that found the transmitter empty.
\<close>

definition prints :: "u16 \<Rightarrow> access list \<Rightarrow> string \<Rightarrow> access list \<Rightarrow> bool" where
  "prints base w text w' \<longleftrightarrow>
     (\<exists>t. w' = w @ t \<and> bytes_out base t = map of_char text \<and> paced (base + 5) base False t)"

lemma prints_refl [simp]: "prints base w [] w"
  by (simp add: prints_def)

lemma prints_trans [trans]: "prints base w s w' \<Longrightarrow> prints base w' t w'' \<Longrightarrow> prints base w (s @ t) w''"
  unfolding prints_def by (auto intro: paced_append)

definition ascii :: "string \<Rightarrow> bool" where
  "ascii s \<longleftrightarrow> (\<forall>c \<in> set s. of_char c < (128 :: nat))"

lemma ascii_append [simp]: "ascii (s @ t) \<longleftrightarrow> ascii s \<and> ascii t"
  by (auto simp: ascii_def)

lemma ascii_digit: "d < 16 \<Longrightarrow> ascii [digit d]"
proof -
  have "ascii ''0123456789abcdef''" by (simp add: ascii_def)
  moreover assume "d < 16"
  then have "digit d \<in> set ''0123456789abcdef''" unfolding digit_def by (intro nth_mem) simp
  ultimately show ?thesis unfolding ascii_def by auto
qed

lemma ascii_digits [simp]: "2 \<le> b \<Longrightarrow> b \<le> 16 \<Longrightarrow> ascii (digits b n)"
proof (induction b n rule: digits.induct)
  case (1 b n)
  show ?case
  proof (cases "n < b")
    case True
    with 1(3) show ?thesis by (subst digits.simps) (simp add: ascii_digit)
  next
    case False
    have "n mod b < 16" using 1(2,3) mod_less_divisor [of b n] by linarith
    with 1 False show ?thesis by (subst digits.simps) (simp add: ascii_digit del: digits.simps)
  qed
qed

lemma sent_ascii: "ascii s \<Longrightarrow> map sent_byte (map of_char s) = map of_char s"
  by (auto simp: ascii_def sent_byte_def of_nat_of_char)

lemma println_prints:
  assumes "crates_ok C" "SerialPort_new base = Inr sp" "\<forall>w. eventually_set answer (base + 5) 5 w" "ascii s"
  shows "\<exists>w'. println_str C (log_ports answer) (Mutex_new sp) s w = Some w' \<and> prints base w (s @ ''\<newline>'') w'"
proof -
  have sp: "line_stat sp = base + 5" "uart_data sp = base"
    using assms(2) by (auto simp: SerialPort_new_def rbind_eq_Inr op_add_eq_Inr)
  obtain t where t: "SerialPort_write_str C (log_ports answer) sp (map of_char (s @ ''\<newline>'')) w = Some (w @ t)"
    "bytes_out base t = map sent_byte (map of_char (s @ ''\<newline>''))" "paced (base + 5) base False t"
    using write_str_log [OF assms(1), of answer sp "map of_char (s @ ''\<newline>'')" w] assms(3) sp by auto
  have "ascii (s @ ''\<newline>'')" using assms(4) by (simp add: ascii_def)
  with t show ?thesis by (simp only: prints_def println_str_def print_str_free sent_ascii) blast
qed

text \<open>The initialisation of the interrupt controllers sends nothing on a serial line at other ports.\<close>

lemma pics_init_prints:
  assumes "base \<notin> {0x20, 0x21, 0x80, 0xA0, 0xA1}"
  shows "prints base w [] (ChainedPics_init (log_ports answer) ChainedPics_new off1 off2 w)"
  using assms
  by (auto simp: prints_def ChainedPics_init_def Pic_write_command_def Pic_write_data_def Pic_read_data_def Port_read_def
      Port_write_def io_wait_def ChainedPics_new_def MASTER_PIC_BASE_def SLAVE_PIC_BASE_def log_ports_def Let_def)

lemma println_log:
  assumes "crates_ok C" "SerialPort_new base = Inr sp" "\<forall>w. eventually_set answer (base + 5) 5 w"
  shows "\<exists>t. println_str C (log_ports answer) (Mutex_new sp) s w = Some (w @ t)"
proof -
  have "line_stat sp = base + 5"
    using assms(2) by (auto simp: SerialPort_new_def rbind_eq_Inr op_add_eq_Inr)
  then show ?thesis
    using write_str_log [OF assms(1), of answer sp] assms(3) by (metis print_str_free println_str_def)
qed

text \<open>
  The timer handler: with both locks free and a serial line that accepts characters it prints one full
  stop, writes the end of interrupt to both controllers as its last two port accesses, and returns.
  When the interrupted code holds the lock of the serial port (it was printing), the handler never
  returns: it spins on a lock that only the interrupted code can release.
\<close>

theorem timer_handler_outcome:
  assumes "crates_ok C" "SerialPort_new base = Inr sp" "\<forall>w. eventually_set answer (base + 5) 5 w"
  shows "(\<exists>t. timer_interrupt_handler C (log_ports answer) (Mutex_new sp) (Mutex_new ChainedPics_new) w =
          Returns (w @ t @ [Out 0xA0 0x20, Out 0x20 0x20]) \<and> bytes_out base t = [46]) \<and>
     (lock_status SERIAL \<longrightarrow> timer_interrupt_handler C (log_ports answer) SERIAL PICS w = Spins)"
proof -
  have sp: "line_stat sp = base + 5" "uart_data sp = base"
    using assms(2) by (auto simp: SerialPort_new_def rbind_eq_Inr op_add_eq_Inr)
  obtain t where t: "SerialPort_write_str C (log_ports answer) sp (map of_char ''.'') w = Some (w @ t)"
    "bytes_out base t = map sent_byte (map of_char ''.'')"
    using write_str_log [OF assms(1), of answer sp] assms(3) sp by metis
  have "notify_pics (log_ports answer) (Mutex_new ChainedPics_new) Timer v = Returns (v @ [Out 0xA0 0x20, Out 0x20 0x20])" for v
    by (simp add: notify_pics_def Mutex_lock_turn_def compare_exchange_def Mutex_new_def as_remapped_idt_number_def
        MASTER_PIC_OFFSET_def op_add_def notify_end_of_interrupt_def Pic_write_command_def Port_write_def
        ChainedPics_new_def SLAVE_PIC_BASE_def MASTER_PIC_BASE_def EndOfInterrupt_def log_ports_def)
  with t have "\<exists>t. timer_interrupt_handler C (log_ports answer) (Mutex_new sp) (Mutex_new ChainedPics_new) w =
          Returns (w @ t @ [Out 0xA0 0x20, Out 0x20 0x20]) \<and> bytes_out base t = [46]"
    by (auto simp: timer_interrupt_handler_def after_print_def print_str_free sent_byte_def)
  moreover have "timer_interrupt_handler C (log_ports answer) SERIAL PICS w = Spins" if "lock_status SERIAL"
    using that by (simp add: timer_interrupt_handler_def after_print_def print_str_def Mutex_lock_turn_def compare_exchange_def)
  ultimately show ?thesis by blast
qed

theorem timer_handler_outcome_witness:
  "\<exists>sp t. SerialPort_new 0x3F8 = Inr sp \<and>
     timer_interrupt_handler reference_crates (log_ports (\<lambda>_ _. 0x60)) (Mutex_new sp) (Mutex_new ChainedPics_new) [] =
       Returns (t @ [Out 0xA0 0x20, Out 0x20 0x20])"
proof -
  obtain sp where sp: "SerialPort_new 0x3F8 = Inr sp"
    by (simp add: SerialPort_new_def op_add_def)
  have "eventually_set (\<lambda>_ _. 0x60) (0x3F8 + 5) 5 w" for w
    by (simp add: eventually_set_def)
  then show ?thesis
    using timer_handler_outcome [OF reference_crates_ok sp, of "\<lambda>_ _. 0x60" "[]" "Mutex_new sp" "Mutex_new ChainedPics_new"] sp by auto
qed

text \<open>
  The page fault handler cannot report every page fault: the processor also sets error code bits that
  \<open>PageFaultErrorCode\<close> does not declare (bit 5 for protection keys, bit 15 for SGX), and with such
  an error code the handler panics before it prints anything. With declared bits only it prints and
  then loops.
\<close>

theorem page_fault_handler_outcome:
  assumes "crates_ok C" "SerialPort_new base = Inr sp" "\<forall>w. eventually_set answer (base + 5) 5 w"
  shows "if error_code < 32
     then \<exists>t. exception_handler C fmt (log_ports answer) (Mutex_new sp) Page_fault_handler frame error_code w = Loops (w @ t)
     else exception_handler C fmt (log_ports answer) (Mutex_new sp) Page_fault_handler frame error_code w = Panics w"
proof -
  note pr = println_log [OF assms, of _ w]
  have "error_code AND 0x1F = error_code \<longleftrightarrow> error_code < 32"
  proof -
    have m: "(0x1F :: u64) = mask 5" by (simp add: mask_eq_exp_minus_1)
    have "error_code AND mask 5 = error_code \<longleftrightarrow> unat error_code mod 32 = unat error_code"
      by (simp add: word_unat_eq_iff unat_and_mask)
    also have "\<dots> \<longleftrightarrow> unat error_code < 32"
      by (metis mod_less mod_less_divisor zero_less_numeral)
    finally show ?thesis by (simp add: m word_less_nat_alt)
  qed
  then show ?thesis
    using pr by (auto simp: exception_handler_def Let_def PageFaultErrorCode_from_bits_def crates_okD(6) [OF assms(1)]
        all_page_fault_flags_def after_print_def split: option.splits) (metis option.distinct(1) option.inject)+
qed

theorem page_fault_handler_outcome_witness:
  "\<exists>sp. SerialPort_new 0x3F8 = Inr sp \<and>
     exception_handler reference_crates (\<lambda>_. []) (log_ports (\<lambda>_ _. 0x60)) (Mutex_new sp) Page_fault_handler
       \<lparr>instruction_pointer = 0, code_segment = 8, cpu_flags = 2, stack_pointer = 0, stack_segment = 16\<rparr> 0x21 [] = Panics []"
proof -
  obtain sp where sp: "SerialPort_new 0x3F8 = Inr sp"
    by (simp add: SerialPort_new_def op_add_def)
  have "eventually_set (\<lambda>_ _. 0x60) (0x3F8 + 5) 5 w" for w
    by (simp add: eventually_set_def)
  then show ?thesis
    using page_fault_handler_outcome [OF reference_crates_ok sp, of "\<lambda>_ _. 0x60" "0x21" "\<lambda>_. []" _ "[]"] sp by auto
qed

end
