(* ===== verification/Registers.thy ===== *)
theory Registers
  imports Segments
begin

text \<open>
  The registers of the processor that the repository reads and writes (\<open>x86_64/src/register.rs\<close>,
  and the instructions \<open>lgdt\<close>, \<open>lidt\<close>, \<open>ltr\<close>, \<open>sti\<close> and \<open>cli\<close>). The state of the processor is a
  record; every function that executes an instruction is a function on it, with the instruction it
  really executes.
\<close>

record cpu =
  cpu_cr0 :: u64
  cpu_cr3 :: u64
  cpu_cr4 :: u64
  cpu_msr :: "u32 \<Rightarrow> u64"
  cpu_cs :: u16
  cpu_ss :: u16
  cpu_ds :: u16
  cpu_es :: u16
  cpu_fs :: u16
  cpu_gs :: u16
  cpu_tr :: u16
  cpu_gdtr :: "u16 \<times> u64"
  cpu_idtr :: "u16 \<times> u64"
  cpu_interrupts :: bool

section \<open>Model specific registers and EFER\<close>

definition LONG_MODE_ENABLE :: u64 where "LONG_MODE_ENABLE = push_bit 8 1"
definition NO_EXECUTE_ENABLE :: u64 where "NO_EXECUTE_ENABLE = push_bit 11 1"

definition all_efer_flags :: u64 where
  "all_efer_flags = 1 OR LONG_MODE_ENABLE OR push_bit 10 1 OR NO_EXECUTE_ENABLE OR push_bit 12 1 OR
     push_bit 13 1 OR push_bit 14 1 OR push_bit 15 1"

text \<open>\<open>rdmsr\<close> and \<open>wrmsr\<close> move the two halves of the register.\<close>

definition Msr_read :: "u32 \<Rightarrow> cpu \<Rightarrow> u64" where
  "Msr_read num s =
     (let high = (ucast (drop_bit 32 (cpu_msr s num)) :: u32); low = (ucast (cpu_msr s num) :: u32)
      in push_bit 32 (ucast high) OR ucast low)"

definition Msr_write :: "u32 \<Rightarrow> u64 \<Rightarrow> cpu \<Rightarrow> cpu" where
  "Msr_write num val s =
     (let high = (ucast (drop_bit 32 val) :: u32); low = (ucast val :: u32)
      in s\<lparr>cpu_msr := (cpu_msr s)(num := push_bit 32 (ucast high) OR ucast low)\<rparr>)"

definition MSR_NUM :: u32 where "MSR_NUM = 0xC0000080"

definition Efer_read_raw :: "cpu \<Rightarrow> u64" where
  "Efer_read_raw s = Msr_read MSR_NUM s"

definition Efer_read :: "crates \<Rightarrow> cpu \<Rightarrow> u64" where
  "Efer_read C s = flags_from_bits_truncate C all_efer_flags (Efer_read_raw s)"

definition Efer_write_raw :: "u64 \<Rightarrow> cpu \<Rightarrow> cpu" where
  "Efer_write_raw val s = Msr_write MSR_NUM val s"

definition Efer_write :: "u64 \<Rightarrow> cpu \<Rightarrow> cpu" where
  "Efer_write val s = Efer_write_raw val s"

definition Efer_update :: "crates \<Rightarrow> (u64 \<Rightarrow> u64) \<Rightarrow> cpu \<Rightarrow> cpu" where
  "Efer_update C f s = (let flags = Efer_read C s in Efer_write (f flags) s)"

section \<open>CR0 and CR3\<close>

definition PROTECTED_MODE_ENABLE :: u64 where "PROTECTED_MODE_ENABLE = 1"
definition WRITE_PROTECT :: u64 where "WRITE_PROTECT = push_bit 16 1"
definition PAGING :: u64 where "PAGING = push_bit 31 1"

definition all_cr0_flags :: u64 where
  "all_cr0_flags = PROTECTED_MODE_ENABLE OR push_bit 1 1 OR push_bit 2 1 OR push_bit 3 1 OR push_bit 4 1 OR
     push_bit 5 1 OR WRITE_PROTECT OR push_bit 18 1 OR push_bit 29 1 OR push_bit 30 1 OR PAGING"

definition Cr0_read_raw :: "cpu \<Rightarrow> u64" where
  "Cr0_read_raw s = cpu_cr0 s"

definition Cr0_read :: "crates \<Rightarrow> cpu \<Rightarrow> u64" where
  "Cr0_read C s = flags_from_bits_truncate C all_cr0_flags (Cr0_read_raw s)"

definition Cr0_write_raw :: "u64 \<Rightarrow> cpu \<Rightarrow> cpu" where
  "Cr0_write_raw val s = s\<lparr>cpu_cr0 := val\<rparr>"

definition Cr0_write :: "u64 \<Rightarrow> cpu \<Rightarrow> cpu" where
  "Cr0_write val s = Cr0_write_raw val s"

definition Cr0_update :: "crates \<Rightarrow> (u64 \<Rightarrow> u64) \<Rightarrow> cpu \<Rightarrow> cpu" where
  "Cr0_update C f s = (let flags = Cr0_read C s in Cr0_write (f flags) s)"

definition all_cr3_flags :: u64 where
  "all_cr3_flags = push_bit 3 1 OR push_bit 4 1"

definition Cr3_read_raw :: "cpu \<Rightarrow> u64" where
  "Cr3_read_raw s = cpu_cr3 s"

definition Cr3_read :: "crates \<Rightarrow> cpu \<Rightarrow> (PhysicalFrame \<times> u64) res" where
  "Cr3_read C s =
     (let raw = Cr3_read_raw s in
      rbind (PhysicalFrame_containing_address Size4KiB (raw AND 0x000ffffffffff000)) (\<lambda>frame.
      Inr (frame, flags_from_bits_truncate C all_cr3_flags (raw AND 0xfff))))"

text \<open>\<open>write_raw\<close> of \<open>Cr3\<close> executes \<open>mov cr0, val\<close>.\<close>

definition Cr3_write_raw :: "u64 \<Rightarrow> cpu \<Rightarrow> cpu" where
  "Cr3_write_raw val s = s\<lparr>cpu_cr0 := val\<rparr>"

definition Cr3_write :: "PhysicalFrame \<Rightarrow> u64 \<Rightarrow> cpu \<Rightarrow> cpu" where
  "Cr3_write frame val s = Cr3_write_raw (frame OR val) s"

definition Cr3_update_flags :: "crates \<Rightarrow> (u64 \<Rightarrow> u64) \<Rightarrow> cpu \<Rightarrow> cpu res" where
  "Cr3_update_flags C f s = rbind (Cr3_read C s) (\<lambda>(pml4t, flags). Inr (Cr3_write pml4t (f flags) s))"

definition Cr3_update_pml4t_base :: "crates \<Rightarrow> PhysicalFrame \<Rightarrow> cpu \<Rightarrow> cpu res" where
  "Cr3_update_pml4t_base C pml4t s = rbind (Cr3_read C s) (\<lambda>(_, flags). Inr (Cr3_write pml4t flags s))"

section \<open>Segment registers\<close>

definition CS_read :: "cpu \<Rightarrow> u16" where
  "CS_read s = cpu_cs s"

text \<open>The far return pops the selector; the low 16 bits of the value pushed are loaded.\<close>

definition CS_write_raw :: "u64 \<Rightarrow> cpu \<Rightarrow> cpu" where
  "CS_write_raw val s = s\<lparr>cpu_cs := ucast val\<rparr>"

definition CS_write :: "SegmentSelector \<Rightarrow> cpu \<Rightarrow> cpu" where
  "CS_write val s = CS_write_raw (ucast val) s"

text \<open>\<open>SS::read\<close> executes \<open>mov\<close> with the source operand \<open>cs\<close>.\<close>

definition SS_read :: "cpu \<Rightarrow> u16" where
  "SS_read s = cpu_cs s"

definition SS_write_raw :: "u16 \<Rightarrow> cpu \<Rightarrow> cpu" where
  "SS_write_raw val s = s\<lparr>cpu_ss := val\<rparr>"

definition SS_write :: "SegmentSelector \<Rightarrow> cpu \<Rightarrow> cpu" where
  "SS_write val s = SS_write_raw val s"

definition DS_read :: "cpu \<Rightarrow> u16" where
  "DS_read s = cpu_ds s"

definition DS_write_raw :: "u16 \<Rightarrow> cpu \<Rightarrow> cpu" where
  "DS_write_raw val s = s\<lparr>cpu_ds := val\<rparr>"

definition DS_write :: "SegmentSelector \<Rightarrow> cpu \<Rightarrow> cpu" where
  "DS_write val s = DS_write_raw val s"

definition ES_read :: "cpu \<Rightarrow> u16" where
  "ES_read s = cpu_es s"

definition ES_write_raw :: "u16 \<Rightarrow> cpu \<Rightarrow> cpu" where
  "ES_write_raw val s = s\<lparr>cpu_es := val\<rparr>"

definition ES_write :: "SegmentSelector \<Rightarrow> cpu \<Rightarrow> cpu" where
  "ES_write val s = ES_write_raw val s"

section \<open>Descriptor tables, the task register and interrupts\<close>

definition GlobalDescriptorTable_load :: "GlobalDescriptorTable \<Rightarrow> u64 \<Rightarrow> cpu \<Rightarrow> cpu" where
  "GlobalDescriptorTable_load self address s = s\<lparr>cpu_gdtr := GlobalDescriptorTableDescriptor_new self address\<rparr>"

definition TaskStateSegment_load :: "SegmentSelector \<Rightarrow> cpu \<Rightarrow> cpu" where
  "TaskStateSegment_load sel s = s\<lparr>cpu_tr := sel\<rparr>"

definition interrupts_enable :: "cpu \<Rightarrow> cpu" where
  "interrupts_enable s = s\<lparr>cpu_interrupts := True\<rparr>"

definition interrupts_disable :: "cpu \<Rightarrow> cpu" where
  "interrupts_disable s = s\<lparr>cpu_interrupts := False\<rparr>"

definition clear_interrupts_and_load :: "GlobalDescriptorTable \<Rightarrow> u64 \<Rightarrow> cpu \<Rightarrow> cpu" where
  "clear_interrupts_and_load self address s = GlobalDescriptorTable_load self address (interrupts_disable s)"

section \<open>Reading back\<close>

lemma halves_join: "push_bit 32 (ucast (ucast (drop_bit 32 v) :: u32)) OR ucast (ucast v :: u32) = (v :: u64)"
proof (rule bit_word_eqI)
  fix i assume "i < LENGTH(64)"
  then show "bit (push_bit 32 (ucast (ucast (drop_bit 32 v) :: u32)) OR ucast (ucast v :: u32) :: u64) i = bit v i"
    by (cases "i < 32") (auto simp: bit_simps)
qed

lemma Msr_read_eq: "Msr_read n s = cpu_msr s n"
  by (simp only: Msr_read_def Let_def halves_join)

lemma Msr_write_eq: "Msr_write n v s = s\<lparr>cpu_msr := (cpu_msr s)(n := v)\<rparr>"
  by (simp only: Msr_write_def Let_def halves_join)

section \<open>Properties\<close>

text \<open>
  Updating a register through its flags: \<open>update\<close> of EFER and of CR0 applies the function to the
  declared flags that are set, writes the result and touches nothing else of the processor; the bits
  for which no flag is declared are written as 0. A function that only adds declared flags is seen by
  the next \<open>read\<close>, with every other declared flag as it was.
\<close>

theorem register_update:
  assumes "crates_ok C"
  shows "Efer_update C f s = s\<lparr>cpu_msr := (cpu_msr s)(MSR_NUM := f (cpu_msr s MSR_NUM AND all_efer_flags))\<rparr> \<and>
     Cr0_update C f s = s\<lparr>cpu_cr0 := f (cpu_cr0 s AND all_cr0_flags)\<rparr> \<and>
     (flag AND all_efer_flags = flag \<longrightarrow>
        Efer_read C (Efer_update C (\<lambda>v. flags_union C v flag) s) = Efer_read C s OR flag) \<and>
     (flag AND all_cr0_flags = flag \<longrightarrow>
        Cr0_read C (Cr0_update C (\<lambda>v. flags_union C v flag) s) = Cr0_read C s OR flag)"
proof -
  note c = crates_okD(2,5) [OF assms]
  have or: "(a AND m OR b) AND m = a AND m OR b" if "b AND m = b" for a b m :: u64
    using that by (metis and.assoc and.idem bit.conj_disj_distrib2)
  show ?thesis
    by (auto simp: Efer_update_def Efer_write_def Efer_write_raw_def Efer_read_def Efer_read_raw_def Msr_read_eq Msr_write_eq
        Cr0_update_def Cr0_write_def Cr0_write_raw_def Cr0_read_def Cr0_read_raw_def c or)
qed

definition example_cpu :: cpu where
  "example_cpu = \<lparr>cpu_cr0 = 0x80000011, cpu_cr3 = 0x1000, cpu_cr4 = 0, cpu_msr = (\<lambda>_. 0x500), cpu_cs = 8, cpu_ss = 16,
     cpu_ds = 16, cpu_es = 16, cpu_fs = 0, cpu_gs = 0, cpu_tr = 0, cpu_gdtr = (0, 0), cpu_idtr = (0, 0), cpu_interrupts = False\<rparr>"

theorem register_update_witness:
  "Efer_read reference_crates (Efer_update reference_crates (\<lambda>v. flags_union reference_crates v NO_EXECUTE_ENABLE) example_cpu) = 0xD00"
  using register_update [OF reference_crates_ok, of "\<lambda>v. v" example_cpu NO_EXECUTE_ENABLE]
  by (simp add: NO_EXECUTE_ENABLE_def all_efer_flags_def LONG_MODE_ENABLE_def Efer_read_def Efer_read_raw_def Msr_read_eq
      example_cpu_def reference_crates_def)

text \<open>
  Every write to CR3 goes to CR0: \<open>write\<close>, \<open>update_flags\<close> and \<open>update_pml4t_base\<close> leave CR3 and the other registers
  as they are, so that \<open>read\<close> still answers the old table, and put the frame address and the cache flags into CR0. As
  a frame address has its low bits clear, the bit for protected mode of the value comes from the flags alone, and the
  declared cache flags do not have it. (The processor refuses such a value in 64-bit mode; that fault is not modelled.)
\<close>

lemma frame_bit_0: "page_aligned Size4KiB frame \<Longrightarrow> \<not> bit frame 0"
proof -
  assume "page_aligned Size4KiB frame"
  then have "frame = frame AND NOT (mask 12)" using containing_aligned [of Size4KiB frame] by simp
  then have "bit frame 0 = bit (frame AND NOT (mask 12)) 0" by simp
  then show ?thesis by (simp add: bit_and_iff bit_not_iff bit_mask_iff)
qed

lemma Cr3_read_eq:
  "crates_ok C \<Longrightarrow> Cr3_read C s = Inr (cpu_cr3 s AND 0x000ffffffffff000, cpu_cr3 s AND all_cr3_flags)"
proof -
  assume C: "crates_ok C"
  have "(0x000ffffffffff000 :: u64) AND NOT (mask 12) = 0x000ffffffffff000" by (simp add: mask_eq_exp_minus_1)
  then have "(cpu_cr3 s AND 0x000ffffffffff000) AND NOT (mask 12) = cpu_cr3 s AND 0x000ffffffffff000" by (simp add: and.assoc)
  then show ?thesis
    by (simp add: Cr3_read_def Let_def Cr3_read_raw_def crates_okD(5) [OF C] all_cr3_flags_def and.assoc)
qed

theorem cr3_write_clobbers_cr0:
  assumes "crates_ok C" "page_aligned Size4KiB frame"
  shows "Cr3_write frame flags s = s\<lparr>cpu_cr0 := frame OR flags\<rparr> \<and>
     Cr3_read C (Cr3_write frame flags s) = Cr3_read C s \<and>
     Cr3_update_flags C f s = Inr (s\<lparr>cpu_cr0 := (cpu_cr3 s AND 0x000ffffffffff000) OR f (cpu_cr3 s AND all_cr3_flags)\<rparr>) \<and>
     Cr3_update_pml4t_base C frame s = Inr (s\<lparr>cpu_cr0 := frame OR (cpu_cr3 s AND all_cr3_flags)\<rparr>) \<and>
     \<not> bit (frame OR (cpu_cr3 s AND all_cr3_flags)) 0 \<and> (bit (frame OR flags) 0 \<longleftrightarrow> bit flags 0)"
  using frame_bit_0 [OF assms(2)]
  by (simp add: Cr3_update_pml4t_base_def Cr3_update_flags_def Cr3_read_eq [OF assms(1)] Cr3_write_def Cr3_write_raw_def
      bit_or_iff bit_and_iff) (simp add: all_cr3_flags_def bit_0)

theorem cr3_write_clobbers_cr0_witness:
  "\<exists>s'. Cr3_update_pml4t_base reference_crates 0x5000 example_cpu = Inr s' \<and> cpu_cr3 s' = 0x1000 \<and> cpu_cr0 s' = 0x5000"
  using cr3_write_clobbers_cr0 [OF reference_crates_ok, of "0x5000" _ example_cpu]
  by (auto simp: page_aligned_def example_cpu_def all_cr3_flags_def)

end
