(* ===== verification/Boot_Info.thy ===== *)
theory Boot_Info
  imports Memory
begin

text \<open>
  The structures that the boot stages and the kernel hand to each other: the BIOS memory regions and
  \<open>BiosInfo\<close> (\<open>bootloader/x86_64/bios/common/src/lib.rs\<close>, stage 2 to stage 4) and \<open>BootInfo\<close>
  (\<open>bootloader/api/src/lib.rs\<close>, stage 4 to the kernel).
\<close>

section \<open>The boot interface of the kernel\<close>

datatype PixelFormat = Rgb | Bgr | Unknown u8 u8 u8

record FramebufferInfo =
  fb_region :: PhysicalMemoryRegion
  fb_width :: u16
  fb_height :: u16
  fb_bytes_per_pixel :: u8
  fb_stride :: u16
  fb_pixel_format :: PixelFormat

definition FramebufferInfo_new ::
    "PhysicalMemoryRegion \<Rightarrow> u16 \<Rightarrow> u16 \<Rightarrow> u8 \<Rightarrow> u16 \<Rightarrow> PixelFormat \<Rightarrow> FramebufferInfo" where
  "FramebufferInfo_new region width height bytes_per_pixel stride pixel_format =
     \<lparr>fb_region = region, fb_width = width, fb_height = height, fb_bytes_per_pixel = bytes_per_pixel,
      fb_stride = stride, fb_pixel_format = pixel_format\<rparr>"

text \<open>
  \<open>PhysicalMemoryRegions\<close> is a pointer and a length; \<open>deref\<close> reads the regions from memory, 24 bytes
  apart. \<open>region_memory\<close> is what memory holds as regions.
\<close>

type_synonym region_memory = "u64 \<Rightarrow> PhysicalMemoryRegion"

record PhysicalMemoryRegions =
  pmrs_ptr :: u64
  pmrs_len :: nat

definition PhysicalMemoryRegions_new :: "u64 \<Rightarrow> nat \<Rightarrow> PhysicalMemoryRegions" where
  "PhysicalMemoryRegions_new ptr len = \<lparr>pmrs_ptr = ptr, pmrs_len = len\<rparr>"

definition PhysicalMemoryRegion_size_of :: u64 where "PhysicalMemoryRegion_size_of = 24"

definition PhysicalMemoryRegions_deref :: "region_memory \<Rightarrow> PhysicalMemoryRegions \<Rightarrow> PhysicalMemoryRegion list" where
  "PhysicalMemoryRegions_deref rm self =
     map (\<lambda>i. rm (pmrs_ptr self + of_nat i * PhysicalMemoryRegion_size_of)) [0 ..< pmrs_len self]"

record BootInfo =
  bi_kernel :: PhysicalMemoryRegion
  bi_framebuffer :: FramebufferInfo
  bi_memory_regions :: PhysicalMemoryRegions
  bi_physical_memory_offset :: u64

definition BootInfo_new ::
    "PhysicalMemoryRegion \<Rightarrow> FramebufferInfo \<Rightarrow> PhysicalMemoryRegions \<Rightarrow> u64 \<Rightarrow> BootInfo" where
  "BootInfo_new kernel_region framebuffer memory_regions physical_memory_offset =
     \<lparr>bi_kernel = kernel_region, bi_framebuffer = framebuffer, bi_memory_regions = memory_regions,
      bi_physical_memory_offset = physical_memory_offset\<rparr>"

section \<open>The BIOS memory regions\<close>

datatype E820MemoryRegionType = E820_None | E820_Normal | E820_Reserved | AcpiReclaimable | AcpiNvs | Unusable

fun E820MemoryRegionType_into :: "E820MemoryRegionType \<Rightarrow> PhysicalMemoryRegionType" where
  "E820MemoryRegionType_into E820_Normal = Free"
| "E820MemoryRegionType_into _ = Reserved"

record E820MemoryRegion =
  e820_start :: u64
  e820_size :: u64
  e820_typ :: E820MemoryRegionType
  acpi_extended_attributes :: u32

definition E820MemoryRegion_empty :: E820MemoryRegion where
  "E820MemoryRegion_empty =
     \<lparr>e820_start = 0, e820_size = 0, e820_typ = Unusable, acpi_extended_attributes = 0\<rparr>"

definition E820MemoryRegion_into :: "E820MemoryRegion \<Rightarrow> PhysicalMemoryRegion" where
  "E820MemoryRegion_into self =
     PhysicalMemoryRegion_new (e820_start self) (e820_size self) (E820MemoryRegionType_into (e820_typ self))"

definition E820MemoryRegion_end :: "E820MemoryRegion \<Rightarrow> u64 res" where
  "E820MemoryRegion_end self = op_add (e820_start self) (e820_size self)"

definition E820MemoryRegion_contains :: "E820MemoryRegion \<Rightarrow> u64 \<Rightarrow> bool res" where
  "E820MemoryRegion_contains self address =
     (if e820_start self \<le> address
      then rbind (E820MemoryRegion_end self) (\<lambda>e. Inr (address \<le> e)) else Inr False)"

definition E820MemoryRegion_is_usable :: "E820MemoryRegion \<Rightarrow> bool" where
  "E820MemoryRegion_is_usable self \<longleftrightarrow> e820_typ self = E820_Normal"

definition E820MemoryRegion_MemoryRegion :: "E820MemoryRegion MemoryRegion" where
  "E820MemoryRegion_MemoryRegion =
     \<lparr>mr_start = e820_start,
      mr_set_start = (\<lambda>self s. self\<lparr>e820_start := s\<rparr>),
      mr_end = E820MemoryRegion_end,
      mr_size = e820_size,
      mr_set_size = (\<lambda>self s. self\<lparr>e820_size := s\<rparr>),
      mr_contains = E820MemoryRegion_contains,
      mr_is_usable = E820MemoryRegion_is_usable\<rparr>"

interpretation e820_region: memory_region E820MemoryRegion_MemoryRegion
  by unfold_locales (simp_all add: E820MemoryRegion_MemoryRegion_def E820MemoryRegion_end_def
      E820MemoryRegion_contains_def E820MemoryRegion_is_usable_def)

record BiosInfo =
  bios_stage4 :: PhysicalMemoryRegion
  bios_kernel :: PhysicalMemoryRegion
  bios_framebuffer :: FramebufferInfo
  last_physical_address :: u64
  memory_map_address :: u64
  memory_map_size :: u64

definition BiosInfo_new ::
    "PhysicalMemoryRegion \<Rightarrow> PhysicalMemoryRegion \<Rightarrow> FramebufferInfo \<Rightarrow> u64 \<Rightarrow> u64 \<Rightarrow> u64 \<Rightarrow> BiosInfo" where
  "BiosInfo_new stage4 kernel_region framebuffer last_address map_address map_size =
     \<lparr>bios_stage4 = stage4, bios_kernel = kernel_region, bios_framebuffer = framebuffer,
      last_physical_address = last_address, memory_map_address = map_address, memory_map_size = map_size\<rparr>"

end
