(* ===== verification/Kernel_Init.thy ===== *)
theory Kernel_Init
  imports Offset_Page_Table Fresh_Pages Buddy_Heap Interrupts Registers Boot_Info
begin

text \<open>
  The initialisation of the kernel: the heap (\<open>init_heap\<close> and \<open>Locked\<close> of \<open>kernel/src/allocator.rs\<close>), the
  page table in use (\<open>kernel/src/paging.rs\<close>), the descriptor tables and interrupts
  (\<open>init\<close> of \<open>kernel/src/interrupts/mod.rs\<close>) and \<open>kernel_init\<close> of \<open>kernel/src/lib.rs\<close>, which puts them
  together. Invalidating the translation cache (\<open>flush\<close>) has no effect on the model, which has no cache.
\<close>

section \<open>The heap\<close>

type_synonym Locked = "BuddyAllocator Mutex"

definition Locked_new :: "BuddyAllocator \<Rightarrow> Locked" where
  "Locked_new inner = Mutex_new inner"

text \<open>\<open>lock\<close> on the only thread of the kernel: it never returns when the lock is taken.\<close>

definition Locked_lock :: "Locked \<Rightarrow> Locked res" where
  "Locked_lock self = (case Mutex_lock_turn self of (True, m) \<Rightarrow> Inr m | (False, _) \<Rightarrow> Inl Diverges)"

definition heap_flags :: "crates \<Rightarrow> PageTableEntryFlags" where
  "heap_flags C = flags_union C (flags_union C PRESENT WRITABLE) NO_EXECUTE"

definition init_heap ::
    "crates \<Rightarrow> frame_mapping \<Rightarrow> 'a allocate \<Rightarrow> VirtualAddress \<Rightarrow> Locked \<Rightarrow> table_memory \<times> 'a \<Rightarrow>
     ((table_memory \<times> 'a) \<times> Locked) res" where
  "init_heap C P allocate page_table ALLOCATOR st =
     rbind (Page_containing_address Size4KiB HEAP_START) (\<lambda>start_page.
     rbind (VirtualAddress_add HEAP_START HEAP_SIZE) (\<lambda>heap_end.
     rbind (VirtualAddress_sub heap_end 1) (\<lambda>heap_last.
     rbind (Page_containing_address Size4KiB heap_last) (\<lambda>end_page.
     rbind (page_range_for Size4KiB (map_fresh_page C P allocate page_table (heap_flags C)) (start_page, end_page) st) (\<lambda>st.
     rbind (Page_containing_address Size4KiB heap_end) (\<lambda>guard_page.
     rbind (map_fresh_page C P allocate page_table NONE guard_page st) (\<lambda>st.
     rbind (Locked_lock ALLOCATOR) (\<lambda>guard.
     rbind (BuddyAllocator_init (mutex_inner guard) HEAP_START HEAP_SIZE) (\<lambda>inner.
     Inr (st, MutexGuard_drop (guard\<lparr>mutex_inner := inner\<rparr>)))))))))))"

section \<open>Interrupts\<close>

text \<open>
  \<open>init\<close>: load the table of segments and its selectors, the interrupt table, remap the controllers and
  allow interrupts. \<open>tss_ptr\<close>, \<open>gdt_ptr\<close> and \<open>idt_ptr\<close> are the addresses of the statics, \<open>addr\<close> of the
  handlers; the interrupt table is built on first use, with the code segment of that moment.
\<close>

definition interrupts_init ::
    "crates \<Rightarrow> 'w ports \<Rightarrow> SerialPort Mutex \<Rightarrow> ChainedPics Mutex \<Rightarrow> u64 \<Rightarrow> u64 \<Rightarrow> u64 \<Rightarrow> (kernel_handler \<Rightarrow> u64) \<Rightarrow>
     cpu \<times> 'w \<Rightarrow> (cpu \<times> 'w) handler_end" where
  "interrupts_init C P SERIAL PICS tss_ptr gdt_ptr idt_ptr addr = (\<lambda>(s, w).
     case kernel_GDT C tss_ptr of Inl _ \<Rightarrow> Panics (s, w)
     | Inr (gdt, tss_selector, code_selector, data_selector) \<Rightarrow>
         let s = GlobalDescriptorTable_load gdt gdt_ptr s;
             s = CS_write code_selector s;
             s = DS_write data_selector s;
             s = ES_write data_selector s;
             s = SS_write data_selector s;
             s = TaskStateSegment_load tss_selector s
         in (case kernel_IDT C (CS_read s) addr of Inl _ \<Rightarrow> Panics (s, w)
             | Inr idt \<Rightarrow>
                 (case println_str C P SERIAL (''Idt addr: '' @ digits 16 (unat idt_ptr)) w of None \<Rightarrow> Spins
                  | Some w \<Rightarrow>
                      let s = s\<lparr>cpu_idtr := InterruptTableDescriptor_for idt idt_ptr\<rparr>
                      in (case Mutex_lock_turn PICS of (False, _) \<Rightarrow> Spins
                          | (True, pics) \<Rightarrow>
                              Returns (interrupts_enable s,
                                ChainedPics_init P (mutex_inner pics) MASTER_PIC_OFFSET SLAVE_PIC_OFFSET w)))))"

section \<open>The kernel\<close>

text \<open>\<open>paging::init\<close>: the level 4 table in use, at its address in the mapping of the physical memory.\<close>

definition paging_init :: "crates \<Rightarrow> BootInfo \<Rightarrow> cpu \<Rightarrow> VirtualAddress res" where
  "paging_init C boot_info s =
     rbind (Cr3_read C s) (\<lambda>(pml4t, _). op_add pml4t (bi_physical_memory_offset boot_info))"

text \<open>
  \<open>kernel_init\<close> after the call of \<open>interrupts::init\<close>, which is above: the page table, the frame
  allocator over the regions of the boot information, and the heap.
\<close>

definition kernel_init_memory ::
    "crates \<Rightarrow> BootInfo \<Rightarrow> region_memory \<Rightarrow> Locked \<Rightarrow> cpu \<Rightarrow> table_memory \<Rightarrow>
     (VirtualAddress \<times> (table_memory \<times> PhysicalMemoryRegion BumpFrameAllocator) \<times> Locked) res" where
  "kernel_init_memory C boot_info rm ALLOCATOR s m =
     rbind (paging_init C boot_info s) (\<lambda>pml4t.
     let frame_allocator = BumpFrameAllocator_new (PhysicalMemoryRegions_deref rm (bi_memory_regions boot_info)) in
     rbind (init_heap C (PhysicalOffset_frame_to_virtual (bi_physical_memory_offset boot_info)) region_frames_allocator
              pml4t ALLOCATOR (m, frame_allocator)) (\<lambda>(st, ALLOCATOR).
     Inr (pml4t, st, ALLOCATOR)))"

text \<open>A boot step that ends as a handler does, as a result.\<close>

fun handler_res :: "'s handler_end \<Rightarrow> 's res" where
  "handler_res (Returns s) = Inr s"
| "handler_res (Loops s) = Inl Diverges"
| "handler_res (Panics s) = Inl Explicit_Panic"
| "handler_res Spins = Inl Diverges"

definition kernel_init ::
    "crates \<Rightarrow> 'w ports \<Rightarrow> SerialPort Mutex \<Rightarrow> ChainedPics Mutex \<Rightarrow> u64 \<Rightarrow> u64 \<Rightarrow> u64 \<Rightarrow> (kernel_handler \<Rightarrow> u64) \<Rightarrow>
     BootInfo \<Rightarrow> region_memory \<Rightarrow> Locked \<Rightarrow> cpu \<Rightarrow> 'w \<Rightarrow> table_memory \<Rightarrow>
     (cpu \<times> 'w \<times> VirtualAddress \<times> (table_memory \<times> PhysicalMemoryRegion BumpFrameAllocator) \<times> Locked) res" where
  "kernel_init C P SERIAL PICS tss_ptr gdt_ptr idt_ptr addr boot_info rm ALLOCATOR s w m =
     (case println_str C P SERIAL ''Initializing kernel'' w of None \<Rightarrow> Inl Diverges
      | Some w \<Rightarrow>
          rbind (handler_res (interrupts_init C P SERIAL PICS tss_ptr gdt_ptr idt_ptr addr (s, w))) (\<lambda>(s, w).
          rbind (kernel_init_memory C boot_info rm ALLOCATOR s m) (\<lambda>(pml4t, st, ALLOCATOR).
          Inr (s, w, pml4t, st, ALLOCATOR))))"

section \<open>The pages of the heap\<close>

definition heap_pages :: "Page list" where
  "heap_pages = map (\<lambda>i. HEAP_START + of_nat i * SIZE Size4KiB) [0 ..< 25]"

definition heap_guard :: Page where
  "heap_guard = HEAP_START + HEAP_SIZE"

lemma heap_flags_eq: "crates_ok C \<Longrightarrow> heap_flags C = 0x8000000000000003"
  by (simp add: heap_flags_def crates_okD PRESENT_def WRITABLE_def NO_EXECUTE_def)

lemma heap_flags_bits: "flag_bits_ok 0x8000000000000003" "bit (0x8000000000000003 :: u64) 0" "flag_bits_ok NONE"
  by (simp_all add: flag_bits_ok_def frame_of_eq_and NONE_def bit_0)

lemma heap_range_items: "range_items Size4KiB HEAP_START 0x444444458000 = heap_pages"
  by (simp add: range_items_def heap_pages_def HEAP_START_def)

lemma heap_guard_eq: "heap_guard = 0x444444459000"
  by (simp add: heap_guard_def HEAP_START_def HEAP_SIZE_def)

lemma heap_pages_26: "heap_pages @ [heap_guard] = map (\<lambda>i. HEAP_START + of_nat i * SIZE Size4KiB) [0 ..< 26]"
proof -
  have "[0 ..< 26] = [0 ..< 25] @ [25 :: nat]" by (simp add: upt_rec)
  then show ?thesis by (simp add: heap_pages_def heap_guard_def HEAP_START_def HEAP_SIZE_def)
qed

lemma distinct_heap_pages: "crates_ok C \<Longrightarrow> distinct (map (page_indices C) (heap_pages @ [heap_guard]))"
  unfolding heap_pages_26
  by (rule distinct_range_pages) (simp_all add: HEAP_START_def page_aligned_def)

lemma init_heap_eq:
  "init_heap C P allocate root ALLOCATOR st =
     rbind (rfold (map_fresh_page C P allocate root (heap_flags C)) heap_pages st) (\<lambda>st.
     rbind (map_fresh_page C P allocate root NONE heap_guard st) (\<lambda>st.
     rbind (Locked_lock ALLOCATOR) (\<lambda>guard.
     rbind (BuddyAllocator_init (mutex_inner guard) HEAP_START HEAP_SIZE) (\<lambda>inner.
     Inr (st, MutexGuard_drop (guard\<lparr>mutex_inner := inner\<rparr>))))))"
proof -
  have a: "VirtualAddress_add HEAP_START HEAP_SIZE = Inr 0x444444459000" "VirtualAddress_sub 0x444444459000 1 = Inr 0x444444458FFF"
    by (simp_all add: VirtualAddress_add_def VirtualAddress_sub_def op_add_def checked_sub_def HEAP_START_def HEAP_SIZE_def)
  have c: "Page_containing_address Size4KiB HEAP_START = Inr HEAP_START" "Page_containing_address Size4KiB 0x444444458FFF = Inr 0x444444458000"
    "Page_containing_address Size4KiB 0x444444459000 = Inr heap_guard"
    by (simp_all add: HEAP_START_def heap_guard_eq mask_eq_exp_minus_1)
  have l: "page_range_for Size4KiB body (HEAP_START, 0x444444458000) st = rfold body heap_pages st" for body
    unfolding heap_range_items [symmetric] by (rule page_range_for_items) simp
  show ?thesis by (simp only: init_heap_def a c rbind_Inr l)
qed

lemma Locked_lock_new: "Locked_lock (Locked_new h) = Inr \<lparr>mutex_inner = h, lock_status = True\<rparr>"
  by (simp add: Locked_lock_def Locked_new_def Mutex_new_def Mutex_lock_turn_def compare_exchange_def)

definition heap_ready :: "crates \<Rightarrow> u64 \<Rightarrow> VirtualAddress \<Rightarrow> table_memory \<Rightarrow> PhysicalMemoryRegion BumpFrameAllocator \<Rightarrow> bool" where
  "heap_ready C offset root m a \<longleftrightarrow> offset_ready offset root m a \<and>
     unat (bump_next a) + 104 \<le> length (map_frames PhysicalMemoryRegion_MemoryRegion (bump_memory_map a)) \<and>
     unat (bump_next a) + 104 < 2 ^ 64 \<and>
     (\<forall>p \<in> set (heap_pages @ [heap_guard]). offset_no_huge C offset root m p \<and> offset_mmu offset m root (page_indices C p) = None)"

definition heap_mapped ::
    "crates \<Rightarrow> u64 \<Rightarrow> VirtualAddress \<Rightarrow> table_memory \<Rightarrow> table_memory \<Rightarrow> PhysicalFrame list \<Rightarrow> bool" where
  "heap_mapped C offset root m m' fs \<longleftrightarrow> length fs = 25 \<and> distinct fs \<and>
     (\<forall>i < 25. offset_mmu offset m' root (page_indices C (HEAP_START + of_nat i * SIZE Size4KiB)) =
        Some (Small (fs ! i) (fs ! i OR heap_flags C))) \<and>
     offset_mmu offset m' root (page_indices C heap_guard) = None \<and>
     (\<forall>ix. indices_ok ix \<and> ix \<notin> page_indices C ` set heap_pages \<longrightarrow> offset_mmu offset m' root ix = offset_mmu offset m root ix)"

lemma init_heap_mapped:
  assumes C: "crates_ok C" and r: "heap_ready C offset root m a"
  shows "\<exists>fs m' a' h. init_heap C (PhysicalOffset_frame_to_virtual offset) region_frames_allocator root
         (Locked_new (BuddyAllocator_new hm)) (m, a) = Inr ((m', a'), Locked_new h) \<and>
     heap_mapped C offset root m m' fs \<and> offset_ready offset root m' a' \<and> heap_inv (h, []) \<and>
     BuddyAllocator_init (BuddyAllocator_new hm) HEAP_START HEAP_SIZE = Inr h \<and>
     set fs \<subseteq> bump_avail PhysicalMemoryRegion_MemoryRegion a - bump_avail PhysicalMemoryRegion_MemoryRegion a'"
proof -
  let ?P = "PhysicalOffset_frame_to_virtual offset" and ?D = PhysicalMemoryRegion_MemoryRegion
  note T = offset_table_mapper [OF C, of offset]
  note rd = r [unfolded heap_ready_def offset_ready_def offset_no_huge_def offset_mmu_def]
  have inv: "bump_inv ?D a" using rd by (simp add: mapper_ready_def)
  have su: "can_supply region_frames_allocator (4 * length heap_pages + (4 + 0)) a"
    by (rule physical_region.bump_can_supply [OF inv]) (use rd in \<open>simp_all add: heap_pages_def\<close>)
  have fl: "flag_bits_ok (heap_flags C)" "bit (heap_flags C) 0" using heap_flags_bits by (simp_all add: heap_flags_eq [OF C])
  have ds: "distinct (map (page_indices C) heap_pages)" "page_indices C heap_guard \<notin> page_indices C ` set heap_pages"
    using distinct_heap_pages [OF C] by simp_all
  from table_mapper.map_fresh_pages_spec [OF T, of root m a heap_pages "4 + 0" "heap_flags C"] rd su fl(1) ds(1)
  obtain fs m1 a1 where
    1: "rfold (map_fresh_page C ?P region_frames_allocator root (heap_flags C)) heap_pages (m, a) = Inr (m1, a1)"
      "mapper_ready ?P (usable_offset offset) (bump_inv ?D) (bump_avail ?D) root m1 a1"
      "grows_at 3 ?P (bump_avail ?D) root m a m1 a1" "length fs = length heap_pages" "distinct fs"
      "set fs \<subseteq> bump_avail ?D a - bump_avail ?D a1" "can_supply region_frames_allocator (4 + 0) a1"
    and mmu1: "\<And>ix. indices_ok ix \<Longrightarrow> mmu_lookup ?P m1 root ix = mapped_pages C (heap_flags C) (zip heap_pages fs) (mmu_lookup ?P m root) ix"
    by auto
  have g1: "no_huge_above_page C ?P root m1 heap_guard"
    using table_mapper.no_huge_grows [OF T 1(3)] rd by simp
  have ok: "indices_ok (page_indices C p)" for p by (rule table_mapper.indices_ok_page [OF T])
  have u1: "mmu_lookup ?P m1 root (page_indices C heap_guard) = None"
    using mmu1 [OF ok] mapped_pages_other [OF ds(2) 1(4)] rd by simp
  from table_mapper.map_fresh_page_spec [OF T 1(2,7) g1 heap_flags_bits(3) u1] obtain f m2 a2 where
    2: "map_fresh_page C ?P region_frames_allocator root NONE heap_guard (m1, a1) = Inr (m2, a2)"
      "mapper_ready ?P (usable_offset offset) (bump_inv ?D) (bump_avail ?D) root m2 a2" "grows_at 3 ?P (bump_avail ?D) root m1 a1 m2 a2"
    and mmu2: "\<And>ix. indices_ok ix \<Longrightarrow> mmu_lookup ?P m2 root ix =
        (if ix = page_indices C heap_guard then if bit NONE 0 then Some (Small f (f OR NONE)) else None else mmu_lookup ?P m1 root ix)"
    by blast
  have b0: "\<not> bit NONE 0" by (simp add: NONE_def)
  obtain h where h: "BuddyAllocator_init (BuddyAllocator_new hm) HEAP_START HEAP_SIZE = Inr h" "heap_inv (h, [])"
    using kernel_heap_init by blast
  have "init_heap C ?P region_frames_allocator root (Locked_new (BuddyAllocator_new hm)) (m, a) = Inr ((m2, a2), Locked_new h)"
    by (simp only: init_heap_eq 1(1) 2(1) rbind_Inr Locked_lock_new Mutex.simps h(1))
       (simp add: Locked_new_def Mutex_new_def MutexGuard_drop_def)
  moreover have "heap_mapped C offset root m m2 fs"
    unfolding heap_mapped_def offset_mmu_def
  proof (intro conjI allI impI)
    fix i :: nat assume i: "i < 25"
    then have p: "HEAP_START + of_nat i * SIZE Size4KiB = heap_pages ! i" "i < length heap_pages" by (simp_all add: heap_pages_def)
    then have "page_indices C (heap_pages ! i) \<noteq> page_indices C heap_guard" using ds(2) by (metis image_eqI nth_mem)
    then show "mmu_lookup ?P m2 root (page_indices C (HEAP_START + of_nat i * SIZE Size4KiB)) = Some (Small (fs ! i) (fs ! i OR heap_flags C))"
      unfolding p(1) using mmu2 [OF ok] mmu1 [OF ok] mapped_pages_nth [OF ds(1) 1(4) p(2) fl(2)] by simp
  next
    fix ix assume ix: "indices_ok ix \<and> ix \<notin> page_indices C ` set heap_pages"
    then have "mmu_lookup ?P m1 root ix = mmu_lookup ?P m root ix"
      using mmu1 [of ix] mapped_pages_other [of ix C heap_pages fs "heap_flags C" "mmu_lookup ?P m root"] 1(4) by simp
    then show "mmu_lookup ?P m2 root ix = mmu_lookup ?P m root ix"
      using mmu2 [of ix] ix b0 rd by auto
  qed (use 1(4,5) mmu2 [OF ok] b0 in \<open>simp_all add: heap_pages_def\<close>)
  moreover have "set fs \<subseteq> bump_avail ?D a - bump_avail ?D a2" using 1(6) growsD(1) [OF 2(3)] by blast
  ultimately show ?thesis using 2(2) h unfolding offset_ready_def by blast
qed

section \<open>Interrupts are set up\<close>

definition kernel_cpu :: "u64 \<Rightarrow> u64 \<Rightarrow> cpu \<Rightarrow> cpu" where
  "kernel_cpu gdt_ptr idt_ptr s =
     s\<lparr>cpu_cs := 0x18, cpu_ds := 0x20, cpu_es := 0x20, cpu_ss := 0x20, cpu_tr := 0x08,
       cpu_gdtr := (39, gdt_ptr), cpu_idtr := (4095, idt_ptr), cpu_interrupts := True\<rparr>"

text \<open>What is printed: the address of the interrupt table.\<close>

definition idt_text :: "u64 \<Rightarrow> string" where
  "idt_text idt_ptr = ''Idt addr: '' @ digits 16 (unat idt_ptr) @ ''\<newline>''"

lemma interrupts_init_log:
  assumes "crates_ok C" "SerialPort_new base = Inr sp" "\<forall>w. eventually_set answer (base + 5) 5 w"
  shows "\<exists>w'. interrupts_init C (log_ports answer) (Mutex_new sp) (Mutex_new ChainedPics_new) tss_ptr gdt_ptr idt_ptr addr (s, w) =
     Returns (kernel_cpu gdt_ptr idt_ptr s, w') \<and> (base \<notin> {0x20, 0x21, 0x80, 0xA0, 0xA1} \<longrightarrow> prints base w (idt_text idt_ptr) w')"
proof -
  obtain g where g: "kernel_GDT C tss_ptr = Inr (g, 0x08, 0x18, 0x20)" "\<forall>a. GlobalDescriptorTableDescriptor_new g a = (39, a)"
    using kernel_GDT_values [OF assms(1)] by blast
  obtain t where t: "kernel_IDT C 0x18 addr = Inr t" "\<forall>a. InterruptTableDescriptor_for t a = (4095, a)"
    using kernel_IDT_descriptor [OF assms(1)] by blast
  have "ascii (''Idt addr: '' @ digits 16 (unat idt_ptr))" unfolding ascii_append by (simp add: ascii_def [of "''Idt addr: ''"])
  from println_prints [OF assms this] obtain w1 where
    u: "println_str C (log_ports answer) (Mutex_new sp) (''Idt addr: '' @ digits 16 (unat idt_ptr)) w = Some w1"
      "prints base w (idt_text idt_ptr) w1"
    unfolding idt_text_def by (auto simp del: append.simps)
  have lk: "Mutex_lock_turn (Mutex_new ChainedPics_new) = (True, \<lparr>mutex_inner = ChainedPics_new, lock_status = True\<rparr>)"
    by (simp add: Mutex_lock_turn_def compare_exchange_def Mutex_new_def)
  let ?w = "ChainedPics_init (log_ports answer) ChainedPics_new MASTER_PIC_OFFSET SLAVE_PIC_OFFSET w1"
  have "interrupts_init C (log_ports answer) (Mutex_new sp) (Mutex_new ChainedPics_new) tss_ptr gdt_ptr idt_ptr addr (s, w) =
      Returns (kernel_cpu gdt_ptr idt_ptr s, ?w)"
    by (simp add: interrupts_init_def g t u(1) Let_def CS_write_def CS_write_raw_def CS_read_def DS_write_def DS_write_raw_def
        ES_write_def ES_write_raw_def SS_write_def SS_write_raw_def GlobalDescriptorTable_load_def TaskStateSegment_load_def
        interrupts_enable_def kernel_cpu_def lk del: digits.simps append.simps)
  moreover have "prints base w (idt_text idt_ptr) ?w" if "base \<notin> {0x20, 0x21, 0x80, 0xA0, 0xA1}"
    using prints_trans [OF u(2) pics_init_prints [OF that]] by simp
  ultimately show ?thesis by blast
qed

section \<open>The initialisation as a whole\<close>

lemma paging_init_eq:
  assumes "unat (cpu_cr3 s AND 0x000ffffffffff000) + unat (bi_physical_memory_offset bi) < 2 ^ 64"
  shows "paging_init C bi s = Inr ((cpu_cr3 s AND 0x000ffffffffff000) + bi_physical_memory_offset bi)"
proof -
  have "(0x000ffffffffff000 :: u64) AND NOT (mask 12) = 0x000ffffffffff000" by (simp add: mask_eq_exp_minus_1)
  then show ?thesis
    using assms by (simp add: paging_init_def Cr3_read_def Cr3_read_raw_def Let_def op_add_def and.assoc)
qed

lemma kernel_init_runs:
  assumes "crates_ok C" "SerialPort_new base = Inr sp" "\<forall>w. eventually_set answer (base + 5) 5 w"
    and "offset = bi_physical_memory_offset bi" "root = (cpu_cr3 s AND 0x000ffffffffff000) + offset"
    and "unat (cpu_cr3 s AND 0x000ffffffffff000) + unat offset < 2 ^ 64"
    and "heap_ready C offset root m (BumpFrameAllocator_new (PhysicalMemoryRegions_deref rm (bi_memory_regions bi)))"
  shows "\<exists>w' fs m' a' h. kernel_init C (log_ports answer) (Mutex_new sp) (Mutex_new ChainedPics_new) tss_ptr gdt_ptr idt_ptr addr
         bi rm (Locked_new (BuddyAllocator_new hm)) s w m = Inr (kernel_cpu gdt_ptr idt_ptr s, w', root, (m', a'), Locked_new h) \<and>
     heap_mapped C offset root m m' fs \<and> offset_ready offset root m' a' \<and> heap_inv (h, []) \<and>
     BuddyAllocator_init (BuddyAllocator_new hm) HEAP_START HEAP_SIZE = Inr h \<and>
     (base \<notin> {0x20, 0x21, 0x80, 0xA0, 0xA1} \<longrightarrow> prints base w (''Initializing kernel\<newline>'' @ idt_text idt_ptr) w')"
proof -
  have "ascii ''Initializing kernel''" by (simp add: ascii_def)
  from println_prints [OF assms(1-3) this] obtain w1 where
    u: "println_str C (log_ports answer) (Mutex_new sp) ''Initializing kernel'' w = Some w1" "prints base w ''Initializing kernel\<newline>'' w1"
    by auto
  obtain w' where i: "interrupts_init C (log_ports answer) (Mutex_new sp) (Mutex_new ChainedPics_new) tss_ptr gdt_ptr idt_ptr addr (s, w1) =
      Returns (kernel_cpu gdt_ptr idt_ptr s, w')" "base \<notin> {0x20, 0x21, 0x80, 0xA0, 0xA1} \<longrightarrow> prints base w1 (idt_text idt_ptr) w'"
    using interrupts_init_log [OF assms(1-3)] by blast
  have p: "paging_init C bi (kernel_cpu gdt_ptr idt_ptr s) = Inr root"
    using paging_init_eq [of "kernel_cpu gdt_ptr idt_ptr s" bi C] assms(4-6) by (simp add: kernel_cpu_def)
  let ?a = "BumpFrameAllocator_new (PhysicalMemoryRegions_deref rm (bi_memory_regions bi))"
  obtain fs m' a' h where h: "init_heap C (PhysicalOffset_frame_to_virtual offset) region_frames_allocator root
         (Locked_new (BuddyAllocator_new hm)) (m, ?a) = Inr ((m', a'), Locked_new h)"
     "heap_mapped C offset root m m' fs" "offset_ready offset root m' a'" "heap_inv (h, [])"
     "BuddyAllocator_init (BuddyAllocator_new hm) HEAP_START HEAP_SIZE = Inr h"
    using init_heap_mapped [OF assms(1,7)] by blast
  have "kernel_init C (log_ports answer) (Mutex_new sp) (Mutex_new ChainedPics_new) tss_ptr gdt_ptr idt_ptr addr
         bi rm (Locked_new (BuddyAllocator_new hm)) s w m = Inr (kernel_cpu gdt_ptr idt_ptr s, w', root, (m', a'), Locked_new h)"
    by (simp add: kernel_init_def u(1) i(1) kernel_init_memory_def p Let_def h(1) assms(4) [symmetric])
  with h i(2) prints_trans [OF u(2)] show ?thesis by blast
qed

text \<open>An example: empty tables and one region of 1 MiB.\<close>

lemma example_heap_ready:
  "heap_ready reference_crates 0 0x1000 (\<lambda>_. 0) (BumpFrameAllocator_new [PhysicalMemoryRegion_new 0x100000 0x100000 Free])"
proof -
  let ?D = PhysicalMemoryRegion_MemoryRegion and ?rs = "[PhysicalMemoryRegion_new 0x100000 0x100000 Free]"
  let ?a = "BumpFrameAllocator_new ?rs"
  have wf: "well_formed_map ?D ?rs"
    by (simp add: region_in_range_def page_aligned_def PhysicalMemoryRegion_MemoryRegion_def PhysicalMemoryRegion_new_def)
  have len: "length (map_frames ?D ?rs) = 256"
    by (simp add: region_frames_def PhysicalMemoryRegion_MemoryRegion_def PhysicalMemoryRegion_new_def PhysicalMemoryRegion_is_usable_def)
  have "usable_offset 0 f \<and> 0 + f \<noteq> 0x1000" if "f \<in> bump_avail ?D ?a" for f
  proof -
    have f: "f \<in> set (map_frames ?D ?rs)"
      using that set_drop_subset by (auto simp: bump_avail_def BumpFrameAllocator_new_def)
    then have "page_aligned Size4KiB f" "0x100000 \<le> unat f" "unat f < 0x200000"
      using map_frames_aligned [OF f] map_frames_in_region [OF wf f]
      by (auto simp: PhysicalMemoryRegion_MemoryRegion_def PhysicalMemoryRegion_new_def)
    then show ?thesis by (auto simp: usable_offset_def page_aligned_def frame_bits_okI)
  qed
  moreover have "bump_inv ?D ?a" using wf by (intro well_formed_map_bump_inv) (simp add: BumpFrameAllocator_new_def)
  ultimately have "offset_ready 0 0x1000 (\<lambda>_. 0) ?a" by (intro offset_ready_empty) (simp_all add: page_aligned_def)
  moreover have "bump_memory_map ?a = ?rs" "bump_next ?a = 0" by (simp_all add: BumpFrameAllocator_new_def)
  ultimately show ?thesis
    using example_no_huge example_mmu len by (simp add: heap_ready_def del: map_frames_simps)
qed

end
