(* ===== verification/Buddy_Self_Test.thy ===== *)
theory Buddy_Self_Test
  imports Kernel_Init
begin

text \<open>
  The self test of the heap that the kernel runs at boot (\<open>test_buddy_allocator\<close> of \<open>kernel/src/main.rs\<close>): it
  calls \<open>alloc\<close> and \<open>dealloc\<close> of the allocator directly, so that \<open>dealloc\<close> relies on the headers of allocated
  blocks. The operations keep these headers; with that the test is run on the abstract lists.
\<close>

section \<open>The test\<close>

definition Layout_from_size_align :: "u64 \<Rightarrow> u64 \<Rightarrow> Layout option" where
  "Layout_from_size_align sz align =
     (if align \<noteq> 0 \<and> align AND (align - 1) = 0 \<and> unat sz \<le> 2 ^ 63 - unat align
      then Some \<lparr>layout_size = sz, layout_align = align\<rparr> else None)"

definition alloc_unwrap :: "BuddyAllocator \<Rightarrow> Layout \<Rightarrow> (u64 \<times> BuddyAllocator) res" where
  "alloc_unwrap a layout = rbind (BuddyAllocator_alloc a layout) (\<lambda>(c, a). rbind (expect c) (\<lambda>c. Inr (c, a)))"

text \<open>\<open>{:#x}\<close>, and printing as a step of the kernel: it never returns when the lock or the line is blocked.\<close>

definition fmt_hex :: "u64 \<Rightarrow> string" where
  "fmt_hex v = ''0x'' @ digits 16 (unat v)"

definition printed :: "'w option \<Rightarrow> 'w res" where
  "printed r = (case r of None \<Rightarrow> Inl Diverges | Some w \<Rightarrow> Inr w)"

definition test_buddy_allocator :: "crates \<Rightarrow> 'w ports \<Rightarrow> SerialPort Mutex \<Rightarrow> Locked \<Rightarrow> 'w \<Rightarrow> ('w \<times> Locked) res" where
  "test_buddy_allocator C P SERIAL ALLOCATOR w =
     rbind (Locked_lock ALLOCATOR) (\<lambda>guard.
     let allocator = mutex_inner guard in
     rbind (expect (Layout_from_size_align 0x100 8)) (\<lambda>layout_x100.
     rbind (expect (Layout_from_size_align 0x200 8)) (\<lambda>layout_x200.
     rbind (expect (Layout_from_size_align 0x400 8)) (\<lambda>layout_x400.
     rbind (alloc_unwrap allocator layout_x100) (\<lambda>(c1, allocator).
     rbind (alloc_unwrap allocator layout_x100) (\<lambda>(c2, allocator).
     let addr = min c1 c2 in
     rbind (BuddyAllocator_dealloc allocator c1) (\<lambda>allocator.
     rbind (BuddyAllocator_dealloc allocator c2) (\<lambda>allocator.
     rbind (alloc_unwrap allocator layout_x200) (\<lambda>(c3, allocator).
     rbind (rassert (c3 = addr)) (\<lambda>_.
     let addr = c3 in
     rbind (BuddyAllocator_dealloc allocator c3) (\<lambda>allocator.
     rbind (alloc_unwrap allocator layout_x100) (\<lambda>(c1, allocator).
     rbind (alloc_unwrap allocator layout_x100) (\<lambda>(c2, allocator).
     rbind (rassert (min c1 c2 = addr)) (\<lambda>_.
     rbind (alloc_unwrap allocator layout_x200) (\<lambda>(c3, allocator).
     rbind (printed (println_str C P SERIAL (''C3 address: '' @ fmt_hex c3 @ '', min address before: '' @ fmt_hex addr) w)) (\<lambda>w.
     let addr = min c3 (min c1 c2) in
     rbind (BuddyAllocator_dealloc allocator c1) (\<lambda>allocator.
     rbind (BuddyAllocator_dealloc allocator c2) (\<lambda>allocator.
     rbind (BuddyAllocator_dealloc allocator c3) (\<lambda>allocator.
     rbind (alloc_unwrap allocator layout_x400) (\<lambda>(c4, allocator).
     rbind (rassert (c4 = addr)) (\<lambda>_.
     rbind (rassert (c4 = addr)) (\<lambda>_.
     rbind (BuddyAllocator_dealloc allocator c4) (\<lambda>allocator.
     Inr (w, MutexGuard_drop (guard\<lparr>mutex_inner := allocator\<rparr>)))))))))))))))))))))))))"

section \<open>Headers of allocated blocks\<close>

text \<open>Headers outside of \<open>F\<close> are as before.\<close>

definition headers_kept :: "nat set \<Rightarrow> BuddyAllocator \<Rightarrow> BuddyAllocator \<Rightarrow> bool" where
  "headers_kept F s s' \<longleftrightarrow> (\<forall>x. 16 dvd unat x \<and> unat x \<notin> F \<longrightarrow> chunks s' x = chunks s x)"

lemma headers_kept_refl [simp]: "headers_kept F s s"
  by (simp add: headers_kept_def)

lemma headers_kept_trans [trans]: "headers_kept F s s' \<Longrightarrow> headers_kept F s' s'' \<Longrightarrow> headers_kept F s s''"
  by (simp add: headers_kept_def)

lemma headers_kept_mono: "headers_kept F s s' \<Longrightarrow> F \<subseteq> G \<Longrightarrow> headers_kept G s s'"
  unfolding headers_kept_def by blast

lemma push_chunk_kept:
  assumes "push_chunk s i a sz = Inr s'" "16 dvd unat a" "unat a \<in> F"
  shows "headers_kept F s s'"
proof -
  have "chunks s' x = chunks s x" if "16 dvd unat x" "x \<noteq> a" for x
    using assms(1) store_header_apart [OF assms(2) that]
    by (auto simp: push_chunk_def Chunk_new_at_address_def LinkedList_push_front_def rbind_eq_Inr that(2) split: if_splits)
  with assms(3) show ?thesis by (auto simp: headers_kept_def)
qed

lemma free_memory_mem: "a \<in> set (L i) \<Longrightarrow> unat a \<in> free_memory L"
  using block_subset_free mem_block_start by blast

lemma pop_chunk_kept:
  assumes "heap_rep s L" "i < MAX_ORDER" "L i = a # as" "pop_chunk s i = Inr (r, s')"
  shows "headers_kept (free_memory L) s s'" "\<exists>n. chunks s' a = Some \<lparr>chunk_next = n, chunk_size = 2 ^ i\<rparr>"
proof -
  note rep = heap_repD [OF assms(1)]
  have "a \<notin> set as" using blocks_invD(2) [OF rep(2), of i] assms(3) by simp
  then have "LinkedList_pop_front (chunks s) (buddies s ! i) =
      Inr (Some a, (chunks s)(a \<mapsto> \<lparr>chunk_next = None, chunk_size = 2 ^ i\<rparr>), snd (snd (projr (LinkedList_pop_front (chunks s) (buddies s ! i)))))"
    using LinkedList_pop_front_Cons [of "chunks s" i "buddies s ! i" a as] rep(3) [OF assms(2)] assms(3) by auto
  then have c: "chunks s' = (chunks s)(a \<mapsto> \<lparr>chunk_next = None, chunk_size = 2 ^ i\<rparr>)"
    using assms(2,4) rep(1) by (auto simp: pop_chunk_def rbind_eq_Inr)
  then show "headers_kept (free_memory L) s s'" using free_memory_mem [of a L i] assms(3) by (auto simp: headers_kept_def)
  show "\<exists>n. chunks s' a = Some \<lparr>chunk_next = n, chunk_size = 2 ^ i\<rparr>" using c by simp
qed

lemma remove_chunk_kept:
  assumes "heap_rep s L" "i < MAX_ORDER" "x \<in> set (L i)" "remove_chunk s i x = Inr (r, s')"
  shows "headers_kept (free_memory L) s s'"
proof -
  note rep = heap_repD [OF assms(1)]
  obtain m p where "LinkedList_remove (chunks s) (buddies s ! i) x = Inr (Some x, m, p)" "\<forall>y. y \<notin> set (L i) \<longrightarrow> m y = chunks s y"
    using LinkedList_remove_present [OF rep(3) [OF assms(2)] blocks_invD(2) [OF rep(2)] assms(3)] by blast
  moreover from this have "m y = chunks s y" if "unat y \<notin> free_memory L" for y using that free_memory_mem [of y L i] by blast
  ultimately show ?thesis using assms(2,4) rep(1) by (auto simp: remove_chunk_def rbind_eq_Inr headers_kept_def)
qed

lemma alloc_splits_kept:
  assumes "heap_rep s L" "L i \<noteq> []" "4 \<le> cls" "cls \<le> i" "i < MAX_ORDER"
    and "alloc_splits s (rev [cls + 1 ..< i + 1]) = Inr (r, s')"
  shows "headers_kept (free_memory L) s s'"
  using assms
proof (induction "i - cls" arbitrary: i L s)
  case 0
  then show ?case by simp
next
  case (Suc n)
  then obtain j where i: "i = Suc j" and j: "cls \<le> j" "4 \<le> j" by (cases i) auto
  obtain a as where ne: "L (Suc j) = a # as" using Suc.prems(2) i by (cases "L (Suc j)") auto
  note step = split_class_step [OF heap_repD(2) [OF Suc.prems(1)] ne j(2)]
  from pop_chunk_rep_Cons [OF Suc.prems(1) _ ne] Suc.prems(5) i obtain s1 where
    1: "pop_chunk s (Suc j) = Inr (Some a, s1)" "heap_rep s1 (L(Suc j := as))" by auto
  from push_chunk_rep [OF 1(2) step(3,6)] obtain s2 where
    2: "push_chunk s1 j a (2 ^ j) = Inr s2" "heap_rep s2 ((L(Suc j := as))(j := a # (L(Suc j := as)) j))" by blast
  from push_chunk_rep [OF 2(2) step(4,8)] step(1) obtain s3 where
    3: "push_chunk s2 j (a + 2 ^ j) (2 ^ j) = Inr s3" "heap_rep s3 (split_class (Suc j) L)"
    by (metis (no_types, lifting))
  have "VirtualAddress_add a (2 ^ j) = Inr (a + 2 ^ j)"
    using unat_add_exp [OF step(2)] Suc.prems(5) i by (simp add: VirtualAddress_add_def op_add_eq_Inr unat_exp)
  moreover have "op_shl 1 j = Inr (2 ^ j :: u64)" using Suc.prems(5) i by (simp add: op_shl_def)
  ultimately have rest: "alloc_splits s3 (rev [cls + 1 ..< j + 1]) = Inr (r, s')"
    using Suc.prems(6) unfolding i rev_upt_Suc [OF j(1)] by (simp add: 1(1) 2(1) 3(1) del: upt_Suc)
  have fm: "free_memory (split_class (Suc j) L) = free_memory L" using step(1,10) by simp
  have mem: "unat a \<in> free_memory L" "unat (a + 2 ^ j) \<in> free_memory L"
    using free_memory_mem [of a "split_class (Suc j) L" j] free_memory_mem [of "a + 2 ^ j" "split_class (Suc j) L" j]
    unfolding fm by (simp_all add: step(1))
  have "headers_kept (free_memory L) s s1" using pop_chunk_kept(1) [OF Suc.prems(1) _ ne 1(1)] Suc.prems(5) i by simp
  also note push_chunk_kept [OF 2(1) block_ok_dvd_16 [OF step(3)] mem(1)]
  also note push_chunk_kept [OF 3(1) block_ok_dvd_16 [OF step(4)] mem(2)]
  also have "headers_kept (free_memory L) s3 s'"
    using Suc.hyps(1) [OF _ 3(2) _ Suc.prems(3) j(1) _ rest] Suc.hyps(2) Suc.prems(5) i fm by (simp add: step(1))
  finally show ?case .
qed

lemma popped_header:
  assumes "heap_rep s L" "i < MAX_ORDER" "pop_chunk s i = Inr (Some a, s')"
  shows "headers_kept (free_memory L) s s' \<and> (\<exists>n. chunks s' a = Some \<lparr>chunk_next = n, chunk_size = 2 ^ i\<rparr>)"
proof (cases "L i")
  case Nil
  then show ?thesis using pop_chunk_rep_Nil [OF assms(1,2)] assms(3) by simp
next
  case (Cons b bs)
  then have "a = b" using pop_chunk_rep_Cons [OF assms(1,2)] assms(3) by auto
  with pop_chunk_kept [OF assms(1,2) Cons assms(3)] show ?thesis by simp
qed

lemma alloc_kept:
  assumes "heap_rep s L" "4 \<le> cls" "\<forall>i \<in> set is. cls \<le> i \<and> i < MAX_ORDER" "cls < MAX_ORDER"
    and "alloc_classes s cls is = Inr (Some a, s')"
  shows "headers_kept (free_memory L) s s' \<and> (\<exists>n. chunks s' a = Some \<lparr>chunk_next = n, chunk_size = 2 ^ cls\<rparr>)"
  using assms(3,5)
proof (induction "is")
  case Nil
  then show ?case using popped_header [OF assms(1,4)] by simp
next
  case (Cons i "is")
  have i: "cls \<le> i" "i < MAX_ORDER" using Cons.prems(1) by simp_all
  show ?case
  proof (cases "L i = []")
    case True
    then have "buddies s ! i = None" using heap_repD(3) [OF assms(1) i(2)] by simp
    with Cons i heap_repD(1) [OF assms(1)] show ?thesis by (simp add: LinkedList_is_empty_def)
  next
    case False
    then have ne: "buddies s ! i \<noteq> None" using heap_repD(3) [OF assms(1) i(2)] by (cases "L i") auto
    define M where "M = fold split_class (rev [cls + 1 ..< i + 1]) L"
    from alloc_splits_rep [OF assms(1) False assms(2) i] obtain s1 where
      1: "alloc_splits s (rev [cls + 1 ..< i + 1]) = Inr (True, s1)" "heap_rep s1 M" unfolding M_def by blast
    have "free_memory M = free_memory L" using fold_split_class [OF heap_repD(2) [OF assms(1)] False assms(2) i(1)] by (simp add: M_def)
    moreover have "pop_chunk s1 cls = Inr (Some a, s')"
      using Cons.prems(2) 1(1) ne i heap_repD(1) [OF assms(1)] by (auto simp: LinkedList_is_empty_def simp del: upt_Suc)
    moreover have "headers_kept (free_memory L) s s1" by (rule alloc_splits_kept [OF assms(1) False assms(2) i 1(1)])
    ultimately show ?thesis using popped_header [OF 1(2) assms(4)] headers_kept_trans by metis
  qed
qed

lemma dealloc_loop_kept:
  assumes "heap_rep s L" "4 \<le> cls" "cls \<le> MAX_ORDER" "a \<noteq> 0" "2 ^ cls dvd unat a" "block cls a \<inter> free_memory L = {}"
    and "dealloc_loop s cls \<lparr>region_start = a, region_size = 2 ^ cls\<rparr> = Inr s'"
  shows "headers_kept (free_memory L \<union> block cls a) s s'"
  using assms
proof (induction L cls a arbitrary: s rule: list_dealloc.induct)
  case (1 L cls a)
  note len = heap_repD(1) [OF 1(2)] and inv = heap_repD(2) [OF 1(2)]
  show ?case
  proof (cases "cls < MAX_ORDER")
    case False
    with 1(8) len show ?thesis by (subst (asm) dealloc_loop.simps) simp
  next
    case True
    with 1 have ok: "block_ok cls a" by (simp add: block_ok_def)
    let ?b = "buddy_of cls a"
    have bit: "op_shl 1 cls = Inr (push_bit cls 1 :: u64)" using True by (simp add: op_shl_def)
    have rm: "op_mul (2 ^ cls) 2 = Inr (2 ^ (cls + 1) :: u64)"
      using True unat_exp [where 'a = 64, of "cls + 1"] unat_exp [where 'a = 64, of cls] by (simp add: op_mul_eq_Inr)
    show ?thesis
    proof (cases "?b \<in> set (L cls)")
      case False
      with remove_chunk_rep(1) [OF 1(2) True False] True len bit 1(8) have "push_chunk s cls a (2 ^ cls) = Inr s'"
        by (subst (asm) dealloc_loop.simps) (simp add: buddy_of_def)
      then show ?thesis by (rule push_chunk_kept [OF _ block_ok_dvd_16 [OF ok]]) (simp add: mem_block_start)
    next
      case b: True
      from remove_chunk_rep(2) [OF 1(2) True b] obtain s1 where
        r: "remove_chunk s cls ?b = Inr (Some ?b, s1)" "heap_rep s1 (L(cls := remove1 ?b (L cls)))" by blast
      note step = merge_step [OF inv ok 1(7) b]
      have "dealloc_loop s1 (cls + 1) \<lparr>region_start = min a ?b, region_size = 2 ^ (cls + 1)\<rparr> = Inr s'"
        using True len bit r(1) rm 1(8) by (subst (asm) dealloc_loop.simps) (simp add: buddy_of_def)
      then have "headers_kept (free_memory L \<union> block cls a) s1 s'"
        using "1.IH" [OF True refl b r(2) _ _ step(2-4)] "1.prems"(2) True step(5) by (simp del: fun_upd_apply)
      moreover have "headers_kept (free_memory L \<union> block cls a) s s1"
        using remove_chunk_kept [OF 1(2) True b r(1)] by (rule headers_kept_mono) simp
      ultimately show ?thesis by (rule headers_kept_trans [rotated])
    qed
  qed
qed

section \<open>The test on the abstract lists\<close>

text \<open>
  The allocator represents the lists \<open>L\<close>, and every block of \<open>live\<close> is allocated: it is disjoint from the free
  memory and from the other blocks, and its header holds its size.
\<close>

definition holds :: "BuddyAllocator \<Rightarrow> free_lists \<Rightarrow> (u64 \<times> nat) list \<Rightarrow> bool" where
  "holds s L live \<longleftrightarrow>
     heap_rep s L \<and> distinct live \<and>
     (\<forall>p k. (p, k) \<in> set live \<longrightarrow> 4 \<le> k \<and> block_ok k p \<and> block k p \<inter> free_memory L = {} \<and>
        (\<exists>n. chunks s p = Some \<lparr>chunk_next = n, chunk_size = 2 ^ k\<rparr>)) \<and>
     (\<forall>p k q j. (p, k) \<in> set live \<and> (q, j) \<in> set live \<and> (q, j) \<noteq> (p, k) \<longrightarrow> block k p \<inter> block j q = {})"

lemma holdsD:
  assumes "holds s L live"
  shows "heap_rep s L" "distinct live"
    and "(p, k) \<in> set live \<Longrightarrow> 4 \<le> k" "(p, k) \<in> set live \<Longrightarrow> block_ok k p" "(p, k) \<in> set live \<Longrightarrow> block k p \<inter> free_memory L = {}"
    and "(p, k) \<in> set live \<Longrightarrow> \<exists>n. chunks s p = Some \<lparr>chunk_next = n, chunk_size = 2 ^ k\<rparr>"
    and "(p, k) \<in> set live \<Longrightarrow> (q, j) \<in> set live \<Longrightarrow> (q, j) \<noteq> (p, k) \<Longrightarrow> block k p \<inter> block j q = {}"
  using assms unfolding holds_def by blast+

lemma holds_alloc:
  assumes "holds s L live" "Layout_from_size_align sz 8 = Some layout" "align_layout_size layout = Inr (2 ^ cls)" "4 \<le> cls" "cls < MAX_ORDER"
    and "list_alloc L cls = (Some p, L')"
  shows "\<exists>s'. alloc_unwrap s layout = Inr (p, s') \<and> holds s' L' ((p, cls) # live)"
proof -
  note h = holdsD [OF assms(1)]
  note rep = h(1)
  from alloc_rep [OF rep assms(3-5)] assms(6) obtain s' where
    s': "BuddyAllocator_alloc s layout = Inr (Some p, s')" "heap_rep s' L'" by auto
  note la = list_alloc_Some [OF heap_repD(2) [OF rep] assms(4,6)]
  have "alloc_classes s cls [cls ..< MAX_ORDER] = Inr (Some p, s')"
    using s'(1) assms(3,5) heap_repD(1) [OF rep] by (simp add: BuddyAllocator_alloc_def trailing_zeros_exp Let_def del: upt_Suc)
  then have k: "headers_kept (free_memory L) s s'" "\<exists>n. chunks s' p = Some \<lparr>chunk_next = n, chunk_size = 2 ^ cls\<rparr>"
    using alloc_kept [OF rep assms(4) _ assms(5), of "[cls ..< MAX_ORDER]" p s'] by simp_all
  have live: "block j q \<inter> block cls p = {} \<and> (q, j) \<noteq> (p, cls) \<and> block j q \<inter> free_memory L' = {} \<and> chunks s' q = chunks s q"
    if "(q, j) \<in> set live" for q j
  proof -
    have q: "block_ok j q" "block j q \<inter> free_memory L = {}" using h(4,5) [OF that] by simp_all
    have "unat q \<notin> free_memory L" using q(2) mem_block_start [of q j] by blast
    then have "chunks s' q = chunks s q" using k(1) block_ok_dvd_16 [OF q(1)] by (simp add: headers_kept_def)
    moreover have "block j q \<inter> block cls p = {}" "block j q \<inter> free_memory L' = {}" using q(2) la(3) by blast+
    ultimately show ?thesis using mem_block_start [of q j] by auto
  qed
  have "holds s' L' ((p, cls) # live)"
    unfolding holds_def
  proof (intro conjI allI impI)
    show "heap_rep s' L'" by (rule s'(2))
    show "distinct ((p, cls) # live)" using live h(2) by auto
    fix q j assume q: "(q, j) \<in> set ((p, cls) # live)"
    show "4 \<le> j" "block_ok j q" "block j q \<inter> free_memory L' = {}" "\<exists>n. chunks s' q = Some \<lparr>chunk_next = n, chunk_size = 2 ^ j\<rparr>"
      using q assms(4) la(2,4) k(2) h(3,4,6) [of q j] live [of q j] by auto
  next
    fix q j q' j' assume "(q, j) \<in> set ((p, cls) # live) \<and> (q', j') \<in> set ((p, cls) # live) \<and> (q', j') \<noteq> (q, j)"
    then show "block j q \<inter> block j' q' = {}" using h(7) [of q j q' j'] live [of q' j'] live [of q j] by auto
  qed
  then show ?thesis using s'(1) by (auto simp: alloc_unwrap_def)
qed

lemma holds_dealloc:
  assumes "holds s L live" "(p, k) \<in> set live"
  shows "\<exists>s'. BuddyAllocator_dealloc s p = Inr s' \<and> holds s' (list_dealloc L k p) (remove1 (p, k) live)"
proof -
  note h = holdsD [OF assms(1)]
  note rep = h(1)
  have p: "4 \<le> k" "block_ok k p" "block k p \<inter> free_memory L = {}" "\<exists>n. chunks s p = Some \<lparr>chunk_next = n, chunk_size = 2 ^ k\<rparr>"
    using h(3-6) [OF assms(2)] by simp_all
  have k: "k < MAX_ORDER" "k \<le> MAX_ORDER" "p \<noteq> 0" "2 ^ k dvd unat p" using p(2) by (simp_all add: block_ok_def)
  from dealloc_loop_rep [OF rep p(1) k(2-4) p(3)] obtain s' where
    s': "dealloc_loop s k \<lparr>region_start = p, region_size = 2 ^ k\<rparr> = Inr s'" "heap_rep s' (list_dealloc L k p)" by blast
  then have d: "BuddyAllocator_dealloc s p = Inr s'"
    using p(4) k(1) by (auto simp: BuddyAllocator_dealloc_def load_header_def trailing_zeros_exp Region_new_def)
  note kept = dealloc_loop_kept [OF rep p(1) k(2-4) p(3) s'(1)]
  have fm: "free_memory (list_dealloc L k p) \<subseteq> free_memory L \<union> block k p"
    using list_dealloc_correct [OF heap_repD(2) [OF rep] p(1) k(2-4) p(3)] by auto
  have live: "block j q \<inter> free_memory (list_dealloc L k p) = {} \<and> chunks s' q = chunks s q"
    if "(q, j) \<in> set (remove1 (p, k) live)" for q j
  proof -
    have m: "(q, j) \<in> set live" "(q, j) \<noteq> (p, k)" using that h(2) by auto
    then have q: "block_ok j q" "block j q \<inter> free_memory L = {}" "block j q \<inter> block k p = {}"
      using h(4,5) [OF m(1)] h(7) [OF assms(2) m] by (simp_all add: Int_commute)
    then have "unat q \<notin> free_memory L \<union> block k p" using mem_block_start [of q j] by blast
    then have "chunks s' q = chunks s q" using kept block_ok_dvd_16 [OF q(1)] by (simp add: headers_kept_def)
    with q fm show ?thesis by blast
  qed
  have "holds s' (list_dealloc L k p) (remove1 (p, k) live)"
    unfolding holds_def
  proof (intro conjI allI impI)
    show "heap_rep s' (list_dealloc L k p)" by (rule s'(2))
    show "distinct (remove1 (p, k) live)" using h(2) by (rule distinct_remove1)
    fix q j assume q: "(q, j) \<in> set (remove1 (p, k) live)"
    then have "(q, j) \<in> set live" using h(2) by simp
    with q h(3,4,6) live show "4 \<le> j" "block_ok j q" "block j q \<inter> free_memory (list_dealloc L k p) = {}"
      "\<exists>n. chunks s' q = Some \<lparr>chunk_next = n, chunk_size = 2 ^ j\<rparr>" by auto
  next
    fix q j q' j' assume "(q, j) \<in> set (remove1 (p, k) live) \<and> (q', j') \<in> set (remove1 (p, k) live) \<and> (q', j') \<noteq> (q, j)"
    then show "block j q \<inter> block j' q' = {}" using h(2,7) by auto
  qed
  with d show ?thesis by blast
qed

section \<open>The heap after its initialisation\<close>

text \<open>The 100 KiB of the heap are a block of 64 KiB, one of 32 KiB and one of 4 KiB.\<close>

definition heap_lists :: free_lists where
  "heap_lists = (\<lambda>_. [])(16 := [0x444444440000], 15 := [0x444444450000], 12 := [0x444444458000])"

lemma add_region_step:
  assumes "heap_rep s L" "unat cur + 2 ^ k \<le> unat stop" "unat stop < unat cur + 2 ^ Suc k" "2 ^ k dvd unat cur" "cur \<noteq> 0"
    and "4 \<le> k" "k < MAX_ORDER" "free_memory L = F" "block k cur \<inter> F = {}" "L k = []" "nxt = cur + 2 ^ k"
  shows "\<exists>s'. add_region_loop s cur stop = add_region_loop s' nxt stop \<and> heap_rep s' (L(k := [cur])) \<and>
     free_memory (L(k := [cur])) = F \<union> block k cur"
proof -
  have lt: "cur < stop" using assms(2) by (simp add: word_less_nat_alt)
      (metis assms(2) add_strict_increasing2 le_add1 le_less_trans less_add_same_cancel1 not_less zero_less_numeral zero_less_power)
  obtain j where j: "region_chunk_size cur stop = Inr (2 ^ j)" "unat cur + 2 ^ j \<le> unat stop" "k \<le> j" "j < MAX_ORDER"
    using region_chunk_size_exp [OF lt] assms(2,4,5,7) by metis
  have "(2 :: nat) ^ j < 2 ^ Suc k" using j(2) assms(3) by linarith
  then have jk: "j = k" using j(3) by (simp add: power_strict_increasing_iff del: power_Suc)
  have ok: "block_ok k cur" using assms(4-7) by (simp add: block_ok_def)
  from push_chunk_rep [OF assms(1) ok] assms(8,9) obtain s' where
    s': "push_chunk s k cur (2 ^ k) = Inr s'" "heap_rep s' (L(k := cur # L k))" by blast
  have "op_add cur (2 ^ k) = Inr (cur + 2 ^ k)"
    using assms(2,7) unat_less_exp [of stop] by (simp add: op_add_def unat_exp)
  then have "add_region_loop s cur stop = add_region_loop s' (cur + 2 ^ k) stop"
    using lt j(1) s'(1) assms(7) by (subst add_region_loop.simps) (simp add: jk trailing_zeros_exp)
  with s'(2) free_memory_add [of L k cur] assms(8,10,11) show ?thesis by (auto simp del: fun_upd_apply)
qed

lemma heap_init_lists:
  "\<exists>s. BuddyAllocator_init (BuddyAllocator_new m) HEAP_START HEAP_SIZE = Inr s \<and> heap_rep s heap_lists"
proof -
  let ?stop = "0x444444459000 :: u64"
  note step = add_region_step [where stop = ?stop]
  have "free_memory (\<lambda>_. []) = {}" by (simp add: free_memory_def)
  from step [OF heap_rep_new, of "0x444444440000" 16 "{}" "0x444444450000" m] this obtain s1 where
    1: "add_region_loop (BuddyAllocator_new m) 0x444444440000 ?stop = add_region_loop s1 0x444444450000 ?stop"
      "heap_rep s1 ((\<lambda>_. [])(16 := [0x444444440000]))" "free_memory ((\<lambda>_. [])(16 := [0x444444440000])) = block 16 0x444444440000"
    by (auto simp del: fun_upd_apply)
  from step [OF 1(2), of "0x444444450000" 15 "block 16 0x444444440000" "0x444444458000"] 1(3) obtain s2 where
    2: "add_region_loop s1 0x444444450000 ?stop = add_region_loop s2 0x444444458000 ?stop"
      "heap_rep s2 ((\<lambda>_. [])(16 := [0x444444440000], 15 := [0x444444450000]))"
      "free_memory ((\<lambda>_. [])(16 := [0x444444440000], 15 := [0x444444450000])) = block 16 0x444444440000 \<union> block 15 0x444444450000"
    by (auto simp: block_def fun_upd_other simp del: fun_upd_apply)
  have d: "block 12 0x444444458000 \<inter> (block 16 0x444444440000 \<union> block 15 0x444444450000) = {}" by (auto simp: block_def)
  have "\<exists>s'. add_region_loop s2 0x444444458000 ?stop = add_region_loop s' ?stop ?stop \<and> heap_rep s' heap_lists \<and>
      free_memory heap_lists = (block 16 0x444444440000 \<union> block 15 0x444444450000) \<union> block 12 0x444444458000"
    unfolding heap_lists_def by (rule step [OF 2(2) _ _ _ _ _ _ 2(3) d]) simp_all
  then obtain s3 where
    3: "add_region_loop s2 0x444444458000 ?stop = add_region_loop s3 ?stop ?stop" "heap_rep s3 heap_lists" by blast
  have "add_region_loop s3 ?stop ?stop = Inr s3" by (subst add_region_loop.simps) simp
  with 1(1) 2(1) 3 show ?thesis
    by (intro exI [of _ s3]) (simp add: BuddyAllocator_init_def BuddyAllocator_add_region_def VirtualAddress_add_def op_add_def
        HEAP_START_def HEAP_SIZE_def)
qed

section \<open>The run\<close>

text \<open>The lists while the test holds its blocks, above the block of 4 KiB.\<close>

definition split_lists :: "u64 list \<Rightarrow> u64 list \<Rightarrow> free_lists" where
  "split_lists l9 l8 = heap_lists(12 := [], 11 := [0x444444458000], 10 := [0x444444458800], 9 := l9, 8 := l8)"

lemma buddy_xor: "buddy_of k a = a XOR push_bit k 1"
  by (simp add: buddy_of_def)

lemma alloc_run:
  "list_alloc heap_lists 8 = (Some 0x444444458f00, split_lists [0x444444458c00] [0x444444458e00])"
  "list_alloc (split_lists [0x444444458c00] [0x444444458e00]) 8 = (Some 0x444444458e00, split_lists [0x444444458c00] [])"
  "list_alloc heap_lists 9 = (Some 0x444444458e00, split_lists [0x444444458c00] [])"
  "list_alloc (split_lists [0x444444458c00] []) 9 = (Some 0x444444458c00, split_lists [] [])"
  "list_alloc heap_lists 10 = (Some 0x444444458c00, split_lists [] [])"
  by (auto simp: list_alloc_def heap_lists_def split_lists_def split_class_def Let_def)

lemma dealloc_run:
  "list_dealloc (split_lists [0x444444458c00] []) 8 0x444444458f00 = split_lists [0x444444458c00] [0x444444458f00]"
  "list_dealloc (split_lists [0x444444458c00] [0x444444458f00]) 8 0x444444458e00 = heap_lists"
  "list_dealloc (split_lists [0x444444458c00] []) 9 0x444444458e00 = heap_lists"
  "list_dealloc (split_lists [] []) 8 0x444444458f00 = split_lists [] [0x444444458f00]"
  "list_dealloc (split_lists [] [0x444444458f00]) 8 0x444444458e00 = split_lists [0x444444458e00] []"
  "list_dealloc (split_lists [0x444444458e00] []) 9 0x444444458c00 = heap_lists"
  "list_dealloc (split_lists [] []) 10 0x444444458c00 = heap_lists"
  by (simp_all add: list_dealloc.simps buddy_xor split_lists_def heap_lists_def fun_eq_iff)

lemma test_layouts:
  "Layout_from_size_align 0x100 8 = Some \<lparr>layout_size = 0x100, layout_align = 8\<rparr>"
  "Layout_from_size_align 0x200 8 = Some \<lparr>layout_size = 0x200, layout_align = 8\<rparr>"
  "Layout_from_size_align 0x400 8 = Some \<lparr>layout_size = 0x400, layout_align = 8\<rparr>"
  "align_layout_size \<lparr>layout_size = 0x100, layout_align = 8\<rparr> = Inr (2 ^ 8)"
  "align_layout_size \<lparr>layout_size = 0x200, layout_align = 8\<rparr> = Inr (2 ^ 9)"
  "align_layout_size \<lparr>layout_size = 0x400, layout_align = 8\<rparr> = Inr (2 ^ 10)"
  by (simp_all add: Layout_from_size_align_def align_layout_size_def next_power_of_two_def bit_length.simps max_def word_le_nat_alt)

lemmas alloc_0x100 = holds_alloc [OF _ test_layouts(1,4)]
lemmas alloc_0x200 = holds_alloc [OF _ test_layouts(2,5)]
lemmas alloc_0x400 = holds_alloc [OF _ test_layouts(3,6)]

text \<open>Two blocks of 256 bytes, as the test takes them twice.\<close>

lemma alloc_pair:
  assumes "holds s heap_lists []"
  obtains s1 s2 where "alloc_unwrap s \<lparr>layout_size = 0x100, layout_align = 8\<rparr> = Inr (0x444444458f00, s1)"
    "alloc_unwrap s1 \<lparr>layout_size = 0x100, layout_align = 8\<rparr> = Inr (0x444444458e00, s2)"
    "holds s2 (split_lists [0x444444458c00] []) [(0x444444458e00, 8), (0x444444458f00, 8)]"
proof -
  from alloc_0x100 [OF assms _ _ alloc_run(1)] obtain s1 where
    1: "alloc_unwrap s \<lparr>layout_size = 0x100, layout_align = 8\<rparr> = Inr (0x444444458f00, s1)"
      "holds s1 (split_lists [0x444444458c00] [0x444444458e00]) [(0x444444458f00, 8)]" by auto
  from alloc_0x100 [OF 1(2) _ _ alloc_run(2)] obtain s2 where
    2: "alloc_unwrap s1 \<lparr>layout_size = 0x100, layout_align = 8\<rparr> = Inr (0x444444458e00, s2)"
      "holds s2 (split_lists [0x444444458c00] []) [(0x444444458e00, 8), (0x444444458f00, 8)]" by auto
  from 1(1) 2 show ?thesis by (rule that)
qed

text \<open>The line that the test prints, from the addresses of the blocks.\<close>

definition self_test_line :: string where
  "self_test_line = ''C3 address: 0x444444458c00, min address before: 0x444444458e00''"

lemma self_test_line_eq:
  "''C3 address: '' @ fmt_hex 0x444444458c00 @ '', min address before: '' @ fmt_hex 0x444444458e00 = self_test_line"
  by (simp add: self_test_line_def fmt_hex_def digits.simps digit_def)

lemma self_test_run:
  assumes "heap_rep s heap_lists"
  shows "\<exists>s'. (\<forall>C (P :: 'w ports) SERIAL w. test_buddy_allocator C P SERIAL (Locked_new s) w =
       rbind (printed (println_str C P SERIAL self_test_line w)) (\<lambda>w. Inr (w, Locked_new s'))) \<and> heap_rep s' heap_lists"
proof -
  have 0: "holds s heap_lists []" using assms by (simp add: holds_def)
  from alloc_pair [OF 0] obtain s1 s2 where
    1: "alloc_unwrap s \<lparr>layout_size = 0x100, layout_align = 8\<rparr> = Inr (0x444444458f00, s1)"
      "alloc_unwrap s1 \<lparr>layout_size = 0x100, layout_align = 8\<rparr> = Inr (0x444444458e00, s2)"
      "holds s2 (split_lists [0x444444458c00] []) [(0x444444458e00, 8), (0x444444458f00, 8)]" .
  from holds_dealloc [OF 1(3), of "0x444444458f00" 8] obtain s3 where
    3: "BuddyAllocator_dealloc s2 0x444444458f00 = Inr s3" "holds s3 (split_lists [0x444444458c00] [0x444444458f00]) [(0x444444458e00, 8)]"
    by (auto simp: dealloc_run)
  from holds_dealloc [OF 3(2), of "0x444444458e00" 8] obtain s4 where
    4: "BuddyAllocator_dealloc s3 0x444444458e00 = Inr s4" "holds s4 heap_lists []" by (auto simp: dealloc_run)
  from alloc_0x200 [OF 4(2) _ _ alloc_run(3)] obtain s5 where
    5: "alloc_unwrap s4 \<lparr>layout_size = 0x200, layout_align = 8\<rparr> = Inr (0x444444458e00, s5)"
      "holds s5 (split_lists [0x444444458c00] []) [(0x444444458e00, 9)]" by auto
  from holds_dealloc [OF 5(2), of "0x444444458e00" 9] obtain s6 where
    6: "BuddyAllocator_dealloc s5 0x444444458e00 = Inr s6" "holds s6 heap_lists []" by (auto simp: dealloc_run)
  from alloc_pair [OF 6(2)] obtain s7 s8 where
    7: "alloc_unwrap s6 \<lparr>layout_size = 0x100, layout_align = 8\<rparr> = Inr (0x444444458f00, s7)"
      "alloc_unwrap s7 \<lparr>layout_size = 0x100, layout_align = 8\<rparr> = Inr (0x444444458e00, s8)"
      "holds s8 (split_lists [0x444444458c00] []) [(0x444444458e00, 8), (0x444444458f00, 8)]" .
  from alloc_0x200 [OF 7(3) _ _ alloc_run(4)] obtain s9 where
    9: "alloc_unwrap s8 \<lparr>layout_size = 0x200, layout_align = 8\<rparr> = Inr (0x444444458c00, s9)"
      "holds s9 (split_lists [] []) [(0x444444458c00, 9), (0x444444458e00, 8), (0x444444458f00, 8)]" by auto
  from holds_dealloc [OF 9(2), of "0x444444458f00" 8] obtain s10 where
    10: "BuddyAllocator_dealloc s9 0x444444458f00 = Inr s10"
      "holds s10 (split_lists [] [0x444444458f00]) [(0x444444458c00, 9), (0x444444458e00, 8)]" by (auto simp: dealloc_run)
  from holds_dealloc [OF 10(2), of "0x444444458e00" 8] obtain s11 where
    11: "BuddyAllocator_dealloc s10 0x444444458e00 = Inr s11" "holds s11 (split_lists [0x444444458e00] []) [(0x444444458c00, 9)]"
    by (auto simp: dealloc_run)
  from holds_dealloc [OF 11(2), of "0x444444458c00" 9] obtain s12 where
    12: "BuddyAllocator_dealloc s11 0x444444458c00 = Inr s12" "holds s12 heap_lists []" by (auto simp: dealloc_run)
  from alloc_0x400 [OF 12(2) _ _ alloc_run(5)] obtain s13 where
    13: "alloc_unwrap s12 \<lparr>layout_size = 0x400, layout_align = 8\<rparr> = Inr (0x444444458c00, s13)"
      "holds s13 (split_lists [] []) [(0x444444458c00, 10)]" by auto
  from holds_dealloc [OF 13(2), of "0x444444458c00" 10] obtain s14 where
    14: "BuddyAllocator_dealloc s13 0x444444458c00 = Inr s14" "holds s14 heap_lists []" by (auto simp: dealloc_run)
  have "test_buddy_allocator C P SERIAL (Locked_new s) w =
       rbind (printed (println_str C P SERIAL self_test_line w)) (\<lambda>w. Inr (w, Locked_new s14))" for C SERIAL w and P :: "'w ports"
    by (simp add: self_test_line_eq test_buddy_allocator_def Locked_lock_new test_layouts(1-3) 1(1,2) 3(1) 4(1) 5(1) 6(1) 7(1,2) 9(1) 10(1) 11(1)
        12(1) 13(1) 14(1) Let_def min_def MutexGuard_drop_new Locked_new_def [symmetric] del: append.simps)
  with holdsD(1) [OF 14(2)] show ?thesis by blast
qed

lemma heap_lists_free: "coalesced heap_lists" "free_memory heap_lists = heap_range"
proof -
  show "coalesced heap_lists" by (simp add: coalesced_def heap_lists_def buddy_xor)
  have "free_memory heap_lists = block 16 0x444444440000 \<union> block 15 0x444444450000 \<union> block 12 0x444444458000"
  proof -
    have add: "free_memory (L(i := [a])) = free_memory L \<union> block i a" if "L i = []" for L i a
      using free_memory_add [of L i a] that by simp
    have "free_memory (\<lambda>_. []) = {}" by (simp add: free_memory_def)
    then show ?thesis unfolding heap_lists_def by (subst add, simp)+ simp
  qed
  then show "free_memory heap_lists = heap_range"
    unfolding block_def heap_range_def HEAP_START_def HEAP_SIZE_def by (intro set_eqI) (simp; linarith)
qed

lemma self_test_init:
  assumes "BuddyAllocator_init (BuddyAllocator_new m) HEAP_START HEAP_SIZE = Inr h"
  shows "\<exists>h' L. heap_rep h L \<and> (\<forall>C (P :: 'w ports) SERIAL w. test_buddy_allocator C P SERIAL (Locked_new h) w =
       rbind (printed (println_str C P SERIAL self_test_line w)) (\<lambda>w. Inr (w, Locked_new h'))) \<and> heap_rep h' L \<and> heap_inv (h', [])"
proof -
  have h: "heap_rep h heap_lists" using heap_init_lists [of m] assms by auto
  from self_test_run [OF this] obtain h' where h': "\<forall>C (P :: 'w ports) SERIAL w. test_buddy_allocator C P SERIAL (Locked_new h) w =
       rbind (printed (println_str C P SERIAL self_test_line w)) (\<lambda>w. Inr (w, Locked_new h'))" "heap_rep h' heap_lists" by blast
  moreover have "heap_inv (h', [])"
    using h'(2) heap_lists_free by (auto simp: client_inv_def heap_free_def)
  ultimately show ?thesis using h by blast
qed

section \<open>Property\<close>

text \<open>
  C10. The self test of the heap passes: on the heap that \<open>init\<close> sets up, whatever was in its memory before,
  \<open>test_buddy_allocator\<close> runs to its end, with one line printed on the way; it can only be stopped by that \<open>println\<close> not
  returning. None of its assertions fails: the two blocks merge again, also over two stages, and
  are handed out anew. It releases the lock and leaves the free lists exactly as they were, with all of the heap free.
\<close>

theorem self_test_passes:
  "\<exists>h h' L. BuddyAllocator_init (BuddyAllocator_new m) HEAP_START HEAP_SIZE = Inr h \<and> heap_rep h L \<and>
     (\<forall>C (P :: 'w ports) SERIAL w. test_buddy_allocator C P SERIAL (Locked_new h) w =
        (case println_str C P SERIAL ''C3 address: 0x444444458c00, min address before: 0x444444458e00'' w of
           None \<Rightarrow> Inl Diverges | Some w' \<Rightarrow> Inr (w', Locked_new h'))) \<and>
     heap_rep h' L \<and> heap_inv (h', [])"
proof -
  obtain h where h: "BuddyAllocator_init (BuddyAllocator_new m) HEAP_START HEAP_SIZE = Inr h" using heap_init_lists [of m] by blast
  from self_test_init [OF h] obtain h' L where
    1: "heap_rep h L" "heap_rep h' L" "heap_inv (h', [])"
      "\<forall>C (P :: 'w ports) SERIAL w. test_buddy_allocator C P SERIAL (Locked_new h) w =
         rbind (printed (println_str C P SERIAL self_test_line w)) (\<lambda>w. Inr (w, Locked_new h'))" by blast
  have "test_buddy_allocator C P SERIAL (Locked_new h) w =
      (case println_str C P SERIAL ''C3 address: 0x444444458c00, min address before: 0x444444458e00'' w of
         None \<Rightarrow> Inl Diverges | Some w' \<Rightarrow> Inr (w', Locked_new h'))" for C SERIAL w and P :: "'w ports"
    unfolding 1(4) [rule_format] self_test_line_def printed_def by (cases "println_str C P SERIAL ''C3 address: 0x444444458c00, min address before: 0x444444458e00'' w") simp_all
  with h 1(1-3) show ?thesis by blast
qed

end
