(* ===== verification/Byte_Fields.thy ===== *)
theory Byte_Fields
  imports Rust_Prelude
begin

text \<open>
  Slices of bytes and the little-endian fields the parsers read from them: \<open>raw[a..b]\<close> with its
  panic, and \<open>from_le_bytes\<close>. The conversion of a slice of the right length to an array
  (\<open>try_into().unwrap()\<close>) never fails.
\<close>

definition slice :: "'a list \<Rightarrow> nat \<Rightarrow> nat \<Rightarrow> 'a list res" where
  [rust_defs]: "slice raw a b =
     (if a \<le> b \<and> b \<le> length raw then Inr (take (b - a) (drop a raw)) else Inl Index_Out_Of_Bounds)"

primrec from_le_bytes :: "u8 list \<Rightarrow> 'a::len word" where
  "from_le_bytes [] = 0"
| "from_le_bytes (b # bs) = ucast b OR push_bit 8 (from_le_bytes bs)"

definition le_field :: "u8 list \<Rightarrow> nat \<Rightarrow> nat \<Rightarrow> 'a::len word res" where
  "le_field raw a b = rbind (slice raw a b) (\<lambda>bs. Inr (from_le_bytes bs))"

primrec to_le_bytes :: "nat \<Rightarrow> 'a::len word \<Rightarrow> u8 list" where
  "to_le_bytes 0 w = []"
| "to_le_bytes (Suc n) w = ucast w # to_le_bytes n (drop_bit 8 w)"

lemma length_to_le_bytes [simp]: "length (to_le_bytes n w) = n"
  by (induction n arbitrary: w) simp_all

lemma slice_in [simp]: "a \<le> b \<Longrightarrow> b \<le> length raw \<Longrightarrow> slice raw a b = Inr (take (b - a) (drop a raw))"
  by (simp add: slice_def)

lemma le_field_in: "a \<le> b \<Longrightarrow> b \<le> length raw \<Longrightarrow> le_field raw a b = Inr (from_le_bytes (take (b - a) (drop a raw)))"
  by (simp add: le_field_def)

lemma le_field_out: "length raw < b \<Longrightarrow> le_field raw a b = Inl Index_Out_Of_Bounds"
  by (simp add: le_field_def slice_def)

lemma bit_from_le_bytes:
  "bit (from_le_bytes bs :: 'a::len word) i \<longleftrightarrow> i < LENGTH('a) \<and> i div 8 < length bs \<and> bit (bs ! (i div 8)) (i mod 8)"
proof (induction bs arbitrary: i)
  case (Cons b bs)
  show ?case
  proof (cases "i < 8")
    case True
    then show ?thesis by (simp add: bit_or_iff bit_ucast_iff bit_push_bit_iff possible_bit_def)
  next
    case False
    then have "i div 8 = Suc ((i - 8) div 8)" "i mod 8 = (i - 8) mod 8" by (simp_all add: le_div_geq le_mod_geq)
    then show ?thesis using False Cons.IH [of "i - 8"] by (auto simp: bit_simps dest: bit_imp_le_length)
  qed
qed simp

lemma nth_to_le_bytes: "i < n \<Longrightarrow> to_le_bytes n w ! i = ucast (drop_bit (8 * i) w)"
proof (induction n arbitrary: w i)
  case (Suc n)
  then show ?case by (cases i) (simp_all add: ac_simps)
qed simp

text \<open>A word survives being written to bytes and read back.\<close>

lemma from_to_le_bytes: "LENGTH('a) = 8 * n \<Longrightarrow> from_le_bytes (to_le_bytes n w) = (w :: 'a::len word)"
proof (rule bit_word_eqI)
  fix i
  assume n: "LENGTH('a) = 8 * n" and "i < LENGTH('a)"
  then have "i div 8 < n" by (simp add: less_mult_imp_div_less mult.commute)
  then show "bit (from_le_bytes (to_le_bytes n w) :: 'a word) i = bit w i"
    using \<open>i < LENGTH('a)\<close> by (simp add: bit_from_le_bytes nth_to_le_bytes bit_ucast_iff bit_drop_bit_eq)
qed

lemma unat_from_le_bytes_2: "unat (from_le_bytes [a, b] :: u16) = unat a + 256 * unat b"
proof -
  have "(from_le_bytes [a, b] :: u16) = ucast a + push_bit 8 (ucast b)"
    by (simp, rule disjunctive_add_eq_or [symmetric], rule bit_word_eqI) (auto simp: bit_simps dest: bit_imp_le_length)
  then show ?thesis
    using unat_less_exp [of a] unat_less_exp [of b]
    by (simp add: push_bit_eq_mult unat_word_ariths unat_ucast_up)
qed

end
