(* ===== verification/Kernel_Start.thy ===== *)
theory Kernel_Start
  imports Buddy_Self_Test Byte_Fields
begin

text \<open>
  The kernel from its entry: \<open>start\<close> of \<open>kernel/src/main.rs\<close> up to the tests of \<open>Box\<close> and \<open>Vec\<close>, and the kernel of the
  integration test (\<open>tests/test_kernel_unittests\<close>), which ends the virtual machine over a port of 32 bits
  (\<open>kernel/src/qemu.rs\<close>, \<open>x86_64/src/port.rs\<close>); the test runner (\<open>run_test_kernel\<close> of \<open>src/lib.rs\<close>) looks at
  the exit status.
\<close>

section \<open>Starting the kernel\<close>




section \<open>Ports of 16 and 32 bits\<close>

text \<open>The devices behind the wide ports, and the traits \<open>ReadPort\<close> and \<open>WritePort\<close> as dictionaries of their methods.\<close>

record 'w wide_ports =
  port_in16 :: "u16 \<Rightarrow> 'w \<Rightarrow> u16 \<times> 'w"
  port_in32 :: "u16 \<Rightarrow> 'w \<Rightarrow> u32 \<times> 'w"
  port_out16 :: "u16 \<Rightarrow> u16 \<Rightarrow> 'w \<Rightarrow> 'w"
  port_out32 :: "u16 \<Rightarrow> u32 \<Rightarrow> 'w \<Rightarrow> 'w"

record ('t, 'w) port_traits =
  read_from_register :: "u16 \<Rightarrow> 'w \<Rightarrow> 't \<times> 'w"
  write_to_register :: "u16 \<Rightarrow> 't \<Rightarrow> 'w \<Rightarrow> 'w"

definition port_u8 :: "'w ports \<Rightarrow> (u8, 'w) port_traits" where
  "port_u8 P = \<lparr>read_from_register = port_in P, write_to_register = port_out P\<rparr>"

definition port_u16 :: "'w wide_ports \<Rightarrow> (u16, 'w) port_traits" where
  "port_u16 W = \<lparr>read_from_register = port_in16 W, write_to_register = port_out16 W\<rparr>"

definition port_u32 :: "'w wide_ports \<Rightarrow> (u32, 'w) port_traits" where
  "port_u32 W = \<lparr>read_from_register = port_in32 W, write_to_register = port_out32 W\<rparr>"

definition Port_read_as :: "('t, 'w) port_traits \<Rightarrow> Port \<Rightarrow> 'w \<Rightarrow> 't \<times> 'w" where
  "Port_read_as T self w = read_from_register T self w"

definition Port_write_as :: "('t, 'w) port_traits \<Rightarrow> Port \<Rightarrow> 't \<Rightarrow> 'w \<Rightarrow> 'w" where
  "Port_write_as T self val w = write_to_register T self val w"

text \<open>The drivers of the kernel use ports of 8 bits.\<close>

lemma Port_u8: "Port_read_as (port_u8 P) = Port_read P" "Port_write_as (port_u8 P) = Port_write P"
  by (simp_all add: fun_eq_iff Port_read_as_def Port_write_as_def port_u8_def Port_read_def Port_write_def)

section \<open>Ending the virtual machine\<close>

datatype QemuExitCode = Success | Failed

definition QemuExitCode_u32 :: "QemuExitCode \<Rightarrow> u32" where
  "QemuExitCode_u32 c = (case c of Success \<Rightarrow> 0x10 | Failed \<Rightarrow> 0x11)"

text \<open>
  \<open>exit\<close> never returns: either the write ends the machine, with the status that \<open>stopped\<close> gives, or
  \<open>unreachable!\<close> panics.
\<close>

definition qemu_exit :: "'w wide_ports \<Rightarrow> ('w \<Rightarrow> nat option) \<Rightarrow> QemuExitCode \<Rightarrow> 'w \<Rightarrow> nat res" where
  "qemu_exit W stopped exit_code w =
     (case stopped (Port_write_as (port_u32 W) 0xf4 (QemuExitCode_u32 exit_code) w) of
        Some status \<Rightarrow> Inr status
      | None \<Rightarrow> Inl Explicit_Panic)"

definition test_kernel_start ::
    "crates \<Rightarrow> 'w ports \<Rightarrow> 'w wide_ports \<Rightarrow> ('w \<Rightarrow> nat option) \<Rightarrow> SerialPort Mutex \<Rightarrow> ChainedPics Mutex \<Rightarrow> u64 \<Rightarrow> u64 \<Rightarrow> u64 \<Rightarrow>
     (kernel_handler \<Rightarrow> u64) \<Rightarrow> BootInfo \<Rightarrow> region_memory \<Rightarrow> Locked \<Rightarrow> cpu \<Rightarrow> 'w \<Rightarrow> table_memory \<Rightarrow> nat res" where
  "test_kernel_start C P W stopped SERIAL PICS tss_ptr gdt_ptr idt_ptr addr info rm ALLOCATOR s w m =
     rbind (kernel_init C P SERIAL PICS tss_ptr gdt_ptr idt_ptr addr info rm ALLOCATOR s w m) (\<lambda>(s, w, page_table, st, ALLOCATOR).
     rbind (printed (println_str C P SERIAL ''Hello from test kernel'' w)) (\<lambda>w.
     qemu_exit W stopped Success w))"

text \<open>The check of the test runner: 33 is success.\<close>

definition run_test_kernel :: "nat option \<Rightarrow> unit res" where
  "run_test_kernel status_code = rassert (status_code = Some 33)"

section \<open>Properties\<close>








text \<open>An example with 1 MiB of memory.\<close>

definition start_boot_info :: BootInfo where
  "start_boot_info = BootInfo_new (PhysicalMemoryRegion_new 0 0 Used)
     (FramebufferInfo_new (PhysicalMemoryRegion_new 0 0 Used) 0 0 0 0 Rgb) (PhysicalMemoryRegions_new 0 1) 0"

lemma start_example:
  "\<exists>sp. SerialPort_new 0x3F8 = Inr sp" "\<forall>w. eventually_set (\<lambda>_ _. 0x60) (0x3F8 + 5) 5 w"
  "0 = bi_physical_memory_offset start_boot_info" "0x1000 = (cpu_cr3 example_cpu AND 0x000ffffffffff000) + 0"
  "unat (cpu_cr3 example_cpu AND 0x000ffffffffff000) + unat (0 :: u64) < 2 ^ 64"
  "heap_ready reference_crates 0 0x1000 (\<lambda>_. 0) (BumpFrameAllocator_new (PhysicalMemoryRegions_deref
     (\<lambda>_. PhysicalMemoryRegion_new 0x100000 0x100000 Free) (bi_memory_regions start_boot_info)))"
  using example_heap_ready
  by (simp_all add: SerialPort_new_def op_add_def eventually_set_def example_cpu_def PhysicalMemoryRegions_deref_def start_boot_info_def
      BootInfo_new_def PhysicalMemoryRegions_new_def)


text \<open>
  C29. The integration test: the debug device ends the machine with the status \<open>2 v + 1\<close> when \<open>v\<close> is written to its
  port. Then the test kernel, under the conditions of \<open>kernel_init\<close>, ends with the status that \<open>run_test_kernel\<close>
  asks for; and a kernel that exits with \<open>Failed\<close> makes the runner fail.
\<close>

theorem test_kernel_succeeds:
  assumes "crates_ok C" "SerialPort_new base = Inr sp" "\<forall>w. eventually_set answer (base + 5) 5 w"
    and "offset = bi_physical_memory_offset bi" "root = (cpu_cr3 s AND 0x000ffffffffff000) + offset"
    and "unat (cpu_cr3 s AND 0x000ffffffffff000) + unat offset < 2 ^ 64"
    and "heap_ready C offset root m (BumpFrameAllocator_new (PhysicalMemoryRegions_deref rm (bi_memory_regions bi)))"
    and "\<forall>v w. stopped (port_out32 W 0xf4 v w) = Some (2 * unat v + 1)"
  shows "\<exists>status. test_kernel_start C (log_ports answer) W stopped (Mutex_new sp) (Mutex_new ChainedPics_new) tss_ptr gdt_ptr idt_ptr addr
         bi rm (Locked_new (BuddyAllocator_new hm)) s w m = Inr status \<and> run_test_kernel (Some status) = Inr () \<and>
     (\<forall>w. \<exists>failure. qemu_exit W stopped Failed w = Inr failure \<and> run_test_kernel (Some failure) = Inl Assertion_Failed)"
proof -
  obtain w1 m' a' h where 1: "kernel_init C (log_ports answer) (Mutex_new sp) (Mutex_new ChainedPics_new) tss_ptr gdt_ptr idt_ptr addr
         bi rm (Locked_new (BuddyAllocator_new hm)) s w m = Inr (kernel_cpu gdt_ptr idt_ptr s, w1, root, (m', a'), Locked_new h)"
    using kernel_init_runs [OF assms(1-7)] by blast
  obtain t where 2: "println_str C (log_ports answer) (Mutex_new sp) ''Hello from test kernel'' w1 = Some (w1 @ t)"
    using println_log [OF assms(1-3)] by blast
  have "qemu_exit W stopped c w = Inr (2 * unat (QemuExitCode_u32 c) + 1)" for c w
    using assms(8) by (simp add: qemu_exit_def Port_write_as_def port_u32_def)
  then show ?thesis by (simp add: test_kernel_start_def 1 2 printed_def run_test_kernel_def QemuExitCode_u32_def rassert_def)
qed

text \<open>In the example the four bytes of a value are written to the log, and the status is computed from the last four.\<close>

definition example_wide_ports :: "access list wide_ports" where
  "example_wide_ports = \<lparr>port_in16 = (\<lambda>p w. (0, w)), port_in32 = (\<lambda>p w. (0, w)), port_out16 = (\<lambda>p v w. w),
     port_out32 = (\<lambda>p v w. w @ map (Out p) (to_le_bytes 4 v))\<rparr>"

definition written_byte :: "access \<Rightarrow> u8" where
  "written_byte a = (case a of In p v \<Rightarrow> v | Out p v \<Rightarrow> v)"

definition example_status :: "access list \<Rightarrow> nat option" where
  "example_status w = Some (2 * unat (from_le_bytes (map written_byte (drop (length w - 4) w)) :: u32) + 1)"

lemma example_debug_exit: "\<forall>v w. example_status (port_out32 example_wide_ports 0xf4 v w) = Some (2 * unat v + 1)"
proof (intro allI)
  fix v :: u32 and w
  have "map written_byte (map (Out 0xf4) bs) = bs" for bs by (simp add: written_byte_def o_def)
  moreover have "from_le_bytes (to_le_bytes 4 v) = v" by (rule from_to_le_bytes) simp
  ultimately show "example_status (port_out32 example_wide_ports 0xf4 v w) = Some (2 * unat v + 1)"
    by (simp add: example_status_def example_wide_ports_def del: map_map)
qed

theorem test_kernel_succeeds_witness:
  "\<exists>sp status. SerialPort_new 0x3F8 = Inr sp \<and>
     test_kernel_start reference_crates (log_ports (\<lambda>_ _. 0x60)) example_wide_ports example_status (Mutex_new sp) (Mutex_new ChainedPics_new)
       0x10 0x20 0x30 (\<lambda>_. 0x40) start_boot_info (\<lambda>_. PhysicalMemoryRegion_new 0x100000 0x100000 Free)
       (Locked_new (BuddyAllocator_new (\<lambda>_. None))) example_cpu [] (\<lambda>_. 0) = Inr status \<and> run_test_kernel (Some status) = Inr ()"
proof -
  obtain sp where sp: "SerialPort_new 0x3F8 = Inr sp" using start_example(1) by blast
  from test_kernel_succeeds [OF reference_crates_ok sp start_example(2-6) example_debug_exit,
      of "0x10" "0x20" "0x30" "\<lambda>_. 0x40" "\<lambda>_. None" "[]"] sp
  show ?thesis by blast
qed

end
