(* ===== verification/Storage_List.thy ===== *)
theory Storage_List
  imports Buddy_List
begin

text \<open>
  \<open>LinkedListWithStorage\<close> of \<open>kernel/src/allocator/buddy_allocator.rs\<close>, a list that brings the storage of its nodes
  along; no code uses it. Its head is a pointer into its own array, which moving the list does not adjust.
\<close>

section \<open>The list\<close>

definition LIST_SIZE :: nat where "LIST_SIZE = 512"

text \<open>A list is the address of its array of nodes, and the head. The size fields are not initialised: they hold \<open>garbage\<close>.\<close>

record LinkedListWithStorage =
  storage_nodes :: u64
  storage_head :: "u64 option"

definition storage_node :: "u64 \<Rightarrow> nat \<Rightarrow> u64" where
  "storage_node a i = a + of_nat i * 16"

text \<open>\<open>new\<close>, with the local variable \<open>list\<close> at the address \<open>a\<close>: one turn of its loop, and the loop.\<close>

fun storage_link :: "(u64 \<Rightarrow> u64) \<Rightarrow> u64 \<Rightarrow> nat \<Rightarrow> chunk_memory \<times> LinkedListWithStorage \<Rightarrow> chunk_memory \<times> LinkedListWithStorage" where
  "storage_link garbage a i (m, list) =
     (m(storage_node a i \<mapsto> \<lparr>chunk_next = storage_head list, chunk_size = garbage (storage_node a i)\<rparr>),
      list\<lparr>storage_head := Some (storage_node a i)\<rparr>)"

definition LinkedListWithStorage_new :: "(u64 \<Rightarrow> u64) \<Rightarrow> chunk_memory \<Rightarrow> u64 \<Rightarrow> chunk_memory \<times> LinkedListWithStorage" where
  "LinkedListWithStorage_new garbage m a =
     fold (storage_link garbage a) [0 ..< LIST_SIZE] (m, \<lparr>storage_nodes = a, storage_head = None\<rparr>)"

text \<open>The return value is moved to the address \<open>b\<close> of the caller: its bytes are copied, and the old place is dead.\<close>

definition LinkedListWithStorage_move :: "chunk_memory \<Rightarrow> LinkedListWithStorage \<Rightarrow> u64 \<Rightarrow> chunk_memory \<times> LinkedListWithStorage" where
  "LinkedListWithStorage_move m self b =
     (let old = fold (\<lambda>i m'. m'(storage_node (storage_nodes self) i := None)) [0 ..< LIST_SIZE] m in
      (fold (\<lambda>i m'. m'(storage_node b i := m (storage_node (storage_nodes self) i))) [0 ..< LIST_SIZE] old,
       self\<lparr>storage_nodes := b\<rparr>))"

definition LinkedListWithStorage_push_front ::
    "chunk_memory \<Rightarrow> LinkedListWithStorage \<Rightarrow> u64 \<Rightarrow> (chunk_memory \<times> LinkedListWithStorage) res" where
  "LinkedListWithStorage_push_front m self blk =
     rbind (load_header m blk) (\<lambda>c. Inr (m(blk \<mapsto> c\<lparr>chunk_next := storage_head self\<rparr>), self\<lparr>storage_head := Some blk\<rparr>))"

definition LinkedListWithStorage_pop_front ::
    "chunk_memory \<Rightarrow> LinkedListWithStorage \<Rightarrow> (u64 option \<times> chunk_memory \<times> LinkedListWithStorage) res" where
  "LinkedListWithStorage_pop_front m self =
     (case storage_head self of None \<Rightarrow> Inr (None, m, self)
      | Some blk \<Rightarrow> rbind (load_header m blk) (\<lambda>c.
          Inr (Some blk, m(blk \<mapsto> c\<lparr>chunk_next := None\<rparr>), self\<lparr>storage_head := chunk_next c\<rparr>)))"

definition LinkedListWithStorage_remove :: "LinkedListWithStorage \<Rightarrow> u64 \<Rightarrow> u64 option" where
  "LinkedListWithStorage_remove self start = None"

definition LinkedListWithStorage_is_empty :: "LinkedListWithStorage \<Rightarrow> bool" where
  "LinkedListWithStorage_is_empty self \<longleftrightarrow> storage_head self = None"

definition LinkedListWithStorage_front :: "LinkedListWithStorage \<Rightarrow> u64 option" where
  "LinkedListWithStorage_front self = storage_head self"

section \<open>The nodes\<close>

lemma storage_node_inj: "i < LIST_SIZE \<Longrightarrow> j < LIST_SIZE \<Longrightarrow> storage_node a i = storage_node a j \<longleftrightarrow> i = j"
proof -
  assume "i < LIST_SIZE" "j < LIST_SIZE"
  then have "unat (of_nat i * 16 :: u64) = i * 16" "unat (of_nat j * 16 :: u64) = j * 16"
    by (simp_all add: LIST_SIZE_def unat_word_ariths unat_of_nat)
  then show ?thesis by (auto simp: storage_node_def word_unat_eq_iff [of "of_nat i * 16"])
qed

lemma storage_new_loop:
  assumes "n \<le> LIST_SIZE"
  shows "\<exists>m'. fold (storage_link garbage a) [0 ..< n] (m, \<lparr>storage_nodes = a, storage_head = None\<rparr>) =
      (m', \<lparr>storage_nodes = a, storage_head = (if n = 0 then None else Some (storage_node a (n - 1)))\<rparr>) \<and>
     (\<forall>i < n. m' (storage_node a i) = Some \<lparr>chunk_next = (if i = 0 then None else Some (storage_node a (i - 1))),
        chunk_size = garbage (storage_node a i)\<rparr>)"
  using assms
proof (induction n)
  case (Suc n)
  then obtain m' where m': "fold (storage_link garbage a) [0 ..< n] (m, \<lparr>storage_nodes = a, storage_head = None\<rparr>) =
      (m', \<lparr>storage_nodes = a, storage_head = (if n = 0 then None else Some (storage_node a (n - 1)))\<rparr>)"
     "\<forall>i < n. m' (storage_node a i) = Some \<lparr>chunk_next = (if i = 0 then None else Some (storage_node a (i - 1))),
        chunk_size = garbage (storage_node a i)\<rparr>" by auto
  show ?case
  proof (intro exI conjI)
    show "fold (storage_link garbage a) [0 ..< Suc n] (m, \<lparr>storage_nodes = a, storage_head = None\<rparr>) =
        (m'(storage_node a n \<mapsto> \<lparr>chunk_next = (if n = 0 then None else Some (storage_node a (n - 1))), chunk_size = garbage (storage_node a n)\<rparr>),
         \<lparr>storage_nodes = a, storage_head = (if Suc n = 0 then None else Some (storage_node a (Suc n - 1)))\<rparr>)"
      unfolding upt_Suc_append [OF le0] fold_append comp_apply m'(1) by simp
    show "\<forall>i < Suc n. (m'(storage_node a n \<mapsto> \<lparr>chunk_next = (if n = 0 then None else Some (storage_node a (n - 1))),
          chunk_size = garbage (storage_node a n)\<rparr>)) (storage_node a i) =
        Some \<lparr>chunk_next = (if i = 0 then None else Some (storage_node a (i - 1))), chunk_size = garbage (storage_node a i)\<rparr>"
      using m'(2) Suc.prems by (auto simp: less_Suc_eq storage_node_inj)
  qed
qed simp

text \<open>Where it was made, the list links all of its nodes, from the last to the first.\<close>

lemma storage_new:
  "\<exists>m'. LinkedListWithStorage_new garbage m a = (m', \<lparr>storage_nodes = a, storage_head = Some (storage_node a 511)\<rparr>) \<and>
     (\<forall>i < LIST_SIZE. m' (storage_node a i) = Some \<lparr>chunk_next = (if i = 0 then None else Some (storage_node a (i - 1))),
        chunk_size = garbage (storage_node a i)\<rparr>)"
  using storage_new_loop [of LIST_SIZE garbage a m] unfolding LinkedListWithStorage_new_def by (auto simp: LIST_SIZE_def)

lemma fold_upd_other:
  "x \<notin> f ` set is \<Longrightarrow> fold (\<lambda>i m. m(f i := g i)) is m x = m x"
  by (induction "is" arbitrary: m) auto

text \<open>Moved to a disjoint place, its head points to memory that is dead: the first \<open>pop_front\<close> is undefined behaviour.\<close>

lemma storage_moved_dangles:
  assumes "LinkedListWithStorage_new garbage m a = (m1, l1)" "LinkedListWithStorage_move m1 l1 b = (m2, l2)"
    and "\<And>i j. i < LIST_SIZE \<Longrightarrow> j < LIST_SIZE \<Longrightarrow> storage_node a i \<noteq> storage_node b j"
  shows "LinkedListWithStorage_pop_front m2 l2 = Inl Undefined_Behaviour"
proof -
  have l: "l1 = \<lparr>storage_nodes = a, storage_head = Some (storage_node a 511)\<rparr>" using storage_new [of garbage m a] assms(1) by auto
  have dead: "fold (\<lambda>i m'. m'(storage_node a i := None)) (is @ [511]) m1 (storage_node a 511) = None" for "is" by simp
  have "[0 ..< LIST_SIZE] = [0 ..< 511] @ [511]" by (simp add: LIST_SIZE_def upt_Suc_append [of 0 511, simplified])
  with dead have "fold (\<lambda>i m'. m'(storage_node a i := None)) [0 ..< LIST_SIZE] m1 (storage_node a 511) = None" by metis
  moreover have "storage_node a 511 \<notin> storage_node b ` set [0 ..< LIST_SIZE]"
  proof
    assume "storage_node a 511 \<in> storage_node b ` set [0 ..< LIST_SIZE]"
    then obtain j where "j < LIST_SIZE" "storage_node a 511 = storage_node b j" by auto
    with assms(3) [of 511 j] show False by (simp add: LIST_SIZE_def)
  qed
  ultimately have "m2 (storage_node a 511) = None"
    using assms(2) by (auto simp: LinkedListWithStorage_move_def l Let_def fold_upd_other)
  then show ?thesis using assms(2) by (auto simp: LinkedListWithStorage_pop_front_def LinkedListWithStorage_move_def l Let_def load_header_def)
qed

end
