(* ===== verification/Bios_Disk.thy ===== *)
theory Bios_Disk
  imports Rust_Prelude
begin

text \<open>
  Reading the boot disk in stage 2: the disk address packet (\<open>stage2/src/dap.rs\<close>) and the seekable
  disk over it (\<open>stage2/src/disk.rs\<close>). The BIOS service 0x13/0x42 that reads the sectors is an
  argument: it gets the disk number and the packet and answers the bytes it puts at the packet's
  buffer address, or fails. Stage 2 is 32-bit code: \<open>usize\<close> is a word of 32 bits.
\<close>

section \<open>The disk address packet\<close>

record DiskAddressPacket =
  dap_size :: u8
  dap_zero :: u8
  dap_sector_count :: u16
  dap_offset :: u16
  dap_segment :: u16
  dap_start_lba :: u64

definition DiskAddressPacket_new :: "u32 \<Rightarrow> u16 \<Rightarrow> u64 \<Rightarrow> DiskAddressPacket res" where
  "DiskAddressPacket_new buffer_address sector_count start_lba =
     (let segment = drop_bit 4 buffer_address in
      if unat segment < 2 ^ 16
      then Inr \<lparr>dap_size = 0x10, dap_zero = 0, dap_sector_count = sector_count,
                dap_offset = ucast (buffer_address AND 0xF),
                dap_segment = ucast segment, dap_start_lba = start_lba\<rparr>
      else Inl Unwrap_None)"

type_synonym bios = "u16 \<Rightarrow> DiskAddressPacket \<Rightarrow> u8 list option"

text \<open>\<open>load\<close>: the carry flag after \<open>int 0x13\<close> jumps to \<open>fail\<close>, which panics.\<close>

definition DiskAddressPacket_load :: "bios \<Rightarrow> u16 \<Rightarrow> DiskAddressPacket \<Rightarrow> u8 list res" where
  "DiskAddressPacket_load B disk_number self =
     (case B disk_number self of None \<Rightarrow> Inl Explicit_Panic | Some bytes \<Rightarrow> Inr bytes)"

text \<open>The address at which the BIOS puts the data: segment times 16 plus offset.\<close>

definition dap_buffer_address :: "DiskAddressPacket \<Rightarrow> u32" where
  "dap_buffer_address p = ucast (dap_segment p) * 16 + ucast (dap_offset p)"

section \<open>The disk\<close>

datatype SeekFrom = Start u64 | StartInSectors u64 | End int | Current int

record DiskAccess =
  disk_number :: u16
  base_offset :: u64
  disk_offset :: u64
  sector_size :: u32
  cluster_size :: u32

definition DEFAULT_SECTOR_SIZE :: nat where "DEFAULT_SECTOR_SIZE = 512"

definition DiskAccess_new :: "u16 \<Rightarrow> u64 \<Rightarrow> u64 \<Rightarrow> DiskAccess res" where
  "DiskAccess_new dn base_lba offset =
     rbind (op_mul base_lba (of_nat DEFAULT_SECTOR_SIZE)) (\<lambda>b.
     rbind (op_mul offset (of_nat DEFAULT_SECTOR_SIZE)) (\<lambda>off.
     Inr \<lparr>disk_number = dn, base_offset = b, disk_offset = off,
          sector_size = of_nat DEFAULT_SECTOR_SIZE, cluster_size = 0\<rparr>))"

definition sectors_per_cluster_of :: "DiskAccess \<Rightarrow> u32 res" where
  "sectors_per_cluster_of self = op_div (cluster_size self) (sector_size self)"

text \<open>\<open>seek\<close>; the arguments of \<open>Current\<close> are values of \<open>i64\<close>, and negating the least one overflows.\<close>

definition DiskAccess_seek :: "DiskAccess \<Rightarrow> SeekFrom \<Rightarrow> DiskAccess res" where
  "DiskAccess_seek self pos = (case pos of
       Start off \<Rightarrow> Inr (self\<lparr>disk_offset := off\<rparr>)
     | StartInSectors off \<Rightarrow>
         rbind (op_mul off (ucast (sector_size self))) (\<lambda>o'. Inr (self\<lparr>disk_offset := o'\<rparr>))
     | Current off \<Rightarrow>
         if off > 0 then Inr (self\<lparr>disk_offset := saturating_add (disk_offset self) (of_int off)\<rparr>)
         else if off = - (2 ^ 63) then Inl Arithmetic_Overflow
         else Inr (self\<lparr>disk_offset := saturating_sub (disk_offset self) (of_int (- off))\<rparr>)
     | End _ \<Rightarrow> Inl Unimplemented)"

text \<open>Memory at the buffer: the BIOS overwrites the bytes from position \<open>i\<close> on.\<close>

definition overwrite :: "u8 list \<Rightarrow> nat \<Rightarrow> u8 list \<Rightarrow> u8 list res" where
  "overwrite buf i bytes =
     (if i + length bytes \<le> length buf then Inr (take i buf @ bytes @ drop (i + length bytes) buf)
      else Inl Undefined_Behaviour)"

text \<open>
  The BIOS puts the bytes where the segment and the offset of the packet say; a place outside of the buffer, whose
  address is \<open>buf_address\<close>, is other memory of stage 2.
\<close>

definition bios_transfer :: "u32 \<Rightarrow> u8 list \<Rightarrow> DiskAddressPacket \<Rightarrow> u8 list \<Rightarrow> u8 list res" where
  "bios_transfer buf_address buf packet bytes =
     (if dap_buffer_address packet < buf_address then Inl Undefined_Behaviour
      else overwrite buf (unat (dap_buffer_address packet) - unat buf_address) bytes)"

text \<open>
  The loop of \<open>read_sectors\<close>, at most 0x20 sectors a turn: \<open>buf_address\<close> is the address of the
  buffer, \<open>address\<close> the address for the packet of the next turn.
\<close>

function read_sectors_loop ::
    "bios \<Rightarrow> u16 \<Rightarrow> u32 \<Rightarrow> u32 \<Rightarrow> nat \<Rightarrow> u32 \<Rightarrow> u64 \<Rightarrow> u8 list \<Rightarrow> u8 list res" where
  "read_sectors_loop B dn ssize buf_address remaining address start_lba buf =
     (if remaining = 0 then Inr buf
      else let sector_count = min remaining 0x20 in
        rbind (DiskAddressPacket_new address (of_nat sector_count) start_lba) (\<lambda>packet.
        rbind (DiskAddressPacket_load B dn packet) (\<lambda>bytes.
        rbind (bios_transfer buf_address buf packet bytes) (\<lambda>buf.
        rbind (op_add start_lba (of_nat sector_count)) (\<lambda>start_lba.
        rbind (op_mul (of_nat sector_count) ssize) (\<lambda>step.
        rbind (op_add address step) (\<lambda>address.
        read_sectors_loop B dn ssize buf_address (remaining - sector_count) address start_lba buf)))))))"
  by pat_completeness auto

termination
  by (relation "measure (\<lambda>(_, _, _, _, remaining, _). remaining)") auto

declare read_sectors_loop.simps [simp del]

definition DiskAccess_read_sectors ::
    "bios \<Rightarrow> DiskAccess \<Rightarrow> u32 \<Rightarrow> u32 \<Rightarrow> u8 list \<Rightarrow> (u8 list \<times> DiskAccess) res" where
  "DiskAccess_read_sectors B self sectors_amount buf_address buf =
     (if sector_size self = 0 then Inl Divide_By_Zero else
      rbind (rassert (length buf mod unat (sector_size self) = 0)) (\<lambda>_.
      rbind (rassert (length buf div unat (sector_size self) \<ge> unat sectors_amount)) (\<lambda>_.
      rbind (op_add (base_offset self) (disk_offset self)) (\<lambda>start.
      rbind (op_mul sectors_amount (sector_size self)) (\<lambda>bytes.
      rbind (op_add start (ucast bytes)) (\<lambda>end_addr.
      rbind (read_sectors_loop B (disk_number self) (sector_size self) buf_address (unat sectors_amount) buf_address
               (start div ucast (sector_size self)) buf) (\<lambda>buf.
      Inr (buf, self\<lparr>disk_offset := end_addr\<rparr>))))))))"

definition DiskAccess_read :: "bios \<Rightarrow> DiskAccess \<Rightarrow> u32 \<Rightarrow> u8 list \<Rightarrow> (u8 list \<times> DiskAccess) res" where
  "DiskAccess_read B self buf_address buf =
     rbind (op_div (of_nat (length buf)) (sector_size self)) (\<lambda>n.
     DiskAccess_read_sectors B self n buf_address buf)"

text \<open>\<open>read_bytes\<close>: \<open>TMP_BUF\<close> is a static buffer of 1024 bytes; \<open>tmp\<close> is what it holds.\<close>

definition DiskAccess_read_bytes ::
    "bios \<Rightarrow> u32 \<Rightarrow> u8 list \<Rightarrow> DiskAccess \<Rightarrow> u32 \<Rightarrow> (u8 list \<times> u8 list \<times> DiskAccess) res" where
  "DiskAccess_read_bytes B tmp_address tmp self len =
     (if sector_size self = 0 then Inl Divide_By_Zero else
      let current_sector_offset = ucast (disk_offset self) mod sector_size self in
      rbind (op_add current_sector_offset len) (\<lambda>e.
      rbind (rassert (unat e \<le> length tmp)) (\<lambda>_.
      rbind (DiskAccess_read B self tmp_address tmp) (\<lambda>(tmp, self).
      Inr (take (unat len) (drop (unat current_sector_offset) tmp), tmp, self)))))"


section \<open>Reading an image\<close>

text \<open>
  The documented behaviour of the BIOS service on a disk with the given bytes, for a packet of 16 bytes that asks for at
  most 127 sectors.
\<close>

definition bios_reads :: "bios \<Rightarrow> (nat \<Rightarrow> u8) \<Rightarrow> bool" where
  "bios_reads B img \<longleftrightarrow>
     (\<forall>dn p. dap_size p = 0x10 \<and> dap_zero p = 0 \<and> unat (dap_sector_count p) \<le> 127 \<longrightarrow> B dn p = Some (map img
        [unat (dap_start_lba p) * 512 ..< (unat (dap_start_lba p) + unat (dap_sector_count p)) * 512]))"

definition image_bios :: "(nat \<Rightarrow> u8) \<Rightarrow> bios" where
  "image_bios img = (\<lambda>dn p. Some (map img
     [unat (dap_start_lba p) * 512 ..< (unat (dap_start_lba p) + unat (dap_sector_count p)) * 512]))"

lemma image_bios_reads: "bios_reads (image_bios img) img"
  by (simp add: bios_reads_def image_bios_def)

definition image_bytes :: "(nat \<Rightarrow> u8) \<Rightarrow> nat \<Rightarrow> nat \<Rightarrow> u8 list" where
  "image_bytes img a n = map img [a ..< a + n]"

lemma length_image_bytes [simp]: "length (image_bytes img a n) = n"
  by (simp add: image_bytes_def)

lemma nth_image_bytes: "i < n \<Longrightarrow> image_bytes img a n ! i = img (a + i)"
  by (simp add: image_bytes_def)

lemma image_bytes_append: "image_bytes img a m @ image_bytes img (a + m) n = image_bytes img a (m + n)"
  using upt_add_eq_append [of a "a + m" n] by (simp add: image_bytes_def add.assoc flip: map_append)

lemma take_drop_image_bytes: "i + n \<le> m \<Longrightarrow> take n (drop i (image_bytes img a m)) = image_bytes img (a + i) n"
  by (simp add: image_bytes_def drop_map take_map add.commute add.left_commute)

lemma unat_drop_bit_4: "unat (drop_bit 4 a) = unat (a :: 'a::len word) div 16"
  by (simp only: unat_drop_bit_eq) (simp add: drop_bit_eq_div)

text \<open>The packet addresses the buffer that was asked for.\<close>

lemma dap_address:
  assumes "DiskAddressPacket_new a n lba = Inr p"
  shows "dap_buffer_address p = a"
proof -
  have p: "dap_offset p = ucast (a AND 0xF)" "dap_segment p = ucast (drop_bit 4 a)" "unat (drop_bit 4 a) < 2 ^ 16"
    using assms by (auto simp: DiskAddressPacket_new_def Let_def split: if_splits)
  have m: "(0xF :: u32) = mask 4" by (simp add: mask_eq_exp_minus_1)
  have s: "unat (ucast (ucast (drop_bit 4 a) :: u16) :: u32) = unat a div 16"
    using p(3) by (simp only: unsigned_ucast_eq unat_drop_bit_4 take_bit_nat_eq) (simp add: take_bit_eq_mod unat_mod_distrib unat_drop_bit_4)
  have o: "unat (ucast (ucast (a AND 0xF) :: u16) :: u32) = unat a mod 16"
    unfolding m by (simp only: unsigned_ucast_eq unat_and_mask) (simp add: take_bit_eq_mod unat_mod_distrib unat_and_mask)
  have "unat (dap_buffer_address p) = unat a div 16 * 16 + unat a mod 16"
    using s o unat_less_exp [of a]
    by (simp add: dap_buffer_address_def p(1,2) unat_word_ariths)
  then show ?thesis by (simp add: word_unat_eq_iff)
qed

lemma dap_fits: "unat a < 2 ^ 20 \<Longrightarrow> \<exists>p. DiskAddressPacket_new a n lba = Inr p \<and> dap_sector_count p = n \<and> dap_start_lba p = lba \<and>
     dap_size p = 0x10 \<and> dap_zero p = 0"
  by (simp add: DiskAddressPacket_new_def Let_def unat_drop_bit_4)

lemma read_sectors_loop_correct:
  assumes "bios_reads B img" "unat addr + remaining * 512 \<le> 2 ^ 20" "unat lba + remaining < 2 ^ 64"
    "unat buf_address \<le> unat addr" "unat addr - unat buf_address + remaining * 512 \<le> length buf"
  shows "read_sectors_loop B dn 512 buf_address remaining addr lba buf =
    Inr (take (unat addr - unat buf_address) buf @ image_bytes img (unat lba * 512) (remaining * 512) @
         drop (unat addr - unat buf_address + remaining * 512) buf)"
  using assms(2-)
proof (induction remaining arbitrary: addr lba buf rule: less_induct)
  case (less remaining)
  show ?case
  proof (cases "remaining = 0")
    case True
    then show ?thesis by (simp add: read_sectors_loop.simps image_bytes_def)
  next
    case False
    define n where "n = min remaining 32"
    have n: "0 < n" "n \<le> remaining" "n \<le> 32" using False by (simp_all add: n_def)
    define i where "i = unat addr - unat buf_address"
    obtain p where p: "DiskAddressPacket_new addr (of_nat n) lba = Inr p" "dap_sector_count p = of_nat n" "dap_start_lba p = lba"
      "dap_size p = 0x10" "dap_zero p = 0"
      using dap_fits [of addr "of_nat n" lba] less.prems(1) False by auto
    have un: "unat (of_nat n :: u16) = n" "unat (of_nat n :: u32) = n" "unat (of_nat n :: u64) = n"
      using n by (simp_all add: unat_of_nat)
    have ld: "DiskAddressPacket_load B dn p = Inr (image_bytes img (unat lba * 512) (n * 512))"
      using assms(1) p n by (simp add: DiskAddressPacket_load_def bios_reads_def un image_bytes_def algebra_simps)
    let ?xs = "image_bytes img (unat lba * 512) (n * 512)"
    have ov: "bios_transfer buf_address buf p ?xs = Inr (take i buf @ ?xs @ drop (i + n * 512) buf)"
      using less.prems n dap_address [OF p(1)] by (simp add: bios_transfer_def overwrite_def word_less_nat_alt i_def)
    have lba: "op_add lba (of_nat n) = Inr (lba + of_nat n)" "unat (lba + of_nat n) = unat lba + n"
      using less.prems n un by (simp_all add: op_add_def unat_plus_nowrap)
    have st: "op_mul (of_nat n) (512 :: u32) = Inr (of_nat n * 512)" "unat (of_nat n * 512 :: u32) = n * 512"
      using n un by (simp_all add: op_mul_def unat_times_nowrap)
    have ad: "op_add addr (of_nat n * 512) = Inr (addr + of_nat n * 512)" "unat (addr + of_nat n * 512) = unat addr + n * 512"
      using less.prems n st by (simp_all add: op_add_def unat_plus_nowrap)
    let ?buf = "take i buf @ ?xs @ drop (i + n * 512) buf"
    have i': "unat (addr + of_nat n * 512) - unat buf_address = i + n * 512"
      using less.prems ad by (simp add: i_def)
    have "read_sectors_loop B dn 512 buf_address (remaining - n) (addr + of_nat n * 512) (lba + of_nat n) ?buf =
      Inr (take (i + n * 512) ?buf @ image_bytes img ((unat lba + n) * 512) ((remaining - n) * 512) @
           drop (i + n * 512 + (remaining - n) * 512) ?buf)"
      using less.IH [of "remaining - n" "addr + of_nat n * 512" "lba + of_nat n" ?buf] less.prems n i' ad lba
      by (simp add: i_def algebra_simps)
    also have "take (i + n * 512) ?buf = take i buf @ ?xs" using less.prems n by (simp add: i_def)
    also have "drop (i + n * 512 + (remaining - n) * 512) ?buf = drop (i + remaining * 512) buf"
      using less.prems n by (simp add: i_def algebra_simps)
    also have "(take i buf @ ?xs) @ image_bytes img ((unat lba + n) * 512) ((remaining - n) * 512) @ drop (i + remaining * 512) buf =
        take i buf @ image_bytes img (unat lba * 512) (remaining * 512) @ drop (i + remaining * 512) buf"
      using image_bytes_append [of img "unat lba * 512" "n * 512" "(remaining - n) * 512"] n
      by (simp add: algebra_simps)
    finally show ?thesis
      using False p ld ov lba st ad
      by (subst read_sectors_loop.simps) (simp add: Let_def n_def [symmetric] i_def [symmetric])
  qed
qed


text \<open>A disk over sectors of 512 bytes whose partition starts at a sector boundary, with room for the next access.\<close>

definition disk_ok :: "DiskAccess \<Rightarrow> bool" where
  "disk_ok d \<longleftrightarrow> sector_size d = 512 \<and> 512 dvd unat (base_offset d) \<and> unat (base_offset d) < 2 ^ 62"

definition buffer_ok :: "u32 \<Rightarrow> nat \<Rightarrow> bool" where
  "buffer_ok a n \<longleftrightarrow> unat a + n \<le> 2 ^ 20"

text \<open>The sector-aligned position on the disk that a read starts from.\<close>

definition disk_pos :: "DiskAccess \<Rightarrow> nat" where
  "disk_pos d = (unat (base_offset d) + unat (disk_offset d)) div 512 * 512"

lemma read_sectors_image:
  assumes "bios_reads B img" "disk_ok d" "unat (disk_offset d) < 2 ^ 62" "buffer_ok a (unat n * 512)"
    "length buf mod 512 = 0" "unat n * 512 \<le> length buf"
  shows "DiskAccess_read_sectors B d n a buf =
    Inr (image_bytes img (disk_pos d) (unat n * 512) @ drop (unat n * 512) buf,
         d\<lparr>disk_offset := base_offset d + disk_offset d + of_nat (unat n * 512)\<rparr>)"
proof -
  have n: "unat n * 512 \<le> 2 ^ 20" using assms(4) by (simp add: buffer_ok_def)
  have m: "op_mul n (512 :: u32) = Inr (n * 512)" "unat (n * 512) = unat n * 512"
    using n by (simp_all add: op_mul_def unat_times_nowrap)
  have s: "op_add (base_offset d) (disk_offset d) = Inr (base_offset d + disk_offset d)"
    "unat (base_offset d + disk_offset d) = unat (base_offset d) + unat (disk_offset d)"
    using assms(2,3) by (simp_all add: op_add_def unat_plus_nowrap disk_ok_def)
  have u: "unat (ucast (n * 512) :: u64) = unat n * 512" using m by (simp add: unat_ucast_up)
  have w: "(ucast (n * 512) :: u64) = of_nat (unat n * 512)"
    by (rule word_unat_eq_iff [THEN iffD2]) (use n in \<open>simp only: u unat_of_nat, simp\<close>)
  have e: "op_add (base_offset d + disk_offset d) (ucast (n * 512)) = Inr (base_offset d + disk_offset d + of_nat (unat n * 512))"
    using s u n assms(2,3) by (simp add: op_add_def disk_ok_def del: of_nat_mult flip: w)
  have l: "unat ((base_offset d + disk_offset d) div 512) = (unat (base_offset d) + unat (disk_offset d)) div 512"
    using s by (simp add: unat_div_distrib)
  have "read_sectors_loop B (disk_number d) 512 a (unat n) a ((base_offset d + disk_offset d) div 512) buf =
      Inr (take (unat a - unat a) buf @ image_bytes img (unat ((base_offset d + disk_offset d) div 512) * 512) (unat n * 512) @
        drop (unat a - unat a + unat n * 512) buf)"
  proof (rule read_sectors_loop_correct [OF assms(1)])
    show "unat ((base_offset d + disk_offset d) div 512) + unat n < 2 ^ 64"
    proof -
      have "(unat (base_offset d) + unat (disk_offset d)) div 512 \<le> unat (base_offset d) + unat (disk_offset d)" by simp
      moreover have "unat (base_offset d) < 2 ^ 62" using assms(2) by (simp add: disk_ok_def)
      moreover have "q + k < 2 ^ 64" if "q \<le> a + b" "a < 2 ^ 62" "b < 2 ^ 62" "k * 512 \<le> 2 ^ 20" for q a b k :: nat
        using that by simp
      ultimately show ?thesis using l assms(3) n by metis
    qed
  qed (use assms in \<open>simp_all add: buffer_ok_def\<close>)
  then show ?thesis
    using assms m s e l
    by (simp add: DiskAccess_read_sectors_def disk_ok_def disk_pos_def)
qed

lemma read_bytes_exact:
  assumes "bios_reads B img" "disk_ok d" "unat (disk_offset d) < 2 ^ 62" "buffer_ok ta 1024" "length tmp = 1024"
    "unat (disk_offset d) mod 512 + unat len \<le> 1024"
  shows "DiskAccess_read_bytes B ta tmp d len =
    Inr (image_bytes img (unat (base_offset d) + unat (disk_offset d)) (unat len), image_bytes img (disk_pos d) 1024,
         d\<lparr>disk_offset := base_offset d + disk_offset d + 1024\<rparr>)"
proof -
  define o1 :: u32 where "o1 = ucast (disk_offset d) mod 512"
  have "unat (ucast (disk_offset d) :: u32) = unat (disk_offset d) mod 2 ^ 32"
    by (simp only: unsigned_ucast_eq) (simp add: take_bit_eq_mod unat_mod_distrib)
  then have o1: "unat o1 = unat (disk_offset d) mod 512"
    by (simp add: o1_def unat_mod_distrib mod_mod_cancel)
  have e: "op_add o1 len = Inr (o1 + len)" "unat (o1 + len) \<le> 1024"
    using assms(6) o1 by (simp_all add: op_add_def unat_plus_nowrap)
  have n: "op_div (of_nat (length tmp)) (512 :: u32) = Inr 2" using assms(5) by (simp add: op_div_def)
  have r: "DiskAccess_read B d ta tmp = Inr (image_bytes img (disk_pos d) 1024, d\<lparr>disk_offset := base_offset d + disk_offset d + 1024\<rparr>)"
    using read_sectors_image [OF assms(1,2,3), of ta 2 tmp] assms n by (simp add: DiskAccess_read_def disk_ok_def)
  have b: "disk_pos d + unat o1 = unat (base_offset d) + unat (disk_offset d)"
    using assms(2) o1 by (auto simp: disk_pos_def disk_ok_def elim!: dvdE)
  have "take (unat len) (drop (unat o1) (image_bytes img (disk_pos d) 1024)) =
      image_bytes img (unat (base_offset d) + unat (disk_offset d)) (unat len)"
    using take_drop_image_bytes [of "unat o1" "unat len" 1024 img "disk_pos d"] assms(6) o1 b by simp
  with e n r assms show ?thesis
    by (simp add: DiskAccess_read_bytes_def disk_ok_def o1_def [symmetric] Let_def)
qed

lemma read_bytes_image:
  assumes "bios_reads B img" "disk_ok d" "unat (disk_offset d) < 2 ^ 62" "buffer_ok ta 1024" "length tmp = 1024"
    "unat (disk_offset d) mod 512 + unat len \<le> 1024"
  shows "\<exists>tmp'. length tmp' = 1024 \<and> DiskAccess_read_bytes B ta tmp d len =
    Inr (image_bytes img (unat (base_offset d) + unat (disk_offset d)) (unat len), tmp',
         d\<lparr>disk_offset := base_offset d + disk_offset d + 1024\<rparr>)"
  using read_bytes_exact [OF assms] by auto

section \<open>Properties\<close>

text \<open>
  C35. \<open>read_sectors\<close> and \<open>read_bytes\<close> return the bytes of the disk: the sectors from the one that
  contains the current position of the partition, in the buffer at the address the packets name and with the rest of
  the buffer as it was, and the bytes at the position itself. The new position is the old one plus the bytes read plus
  the start of the partition, which the code adds although the position is relative to it.
\<close>

theorem disk_reads_image:
  assumes "bios_reads B img" "disk_ok d" "unat (disk_offset d) < 2 ^ 62"
  shows "(buffer_ok a (unat n * 512) \<and> length buf mod 512 = 0 \<and> unat n * 512 \<le> length buf \<longrightarrow>
        DiskAccess_read_sectors B d n a buf =
          Inr (image_bytes img ((unat (base_offset d) + unat (disk_offset d)) div 512 * 512) (unat n * 512) @ drop (unat n * 512) buf,
               d\<lparr>disk_offset := base_offset d + disk_offset d + of_nat (unat n * 512)\<rparr>)) \<and>
     (buffer_ok ta 1024 \<and> length tmp = 1024 \<and> unat (disk_offset d) mod 512 + unat len \<le> 1024 \<longrightarrow>
        DiskAccess_read_bytes B ta tmp d len =
          Inr (image_bytes img (unat (base_offset d) + unat (disk_offset d)) (unat len),
               image_bytes img ((unat (base_offset d) + unat (disk_offset d)) div 512 * 512) 1024,
               d\<lparr>disk_offset := base_offset d + disk_offset d + 1024\<rparr>))"
  using read_sectors_image [OF assms, of a n buf] read_bytes_exact [OF assms, of ta tmp len]
  unfolding disk_pos_def by simp

theorem disk_reads_image_witness:
  "\<exists>tmp'. DiskAccess_read_bytes (image_bios (\<lambda>i. of_nat (i - 512))) 0x8000 (replicate 1024 0)
     \<lparr>disk_number = 0x80, base_offset = 512, disk_offset = 3, sector_size = 512, cluster_size = 0\<rparr> 2 =
     Inr ([3, 4], tmp', \<lparr>disk_number = 0x80, base_offset = 512, disk_offset = 1539, sector_size = 512, cluster_size = 0\<rparr>)"
proof -
  have "[515 ..< 517] = [515, 516 :: nat]" by (simp add: upt_rec)
  then show ?thesis
    using disk_reads_image [OF image_bios_reads, of
      "\<lparr>disk_number = 0x80, base_offset = 512, disk_offset = 3, sector_size = 512, cluster_size = 0\<rparr>" "0x8000" 0 "[]" "\<lambda>i. of_nat (i - 512)" "0x8000" "replicate 1024 0" 2]
    by (simp add: disk_ok_def buffer_ok_def image_bytes_def)
qed

text \<open>
  After \<open>read_sectors\<close> the position is wrong on every partition that does not start at sector 0: the
  new offset contains the partition's own base offset, so that a second read without a \<open>seek\<close> adds
  the base twice and continues \<open>base_offset\<close> bytes too far.
\<close>

theorem read_sectors_position_drifts:
  assumes "bios_reads B img" "disk_ok d" "unat (disk_offset d) + unat (base_offset d) + unat n * 512 < 2 ^ 62"
    "buffer_ok a (unat n * 512)" "length buf = unat n * 512"
  shows "\<exists>buf1 d1 buf2 d2. DiskAccess_read_sectors B d n a buf = Inr (buf1, d1) \<and>
     DiskAccess_read_sectors B d1 n a buf = Inr (buf2, d2) \<and>
     buf2 = image_bytes img (disk_pos d + unat n * 512 + unat (base_offset d)) (unat n * 512)"
proof -
  let ?d1 = "d\<lparr>disk_offset := base_offset d + disk_offset d + of_nat (unat n * 512)\<rparr>"
  have n: "unat n * 512 \<le> 2 ^ 20" using assms(4) by (simp add: buffer_ok_def)
  have l: "unat (disk_offset d) < 2 ^ 62" using assms(3) by simp
  have u: "unat (of_nat (unat n * 512) :: u64) = unat n * 512"
    using n by (simp only: unat_of_nat) (simp add: unat_less_exp)
  have "unat (base_offset d + disk_offset d) = unat (base_offset d) + unat (disk_offset d)"
    using assms(3) by (simp add: unat_plus_nowrap)
  then have o1: "unat (disk_offset ?d1) = unat (base_offset d) + unat (disk_offset d) + unat n * 512"
    using assms(3) u unat_plus_nowrap [of "base_offset d + disk_offset d" "of_nat (unat n * 512)"] by simp
  have ok: "disk_ok ?d1" using assms(2) by (simp add: disk_ok_def)
  have r1: "DiskAccess_read_sectors B d n a buf = Inr (image_bytes img (disk_pos d) (unat n * 512) @ drop (unat n * 512) buf, ?d1)"
    by (rule read_sectors_image [OF assms(1,2) l assms(4)]) (simp_all add: assms(5))
  have r2: "DiskAccess_read_sectors B ?d1 n a buf = Inr (image_bytes img (disk_pos ?d1) (unat n * 512) @ drop (unat n * 512) buf,
      ?d1\<lparr>disk_offset := base_offset ?d1 + disk_offset ?d1 + of_nat (unat n * 512)\<rparr>)"
    by (rule read_sectors_image [OF assms(1) ok _ assms(4)]) (use assms(3,5) o1 in simp_all)
  have "disk_pos ?d1 = disk_pos d + unat n * 512 + unat (base_offset d)"
  proof -
    obtain k where k: "unat (base_offset d) = 512 * k" using assms(2) by (auto simp: disk_ok_def elim!: dvdE)
    have "(unat (disk_offset d) + (k + k + unat n) * 512) div 512 = unat (disk_offset d) div 512 + (k + k + unat n)"
      "(unat (disk_offset d) + k * 512) div 512 = unat (disk_offset d) div 512 + k"
      by simp_all
    with o1 show ?thesis by (simp add: disk_pos_def k algebra_simps del: of_nat_mult)
  qed
  with r1 r2 assms(5) show ?thesis by auto
qed

theorem read_sectors_position_drifts_witness:
  "\<exists>buf1 d1 buf2 d2.
     DiskAccess_read_sectors (image_bios (\<lambda>i. of_nat (i div 512)))
       \<lparr>disk_number = 0x80, base_offset = 1024, disk_offset = 0, sector_size = 512, cluster_size = 0\<rparr> 1 0x8000 (replicate 512 0) =
       Inr (buf1, d1) \<and>
     DiskAccess_read_sectors (image_bios (\<lambda>i. of_nat (i div 512))) d1 1 0x8000 (replicate 512 0) = Inr (buf2, d2) \<and>
     hd buf2 = 5"
  using read_sectors_position_drifts [OF image_bios_reads, of
    "\<lparr>disk_number = 0x80, base_offset = 1024, disk_offset = 0, sector_size = 512, cluster_size = 0\<rparr>" 1 "0x8000" "replicate 512 0" "\<lambda>i. of_nat (i div 512)"]
  by (auto simp: disk_ok_def buffer_ok_def image_bytes_def disk_pos_def upt_rec [of 2560])

end
