(* ===== verification/Fat_Volume.thy ===== *)
theory Fat_Volume
  imports Bios_Disk Byte_Fields
begin

text \<open>
  The FAT file system reader of stage 2 (\<open>stage2/src/fat.rs\<close>): the BIOS parameter block, the root
  directory and its entries, the file allocation table, and \<open>try_load_file\<close>, which loads stage 3,
  stage 4 and the kernel. Characters are their Unicode scalar values.
\<close>

section \<open>The parameter block\<close>

definition ROOT_DIR_ENTRY_SIZE :: nat where "ROOT_DIR_ENTRY_SIZE = 0x20"

datatype FatError = FileNotFound | DirEntryError | FileReadError

datatype FatType = Fat12 | Fat16 | Fat32

fun classification_threshold :: "FatType \<Rightarrow> u32" where
  "classification_threshold Fat12 = 0xFF7"
| "classification_threshold Fat16 = 0xFFF7"
| "classification_threshold Fat32 = 0xFFFFFF7"

record BiosParameterBlock =
  bytes_per_sector :: u16
  sectors_per_cluster :: u8
  reserved_sector_count :: u16
  fat_count :: u8
  root_entry_count :: u16
  total_sectors_16 :: u16
  total_sectors_32 :: u32
  fat16_size :: u16
  fat32_size :: u32
  root_cluster :: u32

definition parse_bpb_sector :: "u8 list \<Rightarrow> BiosParameterBlock res" where
  "parse_bpb_sector raw =
     rbind (le_field raw 11 13) (\<lambda>bps.
     rbind (index_get raw 13) (\<lambda>spc.
     rbind (le_field raw 14 16) (\<lambda>reserved.
     rbind (index_get raw 16) (\<lambda>fats.
     rbind (le_field raw 17 19) (\<lambda>roots.
     rbind (le_field raw 22 24) (\<lambda>fsz16.
     rbind (le_field raw 19 21) (\<lambda>tot16.
     rbind (le_field raw 32 36) (\<lambda>tot32.
     rbind (if tot16 \<noteq> 0 \<and> tot32 = 0 then Inr (0, 0)
            else if tot32 \<noteq> 0 \<and> tot16 = 0
            then rbind (le_field raw 36 40) (\<lambda>fsz32. rbind (le_field raw 44 48) (\<lambda>root. Inr (fsz32, root)))
            else Inl Explicit_Panic) (\<lambda>(fsz32, root).
     Inr \<lparr>bytes_per_sector = bps, sectors_per_cluster = spc, reserved_sector_count = reserved,
          fat_count = fats, root_entry_count = roots, total_sectors_16 = tot16, total_sectors_32 = tot32,
          fat16_size = fsz16, fat32_size = fsz32, root_cluster = root\<rparr>)))))))))"

text \<open>
  The static buffer of \<open>read_bytes\<close> (its address and its contents) and the addresses of the two
  buffers on the stack belong to the environment of the reader.
\<close>

record stage2_buffers =
  tmp_address :: u32
  tmp_buffer :: "u8 list"
  root_buffer_address :: u32
  file_buffer_address :: u32

definition BiosParameterBlock_parse ::
    "bios \<Rightarrow> stage2_buffers \<Rightarrow> DiskAccess \<Rightarrow> (BiosParameterBlock \<times> stage2_buffers \<times> DiskAccess) res" where
  "BiosParameterBlock_parse B env disk =
     rbind (DiskAccess_seek disk (Start 0)) (\<lambda>disk.
     rbind (DiskAccess_read_bytes B (tmp_address env) (tmp_buffer env) disk (of_nat DEFAULT_SECTOR_SIZE)) (\<lambda>(raw, tmp, disk).
     rbind (parse_bpb_sector raw) (\<lambda>bpb. Inr (bpb, env\<lparr>tmp_buffer := tmp\<rparr>, disk))))"

definition root_dir_sectors :: "BiosParameterBlock \<Rightarrow> u32 res" where
  "root_dir_sectors self =
     rbind (op_mul (ucast (root_entry_count self)) (of_nat ROOT_DIR_ENTRY_SIZE)) (\<lambda>a.
     rbind (op_sub (ucast (bytes_per_sector self)) 1) (\<lambda>b.
     rbind (op_add a b) (\<lambda>c. op_div c (ucast (bytes_per_sector self)))))"

text \<open>The debug assertion of \<open>fat_size\<close> is not compiled into the release profile of stage 2.\<close>

definition fat_size :: "BiosParameterBlock \<Rightarrow> u32" where
  "fat_size self = (if fat16_size self \<noteq> 0 \<and> fat32_size self = 0 then ucast (fat16_size self) else fat32_size self)"

definition first_data_sector :: "BiosParameterBlock \<Rightarrow> u32 res" where
  "first_data_sector self =
     rbind (op_mul (ucast (fat_count self)) (fat_size self)) (\<lambda>fats.
     rbind (op_add (ucast (reserved_sector_count self)) fats) (\<lambda>a.
     rbind (root_dir_sectors self) (\<lambda>r. op_add a r)))"

definition count_of_clusters :: "BiosParameterBlock \<Rightarrow> u32 res" where
  "count_of_clusters self =
     (let total_sectors = (if total_sectors_16 self \<noteq> 0 then ucast (total_sectors_16 self) else total_sectors_32 self) in
      rbind (op_mul (ucast (fat_count self)) (fat_size self)) (\<lambda>fats.
      rbind (op_add (ucast (reserved_sector_count self)) fats) (\<lambda>a.
      rbind (root_dir_sectors self) (\<lambda>r.
      rbind (op_add a r) (\<lambda>b.
      rbind (op_sub total_sectors b) (\<lambda>data_sectors.
      op_div data_sectors (ucast (sectors_per_cluster self))))))))"

definition fat_type :: "BiosParameterBlock \<Rightarrow> FatType res" where
  "fat_type self =
     rbind (count_of_clusters self) (\<lambda>n.
       Inr (if n < 4085 then Fat12 else if n < 65525 then Fat16 else Fat32))"

definition first_root_dir_sector :: "BiosParameterBlock \<Rightarrow> u32 res" where
  "first_root_dir_sector self =
     rbind (first_data_sector self) (\<lambda>a. rbind (root_dir_sectors self) (\<lambda>r. op_sub a r))"

definition root_dir_size :: "BiosParameterBlock \<Rightarrow> u16 res" where
  "root_dir_size self = op_mul (root_entry_count self) (of_nat ROOT_DIR_ENTRY_SIZE)"

definition first_fat_sector :: "BiosParameterBlock \<Rightarrow> u32" where
  "first_fat_sector self = ucast (reserved_sector_count self)"

definition first_cluster_sector :: "BiosParameterBlock \<Rightarrow> u32 \<Rightarrow> u32 res" where
  "first_cluster_sector self cluster_number =
     rbind (op_sub cluster_number 2) (\<lambda>a.
     rbind (op_mul a (ucast (sectors_per_cluster self))) (\<lambda>b.
     rbind (first_data_sector self) (\<lambda>c. op_add b c)))"

definition bytes_per_cluster :: "BiosParameterBlock \<Rightarrow> u32 res" where
  "bytes_per_cluster self = op_mul (ucast (bytes_per_sector self)) (ucast (sectors_per_cluster self))"

section \<open>Directory entries\<close>

definition DIRECTORY :: u8 where "DIRECTORY = 0x10"
definition LONG_FILE_NAME :: u8 where "LONG_FILE_NAME = 0x1 OR 0x2 OR 0x4 OR 0x8"

definition FileAttributes_is_set :: "u8 \<Rightarrow> u8 \<Rightarrow> bool" where
  "FileAttributes_is_set self flag \<longleftrightarrow> (self AND flag) \<noteq> 0"

record DirEntry =
  filename :: "nat list"
  attributes :: u8
  first_cluster_number :: u32
  size_in_bytes :: u32

datatype DirectoryEntry = Unused | EndOfDir | NormalDirEntry DirEntry | LongNameDirEntry DirEntry

definition END_OF_DIRECTORY :: u8 where "END_OF_DIRECTORY = 0x0"
definition UNUSED_ENTRY :: u8 where "UNUSED_ENTRY = 0xe5"
definition NORMAL_ENTRY_SIZE :: nat where "NORMAL_ENTRY_SIZE = 0x20"

text \<open>The cluster number and the size of an 8.3 entry.\<close>

definition entry_location :: "u8 list \<Rightarrow> (u32 \<times> u32) res" where
  "entry_location entry =
     rbind (le_field entry 20 22) (\<lambda>high :: u16.
     rbind (le_field entry 26 28) (\<lambda>low :: u16.
     rbind (le_field entry 28 32) (\<lambda>sz.
     Inr (push_bit 16 (ucast high) OR ucast low, sz))))"

text \<open>\<open>char::decode_utf16\<close>, with the unpaired surrogates dropped by \<open>filter_map(|c| c.ok())\<close>.\<close>

fun decode_utf16 :: "u16 list \<Rightarrow> nat list" where
  "decode_utf16 [] = []"
| "decode_utf16 (u # us) =
     (if u < 0xD800 \<or> u > 0xDFFF then unat u # decode_utf16 us
      else if u \<ge> 0xDC00 then decode_utf16 us
      else case us of
          [] \<Rightarrow> []
        | v # vs \<Rightarrow>
            if 0xDC00 \<le> v \<and> v \<le> 0xDFFF
            then (0x10000 + (unat u - 0xD800) * 0x400 + (unat v - 0xDC00)) # decode_utf16 vs
            else decode_utf16 us)"

fun utf16_units :: "u8 list \<Rightarrow> u16 list" where
  "utf16_units (a # b # bs) = from_le_bytes [a, b] # utf16_units bs"
| "utf16_units _ = []"

text \<open>The characters of one long file name entry.\<close>

definition long_name_part :: "u8 list \<Rightarrow> nat list res" where
  "long_name_part entry =
     rbind (slice entry 1 11) (\<lambda>name1.
     rbind (slice entry 14 26) (\<lambda>name2.
     rbind (slice entry 28 32) (\<lambda>name3.
     Inr (decode_utf16 (takeWhile (\<lambda>c. c \<noteq> 0) (utf16_units name1 @ utf16_units name2 @ utf16_units name3))))))"

text \<open>\<open>filename[name_idx] = c\<close> for each character: the array has 255 places.\<close>

definition LONG_NAME_LEN :: nat where "LONG_NAME_LEN = 255"

definition append_name :: "nat list \<Rightarrow> nat list \<Rightarrow> nat list res" where
  "append_name name cs =
     (if length name + length cs \<le> LONG_NAME_LEN then Inr (name @ cs) else Inl Index_Out_Of_Bounds)"

text \<open>
  The loop over the 32-byte chunks of a long name: \<open>i\<close> counts the chunks, \<open>name\<close> holds the
  characters written so far (the rest of the array is zero). Without an 8.3 entry behind the long
  name entries \<open>total_size\<close> stays 0 and the assertion fails.
\<close>

function parse_long_name :: "nat \<Rightarrow> nat list \<Rightarrow> u8 list \<Rightarrow> (nat \<times> DirEntry) res" where
  "parse_long_name i name raw =
     (if raw = [] then Inl Assertion_Failed
      else let entry = take 0x20 raw in
        rbind (index_get entry 11) (\<lambda>attr.
        if attr = LONG_FILE_NAME
        then rbind (long_name_part entry) (\<lambda>cs.
             rbind (append_name name cs) (\<lambda>name.
             parse_long_name (i + 1) name (drop 0x20 raw)))
        else rbind (entry_location entry) (\<lambda>(cluster, sz).
             Inr ((i + 1) * NORMAL_ENTRY_SIZE,
                  \<lparr>filename = name @ replicate (LONG_NAME_LEN - length name) 0, attributes = attr,
                   first_cluster_number = cluster, size_in_bytes = sz\<rparr>))))"
  by pat_completeness auto

termination
  by (relation "measure (\<lambda>(_, _, raw). length raw)") auto

declare parse_long_name.simps [simp del]

definition DirectoryEntry_parse :: "u8 list \<Rightarrow> (nat \<times> DirectoryEntry) res" where
  "DirectoryEntry_parse raw =
     rbind (index_get raw 0) (\<lambda>b0.
     if b0 = END_OF_DIRECTORY then Inr (NORMAL_ENTRY_SIZE, EndOfDir)
     else if b0 = UNUSED_ENTRY then Inr (NORMAL_ENTRY_SIZE, Unused)
     else rbind (index_get raw 11) (\<lambda>attr.
       if attr = LONG_FILE_NAME
       then rbind (parse_long_name 0 [] raw) (\<lambda>(total_size, e). Inr (total_size, LongNameDirEntry e))
       else rbind (slice raw 0 11) (\<lambda>name.
            rbind (entry_location raw) (\<lambda>(cluster, sz).
            Inr (NORMAL_ENTRY_SIZE, NormalDirEntry
              \<lparr>filename = map unat name, attributes = attr, first_cluster_number = cluster, size_in_bytes = sz\<rparr>)))))"

fun entry_data :: "DirectoryEntry \<Rightarrow> DirEntry option" where
  "entry_data (NormalDirEntry e) = Some e"
| "entry_data (LongNameDirEntry e) = Some e"
| "entry_data Unused = None"
| "entry_data EndOfDir = None"

definition eq_name :: "DirectoryEntry \<Rightarrow> nat list \<Rightarrow> bool" where
  "eq_name self name = (case entry_data self of
     Some e \<Rightarrow> takeWhile (\<lambda>c. c \<noteq> 0) (filename e) = name | None \<Rightarrow> False)"

definition is_dir :: "DirectoryEntry \<Rightarrow> bool" where
  "is_dir self = (case entry_data self of Some e \<Rightarrow> FileAttributes_is_set (attributes e) DIRECTORY | None \<Rightarrow> False)"

definition first_cluster :: "DirectoryEntry \<Rightarrow> u32" where
  "first_cluster self = (case entry_data self of Some e \<Rightarrow> first_cluster_number e | None \<Rightarrow> 0)"

definition file_size :: "DirectoryEntry \<Rightarrow> u32" where
  "file_size self = (case entry_data self of Some e \<Rightarrow> size_in_bytes e | None \<Rightarrow> 0)"

end
