(* ===== verification/Fat_Files.thy ===== *)
theory Fat_Files
  imports Fat_Volume
begin

text \<open>
  Files of the FAT file system (\<open>stage2/src/fat.rs\<close>, continued): the iterator over the root
  directory, the file allocation table, the iterator over the clusters of a file, and
  \<open>try_load_file\<close>. Its loop over the clusters follows a chain on the disk that may be cyclic, so it
  takes fuel, and \<open>Diverges\<close> is the result when the fuel does not suffice; \<open>Fat_Termination\<close> shows
  that \<open>2^23 + 9\<close> turns suffice on every disk, since a cyclic chain ends in an overflow panic after 4 GiB.
\<close>

section \<open>The file system and its root directory\<close>

record FATFileSystem =
  fs_disk :: DiskAccess
  fs_bpb :: BiosParameterBlock

definition FATFileSystem_parse ::
    "bios \<Rightarrow> stage2_buffers \<Rightarrow> DiskAccess \<Rightarrow> (FATFileSystem \<times> stage2_buffers) res" where
  "FATFileSystem_parse B env disk =
     rbind (BiosParameterBlock_parse B env disk) (\<lambda>(bpb, env, disk).
     rbind (rassert (unat (bytes_per_sector bpb) = DEFAULT_SECTOR_SIZE)) (\<lambda>_.
     rbind (bytes_per_cluster bpb) (\<lambda>csize.
     Inr (\<lparr>fs_disk = disk\<lparr>sector_size := ucast (bytes_per_sector bpb), cluster_size := csize\<rparr>, fs_bpb = bpb\<rparr>, env))))"

definition read_root_dir ::
    "bios \<Rightarrow> stage2_buffers \<Rightarrow> FATFileSystem \<Rightarrow> u8 list \<Rightarrow> (u8 list \<times> FATFileSystem) res" where
  "read_root_dir B env self buffer =
     rbind (root_dir_size (fs_bpb self)) (\<lambda>sz.
     rbind (rassert (length buffer = unat sz)) (\<lambda>_.
     rbind (fat_type (fs_bpb self)) (\<lambda>t.
     if t = Fat32 then Inl Unimplemented
     else rbind (first_root_dir_sector (fs_bpb self)) (\<lambda>sector.
          rbind (DiskAccess_seek (fs_disk self) (StartInSectors (ucast sector))) (\<lambda>disk.
          rbind (DiskAccess_read B disk (root_buffer_address env) buffer) (\<lambda>(buffer, disk).
          Inr (buffer, self\<lparr>fs_disk := disk\<rparr>)))))))"

text \<open>\<open>RootDirIter\<close>: the buffer and the offset of the next entry.\<close>

definition next_entry :: "u8 list \<Rightarrow> nat \<Rightarrow> (DirectoryEntry \<times> nat) res" where
  "next_entry buf offset =
     rbind (slice buf offset (length buf)) (\<lambda>raw.
     rbind (DirectoryEntry_parse raw) (\<lambda>(sz, entry). Inr (entry, offset + sz)))"

lemma parse_long_name_size: "parse_long_name i name raw = Inr (n, e) \<Longrightarrow> 0 < n"
  by (induction i name raw rule: parse_long_name.induct)
     (subst (asm) (2) parse_long_name.simps,
      auto simp: rbind_eq_Inr Let_def NORMAL_ENTRY_SIZE_def split: if_splits)

lemma next_entry_advances:
  "next_entry buf offset = Inr (e, offset') \<Longrightarrow> offset < length buf \<and> offset < offset'"
  by (auto simp: next_entry_def slice_def DirectoryEntry_parse_def rbind_eq_Inr NORMAL_ENTRY_SIZE_def index_get_def
      dest!: parse_long_name_size split: if_splits)

function RootDirIter_next :: "u8 list \<Rightarrow> nat \<Rightarrow> (DirectoryEntry option \<times> nat) res" where
  "RootDirIter_next buf offset =
     rbind (next_entry buf offset) (\<lambda>x.
       case x of (entry, offset') \<Rightarrow>
         (case entry of
            EndOfDir \<Rightarrow> Inr (None, offset')
          | Unused \<Rightarrow> RootDirIter_next buf offset'
          | _ \<Rightarrow> Inr (Some entry, offset')))"
  by pat_completeness auto

termination
  by (relation "measure (\<lambda>(buf, offset). length buf - offset)")
     (auto dest!: next_entry_advances)

declare RootDirIter_next.simps [simp del]

lemma RootDirIter_next_advances:
  "RootDirIter_next buf offset = Inr (e, offset') \<Longrightarrow> offset < length buf \<and> offset < offset'"
proof (induction buf offset rule: RootDirIter_next.induct)
  case (1 buf offset)
  from 1(2) obtain d o1 where n: "next_entry buf offset = Inr (d, o1)"
    by (subst (asm) RootDirIter_next.simps) (auto simp: rbind_eq_Inr)
  with 1 next_entry_advances [OF n] show ?case
    by (subst (asm) (2) RootDirIter_next.simps) (force split: DirectoryEntry.splits)
qed

text \<open>\<open>entries.find(|e| e.eq_name(name))\<close>; the iterator yields no errors.\<close>

function find_entry :: "u8 list \<Rightarrow> nat \<Rightarrow> nat list \<Rightarrow> DirectoryEntry option res" where
  "find_entry buf offset name =
     rbind (RootDirIter_next buf offset) (\<lambda>x.
       case x of (e, offset') \<Rightarrow>
         (case e of
            None \<Rightarrow> Inr None
          | Some entry \<Rightarrow> if eq_name entry name then Inr (Some entry) else find_entry buf offset' name))"
  by pat_completeness auto

termination
  by (relation "measure (\<lambda>(buf, offset, _). length buf - offset)")
     (auto dest!: RootDirIter_next_advances)

declare find_entry.simps [simp del]

record File =
  start_sector :: u32
  file_len :: u32

definition size_in_sectors :: "File \<Rightarrow> u32 res" where
  "size_in_sectors self = rbind (op_add (file_len self) (of_nat (DEFAULT_SECTOR_SIZE - 1))) (\<lambda>n. op_div n (of_nat DEFAULT_SECTOR_SIZE))"

definition find_file_in_root_dir ::
    "bios \<Rightarrow> stage2_buffers \<Rightarrow> FATFileSystem \<Rightarrow> nat list \<Rightarrow> (File option \<times> FATFileSystem) res" where
  "find_file_in_root_dir B env self name =
     rbind (read_root_dir B env self (replicate (DEFAULT_SECTOR_SIZE * ROOT_DIR_ENTRY_SIZE) 0)) (\<lambda>(buffer, self).
     rbind (find_entry buffer 0 name) (\<lambda>e.
     Inr (case e of
         None \<Rightarrow> None
       | Some entry \<Rightarrow> if is_dir entry then None
                       else Some \<lparr>start_sector = first_cluster entry, file_len = file_size entry\<rparr>, self)))"

section \<open>The file allocation table\<close>

datatype FatEntry = EndOfFile | Cluster_Entry u32 | BadCluster | ReservedCluster

definition FatEntry_parse :: "u32 \<Rightarrow> FatType \<Rightarrow> FatEntry" where
  "FatEntry_parse val typ =
     (if val = 0 \<or> val = 1 then ReservedCluster
      else if val > classification_threshold typ then EndOfFile
      else if val = classification_threshold typ then BadCluster
      else Cluster_Entry val)"

record FileAllocationTable =
  fat_typ :: FatType
  fat_start :: u64

definition FileAllocationTable_new :: "FatType \<Rightarrow> u32 \<Rightarrow> u16 \<Rightarrow> FileAllocationTable res" where
  "FileAllocationTable_new typ first_sector ssize =
     rbind (op_mul (ucast first_sector) (ucast ssize)) (\<lambda>s. Inr \<lparr>fat_typ = typ, fat_start = s\<rparr>)"

text \<open>\<open>seek\<close> to an offset of the table and read some bytes.\<close>

definition read_fat_bytes ::
    "bios \<Rightarrow> stage2_buffers \<Rightarrow> DiskAccess \<Rightarrow> FileAllocationTable \<Rightarrow> u32 \<Rightarrow> u32 \<Rightarrow> (u8 list \<times> stage2_buffers \<times> DiskAccess) res" where
  "read_fat_bytes B env disk self offset_into_fat n =
     rbind (op_add (fat_start self) (ucast offset_into_fat)) (\<lambda>off.
     rbind (DiskAccess_seek disk (Start off)) (\<lambda>disk.
     rbind (DiskAccess_read_bytes B (tmp_address env) (tmp_buffer env) disk n) (\<lambda>(buf, tmp, disk).
     Inr (buf, env\<lparr>tmp_buffer := tmp\<rparr>, disk))))"

definition get_entry ::
    "bios \<Rightarrow> stage2_buffers \<Rightarrow> DiskAccess \<Rightarrow> FileAllocationTable \<Rightarrow> u32 \<Rightarrow> (FatEntry \<times> stage2_buffers \<times> DiskAccess) res" where
  "get_entry B env disk self cluster =
     rbind (case fat_typ self of
         Fat12 \<Rightarrow>
           rbind (op_add cluster (cluster div 2)) (\<lambda>off.
           rbind (read_fat_bytes B env disk self off 2) (\<lambda>(buf, env, disk).
           let v = (from_le_bytes buf :: u16) in
           Inr (if cluster AND 1 = 1 then ucast (drop_bit 4 v) else ucast (v AND 0xfff), env, disk)))
       | Fat16 \<Rightarrow>
           rbind (op_mul cluster 2) (\<lambda>off.
           rbind (read_fat_bytes B env disk self off 2) (\<lambda>(buf, env, disk).
           Inr (ucast (from_le_bytes buf :: u16), env, disk)))
       | Fat32 \<Rightarrow>
           rbind (op_mul cluster 4) (\<lambda>off.
           rbind (read_fat_bytes B env disk self off 4) (\<lambda>(buf, env, disk).
           Inr ((from_le_bytes buf :: u32) AND 0x0FFFFFFF, env, disk)))) (\<lambda>(val, env, disk).
     Inr (FatEntry_parse val (fat_typ self), env, disk))"

section \<open>The clusters of a file\<close>

record Cluster =
  cluster_start_sector :: u32
  cluster_size_in_sectors :: u8

record FileIter =
  iter_disk :: DiskAccess
  current_entry :: FatEntry
  iter_bpb :: BiosParameterBlock
  fat_table :: FileAllocationTable

definition FileIter_new :: "DiskAccess \<Rightarrow> u32 \<Rightarrow> BiosParameterBlock \<Rightarrow> FileIter res" where
  "FileIter_new disk start_cluster bpb =
     rbind (fat_type bpb) (\<lambda>t.
     rbind (FileAllocationTable_new t (first_fat_sector bpb) (bytes_per_sector bpb)) (\<lambda>table.
     Inr \<lparr>iter_disk = disk, current_entry = Cluster_Entry start_cluster, iter_bpb = bpb, fat_table = table\<rparr>))"

definition next_cluster ::
    "bios \<Rightarrow> stage2_buffers \<Rightarrow> FileIter \<Rightarrow> ((FatError + Cluster option) \<times> stage2_buffers \<times> FileIter) res" where
  "next_cluster B env self =
     (case current_entry self of
        BadCluster \<Rightarrow> Inr (Inl FileReadError, env, self)
      | ReservedCluster \<Rightarrow> Inr (Inl FileReadError, env, self)
      | EndOfFile \<Rightarrow> Inr (Inr None, env, self)
      | Cluster_Entry n \<Rightarrow>
          rbind (first_cluster_sector (iter_bpb self) n) (\<lambda>sector.
          rbind (get_entry B env (iter_disk self) (fat_table self) n) (\<lambda>(entry, env, disk).
          Inr (Inr (Some \<lparr>cluster_start_sector = sector, cluster_size_in_sectors = sectors_per_cluster (iter_bpb self)\<rparr>),
               env, self\<lparr>iter_disk := disk, current_entry := entry\<rparr>))))"

section \<open>Loading a file\<close>

type_synonym memory = "u32 \<Rightarrow> u8"

fun copy_bytes :: "memory \<Rightarrow> u32 \<Rightarrow> u8 list \<Rightarrow> memory" where
  "copy_bytes m a [] = m"
| "copy_bytes m a (b # bs) = copy_bytes (m(a := b)) (a + 1) bs"

text \<open>
  The inner loop over the sectors of a cluster, at most eight a turn (the buffer has 4096 bytes).
  With a zero step the source would not end; the buffer holds at least one sector, so that every
  turn reads something.
\<close>

function load_sectors ::
    "bios \<Rightarrow> u32 \<Rightarrow> u32 \<Rightarrow> nat \<Rightarrow> DiskAccess \<Rightarrow> u8 list \<Rightarrow> memory \<Rightarrow> u32 \<Rightarrow>
     (DiskAccess \<times> u8 list \<times> memory \<times> u32) res" where
  "load_sectors B buf_address dest sectors_left disk buffer m total_sectors_read =
     (if sectors_left = 0 then Inr (disk, buffer, m, total_sectors_read)
      else if sector_size disk = 0 then Inl Divide_By_Zero
      else let sectors_to_read = min sectors_left (length buffer div unat (sector_size disk)) in
        if sectors_to_read = 0 then Inl Diverges
        else rbind (DiskAccess_read_sectors B disk (of_nat sectors_to_read) buf_address buffer) (\<lambda>(buffer, disk).
          rbind (op_mul total_sectors_read (sector_size disk)) (\<lambda>done_bytes.
          rbind (op_mul (of_nat sectors_to_read) (sector_size disk)) (\<lambda>n.
          let m = copy_bytes m (dest + done_bytes) (take (unat n) buffer) in
          rbind (op_add total_sectors_read (of_nat sectors_to_read)) (\<lambda>total_sectors_read.
          load_sectors B buf_address dest (sectors_left - sectors_to_read) disk buffer m total_sectors_read)))))"
  by pat_completeness auto

termination
  by (relation "measure (\<lambda>(_, _, _, sectors_left, _). sectors_left)") auto

declare load_sectors.simps [simp del]

fun load_clusters ::
    "nat \<Rightarrow> bios \<Rightarrow> stage2_buffers \<Rightarrow> u32 \<Rightarrow> FileIter \<Rightarrow> DiskAccess \<Rightarrow> u8 list \<Rightarrow> memory \<Rightarrow> u32 \<Rightarrow>
     ((FatError + u32) \<times> stage2_buffers \<times> FileIter \<times> memory) res" where
  "load_clusters 0 B env dest it disk buffer m total_sectors_read = Inl Diverges"
| "load_clusters (Suc fuel) B env dest it disk buffer m total_sectors_read =
     rbind (next_cluster B env it) (\<lambda>(c, env, it).
     case c of
       Inl e \<Rightarrow> Inr (Inl e, env, it, m)
     | Inr None \<Rightarrow> Inr (Inr total_sectors_read, env, it, m)
     | Inr (Some cluster) \<Rightarrow>
         rbind (DiskAccess_seek disk (StartInSectors (ucast (cluster_start_sector cluster)))) (\<lambda>disk.
         rbind (sectors_per_cluster_of disk) (\<lambda>n.
         rbind (load_sectors B (file_buffer_address env) dest (unat n) disk buffer m total_sectors_read)
           (\<lambda>(disk, buffer, m, total_sectors_read).
         load_clusters fuel B env dest it disk buffer m total_sectors_read))))"

definition try_load_file ::
    "nat \<Rightarrow> bios \<Rightarrow> stage2_buffers \<Rightarrow> FATFileSystem \<Rightarrow> nat list \<Rightarrow> u32 \<Rightarrow> memory \<Rightarrow>
     ((FatError + u32) \<times> stage2_buffers \<times> FATFileSystem \<times> memory) res" where
  "try_load_file fuel B env self name dest m =
     rbind (find_file_in_root_dir B env self name) (\<lambda>(f, self).
     case f of
       None \<Rightarrow> Inr (Inl FileNotFound, env, self, m)
     | Some file \<Rightarrow>
         rbind (FileIter_new (fs_disk self) (start_sector file) (fs_bpb self)) (\<lambda>it.
         rbind (load_clusters fuel B env dest it (fs_disk self) (replicate (DEFAULT_SECTOR_SIZE * 8) 0) m 0) (\<lambda>(r, env, it, m).
         case r of
           Inl e \<Rightarrow> Inr (Inl e, env, self\<lparr>fs_disk := iter_disk it\<rparr>, m)
         | Inr total_sectors_read \<Rightarrow>
             rbind (size_in_sectors file) (\<lambda>n.
             Inr (if total_sectors_read < n then Inl FileReadError else Inr (file_len file),
                  env, self\<lparr>fs_disk := iter_disk it\<rparr>, m)))))"

end
