(* ===== verification/Fat_Correct.thy ===== *)
theory Fat_Correct
  imports Fat_Files
begin

text \<open>
  Correctness of the FAT reader against the volume layout of the FAT specification, stated on natural
  numbers over the bytes of the disk: the geometry of the parameter block, the entries of the file
  allocation table, cluster chains, and the file that a chain represents.
\<close>

section \<open>The geometry of a volume\<close>

definition total_sectors :: "BiosParameterBlock \<Rightarrow> nat" where
  "total_sectors b = (if total_sectors_16 b \<noteq> 0 then unat (total_sectors_16 b) else unat (total_sectors_32 b))"

definition root_start :: "BiosParameterBlock \<Rightarrow> nat" where
  "root_start b = unat (reserved_sector_count b) + unat (fat_count b) * unat (fat_size b)"

definition root_len :: "BiosParameterBlock \<Rightarrow> nat" where
  "root_len b = (unat (root_entry_count b) * 32 + 511) div 512"

definition data_start :: "BiosParameterBlock \<Rightarrow> nat" where
  "data_start b = root_start b + root_len b"

definition cluster_count :: "BiosParameterBlock \<Rightarrow> nat" where
  "cluster_count b = (total_sectors b - data_start b) div unat (sectors_per_cluster b)"

definition bpb_ok :: "BiosParameterBlock \<Rightarrow> bool" where
  "bpb_ok b \<longleftrightarrow> bytes_per_sector b = 512 \<and> sectors_per_cluster b \<noteq> 0 \<and> data_start b \<le> total_sectors b"

definition cluster_sector :: "BiosParameterBlock \<Rightarrow> nat \<Rightarrow> nat" where
  "cluster_sector b c = (c - 2) * unat (sectors_per_cluster b) + data_start b"

lemma total_sectors_less: "total_sectors b < 2 ^ 32"
  using unat_less_exp [of "total_sectors_16 b"] unat_less_exp [of "total_sectors_32 b"]
  by (simp add: total_sectors_def)

lemma root_dir_sectors_eq:
  assumes "bytes_per_sector b = 512"
  shows "\<exists>w. root_dir_sectors b = Inr w \<and> unat w = root_len b"
proof -
  have r: "unat (ucast (root_entry_count b) :: u32) = unat (root_entry_count b)" "unat (root_entry_count b) < 65536"
    using unat_less_exp [of "root_entry_count b"] by (simp_all add: unat_ucast_up)
  define a where "a = (ucast (root_entry_count b) :: u32) * 32"
  have a: "op_mul (ucast (root_entry_count b) :: u32) (of_nat ROOT_DIR_ENTRY_SIZE) = Inr a" "unat a = unat (root_entry_count b) * 32"
    using r by (simp_all add: op_mul_def ROOT_DIR_ENTRY_SIZE_def a_def unat_times_nowrap)
  have c: "op_add a 511 = Inr (a + 511)" "unat (a + 511) = unat (root_entry_count b) * 32 + 511"
    using a r by (simp_all add: op_add_def unat_plus_nowrap)
  then show ?thesis
    using a assms by (simp add: root_dir_sectors_def op_sub_def op_div_def unat_div_distrib root_len_def)
qed

lemma root_start_eq:
  assumes "bpb_ok b"
  shows "\<exists>f a. op_mul (ucast (fat_count b)) (fat_size b) = Inr f \<and>
    op_add (ucast (reserved_sector_count b)) f = Inr a \<and> unat a = root_start b"
proof -
  have f: "unat (ucast (fat_count b) :: u32) = unat (fat_count b)" "unat (ucast (reserved_sector_count b) :: u32) = unat (reserved_sector_count b)"
    by (simp_all add: unat_ucast_up)
  have "root_start b < 2 ^ 32"
    using assms total_sectors_less [of b] by (simp add: bpb_ok_def data_start_def)
  with f show ?thesis by (simp add: op_mul_def op_add_def root_start_def unat_times_nowrap unat_plus_nowrap)
qed

lemma first_data_sector_eq:
  assumes "bpb_ok b"
  shows "\<exists>w. first_data_sector b = Inr w \<and> unat w = data_start b"
proof -
  obtain f a where a: "op_mul (ucast (fat_count b)) (fat_size b) = Inr f"
      "op_add (ucast (reserved_sector_count b)) f = Inr a" "unat a = root_start b"
    using root_start_eq [OF assms] by blast
  obtain r where r: "root_dir_sectors b = Inr r" "unat r = root_len b"
    using root_dir_sectors_eq assms by (auto simp: bpb_ok_def)
  have "unat a + unat r < 2 ^ 32"
    using assms total_sectors_less [of b] a r by (simp add: bpb_ok_def data_start_def)
  with a r show ?thesis by (simp add: first_data_sector_def op_add_def unat_plus_nowrap data_start_def)
qed

lemma first_root_dir_sector_eq:
  assumes "bpb_ok b"
  shows "\<exists>w. first_root_dir_sector b = Inr w \<and> unat w = root_start b"
proof -
  obtain d r where "first_data_sector b = Inr d" "unat d = data_start b" "root_dir_sectors b = Inr r" "unat r = root_len b"
    using first_data_sector_eq [OF assms] root_dir_sectors_eq [of b] assms by (auto simp: bpb_ok_def)
  then show ?thesis
    by (simp add: first_root_dir_sector_def op_sub_def word_le_nat_alt unat_sub data_start_def)
qed

lemma count_of_clusters_eq:
  assumes "bpb_ok b"
  shows "\<exists>w. count_of_clusters b = Inr w \<and> unat w = cluster_count b"
proof -
  obtain f a where a: "op_mul (ucast (fat_count b)) (fat_size b) = Inr f"
      "op_add (ucast (reserved_sector_count b)) f = Inr a" "unat a = root_start b"
    using root_start_eq [OF assms] by blast
  obtain r where r: "root_dir_sectors b = Inr r" "unat r = root_len b"
    using root_dir_sectors_eq assms by (auto simp: bpb_ok_def)
  define t :: u32 where "t = (if total_sectors_16 b \<noteq> 0 then ucast (total_sectors_16 b) else total_sectors_32 b)"
  have t: "unat t = total_sectors b" by (simp add: t_def total_sectors_def unat_ucast_up)
  have d: "op_add a r = Inr (a + r)" "unat (a + r) = data_start b"
    using assms total_sectors_less [of b] a r
    by (simp_all add: bpb_ok_def data_start_def op_add_def unat_plus_nowrap)
  have s: "op_sub t (a + r) = Inr (t - (a + r))" "unat (t - (a + r)) = total_sectors b - data_start b"
    using assms t d by (simp_all add: op_sub_def word_le_nat_alt unat_sub bpb_ok_def)
  have "(ucast (sectors_per_cluster b) :: u32) \<noteq> 0" "unat (ucast (sectors_per_cluster b) :: u32) = unat (sectors_per_cluster b)"
    using assms by (simp_all add: bpb_ok_def unat_ucast_up word_unat_eq_iff)
  with a r d s show ?thesis
    by (simp add: count_of_clusters_def Let_def t_def [symmetric] op_div_def unat_div_distrib cluster_count_def)
qed

definition volume_type :: "BiosParameterBlock \<Rightarrow> FatType" where
  "volume_type b = (if cluster_count b < 4085 then Fat12 else if cluster_count b < 65525 then Fat16 else Fat32)"

lemma fat_type_eq: "bpb_ok b \<Longrightarrow> fat_type b = Inr (volume_type b)"
  using count_of_clusters_eq [of b] by (auto simp: fat_type_def volume_type_def word_less_nat_alt)

lemma cluster_sector_bound:
  assumes "bpb_ok b" "2 \<le> c" "c < cluster_count b + 2"
  shows "cluster_sector b c + unat (sectors_per_cluster b) \<le> total_sectors b"
proof -
  let ?s = "unat (sectors_per_cluster b)"
  have "(c - 2) * ?s + ?s = (c - 1) * ?s" using assms(2) by (simp add: algebra_simps diff_mult_distrib)
  also have "\<dots> \<le> cluster_count b * ?s" using assms(3) by (intro mult_le_mono1) simp
  also have "\<dots> \<le> total_sectors b - data_start b" by (simp add: cluster_count_def)
  finally show ?thesis using assms(1) by (simp add: cluster_sector_def bpb_ok_def) linarith
qed

lemma first_cluster_sector_eq:
  assumes "bpb_ok b" "2 \<le> unat c" "unat c < cluster_count b + 2"
  shows "\<exists>w. first_cluster_sector b c = Inr w \<and> unat w = cluster_sector b (unat c)"
proof -
  obtain d where d: "first_data_sector b = Inr d" "unat d = data_start b" using first_data_sector_eq [OF assms(1)] by blast
  have s: "unat (ucast (sectors_per_cluster b) :: u32) = unat (sectors_per_cluster b)" by (simp add: unat_ucast_up)
  have c: "op_sub c 2 = Inr (c - 2)" "unat (c - 2) = unat c - 2"
    using assms(2) by (simp_all add: op_sub_def word_le_nat_alt unat_sub)
  have "cluster_sector b (unat c) < 2 ^ 32"
    using cluster_sector_bound [OF assms] total_sectors_less [of b] by simp
  then have m: "op_mul (c - 2) (ucast (sectors_per_cluster b)) = Inr ((c - 2) * ucast (sectors_per_cluster b))"
    "unat ((c - 2) * ucast (sectors_per_cluster b) :: u32) = (unat c - 2) * unat (sectors_per_cluster b)"
    using c s by (simp_all add: cluster_sector_def op_mul_def unat_times_nowrap)
  with c d \<open>cluster_sector b (unat c) < 2 ^ 32\<close> show ?thesis
    by (simp add: first_cluster_sector_def op_add_def unat_plus_nowrap cluster_sector_def)
qed


section \<open>Entries of the file allocation table\<close>

text \<open>Two bytes of the disk, and the entry of a cluster by the FAT specification (FAT12 and FAT16).\<close>

definition image_u16 :: "(nat \<Rightarrow> u8) \<Rightarrow> nat \<Rightarrow> nat" where
  "image_u16 img a = unat (img a) + 256 * unat (img (a + 1))"

definition fat_value :: "(nat \<Rightarrow> u8) \<Rightarrow> nat \<Rightarrow> BiosParameterBlock \<Rightarrow> nat \<Rightarrow> nat" where
  "fat_value img base b c =
     (let fat = base + unat (reserved_sector_count b) * 512 in
      if volume_type b = Fat12
      then (let v = image_u16 img (fat + (c + c div 2)) in if odd c then v div 16 else v mod 4096)
      else image_u16 img (fat + 2 * c))"

definition fat_entry :: "(nat \<Rightarrow> u8) \<Rightarrow> nat \<Rightarrow> BiosParameterBlock \<Rightarrow> u32 \<Rightarrow> FatEntry" where
  "fat_entry img base b c = FatEntry_parse (of_nat (fat_value img base b (unat c))) (volume_type b)"

text \<open>A mounted volume: the disk, its parameter block and the buffers of the reader.\<close>

definition volume_ok :: "DiskAccess \<Rightarrow> BiosParameterBlock \<Rightarrow> bool" where
  "volume_ok d b \<longleftrightarrow> disk_ok d \<and> bpb_ok b \<and> volume_type b \<noteq> Fat32 \<and> cluster_size d = 512 * ucast (sectors_per_cluster b)"

definition buffers_ok :: "stage2_buffers \<Rightarrow> bool" where
  "buffers_ok env \<longleftrightarrow> buffer_ok (tmp_address env) 1024 \<and> length (tmp_buffer env) = 1024 \<and>
     buffer_ok (root_buffer_address env) 16384 \<and> buffer_ok (file_buffer_address env) 4096"

definition same_disk :: "DiskAccess \<Rightarrow> DiskAccess \<Rightarrow> bool" where
  "same_disk d d' \<longleftrightarrow> (\<exists>off. d' = d\<lparr>disk_offset := off\<rparr>)"

lemma same_disk_refl [simp, intro]: "same_disk d d"
  by (auto simp: same_disk_def intro: exI [of _ "disk_offset d"])

lemma same_disk_update [simp]: "same_disk d (d'\<lparr>disk_offset := off\<rparr>) \<longleftrightarrow> same_disk d d'"
  by (cases d, cases d') (auto simp: same_disk_def)

lemma same_disk_fields:
  "same_disk d d' \<Longrightarrow> base_offset d' = base_offset d \<and> sector_size d' = sector_size d \<and> cluster_size d' = cluster_size d"
  by (auto simp: same_disk_def)

lemma same_disk_ok: "same_disk d d' \<Longrightarrow> disk_ok d' = disk_ok d" "same_disk d d' \<Longrightarrow> volume_ok d' b = volume_ok d b"
  by (auto simp: same_disk_def disk_ok_def volume_ok_def)

lemma image_bytes_2: "image_bytes img a 2 = [img a, img (a + 1)]"
  by (simp add: image_bytes_def upt_rec)

lemma from_le_image_bytes_2: "unat (from_le_bytes (image_bytes img a 2) :: u16) = image_u16 img a"
  by (simp only: image_bytes_2 unat_from_le_bytes_2 image_u16_def)

lemma read_fat_bytes_image:
  assumes "bios_reads B img" "disk_ok d" "buffers_ok env" "unat (fat_start t) < 2 ^ 61" "unat off < 2 ^ 32"
  shows "\<exists>env' d'. read_fat_bytes B env d t off 2 =
      Inr (image_bytes img (unat (base_offset d) + unat (fat_start t) + unat off) 2, env', d') \<and>
    buffers_ok env' \<and> same_disk d d' \<and>
    root_buffer_address env' = root_buffer_address env \<and> file_buffer_address env' = file_buffer_address env"
proof -
  have o1: "op_add (fat_start t) (ucast off) = Inr (fat_start t + ucast off)"
    "unat (fat_start t + ucast off) = unat (fat_start t) + unat off"
    using assms(4,5) by (simp_all add: op_add_def unat_plus_nowrap unat_ucast_up)
  let ?d = "d\<lparr>disk_offset := fat_start t + ucast off\<rparr>"
  have lt: "unat (disk_offset ?d) < 2 ^ 62" using o1 assms(4,5) by simp
  have md: "unat (disk_offset ?d) mod 512 + unat (2 :: u32) \<le> 1024"
    using mod_less_divisor [of 512 "unat (disk_offset ?d)"] by simp
  have "disk_ok ?d" using assms(2) by (simp add: disk_ok_def)
  from read_bytes_image [OF assms(1) this lt _ _ md] obtain tmp'
    where "length tmp' = 1024" "DiskAccess_read_bytes B (tmp_address env) (tmp_buffer env) ?d 2 =
      Inr (image_bytes img (unat (base_offset d) + unat (disk_offset ?d)) 2, tmp',
           ?d\<lparr>disk_offset := base_offset d + disk_offset ?d + 1024\<rparr>)"
    using assms(3) by (auto simp: buffers_ok_def)
  with o1 assms(3) show ?thesis
    by (simp add: read_fat_bytes_def DiskAccess_seek_def buffers_ok_def add.assoc)
qed


lemma ucast_of_nat_unat: "LENGTH('a) \<le> LENGTH('b) \<Longrightarrow> (ucast (v :: 'a::len word) :: 'b::len word) = of_nat (unat v)"
  by (rule word_unat_eq_iff [THEN iffD2])
     (use unat_less_exp [of v] power_increasing [of "LENGTH('a)" "LENGTH('b)" "2 :: nat"] in
       \<open>simp add: unat_ucast_up unat_of_nat\<close>)

lemma and_1_odd: "(c :: u32) AND 1 = 1 \<longleftrightarrow> odd (unat c)"
proof -
  have "odd c \<longleftrightarrow> odd (unat c)" using unat_div_exp_eq_iff_bit [of c 0] by (simp add: bit_0)
  then show ?thesis by (simp add: and_one_eq mod_2_eq_odd)
qed

definition volume_table :: "BiosParameterBlock \<Rightarrow> FileAllocationTable" where
  "volume_table b = \<lparr>fat_typ = volume_type b, fat_start = of_nat (unat (reserved_sector_count b) * 512)\<rparr>"

lemma volume_table_start: "unat (fat_start (volume_table b)) = unat (reserved_sector_count b) * 512"
  using unat_less_exp [of "reserved_sector_count b"]
  by (simp add: volume_table_def unat_of_nat del: of_nat_mult)

lemma FileAllocationTable_new_eq:
  assumes "bpb_ok b"
  shows "FileAllocationTable_new (volume_type b) (first_fat_sector b) (bytes_per_sector b) = Inr (volume_table b)"
proof -
  let ?r = "ucast (first_fat_sector b) :: u64"
  have r: "unat ?r = unat (reserved_sector_count b)" by (simp add: first_fat_sector_def unat_ucast_up)
  have "op_mul ?r 512 = Inr (?r * 512)" "unat (?r * 512) = unat (reserved_sector_count b) * 512"
    using r unat_less_exp [of "reserved_sector_count b"] by (simp_all add: op_mul_def unat_times_nowrap)
  moreover from this have "?r * 512 = fat_start (volume_table b)"
    by (simp add: word_unat_eq_iff volume_table_start)
  ultimately show ?thesis using assms
    by (simp add: FileAllocationTable_new_def bpb_ok_def) (simp add: volume_table_def)
qed

lemma fat_cluster_bound: "volume_type b \<noteq> Fat32 \<Longrightarrow> cluster_count b < 65525"
  by (auto simp: volume_type_def split: if_splits)

lemma get_entry_image:
  assumes "bios_reads B img" "volume_ok d b" "buffers_ok env" "unat c < cluster_count b + 2"
  shows "\<exists>env' d'. get_entry B env d (volume_table b) c = Inr (fat_entry img (unat (base_offset d)) b c, env', d') \<and>
    buffers_ok env' \<and> same_disk d d' \<and>
    root_buffer_address env' = root_buffer_address env \<and> file_buffer_address env' = file_buffer_address env"
proof -
  have d: "disk_ok d" and n32: "volume_type b \<noteq> Fat32" using assms(2) by (simp_all add: volume_ok_def)
  have c: "unat c < 65527" using assms(4) fat_cluster_bound [OF n32] by simp
  have st: "unat (fat_start (volume_table b)) < 2 ^ 61"
    using unat_less_exp [of "reserved_sector_count b"] by (simp add: volume_table_start)
  have off: "unat o1 < 2 ^ 32" for o1 :: u32 using unat_less_exp [of o1] by simp
  note rd = read_fat_bytes_image [OF assms(1) d assms(3) st off]
  show ?thesis
  proof (cases "volume_type b = Fat12")
    case True
    have o1: "op_add c (c div 2) = Inr (c + c div 2)" "unat (c + c div 2) = unat c + unat c div 2"
      using c by (simp_all add: op_add_def unat_plus_nowrap unat_div_distrib)
    obtain env' d' where r: "read_fat_bytes B env d (volume_table b) (c + c div 2) 2 =
        Inr (image_bytes img (unat (base_offset d) + unat (reserved_sector_count b) * 512 + (unat c + unat c div 2)) 2, env', d')"
      "buffers_ok env'" "same_disk d d'" "root_buffer_address env' = root_buffer_address env"
      "file_buffer_address env' = file_buffer_address env"
      using rd [of "c + c div 2"] o1 by (auto simp: volume_table_start)
    define v :: u16 where "v = from_le_bytes (image_bytes img (unat (base_offset d) + unat (reserved_sector_count b) * 512 + (unat c + unat c div 2)) 2)"
    have v: "unat v = image_u16 img (unat (base_offset d) + unat (reserved_sector_count b) * 512 + (unat c + unat c div 2))"
      unfolding v_def by (rule from_le_image_bytes_2)
    have m: "(0xfff :: u16) = mask 12" by (simp add: mask_eq_exp_minus_1)
    have "(if c AND 1 = 1 then ucast (drop_bit 4 v) else ucast (v AND 0xfff) :: u32) =
        of_nat (fat_value img (unat (base_offset d)) b (unat c))"
      unfolding m by (simp add: and_1_odd ucast_of_nat_unat unat_drop_bit_4 unat_and_mask v True fat_value_def Let_def del: of_nat_unat)
    with r o1 True show ?thesis
      by (simp add: get_entry_def volume_table_def [of b] v_def [symmetric] Let_def fat_entry_def split: if_splits)
  next
    case False
    then have t: "volume_type b = Fat16" using n32 by (cases "volume_type b") auto
    have o1: "op_mul c 2 = Inr (c * 2)" "unat (c * 2) = 2 * unat c"
      using c by (simp_all add: op_mul_def unat_times_nowrap)
    obtain env' d' where r: "read_fat_bytes B env d (volume_table b) (c * 2) 2 =
        Inr (image_bytes img (unat (base_offset d) + unat (reserved_sector_count b) * 512 + 2 * unat c) 2, env', d')"
      "buffers_ok env'" "same_disk d d'" "root_buffer_address env' = root_buffer_address env"
      "file_buffer_address env' = file_buffer_address env"
      using rd [of "c * 2"] o1 by (auto simp: volume_table_start)
    have "(ucast (from_le_bytes (image_bytes img (unat (base_offset d) + unat (reserved_sector_count b) * 512 + 2 * unat c) 2) :: u16) :: u32) =
        of_nat (fat_value img (unat (base_offset d)) b (unat c))"
      by (simp add: ucast_of_nat_unat from_le_image_bytes_2 fat_value_def Let_def t del: of_nat_unat)
    with r o1 t show ?thesis
      by (simp add: get_entry_def volume_table_def [of b] fat_entry_def)
  qed
qed


section \<open>Cluster chains and the contents of a file\<close>

fun chain :: "(u32 \<Rightarrow> FatEntry) \<Rightarrow> u32 list \<Rightarrow> bool" where
  "chain next [] \<longleftrightarrow> False"
| "chain next [c] \<longleftrightarrow> next c = EndOfFile"
| "chain next (c # c' # cs) \<longleftrightarrow> next c = Cluster_Entry c' \<and> chain next (c' # cs)"

definition data_clusters :: "BiosParameterBlock \<Rightarrow> u32 set" where
  "data_clusters b = {c. 2 \<le> unat c \<and> unat c < cluster_count b + 2}"

definition cluster_bytes :: "(nat \<Rightarrow> u8) \<Rightarrow> nat \<Rightarrow> BiosParameterBlock \<Rightarrow> u32 \<Rightarrow> u8 list" where
  "cluster_bytes img base b c =
     image_bytes img (base + cluster_sector b (unat c) * 512) (unat (sectors_per_cluster b) * 512)"

lemma length_cluster_bytes [simp]: "length (cluster_bytes img base b c) = unat (sectors_per_cluster b) * 512"
  by (simp add: cluster_bytes_def)

lemma copy_bytes_append: "copy_bytes m a (xs @ ys) = copy_bytes (copy_bytes m a xs) (a + of_nat (length xs)) ys"
  by (induction xs arbitrary: m a) (simp_all add: ac_simps)

lemma copy_bytes_outside: "(\<And>i. i < length xs \<Longrightarrow> a' \<noteq> a + of_nat i) \<Longrightarrow> copy_bytes m a xs a' = m a'"
proof (induction xs arbitrary: m a)
  case (Cons x xs)
  from Cons.prems [of 0] have "a' \<noteq> a" by simp
  moreover have "a' \<noteq> a + 1 + of_nat i" if "i < length xs" for i
    using Cons.prems [of "Suc i"] that by (simp add: ac_simps)
  ultimately show ?case 
    using Cons.IH [of "a + 1" "m(a := x)"] by (simp add: fun_upd_other del: fun_upd_apply)
qed simp

lemma copy_bytes_inside:
  "length xs \<le> 2 ^ 32 \<Longrightarrow> i < length xs \<Longrightarrow> copy_bytes m a xs (a + of_nat i) = xs ! i"
proof (induction xs arbitrary: m a i)
  case (Cons x xs)
  show ?case
  proof (cases i)
    case 0
    have "a \<noteq> a + 1 + of_nat j" if "j < length xs" for j
    proof
      assume "a = a + 1 + of_nat j"
      then have "of_nat (Suc j) = (0 :: u32)" by (simp add: add.assoc)
      then have "unat (of_nat (Suc j) :: u32) = 0" by (simp only: unat_0)
      with that Cons.prems(1) show False by (simp add: unat_of_nat del: of_nat_Suc)
    qed
    then have "copy_bytes (m(a := x)) (a + 1) xs a = x"
      using copy_bytes_outside [of xs a "a + 1" "m(a := x)"] by simp
    with 0 show ?thesis by simp
  next
    case (Suc j)
    with Cons.IH [of j "m(a := x)" "a + 1"] Cons.prems show ?thesis by (simp add: ac_simps del: fun_upd_apply)
  qed
qed simp

lemma load_sectors_cluster:
  assumes "bios_reads B img" "volume_ok d b" "unat (sectors_per_cluster b) \<le> 8" "buffer_ok fa 4096" "length buffer = 4096"
    "disk_offset d = of_nat (sector * 512)" "sector < 2 ^ 32"
    "rd * 512 + unat (sectors_per_cluster b) * 512 < 2 ^ 32"
  shows "\<exists>d' buffer'. load_sectors B fa dest (unat (sectors_per_cluster b)) d buffer m (of_nat rd) =
      Inr (d', buffer', copy_bytes m (dest + of_nat (rd * 512))
        (image_bytes img (unat (base_offset d) + sector * 512) (unat (sectors_per_cluster b) * 512)),
        of_nat (rd + unat (sectors_per_cluster b))) \<and>
    same_disk d d' \<and> length buffer' = 4096"
proof -
  define n where "n = unat (sectors_per_cluster b)"
  have n: "0 < n" "n \<le> 8" using assms(2,3) by (simp_all add: n_def volume_ok_def bpb_ok_def unat_gt_0)
  have dk: "disk_ok d" "sector_size d = 512" using assms(2) by (simp_all add: volume_ok_def disk_ok_def)
  have off: "unat (disk_offset d) = sector * 512"
    using assms(6,7) by (simp add: unat_of_nat del: of_nat_mult)
  have pos: "disk_pos d = unat (base_offset d) + sector * 512"
    using dk(1) off by (auto simp: disk_pos_def disk_ok_def elim!: dvdE)
  have un: "unat (of_nat n :: u32) = n" using n by (simp add: unat_of_nat)
  have ut: "unat (of_nat rd :: u32) = rd" using assms(8) by (simp add: unat_of_nat)
  let ?xs = "image_bytes img (unat (base_offset d) + sector * 512) (n * 512)"
  have bo: "buffer_ok fa (unat (of_nat n :: u32) * 512)" using assms(4) un n by (simp add: buffer_ok_def)
  have r: "DiskAccess_read_sectors B d (of_nat n) fa buffer =
      Inr (?xs @ drop (n * 512) buffer, d\<lparr>disk_offset := base_offset d + disk_offset d + of_nat (n * 512)\<rparr>)"
    using read_sectors_image [OF assms(1) dk(1) _ bo, of buffer] off assms(5,7) un n pos
    by (simp del: of_nat_mult)
  have m1: "op_mul (of_nat rd) (512 :: u32) = Inr (of_nat (rd * 512))"
    using ut assms(8) by (simp add: op_mul_def)
  have m2: "op_mul (of_nat n) (512 :: u32) = Inr (of_nat n * 512)" "unat (of_nat n * 512 :: u32) = n * 512"
    using un n by (simp_all add: op_mul_def unat_times_nowrap)
  have a: "op_add (of_nat rd) (of_nat n :: u32) = Inr (of_nat (rd + n))"
    using un ut assms(8) by (simp add: op_add_def n_def [symmetric])
  have mn: "min n (length buffer div 512) = n" using assms(5) n by simp
  have "load_sectors B fa dest n d buffer m (of_nat rd) =
      Inr (d\<lparr>disk_offset := base_offset d + disk_offset d + of_nat (n * 512)\<rparr>, ?xs @ drop (n * 512) buffer,
        copy_bytes m (dest + of_nat (rd * 512)) ?xs, of_nat (rd + n))"
    using n dk(2) r m1 m2 a mn
    by (subst load_sectors.simps) (simp add: Let_def load_sectors.simps [of _ _ _ 0] del: of_nat_mult of_nat_add)
  then show ?thesis using assms(5) n unfolding n_def [symmetric] by (simp add: length_image_bytes)
qed


lemma sectors_per_cluster_of_eq:
  assumes "volume_ok d b"
  shows "\<exists>n. sectors_per_cluster_of d = Inr n \<and> unat n = unat (sectors_per_cluster b)"
proof -
  have c: "cluster_size d = 512 * ucast (sectors_per_cluster b)" "sector_size d = 512"
    using assms by (simp_all add: volume_ok_def disk_ok_def)
  have "unat (512 * ucast (sectors_per_cluster b) :: u32) = 512 * unat (sectors_per_cluster b)"
    using unat_less_exp [of "sectors_per_cluster b"]
    by (subst unat_times_nowrap) (simp_all add: unat_ucast_up)
  then show ?thesis by (simp add: sectors_per_cluster_of_def op_div_def c unat_div_distrib)
qed

lemma seek_cluster:
  assumes "disk_ok d" "unat w = sector"
  shows "DiskAccess_seek d (StartInSectors (ucast (w :: u32))) = Inr (d\<lparr>disk_offset := of_nat (sector * 512)\<rparr>)"
proof -
  have u: "unat (ucast w :: u64) = sector" using assms(2) by (simp add: unat_ucast_up)
  have "sector < 2 ^ 32" using unat_less_exp [of w] assms(2) by simp
  then have "op_mul (ucast w :: u64) 512 = Inr (ucast w * 512)" "unat (ucast w * 512 :: u64) = sector * 512"
    using u by (simp_all add: op_mul_def unat_times_nowrap)
  moreover from this have "(ucast w * 512 :: u64) = of_nat (sector * 512)"
    using \<open>sector < 2 ^ 32\<close> by (simp add: word_unat_eq_iff unat_of_nat del: of_nat_mult)
  ultimately show ?thesis using assms(1) by (simp add: DiskAccess_seek_def disk_ok_def del: of_nat_mult)
qed

definition chain_iter :: "BiosParameterBlock \<Rightarrow> DiskAccess \<Rightarrow> FatEntry \<Rightarrow> FileIter" where
  "chain_iter b d e = \<lparr>iter_disk = d, current_entry = e, iter_bpb = b, fat_table = volume_table b\<rparr>"

lemma next_cluster_image:
  assumes "bios_reads B img" "volume_ok d b" "buffers_ok env" "c \<in> data_clusters b"
  shows "\<exists>w env' d'. next_cluster B env (chain_iter b d (Cluster_Entry c)) =
      Inr (Inr (Some \<lparr>cluster_start_sector = w, cluster_size_in_sectors = sectors_per_cluster b\<rparr>), env',
           chain_iter b d' (fat_entry img (unat (base_offset d)) b c)) \<and>
    unat w = cluster_sector b (unat c) \<and> buffers_ok env' \<and> same_disk d d' \<and>
    file_buffer_address env' = file_buffer_address env"
proof -
  have c: "2 \<le> unat c" "unat c < cluster_count b + 2" using assms(4) by (simp_all add: data_clusters_def)
  obtain w where w: "first_cluster_sector b c = Inr w" "unat w = cluster_sector b (unat c)"
    using first_cluster_sector_eq [OF _ c] assms(2) by (auto simp: volume_ok_def)
  obtain env' d' where "get_entry B env d (volume_table b) c = Inr (fat_entry img (unat (base_offset d)) b c, env', d')"
    "buffers_ok env'" "same_disk d d'" "file_buffer_address env' = file_buffer_address env"
    using get_entry_image [OF assms(1-3) c(2)] by blast
  with w show ?thesis by (simp add: next_cluster_def chain_iter_def)
qed

lemma load_clusters_step:
  assumes "bios_reads B img" "unat (sectors_per_cluster b) \<le> 8" "c \<in> data_clusters b" "volume_ok di b" "volume_ok d b"
    "unat (base_offset di) = base" "unat (base_offset d) = base" "buffers_ok env" "length buffer = 4096"
    "rd * 512 + unat (sectors_per_cluster b) * 512 < 2 ^ 32"
  shows "\<exists>env' di' d' buffer'. load_clusters (Suc fuel) B env dest (chain_iter b di (Cluster_Entry c)) d buffer m (of_nat rd) =
      load_clusters fuel B env' dest (chain_iter b di' (fat_entry img base b c)) d' buffer'
        (copy_bytes m (dest + of_nat (rd * 512)) (cluster_bytes img base b c)) (of_nat (rd + unat (sectors_per_cluster b))) \<and>
    buffers_ok env' \<and> same_disk di di' \<and> same_disk d d' \<and> length buffer' = 4096"
proof -
  let ?n = "unat (sectors_per_cluster b)"
  obtain w env' di' where w: "next_cluster B env (chain_iter b di (Cluster_Entry c)) =
      Inr (Inr (Some \<lparr>cluster_start_sector = w, cluster_size_in_sectors = sectors_per_cluster b\<rparr>), env',
           chain_iter b di' (fat_entry img base b c))"
    "unat w = cluster_sector b (unat c)" "buffers_ok env'" "same_disk di di'"
    using next_cluster_image [OF assms(1,4,8,3)] assms(6) by auto
  let ?d = "d\<lparr>disk_offset := of_nat (cluster_sector b (unat c) * 512)\<rparr>"
  have vd: "volume_ok ?d b" using assms(5) by (simp add: volume_ok_def disk_ok_def)
  have sk: "DiskAccess_seek d (StartInSectors (ucast w)) = Inr ?d"
    using seek_cluster [OF _ w(2)] assms(5) by (simp add: volume_ok_def)
  obtain n where n: "sectors_per_cluster_of ?d = Inr n" "unat n = ?n" using sectors_per_cluster_of_eq [OF vd] by blast
  have lt: "cluster_sector b (unat c) < 2 ^ 32" using unat_less_exp [of w] w(2) by simp
  have fa: "buffer_ok (file_buffer_address env') 4096" using w(3) by (simp add: buffers_ok_def)
  have off: "disk_offset ?d = of_nat (cluster_sector b (unat c) * 512)" by simp
  obtain d' buffer' where l: "load_sectors B (file_buffer_address env') dest ?n ?d buffer m (of_nat rd) =
      Inr (d', buffer', copy_bytes m (dest + of_nat (rd * 512))
        (image_bytes img (unat (base_offset ?d) + cluster_sector b (unat c) * 512) (?n * 512)), of_nat (rd + ?n))"
    "same_disk ?d d'" "length buffer' = 4096"
    using load_sectors_cluster [OF assms(1) vd assms(2) fa assms(9) off lt assms(10), of dest m] by blast
  have "same_disk d d'" using l(2) by (auto simp: same_disk_def)
  with w sk n l assms(7) show ?thesis
    by (intro exI [of _ env'] exI [of _ di'] exI [of _ d'] exI [of _ buffer'])
       (simp add: cluster_bytes_def del: of_nat_mult of_nat_add)
qed

lemma load_clusters_end:
  "load_clusters (Suc fuel) B env dest (chain_iter b di EndOfFile) d buffer m rd =
     Inr (Inr rd, env, chain_iter b di EndOfFile, m)"
  by (simp add: next_cluster_def chain_iter_def)

lemma load_clusters_chain:
  assumes "bios_reads B img" "unat (sectors_per_cluster b) \<le> 8"
  shows "chain (fat_entry img base b) (c # cs) \<Longrightarrow> set (c # cs) \<subseteq> data_clusters b \<Longrightarrow>
    volume_ok di b \<Longrightarrow> volume_ok d b \<Longrightarrow> unat (base_offset di) = base \<Longrightarrow> unat (base_offset d) = base \<Longrightarrow>
    buffers_ok env \<Longrightarrow> length buffer = 4096 \<Longrightarrow>
    rd * 512 + length (c # cs) * (unat (sectors_per_cluster b) * 512) < 2 ^ 32 \<Longrightarrow> length (c # cs) < fuel \<Longrightarrow>
    \<exists>env' d'. load_clusters fuel B env dest (chain_iter b di (Cluster_Entry c)) d buffer m (of_nat rd) =
      Inr (Inr (of_nat (rd + length (c # cs) * unat (sectors_per_cluster b))), env', chain_iter b d' EndOfFile,
        copy_bytes m (dest + of_nat (rd * 512)) (concat (map (cluster_bytes img base b) (c # cs)))) \<and> same_disk di d' \<and> buffers_ok env'"
proof (induction cs arbitrary: c di d env buffer m rd fuel)
  case Nil
  then obtain f where f: "fuel = Suc (Suc f)" by (cases fuel; cases "fuel - 1") auto
  from Nil have c: "c \<in> data_clusters b" "fat_entry img base b c = EndOfFile"
    "rd * 512 + unat (sectors_per_cluster b) * 512 < 2 ^ 32" by simp_all
  from load_clusters_step [OF assms c(1) Nil(3-8) c(3), of "Suc f" dest m] c(2) f show ?case
    by (auto simp only: load_clusters_end) auto
next
  let ?n = "unat (sectors_per_cluster b)"
  case (Cons c' cs)
  from Cons.prems(10) obtain f where f: "fuel = Suc f" by (cases fuel) auto
  from Cons.prems have nx: "fat_entry img base b c = Cluster_Entry c'" "chain (fat_entry img base b) (c' # cs)"
    "c \<in> data_clusters b" "set (c' # cs) \<subseteq> data_clusters b" "rd * 512 + ?n * 512 < 2 ^ 32" "length (c' # cs) < f"
    using f by simp_all
  obtain env' di' d' buffer' where s: "load_clusters (Suc f) B env dest (chain_iter b di (Cluster_Entry c)) d buffer m (of_nat rd) =
      load_clusters f B env' dest (chain_iter b di' (Cluster_Entry c')) d' buffer'
        (copy_bytes m (dest + of_nat (rd * 512)) (cluster_bytes img base b c)) (of_nat (rd + ?n))"
    "buffers_ok env'" "same_disk di di'" "same_disk d d'" "length buffer' = 4096"
    using load_clusters_step [OF assms nx(3) Cons.prems(3-8) nx(5), of f dest m] nx(1) by auto
  have v: "volume_ok di' b" "volume_ok d' b" "unat (base_offset di') = base" "unat (base_offset d') = base"
    using s(3,4) Cons.prems(3-6) same_disk_ok(2) same_disk_fields by metis+
  have fit: "(rd + ?n) * 512 + length (c' # cs) * (?n * 512) < 2 ^ 32"
    using Cons.prems(9) by (simp add: algebra_simps)
  obtain env2 d2 where r: "load_clusters f B env' dest (chain_iter b di' (Cluster_Entry c')) d' buffer'
        (copy_bytes m (dest + of_nat (rd * 512)) (cluster_bytes img base b c)) (of_nat (rd + ?n)) =
      Inr (Inr (of_nat (rd + ?n + length (c' # cs) * ?n)), env2, chain_iter b d2 EndOfFile,
        copy_bytes (copy_bytes m (dest + of_nat (rd * 512)) (cluster_bytes img base b c)) (dest + of_nat ((rd + ?n) * 512))
          (concat (map (cluster_bytes img base b) (c' # cs))))" "same_disk di' d2" "buffers_ok env2"
    using Cons.IH [OF nx(2,4) v s(2,5) fit nx(6)] by blast
  have "copy_bytes (copy_bytes m (dest + of_nat (rd * 512)) (cluster_bytes img base b c)) (dest + of_nat ((rd + ?n) * 512))
          (concat (map (cluster_bytes img base b) (c' # cs))) =
      copy_bytes m (dest + of_nat (rd * 512)) (concat (map (cluster_bytes img base b) (c # c' # cs)))"
    using copy_bytes_append [of m "dest + of_nat (rd * 512)" "cluster_bytes img base b c"
        "concat (map (cluster_bytes img base b) (c' # cs))"]
    by (simp add: algebra_simps)
  moreover have "same_disk di d2" using s(3) r(2) by (auto simp: same_disk_def)
  moreover have "rd + ?n + length (c' # cs) * ?n = rd + length (c # c' # cs) * ?n" by simp
  ultimately show ?case using s(1) r(1,3) f by metis
qed


section \<open>The root directory\<close>

definition root_dir_bytes :: "(nat \<Rightarrow> u8) \<Rightarrow> nat \<Rightarrow> BiosParameterBlock \<Rightarrow> u8 list" where
  "root_dir_bytes img base b = image_bytes img (base + root_start b * 512) 16384"

definition fs_ok :: "FATFileSystem \<Rightarrow> bool" where
  "fs_ok fs \<longleftrightarrow> volume_ok (fs_disk fs) (fs_bpb fs) \<and> root_entry_count (fs_bpb fs) = 512"

lemma read_root_dir_image:
  assumes "bios_reads B img" "fs_ok fs" "buffers_ok env"
  shows "\<exists>d'. read_root_dir B env fs (replicate 16384 0) =
      Inr (root_dir_bytes img (unat (base_offset (fs_disk fs))) (fs_bpb fs), fs\<lparr>fs_disk := d'\<rparr>) \<and> same_disk (fs_disk fs) d'"
proof -
  let ?b = "fs_bpb fs" and ?d = "fs_disk fs"
  have b: "bpb_ok ?b" "volume_type ?b \<noteq> Fat32" "disk_ok ?d" using assms(2) by (simp_all add: fs_ok_def volume_ok_def)
  have sz: "root_dir_size ?b = Inr 16384"
    using assms(2) by (simp add: root_dir_size_def fs_ok_def op_mul_def ROOT_DIR_ENTRY_SIZE_def)
  obtain w where w: "first_root_dir_sector ?b = Inr w" "unat w = root_start ?b" using first_root_dir_sector_eq [OF b(1)] by blast
  let ?s = "?d\<lparr>disk_offset := of_nat (root_start ?b * 512)\<rparr>"
  have sk: "DiskAccess_seek ?d (StartInSectors (ucast w)) = Inr ?s" by (rule seek_cluster [OF b(3) w(2)])
  have lt: "root_start ?b < 2 ^ 32" using unat_less_exp [of w] w(2) by simp
  have so: "disk_ok ?s" "unat (disk_offset ?s) = root_start ?b * 512"
    using b(3) lt by (simp_all add: disk_ok_def unat_of_nat del: of_nat_mult)
  have pos: "disk_pos ?s = unat (base_offset ?d) + root_start ?b * 512"
    using so by (auto simp: disk_pos_def disk_ok_def simp del: of_nat_mult elim!: dvdE)
  have bo: "buffer_ok (root_buffer_address env) (unat (32 :: u32) * 512)" using assms(3) by (simp add: buffers_ok_def)
  have l62: "unat (disk_offset ?s) < 2 ^ 62" using so(2) lt by simp
  have "DiskAccess_read B ?s (root_buffer_address env) (replicate 16384 0) =
      Inr (root_dir_bytes img (unat (base_offset ?d)) ?b, ?s\<lparr>disk_offset := base_offset ?s + disk_offset ?s + of_nat (unat (32 :: u32) * 512)\<rparr>)"
    using read_sectors_image [OF assms(1) so(1) l62 bo, of "replicate 16384 0"] pos b(3)
    by (simp add: DiskAccess_read_def op_div_def disk_ok_def root_dir_bytes_def)
  then show ?thesis
    using sz w sk fat_type_eq [OF b(1)] b(2)
    by (intro exI [of _ "?s\<lparr>disk_offset := base_offset ?s + disk_offset ?s + of_nat (unat (32 :: u32) * 512)\<rparr>"])
       (simp add: read_root_dir_def del: of_nat_mult)
qed

lemma find_file_image:
  assumes "bios_reads B img" "fs_ok fs" "buffers_ok env"
    "find_entry (root_dir_bytes img (unat (base_offset (fs_disk fs))) (fs_bpb fs)) 0 name = Inr e"
  shows "\<exists>d'. find_file_in_root_dir B env fs name =
      Inr (case e of None \<Rightarrow> None
           | Some x \<Rightarrow> if is_dir x then None else Some \<lparr>start_sector = first_cluster x, file_len = file_size x\<rparr>,
           fs\<lparr>fs_disk := d'\<rparr>) \<and> same_disk (fs_disk fs) d'"
  using read_root_dir_image [OF assms(1-3)] assms(4)
  by (auto simp: find_file_in_root_dir_def DEFAULT_SECTOR_SIZE_def ROOT_DIR_ENTRY_SIZE_def)

lemma size_in_sectors_eq:
  assumes "unat (file_len f) + 511 < 2 ^ 32"
  shows "\<exists>n. size_in_sectors f = Inr n \<and> unat n = (unat (file_len f) + 511) div 512"
  using assms by (simp add: size_in_sectors_def DEFAULT_SECTOR_SIZE_def op_add_def op_div_def unat_div_distrib unat_plus_nowrap)

lemma try_load_file_chain:
  assumes "bios_reads B img" "fs_ok fs" "buffers_ok env" "base = unat (base_offset (fs_disk fs))"
    and "find_entry (root_dir_bytes img base (fs_bpb fs)) 0 name = Inr (Some e)" "\<not> is_dir e"
    and "chain (fat_entry img base (fs_bpb fs)) (first_cluster e # cs)" "set (first_cluster e # cs) \<subseteq> data_clusters (fs_bpb fs)"
    and "unat (sectors_per_cluster (fs_bpb fs)) \<le> 8" "unat (file_size e) + 511 < 2 ^ 32"
    and "bytes = concat (map (cluster_bytes img base (fs_bpb fs)) (first_cluster e # cs))" "length bytes < 2 ^ 32"
    and "length (first_cluster e # cs) < fuel"
  shows "\<exists>env' d'. try_load_file fuel B env fs name dest m =
       Inr (if length bytes < unat (file_size e) then Inl FileReadError else Inr (file_size e), env',
            fs\<lparr>fs_disk := d'\<rparr>, copy_bytes m dest bytes) \<and> same_disk (fs_disk fs) d' \<and> buffers_ok env'"
proof -
  let ?b = "fs_bpb fs" and ?n = "unat (sectors_per_cluster (fs_bpb fs))" and ?cs = "first_cluster e # cs"
  have v: "volume_ok (fs_disk fs) ?b" and b: "bpb_ok ?b" using assms(2) by (simp_all add: fs_ok_def volume_ok_def)
  obtain d1 where f: "find_file_in_root_dir B env fs name =
      Inr (Some \<lparr>start_sector = first_cluster e, file_len = file_size e\<rparr>, fs\<lparr>fs_disk := d1\<rparr>)" "same_disk (fs_disk fs) d1"
    using find_file_image [OF assms(1-3), of name "Some e"] assms(4-6) by auto
  have v1: "volume_ok d1 ?b" "unat (base_offset d1) = base"
    using f(2) v assms(4) same_disk_ok(2) same_disk_fields by metis+
  have it: "FileIter_new d1 (first_cluster e) ?b = Inr (chain_iter ?b d1 (Cluster_Entry (first_cluster e)))"
    using fat_type_eq [OF b] FileAllocationTable_new_eq [OF b] by (simp add: FileIter_new_def chain_iter_def)
  have len: "length bytes = length ?cs * (?n * 512)"
    unfolding assms(11) by (simp add: length_concat o_def sum_list_triv)
  have fit: "0 * 512 + length ?cs * (?n * 512) < 2 ^ 32" using assms(12) len by simp
  obtain env' d' where l: "load_clusters fuel B env dest (chain_iter ?b d1 (Cluster_Entry (first_cluster e))) d1 (replicate 4096 0) m (of_nat 0) =
      Inr (Inr (of_nat (0 + length ?cs * ?n)), env', chain_iter ?b d' EndOfFile, copy_bytes m (dest + of_nat (0 * 512)) bytes)"
    "same_disk d1 d'" "buffers_ok env'"
    using load_clusters_chain [OF assms(1,9,7,8) v1(1) v1(1) v1(2) v1(2) assms(3) _ fit assms(13), of "replicate 4096 0" dest m]
    unfolding assms(11) by auto
  obtain k where k: "size_in_sectors \<lparr>start_sector = first_cluster e, file_len = file_size e\<rparr> = Inr k"
      "unat k = (unat (file_size e) + 511) div 512"
    using size_in_sectors_eq [of "\<lparr>start_sector = first_cluster e, file_len = file_size e\<rparr>"] assms(10) by auto
  have u: "unat (of_nat (length ?cs * ?n) :: u32) = length ?cs * ?n"
  proof -
    have "length ?cs * ?n < 2 ^ 32" using fit by (simp add: algebra_simps)
    then show ?thesis by (simp only: unat_of_nat) simp
  qed
  have lt: "of_nat (length ?cs * ?n) < k \<longleftrightarrow> length bytes < unat (file_size e)"
    unfolding word_less_nat_alt u k(2) len by auto
  have "try_load_file fuel B env fs name dest m =
      Inr (if length bytes < unat (file_size e) then Inl FileReadError else Inr (file_size e), env',
           fs\<lparr>fs_disk := d'\<rparr>, copy_bytes m dest bytes)"
    using f it l(1) k(1) lt
    by (simp add: try_load_file_def DEFAULT_SECTOR_SIZE_def chain_iter_def del: of_nat_mult)
  moreover have "same_disk (fs_disk fs) d'" using f(2) l(2) by (auto simp: same_disk_def)
  ultimately show ?thesis using l(3) by blast
qed

section \<open>Properties\<close>

text \<open>
  C7. Loading a file: on a FAT12 or FAT16 volume with 512 root entries and at most eight sectors per
  cluster, when the root directory holds a file of this name and the allocation table links its
  clusters to a chain that ends, \<open>try_load_file\<close> returns (the fuel need only exceed the length of
  the chain), the clusters of the chain stand one after the other in memory from the destination on,
  no other byte has changed, and the result is the file's size, or the read error when the chain is too
  short for it.
\<close>

theorem try_load_file_correct:
  assumes "bios_reads B img" "fs_ok fs" "buffers_ok env" "base = unat (base_offset (fs_disk fs))"
    and "find_entry (root_dir_bytes img base (fs_bpb fs)) 0 name = Inr (Some e)" "\<not> is_dir e"
    and "chain (fat_entry img base (fs_bpb fs)) (first_cluster e # cs)" "set (first_cluster e # cs) \<subseteq> data_clusters (fs_bpb fs)"
    and "unat (sectors_per_cluster (fs_bpb fs)) \<le> 8" "unat (file_size e) + 511 < 2 ^ 32"
    and "bytes = concat (map (cluster_bytes img base (fs_bpb fs)) (first_cluster e # cs))" "length bytes < 2 ^ 32"
    and "length (first_cluster e # cs) < fuel"
  shows "\<exists>env' fs' m'. try_load_file fuel B env fs name dest m =
       Inr (if length bytes < unat (file_size e) then Inl FileReadError else Inr (file_size e), env', fs', m') \<and>
     (\<forall>i < length bytes. m' (dest + of_nat i) = bytes ! i) \<and>
     (\<forall>a. (\<forall>i < length bytes. a \<noteq> dest + of_nat i) \<longrightarrow> m' a = m a) \<and> fs_ok fs'"
proof -
  obtain env' d' where l: "try_load_file fuel B env fs name dest m =
       Inr (if length bytes < unat (file_size e) then Inl FileReadError else Inr (file_size e), env',
            fs\<lparr>fs_disk := d'\<rparr>, copy_bytes m dest bytes)" "same_disk (fs_disk fs) d'"
    using try_load_file_chain [OF assms] by blast
  moreover have "fs_ok (fs\<lparr>fs_disk := d'\<rparr>)" using same_disk_ok(2) [OF l(2)] assms(2) by (simp add: fs_ok_def)
  moreover have "\<forall>i < length bytes. copy_bytes m dest bytes (dest + of_nat i) = bytes ! i"
    using copy_bytes_inside assms(12) by simp
  moreover have "\<forall>a. (\<forall>i < length bytes. a \<noteq> dest + of_nat i) \<longrightarrow> copy_bytes m dest bytes a = m a"
    using copy_bytes_outside by metis
  ultimately show ?thesis by blast
qed

text \<open>A FAT12 volume with one file of three bytes in cluster 2.\<close>

definition example_image :: "nat \<Rightarrow> u8" where
  "example_image i =
     (if i = 515 then 0xFF else if i = 516 then 0x0F
      else if i = 1024 then 65 else if 1025 \<le> i \<and> i < 1035 then 32 else if i = 1035 then 0x20
      else if i = 1050 then 2 else if i = 1052 then 3
      else if 17408 \<le> i then 7 else 0)"

definition example_bpb :: BiosParameterBlock where
  "example_bpb = \<lparr>bytes_per_sector = 512, sectors_per_cluster = 1, reserved_sector_count = 1, fat_count = 1,
     root_entry_count = 512, total_sectors_16 = 40, total_sectors_32 = 0, fat16_size = 1, fat32_size = 0, root_cluster = 0\<rparr>"

definition example_fs :: FATFileSystem where
  "example_fs = \<lparr>fs_disk = \<lparr>disk_number = 0x80, base_offset = 0, disk_offset = 0, sector_size = 512, cluster_size = 512\<rparr>,
     fs_bpb = example_bpb\<rparr>"

definition example_buffers :: stage2_buffers where
  "example_buffers = \<lparr>tmp_address = 0x8000, tmp_buffer = replicate 1024 0, root_buffer_address = 0x9000, file_buffer_address = 0xE000\<rparr>"

definition example_entry :: DirectoryEntry where
  "example_entry = NormalDirEntry \<lparr>filename = [65, 32, 32, 32, 32, 32, 32, 32, 32, 32, 32], attributes = 0x20, first_cluster_number = 2, size_in_bytes = 3\<rparr>"

lemma example_geometry:
  "data_start example_bpb = 34" "root_start example_bpb = 2" "cluster_count example_bpb = 6" "volume_type example_bpb = Fat12"
  "total_sectors example_bpb = 40"
  "reserved_sector_count example_bpb = 1" "sectors_per_cluster example_bpb = 1" "root_entry_count example_bpb = 512"
  "bytes_per_sector example_bpb = 512"
  by (simp_all add: example_bpb_def data_start_def root_start_def root_len_def fat_size_def cluster_count_def
      total_sectors_def volume_type_def)

lemma example_fs_ok: "fs_ok example_fs" "buffers_ok example_buffers"
proof -
  have "bpb_ok example_bpb" by (simp add: bpb_ok_def example_geometry)
  then show "fs_ok example_fs"
    by (simp add: fs_ok_def volume_ok_def disk_ok_def example_fs_def example_geometry)
  show "buffers_ok example_buffers" by (simp add: buffers_ok_def buffer_ok_def example_buffers_def)
qed

lemma example_find: "find_entry (root_dir_bytes example_image 0 example_bpb) 0 [65, 32, 32, 32, 32, 32, 32, 32, 32, 32, 32] = Inr (Some example_entry)"
proof -
  let ?raw = "image_bytes example_image 1024 16384"
  note n = nth_image_bytes [of _ 16384 example_image 1024]
  have td: "take k (drop i ?raw) = image_bytes example_image (1024 + i) k" if "i + k \<le> 16384" for i k
    using that by (rule take_drop_image_bytes)
  have bs: "image_bytes example_image 1024 11 = [65, 32, 32, 32, 32, 32, 32, 32, 32, 32, 32]"
    "image_bytes example_image 1044 2 = [0, 0]" "image_bytes example_image 1050 2 = [2, 0]"
    "image_bytes example_image 1052 4 = [3, 0, 0, 0]"
    by (simp_all add: image_bytes_def upt_rec example_image_def)
  have im: "example_image 1024 = 65" "example_image 1035 = 0x20" by (simp_all add: example_image_def)
  have "take 11 ?raw = image_bytes example_image 1024 11" using td [of 0 11] by simp
  then have "DirectoryEntry_parse ?raw = Inr (32, example_entry)"
    by (simp add: DirectoryEntry_parse_def n le_field_in td entry_location_def LONG_FILE_NAME_def END_OF_DIRECTORY_def
        UNUSED_ENTRY_def NORMAL_ENTRY_SIZE_def example_entry_def bs im)
  then show ?thesis
    by (subst find_entry.simps, subst RootDirIter_next.simps)
       (simp add: next_entry_def root_dir_bytes_def example_geometry example_entry_def eq_name_def)
qed

theorem try_load_file_correct_witness:
  "\<exists>env' fs' m'. try_load_file 2 (image_bios example_image) example_buffers example_fs [65, 32, 32, 32, 32, 32, 32, 32, 32, 32, 32] 0x100000 (\<lambda>_. 0) =
       Inr (Inr 3, env', fs', m') \<and> m' (0x100000 + 2) = 7"
proof -
  have c: "first_cluster example_entry = 2" "\<not> is_dir example_entry" "file_size example_entry = 3"
    by (simp_all add: example_entry_def first_cluster_def is_dir_def file_size_def FileAttributes_is_set_def DIRECTORY_def)
  have e: "fat_entry example_image 0 example_bpb 2 = EndOfFile"
    by (simp add: fat_entry_def fat_value_def example_geometry image_u16_def example_image_def FatEntry_parse_def Let_def)
  have b: "fs_bpb example_fs = example_bpb" "unat (base_offset (fs_disk example_fs)) = 0" by (simp_all add: example_fs_def)
  have "length (cluster_bytes example_image 0 example_bpb 2) = 512" by (simp add: example_geometry)
  moreover have "cluster_bytes example_image 0 example_bpb 2 ! 2 = 7"
    by (simp add: cluster_bytes_def nth_image_bytes cluster_sector_def example_geometry example_image_def)
  ultimately show ?thesis
    using try_load_file_correct [OF image_bios_reads example_fs_ok _ _ c(2), of 0 example_image "[65, 32, 32, 32, 32, 32, 32, 32, 32, 32, 32]" "[]"
        "cluster_bytes example_image 0 example_bpb 2" 2 "0x100000" "\<lambda>_. 0"] c(1,3) e b example_find
    by (auto simp: data_clusters_def example_geometry dest: spec [of _ "2 :: nat"])
qed

end
