(* ===== verification/Boot_Sector.thy ===== *)
theory Boot_Sector
  imports Fat_Correct
begin

text \<open>
  The master boot record: the partition table, which stage 1 (\<open>mbr/src/mbr.rs\<close>) and stage 2
  (\<open>common/src/mbr.rs\<close>) parse with code of their own, and stage 1 itself (\<open>mbr/src/main.rs\<close>, \<open>dap.rs\<close>,
  \<open>util.rs\<close>), which loads stage 2 and jumps to it. Stage 1 has no room for panics: \<open>unwrap_or_fail\<close> prints a
  character and halts, and its profile in \<open>Cargo.toml\<close> has \<open>overflow-checks = false\<close>, so that its arithmetic
  wraps. The characters it prints otherwise are left out.
\<close>

section \<open>Stopping in stage 1\<close>

text \<open>
  \<open>Fail code\<close> is \<open>fail(code)\<close>. \<open>Disk_Error\<close> is the jump to \<open>fail\<close> from the BIOS call, which prints what it
  finds on the stack.
\<close>

datatype mbr_stop = Fail u8 | Disk_Error

type_synonym 'a mbr_res = "mbr_stop + 'a"

definition mbind :: "'a mbr_res \<Rightarrow> ('a \<Rightarrow> 'b mbr_res) \<Rightarrow> 'b mbr_res" where
  "mbind r f = (case r of Inl e \<Rightarrow> Inl e | Inr x \<Rightarrow> f x)"

lemma mbind_simps [simp]: "mbind (Inl e) f = Inl e" "mbind (Inr x) f = f x"
  by (simp_all add: mbind_def)

lemma mbind_cong [fundef_cong]: "r = r' \<Longrightarrow> (\<And>x. r' = Inr x \<Longrightarrow> f x = g x) \<Longrightarrow> mbind r f = mbind r' g"
  by (cases r') simp_all

definition unwrap_or_fail :: "'a option \<Rightarrow> u8 \<Rightarrow> 'a mbr_res" where
  "unwrap_or_fail self code = (case self of Some v \<Rightarrow> Inr v | None \<Rightarrow> Inl (Fail code))"

section \<open>The partition table\<close>

text \<open>\<open>s.get(a..)\<close>, \<open>s.get(..b)\<close> and \<open>s.get(i)\<close>.\<close>

definition get_from :: "'a list \<Rightarrow> nat \<Rightarrow> 'a list option" where
  "get_from s a = (if a \<le> length s then Some (drop a s) else None)"

definition get_to :: "'a list \<Rightarrow> nat \<Rightarrow> 'a list option" where
  "get_to s b = (if b \<le> length s then Some (take b s) else None)"

definition get_nth :: "'a list \<Rightarrow> nat \<Rightarrow> 'a option" where
  "get_nth s i = (if i < length s then Some (s ! i) else None)"

record PartitionTableEntry =
  bootable :: bool
  partition_type :: u8
  logical_block_address :: u32
  sector_count :: u32

definition PartitionTableEntry_new :: "bool \<Rightarrow> u8 \<Rightarrow> u32 \<Rightarrow> u32 \<Rightarrow> PartitionTableEntry" where
  "PartitionTableEntry_new b t lba n = \<lparr>bootable = b, partition_type = t, logical_block_address = lba, sector_count = n\<rparr>"

definition get_partition :: "u8 list \<Rightarrow> u32 \<Rightarrow> PartitionTableEntry mbr_res" where
  "get_partition partition_table index =
     (let offset = index * 16 in
     mbind (unwrap_or_fail (get_from partition_table (unat offset)) 0x63) (\<lambda>buffer.
     mbind (unwrap_or_fail (get_nth buffer 0) 0x64) (\<lambda>bootable_raw.
     mbind (unwrap_or_fail (get_nth buffer 4) 0x65) (\<lambda>partition_type.
     mbind (unwrap_or_fail (Option.bind (get_from buffer 8) (\<lambda>s. get_to s 4)) 0x65) (\<lambda>lba.
     mbind (unwrap_or_fail (Option.bind (get_from buffer 12) (\<lambda>s. get_to s 4)) 0x66) (\<lambda>len.
     Inr (PartitionTableEntry_new (bootable_raw = 0x80) partition_type (from_le_bytes lba) (from_le_bytes len))))))))"

definition PARTITION_TABLE_ENTRY_COUNT :: nat where "PARTITION_TABLE_ENTRY_COUNT = 4"
definition PARTITION_TABLE_ENTRY_SIZE :: nat where "PARTITION_TABLE_ENTRY_SIZE = 16"

definition PartitionTableEntry_default :: PartitionTableEntry where
  "PartitionTableEntry_default = \<lparr>bootable = False, partition_type = 0, logical_block_address = 0, sector_count = 0\<rparr>"

definition get_partition_table_entry :: "u8 list \<Rightarrow> u32 \<Rightarrow> PartitionTableEntry res" where
  "get_partition_table_entry partition_table index =
     rbind (op_mul index 16) (\<lambda>offset.
     rbind (expect (get_from partition_table (unat offset))) (\<lambda>buffer.
     rbind (expect (get_nth buffer 0)) (\<lambda>bootable_raw.
     rbind (expect (get_nth buffer 4)) (\<lambda>partition_type.
     rbind (expect (Option.bind (get_from buffer 8) (\<lambda>s. get_to s 4))) (\<lambda>lba.
     rbind (expect (Option.bind (get_from buffer 12) (\<lambda>s. get_to s 4))) (\<lambda>len.
     Inr (PartitionTableEntry_new (bootable_raw = 0x80) partition_type (from_le_bytes lba) (from_le_bytes len))))))))"

section \<open>Loading stage 2\<close>

definition mbr_DiskAddressPacket_new :: "u32 \<Rightarrow> u16 \<Rightarrow> u64 \<Rightarrow> DiskAddressPacket mbr_res" where
  "mbr_DiskAddressPacket_new buffer_address count start_lba =
     (let segment = drop_bit 4 buffer_address in
      mbind (unwrap_or_fail (if unat segment < 2 ^ 16 then Some (ucast segment) else None) 0x6f) (\<lambda>segment.
      Inr \<lparr>dap_size = 0x10, dap_zero = 0, dap_sector_count = count, dap_offset = ucast (buffer_address AND 0b1111),
           dap_segment = segment, dap_start_lba = start_lba\<rparr>))"

definition mbr_DiskAddressPacket_load :: "bios \<Rightarrow> u16 \<Rightarrow> DiskAddressPacket \<Rightarrow> u8 list mbr_res" where
  "mbr_DiskAddressPacket_load B dn self =
     (case B dn self of None \<Rightarrow> Inl Disk_Error | Some bytes \<Rightarrow> Inr bytes)"

lemma loop_sectors:
  fixes count :: u32
  defines "sectors \<equiv> ucast (min count 0x20) :: u16"
  shows "unat sectors = min (unat count) 0x20" "unat (ucast sectors :: u32) = min (unat count) 0x20" "unat (ucast sectors :: u64) = min (unat count) 0x20"
proof -
  have "unat (min count 0x20) = min (unat count) 0x20" by (simp add: min_def word_le_nat_alt)
  then show s: "unat sectors = min (unat count) 0x20" by (simp add: sectors_def unsigned_ucast_eq take_bit_nat_eq_self)
  show "unat (ucast sectors :: u32) = min (unat count) 0x20" "unat (ucast sectors :: u64) = min (unat count) 0x20"
    using s by (simp_all add: unsigned_ucast_eq take_bit_nat_eq_self)
qed

text \<open>The loop of \<open>first_stage\<close>; \<open>m\<close> is the memory the BIOS puts the sectors into.\<close>

function first_stage_loop :: "bios \<Rightarrow> u16 \<Rightarrow> u64 \<Rightarrow> u32 \<Rightarrow> u32 \<Rightarrow> memory \<Rightarrow> memory mbr_res" where
  "first_stage_loop B disk_index start_lba count buffer_address m =
     (if count = 0 then Inr m
      else let sectors = ucast (min count 0x20) :: u16 in
        mbind (mbr_DiskAddressPacket_new buffer_address sectors start_lba) (\<lambda>packet.
        mbind (mbr_DiskAddressPacket_load B disk_index packet) (\<lambda>bytes.
        let m = copy_bytes m (dap_buffer_address packet) bytes in
        first_stage_loop B disk_index (start_lba + ucast sectors) (count - ucast sectors)
          (buffer_address + ucast sectors * 512) m)))"
  by pat_completeness auto

termination
proof (relation "measure (\<lambda>(_, _, _, count, _, _). unat count)", goal_cases)
  case (2 B disk_index start_lba count buffer_address m sectors packet bytes m1)
  have "0 < unat count" using 2(1) by (simp add: unat_gt_0)
  moreover have "ucast sectors \<le> count" using loop_sectors(2) [of count] 2(2) by (simp add: word_le_nat_alt)
  ultimately show ?case using loop_sectors(2) [of count] 2(2) by (simp add: unat_sub)
qed simp

declare first_stage_loop.simps [simp del]

text \<open>
  \<open>first_stage\<close>: the addresses of the partition table and of stage 2 come from the linker. The result is
  the jump: its target, the two arguments and the memory.
\<close>

definition first_stage :: "bios \<Rightarrow> u32 \<Rightarrow> u32 \<Rightarrow> u16 \<Rightarrow> memory \<Rightarrow> (u32 \<times> u16 \<times> u32 \<times> memory) mbr_res" where
  "first_stage B partition_table_raw second_stage_start disk_index m =
     (let partition_table = map (\<lambda>i. m (partition_table_raw + of_nat i)) [0 ..< 4 * 16] in
      mbind (get_partition partition_table 0) (\<lambda>pte.
      mbind (first_stage_loop B disk_index (ucast (logical_block_address pte)) (sector_count pte) second_stage_start m) (\<lambda>m.
      Inr (second_stage_start, disk_index, partition_table_raw, m))))"

section \<open>Entries written and read\<close>

text \<open>An entry as it stands on the disk; the two fields of three bytes are the addresses in cylinders, heads and sectors.\<close>

definition encode_partition :: "PartitionTableEntry \<Rightarrow> u8 list \<Rightarrow> u8 list \<Rightarrow> u8 list" where
  "encode_partition e first_chs last_chs =
     (if bootable e then 0x80 else 0) # first_chs @ partition_type e # last_chs @
     to_le_bytes 4 (logical_block_address e) @ to_le_bytes 4 (sector_count e)"

definition encode_table :: "(PartitionTableEntry \<times> u8 list \<times> u8 list) list \<Rightarrow> u8 list" where
  "encode_table es = concat (map (\<lambda>(e, first_chs, last_chs). encode_partition e first_chs last_chs) es)"

definition chs_ok :: "(PartitionTableEntry \<times> u8 list \<times> u8 list) list \<Rightarrow> bool" where
  "chs_ok es \<longleftrightarrow> (\<forall>(e, first_chs, last_chs) \<in> set es. length first_chs = 3 \<and> length last_chs = 3)"

lemma drop_encode_table: "chs_ok es \<Longrightarrow> drop (16 * i) (encode_table es) = encode_table (drop i es)"
proof (induction es arbitrary: i)
  case (Cons x es)
  obtain e a b where x: "x = (e, a, b)" by (cases x)
  have "length (encode_partition e a b) = 16" "chs_ok es" using Cons.prems x by (simp_all add: encode_partition_def chs_ok_def)
  then show ?case using Cons.IH x by (cases i) (simp_all add: encode_table_def)
qed (simp add: encode_table_def)

lemma encoded_fields:
  fixes rest :: "u8 list" and e :: PartitionTableEntry
  assumes "length a = 3" "length b = 3"
  defines "s \<equiv> encode_partition e a b @ rest"
  shows "get_nth s 0 = Some (if bootable e then 0x80 else 0)" "get_nth s 4 = Some (partition_type e)"
    and "Option.bind (get_from s 8) (\<lambda>s. get_to s 4) = Some (to_le_bytes 4 (logical_block_address e))"
    and "Option.bind (get_from s 12) (\<lambda>s. get_to s 4) = Some (to_le_bytes 4 (sector_count e))"
proof -
  have s: "s = ((if bootable e then 0x80 else 0) # a @ partition_type e # b) @ to_le_bytes 4 (logical_block_address e) @ to_le_bytes 4 (sector_count e) @ rest"
    by (simp add: s_def encode_partition_def)
  have d: "drop 8 s = to_le_bytes 4 (logical_block_address e) @ to_le_bytes 4 (sector_count e) @ rest"
    unfolding s using assms(1,2) by simp
  have d2: "drop 12 s = to_le_bytes 4 (sector_count e) @ rest" using arg_cong [OF d, of "drop 4"] by simp
  show "get_nth s 0 = Some (if bootable e then 0x80 else 0)" "get_nth s 4 = Some (partition_type e)"
    using assms(1,2) by (simp_all add: s get_nth_def nth_append)
  show "Option.bind (get_from s 8) (\<lambda>s. get_to s 4) = Some (to_le_bytes 4 (logical_block_address e))"
    "Option.bind (get_from s 12) (\<lambda>s. get_to s 4) = Some (to_le_bytes 4 (sector_count e))"
    using assms(1,2) by (simp_all add: get_from_def get_to_def d d2) (simp_all add: s)
qed

section \<open>The sectors of stage 2\<close>

text \<open>The last packet of the loop starts below 1 MiB.\<close>

definition packets_fit :: "u32 \<Rightarrow> nat \<Rightarrow> bool" where
  "packets_fit start n \<longleftrightarrow> n = 0 \<or> unat start + 0x4000 * ((n - 1) div 0x20) < 2 ^ 20"

lemma packets_fit_step:
  assumes "0 < n"
  shows "packets_fit start n \<longleftrightarrow> unat start < 2 ^ 20 \<and> packets_fit (start + of_nat (min n 0x20) * 512) (n - min n 0x20)"
proof (cases "n \<le> 0x20")
  case True
  then have "(n - 1) div 0x20 = 0" using assms by simp
  with True assms show ?thesis by (simp add: packets_fit_def)
next
  case False
  then have d: "(n - 1) div 0x20 = Suc ((n - 0x20 - 1) div 0x20)" by (simp add: le_div_geq)
  show ?thesis
  proof (cases "unat start < 2 ^ 20")
    case True
    then have "unat (start + of_nat (min n 0x20) * 512) = unat start + 0x4000" using False by (simp add: unat_word_ariths)
    with False True d show ?thesis by (simp add: packets_fit_def)
  next
    case f: False
    with False d assms show ?thesis by (simp add: packets_fit_def)
  qed
qed

lemma mbr_packet_eq:
  "mbr_DiskAddressPacket_new a n lba = (case DiskAddressPacket_new a n lba of Inl _ \<Rightarrow> Inl (Fail 0x6f) | Inr p \<Rightarrow> Inr p)"
  by (simp add: mbr_DiskAddressPacket_new_def DiskAddressPacket_new_def unwrap_or_fail_def Let_def)

lemma first_stage_loop_correct:
  assumes "bios_reads B img" "unat lba + unat count < 2 ^ 64"
  shows "first_stage_loop B dn lba count addr m =
     (if packets_fit addr (unat count) then Inr (copy_bytes m addr (image_bytes img (unat lba * 512) (unat count * 512)))
      else Inl (Fail 0x6f))"
  using assms(2)
proof (induction "unat count" arbitrary: lba count addr m rule: less_induct)
  case less
  show ?case
  proof (cases "count = 0")
    case True
    then show ?thesis by (subst first_stage_loop.simps) (simp add: packets_fit_def image_bytes_def)
  next
    case False
    then have pos: "0 < unat count" by (simp add: unat_gt_0)
    let ?s = "ucast (min count 0x20) :: u16" and ?k = "min (unat count) 0x20"
    note sec = loop_sectors [of count]
    have of_k: "(ucast ?s :: u32) = of_nat ?k" "(ucast ?s :: u64) = of_nat ?k"
      using sec by (simp_all add: word_unat_eq_iff unat_of_nat)
    note st = packets_fit_step [OF pos, of addr]
    show ?thesis
    proof (cases "unat addr < 2 ^ 20")
      case hi: False
      then have "\<not> unat addr div 16 < 2 ^ 16" by (simp add: div_less_iff_less_mult)
      then have "DiskAddressPacket_new addr ?s lba = Inl Unwrap_None" by (simp add: DiskAddressPacket_new_def Let_def unat_drop_bit_4)
      with False hi st show ?thesis by (subst first_stage_loop.simps) (simp add: mbr_packet_eq)
    next
      case lo: True
      from dap_fits [OF lo, of ?s lba] obtain p where p: "DiskAddressPacket_new addr ?s lba = Inr p" "dap_sector_count p = ?s" "dap_start_lba p = lba"
        "dap_size p = 0x10" "dap_zero p = 0" by blast
      have B: "B dn p = Some (image_bytes img (unat lba * 512) (?k * 512))"
        using assms(1) p sec(1) by (simp add: bios_reads_def image_bytes_def algebra_simps)
      have sub: "unat (count - of_nat ?k) = unat count - ?k"
        using sec(2) of_k(1) by (simp add: word_le_nat_alt unat_sub)
      have add: "unat (lba + of_nat ?k) = unat lba + ?k"
        using less.prems sec(3) of_k(2) by (simp add: unat_plus_nowrap)
      let ?m = "copy_bytes m addr (image_bytes img (unat lba * 512) (?k * 512))"
      have "first_stage_loop B dn lba count addr m =
          first_stage_loop B dn (lba + of_nat ?k) (count - of_nat ?k) (addr + of_nat ?k * 512) ?m"
        using False p(1) B of_k dap_address [OF p(1)]
        by (subst first_stage_loop.simps) (simp add: mbr_packet_eq mbr_DiskAddressPacket_load_def Let_def)
      also have "\<dots> = (if packets_fit (addr + of_nat ?k * 512) (unat count - ?k)
          then Inr (copy_bytes ?m (addr + of_nat ?k * 512) (image_bytes img ((unat lba + ?k) * 512) ((unat count - ?k) * 512)))
          else Inl (Fail 0x6f))"
        using less.hyps [of "count - of_nat ?k" "lba + of_nat ?k" "addr + of_nat ?k * 512" ?m] less.prems sub add pos by simp
      also have "copy_bytes ?m (addr + of_nat ?k * 512) (image_bytes img ((unat lba + ?k) * 512) ((unat count - ?k) * 512)) =
          copy_bytes m addr (image_bytes img (unat lba * 512) (unat count * 512))"
      proof -
        have c: "unat count * 512 = ?k * 512 + (unat count - ?k) * 512" unfolding add_mult_distrib [symmetric] by simp
        have "image_bytes img (unat lba * 512) (unat count * 512) =
            image_bytes img (unat lba * 512) (?k * 512) @ image_bytes img (unat lba * 512 + ?k * 512) ((unat count - ?k) * 512)"
          unfolding image_bytes_append c [symmetric] by (rule refl)
        then show ?thesis by (simp add: copy_bytes_append add_mult_distrib)
      qed
      finally show ?thesis using st lo by simp
    qed
  qed
qed

text \<open>Both parsers read every entry of an encoded table back.\<close>

lemma get_partition_encoded:
  assumes "chs_ok es" "i < length es" "16 * length es < 2 ^ 32"
  shows "get_partition (encode_table es) (of_nat i) = Inr (fst (es ! i))"
    and "get_partition_table_entry (encode_table es) (of_nat i) = Inr (fst (es ! i))"
proof -
  obtain e a b where x: "es ! i = (e, a, b)" by (cases "es ! i")
  then have l: "length a = 3" "length b = 3" using assms(1,2) by (force simp: chs_ok_def dest: nth_mem)+
  have d: "drop (16 * i) (encode_table es) = encode_partition e a b @ encode_table (drop (Suc i) es)"
    unfolding drop_encode_table [OF assms(1)] using assms(2) x by (simp add: Cons_nth_drop_Suc [symmetric] encode_table_def)
  then have "16 * i \<le> length (encode_table es)"
    by (cases "16 * i \<le> length (encode_table es)") (auto simp: encode_partition_def)
  then have g: "get_from (encode_table es) (16 * i) = Some (encode_partition e a b @ encode_table (drop (Suc i) es))"
    using d by (simp add: get_from_def)
  have u: "unat (of_nat i :: u32) = i" using assms(2,3) by (simp add: unat_of_nat)
  have o: "op_mul (of_nat i :: u32) 16 = Inr (of_nat i * 16)" "unat (of_nat i * 16 :: u32) = 16 * i"
    using assms(2,3) u by (simp_all add: op_mul_def unat_word_ariths)
  have le: "from_le_bytes (to_le_bytes 4 w) = w" for w :: u32 by (rule from_to_le_bytes) simp
  have "e = PartitionTableEntry_new ((if bootable e then 0x80 else 0) = (0x80 :: u8)) (partition_type e) (logical_block_address e) (sector_count e)"
    by (simp add: PartitionTableEntry_new_def)
  then have "get_partition (encode_table es) (of_nat i) = Inr e" "get_partition_table_entry (encode_table es) (of_nat i) = Inr e"
    using o g encoded_fields [OF l] by (simp_all add: get_partition_def get_partition_table_entry_def unwrap_or_fail_def le)
  then show "get_partition (encode_table es) (of_nat i) = Inr (fst (es ! i))"
    "get_partition_table_entry (encode_table es) (of_nat i) = Inr (fst (es ! i))"
    using x by simp_all
qed

section \<open>Properties\<close>

text \<open>
  C33. The partition table: whatever entries a table encodes, both parsers, the one of stage 1 and the one
  of stage 2, read them back; and on every table, well-formed or not, the two parsers agree, for every index
  whose offset does not wrap.
\<close>

theorem partition_table_roundtrip:
  assumes "chs_ok es" "i < length es" "16 * length es < 2 ^ 32"
  shows "get_partition (encode_table es) (of_nat i) = Inr (fst (es ! i)) \<and>
     get_partition_table_entry (encode_table es) (of_nat i) = Inr (fst (es ! i)) \<and>
     (\<forall>table k e. unat k < 2 ^ 28 \<longrightarrow> (get_partition table k = Inr e \<longleftrightarrow> get_partition_table_entry table k = Inr e))"
proof -
  have "get_partition table k = Inr e \<longleftrightarrow> get_partition_table_entry table k = Inr e" if "unat k < 2 ^ 28" for table k e
  proof -
    have "op_mul k 16 = Inr (k * 16)" using that by (simp add: op_mul_def)
    then show ?thesis
      unfolding get_partition_def get_partition_table_entry_def unwrap_or_fail_def expect_def mbind_def rbind_def Let_def
      by (auto split: option.splits)
  qed
  with get_partition_encoded [OF assms] show ?thesis by blast
qed

theorem partition_table_roundtrip_witness:
  "get_partition (encode_table [(PartitionTableEntry_default, [0, 0, 0], [0, 0, 0]),
       (\<lparr>bootable = True, partition_type = 0xc, logical_block_address = 2048, sector_count = 4096\<rparr>, [1, 2, 3], [4, 5, 6])]) 1 =
     Inr \<lparr>bootable = True, partition_type = 0xc, logical_block_address = 2048, sector_count = 4096\<rparr>"
  using partition_table_roundtrip [of "[(PartitionTableEntry_default, [0, 0, 0], [0, 0, 0]),
       (\<lparr>bootable = True, partition_type = 0xc, logical_block_address = 2048, sector_count = 4096\<rparr>, [1, 2, 3], [4, 5, 6])]" 1]
  by (simp add: chs_ok_def)

text \<open>
  C13. Stage 1: when the partition table has a first entry, \<open>first_stage\<close> ends. If no packet of 32 sectors
  starts at or above 1 MiB it jumps to stage 2, with the disk number and the address of the partition
  table as arguments and all sectors of the partition, in their order, at the place of stage 2, and nothing
  else in memory changed; otherwise it stops with the character \<open>o\<close> and never jumps.
\<close>

theorem first_stage_loads:
  assumes "bios_reads B img" "get_partition (map (\<lambda>i. m (table + of_nat i)) [0 ..< 4 * 16]) 0 = Inr pte"
  shows "first_stage B table start disk m =
     (if packets_fit start (unat (sector_count pte))
      then Inr (start, disk, table, copy_bytes m start
             (image_bytes img (unat (logical_block_address pte) * 512) (unat (sector_count pte) * 512)))
      else Inl (Fail 0x6f))"
proof -
  have u: "unat (ucast x :: u64) = unat x" "unat x < 2 ^ 32" for x :: u32
    using unat_less_exp [of x] by (simp_all add: unsigned_ucast_eq take_bit_nat_eq_self)
  have "unat (ucast (logical_block_address pte) :: u64) + unat (sector_count pte) < 2 ^ 64"
    using u(2) [of "logical_block_address pte"] u(2) [of "sector_count pte"] by (simp add: u(1))
  from first_stage_loop_correct [OF assms(1) this] assms(2) show ?thesis by (simp add: first_stage_def u(1))
qed

definition example_boot_memory :: memory where
  "example_boot_memory a = (if a = 0x7dc6 then 1 else if a = 0x7dca then 2 else 0)"

theorem first_stage_loads_witness:
  "\<exists>m. first_stage (image_bios (\<lambda>i. of_nat (i div 512))) 0x7dbe 0x7e00 0x80 example_boot_memory = Inr (0x7e00, 0x80, 0x7dbe, m) \<and>
     m 0x8000 = 2 \<and> m 0x7dc6 = 1"
proof -
  have "get_partition (map (\<lambda>i. example_boot_memory (0x7dbe + of_nat i)) [0 ..< 4 * 16]) 0 = Inr \<lparr>bootable = False, partition_type = 0,
      logical_block_address = 1, sector_count = 2\<rparr>"
    by (simp add: get_partition_def op_mul_def unwrap_or_fail_def get_from_def get_nth_def get_to_def drop_map take_map example_boot_memory_def
        PartitionTableEntry_new_def upt_rec)
  note l = first_stage_loads [OF image_bios_reads this, of "\<lambda>i. of_nat (i div 512)" "0x7e00" "0x80"]
  have v: "example_boot_memory 0x7dc6 = 1" by (simp add: example_boot_memory_def)
  let ?b = "image_bytes (\<lambda>i. of_nat (i div 512) :: u8) 512 1024"
  have "copy_bytes example_boot_memory 0x7e00 ?b (0x7e00 + of_nat 512) = ?b ! 512" by (rule copy_bytes_inside) simp_all
  moreover have "copy_bytes example_boot_memory 0x7e00 ?b 0x7dc6 = example_boot_memory 0x7dc6"
  proof (rule copy_bytes_outside)
    fix i assume "i < length ?b"
    then have "unat (0x7e00 + of_nat i :: u32) = 0x7e00 + i" by (simp add: unat_word_ariths unat_of_nat)
    then show "0x7dc6 \<noteq> (0x7e00 + of_nat i :: u32)" by (auto simp: word_unat_eq_iff)
  qed
  ultimately show ?thesis using l by (simp add: packets_fit_def nth_image_bytes v)
qed

end
