(* ===== verification/Fat_Termination.thy ===== *)
theory Fat_Termination
  imports Fat_Correct
begin

text \<open>
  Loading a file ends on every disk. The cluster chain of a damaged volume may be cyclic, and
  \<open>try_load_file\<close> does not notice; but every turn adds the sectors of a cluster to a counter of 32 bits
  whose product with the sector size is checked for overflow, so that after 4 GiB at the latest the
  loop panics. No assumption is made about the contents of the disk or about the BIOS.
\<close>

section \<open>No turn diverges\<close>

lemma op_not_Diverges [simp]:
  "op_add a b \<noteq> Inl Diverges" "op_sub a b \<noteq> Inl Diverges" "op_mul a b \<noteq> Inl Diverges" "op_div a b \<noteq> Inl Diverges"
  "rassert c \<noteq> Inl Diverges" "index_get xs i \<noteq> Inl Diverges" "slice xs i j \<noteq> Inl Diverges" "overwrite ys i zs \<noteq> Inl Diverges"
  "bios_transfer ba ys q zs \<noteq> Inl Diverges"
  by (auto simp: op_add_def op_sub_def op_mul_def op_div_def rassert_def index_get_def slice_def overwrite_def bios_transfer_def)

lemma read_sectors_loop_not_Diverges: "read_sectors_loop B dn ss ba n addr lba buf \<noteq> Inl Diverges"
proof (induction B dn ss ba n addr lba buf rule: read_sectors_loop.induct)
  case (1 B dn ss ba n addr lba buf)
  show ?case
    by (subst read_sectors_loop.simps)
       (use 1 in \<open>auto simp: rbind_eq_Inl Let_def DiskAddressPacket_new_def DiskAddressPacket_load_def split: if_splits option.splits\<close>)
qed

lemma read_sectors_loop_length: "read_sectors_loop B dn ss ba n addr lba buf = Inr buf' \<Longrightarrow> length buf' = length buf"
proof (induction B dn ss ba n addr lba buf arbitrary: buf' rule: read_sectors_loop.induct)
  case (1 B dn ss ba n addr lba buf)
  show ?case
  proof (cases "n = 0")
    case True
    with 1(2) show ?thesis by (subst (asm) read_sectors_loop.simps) simp
  next
    case False
    with 1(2) obtain packet bytes buf1 lba1 step addr1 where
      s: "DiskAddressPacket_new addr (of_nat (min n 32)) lba = Inr packet" "DiskAddressPacket_load B dn packet = Inr bytes"
        "bios_transfer ba buf packet bytes = Inr buf1" "op_add lba (of_nat (min n 32)) = Inr lba1"
        "op_mul (of_nat (min n 32)) ss = Inr step" "op_add addr step = Inr addr1"
        "read_sectors_loop B dn ss ba (n - min n 32) addr1 lba1 buf1 = Inr buf'"
      by (subst (asm) read_sectors_loop.simps) (auto simp: rbind_eq_Inr Let_def)
    have "length buf1 = length buf" using s(3) by (auto simp: bios_transfer_def overwrite_def split: if_splits)
    with 1(1) [OF False refl s(1-6) s(7)] show ?thesis by simp
  qed
qed

lemma DiskAccess_read_sectors_ends:
  "DiskAccess_read_sectors B d n a buf \<noteq> Inl Diverges"
  "DiskAccess_read_sectors B d n a buf = Inr (buf', d') \<Longrightarrow> length buf' = length buf \<and> same_disk d d'"
  by (auto simp: DiskAccess_read_sectors_def rbind_eq_Inl rbind_eq_Inr read_sectors_loop_not_Diverges same_disk_def
      dest!: read_sectors_loop_length split: if_splits)

lemma DiskAccess_seek_ends:
  "DiskAccess_seek d p \<noteq> Inl Diverges" "DiskAccess_seek d p = Inr d' \<Longrightarrow> same_disk d d'"
  by (auto simp: DiskAccess_seek_def rbind_eq_Inl rbind_eq_Inr same_disk_def split: SeekFrom.splits if_splits)

lemma read_fat_bytes_ends: "read_fat_bytes B env d t off n \<noteq> Inl Diverges"
  by (auto simp: read_fat_bytes_def rbind_eq_Inl DiskAccess_seek_ends DiskAccess_read_bytes_def DiskAccess_read_def Let_def
      DiskAccess_read_sectors_ends split: if_splits)

lemma get_entry_ends: "get_entry B env d t c \<noteq> Inl Diverges"
  by (auto simp: get_entry_def rbind_eq_Inl read_fat_bytes_ends Let_def split: FatType.splits)

lemma geometry_ends:
  "root_dir_sectors b \<noteq> Inl Diverges" "first_data_sector b \<noteq> Inl Diverges" "count_of_clusters b \<noteq> Inl Diverges"
  "fat_type b \<noteq> Inl Diverges" "first_root_dir_sector b \<noteq> Inl Diverges" "root_dir_size b \<noteq> Inl Diverges"
  "first_cluster_sector b c \<noteq> Inl Diverges"
proof -
  show r: "root_dir_sectors b \<noteq> Inl Diverges" by (auto simp: root_dir_sectors_def rbind_eq_Inl)
  then show f: "first_data_sector b \<noteq> Inl Diverges" by (auto simp: first_data_sector_def rbind_eq_Inl)
  show "count_of_clusters b \<noteq> Inl Diverges" using r by (auto simp: count_of_clusters_def rbind_eq_Inl Let_def)
  then show "fat_type b \<noteq> Inl Diverges" by (auto simp: fat_type_def rbind_eq_Inl)
  show "first_root_dir_sector b \<noteq> Inl Diverges" using r f by (auto simp: first_root_dir_sector_def rbind_eq_Inl)
  show "root_dir_size b \<noteq> Inl Diverges" by (auto simp: root_dir_size_def)
  show "first_cluster_sector b c \<noteq> Inl Diverges" using f by (auto simp: first_cluster_sector_def rbind_eq_Inl)
qed

lemma next_cluster_ends: "next_cluster B env it \<noteq> Inl Diverges"
  by (auto simp: next_cluster_def rbind_eq_Inl get_entry_ends geometry_ends split: FatEntry.splits)

lemma load_sectors_ends:
  assumes "sector_size d = 512" "length buf = 4096"
  shows "load_sectors B ba dest n d buf m tot \<noteq> Inl Diverges \<and>
    (\<forall>d' buf' m' tot'. load_sectors B ba dest n d buf m tot = Inr (d', buf', m', tot') \<longrightarrow>
       same_disk d d' \<and> length buf' = 4096 \<and> unat tot' = unat tot + n \<and> (0 < n \<longrightarrow> unat tot' < 2 ^ 23 + 8))"
  using assms
proof (induction n arbitrary: d buf m tot rule: less_induct)
  case (less n)
  show ?case
  proof (cases "n = 0")
    case True
    with less.prems show ?thesis by (subst load_sectors.simps, subst load_sectors.simps) simp
  next
    case False
    define k where "k = min n 8"
    have k: "0 < k" "k \<le> n" "k \<le> 8" using False by (simp_all add: k_def)
    have uk: "unat (of_nat k :: u32) = k" using k by (simp add: unat_of_nat)
    have kk: "min n (length buf div unat (sector_size d)) = k" using less.prems by (simp add: k_def)
    have ne: "sector_size d \<noteq> 0" "k \<noteq> 0" using less.prems(1) k(1) by simp_all
    have step: "load_sectors B ba dest n d buf m tot =
        rbind (DiskAccess_read_sectors B d (of_nat k) ba buf) (\<lambda>(buffer, disk).
          rbind (op_mul tot (sector_size disk)) (\<lambda>done_bytes.
          rbind (op_mul (of_nat k) (sector_size disk)) (\<lambda>n'.
          let m = copy_bytes m (dest + done_bytes) (take (unat n') buffer) in
          rbind (op_add tot (of_nat k)) (\<lambda>tot.
          load_sectors B ba dest (n - k) disk buffer m tot))))"
      unfolding load_sectors.simps [of B ba dest n d] kk Let_def using False ne by (simp only: if_False)
    show ?thesis
    proof (cases "DiskAccess_read_sectors B d (of_nat k) ba buf")
      case (Inl e)
      with step DiskAccess_read_sectors_ends(1) show ?thesis by (auto simp: rbind_eq_Inl)
    next
      case (Inr x)
      obtain buf1 d1 where x: "x = (buf1, d1)" by (cases x)
      have 1: "length buf1 = 4096" "same_disk d d1"
        using DiskAccess_read_sectors_ends(2) [OF Inr [unfolded x]] less.prems(2) by auto
      then have ss: "sector_size d1 = 512" using less.prems(1) same_disk_fields by metis
      have IH: "load_sectors B ba dest (n - k) d1 buf1 m1 t \<noteq> Inl Diverges \<and>
          (\<forall>d' buf' m' tot'. load_sectors B ba dest (n - k) d1 buf1 m1 t = Inr (d', buf', m', tot') \<longrightarrow>
             same_disk d1 d' \<and> length buf' = 4096 \<and> unat tot' = unat t + (n - k) \<and> (0 < n - k \<longrightarrow> unat tot' < 2 ^ 23 + 8))" for m1 t
        using k False ss 1(1) by (intro less.IH) simp_all
      have sd: "same_disk d d'" if "same_disk d1 d'" for d' using 1(2) that by (auto simp: same_disk_def)
      show ?thesis
      proof (cases "op_add tot (of_nat k)")
        case (Inl e)
        then have "e \<noteq> Diverges" using op_not_Diverges(1) by blast
        then show ?thesis unfolding step Inr x by (auto simp: rbind_eq_Inl rbind_eq_Inr Let_def Inl)
      next
        case (Inr t)
        then have t: "unat t = unat tot + k" using uk by (auto simp: op_add_eq_Inr)
        have lt: "unat tot < 2 ^ 23" if "op_mul tot (sector_size d1) = Inr z" for z
          using that ss unat_less_exp [of z] by (auto simp: op_mul_eq_Inr)
        show ?thesis
        proof (cases "op_mul tot (sector_size d1)")
          case (Inl e)
          then have "e \<noteq> Diverges" using op_not_Diverges(3) by blast
          then show ?thesis unfolding step \<open>DiskAccess_read_sectors B d (of_nat k) ba buf = Inr x\<close> x by (simp add: Inl)
        next
          case (Inr z)
          then have z: "unat tot < 2 ^ 23" by (rule lt)
          have "op_mul (of_nat k) (sector_size d1) = Inr (of_nat k * 512)"
            using uk k(3) ss by (simp add: op_mul_def)
          then have eq: "load_sectors B ba dest n d buf m tot =
              load_sectors B ba dest (n - k) d1 buf1 (copy_bytes m (dest + z) (take (unat (of_nat k * 512 :: u32)) buf1)) t"
            unfolding step \<open>DiskAccess_read_sectors B d (of_nat k) ba buf = Inr x\<close> x
            by (simp add: Inr \<open>op_add tot (of_nat k) = Inr t\<close>)
          have last: "unat tot' < 2 ^ 23 + 8" if "unat tot' = unat t + (n - k)" "\<not> 0 < n - k" for tot' :: u32
            using that z t k by simp
          have tn: "unat t + (n - k) = unat tot + n" using t k(2) by simp
          show ?thesis
            unfolding eq
          proof (intro conjI allI impI)
            fix d' buf' m' tot'
            assume "load_sectors B ba dest (n - k) d1 buf1 (copy_bytes m (dest + z) (take (unat (of_nat k * 512 :: u32)) buf1)) t = Inr (d', buf', m', tot')"
            then have r: "same_disk d1 d'" "length buf' = 4096" "unat tot' = unat t + (n - k)" "0 < n - k \<Longrightarrow> unat tot' < 2 ^ 23 + 8"
              using IH by blast+
            show "same_disk d d'" using sd r(1) .
            show "length buf' = 4096" by (fact r(2))
            show "unat tot' = unat tot + n" using r(3) tn by (rule trans)
            show "unat tot' < 2 ^ 23 + 8" using last [OF r(3)] r(4) by blast
          qed (use IH in blast)
        qed
      qed
    qed
  qed
qed

lemma load_clusters_ends:
  assumes "sector_size d = 512" "512 \<le> unat (cluster_size d)" "length buf = 4096"
    and "unat tot < 2 ^ 23 + 8" "2 ^ 23 + 8 < fuel + unat tot"
  shows "load_clusters fuel B env dest it d buf m tot \<noteq> Inl Diverges"
  using assms
proof (induction fuel arbitrary: env it d buf m tot)
  case 0
  then show ?case by simp
next
  case (Suc fuel)
  show ?case
  proof (cases "next_cluster B env it")
    case (Inl e)
    then have "e \<noteq> Diverges" using next_cluster_ends by blast
    then show ?thesis by (simp add: Inl)
  next
    case (Inr x)
    obtain c env1 it1 where x: "x = (c, env1, it1)" by (cases x)
    show ?thesis
    proof (cases "\<exists>cl. c = Inr (Some cl)")
      case False
      then show ?thesis by (auto simp: Inr x split: sum.splits option.splits)
    next
      case True
      then obtain cl where cl: "c = Inr (Some cl)" by blast
      show ?thesis
      proof (cases "DiskAccess_seek d (StartInSectors (ucast (cluster_start_sector cl)))")
        case (Inl e)
        then have "e \<noteq> Diverges" using DiskAccess_seek_ends(1) by blast
        then show ?thesis by (simp add: Inr x cl Inl)
      next
        case (Inr d1)
        then have d1: "sector_size d1 = 512" "512 \<le> unat (cluster_size d1)"
          using same_disk_fields [OF DiskAccess_seek_ends(2) [OF Inr]] Suc.prems(1,2) by simp_all
        define n where "n = cluster_size d1 div 512"
        have n: "sectors_per_cluster_of d1 = Inr n" "0 < unat n"
          using d1 by (simp_all add: sectors_per_cluster_of_def op_div_def n_def unat_div_distrib div_greater_zero_iff)
        note l = load_sectors_ends [OF d1(1) Suc.prems(3), of B "file_buffer_address env1" dest "unat n" m tot]
        show ?thesis
        proof (cases "load_sectors B (file_buffer_address env1) dest (unat n) d1 buf m tot")
          case (Inl e)
          with l have "e \<noteq> Diverges" by simp
          then show ?thesis by (simp add: \<open>next_cluster B env it = Inr x\<close> x cl Inr n Inl)
        next
          case (Inr y)
          obtain d2 buf2 m2 t2 where y: "y = (d2, buf2, m2, t2)" by (cases y)
          with l Inr have 2: "same_disk d1 d2" "length buf2 = 4096" "unat t2 = unat tot + unat n" "unat t2 < 2 ^ 23 + 8"
            using n(2) by auto
          have "load_clusters fuel B env1 dest it1 d2 buf2 m2 t2 \<noteq> Inl Diverges"
            using same_disk_fields [OF 2(1)] d1 2 n(2) Suc.prems(5) by (intro Suc.IH) auto
          then show ?thesis
            by (simp add: \<open>next_cluster B env it = Inr x\<close> x cl n Inr y
                \<open>DiskAccess_seek d (StartInSectors (ucast (cluster_start_sector cl))) = Inr d1\<close>)
        qed
      qed
    qed
  qed
qed

lemma load_clusters_mono:
  "load_clusters fuel B env dest it d buf m tot \<noteq> Inl Diverges \<Longrightarrow> fuel \<le> fuel' \<Longrightarrow>
     load_clusters fuel' B env dest it d buf m tot = load_clusters fuel B env dest it d buf m tot"
proof (induction fuel arbitrary: fuel' env it d buf m tot)
  case 0
  then show ?case by simp
next
  case (Suc fuel)
  then obtain f where f: "fuel' = Suc f" "fuel \<le> f" by (cases fuel') auto
  show ?case
    using Suc.prems(1) unfolding f(1) load_clusters.simps
    by (intro rbind_cong refl) (auto simp: rbind_eq_Inl intro!: rbind_cong Suc.IH f(2) split: sum.splits option.splits)
qed

section \<open>The directory\<close>

lemma parse_long_name_ends: "parse_long_name i name raw \<noteq> Inl Diverges"
proof (induction i name raw rule: parse_long_name.induct)
  case (1 i name raw)
  show ?case
    by (subst parse_long_name.simps)
       (use 1 in \<open>auto simp: rbind_eq_Inl Let_def long_name_part_def append_name_def entry_location_def le_field_def split: if_splits\<close>)
qed

lemma next_entry_ends: "next_entry buf offset \<noteq> Inl Diverges"
  by (auto simp: next_entry_def DirectoryEntry_parse_def rbind_eq_Inl parse_long_name_ends entry_location_def le_field_def
      split: if_splits)

lemma RootDirIter_next_ends: "RootDirIter_next buf offset \<noteq> Inl Diverges"
proof (induction buf offset rule: RootDirIter_next.induct)
  case (1 buf offset)
  show ?case
    by (subst RootDirIter_next.simps)
       (use 1 next_entry_ends in \<open>auto simp: rbind_eq_Inl split: DirectoryEntry.splits prod.splits\<close>)
qed

lemma find_entry_ends: "find_entry buf offset name \<noteq> Inl Diverges"
proof (induction buf offset name rule: find_entry.induct)
  case (1 buf offset name)
  show ?case
    by (subst find_entry.simps)
       (use 1 RootDirIter_next_ends in \<open>auto simp: rbind_eq_Inl split: option.splits prod.splits if_splits\<close>)
qed

lemma find_file_ends:
  "find_file_in_root_dir B env fs name \<noteq> Inl Diverges"
  "find_file_in_root_dir B env fs name = Inr (f, fs') \<Longrightarrow> fs_bpb fs' = fs_bpb fs \<and> same_disk (fs_disk fs) (fs_disk fs')"
proof -
  have "read_root_dir B env fs buf \<noteq> Inl Diverges" for buf
    by (auto simp: read_root_dir_def rbind_eq_Inl geometry_ends DiskAccess_seek_ends DiskAccess_read_def
        DiskAccess_read_sectors_ends split: if_splits)
  then show "find_file_in_root_dir B env fs name \<noteq> Inl Diverges"
    by (auto simp: find_file_in_root_dir_def rbind_eq_Inl find_entry_ends)
  show "fs_bpb fs' = fs_bpb fs \<and> same_disk (fs_disk fs) (fs_disk fs')" if "find_file_in_root_dir B env fs name = Inr (f, fs')"
  proof -
    from that obtain buf where rd: "read_root_dir B env fs (replicate (DEFAULT_SECTOR_SIZE * ROOT_DIR_ENTRY_SIZE) 0) = Inr (buf, fs')"
      by (auto simp: find_file_in_root_dir_def rbind_eq_Inr)
    then obtain p d1 n d2 where d: "DiskAccess_seek (fs_disk fs) p = Inr d1"
        "DiskAccess_read_sectors B d1 n (root_buffer_address env) (replicate (DEFAULT_SECTOR_SIZE * ROOT_DIR_ENTRY_SIZE) 0) = Inr (buf, d2)"
        "fs' = fs\<lparr>fs_disk := d2\<rparr>"
      by (auto simp: read_root_dir_def DiskAccess_read_def rbind_eq_Inr split: if_splits)
    from DiskAccess_seek_ends(2) [OF d(1)] DiskAccess_read_sectors_ends(2) [OF d(2)] d(3) show ?thesis
      by (auto simp: same_disk_def)
  qed
qed


section \<open>Mounting and loading\<close>

lemma FATFileSystem_parse_sizes:
  assumes "FATFileSystem_parse B env d = Inr (fs, env')"
  shows "sector_size (fs_disk fs) = 512" "cluster_size (fs_disk fs) = 512 * ucast (sectors_per_cluster (fs_bpb fs))"
proof -
  from assms obtain b d' csize where p: "unat (bytes_per_sector b) = 512" "bytes_per_cluster b = Inr csize"
      "fs = \<lparr>fs_disk = d'\<lparr>sector_size := ucast (bytes_per_sector b), cluster_size := csize\<rparr>, fs_bpb = b\<rparr>"
    by (auto simp: FATFileSystem_parse_def rbind_eq_Inr rassert_def DEFAULT_SECTOR_SIZE_def split: if_splits)
  then have "bytes_per_sector b = 512" by (simp add: word_unat_eq_iff)
  with p show "sector_size (fs_disk fs) = 512" "cluster_size (fs_disk fs) = 512 * ucast (sectors_per_cluster (fs_bpb fs))"
    by (auto simp: bytes_per_cluster_def op_mul_eq_Inr)
qed

lemma fat_type_sectors: "fat_type b = Inr t \<Longrightarrow> sectors_per_cluster b \<noteq> 0"
  by (auto simp: fat_type_def count_of_clusters_def rbind_eq_Inr op_div_def Let_def split: if_splits)

lemma FileIter_new_ends: "FileIter_new d c b \<noteq> Inl Diverges"
  by (auto simp: FileIter_new_def FileAllocationTable_new_def rbind_eq_Inl geometry_ends)

lemma size_in_sectors_ends: "size_in_sectors f \<noteq> Inl Diverges"
  by (auto simp: size_in_sectors_def rbind_eq_Inl)

lemma cluster_size_bound:
  assumes "(s :: u8) \<noteq> 0"
  shows "512 \<le> unat (512 * ucast s :: u32)"
proof -
  have "unat s < 2 ^ 8" "unat s \<noteq> 0" using unat_less_exp [of s] assms by (simp_all add: unat_eq_zero)
  then have "unat (512 * ucast s :: u32) = 512 * unat s" by (simp add: unat_word_ariths unat_ucast_up)
  with \<open>unat s \<noteq> 0\<close> show ?thesis by simp
qed

lemma try_load_file_ends:
  assumes "sector_size (fs_disk fs) = 512" "cluster_size (fs_disk fs) = 512 * ucast (sectors_per_cluster (fs_bpb fs))"
    and "2 ^ 23 + 8 < fuel"
  shows "try_load_file fuel B env fs name dest m \<noteq> Inl Diverges \<and>
    (\<forall>fuel' \<ge> fuel. try_load_file fuel' B env fs name dest m = try_load_file fuel B env fs name dest m)"
proof (cases "find_file_in_root_dir B env fs name")
  case (Inl e)
  then have "e \<noteq> Diverges" using find_file_ends(1) by blast
  with Inl show ?thesis by (simp add: try_load_file_def)
next
  case (Inr x)
  obtain f fs1 where x: "x = (f, fs1)" by (cases x)
  note fs1 = find_file_ends(2) [OF Inr [unfolded x]]
  show ?thesis
  proof (cases f)
    case None
    with Inr x show ?thesis by (simp add: try_load_file_def)
  next
    case (Some f1)
    show ?thesis
    proof (cases "FileIter_new (fs_disk fs1) (start_sector f1) (fs_bpb fs1)")
      case (Inl e)
      then have "e \<noteq> Diverges" using FileIter_new_ends by blast
      with Inl Inr x Some show ?thesis by (simp add: try_load_file_def)
    next
      case it: (Inr it)
      then have "sectors_per_cluster (fs_bpb fs1) \<noteq> 0"
        by (auto simp: FileIter_new_def rbind_eq_Inr dest: fat_type_sectors)
      then have c: "sector_size (fs_disk fs1) = 512" "512 \<le> unat (cluster_size (fs_disk fs1))"
        using fs1 same_disk_fields assms(1,2) cluster_size_bound by auto
      have l: "load_clusters fuel B env dest it (fs_disk fs1) (replicate 4096 0) m 0 \<noteq> Inl Diverges"
        using load_clusters_ends [OF c] assms(3) by simp
      then have r: "load_clusters fuel' B env dest it (fs_disk fs1) (replicate 4096 0) m 0 =
          load_clusters fuel B env dest it (fs_disk fs1) (replicate 4096 0) m 0" if "fuel \<le> fuel'" for fuel'
        using load_clusters_mono that by blast
      have t: "try_load_file k B env fs name dest m =
          rbind (load_clusters k B env dest it (fs_disk fs1) (replicate 4096 0) m 0) (\<lambda>(r, env, it, m).
            case r of
              Inl e \<Rightarrow> Inr (Inl e, env, fs1\<lparr>fs_disk := iter_disk it\<rparr>, m)
            | Inr total_sectors_read \<Rightarrow>
                rbind (size_in_sectors f1) (\<lambda>n.
                Inr (if total_sectors_read < n then Inl FileReadError else Inr (file_len f1),
                     env, fs1\<lparr>fs_disk := iter_disk it\<rparr>, m)))" for k
        by (simp add: try_load_file_def Inr x Some it DEFAULT_SECTOR_SIZE_def)
      have "try_load_file fuel B env fs name dest m \<noteq> Inl Diverges"
        unfolding t using l size_in_sectors_ends [of f1] by (auto simp: rbind_eq_Inl split: sum.splits)
      moreover have "try_load_file fuel' B env fs name dest m = try_load_file fuel B env fs name dest m" if "fuel \<le> fuel'" for fuel'
        unfolding t r [OF that] ..
      ultimately show ?thesis by blast
    qed
  qed
qed

text \<open>
  C8. Loading a file from a mounted volume ends on every disk, whatever the BIOS reads: no cluster
  chain, cyclic ones included, keeps \<open>try_load_file\<close> running for more than \<open>2^23 + 9\<close> turns of its
  loop over the clusters, and with that many turns the result is final.
\<close>

theorem try_load_file_terminates:
  assumes "FATFileSystem_parse B env0 d = Inr (fs, env)" "2 ^ 23 + 8 < fuel"
  shows "try_load_file fuel B env fs name dest m \<noteq> Inl Diverges \<and>
    (\<forall>fuel' \<ge> fuel. try_load_file fuel' B env fs name dest m = try_load_file fuel B env fs name dest m)"
  using try_load_file_ends [OF FATFileSystem_parse_sizes [OF assms(1)] assms(2)] .

lemma BiosParameterBlock_parse_image:
  assumes "bios_reads B img" "disk_ok d" "buffers_ok env"
    and "parse_bpb_sector (image_bytes img (unat (base_offset d)) 512) = Inr b"
  shows "\<exists>env' d'. BiosParameterBlock_parse B env d = Inr (b, env', d') \<and> same_disk d d' \<and> buffers_ok env'"
proof -
  let ?d = "d\<lparr>disk_offset := 0\<rparr>"
  have "disk_ok ?d" using assms(2) by (simp add: disk_ok_def)
  from read_bytes_image [OF assms(1) this, of "tmp_address env" "tmp_buffer env" 512] assms(3)
  obtain tmp' where "length tmp' = 1024" "DiskAccess_read_bytes B (tmp_address env) (tmp_buffer env) ?d 512 =
      Inr (image_bytes img (unat (base_offset d)) 512, tmp', ?d\<lparr>disk_offset := base_offset d + 1024\<rparr>)"
    by (auto simp: buffers_ok_def)
  with assms(3,4) show ?thesis
    by (simp add: BiosParameterBlock_parse_def DiskAccess_seek_def DEFAULT_SECTOR_SIZE_def buffers_ok_def)
qed

lemma FATFileSystem_parse_image:
  assumes "bios_reads B img" "disk_ok d" "buffers_ok env"
    and "parse_bpb_sector (image_bytes img (unat (base_offset d)) 512) = Inr b"
    and "bpb_ok b" "volume_type b \<noteq> Fat32" "root_entry_count b = 512"
  shows "\<exists>fs env'. FATFileSystem_parse B env d = Inr (fs, env') \<and> fs_ok fs \<and> fs_bpb fs = b \<and>
     base_offset (fs_disk fs) = base_offset d \<and> buffers_ok env'"
proof -
  obtain env' d' where p: "BiosParameterBlock_parse B env d = Inr (b, env', d')" "same_disk d d'" "buffers_ok env'"
    using BiosParameterBlock_parse_image [OF assms(1-4)] by blast
  have b: "bytes_per_sector b = 512" using assms(5) by (simp add: bpb_ok_def)
  have "unat (sectors_per_cluster b) < 2 ^ 8" using unat_less_exp [of "sectors_per_cluster b"] by simp
  then have "bytes_per_cluster b = Inr (512 * ucast (sectors_per_cluster b))"
    using b by (simp add: bytes_per_cluster_def op_mul_def unat_ucast_up)
  with p b assms(2,5-7) show ?thesis
    by (auto simp: FATFileSystem_parse_def rassert_def DEFAULT_SECTOR_SIZE_def fs_ok_def volume_ok_def disk_ok_def same_disk_def)
qed

text \<open>The example volume with its boot sector.\<close>

definition boot_image :: "nat \<Rightarrow> u8" where
  "boot_image i =
     (if i = 12 then 2 else if i = 13 \<or> i = 14 \<or> i = 16 then 1 else if i = 18 then 2 else if i = 19 then 40
      else if i = 22 then 1 else example_image i)"

lemma boot_image_bpb: "parse_bpb_sector (image_bytes boot_image 0 512) = Inr example_bpb"
proof -
  have td: "take k (drop i (image_bytes boot_image 0 512)) = image_bytes boot_image i k" if "i + k \<le> 512" for i k
    using that take_drop_image_bytes [of i k 512 boot_image 0] by simp
  note n = nth_image_bytes [of _ 512 boot_image 0]
  have b: "image_bytes boot_image 11 2 = [0, 2]" "image_bytes boot_image 14 2 = [1, 0]" "image_bytes boot_image 17 2 = [0, 2]"
    "image_bytes boot_image 22 2 = [1, 0]" "image_bytes boot_image 19 2 = [40, 0]" "image_bytes boot_image 32 4 = [0, 0, 0, 0]"
    by (simp_all add: image_bytes_def upt_rec boot_image_def example_image_def)
  show ?thesis
    by (simp add: parse_bpb_sector_def n le_field_in td b example_bpb_def boot_image_def index_get_def)
qed

lemma boot_image_parse:
  "\<exists>fs env'. FATFileSystem_parse (image_bios boot_image) example_buffers (fs_disk example_fs) = Inr (fs, env') \<and> fs_ok fs \<and>
     fs_bpb fs = example_bpb \<and> base_offset (fs_disk fs) = 0 \<and> buffers_ok env'"
proof -
  have "bpb_ok example_bpb" by (simp add: bpb_ok_def example_geometry)
  then show ?thesis
    using FATFileSystem_parse_image [OF image_bios_reads [of boot_image] _ example_fs_ok(2), of "fs_disk example_fs" example_bpb]
      boot_image_bpb example_geometry by (simp add: disk_ok_def example_fs_def)
qed

theorem try_load_file_terminates_witness:
  "\<exists>fs env. FATFileSystem_parse (image_bios boot_image) example_buffers (fs_disk example_fs) = Inr (fs, env) \<and>
     try_load_file 8388617 (image_bios boot_image) env fs [65, 66] 0x100000 (\<lambda>_. 0) \<noteq> Inl Diverges"
proof -
  obtain fs env where p: "FATFileSystem_parse (image_bios boot_image) example_buffers (fs_disk example_fs) = Inr (fs, env)"
    using boot_image_parse by blast
  have "try_load_file 8388617 (image_bios boot_image) env fs [65, 66] 0x100000 (\<lambda>_. 0) \<noteq> Inl Diverges"
    by (rule conjunct1 [OF try_load_file_terminates [OF p]]) simp
  with p show ?thesis by blast
qed

end
