(* ===== verification/Vesa.thy ===== *)
theory Vesa
  imports Boot_Info
begin

text \<open>
  The search for a video mode (\<open>stage2/src/vesa.rs\<close>, with the real mode pointers of
  \<open>common/src/realmode.rs\<close>). The video services of the BIOS are a record argument: each gets the block
  it fills and answers the value of \<open>ax\<close> and the block. They write through a segment and an offset; a
  block that is not at that address is memory they destroy. Memory is bytes at 32-bit addresses.
\<close>

section \<open>Real mode pointers\<close>

type_synonym RealModePointer = u32

definition RealModePointer_segment :: "RealModePointer \<Rightarrow> u16" where
  "RealModePointer_segment self = ucast (drop_bit 16 self)"

definition RealModePointer_offset :: "RealModePointer \<Rightarrow> u16" where
  "RealModePointer_offset self = ucast self"

text \<open>The address the processor computes of a segment and an offset.\<close>

definition real_mode_address :: "u16 \<Rightarrow> u16 \<Rightarrow> u32" where
  "real_mode_address segment offset = push_bit 4 (ucast segment) + ucast offset"

section \<open>The information blocks\<close>

definition VESA_SUCCESS :: u16 where "VESA_SUCCESS = 0x004f"

record VbeInfo =
  vbe_signature :: "u8 list"
  vbe_version :: u16
  oem_string_ptr :: RealModePointer
  vbe_capabilities :: u32
  video_mode_array_pointer :: RealModePointer
  total_memory :: u16
  vbe_reserved :: "u8 list"

definition VbeInfo_default :: VbeInfo where
  "VbeInfo_default =
     \<lparr>vbe_signature = replicate 4 0, vbe_version = 0, oem_string_ptr = 0, vbe_capabilities = 0,
      video_mode_array_pointer = 0, total_memory = 0, vbe_reserved = replicate (512 - 0x14) 0\<rparr>"

record VbeModeInfo =
  vm_attributes :: u16
  vm_window_a :: u8
  vm_window_b :: u8
  vm_granularity :: u16
  vm_window_size :: u16
  vm_segment_a :: u16
  vm_segment_b :: u16
  vm_window_function_ptr :: u32
  vm_bytes_per_scanline :: u16
  vm_width :: u16
  vm_height :: u16
  vm_w_char :: u8
  vm_y_char :: u8
  vm_planes :: u8
  vm_bits_per_pixel :: u8
  vm_banks :: u8
  vm_memory_model :: u8
  vm_bank_size :: u8
  vm_image_pages :: u8
  vm_reserved_0 :: u8
  vm_red_mask :: u8
  vm_red_position :: u8
  vm_green_mask :: u8
  vm_green_position :: u8
  vm_blue_mask :: u8
  vm_blue_position :: u8
  vm_reserved_mask :: u8
  vm_reserved_position :: u8
  vm_direct_color_attributes :: u8
  vm_framebuffer :: u32
  vm_off_screen_memory_offset :: u32
  vm_off_screen_memory_size :: u16
  vm_reserved :: "u8 list"

definition VbeModeInfo_default :: VbeModeInfo where
  "VbeModeInfo_default =
     \<lparr>vm_attributes = 0, vm_window_a = 0, vm_window_b = 0, vm_granularity = 0, vm_window_size = 0, vm_segment_a = 0,
      vm_segment_b = 0, vm_window_function_ptr = 0, vm_bytes_per_scanline = 0, vm_width = 0, vm_height = 0, vm_w_char = 0,
      vm_y_char = 0, vm_planes = 0, vm_bits_per_pixel = 0, vm_banks = 0, vm_memory_model = 0, vm_bank_size = 0,
      vm_image_pages = 0, vm_reserved_0 = 0, vm_red_mask = 0, vm_red_position = 0, vm_green_mask = 0, vm_green_position = 0,
      vm_blue_mask = 0, vm_blue_position = 0, vm_reserved_mask = 0, vm_reserved_position = 0,
      vm_direct_color_attributes = 0, vm_framebuffer = 0, vm_off_screen_memory_offset = 0, vm_off_screen_memory_size = 0,
      vm_reserved = replicate 206 0\<rparr>"

text \<open>\<open>int 0x10\<close> with the functions 0x4f00, 0x4f01 and 0x4f02; the last one changes the mode the screen is in.\<close>

record vbe_bios =
  vbe_controller_info :: "VbeInfo \<Rightarrow> u16 \<times> VbeInfo"
  vbe_mode_info :: "u16 \<Rightarrow> VbeModeInfo \<Rightarrow> u16 \<times> VbeModeInfo"
  vbe_set_mode :: "u16 \<Rightarrow> u16"

section \<open>Asking for the blocks\<close>

text \<open>\<open>es\<close> is not set before the call; \<open>obj\<close> is the address of the local variable.\<close>

definition VbeInfo_get :: "vbe_bios \<Rightarrow> u16 \<Rightarrow> u32 \<Rightarrow> (u16 + VbeInfo) res" where
  "VbeInfo_get B es obj =
     (case vbe_controller_info B VbeInfo_default of (ret, info) \<Rightarrow>
        if real_mode_address es (ucast obj) \<noteq> obj then Inl Undefined_Behaviour
        else Inr (if ret = VESA_SUCCESS then Inr info else Inl ret))"

definition VbeModeInfo_get :: "vbe_bios \<Rightarrow> u32 \<Rightarrow> u16 \<Rightarrow> (u16 + VbeModeInfo) res" where
  "VbeModeInfo_get B obj mode =
     (case vbe_mode_info B mode VbeModeInfo_default of (ret, info) \<Rightarrow>
        if real_mode_address (RealModePointer_segment obj) (RealModePointer_offset obj) \<noteq> obj then Inl Undefined_Behaviour
        else Inr (if ret = VESA_SUCCESS then Inr info else Inl ret))"

definition VbeModeInfo_get_pixel_format :: "VbeModeInfo \<Rightarrow> PixelFormat" where
  "VbeModeInfo_get_pixel_format self =
     (if (vm_red_position self, vm_green_position self, vm_blue_position self) = (0, 8, 16) then Rgb
      else if (vm_red_position self, vm_green_position self, vm_blue_position self) = (16, 8, 0) then Bgr
      else Unknown (vm_red_position self) (vm_green_position self) (vm_blue_position self))"

definition VbeModeInfo_to_framebuffer_info :: "VbeModeInfo \<Rightarrow> FramebufferInfo res" where
  "VbeModeInfo_to_framebuffer_info self =
     rbind (op_div (vm_bits_per_pixel self) 8) (\<lambda>bytes_per_pixel.
     rbind (op_mul (ucast (vm_height self)) (ucast (vm_bytes_per_scanline self))) (\<lambda>len.
     let region = PhysicalMemoryRegion_new (ucast (vm_framebuffer self)) len Reserved in
     rbind (op_div (vm_bytes_per_scanline self) (ucast bytes_per_pixel)) (\<lambda>stride.
     Inr (FramebufferInfo_new region (vm_width self) (vm_height self) bytes_per_pixel stride
            (VbeModeInfo_get_pixel_format self)))))"

section \<open>The best mode\<close>

definition read_u16 :: "(u32 \<Rightarrow> u8) \<Rightarrow> u32 \<Rightarrow> u16" where
  "read_u16 m a = ucast (m a) OR push_bit 8 (ucast (m (a + 1)))"

definition VbeInfo_get_mode :: "(u32 \<Rightarrow> u8) \<Rightarrow> VbeInfo \<Rightarrow> nat \<Rightarrow> u16 option res" where
  "VbeInfo_get_mode m self offset =
     rbind (op_shl (ucast (RealModePointer_segment (video_mode_array_pointer self)) :: u32) 4) (\<lambda>segment.
     rbind (op_add segment (ucast (RealModePointer_offset (video_mode_array_pointer self)))) (\<lambda>ptr.
     let mode = read_u16 m (ptr + 2 * of_nat offset) in
     Inr (if mode = 0xffff then None else Some mode)))"

definition abs_diff :: "'a::len word \<Rightarrow> 'a word \<Rightarrow> 'a word" where
  "abs_diff a b = (if a < b then b - a else a - b)"

record best_mode =
  best :: "u16 option"
  best_pix_diff :: u32
  best_depth_diff :: u8

text \<open>The mode has a linear frame buffer and is a packed pixel or direct colour mode.\<close>

definition mode_supported :: "VbeModeInfo \<Rightarrow> bool" where
  "mode_supported info \<longleftrightarrow> vm_attributes info AND 0x90 = 0x90 \<and> (vm_memory_model info = 4 \<or> vm_memory_model info = 6)"

text \<open>
  The body of the loop behind the queries: \<open>Inl\<close> is the early \<open>return\<close>.
\<close>

definition best_mode_turn :: "u16 \<Rightarrow> u16 \<Rightarrow> u8 \<Rightarrow> u16 \<Rightarrow> VbeModeInfo \<Rightarrow> best_mode \<Rightarrow> (u16 + best_mode) res" where
  "best_mode_turn width height depth mode info st =
     (if \<not> mode_supported info then Inr (Inr st)
      else if vm_width info = width \<and> vm_height info = height \<and> vm_bits_per_pixel info = depth then Inr (Inl mode)
      else rbind (op_mul (ucast (vm_width info)) (ucast (vm_height info))) (\<lambda>pixels.
           rbind (op_mul (ucast width) (ucast height)) (\<lambda>wanted.
           let pix_diff = abs_diff pixels wanted;
               depth_diff = abs_diff (vm_bits_per_pixel info) depth in
           Inr (Inr (if best_pix_diff st > pix_diff \<or> best_pix_diff st = pix_diff \<and> best_depth_diff st > depth_diff
                     then \<lparr>best = Some mode, best_pix_diff = pix_diff, best_depth_diff = depth_diff\<rparr> else st)))))"

text \<open>\<open>for i in 0..\<close> over \<open>i32\<close>: the iterator overflows when it has handed out all but the last value.\<close>

function best_mode_loop ::
    "vbe_bios \<Rightarrow> (u32 \<Rightarrow> u8) \<Rightarrow> VbeInfo \<Rightarrow> u32 \<Rightarrow> u16 \<Rightarrow> u16 \<Rightarrow> u8 \<Rightarrow> nat \<Rightarrow> best_mode \<Rightarrow> u16 option res" where
  "best_mode_loop B m self obj width height depth i st =
     (if 2 ^ 31 - 1 \<le> i then Inl Arithmetic_Overflow
      else rbind (VbeInfo_get_mode m self i) (\<lambda>next.
        case next of
          None \<Rightarrow> Inr (best st)
        | Some mode \<Rightarrow>
            rbind (VbeModeInfo_get B obj mode) (\<lambda>r.
            case r of
              Inl c \<Rightarrow> best_mode_loop B m self obj width height depth (Suc i) st
            | Inr info \<Rightarrow>
                rbind (best_mode_turn width height depth mode info st) (\<lambda>t.
                case t of
                  Inl mode \<Rightarrow> Inr (Some mode)
                | Inr st \<Rightarrow> best_mode_loop B m self obj width height depth (Suc i) st))))"
  by pat_completeness auto

termination
  by (relation "measure (\<lambda>(_, _, _, _, _, _, _, i, _). 2 ^ 31 - i)") auto

declare best_mode_loop.simps [simp del]

definition VbeInfo_get_best_mode ::
    "vbe_bios \<Rightarrow> (u32 \<Rightarrow> u8) \<Rightarrow> VbeInfo \<Rightarrow> u32 \<Rightarrow> u16 \<Rightarrow> u16 \<Rightarrow> u8 \<Rightarrow> u16 option res" where
  "VbeInfo_get_best_mode B m self obj width height depth =
     best_mode_loop B m self obj width height depth 0 \<lparr>best = None, best_pix_diff = 0xffffffff, best_depth_diff = 0xff\<rparr>"

definition VbeInfo_set_mode :: "vbe_bios \<Rightarrow> u16 \<Rightarrow> u16 + unit" where
  "VbeInfo_set_mode B mode =
     (let mode = mode OR push_bit 14 1;
          mode = mode AND NOT (push_bit 15 1);
          ret = vbe_set_mode B mode in
      if ret = VESA_SUCCESS then Inr () else Inl ret)"

section \<open>What the search promises\<close>

text \<open>The modes of the array, and what the BIOS knows of a mode that can be used.\<close>

definition mode_array :: "(u32 \<Rightarrow> u8) \<Rightarrow> VbeInfo \<Rightarrow> u16 list \<Rightarrow> bool" where
  "mode_array m self ms \<longleftrightarrow>
     (let a = real_mode_address (RealModePointer_segment (video_mode_array_pointer self)) (RealModePointer_offset (video_mode_array_pointer self)) in
      (\<forall>i < length ms. read_u16 m (a + 2 * of_nat i) = ms ! i) \<and> 0xffff \<notin> set ms \<and>
      read_u16 m (a + 2 * of_nat (length ms)) = 0xffff \<and> length ms < 2 ^ 31 - 1)"

definition usable_mode :: "vbe_bios \<Rightarrow> u16 \<Rightarrow> VbeModeInfo option" where
  "usable_mode B mode =
     (case vbe_mode_info B mode VbeModeInfo_default of (ret, info) \<Rightarrow>
        if ret = VESA_SUCCESS \<and> mode_supported info then Some info else None)"

definition exact_mode :: "u16 \<Rightarrow> u16 \<Rightarrow> u8 \<Rightarrow> VbeModeInfo \<Rightarrow> bool" where
  "exact_mode width height depth info \<longleftrightarrow> vm_width info = width \<and> vm_height info = height \<and> vm_bits_per_pixel info = depth"

text \<open>How far a mode is from the wish: in pixels first, then in colour depth.\<close>

definition mode_distance :: "u16 \<Rightarrow> u16 \<Rightarrow> u8 \<Rightarrow> VbeModeInfo \<Rightarrow> int \<times> int" where
  "mode_distance width height depth info =
     (\<bar>uint (vm_width info) * uint (vm_height info) - uint width * uint height\<bar>, \<bar>uint (vm_bits_per_pixel info) - uint depth\<bar>)"

definition closer :: "int \<times> int \<Rightarrow> int \<times> int \<Rightarrow> bool" where
  "closer d d' \<longleftrightarrow> fst d < fst d' \<or> fst d = fst d' \<and> snd d < snd d'"

definition best_of :: "vbe_bios \<Rightarrow> u16 \<Rightarrow> u16 \<Rightarrow> u8 \<Rightarrow> u16 list \<Rightarrow> u16 option \<Rightarrow> bool" where
  "best_of B width height depth ms b \<longleftrightarrow>
     (case b of
        None \<Rightarrow> \<forall>mode \<in> set ms. usable_mode B mode = None
      | Some mode \<Rightarrow> mode \<in> set ms \<and> (\<exists>info. usable_mode B mode = Some info \<and>
          (\<forall>mode' \<in> set ms. \<forall>info'. usable_mode B mode' = Some info' \<longrightarrow>
             \<not> closer (mode_distance width height depth info') (mode_distance width height depth info) \<and>
             (exact_mode width height depth info' \<longrightarrow> exact_mode width height depth info))))"

lemma uint_abs_diff: "uint (abs_diff a b) = \<bar>uint a - uint b\<bar>"
  by (simp add: abs_diff_def word_less_def uint_sub_lem [THEN iffD1] word_le_def)

lemma pixels_fit:
  fixes w h :: u16
  shows "op_mul (ucast w :: u32) (ucast h) = Inr (ucast w * ucast h)" "uint (ucast w * ucast h :: u32) = uint w * uint h"
    "uint w * uint h \<le> 65535 * 65535"
proof -
  have b: "uint x \<le> 65535" "0 \<le> uint x" for x :: u16 using uint_bounded [of x] by simp_all
  show le: "uint w * uint h \<le> 65535 * 65535" by (rule mult_mono) (use b in simp_all)
  have u: "uint (ucast x :: u32) = uint x" for x :: u16 using b [of x] by (simp add: unsigned_ucast_eq take_bit_int_eq_self)
  show "uint (ucast w * ucast h :: u32) = uint w * uint h"
    using le by (simp add: uint_word_ariths u)
  have "int (unat (ucast w :: u32) * unat (ucast h :: u32)) = uint w * uint h" by (simp add: u)
  then have "int (unat (ucast w :: u32) * unat (ucast h :: u32)) < int (2 ^ 32)" using le by simp
  then have "unat (ucast w :: u32) * unat (ucast h :: u32) < 2 ^ 32" by (simp only: of_nat_less_iff)
  then show "op_mul (ucast w :: u32) (ucast h) = Inr (ucast w * ucast h)" by (simp add: op_mul_def)
qed

text \<open>The state of the search says which of the modes seen so far is the best, and none of them is exact.\<close>

definition search_state :: "vbe_bios \<Rightarrow> u16 \<Rightarrow> u16 \<Rightarrow> u8 \<Rightarrow> u16 list \<Rightarrow> best_mode \<Rightarrow> bool" where
  "search_state B width height depth ms st \<longleftrightarrow>
     (\<forall>mode \<in> set ms. \<forall>info. usable_mode B mode = Some info \<longrightarrow> \<not> exact_mode width height depth info) \<and>
     best_of B width height depth ms (best st) \<and>
     (case best st of
        None \<Rightarrow> best_pix_diff st = 0xffffffff \<and> best_depth_diff st = 0xff
      | Some mode \<Rightarrow> (uint (best_pix_diff st), uint (best_depth_diff st)) = mode_distance width height depth (the (usable_mode B mode)))"

lemma closer_trans: "\<not> closer d e \<Longrightarrow> closer f e \<Longrightarrow> \<not> closer d f"
  by (auto simp: closer_def)

lemma best_of_cons:
  assumes "search_state B w h d ms st" "usable_mode B mode = Some info" "\<not> exact_mode w h d info"
    and "\<And>info'. best st \<noteq> None \<Longrightarrow> usable_mode B (the (best st)) = Some info' \<Longrightarrow> closer (mode_distance w h d info) (mode_distance w h d info')"
  shows "best_of B w h d (ms @ [mode]) (Some mode)"
proof -
  have "\<not> closer (mode_distance w h d info') (mode_distance w h d info)" if m': "mode' \<in> set ms" "usable_mode B mode' = Some info'" for mode' info'
  proof (cases "best st")
    case None
    with assms(1) m' show ?thesis by (simp add: search_state_def best_of_def)
  next
    case (Some b)
    with assms(1) have "best_of B w h d ms (Some b)" by (simp add: search_state_def)
    then obtain ib where ib: "usable_mode B b = Some ib" "\<not> closer (mode_distance w h d info') (mode_distance w h d ib)"
      using m' unfolding best_of_def option.case by blast
    from assms(4) [of ib] Some ib(1) have "closer (mode_distance w h d info) (mode_distance w h d ib)" by simp
    with ib(2) show ?thesis by (rule closer_trans)
  qed
  moreover have "\<not> exact_mode w h d info'" if "mode' \<in> set ms" "usable_mode B mode' = Some info'" for mode' info'
    using assms(1) that unfolding search_state_def by blast
  moreover have "\<not> closer x x" for x by (simp add: closer_def)
  ultimately show ?thesis using assms(2,3) by (simp add: best_of_def)
qed

lemma best_of_keep:
  assumes "search_state B w h d ms st" "\<And>info. usable_mode B mode = Some info \<Longrightarrow> \<not> exact_mode w h d info \<and>
      (\<exists>b. best st = Some b \<and> \<not> closer (mode_distance w h d info) (mode_distance w h d (the (usable_mode B b))))"
  shows "search_state B w h d (ms @ [mode]) st"
proof (cases "usable_mode B mode")
  case None
  with assms(1) show ?thesis by (auto simp: search_state_def best_of_def split: option.splits)
next
  case (Some info)
  from assms(2) [OF this] obtain b where b: "best st = Some b" "\<not> exact_mode w h d info"
    "\<not> closer (mode_distance w h d info) (mode_distance w h d (the (usable_mode B b)))" by blast
  with assms(1) Some show ?thesis by (auto simp: search_state_def best_of_def)
qed

lemma best_mode_turn_state:
  assumes "search_state B w h d ms st" "usable_mode B mode = Some info"
  shows "if exact_mode w h d info then best_mode_turn w h d mode info st = Inr (Inl mode)
     else \<exists>st'. best_mode_turn w h d mode info st = Inr (Inr st') \<and> search_state B w h d (ms @ [mode]) st'"
proof (cases "exact_mode w h d info")
  case True
  have "mode_supported info" using assms(2) by (auto simp: usable_mode_def split: prod.splits if_splits)
  with True show ?thesis by (simp add: best_mode_turn_def exact_mode_def)
next
  case False
  define pd where "pd = abs_diff (ucast (vm_width info) * ucast (vm_height info) :: u32) (ucast w * ucast h)"
  define dd where "dd = abs_diff (vm_bits_per_pixel info) d"
  define new where "new \<longleftrightarrow> best_pix_diff st > pd \<or> best_pix_diff st = pd \<and> best_depth_diff st > dd"
  have sup: "mode_supported info" using assms(2) by (auto simp: usable_mode_def split: prod.splits if_splits)
  have dist: "mode_distance w h d info = (uint pd, uint dd)"
    by (simp add: mode_distance_def pd_def dd_def uint_abs_diff pixels_fit(2))
  have turn: "best_mode_turn w h d mode info st =
      Inr (Inr (if new then \<lparr>best = Some mode, best_pix_diff = pd, best_depth_diff = dd\<rparr> else st))"
    using sup False by (auto simp: best_mode_turn_def exact_mode_def pixels_fit(1) pd_def dd_def new_def Let_def)
  have none: "new" if "best st = None"
  proof -
    have "uint pd \<noteq> 4294967295"
      using pixels_fit(2,3) [of w h] pixels_fit(2,3) [of "vm_width info" "vm_height info"]
        uint_ge_0 [of "ucast w * ucast h :: u32"] uint_ge_0 [of "ucast (vm_width info) * ucast (vm_height info) :: u32"]
      unfolding pd_def uint_abs_diff by linarith
    then have "pd < 0xffffffff" using uint_bounded [of pd] by (simp add: word_less_def)
    with that assms(1) show ?thesis by (simp add: new_def search_state_def)
  qed
  have some: "new \<longleftrightarrow> closer (mode_distance w h d info) (mode_distance w h d (the (usable_mode B b)))" if "best st = Some b" for b
  proof -
    have e: "mode_distance w h d (the (usable_mode B b)) = (uint (best_pix_diff st), uint (best_depth_diff st))"
      using that assms(1) by (simp add: search_state_def)
    show ?thesis unfolding new_def dist closer_def e by (auto simp: word_less_def word_uint_eq_iff)
  qed
  have "search_state B w h d (ms @ [mode]) (if new then \<lparr>best = Some mode, best_pix_diff = pd, best_depth_diff = dd\<rparr> else st)"
  proof (cases new)
    case True
    have "best_of B w h d (ms @ [mode]) (Some mode)"
      by (rule best_of_cons [OF assms False]) (use some True in force)
    moreover have "\<forall>mode' \<in> set (ms @ [mode]). \<forall>info. usable_mode B mode' = Some info \<longrightarrow> \<not> exact_mode w h d info"
      using assms False by (auto simp: search_state_def)
    ultimately show ?thesis using True assms(2) dist by (simp add: search_state_def)
  next
    case f: False
    then obtain b where "best st = Some b" using none by (cases "best st") auto
    with f some False assms(2) have "search_state B w h d (ms @ [mode]) st" by (intro best_of_keep [OF assms(1)]) simp
    with f show ?thesis by simp
  qed
  with turn False show ?thesis by simp
qed

lemma best_of_exact:
  assumes "search_state B w h d ms st" "usable_mode B mode = Some info" "exact_mode w h d info"
  shows "best_of B w h d (ms @ mode # ms') (Some mode)"
proof -
  have "mode_distance w h d info = (0, 0)" using assms(3) by (simp add: mode_distance_def exact_mode_def)
  then have "\<not> closer (mode_distance w h d info') (mode_distance w h d info)" for info' by (simp add: closer_def mode_distance_def)
  with assms(2,3) show ?thesis by (simp add: best_of_def)
qed

lemma get_mode_array:
  assumes "mode_array m self ms"
  shows "i < length ms \<Longrightarrow> VbeInfo_get_mode m self i = Inr (Some (ms ! i))" "VbeInfo_get_mode m self (length ms) = Inr None"
proof -
  let ?p = "video_mode_array_pointer self"
  let ?s = "ucast (RealModePointer_segment ?p) :: u32" and ?f = "ucast (RealModePointer_offset ?p) :: u32"
  have b: "unat (ucast x :: u32) < 2 ^ 16" for x :: u16 using unat_less_exp [of x] by (simp add: unsigned_ucast_eq take_bit_nat_eq_self)
  have "unat (push_bit 4 ?s) = unat ?s * 16" using b [of "RealModePointer_segment ?p"] by (simp add: push_bit_eq_mult unat_word_ariths)
  then have "op_add (push_bit 4 ?s) ?f = Inr (real_mode_address (RealModePointer_segment ?p) (RealModePointer_offset ?p))"
    using b [of "RealModePointer_segment ?p"] b [of "RealModePointer_offset ?p"] by (simp add: op_add_def real_mode_address_def)
  then have g: "VbeInfo_get_mode m self i = Inr (let mode = read_u16 m (real_mode_address (RealModePointer_segment ?p) (RealModePointer_offset ?p) + 2 * of_nat i)
      in if mode = 0xffff then None else Some mode)" for i
    by (simp add: VbeInfo_get_mode_def op_shl_def Let_def)
  show "i < length ms \<Longrightarrow> VbeInfo_get_mode m self i = Inr (Some (ms ! i))" "VbeInfo_get_mode m self (length ms) = Inr None"
    using assms unfolding g by (auto simp: mode_array_def Let_def dest: nth_mem)
qed

text \<open>A block below 64 KiB is where the BIOS writes it.\<close>

lemma real_mode_address_low: "real_mode_address (RealModePointer_segment p) (RealModePointer_offset p) = p \<longleftrightarrow> unat p < 2 ^ 16"
proof -
  have d: "unat p = 2 ^ 16 * (unat p div 2 ^ 16) + unat p mod 2 ^ 16" by simp
  have hi: "unat p div 2 ^ 16 < 2 ^ 16" using unat_less_exp [of p] by (intro less_mult_imp_div_less) simp
  have "unat (ucast (RealModePointer_segment p) :: u32) = unat p div 2 ^ 16" "unat (ucast (RealModePointer_offset p) :: u32) = unat p mod 2 ^ 16"
    using hi by (simp_all add: RealModePointer_segment_def RealModePointer_offset_def unsigned_ucast_eq take_bit_eq_mod unat_drop_bit_eq drop_bit_eq_div
        unat_div_distrib unat_mod)
  then have "unat (real_mode_address (RealModePointer_segment p) (RealModePointer_offset p)) = unat p div 2 ^ 16 * 16 + unat p mod 2 ^ 16"
    using hi mod_less_divisor [of "2 ^ 16" "unat p"] by (simp add: real_mode_address_def push_bit_eq_mult unat_word_ariths)
  then have "real_mode_address (RealModePointer_segment p) (RealModePointer_offset p) = p \<longleftrightarrow>
      unat p div 2 ^ 16 * 16 + unat p mod 2 ^ 16 = 2 ^ 16 * (unat p div 2 ^ 16) + unat p mod 2 ^ 16"
    unfolding word_unat_eq_iff using d by argo
  moreover have "a * 16 + r = 2 ^ 16 * a + r \<longleftrightarrow> a = 0" for a r :: nat by simp
  ultimately show ?thesis by (simp only: div_eq_0_iff) simp
qed

lemma best_mode_loop_correct:
  assumes "mode_array m self ms" "unat obj < 2 ^ 16" "i \<le> length ms" "search_state B w h d (take i ms) st"
  shows "\<exists>b. best_mode_loop B m self obj w h d i st = Inr b \<and> best_of B w h d ms b"
  using assms(3,4)
proof (induction "length ms - i" arbitrary: i st)
  case 0
  then have i: "i = length ms" by simp
  with 0 show ?case using get_mode_array(2) [OF assms(1)] assms(1)
    by (subst best_mode_loop.simps) (auto simp: search_state_def mode_array_def Let_def)
next
  case (Suc n)
  then have i: "i < length ms" "Suc i \<le> length ms" "n = length ms - Suc i" by simp_all
  let ?mode = "ms ! i"
  have lt: "\<not> 2 ^ 31 - 1 \<le> i" using i assms(1) by (simp add: mode_array_def Let_def)
  have tk: "take (Suc i) ms = take i ms @ [?mode]" using i by (simp add: take_Suc_conv_app_nth)
  have ms: "ms = take i ms @ ?mode # drop (Suc i) ms" using i by (simp add: id_take_nth_drop)
  note IH = Suc.hyps(1) [OF i(3,2)]
  obtain ret info where q: "vbe_mode_info B ?mode VbeModeInfo_default = (ret, info)" by force
  have g: "VbeModeInfo_get B obj ?mode = Inr (if ret = VESA_SUCCESS then Inr info else Inl ret)"
    using assms(2) q real_mode_address_low [of obj] by (simp add: VbeModeInfo_get_def)
  show ?case
  proof (cases "usable_mode B ?mode")
    case None
    then have "search_state B w h d (take (Suc i) ms) st" unfolding tk using best_of_keep [OF Suc.prems(2), of ?mode] by simp
    moreover have "best_mode_loop B m self obj w h d i st = best_mode_loop B m self obj w h d (Suc i) st"
      using None lt g q get_mode_array(1) [OF assms(1) i(1)]
      by (subst best_mode_loop.simps) (auto simp: usable_mode_def best_mode_turn_def)
    ultimately show ?thesis using IH by simp
  next
    case (Some info')
    then have s: "info' = info" "ret = VESA_SUCCESS" using q by (auto simp: usable_mode_def split: if_splits)
    note t = best_mode_turn_state [OF Suc.prems(2) Some]
    show ?thesis
    proof (cases "exact_mode w h d info'")
      case True
      with t s g lt have "best_mode_loop B m self obj w h d i st = Inr (Some ?mode)"
        using get_mode_array(1) [OF assms(1) i(1)] by (subst best_mode_loop.simps) simp
      moreover have "best_of B w h d ms (Some ?mode)" using best_of_exact [OF Suc.prems(2) Some True, of "drop (Suc i) ms"] ms by simp
      ultimately show ?thesis by blast
    next
      case False
      with t obtain st' where st': "best_mode_turn w h d ?mode info' st = Inr (Inr st')" "search_state B w h d (take (Suc i) ms) st'"
        unfolding tk by auto
      have "best_mode_loop B m self obj w h d i st = best_mode_loop B m self obj w h d (Suc i) st'"
        using st' s g lt get_mode_array(1) [OF assms(1) i(1)] by (subst best_mode_loop.simps) simp
      with IH [OF st'(2)] show ?thesis by simp
    qed
  qed
qed

lemma best_mode_search:
  assumes "mode_array m self ms" "unat obj < 2 ^ 16"
  shows "\<exists>b. VbeInfo_get_best_mode B m self obj width height depth = Inr b \<and> best_of B width height depth ms b"
proof -
  have "search_state B width height depth (take 0 ms) \<lparr>best = None, best_pix_diff = 0xffffffff, best_depth_diff = 0xff\<rparr>"
    by (simp add: search_state_def best_of_def)
  from best_mode_loop_correct [OF assms _ this] show ?thesis by (simp add: VbeInfo_get_best_mode_def)
qed

lemma framebuffer_size:
  "unat (ucast (vm_height info) * ucast (vm_bytes_per_scanline info) :: u64) = unat (vm_height info) * unat (vm_bytes_per_scanline info)"
  "op_mul (ucast (vm_height info) :: u64) (ucast (vm_bytes_per_scanline info)) = Inr (ucast (vm_height info) * ucast (vm_bytes_per_scanline info))"
proof -
  have u: "unat (ucast x :: u64) = unat x" "unat x < 2 ^ 16" for x :: u16
    using unat_less_exp [of x] by (simp_all add: unsigned_ucast_eq take_bit_nat_eq_self)
  have "unat (vm_height info) * unat (vm_bytes_per_scanline info) \<le> 2 ^ 16 * 2 ^ 16"
    by (rule mult_le_mono) (use u(2) less_imp_le in blast)+
  then have l: "unat (ucast (vm_height info) :: u64) * unat (ucast (vm_bytes_per_scanline info) :: u64) < 2 ^ 64" by (simp add: u(1))
  then show "unat (ucast (vm_height info) * ucast (vm_bytes_per_scanline info) :: u64) = unat (vm_height info) * unat (vm_bytes_per_scanline info)"
    by (simp add: unat_word_ariths u(1))
  show "op_mul (ucast (vm_height info) :: u64) (ucast (vm_bytes_per_scanline info)) = Inr (ucast (vm_height info) * ucast (vm_bytes_per_scanline info))"
    using l by (simp add: op_mul_def)
qed

lemma to_framebuffer_info_eq:
  "VbeModeInfo_to_framebuffer_info info =
     (if unat (vm_bits_per_pixel info) < 8 then Inl Divide_By_Zero
      else Inr (FramebufferInfo_new (PhysicalMemoryRegion_new (ucast (vm_framebuffer info))
             (ucast (vm_height info) * ucast (vm_bytes_per_scanline info)) Reserved)
           (vm_width info) (vm_height info) (vm_bits_per_pixel info div 8)
           (vm_bytes_per_scanline info div ucast (vm_bits_per_pixel info div 8)) (VbeModeInfo_get_pixel_format info)))"
proof -
  let ?b = "vm_bits_per_pixel info div 8"
  have "unat ?b = unat (vm_bits_per_pixel info) div 8" by (simp add: unat_div_distrib)
  then have z: "?b = 0 \<longleftrightarrow> unat (vm_bits_per_pixel info) < 8" by (simp add: unat_eq_zero [symmetric] div_eq_0_iff)
  have "(ucast ?b :: u16) = 0 \<longleftrightarrow> ?b = 0" by (simp add: word_unat_eq_iff unat_ucast_up)
  with z show ?thesis by (simp add: VbeModeInfo_to_framebuffer_info_def op_div_def framebuffer_size(2))
qed

section \<open>Properties\<close>

text \<open>
  C26. The video mode: when the array of modes ends, and the blocks the BIOS fills are below 64 KiB,
  \<open>get_best_mode\<close> returns; it finds nothing only when no mode can be used, and otherwise a mode that can be
  used such that no other such mode is closer to the wish, in pixels first and then in colour depth. When
  there is a mode with exactly the size and the depth wished for, the mode it finds has them.
\<close>

theorem best_mode_optimal:
  assumes "mode_array m self ms" "unat obj < 2 ^ 16"
  shows "\<exists>b. VbeInfo_get_best_mode B m self obj width height depth = Inr b \<and> best_of B width height depth ms b"
  using best_mode_search [OF assms] .

definition example_mode_info :: VbeModeInfo where
  "example_mode_info = VbeModeInfo_default\<lparr>vm_attributes := 0x90, vm_memory_model := 6, vm_width := 1024, vm_height := 768,
     vm_bits_per_pixel := 24, vm_bytes_per_scanline := 3072, vm_framebuffer := 0xfd000000\<rparr>"

definition example_vbe :: vbe_bios where
  "example_vbe = \<lparr>vbe_controller_info = (\<lambda>obj. (0x4f, obj\<lparr>video_mode_array_pointer := 0x8000\<rparr>)),
     vbe_mode_info = (\<lambda>mode obj. (0x4f, example_mode_info)), vbe_set_mode = (\<lambda>_. 0x4f)\<rparr>"

definition example_mode_memory :: "u32 \<Rightarrow> u8" where
  "example_mode_memory a = (if a = 0x8000 then 0x18 else if a = 0x8001 then 0x01 else 0xff)"

lemma example_mode_array: "mode_array example_mode_memory (VbeInfo_default\<lparr>video_mode_array_pointer := 0x8000\<rparr>) [0x118]"
  by (simp add: mode_array_def Let_def real_mode_address_def RealModePointer_segment_def RealModePointer_offset_def read_u16_def
      example_mode_memory_def)

theorem best_mode_optimal_witness:
  "VbeInfo_get_best_mode example_vbe example_mode_memory (VbeInfo_default\<lparr>video_mode_array_pointer := 0x8000\<rparr>) 0x7000 1280 1024 24 =
     Inr (Some 0x118)"
proof -
  have "usable_mode example_vbe 0x118 = Some example_mode_info"
    by (simp add: usable_mode_def example_vbe_def VESA_SUCCESS_def mode_supported_def example_mode_info_def)
  with best_mode_optimal [OF example_mode_array, of "0x7000" example_vbe 1280 1024 24] show ?thesis
    by (auto simp: best_of_def split: option.splits)
qed

text \<open>
  The frame buffer of a mode: the BIOS fills the block of \<open>VbeModeInfo::get\<close> only when the block lies
  below 64 KiB, because the address of the block is taken as a pair of a segment and an offset; any other
  block leads to a write into foreign memory. A mode with fewer than 8 bits per pixel makes
  \<open>to_framebuffer_info\<close> divide by zero; for every other mode the region has the size of the lines, and the
  stride counts the pixels that fit in a line.
\<close>

theorem framebuffer_of_mode:
  "(VbeModeInfo_get B obj mode = Inl Undefined_Behaviour \<longleftrightarrow> 2 ^ 16 \<le> unat obj) \<and>
   (VbeModeInfo_to_framebuffer_info info = Inl Divide_By_Zero \<longleftrightarrow> unat (vm_bits_per_pixel info) < 8) \<and>
   (\<forall>fb. VbeModeInfo_to_framebuffer_info info = Inr fb \<longrightarrow>
      unat (pmr_size (fb_region fb)) = unat (vm_height info) * unat (vm_bytes_per_scanline info) \<and>
      unat (fb_bytes_per_pixel fb) = unat (vm_bits_per_pixel info) div 8 \<and>
      unat (fb_stride fb) = unat (vm_bytes_per_scanline info) div unat (fb_bytes_per_pixel fb))"
proof -
  let ?b = "vm_bits_per_pixel info div 8"
  have b: "unat ?b = unat (vm_bits_per_pixel info) div 8" by (simp add: unat_div_distrib)
  have c: "unat (ucast ?b :: u16) = unat ?b" by (simp add: unat_ucast_up)
  show ?thesis
    unfolding to_framebuffer_info_eq using real_mode_address_low [of obj] b c framebuffer_size [of info]
    by (auto simp: VbeModeInfo_get_def FramebufferInfo_new_def PhysicalMemoryRegion_new_def unat_div_distrib split: prod.splits)
qed

theorem framebuffer_of_mode_witness:
  "VbeModeInfo_get example_vbe 0x12340 0x118 = Inl Undefined_Behaviour \<and>
   VbeModeInfo_to_framebuffer_info (example_mode_info\<lparr>vm_bits_per_pixel := 4\<rparr>) = Inl Divide_By_Zero"
  using framebuffer_of_mode [of example_vbe "0x12340" "0x118" "example_mode_info\<lparr>vm_bits_per_pixel := 4\<rparr>"] by simp

end
