(* ===== verification/Memory_Maps.thy ===== *)
theory Memory_Maps
  imports Boot_Info Spin_Mutex
begin

text \<open>
  The memory map on its way through the boot stages: stage 2 asks the BIOS for it
  (\<open>stage2/src/memory_map.rs\<close>), and stage 4 turns it into the map of the kernel, with the memory the
  boot loader has used cut out (\<open>build_memory_map\<close> of \<open>stage4/src/main.rs\<close>).
\<close>

section \<open>Asking the BIOS\<close>

record MemoryMap =
  mm_map :: "E820MemoryRegion list"
  mm_size :: nat

definition MEMORY_MAP :: "MemoryMap Mutex" where
  "MEMORY_MAP = Mutex_new \<lparr>mm_map = replicate 0x20 E820MemoryRegion_empty, mm_size = 0\<rparr>"

text \<open>
  The BIOS service 0x15/0xE820: it gets the continuation value and the entry it may overwrite, and
  answers the signature, the length it wrote, the next continuation value and the entry.
\<close>

type_synonym e820_bios = "u32 \<Rightarrow> E820MemoryRegion \<Rightarrow> u32 \<times> u32 \<times> u32 \<times> E820MemoryRegion"

definition MAGIC_NUMBER :: u32 where "MAGIC_NUMBER = 0x534D4150"

text \<open>
  The loop of \<open>get\<close>, with fuel: a service that keeps writing more than 32 bytes without the attribute
  bit is asked for ever. \<open>None\<close> is the result \<open>Err(())\<close>.
\<close>

fun memory_map_loop ::
    "nat \<Rightarrow> e820_bios \<Rightarrow> E820MemoryRegion list \<Rightarrow> u32 \<Rightarrow> nat \<Rightarrow> (nat option \<times> E820MemoryRegion list) res" where
  "memory_map_loop 0 B mp cont_id entries_cnt = Inl Diverges"
| "memory_map_loop (Suc fuel) B mp cont_id entries_cnt =
     rbind (index_get mp entries_cnt) (\<lambda>old.
     case B cont_id old of (signature, len, cont_id, entry) \<Rightarrow>
       rbind (index_set mp entries_cnt entry) (\<lambda>mp.
       if signature \<noteq> MAGIC_NUMBER then Inr (None, mp)
       else if len > 0x20 \<and> acpi_extended_attributes entry AND 1 = 0
       then memory_map_loop fuel B mp cont_id entries_cnt
       else if cont_id = 0 \<or> entries_cnt > length mp then Inr (Some entries_cnt, mp)
       else memory_map_loop fuel B mp cont_id (entries_cnt + 1)))"

text \<open>\<open>get\<close>: the guard is returned on success and dropped on the error.\<close>

definition MemoryMap_get :: "nat \<Rightarrow> e820_bios \<Rightarrow> MemoryMap Mutex \<Rightarrow> (bool \<times> MemoryMap Mutex) res" where
  "MemoryMap_get fuel B mutex =
     (case Mutex_lock_turn mutex of
        (False, _) \<Rightarrow> Inl Diverges
      | (True, mutex) \<Rightarrow>
          rbind (memory_map_loop fuel B (mm_map (mutex_inner mutex)) 0 0) (\<lambda>(n, mp).
          Inr (case n of
             None \<Rightarrow> (False, MutexGuard_drop (mutex\<lparr>mutex_inner := (mutex_inner mutex)\<lparr>mm_map := mp\<rparr>\<rparr>))
           | Some cnt \<Rightarrow> (True, mutex\<lparr>mutex_inner := \<lparr>mm_map = mp, mm_size = cnt\<rparr>\<rparr>))))"

definition MemoryMap_iter :: "MemoryMap \<Rightarrow> E820MemoryRegion list res" where
  "MemoryMap_iter self =
     (if mm_size self \<le> length (mm_map self) then Inr (take (mm_size self) (mm_map self)) else Inl Index_Out_Of_Bounds)"

section \<open>The map for the kernel\<close>

text \<open>One turn of the loop of \<open>build_memory_map\<close>: the array and the index of the next free place.\<close>

definition memory_map_turn ::
    "PageSize \<Rightarrow> PhysicalFrame \<Rightarrow> E820MemoryRegion \<Rightarrow> PhysicalMemoryRegion option list \<times> nat \<Rightarrow>
     (PhysicalMemoryRegion option list \<times> nat) res" where
  "memory_map_turn S last_frame region = (\<lambda>(new_regions, idx).
     let put = (\<lambda>r (a, i). rbind (index_set a i (Some r)) (\<lambda>a. Inr (a, i + 1)));
         check = (\<lambda>(a, i). rbind (rassert (i < length a)) (\<lambda>_. Inr (a, i)))
     in
     if \<not> E820MemoryRegion_is_usable region
     then rbind (put (E820MemoryRegion_into region) (new_regions, idx)) check
     else if e820_start region = 0
     then rbind (index_set new_regions idx (Some ((E820MemoryRegion_into region)\<lparr>pmr_typ := Reserved\<rparr>)))
            (\<lambda>a. Inr (a, idx))
     else rbind (E820MemoryRegion_contains region last_frame) (\<lambda>inside.
       if inside
       then rbind (PhysicalFrame_end S last_frame) (\<lambda>last_end.
            rbind (op_sub last_end (e820_start region)) (\<lambda>sz.
            rbind (put (PhysicalMemoryRegion_new (e820_start region) sz Reserved) (new_regions, idx)) (\<lambda>st.
            rbind (E820MemoryRegion_end region) (\<lambda>region_end.
            if last_end \<noteq> region_end
            then rbind (op_sub region_end last_end) (\<lambda>sz.
                 rbind (put (PhysicalMemoryRegion_new last_end sz Free) st) check)
            else check st))))
       else rbind (put (E820MemoryRegion_into region) (new_regions, idx)) check))"

definition build_memory_map ::
    "PageSize \<Rightarrow> E820MemoryRegion list \<Rightarrow> PhysicalFrame \<Rightarrow> PhysicalMemoryRegion option list res" where
  "build_memory_map S regions last_frame =
     rbind (rfold (memory_map_turn S last_frame) regions (replicate 0x20 None, 0)) (\<lambda>(new_regions, _). Inr new_regions)"

text \<open>The regions that are written to the boot information.\<close>

definition reported_regions :: "PhysicalMemoryRegion option list \<Rightarrow> PhysicalMemoryRegion list" where
  "reported_regions m = List.map_filter id m"

section \<open>The BIOS list\<close>

text \<open>
  A BIOS that lists the given regions: the continuation values count from 0, and the last region comes
  with the continuation value 0, which says that the list is complete.
\<close>

definition e820_lists :: "e820_bios \<Rightarrow> E820MemoryRegion list \<Rightarrow> bool" where
  "e820_lists B rs \<longleftrightarrow> rs \<noteq> [] \<and> length rs < 2 ^ 32 \<and>
     (\<forall>i old. i < length rs \<longrightarrow>
        (\<exists>len. len \<le> 24 \<and> B (of_nat i) old =
           (MAGIC_NUMBER, len, if Suc i = length rs then 0 else of_nat (Suc i), rs ! i)))"

lemma of_nat_u32_0: "0 < i \<Longrightarrow> i < 2 ^ 32 \<Longrightarrow> (of_nat i :: u32) \<noteq> 0"
  by (simp add: word_unat_eq_iff unat_of_nat)

lemma take_Suc_update: "k < length xs \<Longrightarrow> take k xs = take k ys \<Longrightarrow> k < length ys \<Longrightarrow> take (Suc k) (xs[k := ys ! k]) = take (Suc k) ys"
  by (simp add: take_Suc_conv_app_nth)

lemma memory_map_loop_lists:
  assumes B: "e820_lists B rs"
  shows "length mp = 32 \<Longrightarrow> k < length rs \<Longrightarrow> k \<le> 32 \<Longrightarrow> take k mp = take k rs \<Longrightarrow> length rs - k \<le> fuel \<Longrightarrow>
     (if length rs \<le> 32
      then \<exists>mp'. memory_map_loop fuel B mp (of_nat k) k = Inr (Some (length rs - 1), mp') \<and> length mp' = 32 \<and> take (length rs) mp' = rs
      else memory_map_loop fuel B mp (of_nat k) k = Inl Index_Out_Of_Bounds)"
proof (induction fuel arbitrary: mp k)
  case 0
  then show ?case by simp
next
  case (Suc fuel)
  show ?case
  proof (cases "k = 32")
    case True
    with Suc.prems show ?thesis by (simp add: index_get_def)
  next
    case False
    with Suc.prems have k: "k < length mp" by simp
    obtain len where b: "len \<le> 24" "B (of_nat k) (mp ! k) =
        (MAGIC_NUMBER, len, if Suc k = length rs then 0 else of_nat (Suc k), rs ! k)"
      using B Suc.prems(2) unfolding e820_lists_def by blast
    have len: "\<not> len > 0x20" using b(1) by (simp add: word_less_nat_alt word_le_nat_alt)
    let ?mp = "mp[k := rs ! k]"
    have mp: "length ?mp = 32" "take (Suc k) ?mp = take (Suc k) rs"
      using take_Suc_update [OF k Suc.prems(4) Suc.prems(2)] Suc.prems(1) by simp_all
    have step: "memory_map_loop (Suc fuel) B mp (of_nat k) k =
        (if Suc k = length rs then Inr (Some k, ?mp) else memory_map_loop fuel B ?mp (of_nat (Suc k)) (Suc k))"
    proof -
      have "(of_nat (Suc k) :: u32) \<noteq> 0"
        using B Suc.prems(2) by (intro of_nat_u32_0) (auto simp: e820_lists_def)
      moreover have "index_get mp k = Inr (mp ! k)" "index_set mp k (rs ! k) = Inr ?mp" "\<not> k > 32"
        using k Suc.prems(3) by (simp_all add: index_get_def index_set_def)
      ultimately show ?thesis
        using len by (simp only: memory_map_loop.simps rbind_Inr b(2) prod.case mp(1)) (simp del: of_nat_Suc)
    qed
    show ?thesis
    proof (cases "Suc k = length rs")
      case True
      then show ?thesis using step mp k Suc.prems(1) by (auto simp: index_get_def)
    next
      case False
      then have "Suc k < length rs" "Suc k \<le> 32" "length rs - Suc k \<le> fuel" using Suc.prems k by auto
      from Suc.IH [OF mp(1) this(1,2) mp(2) this(3)] False show ?thesis by (simp only: step if_False)
    qed
  qed
qed

section \<open>What the kernel's map says\<close>

definition e820_bytes :: "E820MemoryRegion \<Rightarrow> nat set" where
  "e820_bytes r = {unat (e820_start r) ..< unat (e820_start r) + unat (e820_size r)}"

definition pmr_bytes :: "PhysicalMemoryRegion \<Rightarrow> nat set" where
  "pmr_bytes r = {unat (pmr_start r) ..< unat (pmr_start r) + unat (pmr_size r)}"

text \<open>The usable memory at address 0, which holds the boot sector and stage 2.\<close>

definition low_region :: "E820MemoryRegion \<Rightarrow> bool" where
  "low_region r \<longleftrightarrow> E820MemoryRegion_is_usable r \<and> e820_start r = 0"

text \<open>Another usable region is cut when the last frame starts in it or right behind it.\<close>

definition cut_by :: "PhysicalFrame \<Rightarrow> E820MemoryRegion \<Rightarrow> bool" where
  "cut_by f r \<longleftrightarrow> E820MemoryRegion_is_usable r \<and> e820_start r \<noteq> 0 \<and> unat (e820_start r) \<le> unat f \<and>
     unat f \<le> unat (e820_start r) + unat (e820_size r)"

definition split_region :: "PhysicalFrame \<Rightarrow> E820MemoryRegion \<Rightarrow> PhysicalMemoryRegion list" where
  "split_region f r =
     (if cut_by f r
      then PhysicalMemoryRegion_new (e820_start r) (f + 4096 - e820_start r) Reserved #
           (if f + 4096 = e820_start r + e820_size r then []
            else [PhysicalMemoryRegion_new (f + 4096) (e820_start r + e820_size r - (f + 4096)) Free])
      else [E820MemoryRegion_into r])"

definition splittable :: "PhysicalFrame \<Rightarrow> E820MemoryRegion \<Rightarrow> bool" where
  "splittable f r \<longleftrightarrow> unat (e820_start r) + unat (e820_size r) < 2 ^ 64 \<and>
     (cut_by f r \<longrightarrow> unat f + 4096 \<le> unat (e820_start r) + unat (e820_size r))"

text \<open>
  The regions that get entries of their own, and the entry behind them: it is the one of the low region when that is
  the last of the map, and otherwise it is free, as the entry of a low region is overwritten by the next region.
\<close>

definition kept_regions :: "PhysicalFrame \<Rightarrow> E820MemoryRegion list \<Rightarrow> PhysicalMemoryRegion list" where
  "kept_regions f rs = concat (map (split_region f) (filter (\<lambda>r. \<not> low_region r) rs))"

definition last_low :: "E820MemoryRegion list \<Rightarrow> PhysicalMemoryRegion list" where
  "last_low rs = (if rs \<noteq> [] \<and> low_region (last rs) then [(E820MemoryRegion_into (last rs))\<lparr>pmr_typ := Reserved\<rparr>] else [])"

lemma split_region_bytes:
  assumes "splittable f r"
  shows "(\<exists>p \<in> set (split_region f r). x \<in> pmr_bytes p) \<longleftrightarrow> x \<in> e820_bytes r"
    and "(\<exists>p \<in> set (split_region f r). pmr_typ p = Free \<and> x \<in> pmr_bytes p) \<longleftrightarrow>
       E820MemoryRegion_is_usable r \<and> x \<in> e820_bytes r \<and> \<not> (cut_by f r \<and> x < unat f + 4096)"
proof -
  let ?s = "e820_start r" and ?z = "e820_size r"
  have e: "unat (?s + ?z) = unat ?s + unat ?z" using assms by (simp add: splittable_def unat_plus_nowrap)
  have "(\<exists>p \<in> set (split_region f r). x \<in> pmr_bytes p) = (x \<in> e820_bytes r) \<and>
    ((\<exists>p \<in> set (split_region f r). pmr_typ p = Free \<and> x \<in> pmr_bytes p) =
     (E820MemoryRegion_is_usable r \<and> x \<in> e820_bytes r \<and> \<not> (cut_by f r \<and> x < unat f + 4096)))"
  proof (cases "cut_by f r")
    case False
    then show ?thesis
      by (cases "e820_typ r") (auto simp: split_region_def E820MemoryRegion_into_def PhysicalMemoryRegion_new_def
          pmr_bytes_def e820_bytes_def E820MemoryRegion_is_usable_def)
  next
    case True
    with assms have le: "unat f + 4096 \<le> unat ?s + unat ?z" "unat ?s \<le> unat f" "E820MemoryRegion_is_usable r"
      by (auto simp: splittable_def cut_by_def)
    have f: "unat (f + 4096) = unat f + 4096" using le(1) e unat_less_exp [of "?s + ?z"] by (simp add: unat_plus_nowrap)
    have d: "unat (f + 4096 - ?s) = unat f + 4096 - unat ?s" "unat (?s + ?z - (f + 4096)) = unat ?s + unat ?z - (unat f + 4096)"
      using le f e by (simp_all add: unat_sub word_le_nat_alt)
    have "f + 4096 = ?s + ?z \<longleftrightarrow> unat f + 4096 = unat ?s + unat ?z" using f e by (simp add: word_unat_eq_iff)
    with True le d f show ?thesis
      by (auto simp: split_region_def PhysicalMemoryRegion_new_def pmr_bytes_def e820_bytes_def)
  qed
  then show "(\<exists>p \<in> set (split_region f r). x \<in> pmr_bytes p) \<longleftrightarrow> x \<in> e820_bytes r"
    "(\<exists>p \<in> set (split_region f r). pmr_typ p = Free \<and> x \<in> pmr_bytes p) \<longleftrightarrow>
       E820MemoryRegion_is_usable r \<and> x \<in> e820_bytes r \<and> \<not> (cut_by f r \<and> x < unat f + 4096)" by simp_all
qed

lemma memory_map_turn_split:
  assumes sp: "splittable f r" and nl: "\<not> low_region r" and i: "i + length (split_region f r) < length a"
  shows "\<exists>a'. memory_map_turn Size4KiB f r (a, i) = Inr (a', i + length (split_region f r)) \<and>
     length a' = length a \<and> take (i + length (split_region f r)) a' = take i a @ map Some (split_region f r) \<and>
     drop (i + length (split_region f r)) a' = drop (i + length (split_region f r)) a"
proof -
  let ?s = "e820_start r" and ?z = "e820_size r"
  have e: "unat (?s + ?z) = unat ?s + unat ?z" "E820MemoryRegion_end r = Inr (?s + ?z)"
    using sp by (simp_all add: splittable_def unat_plus_nowrap E820MemoryRegion_end_def op_add_def)
  have put: "take (Suc k) (b[k := v]) = take k b @ [v]" "drop (Suc k) (b[k := v]) = drop (Suc k) b"
    if "k < length b" for k v and b :: "PhysicalMemoryRegion option list"
    using that by (simp_all add: take_Suc_conv_app_nth)
  show ?thesis
  proof (cases "cut_by f r")
    case False
    have n: "split_region f r = [E820MemoryRegion_into r]" using False by (simp add: split_region_def)
    have c: "E820MemoryRegion_is_usable r \<Longrightarrow> E820MemoryRegion_contains r f = Inr False"
      using False nl e by (auto simp: cut_by_def low_region_def E820MemoryRegion_contains_def word_le_nat_alt)
    have "memory_map_turn Size4KiB f r (a, i) = Inr (a[i := Some (E820MemoryRegion_into r)], Suc i)"
      using i nl c by (simp add: n memory_map_turn_def low_region_def Let_def index_set_def)
    then show ?thesis using put [of i a] i by (simp add: n)
  next
    case True
    then have us: "E820MemoryRegion_is_usable r" "?s \<noteq> 0" and le: "unat f + 4096 \<le> unat ?s + unat ?z" "unat ?s \<le> unat f"
      using sp by (auto simp: splittable_def cut_by_def)
    have c: "E820MemoryRegion_contains r f = Inr True"
      using le e by (simp add: E820MemoryRegion_contains_def word_le_nat_alt)
    have f: "unat (f + 4096) = unat f + 4096" "PhysicalFrame_end Size4KiB f = Inr (f + 4096)"
      using le(1) e(1) unat_less_exp [of "?s + ?z"] by (simp_all add: unat_plus_nowrap PhysicalFrame_end_def op_add_def)
    have d: "op_sub (f + 4096) ?s = Inr (f + 4096 - ?s)" "op_sub (?s + ?z) (f + 4096) = Inr (?s + ?z - (f + 4096))"
      using le f e by (simp_all add: op_sub_def word_le_nat_alt)
    let ?u = "PhysicalMemoryRegion_new ?s (f + 4096 - ?s) Reserved"
    let ?v = "PhysicalMemoryRegion_new (f + 4096) (?s + ?z - (f + 4096)) Free"
    show ?thesis
    proof (cases "f + 4096 = ?s + ?z")
      case True
      then have n: "split_region f r = [?u]" using \<open>cut_by f r\<close> by (simp add: split_region_def)
      have "memory_map_turn Size4KiB f r (a, i) = Inr (a[i := Some ?u], Suc i)"
        using i us c f d e True by (simp add: n memory_map_turn_def Let_def index_set_def)
      then show ?thesis using put [of i a] i by (simp add: n)
    next
      case False
      then have n: "split_region f r = [?u, ?v]" using \<open>cut_by f r\<close> by (simp add: split_region_def)
      have "memory_map_turn Size4KiB f r (a, i) = Inr (a[i := Some ?u, Suc i := Some ?v], Suc (Suc i))"
        using i us c f d e False by (simp add: n memory_map_turn_def Let_def index_set_def)
      then show ?thesis using put [of i a] put [of "Suc i" "a[i := Some ?u]"] i by (simp add: n)
    qed
  qed
qed

lemma memory_map_turn_low:
  "low_region r \<Longrightarrow> i < length a \<Longrightarrow>
   memory_map_turn Size4KiB f r (a, i) = Inr (a[i := Some ((E820MemoryRegion_into r)\<lparr>pmr_typ := Reserved\<rparr>)], i)"
  by (simp add: memory_map_turn_def low_region_def Let_def index_set_def)

lemma kept_regions_simps [simp]:
  "kept_regions f [] = []"
  "kept_regions f (r # rs) = (if low_region r then [] else split_region f r) @ kept_regions f rs"
  by (simp_all add: kept_regions_def)

lemma split_region_ne: "split_region f r \<noteq> []"
  by (simp add: split_region_def)

lemma kept_regions_ne: "rs \<noteq> [] \<Longrightarrow> \<not> low_region (last rs) \<Longrightarrow> kept_regions f rs \<noteq> []"
  by (induction rs) (auto simp: split_region_ne split: if_splits)

lemma drop_update_later: "i < j \<Longrightarrow> drop j (xs[i := v]) = drop j xs"
  by simp

lemma memory_map_fold:
  assumes "list_all (splittable f) rs" "i + length (kept_regions f rs) < length a"
  shows "rfold (memory_map_turn Size4KiB f) rs (a, i) =
     Inr (take i a @ map Some (kept_regions f rs @ last_low rs) @ drop (i + length (kept_regions f rs @ last_low rs)) a,
          i + length (kept_regions f rs))"
  using assms
proof (induction rs arbitrary: a i)
  case Nil
  then show ?case by (simp add: last_low_def)
next
  case (Cons r rs)
  show ?case
  proof (cases "low_region r")
    case True
    let ?v = "Some ((E820MemoryRegion_into r)\<lparr>pmr_typ := Reserved\<rparr>)"
    have i: "i < length a" using Cons.prems(2) by simp
    have IH: "rfold (memory_map_turn Size4KiB f) rs (a[i := ?v], i) =
        Inr (take i a @ map Some (kept_regions f rs @ last_low rs) @ drop (i + length (kept_regions f rs @ last_low rs)) (a[i := ?v]),
          i + length (kept_regions f rs))"
      using Cons.IH [of i "a[i := ?v]"] Cons.prems True by simp
    show ?thesis
    proof (cases "rs = []")
      case rs: True
      then show ?thesis
        using True memory_map_turn_low [OF True i] i by (simp add: last_low_def upd_conv_take_nth_drop)
    next
      case False
      then have "kept_regions f rs @ last_low rs \<noteq> []" using kept_regions_ne [OF False] by (auto simp: last_low_def)
      then have "0 < length (kept_regions f rs @ last_low rs)" by blast
      then have "drop (i + length (kept_regions f rs @ last_low rs)) (a[i := ?v]) = drop (i + length (kept_regions f rs @ last_low rs)) a"
        by (intro drop_update_later) linarith
      moreover have "last_low (r # rs) = last_low rs" using False by (simp add: last_low_def)
      ultimately show ?thesis using IH True memory_map_turn_low [OF True i] by simp
    qed
  next
    case False
    let ?n = "length (split_region f r)"
    obtain a1 where 1: "memory_map_turn Size4KiB f r (a, i) = Inr (a1, i + ?n)" "length a1 = length a"
      "take (i + ?n) a1 = take i a @ map Some (split_region f r)" "drop (i + ?n) a1 = drop (i + ?n) a"
      using memory_map_turn_split [of f r i a] Cons.prems False by auto
    have d: "drop (i + ?n + k) a1 = drop (i + ?n + k) a" for k using 1(4) by (metis add.commute drop_drop)
    have "last_low (r # rs) = last_low rs" using False by (simp add: last_low_def)
    then show ?thesis
      using Cons.IH [of "i + ?n" a1] Cons.prems 1 False d [of "length (kept_regions f rs @ last_low rs)"]
      by (simp add: add.assoc)
  qed
qed

lemma reported_Some: "reported_regions (map Some xs @ replicate n None) = xs"
  by (induction xs) (simp_all add: reported_regions_def List.map_filter_simps, induction n, simp_all add: List.map_filter_simps)

lemma build_memory_map_kept:
  assumes "list_all (splittable f) rs" "length (kept_regions f rs) < 0x20"
  shows "\<exists>m. build_memory_map Size4KiB rs f = Inr m \<and> reported_regions m = kept_regions f rs @ last_low rs"
proof -
  let ?c = "kept_regions f rs @ last_low rs"
  have "rfold (memory_map_turn Size4KiB f) rs (replicate 0x20 None, 0) =
      Inr (map Some ?c @ replicate (0x20 - length ?c) None, length (kept_regions f rs))"
    using memory_map_fold [OF assms(1), of 0 "replicate 0x20 None"] assms(2)
    by (simp only: take_0 append_Nil add_0 drop_replicate length_replicate)
  then have "build_memory_map Size4KiB rs f = Inr (map Some ?c @ replicate (0x20 - length ?c) None)"
    by (simp only: build_memory_map_def rbind_Inr prod.case)
  with reported_Some [of ?c] show ?thesis by blast
qed

lemma build_memory_map_split:
  assumes "list_all (splittable f) rs" "\<not> list_ex low_region rs" "length (concat (map (split_region f) rs)) < 0x20"
  shows "\<exists>m. build_memory_map Size4KiB rs f = Inr m \<and> reported_regions m = concat (map (split_region f) rs)"
proof -
  have "filter (\<lambda>r. \<not> low_region r) rs = rs" using assms(2) by (simp add: list_ex_iff filter_id_conv)
  moreover from this have "last_low rs = []" using assms(2) by (auto simp: last_low_def list_ex_iff)
  ultimately show ?thesis using build_memory_map_kept [OF assms(1)] assms(3) by (simp add: kept_regions_def)
qed

lemma MemoryMap_get_lists:
  assumes "e820_lists B rs" "\<not> lock_status mutex" "length (mm_map (mutex_inner mutex)) = 0x20" "length rs \<le> fuel" "length rs \<le> 0x20"
  shows "\<exists>mp. MemoryMap_get fuel B mutex = Inr (True, mutex\<lparr>lock_status := True, mutex_inner := \<lparr>mm_map = mp, mm_size = length rs - 1\<rparr>\<rparr>) \<and>
     length mp = 0x20 \<and> take (length rs - 1) mp = butlast rs"
proof -
  have "0 < length rs" using assms(1) by (simp add: e820_lists_def)
  with memory_map_loop_lists [OF assms(1,3), of 0 fuel, unfolded semiring_1_class.of_nat_0] assms(4,5) obtain mp where
    mp: "memory_map_loop fuel B (mm_map (mutex_inner mutex)) 0 0 = Inr (Some (length rs - 1), mp)" "length mp = 32" "take (length rs) mp = rs"
    by auto
  have "Mutex_lock_turn mutex = (True, mutex\<lparr>lock_status := True\<rparr>)" using assms(2) by (simp add: lock_turn_simps)
  moreover have "take (length rs - 1) mp = butlast rs" using arg_cong [OF mp(3), of butlast] mp(2) assms(5) by (simp add: butlast_take)
  ultimately show ?thesis using mp by (intro exI [of _ mp]) (simp add: MemoryMap_get_def)
qed

section \<open>Properties\<close>

text \<open>
  The memory map of the BIOS: when the BIOS lists the regions \<open>rs\<close>, \<open>get\<close> returns after one call per
  region, but the map leaves the last region out, because the loop ends before it counts the entry that
  came with the end mark. With more than 32 regions \<open>get\<close> panics instead of stopping at the end of
  the array.
\<close>

theorem memory_map_get_drops_last:
  assumes "e820_lists B rs" "\<not> lock_status mutex" "length (mm_map (mutex_inner mutex)) = 0x20" "length rs \<le> fuel"
  shows "if length rs \<le> 0x20
     then \<exists>mutex'. MemoryMap_get fuel B mutex = Inr (True, mutex') \<and> lock_status mutex' \<and>
            MemoryMap_iter (mutex_inner mutex') = Inr (butlast rs)
     else MemoryMap_get fuel B mutex = Inl Index_Out_Of_Bounds"
proof -
  have "0 < length rs" using assms(1) by (simp add: e820_lists_def)
  with memory_map_loop_lists [OF assms(1,3), of 0 fuel, unfolded semiring_1_class.of_nat_0] assms(4) have
    l: "if length rs \<le> 32
      then \<exists>mp'. memory_map_loop fuel B (mm_map (mutex_inner mutex)) 0 0 = Inr (Some (length rs - 1), mp') \<and>
             length mp' = 32 \<and> take (length rs) mp' = rs
      else memory_map_loop fuel B (mm_map (mutex_inner mutex)) 0 0 = Inl Index_Out_Of_Bounds"
    by simp
  have lk: "Mutex_lock_turn mutex = (True, mutex\<lparr>lock_status := True\<rparr>)" using assms(2) by (simp add: lock_turn_simps)
  show ?thesis
  proof (cases "length rs \<le> 32")
    case False
    with l lk show ?thesis by (simp add: MemoryMap_get_def)
  next
    case True
    with MemoryMap_get_lists [OF assms] obtain mp' where "MemoryMap_get fuel B mutex =
        Inr (True, mutex\<lparr>lock_status := True, mutex_inner := \<lparr>mm_map = mp', mm_size = length rs - 1\<rparr>\<rparr>)"
      "length mp' = 32" "take (length rs - 1) mp' = butlast rs" by auto
    with True show ?thesis by (simp add: MemoryMap_iter_def)
  qed
qed

theorem memory_map_get_drops_last_witness:
  "\<exists>mutex'. MemoryMap_get 2 (\<lambda>c old. if c = 0 then (MAGIC_NUMBER, 24, 1, E820MemoryRegion_empty)
        else (MAGIC_NUMBER, 24, 0, E820MemoryRegion_empty\<lparr>e820_typ := E820_Normal\<rparr>)) MEMORY_MAP = Inr (True, mutex') \<and>
     MemoryMap_iter (mutex_inner mutex') = Inr [E820MemoryRegion_empty]"
proof -
  let ?r = "E820MemoryRegion_empty\<lparr>e820_typ := E820_Normal\<rparr>"
  let ?B = "\<lambda>c old. if c = 0 then (MAGIC_NUMBER, 24, 1, E820MemoryRegion_empty) else (MAGIC_NUMBER, 24, 0, ?r)"
  have "e820_lists ?B [E820MemoryRegion_empty, ?r]"
    by (auto simp: e820_lists_def less_Suc_eq intro!: exI [of _ 24])
  from memory_map_get_drops_last [OF this, of MEMORY_MAP 2] show ?thesis
    by (simp add: MEMORY_MAP_def Mutex_new_def) blast
qed

text \<open>
  C19. The map for the kernel: on regions that do not wrap around, when the last frame ends inside every usable region
  it starts in and fewer than 32 entries are needed, \<open>build_memory_map\<close> returns. It reports the regions in
  the order of the BIOS, those cut by the last frame in two, so that a byte is free exactly when it
  belongs to a usable region that does not start at 0 and is not in a region cut by the last frame below the end of
  that frame. Of the usable memory that starts at 0 nothing is free, but it is not reserved either: its entry is
  overwritten by the next region. The reported regions cover exactly the bytes of the other regions,
  and those of the low memory only when it comes last.
\<close>

theorem build_memory_map_correct:
  assumes "list_all (splittable f) rs" "length (kept_regions f rs) < 0x20"
  shows "\<exists>m. build_memory_map Size4KiB rs f = Inr m \<and>
     reported_regions m = concat (map (split_region f) (filter (\<lambda>r. \<not> low_region r) rs)) @ last_low rs \<and>
     (\<Union>r \<in> set (reported_regions m). pmr_bytes r) =
       (\<Union>r \<in> {r \<in> set rs. \<not> (E820MemoryRegion_is_usable r \<and> e820_start r = 0)}. e820_bytes r) \<union>
       (if rs \<noteq> [] \<and> E820MemoryRegion_is_usable (last rs) \<and> e820_start (last rs) = 0 then e820_bytes (last rs) else {}) \<and>
     (\<Union>r \<in> {r \<in> set (reported_regions m). pmr_typ r = Free}. pmr_bytes r) =
       (\<Union>r \<in> {r \<in> set rs. E820MemoryRegion_is_usable r \<and> e820_start r \<noteq> 0}.
          e820_bytes r - (if cut_by f r then {..< unat f + 4096} else {}))"
proof -
  obtain m where m: "build_memory_map Size4KiB rs f = Inr m" "reported_regions m = kept_regions f rs @ last_low rs"
    using build_memory_map_kept [OF assms] by blast
  have sp: "splittable f r" if "r \<in> set rs" for r using assms(1) that by (simp add: list_all_iff)
  have k: "set (kept_regions f rs) = (\<Union>r \<in> {r \<in> set rs. \<not> low_region r}. set (split_region f r))"
    by (auto simp: kept_regions_def)
  have l: "(\<Union>r \<in> set (last_low rs). pmr_bytes r) = (if rs \<noteq> [] \<and> low_region (last rs) then e820_bytes (last rs) else {})"
    "\<forall>r \<in> set (last_low rs). pmr_typ r \<noteq> Free"
    by (auto simp: last_low_def E820MemoryRegion_into_def PhysicalMemoryRegion_new_def pmr_bytes_def e820_bytes_def)
  have "(\<Union>r \<in> set (kept_regions f rs). pmr_bytes r) = (\<Union>r \<in> {r \<in> set rs. \<not> low_region r}. e820_bytes r)"
    using split_region_bytes(1) [OF sp] unfolding k by blast
  moreover have "(\<Union>r \<in> {r \<in> set (kept_regions f rs). pmr_typ r = Free}. pmr_bytes r) =
      (\<Union>r \<in> {r \<in> set rs. E820MemoryRegion_is_usable r \<and> e820_start r \<noteq> 0}. e820_bytes r - (if cut_by f r then {..< unat f + 4096} else {}))"
  proof -
    have "x \<in> (\<Union>r \<in> {r \<in> set (kept_regions f rs). pmr_typ r = Free}. pmr_bytes r) \<longleftrightarrow>
      (\<exists>r \<in> set rs. \<not> low_region r \<and> E820MemoryRegion_is_usable r \<and> x \<in> e820_bytes r \<and> \<not> (cut_by f r \<and> x < unat f + 4096))" for x
      using split_region_bytes(2) [OF sp, of _ x] unfolding k by blast
    then show ?thesis by (intro set_eqI) (auto simp: low_region_def)
  qed
  moreover have "{r \<in> set (reported_regions m). pmr_typ r = Free} = {r \<in> set (kept_regions f rs). pmr_typ r = Free}"
    using l(2) unfolding m(2) by auto
  ultimately show ?thesis
    using m l(1) by (intro exI [of _ m]) (simp add: low_region_def [abs_def] kept_regions_def)
qed

text \<open>The low memory of a PC is missing from the map, as another region follows it.\<close>

theorem build_memory_map_correct_witness:
  "\<exists>m. build_memory_map Size4KiB
        [\<lparr>e820_start = 0, e820_size = 0x9FC00, e820_typ = E820_Normal, acpi_extended_attributes = 1\<rparr>,
         \<lparr>e820_start = 0x100000, e820_size = 0x100000, e820_typ = E820_Normal, acpi_extended_attributes = 1\<rparr>]
        0x120000 = Inr m \<and>
     (\<Union>r \<in> set (reported_regions m). pmr_bytes r) = {0x100000 ..< 0x200000} \<and>
     (\<Union>r \<in> {r \<in> set (reported_regions m). pmr_typ r = Free}. pmr_bytes r) = {0x121000 ..< 0x200000}"
proof -
  let ?l = "\<lparr>e820_start = 0, e820_size = 0x9FC00, e820_typ = E820_Normal, acpi_extended_attributes = 1\<rparr>"
  let ?r = "\<lparr>e820_start = 0x100000, e820_size = 0x100000, e820_typ = E820_Normal, acpi_extended_attributes = 1\<rparr>"
  have c: "cut_by 0x120000 ?r" "\<not> cut_by 0x120000 ?l" "low_region ?l" "\<not> low_region ?r"
    by (simp_all add: cut_by_def low_region_def E820MemoryRegion_is_usable_def)
  have "list_all (splittable 0x120000) [?l, ?r]" "length (kept_regions 0x120000 [?l, ?r]) < 0x20"
    using c by (simp_all add: splittable_def split_region_def)
  from build_memory_map_correct [OF this] obtain m where
    m: "build_memory_map Size4KiB [?l, ?r] 0x120000 = Inr m"
      "(\<Union>r \<in> set (reported_regions m). pmr_bytes r) =
         (\<Union>r \<in> {r \<in> set [?l, ?r]. \<not> (E820MemoryRegion_is_usable r \<and> e820_start r = 0)}. e820_bytes r)"
      "(\<Union>r \<in> {r \<in> set (reported_regions m). pmr_typ r = Free}. pmr_bytes r) =
         (\<Union>r \<in> {r \<in> set [?l, ?r]. E820MemoryRegion_is_usable r \<and> e820_start r \<noteq> 0}.
            e820_bytes r - (if cut_by 0x120000 r then {..< unat (0x120000 :: u64) + 4096} else {}))"
    by auto
  have "{r \<in> set [?l, ?r]. \<not> (E820MemoryRegion_is_usable r \<and> e820_start r = 0)} = {?r}"
    "{r \<in> set [?l, ?r]. E820MemoryRegion_is_usable r \<and> e820_start r \<noteq> 0} = {?r}"
    by (auto simp: E820MemoryRegion_is_usable_def)
  with m c(1) show ?thesis by (intro exI [of _ m]) (auto simp: e820_bytes_def)
qed

end
