(* ===== verification/Stage2_Main.thy ===== *)
theory Stage2_Main
  imports Boot_Sector Fat_Termination Vesa Memory_Maps Registers
begin

text \<open>
  Stage 2 of the boot loader (\<open>stage2/src/main.rs\<close> and \<open>protected_mode.rs\<close>), which runs in real mode: it lifts
  the limit of the data segment (unreal mode), loads stage 3, stage 4 and the kernel from the FAT partition,
  asks the BIOS for the memory map and a video mode, and jumps to stage 3 in protected mode. The text that is
  printed is left out.
\<close>

section \<open>Unreal mode\<close>

text \<open>
  The processor keeps a copy of the descriptor of a loaded segment. A load in protected mode fills it from the
  descriptor table, a load in real mode leaves its limit as it is. The model has the limits for \<open>ds\<close> and \<open>ss\<close>.
\<close>

type_synonym segment_limits = "u32 \<times> u32"

definition effective_limit :: "u64 \<Rightarrow> u32" where
  "effective_limit d = (if bit d 55 then push_bit 12 (descriptor_limit d) OR 0xfff else descriptor_limit d)"

definition load_ds_ss :: "GlobalDescriptorTable \<Rightarrow> u16 \<Rightarrow> u16 \<Rightarrow> cpu \<times> segment_limits \<Rightarrow> cpu \<times> segment_limits" where
  "load_ds_ss GDT ds ss = (\<lambda>(s, limits).
     (s\<lparr>cpu_ds := ds, cpu_ss := ss\<rparr>,
      if cpu_cr0 s AND PROTECTED_MODE_ENABLE = 0 then limits
      else (effective_limit (gdt_entries GDT ! unat (drop_bit 3 ds)), effective_limit (gdt_entries GDT ! unat (drop_bit 3 ss)))))"

definition enter_unreal_mode :: "crates \<Rightarrow> u64 \<Rightarrow> cpu \<times> segment_limits \<Rightarrow> (cpu \<times> segment_limits) res" where
  "enter_unreal_mode C gdt_ptr = (\<lambda>(s, limits).
     let ds = cpu_ds s;
         ss = cpu_ss s in
     rbind (stage2_GDT C) (\<lambda>GDT.
     let s = clear_interrupts_and_load GDT gdt_ptr s;
         s = Cr0_update C (\<lambda>val. flags_union C val PROTECTED_MODE_ENABLE) s;
         (s, limits) = load_ds_ss GDT 0x10 0x10 (s, limits);
         s = Cr0_update C (\<lambda>val. flags_intersection C val (flags_complement C all_cr0_flags PROTECTED_MODE_ENABLE)) s;
         (s, limits) = load_ds_ss GDT ds ss (s, limits) in
     Inr (interrupts_enable s, limits)))"

section \<open>The jump to stage 3\<close>

record stage3_entry =
  s3_eip :: u32
  s3_esp :: u32
  s3_argument :: u32

definition enter_protected_mode_and_jump_to_stage3 :: "crates \<Rightarrow> u32 \<Rightarrow> u32 \<Rightarrow> u32 \<Rightarrow> cpu \<Rightarrow> stage3_entry \<times> cpu" where
  "enter_protected_mode_and_jump_to_stage3 C esp entry info_ptr s =
     (let s = interrupts_disable s;
          s = Cr0_update C (\<lambda>val. flags_union C val PROTECTED_MODE_ENABLE) s;
          esp = esp AND 0xffffff00;
          ws = [info_ptr];
          ws = entry # ws;
          esp = esp - 8;
          s = s\<lparr>cpu_cs := 0x8\<rparr>;
          s = s\<lparr>cpu_ds := 0x10, cpu_es := 0x10, cpu_ss := 0x10\<rparr>;
          target = hd ws;
          ws = tl ws;
          esp = esp + 4;
          esp = esp - 4 in
      (\<lparr>s3_eip = target, s3_esp = esp, s3_argument = hd ws\<rparr>, s))"

section \<open>Stage 2\<close>

definition STAGE3_DST :: u32 where "STAGE3_DST = 0x00100000"
definition STAGE4_DST :: u32 where "STAGE4_DST = 0x00120000"
definition KERNEL_DST :: u32 where "KERNEL_DST = 0x00200000"

text \<open>\<open>expect\<close> on a \<open>Result\<close>.\<close>

definition expect_ok :: "'e + 'a \<Rightarrow> 'a res" where
  "expect_ok r = (case r of Inl _ \<Rightarrow> Inl Unwrap_None | Inr v \<Rightarrow> Inr v)"

text \<open>The BIOS services, and where the linker and the compiler have put the variables and the stack.\<close>

record stage2_bios =
  bios_disk :: bios
  bios_e820 :: e820_bios
  bios_vbe :: vbe_bios

record stage2_layout =
  lay_gdt :: u64
  lay_vbe_info :: u32
  lay_mode_info :: u32
  lay_memory_map :: u32
  lay_bios_info :: u32
  lay_esp :: u32

definition read_partition_table :: "memory \<Rightarrow> u32 \<Rightarrow> PartitionTableEntry list res" where
  "read_partition_table m start =
     (let raw = map (\<lambda>i. m (start + of_nat i)) [0 ..< PARTITION_TABLE_ENTRY_COUNT * PARTITION_TABLE_ENTRY_SIZE] in
      rfold (\<lambda>i table. rbind (get_partition_table_entry raw (of_nat i)) (index_set table i)) [0 ..< 4]
        (replicate PARTITION_TABLE_ENTRY_COUNT PartitionTableEntry_default))"

text \<open>The files are copied behind the first MiB, which faults when the limit of \<open>ds\<close> has not been lifted.\<close>

definition load_stages ::
    "nat \<Rightarrow> bios \<Rightarrow> segment_limits \<Rightarrow> stage2_buffers \<Rightarrow> FATFileSystem \<Rightarrow> memory \<Rightarrow>
     (u32 \<times> u32 \<times> u32 \<times> stage2_buffers \<times> FATFileSystem \<times> memory) res" where
  "load_stages fuel B limits env fs m =
     (if fst limits \<noteq> 0xffffffff then Inl Undefined_Behaviour
      else
        rbind (try_load_file fuel B env fs (map (of_char :: char \<Rightarrow> nat) ''stage3'') STAGE3_DST m) (\<lambda>(r, env, fs, m).
        rbind (expect_ok r) (\<lambda>stage3_len.
        rbind (try_load_file fuel B env fs (map (of_char :: char \<Rightarrow> nat) ''stage4'') STAGE4_DST m) (\<lambda>(r, env, fs, m).
        rbind (expect_ok r) (\<lambda>stage4_len.
        rbind (try_load_file fuel B env fs (map (of_char :: char \<Rightarrow> nat) ''kernel'') KERNEL_DST m) (\<lambda>(r, env, fs, m).
        rbind (expect_ok r) (\<lambda>kernel_len.
        Inr (stage3_len, stage4_len, kernel_len, env, fs, m))))))))"

definition set_video_mode :: "vbe_bios \<Rightarrow> u16 \<Rightarrow> stage2_layout \<Rightarrow> memory \<Rightarrow> VbeModeInfo res" where
  "set_video_mode V es L m =
     rbind (VbeInfo_get V es (lay_vbe_info L)) (\<lambda>r.
     rbind (expect_ok r) (\<lambda>vesa_info.
     rbind (VbeInfo_get_best_mode V m vesa_info (lay_mode_info L) 1280 1024 24) (\<lambda>mode.
     rbind (expect mode) (\<lambda>mode.
     rbind (VbeModeInfo_get V (lay_mode_info L) mode) (\<lambda>r.
     rbind (expect_ok r) (\<lambda>mode_info.
     rbind (expect_ok (VbeInfo_set_mode V mode)) (\<lambda>_.
     Inr mode_info)))))))"

definition stage2_start ::
    "nat \<Rightarrow> crates \<Rightarrow> stage2_bios \<Rightarrow> stage2_layout \<Rightarrow> u16 \<Rightarrow> u32 \<Rightarrow> BiosInfo Mutex \<Rightarrow> MemoryMap Mutex \<Rightarrow> stage2_buffers \<Rightarrow>
     cpu \<times> segment_limits \<times> memory \<Rightarrow> (stage3_entry \<times> cpu \<times> BiosInfo Mutex \<times> MemoryMap Mutex \<times> memory) res" where
  "stage2_start fuel C B L dn partition_table_start BIOS_INFO map_lock env = (\<lambda>(s, limits, m).
     rbind (enter_unreal_mode C (lay_gdt L) (s, limits)) (\<lambda>(s, limits).
     rbind (read_partition_table m partition_table_start) (\<lambda>partition_table.
     rbind (expect (get_nth partition_table 1)) (\<lambda>fat_partition.
     rbind (rassert (partition_type fat_partition = 0xc)) (\<lambda>_.
     rbind (DiskAccess_new dn (ucast (logical_block_address fat_partition)) 0) (\<lambda>disk.
     rbind (FATFileSystem_parse (bios_disk B) env disk) (\<lambda>(fs, env).
     rbind (load_stages fuel (bios_disk B) limits env fs m) (\<lambda>(stage3_len, stage4_len, kernel_len, env, fs, m).
     rbind (MemoryMap_get fuel (bios_e820 B) map_lock) (\<lambda>(ok, memory_map).
     rbind (expect (if ok then Some memory_map else None)) (\<lambda>memory_map.
     rbind (MemoryMap_iter (mutex_inner memory_map)) (\<lambda>_.
     rbind (set_video_mode (bios_vbe B) (cpu_es s) L m) (\<lambda>mode_info.
     rbind (static_lock BIOS_INFO) (\<lambda>bios_info.
     rbind (VbeModeInfo_to_framebuffer_info mode_info) (\<lambda>fb.
     rbind (op_add (ucast KERNEL_DST) (ucast kernel_len)) (\<lambda>last_address.
     let bios_info = bios_info\<lparr>mutex_inner := (mutex_inner bios_info)
           \<lparr>bios_stage4 := PhysicalMemoryRegion_new (ucast STAGE4_DST) (ucast stage4_len) Reserved,
            bios_kernel := PhysicalMemoryRegion_new (ucast KERNEL_DST) (ucast kernel_len) Reserved,
            bios_framebuffer := fb,
            last_physical_address := last_address,
            memory_map_address := ucast (lay_memory_map L),
            memory_map_size := of_nat (mm_size (mutex_inner memory_map))\<rparr>\<rparr>;
         (entry, s) = enter_protected_mode_and_jump_to_stage3 C (lay_esp L) STAGE3_DST (lay_bios_info L) s in
     Inr (entry, s, bios_info, memory_map, m))))))))))))))))"

end
