(* ===== verification/Stage2_Correct.thy ===== *)
theory Stage2_Correct
  imports Stage2_Main
begin

text \<open>
  Stage 2 from start to end: what unreal mode leaves in the registers, the files behind the first MiB, the
  video mode, and the information it hands to stage 3.
\<close>

section \<open>Unreal mode and the partition table\<close>

lemma cr0_update_eq:
  assumes "crates_ok C"
  shows "Cr0_update C (\<lambda>val. flags_union C val PROTECTED_MODE_ENABLE) s = s\<lparr>cpu_cr0 := (cpu_cr0 s AND all_cr0_flags) OR 1\<rparr>"
    and "Cr0_update C (\<lambda>val. flags_intersection C val (flags_complement C all_cr0_flags PROTECTED_MODE_ENABLE)) s =
      s\<lparr>cpu_cr0 := cpu_cr0 s AND all_cr0_flags AND NOT 1\<rparr>"
  by (simp_all add: Cr0_update_def Cr0_read_def Cr0_read_raw_def Cr0_write_def Cr0_write_raw_def crates_okD [OF assms]
      PROTECTED_MODE_ENABLE_def and.assoc) (metis (no_types) and.assoc and.commute and.idem)

lemma stage2_GDT_values:
  assumes "crates_ok C"
  shows "\<exists>g. stage2_GDT C = Inr g \<and> gdt_entries g ! 2 = 0x00CF93000000FFFF \<and> GlobalDescriptorTableDescriptor_new g a = (23, a)"
  by (simp add: stage2_GDT_def two_segment_gdt_def segment_values [OF assms] segment_privilege add_entry_defs
      GlobalDescriptorTableDescriptor_new_def)

lemma enter_unreal_mode_eq:
  assumes "crates_ok C"
  shows "enter_unreal_mode C gdt_ptr (s, limits) =
     Inr (s\<lparr>cpu_cr0 := cpu_cr0 s AND all_cr0_flags AND NOT 1, cpu_gdtr := (23, gdt_ptr), cpu_interrupts := True\<rparr>, (0xffffffff, 0xffffffff))"
proof -
  from stage2_GDT_values [OF assms] obtain g where
    g: "stage2_GDT C = Inr g" "gdt_entries g ! 2 = 0x00CF93000000FFFF" "GlobalDescriptorTableDescriptor_new g gdt_ptr = (23, gdt_ptr)" by blast
  have l: "effective_limit 0x00CF93000000FFFF = 0xffffffff" by (simp add: effective_limit_def descriptor_limit_def)
  have z: "((x AND all_cr0_flags) OR 1) AND all_cr0_flags AND NOT 1 = x AND all_cr0_flags AND NOT 1" for x
    by (rule bit_word_eqI) (auto simp: bit_simps)
  have p: "((x AND all_cr0_flags) OR 1) AND PROTECTED_MODE_ENABLE \<noteq> 0" "(x AND all_cr0_flags AND NOT 1) AND PROTECTED_MODE_ENABLE = 0" for x
  proof -
    have "((x AND all_cr0_flags) OR 1) AND 1 = (1 :: u64)" "(x AND all_cr0_flags AND NOT 1) AND 1 = (0 :: u64)"
      by (rule bit_word_eqI, auto simp: bit_simps)+
    then show "((x AND all_cr0_flags) OR 1) AND PROTECTED_MODE_ENABLE \<noteq> 0" "(x AND all_cr0_flags AND NOT 1) AND PROTECTED_MODE_ENABLE = 0"
      by (simp_all add: PROTECTED_MODE_ENABLE_def)
  qed
  show ?thesis
    using g l z p by (simp add: enter_unreal_mode_def clear_interrupts_and_load_def GlobalDescriptorTable_load_def interrupts_disable_def
        interrupts_enable_def cr0_update_eq [OF assms] load_ds_ss_def)
qed

lemma get_partition_table_entry_raw:
  assumes "length raw = 64" "i < 4"
  shows "get_partition_table_entry raw (of_nat i) = Inr (PartitionTableEntry_new (raw ! (16 * i) = 0x80) (raw ! (16 * i + 4))
     (from_le_bytes (take 4 (drop (16 * i + 8) raw))) (from_le_bytes (take 4 (drop (16 * i + 12) raw))))"
proof -
  have u: "unat (of_nat i :: u32) = i" using assms(2) by (simp add: unat_of_nat)
  then have "op_mul (of_nat i :: u32) 16 = Inr (of_nat i * 16)" "unat (of_nat i * 16 :: u32) = 16 * i"
    using assms(2) by (simp_all add: op_mul_def unat_times_nowrap)
  moreover have "4 \<le> 52 - 16 * i" "12 \<le> 64 - 16 * i" "4 \<le> 56 - 16 * i" using assms(2) by linarith+
  ultimately show ?thesis
    using assms by (simp add: get_partition_table_entry_def get_from_def get_to_def get_nth_def expect_def add.commute)
qed

lemma read_partition_table_entry:
  defines "b \<equiv> \<lambda>m start i. m (start + of_nat i :: u32) :: u8"
  shows "\<exists>table. read_partition_table m start = Inr table \<and>
     get_nth table 1 = Some (PartitionTableEntry_new (b m start 16 = 0x80) (b m start 20)
       (from_le_bytes (map (b m start) [24 ..< 28])) (from_le_bytes (map (b m start) [28 ..< 32])))"
proof -
  let ?raw = "map (b m start) [0 ..< 64]"
  have l: "length ?raw = 64" by simp
  have t: "take 4 (drop 24 ?raw) = map (b m start) [24 ..< 28]" "take 4 (drop 28 ?raw) = map (b m start) [28 ..< 32]"
    by (simp_all only: drop_map take_map drop_upt take_upt) simp_all
  note e = get_partition_table_entry_raw [OF l]
  have u: "[0 ..< 4] = [0, 1, 2, 3 :: nat]" by (simp add: upt_rec)
  have r: "replicate 4 (x :: PartitionTableEntry) = [x, x, x, x]" for x by (simp add: eval_nat_numeral)
  show ?thesis
    unfolding read_partition_table_def PARTITION_TABLE_ENTRY_COUNT_def PARTITION_TABLE_ENTRY_SIZE_def Let_def u r
    using e [of 0] e [of 1] e [of 2] e [of 3] t by (simp add: index_set_def get_nth_def b_def nth_append)
qed

section \<open>The files\<close>

text \<open>
  A file with this name and size is on the volume: its cluster chain ends and has at least as many bytes as the
  directory says. \<open>bytes\<close> are those of the whole chain.
\<close>

definition stored_file :: "(nat \<Rightarrow> u8) \<Rightarrow> nat \<Rightarrow> BiosParameterBlock \<Rightarrow> string \<Rightarrow> u32 \<Rightarrow> u8 list \<Rightarrow> bool" where
  "stored_file img base b name len bytes \<longleftrightarrow>
     (\<exists>e cs. find_entry (root_dir_bytes img base b) 0 (map of_char name) = Inr (Some e) \<and> \<not> is_dir e \<and>
        chain (fat_entry img base b) (first_cluster e # cs) \<and> set (first_cluster e # cs) \<subseteq> data_clusters b \<and>
        bytes = concat (map (cluster_bytes img base b) (first_cluster e # cs)) \<and> len = file_size e \<and> unat len \<le> length bytes)"

lemma load_stored:
  assumes "bios_reads B img" "fs_ok fs" "buffers_ok env" "base = unat (base_offset (fs_disk fs))"
    and f: "stored_file img base (fs_bpb fs) name len bytes" "length bytes + 511 < 2 ^ 32"
    and "unat (sectors_per_cluster (fs_bpb fs)) \<le> 8" "2 ^ 23 \<le> fuel"
  shows "\<exists>env' d'. try_load_file fuel B env fs (map of_char name) dest m =
       Inr (Inr len, env', fs\<lparr>fs_disk := d'\<rparr>, copy_bytes m dest bytes) \<and> same_disk (fs_disk fs) d' \<and> buffers_ok env'"
proof -
  from f(1) obtain e cs where
    e: "find_entry (root_dir_bytes img base (fs_bpb fs)) 0 (map of_char name) = Inr (Some e)" "\<not> is_dir e"
      "chain (fat_entry img base (fs_bpb fs)) (first_cluster e # cs)" "set (first_cluster e # cs) \<subseteq> data_clusters (fs_bpb fs)"
      "bytes = concat (map (cluster_bytes img base (fs_bpb fs)) (first_cluster e # cs))"
    and len: "len = file_size e" "unat len \<le> length bytes" by (auto simp: stored_file_def)
  have "sectors_per_cluster (fs_bpb fs) \<noteq> 0" using assms(2) by (simp add: fs_ok_def volume_ok_def bpb_ok_def)
  then have "1 \<le> unat (sectors_per_cluster (fs_bpb fs))" by (simp add: Suc_le_eq unat_gt_0)
  moreover have lb: "length bytes = length (first_cluster e # cs) * (unat (sectors_per_cluster (fs_bpb fs)) * 512)"
    unfolding e(5) by (simp add: length_concat o_def sum_list_triv)
  ultimately have "length (first_cluster e # cs) * 512 \<le> length bytes" by (simp only: lb) (intro mult_le_mono2, simp)
  then have "length (first_cluster e # cs) < fuel" using f(2) assms(8) by simp
  from try_load_file_chain [OF assms(1-4) e(1-4) assms(7) _ e(5) _ this, of dest m] len f(2) show ?thesis by simp
qed

lemma load_stages_spec:
  assumes "bios_reads B img" "fs_ok fs" "buffers_ok env" "base = unat (base_offset (fs_disk fs))"
    and "stored_file img base (fs_bpb fs) ''stage3'' l3 b3" "stored_file img base (fs_bpb fs) ''stage4'' l4 b4"
      "stored_file img base (fs_bpb fs) ''kernel'' lk bk"
    and "length b3 + 511 < 2 ^ 32" "length b4 + 511 < 2 ^ 32" "length bk + 511 < 2 ^ 32"
    and "unat (sectors_per_cluster (fs_bpb fs)) \<le> 8" "2 ^ 23 \<le> fuel" "fst limits = 0xffffffff"
  shows "\<exists>env' fs'. load_stages fuel B limits env fs m =
     Inr (l3, l4, lk, env', fs', copy_bytes (copy_bytes (copy_bytes m STAGE3_DST b3) STAGE4_DST b4) KERNEL_DST bk)"
proof -
  have next_fs: "fs_ok (fs\<lparr>fs_disk := d\<rparr>)" "base = unat (base_offset d)" if "same_disk (fs_disk fs) d" for d
    using same_disk_ok(2) [OF that] same_disk_fields [OF that] assms(2,4) by (simp_all add: fs_ok_def)
  obtain env1 d1 where 1: "try_load_file fuel B env fs (map of_char ''stage3'') STAGE3_DST m =
      Inr (Inr l3, env1, fs\<lparr>fs_disk := d1\<rparr>, copy_bytes m STAGE3_DST b3)" "same_disk (fs_disk fs) d1" "buffers_ok env1"
    using load_stored [OF assms(1-5,8,11,12)] by blast
  let ?m = "copy_bytes m STAGE3_DST b3"
  obtain env2 d2 where 2: "try_load_file fuel B env1 (fs\<lparr>fs_disk := d1\<rparr>) (map of_char ''stage4'') STAGE4_DST ?m =
      Inr (Inr l4, env2, fs\<lparr>fs_disk := d2\<rparr>, copy_bytes ?m STAGE4_DST b4)" "same_disk d1 d2" "buffers_ok env2"
    using load_stored [OF assms(1) next_fs(1) [OF 1(2)] 1(3), of base "''stage4''" l4 b4 fuel STAGE4_DST ?m] next_fs(2) [OF 1(2)] assms(6,9,11,12) by auto
  have s2: "same_disk (fs_disk fs) d2" using 1(2) 2(2) by (auto simp: same_disk_def)
  let ?m = "copy_bytes ?m STAGE4_DST b4"
  obtain env3 d3 where 3: "try_load_file fuel B env2 (fs\<lparr>fs_disk := d2\<rparr>) (map of_char ''kernel'') KERNEL_DST ?m =
      Inr (Inr lk, env3, fs\<lparr>fs_disk := d3\<rparr>, copy_bytes ?m KERNEL_DST bk)"
    using load_stored [OF assms(1) next_fs(1) [OF s2] 2(3), of base "''kernel''" lk bk fuel KERNEL_DST ?m] next_fs(2) [OF s2] assms(7,10,11,12) by auto
  show ?thesis using 1(1) 2(1) 3 assms(13) by (simp add: load_stages_def expect_ok_def del: list.map)
qed

lemma copy_bytes_apart:
  assumes "unat dest + length xs \<le> 2 ^ 32" "unat a < unat dest \<or> unat dest + length xs \<le> unat a"
  shows "copy_bytes m dest xs a = m a"
proof (rule copy_bytes_outside)
  fix i assume "i < length xs"
  then have "unat (of_nat i :: u32) = i" "unat dest + i < 2 ^ 32" using assms(1) by (simp_all add: unat_of_nat)
  then have "unat (dest + of_nat i) = unat dest + i" by (simp add: unat_plus_nowrap)
  with assms(2) \<open>i < length xs\<close> show "a \<noteq> dest + of_nat i" by auto
qed

text \<open>The three files stand where they were copied to, provided that they fit between their destinations.\<close>

lemma stages_memory:
  fixes m :: memory
  assumes "length b3 \<le> 0x20000" "length b4 \<le> 0xE0000" "length bk \<le> 2 ^ 32 - 0x200000"
  defines "m' \<equiv> copy_bytes (copy_bytes (copy_bytes m STAGE3_DST b3) STAGE4_DST b4) KERNEL_DST bk"
  shows "i < length b3 \<Longrightarrow> m' (STAGE3_DST + of_nat i) = b3 ! i" "i < length b4 \<Longrightarrow> m' (STAGE4_DST + of_nat i) = b4 ! i"
    and "i < length bk \<Longrightarrow> m' (KERNEL_DST + of_nat i) = bk ! i" "unat a < 0x100000 \<Longrightarrow> m' a = m a"
proof -
  have d: "unat STAGE3_DST = 0x100000" "unat STAGE4_DST = 0x120000" "unat KERNEL_DST = 0x200000"
    by (simp_all add: STAGE3_DST_def STAGE4_DST_def KERNEL_DST_def)
  have u: "unat (x + of_nat i :: u32) = unat x + i" if "unat x + i < 2 ^ 32" for x
    using that by (simp add: unat_plus_nowrap unat_of_nat)
  have k: "copy_bytes n KERNEL_DST bk a = n a" if "unat a < 0x200000" for n a
    by (rule copy_bytes_apart) (use d that assms(3) in simp_all)
  have f: "copy_bytes n STAGE4_DST b4 a = n a" if "unat a < 0x120000" for n a
    by (rule copy_bytes_apart) (use d that assms(2) in simp_all)
  have t: "copy_bytes n STAGE3_DST b3 a = n a" if "unat a < 0x100000" for n a
    by (rule copy_bytes_apart) (use d that assms(1) in simp_all)
  show "m' (STAGE3_DST + of_nat i) = b3 ! i" if "i < length b3"
    unfolding m'_def using that assms(1) d u [of STAGE3_DST] by (subst k, simp, subst f, simp, intro copy_bytes_inside) simp_all
  show "m' (STAGE4_DST + of_nat i) = b4 ! i" if "i < length b4"
    unfolding m'_def using that assms(2) d u [of STAGE4_DST] by (subst k, simp, intro copy_bytes_inside) simp_all
  show "m' (KERNEL_DST + of_nat i) = bk ! i" if "i < length bk"
    unfolding m'_def using that assms(3) by (intro copy_bytes_inside) simp_all
  show "m' a = m a" if "unat a < 0x100000" unfolding m'_def using that by (simp add: k f t)
qed

section \<open>The video mode\<close>

lemma mode_array_low:
  assumes "mode_array m vi modes" "\<And>a. unat a < 0x100000 \<Longrightarrow> m' a = m a"
    and "unat (real_mode_address (RealModePointer_segment (video_mode_array_pointer vi)) (RealModePointer_offset (video_mode_array_pointer vi)))
           + 2 * length modes + 1 < 0x100000"
  shows "mode_array m' vi modes"
proof -
  let ?a = "real_mode_address (RealModePointer_segment (video_mode_array_pointer vi)) (RealModePointer_offset (video_mode_array_pointer vi))"
  have "read_u16 m' (?a + 2 * of_nat i) = read_u16 m (?a + 2 * of_nat i)" if "i \<le> length modes" for i
  proof -
    have e: "?a + 2 * of_nat i = ?a + of_nat (2 * i)" "?a + 2 * of_nat i + 1 = ?a + of_nat (2 * i + 1)" by (simp_all add: algebra_simps)
    have "unat (?a + of_nat k) = unat ?a + k" if "k \<le> 2 * length modes + 1" for k
    proof -
      have "unat (of_nat k :: u32) = k" using that assms(3) by (simp add: unat_of_nat)
      then show ?thesis using that assms(3) by (simp add: unat_plus_nowrap)
    qed
    from this [of "2 * i"] this [of "2 * i + 1"]
    have "unat (?a + of_nat (2 * i)) = unat ?a + 2 * i" "unat (?a + of_nat (2 * i + 1)) = unat ?a + (2 * i + 1)"
      using that by (simp_all del: of_nat_mult of_nat_add)
    then have "unat (?a + of_nat (2 * i)) < 0x100000" "unat (?a + of_nat (2 * i + 1)) < 0x100000" using that assms(3) by linarith+
    then have "unat (?a + 2 * of_nat i) < 0x100000" "unat (?a + 2 * of_nat i + 1) < 0x100000" by (simp_all only: e(1,2) [symmetric])
    then show ?thesis using assms(2) by (simp add: read_u16_def)
  qed
  with assms(1) show ?thesis by (simp add: mode_array_def Let_def)
qed

text \<open>The BIOS answers the calls, and there is a mode that can be used; every such mode has whole bytes for a pixel.\<close>

definition vbe_ready :: "vbe_bios \<Rightarrow> u16 \<Rightarrow> stage2_layout \<Rightarrow> memory \<Rightarrow> u16 list \<Rightarrow> bool" where
  "vbe_ready V es L m modes \<longleftrightarrow>
     (\<exists>vi. vbe_controller_info V VbeInfo_default = (VESA_SUCCESS, vi) \<and> mode_array m vi modes \<and>
        unat (real_mode_address (RealModePointer_segment (video_mode_array_pointer vi)) (RealModePointer_offset (video_mode_array_pointer vi)))
          + 2 * length modes + 1 < 0x100000) \<and>
     real_mode_address es (ucast (lay_vbe_info L)) = lay_vbe_info L \<and> unat (lay_mode_info L) < 2 ^ 16 \<and>
     (\<exists>mode \<in> set modes. usable_mode V mode \<noteq> None) \<and> (\<forall>mode. vbe_set_mode V mode = VESA_SUCCESS) \<and>
     (\<forall>mode \<in> set modes. \<forall>info. usable_mode V mode = Some info \<longrightarrow> 8 \<le> unat (vm_bits_per_pixel info))"

lemma set_video_mode_spec:
  assumes r: "vbe_ready V es L m modes" and m': "\<And>a. unat a < 0x100000 \<Longrightarrow> m' a = m a"
  shows "\<exists>mode info. best_of V 1280 1024 24 modes (Some mode) \<and> usable_mode V mode = Some info \<and>
     set_video_mode V es L m' = Inr info \<and> (\<exists>fb. VbeModeInfo_to_framebuffer_info info = Inr fb)"
proof -
  from r obtain vi where vi: "vbe_controller_info V VbeInfo_default = (VESA_SUCCESS, vi)" "mode_array m vi modes"
      "unat (real_mode_address (RealModePointer_segment (video_mode_array_pointer vi)) (RealModePointer_offset (video_mode_array_pointer vi)))
          + 2 * length modes + 1 < 0x100000" by (auto simp: vbe_ready_def)
  have a: "real_mode_address es (ucast (lay_vbe_info L)) = lay_vbe_info L" "unat (lay_mode_info L) < 2 ^ 16"
    "\<And>mode. vbe_set_mode V mode = VESA_SUCCESS" using r by (simp_all add: vbe_ready_def)
  from best_mode_search [OF mode_array_low [OF vi(2) m' vi(3)] a(2)] obtain b where
    b: "VbeInfo_get_best_mode V m' vi (lay_mode_info L) 1280 1024 24 = Inr b" "best_of V 1280 1024 24 modes b" by blast
  from r b(2) obtain mode info where mo: "b = Some mode" "mode \<in> set modes" "usable_mode V mode = Some info"
    by (cases b) (auto simp: vbe_ready_def best_of_def)
  then have "VbeModeInfo_get V (lay_mode_info L) mode = Inr (Inr info)"
    using real_mode_address_low [of "lay_mode_info L"] a(2)
    by (auto simp: VbeModeInfo_get_def usable_mode_def split: prod.splits if_splits)
  moreover have "8 \<le> unat (vm_bits_per_pixel info)" using r mo by (simp add: vbe_ready_def)
  ultimately show ?thesis
    using vi(1) a b mo by (intro exI [of _ mode] exI [of _ info])
      (simp add: set_video_mode_def VbeInfo_get_def VbeInfo_set_mode_def expect_ok_def expect_def to_framebuffer_info_eq)
qed

section \<open>Stage 2 from start to end\<close>

text \<open>
  What stage 2 needs: a partition table whose second entry is the FAT partition, a FAT12 or FAT16 volume there with
  the three files, each of which fits below the next destination, a BIOS that lists at most 32 memory regions and
  offers a video mode.
\<close>

definition stage2_ready ::
    "crates \<Rightarrow> stage2_bios \<Rightarrow> stage2_layout \<Rightarrow> u32 \<Rightarrow> stage2_buffers \<Rightarrow> u16 \<Rightarrow> memory \<Rightarrow>
     (string \<Rightarrow> u32 \<times> u8 list) \<Rightarrow> E820MemoryRegion list \<Rightarrow> u16 list \<Rightarrow> bool" where
  "stage2_ready C B L start env es m files rs modes \<longleftrightarrow>
     (\<exists>img b lba. bios_reads (bios_disk B) img \<and> buffers_ok env \<and> m (start + 20) = 0xc \<and>
        lba = unat (from_le_bytes (map (\<lambda>i. m (start + of_nat i)) [24 ..< 28]) :: u32) \<and>
        parse_bpb_sector (image_bytes img (512 * lba) 512) = Inr b \<and> bpb_ok b \<and> volume_type b \<noteq> Fat32 \<and>
        root_entry_count b = 512 \<and> unat (sectors_per_cluster b) \<le> 8 \<and>
        (\<forall>name \<in> {''stage3'', ''stage4'', ''kernel''}. stored_file img (512 * lba) b name (fst (files name)) (snd (files name)))) \<and>
     length (snd (files ''stage3'')) \<le> 0x20000 \<and> length (snd (files ''stage4'')) \<le> 0xE0000 \<and>
     length (snd (files ''kernel'')) \<le> 2 ^ 32 - 0x200000 \<and>
     e820_lists (bios_e820 B) rs \<and> length rs \<le> 0x20 \<and> vbe_ready (bios_vbe B) es L m modes"

lemma stage2_disk:
  assumes "bios_reads B img" "buffers_ok env" "lba = unat (w :: u32)"
    and "parse_bpb_sector (image_bytes img (512 * lba) 512) = Inr b" "bpb_ok b" "volume_type b \<noteq> Fat32" "root_entry_count b = 512"
  shows "\<exists>disk fs env'. DiskAccess_new dn (ucast w) 0 = Inr disk \<and> FATFileSystem_parse B env disk = Inr (fs, env') \<and>
     fs_ok fs \<and> fs_bpb fs = b \<and> unat (base_offset (fs_disk fs)) = 512 * lba \<and> buffers_ok env'"
proof -
  have u: "unat (ucast w :: u64) = lba" "lba < 2 ^ 32" using assms(3) unat_less_exp [of w] by (simp_all add: unat_ucast_up)
  then have o: "op_mul (ucast w :: u64) 512 = Inr (ucast w * 512)" "unat (ucast w * 512 :: u64) = 512 * lba"
    by (simp_all add: op_mul_def unat_times_nowrap)
  let ?d = "\<lparr>disk_number = dn, base_offset = ucast w * 512, disk_offset = 0, sector_size = 512, cluster_size = 0\<rparr>"
  have "DiskAccess_new dn (ucast w) 0 = Inr ?d" using o(1) by (simp add: DiskAccess_new_def DEFAULT_SECTOR_SIZE_def op_mul_def)
  moreover have "disk_ok ?d" using o(2) u(2) by (simp add: disk_ok_def)
  ultimately show ?thesis
    using FATFileSystem_parse_image [OF assms(1), of ?d env b] assms(2,4-7) o(2) by auto
qed

text \<open>
  C14. Stage 2 hands over to stage 3 in protected mode with a flat 32-bit code and data segment. The files
  stand complete at their three destinations and the memory below 1 MiB is as before; the BIOS information has
  the places of stage 4 and of the kernel, the frame buffer of a best video mode, the end of the kernel
  and the memory map of the BIOS without its last region.
\<close>

theorem stage2_start_correct:
  assumes "crates_ok C" "stage2_ready C B L start env (cpu_es s) m files rs modes" "2 ^ 23 \<le> fuel"
    and "\<not> lock_status map_lock" "length (mm_map (mutex_inner map_lock)) = 0x20"
  shows "\<exists>s' guard map_guard m' mode info fb. stage2_start fuel C B L dn start (Mutex_new info0) map_lock env (s, limits, m) =
       Inr (\<lparr>s3_eip = 0x100000, s3_esp = (lay_esp L AND 0xffffff00) - 8, s3_argument = lay_bios_info L\<rparr>, s', guard, map_guard, m') \<and>
     (\<forall>i < length (snd (files ''stage3'')). m' (0x100000 + of_nat i) = snd (files ''stage3'') ! i) \<and>
     (\<forall>i < length (snd (files ''stage4'')). m' (0x120000 + of_nat i) = snd (files ''stage4'') ! i) \<and>
     (\<forall>i < length (snd (files ''kernel'')). m' (0x200000 + of_nat i) = snd (files ''kernel'') ! i) \<and>
     (\<forall>a. unat a < 0x100000 \<longrightarrow> m' a = m a) \<and>
     best_of (bios_vbe B) 1280 1024 24 modes (Some mode) \<and> usable_mode (bios_vbe B) mode = Some info \<and>
     VbeModeInfo_to_framebuffer_info info = Inr fb \<and>
     mutex_inner guard = BiosInfo_new (PhysicalMemoryRegion_new 0x120000 (ucast (fst (files ''stage4''))) Reserved)
       (PhysicalMemoryRegion_new 0x200000 (ucast (fst (files ''kernel''))) Reserved) fb
       (0x200000 + ucast (fst (files ''kernel''))) (ucast (lay_memory_map L)) (of_nat (length rs - 1)) \<and>
     MemoryMap_iter (mutex_inner map_guard) = Inr (butlast rs) \<and>
     s' = s\<lparr>cpu_gdtr := (23, lay_gdt L), cpu_interrupts := False, cpu_cr0 := (cpu_cr0 s AND all_cr0_flags AND NOT 1) OR 1,
        cpu_cs := 8, cpu_ds := 16, cpu_es := 16, cpu_ss := 16\<rparr>"
proof -
  let ?l3 = "fst (files ''stage3'')" and ?b3 = "snd (files ''stage3'')" and ?l4 = "fst (files ''stage4'')" and ?b4 = "snd (files ''stage4'')"
    and ?lk = "fst (files ''kernel'')" and ?bk = "snd (files ''kernel'')"
  note r = assms(2) [unfolded stage2_ready_def]
  define w where "w = (from_le_bytes (map (\<lambda>i. m (start + of_nat i)) [24 ..< 28]) :: u32)"
  from r obtain img b where
    v: "bios_reads (bios_disk B) img" "buffers_ok env" "m (start + 20) = 0xc" "parse_bpb_sector (image_bytes img (512 * unat w) 512) = Inr b"
      "bpb_ok b" "volume_type b \<noteq> Fat32" "root_entry_count b = 512" "unat (sectors_per_cluster b) \<le> 8"
    and f: "stored_file img (512 * unat w) b ''stage3'' ?l3 ?b3" "stored_file img (512 * unat w) b ''stage4'' ?l4 ?b4"
      "stored_file img (512 * unat w) b ''kernel'' ?lk ?bk" unfolding w_def by blast
  have le: "length ?b3 \<le> 0x20000" "length ?b4 \<le> 0xE0000" "length ?bk \<le> 2 ^ 32 - 0x200000" using r by blast+
  have e8: "e820_lists (bios_e820 B) rs" "length rs \<le> 0x20" and vb: "vbe_ready (bios_vbe B) (cpu_es s) L m modes" using r by blast+
  obtain table where t: "read_partition_table m start = Inr table"
      "get_nth table 1 = Some (PartitionTableEntry_new (m (start + of_nat 16) = 0x80) (m (start + of_nat 20)) w
         (from_le_bytes (map (\<lambda>i. m (start + of_nat i)) [28 ..< 32])))"
    using read_partition_table_entry [of m start] unfolding w_def by blast
  from stage2_disk [OF v(1,2) refl v(4-7)] obtain disk fs env1 where
    d: "DiskAccess_new dn (ucast w) 0 = Inr disk" "FATFileSystem_parse (bios_disk B) env disk = Inr (fs, env1)"
      "fs_ok fs" "fs_bpb fs = b" "unat (base_offset (fs_disk fs)) = 512 * unat w" "buffers_ok env1" by blast
  let ?m = "copy_bytes (copy_bytes (copy_bytes m STAGE3_DST ?b3) STAGE4_DST ?b4) KERNEL_DST ?bk"
  obtain env2 fs2 where ld: "load_stages fuel (bios_disk B) (0xffffffff, 0xffffffff) env1 fs m = Inr (?l3, ?l4, ?lk, env2, fs2, ?m)"
    using load_stages_spec [OF v(1) d(3,6) d(5) [symmetric], of ?l3 ?b3 ?l4 ?b4 ?lk ?bk fuel "(0xffffffff, 0xffffffff)" m]
      f le v(8) assms(3) d(4) by auto
  note mem = stages_memory [OF le, of _ m]
  obtain mp where mm: "MemoryMap_get fuel (bios_e820 B) map_lock =
      Inr (True, map_lock\<lparr>lock_status := True, mutex_inner := \<lparr>mm_map = mp, mm_size = length rs - 1\<rparr>\<rparr>)"
      "length mp = 0x20" "take (length rs - 1) mp = butlast rs"
    using MemoryMap_get_lists [OF e8(1) assms(4,5) _ e8(2), of fuel] e8(2) assms(3) by auto
  from set_video_mode_spec [OF vb mem(4)] obtain mode info fb where
    vm: "best_of (bios_vbe B) 1280 1024 24 modes (Some mode)" "usable_mode (bios_vbe B) mode = Some info"
      "set_video_mode (bios_vbe B) (cpu_es s) L ?m = Inr info" "VbeModeInfo_to_framebuffer_info info = Inr fb" by blast
  have la: "op_add (ucast KERNEL_DST) (ucast ?lk :: u64) = Inr (0x200000 + ucast ?lk)"
    using unat_less_exp [of ?lk] by (simp add: op_add_def KERNEL_DST_def unat_ucast_up)
  have cr: "(x AND all_cr0_flags AND NOT 1) AND all_cr0_flags = x AND all_cr0_flags AND NOT 1" for x
    by (rule bit_word_eqI) (auto simp: bit_simps)
  have cr2: "(x AND all_cr0_flags AND - 2) AND all_cr0_flags = x AND all_cr0_flags AND - 2" for x using cr [of x] by simp
  let ?s = "s\<lparr>cpu_gdtr := (23, lay_gdt L), cpu_interrupts := False, cpu_cr0 := (cpu_cr0 s AND all_cr0_flags AND NOT 1) OR 1,
      cpu_cs := 8, cpu_ds := 16, cpu_es := 16, cpu_ss := 16\<rparr>"
  let ?info = "BiosInfo_new (PhysicalMemoryRegion_new 0x120000 (ucast ?l4) Reserved) (PhysicalMemoryRegion_new 0x200000 (ucast ?lk) Reserved) fb
      (0x200000 + ucast ?lk) (ucast (lay_memory_map L)) (of_nat (length rs - 1))"
  let ?map = "map_lock\<lparr>lock_status := True, mutex_inner := \<lparr>mm_map = mp, mm_size = length rs - 1\<rparr>\<rparr>"
  have it: "MemoryMap_iter (mutex_inner ?map) = Inr (butlast rs)" using mm e8(2) by (simp add: MemoryMap_iter_def)
  have bi: "info0\<lparr>bios_stage4 := PhysicalMemoryRegion_new 0x120000 (ucast ?l4) Reserved,
      bios_kernel := PhysicalMemoryRegion_new 0x200000 (ucast ?lk) Reserved, bios_framebuffer := fb,
      last_physical_address := 0x200000 + ucast ?lk, memory_map_address := ucast (lay_memory_map L),
      memory_map_size := of_nat (length rs - 1)\<rparr> = ?info"
    by (cases info0) (simp add: BiosInfo_new_def)
  have "stage2_start fuel C B L dn start (Mutex_new info0) map_lock env (s, limits, m) =
      Inr (\<lparr>s3_eip = 0x100000, s3_esp = (lay_esp L AND 0xffffff00) - 8, s3_argument = lay_bios_info L\<rparr>, ?s,
           \<lparr>mutex_inner = ?info, lock_status = True\<rparr>, ?map, ?m)"
    using t v(3) d(1,2) ld mm(1) vm(3,4) la it bi
    by (simp add: stage2_start_def enter_unreal_mode_eq [OF assms(1)] expect_def rassert_def PartitionTableEntry_new_def
        static_lock_new enter_protected_mode_and_jump_to_stage3_def cr0_update_eq [OF assms(1)] interrupts_disable_def
        STAGE3_DST_def STAGE4_DST_def KERNEL_DST_def cr2)
  with mem vm(1,2,4) it show ?thesis
    by (intro exI [of _ ?s] exI [of _ "\<lparr>mutex_inner = ?info, lock_status = True\<rparr>"] exI [of _ ?map] exI [of _ ?m]
        exI [of _ mode] exI [of _ info] exI [of _ fb]) (simp add: STAGE3_DST_def STAGE4_DST_def KERNEL_DST_def)
qed

section \<open>An example\<close>

text \<open>A FAT12 volume with the three files, of three bytes each, in the clusters 2, 3 and 4.\<close>

definition stage_name :: "nat \<Rightarrow> string" where
  "stage_name k = (if k = 0 then ''stage3'' else if k = 1 then ''stage4'' else ''kernel'')"

definition stages_image :: "nat \<Rightarrow> u8" where
  "stages_image i =
     (if i < 512 then boot_image i
      else if 515 \<le> i \<and> i \<le> 519 then 0xFF
      else if 1024 \<le> i \<and> i < 1120
      then let k = (i - 1024) div 32; j = (i - 1024) mod 32 in
           if j < 6 then of_char (stage_name k ! j) else if j = 11 then 0x20 else if j = 26 then of_nat (2 + k) else if j = 28 then 3 else 0
      else if 17408 \<le> i then 7 else 0)"

definition stage_entry :: "nat \<Rightarrow> DirectoryEntry" where
  "stage_entry k = NormalDirEntry \<lparr>filename = map of_char (stage_name k) @ [0, 0, 0, 0, 0], attributes = 0x20,
     first_cluster_number = of_nat (2 + k), size_in_bytes = 3\<rparr>"

lemma short_entry_parse:
  assumes "32 \<le> length raw" "raw ! 0 \<notin> {0, 0xe5}" "raw ! 11 = attr" "attr \<noteq> 15" "take 11 raw = name"
    and "take 2 (drop 20 raw) = [0, 0]" "take 2 (drop 26 raw) = [c, 0]" "take 4 (drop 28 raw) = [n, 0, 0, 0]"
  shows "DirectoryEntry_parse raw = Inr (32, NormalDirEntry
     \<lparr>filename = map unat name, attributes = attr, first_cluster_number = ucast c, size_in_bytes = ucast n\<rparr>)"
proof -
  have "raw \<noteq> []" using assms(1) by auto
  moreover have "ucast (ucast c :: u16) = (ucast c :: u32)" by (simp add: word_unat_eq_iff unat_ucast_up)
  ultimately show ?thesis
    using assms by (simp add: DirectoryEntry_parse_def index_get_def le_field_in entry_location_def LONG_FILE_NAME_def END_OF_DIRECTORY_def
        UNUSED_ENTRY_def NORMAL_ENTRY_SIZE_def slice_def)
qed

lemma stage_next_entry:
  assumes "k \<in> {0, 1, 2}"
  shows "next_entry (root_dir_bytes stages_image 0 example_bpb) (32 * k) = Inr (stage_entry k, 32 * k + 32)"
proof -
  let ?raw = "image_bytes stages_image (1024 + 32 * k) (16384 - 32 * k)"
  have k: "32 * k \<le> 64" using assms by auto
  have "drop (32 * k) (image_bytes stages_image 1024 16384) = ?raw"
    using take_drop_image_bytes [of "32 * k" "16384 - 32 * k" 16384 stages_image 1024] k by simp
  then have sl: "slice (root_dir_bytes stages_image 0 example_bpb) (32 * k) 16384 = Inr ?raw"
    using k by (simp add: slice_def root_dir_bytes_def example_geometry)
  have td: "take n (drop i ?raw) = image_bytes stages_image (1024 + 32 * k + i) n" if "i + n \<le> 16384 - 32 * k" for i n
    using that by (rule take_drop_image_bytes)
  have n: "?raw ! i = stages_image (1024 + 32 * k + i)" if "i < 16384 - 32 * k" for i using that by (rule nth_image_bytes)
  have l: "length ?raw = 16384 - 32 * k" by simp
  have bs: "image_bytes stages_image (1024 + 32 * k) 11 = map of_char (stage_name k) @ [0, 0, 0, 0, 0]"
    "image_bytes stages_image (1024 + 32 * k + 20) 2 = [0, 0]" "image_bytes stages_image (1024 + 32 * k + 26) 2 = [of_nat (2 + k), 0]"
    "image_bytes stages_image (1024 + 32 * k + 28) 4 = [3, 0, 0, 0]"
    using assms by (auto simp: image_bytes_def upt_rec stages_image_def stage_name_def Let_def)
  have im: "stages_image (1024 + 32 * k) \<noteq> 0" "stages_image (1024 + 32 * k) \<noteq> 0xe5" "stages_image (1024 + 32 * k + 11) = 0x20"
    using assms by (auto simp: stages_image_def stage_name_def Let_def)
  have "DirectoryEntry_parse ?raw = Inr (32, NormalDirEntry \<lparr>filename = map unat (map of_char (stage_name k) @ [0, 0, 0, 0, 0 :: u8]),
      attributes = 0x20, first_cluster_number = ucast (of_nat (2 + k) :: u8), size_in_bytes = ucast (3 :: u8)\<rparr>)"
  proof (rule short_entry_parse)
    show "32 \<le> length ?raw" using k by simp
    show "?raw ! 0 \<notin> {0, 0xe5}" "?raw ! 11 = 0x20" using n [of 0] n [of 11] im k by simp_all
    show "take 11 ?raw = map of_char (stage_name k) @ [0, 0, 0, 0, 0]" using td [of 0 11] k bs(1) by simp
    show "take 2 (drop 20 ?raw) = [0, 0]" using td [of 20 2] k bs(2) by simp
    show "take 2 (drop 26 ?raw) = [of_nat (2 + k), 0]" using td [of 26 2] k bs(3) by simp
    show "take 4 (drop 28 ?raw) = [3, 0, 0, 0]" using td [of 28 4] k bs(4) by simp
  qed simp
  also have "\<dots> = Inr (32, stage_entry k)" using assms by (auto simp: stage_entry_def stage_name_def)
  finally have "DirectoryEntry_parse ?raw = Inr (32, stage_entry k)" .
  with sl show ?thesis by (simp add: next_entry_def root_dir_bytes_def)
qed

lemma stage_find:
  assumes "k \<in> {0, 1, 2}"
  shows "find_entry (root_dir_bytes stages_image 0 example_bpb) 0 (map of_char (stage_name k)) = Inr (Some (stage_entry k))"
proof -
  let ?buf = "root_dir_bytes stages_image 0 example_bpb"
  have nx: "RootDirIter_next ?buf (32 * j) = Inr (Some (stage_entry j), 32 * j + 32)" if "j \<in> {0, 1, 2}" for j
    using stage_next_entry [OF that] by (subst RootDirIter_next.simps) (simp add: stage_entry_def)
  have eq: "eq_name (stage_entry j) (map of_char (stage_name k)) \<longleftrightarrow> j = k" if "j \<in> {0, 1, 2}" for j
    using that assms by (auto simp: eq_name_def stage_entry_def stage_name_def)
  have "find_entry ?buf (32 * j) (map of_char (stage_name k)) =
      (if j = k then Inr (Some (stage_entry k)) else find_entry ?buf (32 * (j + 1)) (map of_char (stage_name k)))" if "j \<in> {0, 1, 2}" for j
    using nx [OF that] eq [OF that] by (subst find_entry.simps) (simp add: add.commute)
  from this [of 0] this [of 1] this [of 2] assms show ?thesis by auto
qed

lemma stage_stored:
  assumes "k \<in> {0, 1, 2}"
  shows "stored_file stages_image 0 example_bpb (stage_name k) 3 (replicate 512 7)"
proof -
  have fc: "first_cluster (stage_entry k) = of_nat (2 + k)" "\<not> is_dir (stage_entry k)" "file_size (stage_entry k) = 3"
    by (simp_all add: stage_entry_def first_cluster_def is_dir_def file_size_def FileAttributes_is_set_def DIRECTORY_def)
  have u: "unat (of_nat (2 + k) :: u32) = 2 + k" using assms by auto
  have ff: "stages_image i = 0xFF" if "515 \<le> i" "i \<le> 519" for i using that by (simp add: stages_image_def)
  have "fat_value stages_image 0 example_bpb (2 + k) = 4095"
    using assms ff [of 515] ff [of 516] ff [of 517] ff [of 518] ff [of 519] by (auto simp: fat_value_def example_geometry image_u16_def)
  then have "fat_entry stages_image 0 example_bpb (of_nat (2 + k)) = EndOfFile"
    unfolding fat_entry_def u by (simp add: example_geometry FatEntry_parse_def)
  moreover have "of_nat (2 + k) \<in> data_clusters example_bpb"
    using u assms by (auto simp: data_clusters_def example_geometry)
  moreover have "cluster_bytes stages_image 0 example_bpb (of_nat (2 + k)) = replicate 512 7"
    unfolding cluster_bytes_def u
    by (rule nth_equalityI) (simp_all add: nth_image_bytes cluster_sector_def example_geometry stages_image_def)
  ultimately show ?thesis
    unfolding stored_file_def using stage_find [OF assms] fc by (intro exI [of _ "stage_entry k"] exI [of _ "[]"]) simp
qed

lemma stages_parse: "parse_bpb_sector (image_bytes stages_image 0 512) = Inr example_bpb"
proof -
  have "image_bytes stages_image 0 512 = image_bytes boot_image 0 512" by (simp add: image_bytes_def stages_image_def)
  then show ?thesis using boot_image_bpb by simp
qed

definition example_stage2_bios :: stage2_bios where
  "example_stage2_bios = \<lparr>bios_disk = image_bios stages_image,
     bios_e820 = (\<lambda>c old. if c = 0 then (MAGIC_NUMBER, 24, 1, E820MemoryRegion_empty)
        else (MAGIC_NUMBER, 24, 0, E820MemoryRegion_empty\<lparr>e820_typ := E820_Normal\<rparr>)),
     bios_vbe = example_vbe\<rparr>"

definition example_layout :: stage2_layout where
  "example_layout = \<lparr>lay_gdt = 0x7e80, lay_vbe_info = 0x6000, lay_mode_info = 0x7000, lay_memory_map = 0x7f00, lay_bios_info = 0x7e00, lay_esp = 0x5000\<rparr>"

text \<open>The partition table at address \<open>0x7dbe\<close>, where the boot sector has it, and the array of video modes.\<close>

definition example_stage2_memory :: memory where
  "example_stage2_memory a = (if a = 0x7dbe + 20 then 0xc else if 0x7dbe \<le> a \<and> a < 0x7dbe + 64 then 0 else example_mode_memory a)"

lemma example_stage2_ready:
  "stage2_ready reference_crates example_stage2_bios example_layout 0x7dbe example_buffers 0 example_stage2_memory
     (\<lambda>_. (3, replicate 512 7)) [E820MemoryRegion_empty, E820MemoryRegion_empty\<lparr>e820_typ := E820_Normal\<rparr>] [0x118]"
proof -
  have "stored_file stages_image 0 example_bpb name 3 (replicate 512 7)" if "name \<in> {''stage3'', ''stage4'', ''kernel''}" for name
    using that stage_stored [of 0] stage_stored [of 1] stage_stored [of 2] by (auto simp: stage_name_def)
  moreover have "unat (from_le_bytes (map (\<lambda>i. example_stage2_memory (0x7dbe + of_nat i)) [24 ..< 28]) :: u32) = 0"
    by (simp add: upt_rec example_stage2_memory_def)
  moreover have "example_stage2_memory (0x7dbe + 20) = 0xc" by (simp add: example_stage2_memory_def)
  moreover have "bpb_ok example_bpb" by (simp add: bpb_ok_def example_geometry)
  moreover have "bios_reads (bios_disk example_stage2_bios) stages_image" by (simp add: example_stage2_bios_def image_bios_reads)
  ultimately have v: "\<exists>img b lba. bios_reads (bios_disk example_stage2_bios) img \<and> buffers_ok example_buffers \<and> example_stage2_memory (0x7dbe + 20) = 0xc \<and>
        lba = unat (from_le_bytes (map (\<lambda>i. example_stage2_memory (0x7dbe + of_nat i)) [24 ..< 28]) :: u32) \<and>
        parse_bpb_sector (image_bytes img (512 * lba) 512) = Inr b \<and> bpb_ok b \<and> volume_type b \<noteq> Fat32 \<and>
        root_entry_count b = 512 \<and> unat (sectors_per_cluster b) \<le> 8 \<and>
        (\<forall>name \<in> {''stage3'', ''stage4'', ''kernel''}. stored_file img (512 * lba) b name 3 (replicate 512 7))"
    using stages_parse example_fs_ok(2) example_geometry
    by (intro exI [of _ stages_image] exI [of _ example_bpb] exI [of _ "0 :: nat"]) simp
  have "e820_lists (bios_e820 example_stage2_bios) [E820MemoryRegion_empty, E820MemoryRegion_empty\<lparr>e820_typ := E820_Normal\<rparr>]"
    by (auto simp: e820_lists_def less_Suc_eq example_stage2_bios_def intro!: exI [of _ 24])
  moreover have "mode_array example_stage2_memory (VbeInfo_default\<lparr>video_mode_array_pointer := 0x8000\<rparr>) [0x118]"
    by (simp add: mode_array_def Let_def real_mode_address_def RealModePointer_segment_def RealModePointer_offset_def read_u16_def
        example_stage2_memory_def example_mode_memory_def)
  moreover have "usable_mode example_vbe 0x118 = Some example_mode_info"
    by (simp add: usable_mode_def example_vbe_def VESA_SUCCESS_def mode_supported_def example_mode_info_def)
  ultimately show ?thesis
    using v by (simp add: stage2_ready_def vbe_ready_def example_stage2_bios_def example_layout_def example_vbe_def VESA_SUCCESS_def
        real_mode_address_def RealModePointer_segment_def RealModePointer_offset_def example_mode_info_def)
qed

theorem stage2_start_correct_witness:
  "\<exists>s' guard map_guard m'. stage2_start (2 ^ 23) reference_crates example_stage2_bios example_layout 0x80 0x7dbe
       (Mutex_new (BiosInfo_new (PhysicalMemoryRegion_new 0 0 Used) (PhysicalMemoryRegion_new 0 0 Used)
          (FramebufferInfo_new (PhysicalMemoryRegion_new 0 0 Used) 0 0 0 0 Rgb) 0 0 0))
       MEMORY_MAP example_buffers (example_cpu\<lparr>cpu_es := 0\<rparr>, (0xffff, 0xffff), example_stage2_memory) =
     Inr (\<lparr>s3_eip = 0x100000, s3_esp = 0x4ff8, s3_argument = 0x7e00\<rparr>, s', guard, map_guard, m') \<and>
     m' 0x120002 = 7 \<and> last_physical_address (mutex_inner guard) = 0x200003 \<and> memory_map_size (mutex_inner guard) = 1 \<and>
     cpu_cs s' = 8"
proof -
  have es: "cpu_es (example_cpu\<lparr>cpu_es := 0\<rparr>) = 0" by simp
  have rd: "stage2_ready reference_crates example_stage2_bios example_layout 0x7dbe example_buffers (cpu_es (example_cpu\<lparr>cpu_es := 0\<rparr>))
      example_stage2_memory (\<lambda>_. (3, replicate 512 7)) [E820MemoryRegion_empty, E820MemoryRegion_empty\<lparr>e820_typ := E820_Normal\<rparr>] [0x118]"
    unfolding es by (rule example_stage2_ready)
  have l: "\<not> lock_status MEMORY_MAP" "length (mm_map (mutex_inner MEMORY_MAP)) = 0x20" by (simp_all add: MEMORY_MAP_def Mutex_new_def)
  let ?i = "BiosInfo_new (PhysicalMemoryRegion_new 0 0 Used) (PhysicalMemoryRegion_new 0 0 Used)
          (FramebufferInfo_new (PhysicalMemoryRegion_new 0 0 Used) 0 0 0 0 Rgb) 0 0 0"
  note c = stage2_start_correct [OF reference_crates_ok rd order_refl l, of "0x80" ?i "(0xffff, 0xffff)"]
  have two: "length [E820MemoryRegion_empty, E820MemoryRegion_empty\<lparr>e820_typ := E820_Normal\<rparr>] - 1 = 1" by simp
  from c [unfolded fst_conv snd_conv length_replicate two] obtain s' guard map_guard m' fb where
    1: "stage2_start (2 ^ 23) reference_crates example_stage2_bios example_layout 0x80 0x7dbe (Mutex_new ?i) MEMORY_MAP example_buffers
         (example_cpu\<lparr>cpu_es := 0\<rparr>, (0xffff, 0xffff), example_stage2_memory) =
       Inr (\<lparr>s3_eip = 0x100000, s3_esp = (lay_esp example_layout AND 0xffffff00) - 8, s3_argument = lay_bios_info example_layout\<rparr>,
         s', guard, map_guard, m')"
      "\<forall>i < 512. m' (0x120000 + of_nat i) = replicate 512 7 ! i"
      "mutex_inner guard = BiosInfo_new (PhysicalMemoryRegion_new 0x120000 (ucast (3 :: u32)) Reserved)
       (PhysicalMemoryRegion_new 0x200000 (ucast (3 :: u32)) Reserved) fb (0x200000 + ucast (3 :: u32)) (ucast (lay_memory_map example_layout)) (of_nat 1)"
      "cpu_cs s' = 8"
    by (elim exE conjE) (rule that, assumption+, simp)
  have "m' 0x120002 = 7" using 1(2) [rule_format, of 2] by simp
  then show ?thesis using 1(1,3,4) by (intro exI [of _ s'] exI [of _ guard] exI [of _ map_guard] exI [of _ m'])
      (simp add: example_layout_def BiosInfo_new_def)
qed

end
