(* ===== verification/Disk_Image.thy ===== *)
theory Disk_Image
  imports Stage2_Correct
begin

text \<open>
  The disk image that the machine boots from. The builder (\<open>bootloader/src/lib.rs\<close> and \<open>bios/mod.rs\<close>) runs on
  the host: it writes the boot sector with its partition table, stage 2 behind it, and a FAT volume with
  stage 3, stage 4 and the kernel. The boot stages then find everything where the builder has put it.

  The files of the host are a map from paths to their bytes. Every call that the host system may refuse is
  named by its line and the path it works on; \<open>io\<close> says which of them succeed. The crates \<open>mbrman\<close> and
  \<open>fatfs\<close> are arguments. The builder is compiled with overflow checks, as the development profile has them.
\<close>

section \<open>Files of the host\<close>

type_synonym path = string
type_synonym host = "path \<rightharpoonup> u8 list"
type_synonym host_io = "nat \<Rightarrow> path \<Rightarrow> bool"

record host_file =
  file_bytes :: "u8 list"
  file_pos :: nat

text \<open>A write behind the end of a file fills the gap with zeros.\<close>

definition write_all :: "u8 list \<Rightarrow> host_file \<Rightarrow> host_file" where
  "write_all bs f =
     (let c = file_bytes f @ replicate (file_pos f - length (file_bytes f)) 0 in
      \<lparr>file_bytes = take (file_pos f) c @ bs @ drop (file_pos f + length bs) c, file_pos = file_pos f + length bs\<rparr>)"

definition set_len :: "nat \<Rightarrow> host_file \<Rightarrow> host_file" where
  "set_len n f = f\<lparr>file_bytes := take n (file_bytes f) @ replicate (n - length (file_bytes f)) 0\<rparr>"

text \<open>\<open>Err msg\<close> is the error with the context that is attached to it, \<open>Aborts\<close> a panic of the builder.\<close>

datatype image_stop = Err string | Aborts fault

type_synonym 'a image_res = "image_stop + 'a"

definition ibind :: "'a image_res \<Rightarrow> ('a \<Rightarrow> 'b image_res) \<Rightarrow> 'b image_res" where
  "ibind r f = (case r of Inl e \<Rightarrow> Inl e | Inr x \<Rightarrow> f x)"

lemma ibind_simps [simp]: "ibind (Inl e) f = Inl e" "ibind (Inr x) f = f x"
  by (simp_all add: ibind_def)

lemma ibind_eq_Inr: "ibind r f = Inr y \<longleftrightarrow> (\<exists>x. r = Inr x \<and> f x = Inr y)"
  by (cases r) simp_all

definition checked :: "'a res \<Rightarrow> 'a image_res" where
  "checked r = (case r of Inl e \<Rightarrow> Inl (Aborts e) | Inr x \<Rightarrow> Inr x)"

lemma checked_simps [simp]: "checked (Inl e) = Inl (Aborts e)" "checked (Inr x) = Inr x"
  by (simp_all add: checked_def)

lemma checked_eq_Inr: "checked r = Inr x \<longleftrightarrow> r = Inr x"
  by (cases r) simp_all

text \<open>A call that can fail, with \<open>context(msg)?\<close> behind it.\<close>

definition attempt :: "bool \<Rightarrow> 'a option \<Rightarrow> string \<Rightarrow> 'a image_res" where
  "attempt ok r msg = (case if ok then r else None of None \<Rightarrow> Inl (Err msg) | Some x \<Rightarrow> Inr x)"

lemma attempt_Some [simp]: "attempt True (Some x) msg = Inr x"
  by (simp add: attempt_def)

lemma attempt_eq_Inr: "attempt ok r msg = Inr x \<longleftrightarrow> ok \<and> r = Some x"
  by (auto simp: attempt_def split: option.splits)

section \<open>The crates\<close>

record 'c MBRPartitionEntry =
  boot :: u8
  first_chs :: 'c
  sys :: u8
  last_chs :: 'c
  starting_lba :: u32
  sectors :: u32

text \<open>
  \<open>mbrman\<close>: parsing a boot sector with a given sector size, \<open>mbr[i] = entry\<close> (which panics on an index without an
  entry), and writing the sector into a file.
\<close>

record ('m, 'c) mbrman =
  BOOT_ACTIVE :: u8
  CHS_empty :: 'c
  mbr_read_from :: "u8 list \<Rightarrow> u32 \<Rightarrow> 'm option"
  mbr_index_mut :: "'m \<Rightarrow> nat \<Rightarrow> 'c MBRPartitionEntry \<Rightarrow> 'm option"
  mbr_write_into :: "'m \<Rightarrow> host_file \<Rightarrow> host_file option"

text \<open>
  \<open>fatfs\<close>: formatting a file as a volume with a label, opening the volume, creating, truncating and writing a
  file in its root directory, and the bytes of the volume when it is closed.
\<close>

record 'v fatfs =
  fat_format_volume :: "u8 list \<Rightarrow> string \<Rightarrow> u8 list option"
  fat_FileSystem_new :: "u8 list \<Rightarrow> 'v option"
  fat_create_file :: "'v \<Rightarrow> string \<Rightarrow> 'v option"
  fat_truncate :: "'v \<Rightarrow> string \<Rightarrow> 'v option"
  fat_write :: "'v \<Rightarrow> string \<Rightarrow> u8 list \<Rightarrow> 'v option"
  fat_bytes :: "'v \<Rightarrow> u8 list"

section \<open>The FAT volume\<close>

definition metadata_len :: "u8 list \<Rightarrow> u64" where
  "metadata_len bs = of_nat (length bs)"

definition needed_size :: "host_io \<Rightarrow> host \<Rightarrow> (string \<times> path) list \<Rightarrow> u64 image_res" where
  "needed_size io h files =
     fold (\<lambda>(_, p) r. ibind r (\<lambda>n.
        ibind (attempt (io 156 p) (h p) ''Failed to get metadata'') (\<lambda>bs. checked (op_add n (metadata_len bs))))) files (Inr 0)"

definition fat_size_padded_and_rounded :: "u64 \<Rightarrow> u64 res" where
  "fat_size_padded_and_rounded needed =
     rbind (op_add needed (1024 * 64)) (\<lambda>a.
     rbind (op_sub a 1) (\<lambda>a.
     rbind (op_add (a div (1024 * 1024)) 1) (\<lambda>a.
     rbind (op_mul a (1024 * 1024)) (\<lambda>a. op_add a (1024 * 1024)))))"

definition copy_file :: "host_io \<Rightarrow> 'v fatfs \<Rightarrow> host \<Rightarrow> string \<times> path \<Rightarrow> 'v \<Rightarrow> 'v image_res" where
  "copy_file io F h = (\<lambda>(name, p) fs.
     ibind (attempt (io 174 p) (h p) ''Failed to open stage file'') (\<lambda>src.
     ibind (attempt (io 175 p) (fat_create_file F fs name) ''Failed to create file in FAT root'') (\<lambda>fs.
     ibind (attempt (io 179 p) (fat_truncate F fs name) []) (\<lambda>fs.
     attempt (io 181 p) (fat_write F fs name src) ''Failed to copy file contents''))))"

definition create_fat_filesystem :: "host_io \<Rightarrow> 'v fatfs \<Rightarrow> (string \<times> path) list \<Rightarrow> path \<Rightarrow> host \<Rightarrow> host image_res" where
  "create_fat_filesystem io F files out_path h =
     ibind (attempt (io 146 out_path) (Some \<lparr>file_bytes = [], file_pos = 0\<rparr>) ''Failed to open tmp file'') (\<lambda>fat_file.
     let h = h(out_path \<mapsto> file_bytes fat_file) in
     ibind (needed_size io h files) (\<lambda>needed.
     ibind (checked (fat_size_padded_and_rounded needed)) (\<lambda>n.
     ibind (attempt (io 161 out_path) (Some (set_len (unat n) fat_file)) ''Failed to set fat file length'') (\<lambda>fat_file.
     ibind (attempt (io 167 out_path) (fat_format_volume F (file_bytes fat_file) ''MiniatureOs'') ''Failed tor format volume'') (\<lambda>volume.
     ibind (attempt (io 168 out_path) (fat_FileSystem_new F volume) ''fatfs::Filesystem new'') (\<lambda>fs.
     ibind (fold (\<lambda>f r. ibind r (copy_file io F h f)) files (Inr fs)) (\<lambda>fs.
     Inr (h(out_path \<mapsto> fat_bytes F fs)))))))))"

section \<open>The disk\<close>

definition SECTOR_SIZE :: u32 where "SECTOR_SIZE = 512"

text \<open>\<open>((len + (SECTOR_SIZE - 1) as u64) / SECTOR_SIZE as u64) as u32\<close>.\<close>

definition sectors_of_len :: "u64 \<Rightarrow> u32 res" where
  "sectors_of_len len =
     rbind (op_sub SECTOR_SIZE 1) (\<lambda>r.
     rbind (op_add len (ucast r)) (\<lambda>a. Inr (ucast (a div ucast SECTOR_SIZE))))"

definition partition_entry :: "('m, 'c) mbrman \<Rightarrow> u32 \<Rightarrow> u32 \<Rightarrow> u8 \<Rightarrow> 'c MBRPartitionEntry" where
  "partition_entry M lba n s =
     \<lparr>boot = BOOT_ACTIVE M, first_chs = CHS_empty M, sys = s, last_chs = CHS_empty M, starting_lba = lba, sectors = n\<rparr>"

definition set_partition :: "('m, 'c) mbrman \<Rightarrow> 'm \<Rightarrow> nat \<Rightarrow> 'c MBRPartitionEntry \<Rightarrow> 'm image_res" where
  "set_partition M mbr i e = (case mbr_index_mut M mbr i e of None \<Rightarrow> Inl (Aborts Index_Out_Of_Bounds) | Some m \<Rightarrow> Inr m)"

text \<open>
  \<open>create_mbr_disk\<close>; \<open>tmp\<close> is the path that \<open>NamedTempFile\<close> chooses, and the file there is removed at the end.
  What has been written to the disk is visible to later reads of the same path.
\<close>

definition create_mbr_disk :: "host_io \<Rightarrow> ('m, 'c) mbrman \<Rightarrow> 'v fatfs \<Rightarrow> path \<Rightarrow> path \<Rightarrow> path \<Rightarrow> path \<Rightarrow> path \<Rightarrow> path \<Rightarrow> path \<Rightarrow>
    host \<Rightarrow> host image_res" where
  "create_mbr_disk io M F kernel_path mbr_path second_stage_path third_stage_path fourth_stage_path tmp out_path h =
     ibind (attempt (io 55 mbr_path) (h mbr_path) ''Failed to open mbr bin file'') (\<lambda>mbr_file.
     ibind (attempt (io 58 mbr_path) (mbr_read_from M mbr_file SECTOR_SIZE) ''Failed to read mbr'') (\<lambda>mbr.
     ibind (attempt (io 61 second_stage_path) (h second_stage_path) ''Failed to open second stage file'') (\<lambda>second_stage.
     ibind (attempt (io 64 second_stage_path) (Some (metadata_len second_stage)) ''Unable to obtain second stage file size'') (\<lambda>second_stage_len.
     let second_stage_start_sector = 1 in
     ibind (checked (sectors_of_len second_stage_len)) (\<lambda>second_stage_sectors.
     ibind (set_partition M mbr 1 (partition_entry M second_stage_start_sector second_stage_sectors 0x20)) (\<lambda>mbr.
     ibind (attempt (io 83 out_path) (Some \<lparr>file_bytes = [], file_pos = 0\<rparr>) ''Failed to create MBR disk'') (\<lambda>disk.
     let h = h(out_path \<mapsto> file_bytes disk) in
     ibind (attempt (io 91 out_path) (mbr_write_into M mbr disk) ''Writing to mbr disk failed'') (\<lambda>disk.
     let h = h(out_path \<mapsto> file_bytes disk) in
     ibind (attempt (io 95 out_path) (Some (file_pos disk)) ''failed to get disk image seek position'') (\<lambda>pos.
     ibind (checked (op_mul second_stage_start_sector SECTOR_SIZE)) (\<lambda>expected.
     ibind (checked (rassert (pos = unat expected))) (\<lambda>_.
     ibind (attempt (io 99 out_path) (h second_stage_path) ''failed to copy second stage binary to MBR disk image'') (\<lambda>second_stage.
     let disk = write_all second_stage disk; h = h(out_path \<mapsto> file_bytes disk) in
     ibind (attempt (io 107 tmp) (Some ()) ''Unable to create temp file'') (\<lambda>_.
     ibind (create_fat_filesystem io F [(''stage3'', third_stage_path), (''stage4'', fourth_stage_path), (''kernel'', kernel_path)]
        tmp (h(tmp \<mapsto> []))) (\<lambda>h.
     ibind (attempt (io 112 tmp) (h tmp) ''Unable to get tmp file metadata'') (\<lambda>boot_partition.
     ibind (checked (op_add second_stage_start_sector second_stage_sectors)) (\<lambda>boot_partition_start_sector.
     ibind (checked (sectors_of_len (metadata_len boot_partition))) (\<lambda>boot_partition_sectors.
     ibind (set_partition M mbr 2 (partition_entry M boot_partition_start_sector boot_partition_sectors 0xc)) (\<lambda>mbr.
     ibind (attempt (io 129 out_path) (mbr_write_into M mbr disk) ''Writing boot parition info to mbr failed'') (\<lambda>disk.
     ibind (checked (op_mul boot_partition_start_sector SECTOR_SIZE)) (\<lambda>offset.
     ibind (attempt (io 132 out_path) (Some (disk\<lparr>file_pos := unat offset\<rparr>)) ''seek failed'') (\<lambda>disk.
     ibind (attempt (io 137 out_path) (Some (write_all boot_partition disk)) ''failed to copy second stage binary to MBR disk image'') (\<lambda>disk.
     Inr (h(out_path \<mapsto> file_bytes disk, tmp := None))))))))))))))))))))))))"

text \<open>\<open>create_bios_image\<close> and \<open>create_disk_image\<close>: the paths of the stages are those of the environment; an error is unwrapped.\<close>

definition create_bios_image :: "host_io \<Rightarrow> ('m, 'c) mbrman \<Rightarrow> 'v fatfs \<Rightarrow> path \<times> path \<times> path \<times> path \<Rightarrow> path \<Rightarrow> path \<Rightarrow> path \<Rightarrow>
    host \<Rightarrow> host res" where
  "create_bios_image io M F env kernel_path tmp out_path h =
     (case env of (bios_boot_sector_path, bios_stage_2_path, bios_stage_3_path, bios_stage_4_path) \<Rightarrow>
      case create_mbr_disk io M F kernel_path bios_boot_sector_path bios_stage_2_path bios_stage_3_path bios_stage_4_path tmp out_path h of
        Inl (Err _) \<Rightarrow> Inl Unwrap_None
      | Inl (Aborts e) \<Rightarrow> Inl e
      | Inr h \<Rightarrow> Inr h)"

section \<open>What the crates promise\<close>

text \<open>
  The documented behaviour of \<open>mbrman\<close>. \<open>chs\<close> are the three bytes of an address in cylinders, heads and
  sectors, \<open>V\<close> is the boot code and the four entries that a parsed boot sector stands for: parsing a sector with an
  empty table keeps its code, an assignment replaces one entry, and \<open>write_into\<close> writes the sector with its
  signature to the start of the file.
\<close>

definition MBR_entry_bytes :: "('c \<Rightarrow> u8 list) \<Rightarrow> 'c MBRPartitionEntry \<Rightarrow> u8 list" where
  "MBR_entry_bytes chs e =
     boot e # chs (first_chs e) @ sys e # chs (last_chs e) @ to_le_bytes 4 (starting_lba e) @ to_le_bytes 4 (sectors e)"

definition boot_sector :: "u8 list \<Rightarrow> bool" where
  "boot_sector bs \<longleftrightarrow> 512 \<le> length bs \<and> take 64 (drop 446 bs) = replicate 64 0 \<and> bs ! 510 = 0x55 \<and> bs ! 511 = 0xaa"

definition mbrman_ok :: "('m, 'c) mbrman \<Rightarrow> ('c \<Rightarrow> u8 list) \<Rightarrow> ('m \<Rightarrow> u8 list \<times> u8 list list) \<Rightarrow> bool" where
  "mbrman_ok M chs V \<longleftrightarrow>
     BOOT_ACTIVE M = 0x80 \<and> length (chs (CHS_empty M)) = 3 \<and>
     (\<forall>bs. boot_sector bs \<longrightarrow> (\<exists>m. mbr_read_from M bs 512 = Some m \<and> V m = (take 446 bs, replicate 4 (replicate 16 0)))) \<and>
     (\<forall>m i e. 1 \<le> i \<and> i \<le> 4 \<longrightarrow> (\<exists>m'. mbr_index_mut M m i e = Some m' \<and> V m' = (fst (V m), (snd (V m))[i - 1 := MBR_entry_bytes chs e]))) \<and>
     (\<forall>m f. mbr_write_into M m f = Some (write_all (fst (V m) @ concat (snd (V m)) @ [0x55, 0xaa]) (f\<lparr>file_pos := 0\<rparr>)))"

lemma mbrman_set:
  assumes "mbrman_ok M chs V" "1 \<le> i" "i \<le> 4" "V m = (code, es)"
  obtains m' where "mbr_index_mut M m i e = Some m'" "V m' = (code, es[i - 1 := MBR_entry_bytes chs e])"
proof -
  from assms(1-3) obtain m' where "mbr_index_mut M m i e = Some m'" "V m' = (fst (V m), (snd (V m))[i - 1 := MBR_entry_bytes chs e])"
    unfolding mbrman_ok_def by blast
  with assms(4) that show ?thesis by simp
qed

text \<open>The volume that \<open>fatfs\<close> makes of \<open>n\<close> empty bytes and these files.\<close>

definition fat_store :: "'v fatfs \<Rightarrow> string \<times> u8 list \<Rightarrow> 'v \<Rightarrow> 'v option" where
  "fat_store F = (\<lambda>(name, bs) fs.
     Option.bind (fat_create_file F fs name) (\<lambda>fs. Option.bind (fat_truncate F fs name) (\<lambda>fs. fat_write F fs name bs)))"

definition fat_volume :: "'v fatfs \<Rightarrow> nat \<Rightarrow> (string \<times> u8 list) list \<Rightarrow> u8 list option" where
  "fat_volume F n files =
     Option.bind (fat_format_volume F (replicate n 0) ''MiniatureOs'') (\<lambda>volume.
     Option.bind (fat_FileSystem_new F volume) (\<lambda>fs.
     map_option (fat_bytes F) (fold (\<lambda>f r. Option.bind r (fat_store F f)) files (Some fs))))"

section \<open>The image\<close>

lemma write_all_start: "write_all bs (f\<lparr>file_pos := 0\<rparr>) = \<lparr>file_bytes = bs @ drop (length bs) (file_bytes f), file_pos = length bs\<rparr>"
  by (simp add: write_all_def)

lemma write_all_end: "length c \<le> p \<Longrightarrow> write_all bs \<lparr>file_bytes = c, file_pos = p\<rparr> =
    \<lparr>file_bytes = c @ replicate (p - length c) 0 @ bs, file_pos = p + length bs\<rparr>"
  by (simp add: write_all_def)

text \<open>The size of the volume: a multiple of a MiB, with more than a MiB and 64 KiB to spare.\<close>

definition volume_size :: "nat \<Rightarrow> nat" where
  "volume_size n = ((n + 65535) div 2 ^ 20 + 2) * 2 ^ 20"

lemma volume_size_bounds: "n + 2 ^ 20 + 2 ^ 16 \<le> volume_size n" "volume_size n \<le> n + 2 ^ 21 + 2 ^ 16" "2 ^ 20 dvd volume_size n"
proof -
  have "(n + 65535) div 2 ^ 20 * 2 ^ 20 + (n + 65535) mod 2 ^ 20 = n + 65535" by (rule div_mult_mod_eq)
  moreover have "(n + 65535) mod 2 ^ 20 < 2 ^ 20" by simp
  ultimately show "n + 2 ^ 20 + 2 ^ 16 \<le> volume_size n" "volume_size n \<le> n + 2 ^ 21 + 2 ^ 16"
    unfolding volume_size_def add_mult_distrib by simp_all
  show "2 ^ 20 dvd volume_size n" by (simp add: volume_size_def)
qed

lemma fat_size_eq:
  assumes "n < 2 ^ 40"
  shows "\<exists>s. fat_size_padded_and_rounded (of_nat n) = Inr s \<and> unat s = volume_size n"
proof -
  have u: "unat (of_nat n :: u64) = n" using assms by (simp add: unat_of_nat)
  define w :: u64 where "w = of_nat n + 0x10000"
  have a: "unat w = n + 65536" using assms u by (simp add: unat_plus_nowrap w_def)
  have b: "unat (w - 1) = n + 65535" "1 \<le> w" using a by (simp_all add: unat_sub word_le_nat_alt)
  define d where "d = (w - 1) div 0x100000"
  define e where "e = d + 1"
  define f where "f = e * 0x100000"
  have l: "(n + 65535) div 2 ^ 20 < 2 ^ 30" using assms by (simp add: div_less_iff_less_mult)
  have d: "unat d = (n + 65535) div 2 ^ 20" using b(1) by (simp add: unat_div d_def)
  have e: "unat e = (n + 65535) div 2 ^ 20 + 1" using d l by (simp add: unat_plus_nowrap e_def)
  have f: "unat f = ((n + 65535) div 2 ^ 20 + 1) * 2 ^ 20" using e l by (simp add: unat_times_nowrap f_def)
  have g: "unat (f + 0x100000) = volume_size n" using f l by (simp add: unat_plus_nowrap volume_size_def)
  show ?thesis
    using assms u a b d e f g l
    by (simp add: fat_size_padded_and_rounded_def op_add_def op_sub_def op_mul_def w_def [symmetric] d_def [symmetric]
        e_def [symmetric] f_def [symmetric])
qed

lemma sectors_of_len_eq:
  assumes "n < 2 ^ 40"
  shows "\<exists>s. sectors_of_len (of_nat n) = Inr s \<and> unat s = (n + 511) div 512"
proof -
  have u: "unat (of_nat n :: u64) = n" using assms by (simp add: unat_of_nat)
  have a: "unat (of_nat n + 0x1FF :: u64) = n + 511" using assms u by (simp add: unat_plus_nowrap)
  have l: "(n + 511) div 512 < 2 ^ 32" using assms by (simp add: div_less_iff_less_mult)
  have "unat (ucast ((of_nat n + 0x1FF :: u64) div 512) :: u32) = (n + 511) div 512"
    using a l by (simp add: unsigned_ucast_eq take_bit_nat_eq_self unat_div)
  then show ?thesis using u assms by (simp add: sectors_of_len_def SECTOR_SIZE_def op_add_def op_sub_def)
qed

definition contents :: "host \<Rightarrow> (string \<times> path) list \<Rightarrow> (string \<times> u8 list) list" where
  "contents h files = map (\<lambda>(name, p). (name, the (h p))) files"

definition total_size :: "(string \<times> u8 list) list \<Rightarrow> nat" where
  "total_size fs = sum_list (map (length \<circ> snd) fs)"

lemma needed_size_eq:
  assumes "\<forall>l p. io l p" "\<forall>(_, p) \<in> set files. h p \<noteq> None" "k + total_size (contents h files) < 2 ^ 40"
  shows "fold (\<lambda>(_, p) r. ibind r (\<lambda>n.
        ibind (attempt (io 156 p) (h p) ''Failed to get metadata'') (\<lambda>bs. checked (op_add n (metadata_len bs))))) files (Inr (of_nat k)) =
      Inr (of_nat (k + total_size (contents h files)))"
  using assms(2,3)
proof (induction files arbitrary: k)
  case (Cons f files)
  obtain name p bs where f: "f = (name, p)" "h p = Some bs" using Cons.prems(1) by (cases f) auto
  have l: "k + length bs + total_size (contents h files) < 2 ^ 40" using Cons.prems(2) f by (simp add: total_size_def contents_def)
  then have "unat (of_nat k :: u64) = k" "unat (of_nat (length bs) :: u64) = length bs" by (simp_all add: unat_of_nat)
  then have "op_add (of_nat k) (metadata_len bs) = Inr (of_nat (k + length bs))" using l by (simp add: op_add_def metadata_len_def)
  then show ?case using Cons.IH [OF _ l] Cons.prems(1) f assms(1) by (simp add: total_size_def contents_def add.assoc)
qed (simp add: total_size_def contents_def)

lemma fold_store_None: "fold (\<lambda>f r. Option.bind r (fat_store F f)) fs None = None"
  by (induction fs) simp_all

lemma copy_files_eq:
  assumes "\<forall>l p. io l p" "\<forall>(_, p) \<in> set files. h p \<noteq> None"
    and "fold (\<lambda>f r. Option.bind r (fat_store F f)) (contents h files) (Some fs) = Some fs'"
  shows "fold (\<lambda>f r. ibind r (copy_file io F h f)) files (Inr fs) = Inr fs'"
  using assms(2,3)
proof (induction files arbitrary: fs)
  case (Cons f files)
  obtain name p bs where f: "f = (name, p)" "h p = Some bs" using Cons.prems(1) by (cases f) auto
  have fd: "fold (\<lambda>f r. Option.bind r (fat_store F f)) (contents h files) (fat_store F (name, bs) fs) = Some fs'"
    using Cons.prems(2) f by (simp add: contents_def)
  then obtain fs1 where s: "fat_store F (name, bs) fs = Some fs1" by (cases "fat_store F (name, bs) fs") (simp_all add: fold_store_None)
  then have "copy_file io F h f fs = Inr fs1"
    using assms(1) f by (auto simp: fat_store_def copy_file_def attempt_def split: Option.bind_splits)
  then show ?case using Cons.IH [of fs1] Cons.prems(1) fd s by simp
qed (simp add: contents_def)

lemma create_fat_filesystem_eq:
  assumes io: "\<forall>l p. io l p" and fs: "\<forall>(_, p) \<in> set files. h p \<noteq> None \<and> p \<noteq> out"
    and sz: "total_size (contents h files) < 2 ^ 40"
    and v: "fat_volume F (volume_size (total_size (contents h files))) (contents h files) = Some fat"
  shows "create_fat_filesystem io F files out h = Inr (h(out \<mapsto> fat))"
proof -
  let ?h = "h(out \<mapsto> [])"
  have c: "contents ?h files = contents h files" using fs by (auto simp: contents_def)
  have ex: "\<forall>(_, p) \<in> set files. ?h p \<noteq> None" using fs by auto
  have n: "needed_size io ?h files = Inr (of_nat (total_size (contents h files)))"
    using needed_size_eq [OF io ex, of 0] c sz by (simp add: needed_size_def del: fun_upd_apply)
  obtain s where s: "fat_size_padded_and_rounded (of_nat (total_size (contents h files))) = Inr s"
      "unat s = volume_size (total_size (contents h files))"
    using fat_size_eq [OF sz] by blast
  from v obtain vol fs0 fs1 where w: "fat_format_volume F (replicate (unat s) 0) ''MiniatureOs'' = Some vol"
      "fat_FileSystem_new F vol = Some fs0" "fold (\<lambda>f r. Option.bind r (fat_store F f)) (contents h files) (Some fs0) = Some fs1" "fat = fat_bytes F fs1"
    by (auto simp: fat_volume_def s(2) bind_eq_Some_conv)
  have "fold (\<lambda>f r. ibind r (copy_file io F ?h f)) files (Inr fs0) = Inr fs1"
    using copy_files_eq [OF io ex] w(3) c by (simp del: fun_upd_apply)
  then show ?thesis using io n s(1) w by (simp add: create_fat_filesystem_def Let_def set_len_def del: fun_upd_apply)
qed

text \<open>
  The layout: the boot code, the table with stage 2 and the volume, stage 2 filled up to a whole number of
  sectors, the volume.
\<close>

definition image_table :: "u8 list \<Rightarrow> nat \<Rightarrow> nat \<Rightarrow> (PartitionTableEntry \<times> u8 list \<times> u8 list) list" where
  "image_table c n k =
     [(\<lparr>bootable = True, partition_type = 0x20, logical_block_address = 1, sector_count = of_nat n\<rparr>, c, c),
      (\<lparr>bootable = True, partition_type = 0xc, logical_block_address = of_nat (1 + n), sector_count = of_nat k\<rparr>, c, c),
      (PartitionTableEntry_default, [0, 0, 0], [0, 0, 0]), (PartitionTableEntry_default, [0, 0, 0], [0, 0, 0])]"

definition padded :: "u8 list \<Rightarrow> u8 list" where
  "padded s2 = s2 @ replicate ((length s2 + 511) div 512 * 512 - length s2) 0"

definition disk_image :: "u8 list \<Rightarrow> u8 list \<Rightarrow> u8 list \<Rightarrow> u8 list \<Rightarrow> u8 list" where
  "disk_image c code s2 fat =
     code @ encode_table (image_table c ((length s2 + 511) div 512) (length fat div 512)) @ [0x55, 0xaa] @ padded s2 @ fat"

lemma length_padded: "length (padded s2) = (length s2 + 511) div 512 * 512"
proof -
  have "(length s2 + 511) div 512 * 512 + (length s2 + 511) mod 512 = length s2 + 511" by (rule div_mult_mod_eq)
  moreover have "(length s2 + 511) mod 512 < 512" by simp
  ultimately have "length s2 \<le> (length s2 + 511) div 512 * 512" by linarith
  then show ?thesis by (simp add: padded_def)
qed

lemma image_table_bytes:
  assumes "length c = 3"
  shows "chs_ok (image_table c n k)" "length (encode_table (image_table c n k)) = 64"
  using assms by (simp_all add: chs_ok_def image_table_def encode_table_def encode_partition_def)

lemma image_entry_bytes:
  "MBR_entry_bytes chs \<lparr>boot = 0x80, first_chs = c, sys = s, last_chs = c, starting_lba = lba, sectors = n\<rparr> =
     encode_partition \<lparr>bootable = True, partition_type = s, logical_block_address = lba, sector_count = n\<rparr> (chs c) (chs c)"
  by (simp add: MBR_entry_bytes_def encode_partition_def)

lemma empty_entry_bytes: "replicate 16 0 = encode_partition PartitionTableEntry_default [0, 0, 0] [0, 0, 0]"
  by (simp add: encode_partition_def PartitionTableEntry_default_def eval_nat_numeral)

lemma create_mbr_disk_eq:
  assumes M: "mbrman_ok M chs V" and io: "\<forall>l p. io l p"
    and mbr: "h mbr_path = Some mb" "boot_sector mb" and s2: "h second_stage_path = Some s2" "length s2 < 2 ^ 30"
    and files: "files = [(''stage3'', third_stage_path), (''stage4'', fourth_stage_path), (''kernel'', kernel_path)]"
    and paths: "\<forall>(_, p) \<in> set files. h p \<noteq> None \<and> p \<noteq> out_path \<and> p \<noteq> tmp" "second_stage_path \<noteq> out_path" "tmp \<noteq> out_path"
    and fat: "total_size (contents h files) < 2 ^ 39" "length fat = volume_size (total_size (contents h files))"
      "fat_volume F (volume_size (total_size (contents h files))) (contents h files) = Some fat"
  shows "create_mbr_disk io M F kernel_path mbr_path second_stage_path third_stage_path fourth_stage_path tmp out_path h =
     Inr (h(out_path \<mapsto> disk_image (chs (CHS_empty M)) (take 446 mb) s2 fat, tmp := None))"
proof -
  let ?c = "chs (CHS_empty M)" and ?n = "(length s2 + 511) div 512"
  have act: "BOOT_ACTIVE M = 0x80" and wr: "\<And>m f. mbr_write_into M m f =
      Some (write_all (fst (V m) @ concat (snd (V m)) @ [0x55, 0xaa]) (f\<lparr>file_pos := 0\<rparr>))" and c: "length ?c = 3"
    using M by (simp_all add: mbrman_ok_def)
  have len: "length (take 446 mb) = 446" using mbr(2) by (simp add: boot_sector_def)
  have z: "replicate 4 x = [x, x, x, x]" for x :: "u8 list"
    by (simp add: numeral_eq_Suc)
  obtain m0 where m0: "mbr_read_from M mb 512 = Some m0" "V m0 = (take 446 mb, replicate 4 (replicate 16 0))"
    using M mbr(2) unfolding mbrman_ok_def by blast
  obtain ns where ns: "sectors_of_len (metadata_len s2) = Inr ns" "unat ns = ?n"
    using sectors_of_len_eq [of "length s2"] s2(2) by (auto simp: metadata_len_def)
  have nl: "?n < 2 ^ 22" using s2(2) by (simp add: div_less_iff_less_mult)
  have nseq: "ns = of_nat ?n" using ns(2) nl by (simp add: word_unat_eq_iff unat_of_nat)
  let ?e1 = "partition_entry M 1 ns 0x20"
  obtain m1 where m1: "mbr_index_mut M m0 1 ?e1 = Some m1" "V m1 = (take 446 mb, (replicate 4 (replicate 16 0))[0 := MBR_entry_bytes chs ?e1])"
    by (rule mbrman_set [OF M _ _ m0(2), of 1 ?e1]) simp_all
  obtain k where k: "sectors_of_len (metadata_len fat) = Inr k" "unat k = (length fat + 511) div 512"
    using sectors_of_len_eq [of "length fat"] fat(1,2) volume_size_bounds(2) [of "total_size (contents h files)"]
    by (auto simp: metadata_len_def)
  have ld: "(length fat + 511) div 512 = length fat div 512"
  proof -
    have "512 dvd length fat" using volume_size_bounds(3) [of "total_size (contents h files)"] fat(2) by (simp add: dvd_trans [of 512 "2 ^ 20"])
    then show ?thesis by (auto elim!: dvdE)
  qed
  have keq: "k = of_nat (length fat div 512)" using arg_cong [OF k(2), of "of_nat :: nat \<Rightarrow> u32"] ld by simp
  let ?e2 = "partition_entry M (1 + ns) k 0xc"
  obtain m2 where m2: "mbr_index_mut M m1 2 ?e2 = Some m2"
      "V m2 = (take 446 mb, (replicate 4 (replicate 16 0))[0 := MBR_entry_bytes chs ?e1, 1 := MBR_entry_bytes chs ?e2])"
    by (rule mbrman_set [OF M _ _ m1(2), of 2 ?e2]) simp_all
  have tab: "concat (snd (V m2)) = encode_table (image_table ?c ?n (length fat div 512))"
    by (simp add: m2(2) z partition_entry_def act image_entry_bytes empty_entry_bytes encode_table_def image_table_def nseq keq)
  define sec1 where "sec1 = take 446 mb @ concat (snd (V m1)) @ [0x55, 0xaa]"
  define sec2 where "sec2 = take 446 mb @ concat (snd (V m2)) @ [0x55, 0xaa]"
  have l12: "length sec1 = 512" "length sec2 = 512"
    using len c image_table_bytes(2) [OF c, of ?n "length fat div 512"]
    by (simp_all add: sec1_def sec2_def tab m1(2) z MBR_entry_bytes_def partition_entry_def)
  have w1: "mbr_write_into M m1 \<lparr>file_bytes = [], file_pos = 0\<rparr> = Some \<lparr>file_bytes = sec1, file_pos = 512\<rparr>"
    using l12(1) unfolding wr write_all_start by (simp add: m1(2) sec1_def)
  have c1: "write_all s2 \<lparr>file_bytes = sec1, file_pos = 512\<rparr> = \<lparr>file_bytes = sec1 @ s2, file_pos = 512 + length s2\<rparr>"
    using l12(1) by (simp add: write_all_end)
  have w2: "mbr_write_into M m2 \<lparr>file_bytes = sec1 @ s2, file_pos = 512 + length s2\<rparr> = Some \<lparr>file_bytes = sec2 @ s2, file_pos = 512\<rparr>"
    using l12 unfolding wr write_all_start by (simp add: m2(2) sec2_def)
  have ad: "op_add 1 ns = Inr (1 + ns)" "unat (1 + ns) = 1 + ?n" using ns(2) nl by (simp_all add: op_add_def unat_plus_nowrap)
  have mu: "op_mul (1 + ns) SECTOR_SIZE = Inr ((1 + ns) * 512)" "unat ((1 + ns) * 512) = (1 + ?n) * 512"
    using ad(2) nl unat_times_nowrap [of "1 + ns" 512] by (simp_all add: op_mul_def SECTOR_SIZE_def)
  have lp: "length s2 \<le> ?n * 512" using length_padded [of s2] by (simp add: padded_def)
  have c2: "write_all fat \<lparr>file_bytes = sec2 @ s2, file_pos = (1 + ?n) * 512\<rparr> =
      \<lparr>file_bytes = disk_image ?c (take 446 mb) s2 fat, file_pos = (1 + ?n) * 512 + length fat\<rparr>"
  proof -
    have "disk_image ?c (take 446 mb) s2 fat = sec2 @ padded s2 @ fat" by (simp add: disk_image_def sec2_def tab)
    moreover have "(1 + ?n) * 512 - (512 + length s2) = ?n * 512 - length s2" by simp
    ultimately show ?thesis using l12(2) lp by (subst write_all_end) (simp_all add: padded_def)
  qed
  let ?h = "h(out_path \<mapsto> sec1 @ s2, tmp \<mapsto> [])"
  have ct: "contents ?h files = contents h files" using paths(1) by (auto simp: contents_def)
  have cf: "create_fat_filesystem io F files tmp ?h = Inr (?h(tmp \<mapsto> fat))"
    using fat paths ct by (intro create_fat_filesystem_eq [OF io]) auto
  show ?thesis
    unfolding create_mbr_disk_def files [symmetric]
    using io mbr s2(1) paths(2,3) m0(1) ns(1) m1(1) m2(1) w1 c1 w2 ad(1) mu k(1) c2 cf
    by (simp add: SECTOR_SIZE_def set_partition_def Let_def rassert_def op_mul_def [of 1])
qed

section \<open>Booting from the image\<close>

text \<open>The disk with these bytes, and memory with its first sector at the place where the BIOS puts it.\<close>

definition disk_of :: "u8 list \<Rightarrow> nat \<Rightarrow> u8" where
  "disk_of bs i = (if i < length bs then bs ! i else 0)"

definition boot_sector_loaded :: "(nat \<Rightarrow> u8) \<Rightarrow> memory \<Rightarrow> bool" where
  "boot_sector_loaded img m \<longleftrightarrow> (\<forall>i < 512. m (0x7c00 + of_nat i) = img i)"

lemma image_bytes_disk_of: "image_bytes (disk_of (xs @ ys @ zs)) (length xs) (length ys) = ys"
  by (rule nth_equalityI) (simp_all add: nth_image_bytes disk_of_def nth_append)

lemma disk_image_parts:
  fixes s2 fat :: "u8 list"
  assumes "length c = 3" "length code = 446"
  defines "img \<equiv> disk_of (disk_image c code s2 fat)" and "n \<equiv> (length s2 + 511) div 512"
  shows "image_bytes img 446 64 = encode_table (image_table c n (length fat div 512))"
    and "image_bytes img 512 (n * 512) = padded s2"
    and "image_bytes img ((1 + n) * 512) (length fat) = fat"
proof -
  let ?t = "encode_table (image_table c n (length fat div 512))"
  have d: "disk_image c code s2 fat = code @ ?t @ ([0x55, 0xaa] @ padded s2 @ fat)"
    "disk_image c code s2 fat = (code @ ?t @ [0x55, 0xaa]) @ padded s2 @ fat"
    "disk_image c code s2 fat = (code @ ?t @ [0x55, 0xaa] @ padded s2) @ fat @ []"
    by (simp_all add: disk_image_def n_def)
  have l: "length ?t = 64" "length (padded s2) = n * 512" using image_table_bytes(2) [OF assms(1)] by (simp_all add: length_padded n_def)
  show "image_bytes img 446 64 = ?t"
    using image_bytes_disk_of [of code ?t] l assms(2) unfolding img_def d(1) by simp
  show "image_bytes img 512 (n * 512) = padded s2"
    using image_bytes_disk_of [of "code @ ?t @ [0x55, 0xaa]" "padded s2" fat] l assms(2) unfolding img_def d(2) by simp
  show "image_bytes img ((1 + n) * 512) (length fat) = fat"
    using image_bytes_disk_of [of "code @ ?t @ [0x55, 0xaa] @ padded s2" fat "[]"] l assms(2) unfolding img_def d(3) by simp
qed

lemma boot_table_bytes:
  assumes "boot_sector_loaded img m"
  shows "map (\<lambda>i. m (0x7dbe + of_nat i)) [0 ..< 4 * 16] = image_bytes img 446 64"
proof (rule nth_equalityI)
  fix i assume "i < length (map (\<lambda>i. m (0x7dbe + of_nat i)) [0 ..< 4 * 16])"
  then have i: "i < 64" by simp
  have "m (0x7c00 + of_nat (446 + i)) = img (446 + i)" 
    by (rule assms [unfolded boot_sector_loaded_def, rule_format]) (use i in simp)
  then show "map (\<lambda>i. m (0x7dbe + of_nat i)) [0 ..< 4 * 16] ! i = image_bytes img 446 64 ! i"
    using i by (simp add: nth_image_bytes)
qed simp

lemma read_partition_table_encoded:
  assumes "map (\<lambda>i. m (start + of_nat i)) [0 ..< 4 * 16] = encode_table es" "chs_ok es" "length es = 4"
  shows "read_partition_table m start = Inr (map fst es)"
proof -
  note e = get_partition_encoded(2) [OF assms(2), unfolded assms(3), of 0] get_partition_encoded(2) [OF assms(2), unfolded assms(3), of 1]
    get_partition_encoded(2) [OF assms(2), unfolded assms(3), of 2] get_partition_encoded(2) [OF assms(2), unfolded assms(3), of 3]
  have u: "[0 ..< 4] = [0, 1, 2, 3 :: nat]" by (simp add: upt_rec)
  have r: "replicate 4 (x :: PartitionTableEntry) = [x, x, x, x]" for x by (simp add: eval_nat_numeral)
  obtain a b c d where es: "es = [a, b, c, d]" using assms(3) by (auto simp: numeral_eq_Suc length_Suc_conv)
  show ?thesis
    unfolding read_partition_table_def PARTITION_TABLE_ENTRY_COUNT_def PARTITION_TABLE_ENTRY_SIZE_def Let_def u r assms(1)
    using e by (simp add: index_set_def es)
qed

lemma first_stage_image:
  fixes s2 fat :: "u8 list"
  assumes "length c = 3" "length code = 446" "packets_fit 0x7e00 ((length s2 + 511) div 512)"
    and "bios_reads B (disk_of (disk_image c code s2 fat))" "boot_sector_loaded (disk_of (disk_image c code s2 fat)) m"
  shows "first_stage B 0x7dbe 0x7e00 dn m = Inr (0x7e00, dn, 0x7dbe, copy_bytes m 0x7e00 (padded s2))" (is ?S)
    and "read_partition_table (copy_bytes m 0x7e00 (padded s2)) 0x7dbe =
        Inr (map fst (image_table c ((length s2 + 511) div 512) (length fat div 512)))" (is ?R)
proof -
  let ?n = "(length s2 + 511) div 512"
  let ?es = "image_table c ?n (length fat div 512)"
  note parts = disk_image_parts [OF assms(1,2), of s2 fat] and es = image_table_bytes [OF assms(1)]
  have n: "?n < 2 ^ 16"
  proof (rule ccontr)
    assume "\<not> ?n < 2 ^ 16"
    then have "2047 \<le> (?n - 1) div 0x20" using div_le_mono [of 65535 "?n - 1" 32] by simp
    then show False using assms(3) \<open>\<not> ?n < 2 ^ 16\<close> by (simp add: packets_fit_def)
  qed
  have raw: "map (\<lambda>i. m (0x7dbe + of_nat i)) [0 ..< 4 * 16] = encode_table ?es"
    unfolding boot_table_bytes [OF assms(5)] by (rule parts(1))
  have l: "length ?es = 4" by (simp add: image_table_def)
  have g: "get_partition (encode_table ?es) 0 = Inr (fst (?es ! 0))"
    using get_partition_encoded(1) [OF es(1) [of ?n "length fat div 512"], of 0] l by simp
  have un: "unat (of_nat ?n :: u32) = ?n" using n by (simp add: unat_of_nat)
  have "first_stage_loop B dn 1 (of_nat ?n) 0x7e00 m = Inr (copy_bytes m 0x7e00 (padded s2))"
    using first_stage_loop_correct [OF assms(4), of 1 "of_nat ?n" dn "0x7e00" m] n un assms(3) parts(2) by simp
  then show ?S by (simp add: first_stage_def raw [simplified] g Let_def) (simp add: image_table_def)
  have "copy_bytes m 0x7e00 (padded s2) (0x7dbe + of_nat i) = m (0x7dbe + of_nat i)" if "i < 64" for i
  proof (rule copy_bytes_apart)
    show "unat (0x7e00 :: u32) + length (padded s2) \<le> 2 ^ 32" using n by (simp add: length_padded)
    have "unat (0x7dbe + of_nat i :: u32) = 0x7dbe + i" using that by (simp add: unat_word_ariths unat_of_nat)
    then show "unat (0x7dbe + of_nat i :: u32) < unat (0x7e00 :: u32) \<or> unat (0x7e00 :: u32) + length (padded s2) \<le> unat (0x7dbe + of_nat i :: u32)"
      using that by simp
  qed
  then have "map (\<lambda>i. copy_bytes m 0x7e00 (padded s2) (0x7dbe + of_nat i)) [0 ..< 4 * 16] = encode_table ?es"
    unfolding raw [symmetric] by simp
  then show ?R by (rule read_partition_table_encoded [OF _ es(1) l])
qed

section \<open>Properties\<close>

text \<open>
  C12. The builder and the boot stages agree: from a boot sector with an empty table, stage 2 and the files
  of the volume, with the calls to the host and to the library succeeding, \<open>create_mbr_disk\<close> returns an image. A machine that
  starts from it, with the boot sector in memory, runs through stage 1 into stage 2, which is complete in
  memory, filled up with zeros; and there stage 2 reads the partition table and finds, in its second entry, the sectors of the
  volume, with the type it asks for. The volume has room for the files and more than a MiB beside them.
\<close>

theorem disk_image_boots:
  assumes "mbrman_ok M chs V" "\<forall>l p. io l p" "h mbr_path = Some mb" "boot_sector mb" "h second_stage_path = Some s2"
    and "packets_fit 0x7e00 ((length s2 + 511) div 512)"
    and "files = [(''stage3'', third_stage_path), (''stage4'', fourth_stage_path), (''kernel'', kernel_path)]"
    and "\<forall>(_, p) \<in> set files. h p \<noteq> None \<and> p \<noteq> out_path \<and> p \<noteq> tmp" "second_stage_path \<noteq> out_path" "tmp \<noteq> out_path"
    and "total_size (contents h files) < 2 ^ 39" "length fat = volume_size (total_size (contents h files))"
    and "fat_volume F (length fat) (contents h files) = Some fat"
  defines "n \<equiv> (length s2 + 511) div 512"
  shows "\<exists>img. create_mbr_disk io M F kernel_path mbr_path second_stage_path third_stage_path fourth_stage_path tmp out_path h =
         Inr (h(out_path \<mapsto> img, tmp := None)) \<and>
     image_bytes (disk_of img) ((1 + n) * 512) (length fat) = fat \<and> total_size (contents h files) + 2 ^ 20 \<le> length fat \<and>
     (\<forall>B m dn. bios_reads B (disk_of img) \<and> boot_sector_loaded (disk_of img) m \<longrightarrow>
        (\<exists>m'. first_stage B 0x7dbe 0x7e00 dn m = Inr (0x7e00, dn, 0x7dbe, m') \<and> m' = copy_bytes m 0x7e00 (padded s2) \<and>
           (\<exists>table. read_partition_table m' 0x7dbe = Inr table \<and> get_nth table 1 =
              Some \<lparr>bootable = True, partition_type = 0xc, logical_block_address = of_nat (1 + n), sector_count = of_nat (length fat div 512)\<rparr>)))"
proof -
  let ?c = "chs (CHS_empty M)"
  let ?img = "disk_image ?c (take 446 mb) s2 fat"
  have c: "length ?c = 3" "length (take 446 mb) = 446" using assms(1,4) by (simp_all add: mbrman_ok_def boot_sector_def)
  have "length s2 < 2 ^ 30"
  proof (rule ccontr)
    assume "\<not> length s2 < 2 ^ 30"
    then have "2 ^ 21 \<le> (length s2 + 511) div 512" using div_le_mono [of "2 ^ 30" "length s2 + 511" 512] by simp
    moreover from this have "2 ^ 15 \<le> ((length s2 + 511) div 512 - 1) div 32" using div_le_mono [of "2 ^ 20" "(length s2 + 511) div 512 - 1" 32] by simp
    ultimately show False using assms(6) by (simp add: packets_fit_def)
  qed
  then have "create_mbr_disk io M F kernel_path mbr_path second_stage_path third_stage_path fourth_stage_path tmp out_path h =
      Inr (h(out_path \<mapsto> ?img, tmp := None))"
    using create_mbr_disk_eq [OF assms(1-5) _ assms(7-12)] assms(12,13) by simp
  moreover have "get_nth (map fst (image_table ?c n k)) 1 =
      Some \<lparr>bootable = True, partition_type = 0xc, logical_block_address = of_nat (1 + n), sector_count = of_nat k\<rparr>" for k
    by (simp add: get_nth_def image_table_def)
  ultimately show ?thesis
    using disk_image_parts(3) [OF c, of s2 fat] volume_size_bounds(1) [of "total_size (contents h files)"] assms(12)
      first_stage_image [OF c assms(6), of _ fat] unfolding n_def [symmetric] by (intro exI [of _ ?img]) auto
qed

text \<open>
  An instance: a boot sector is its code and its entries; a volume is its size and its files, whose bytes
  stand one after the other. Stage 2 has 600 bytes, the files of the volume three each.
\<close>

definition reference_mbrman :: "(u8 list \<times> u8 list list, u8 list) mbrman" where
  "reference_mbrman =
     \<lparr>BOOT_ACTIVE = 0x80, CHS_empty = [0, 0, 0],
      mbr_read_from = (\<lambda>bs n. if boot_sector bs then Some (take 446 bs, replicate 4 (replicate 16 0)) else None),
      mbr_index_mut = (\<lambda>m i e. if 1 \<le> i \<and> i \<le> 4 then Some (fst m, (snd m)[i - 1 := MBR_entry_bytes id e]) else None),
      mbr_write_into = (\<lambda>m f. Some (write_all (fst m @ concat (snd m) @ [0x55, 0xaa]) (f\<lparr>file_pos := 0\<rparr>)))\<rparr>"

definition reference_fatfs :: "(nat \<times> (string \<times> u8 list) list) fatfs" where
  "reference_fatfs =
     \<lparr>fat_format_volume = (\<lambda>bs _. Some bs), fat_FileSystem_new = (\<lambda>bs. Some (length bs, [])),
      fat_create_file = (\<lambda>(n, fs) name. Some (n, fs @ [(name, [])])), fat_truncate = (\<lambda>v name. Some v),
      fat_write = (\<lambda>(n, fs) name bs. Some (n, map (\<lambda>(x, old). if x = name then (x, old @ bs) else (x, old)) fs)),
      fat_bytes = (\<lambda>(n, fs). take n (concat (map snd fs) @ replicate n 0))\<rparr>"

definition example_host :: host where
  "example_host = [''mbr'' \<mapsto> replicate 510 0 @ [0x55, 0xaa], ''stage2'' \<mapsto> replicate 600 7, ''stage3'' \<mapsto> [3, 3, 3],
     ''stage4'' \<mapsto> [4, 4, 4], ''kernel'' \<mapsto> [5, 5, 5]]"

lemma reference_mbrman_ok: "mbrman_ok reference_mbrman id id"
  by (auto simp: mbrman_ok_def reference_mbrman_def)

theorem disk_image_boots_witness:
  "\<exists>img. create_mbr_disk (\<lambda>_ _. True) reference_mbrman reference_fatfs ''kernel'' ''mbr'' ''stage2'' ''stage3'' ''stage4'' ''tmp'' ''bios.img'' example_host =
         Inr (example_host(''bios.img'' \<mapsto> img, ''tmp'' := None)) \<and>
     (\<forall>B m dn. bios_reads B (disk_of img) \<and> boot_sector_loaded (disk_of img) m \<longrightarrow>
        (\<exists>m'. first_stage B 0x7dbe 0x7e00 dn m = Inr (0x7e00, dn, 0x7dbe, m') \<and>
           (\<exists>table. read_partition_table m' 0x7dbe = Inr table \<and> get_nth table 1 =
              Some \<lparr>bootable = True, partition_type = 0xc, logical_block_address = 3, sector_count = 4096\<rparr>)))"
proof -
  let ?files = "[(''stage3'', ''stage3''), (''stage4'', ''stage4''), (''kernel'', ''kernel'')]"
  have c: "contents example_host ?files = [(''stage3'', [3, 3, 3]), (''stage4'', [4, 4, 4]), (''kernel'', [5, 5, 5])]"
    by (simp add: contents_def example_host_def)
  have s: "volume_size (total_size (contents example_host ?files)) = 2 ^ 21" by (simp add: c total_size_def volume_size_def)
  define n :: nat where "n = 2 ^ 21"
  let ?fat = "take n ([3, 3, 3, 4, 4, 4, 5, 5, 5] @ replicate n (0 :: u8))"
  have v: "fat_volume reference_fatfs n (contents example_host ?files) = Some ?fat"
    by (simp add: fat_volume_def reference_fatfs_def c fat_store_def del: take_append)
  have l: "length ?fat = n" by simp
  have b: "boot_sector (replicate 510 0 @ [0x55, 0xaa])" by (simp add: boot_sector_def nth_append)
  have p: "packets_fit 0x7e00 ((length (replicate 600 (7 :: u8)) + 511) div 512)" by (simp add: packets_fit_def)
  have f: "example_host ''mbr'' = Some (replicate 510 0 @ [0x55, 0xaa])" "example_host ''stage2'' = Some (replicate 600 7)"
    "\<forall>(_, p) \<in> set ?files. example_host p \<noteq> None \<and> p \<noteq> ''bios.img'' \<and> p \<noteq> ''tmp''"
    by (simp_all add: example_host_def)
  have t: "total_size (contents example_host ?files) < 2 ^ 39" by (simp add: c total_size_def)
  have k: "length ?fat div 512 = 4096" unfolding l by (simp add: n_def)
  have "\<exists>img. create_mbr_disk (\<lambda>_ _. True) reference_mbrman reference_fatfs ''kernel'' ''mbr'' ''stage2'' ''stage3'' ''stage4'' ''tmp'' ''bios.img'' example_host =
         Inr (example_host(''bios.img'' \<mapsto> img, ''tmp'' := None)) \<and>
     image_bytes (disk_of img) ((1 + (length (replicate 600 (7 :: u8)) + 511) div 512) * 512) (length ?fat) = ?fat \<and>
     total_size (contents example_host ?files) + 2 ^ 20 \<le> length ?fat \<and>
     (\<forall>B m dn. bios_reads B (disk_of img) \<and> boot_sector_loaded (disk_of img) m \<longrightarrow>
        (\<exists>m'. first_stage B 0x7dbe 0x7e00 dn m = Inr (0x7e00, dn, 0x7dbe, m') \<and> m' = copy_bytes m 0x7e00 (padded (replicate 600 7)) \<and>
           (\<exists>table. read_partition_table m' 0x7dbe = Inr table \<and> get_nth table 1 =
              Some \<lparr>bootable = True, partition_type = 0xc, logical_block_address = of_nat (1 + (length (replicate 600 (7 :: u8)) + 511) div 512),
                sector_count = of_nat (length ?fat div 512)\<rparr>)))"
    by (rule disk_image_boots [OF reference_mbrman_ok _ f(1) b f(2) p refl])
      (use f(3) v t in \<open>simp_all add: l s n_def del: length_take\<close>)
  then show ?thesis unfolding k by auto
qed

end
