(* ===== verification/Intrusive_List.thy ===== *)
theory Intrusive_List
  imports Rust_Prelude
begin

text \<open>
  The intrusive doubly linked list of \<open>util/intrusive_linked_list/src/lib.rs\<close>. The nodes belong to
  the caller: memory is the partial map from an address to the node there, and following a pointer
  to an address without a node is undefined behaviour.
\<close>

record ListNode =
  node_next :: "u64 option"
  node_prev :: "u64 option"

definition ListNode_new :: ListNode where
  "ListNode_new = \<lparr>node_next = None, node_prev = None\<rparr>"

type_synonym node_memory = "u64 \<rightharpoonup> ListNode"

definition node_at :: "node_memory \<Rightarrow> u64 \<Rightarrow> ListNode res" where
  "node_at m a = (case m a of None \<Rightarrow> Inl Undefined_Behaviour | Some n \<Rightarrow> Inr n)"

definition set_next :: "node_memory \<Rightarrow> u64 \<Rightarrow> u64 option \<Rightarrow> node_memory res" where
  "set_next m a x = rbind (node_at m a) (\<lambda>n. Inr (m(a \<mapsto> n\<lparr>node_next := x\<rparr>)))"

definition set_prev :: "node_memory \<Rightarrow> u64 \<Rightarrow> u64 option \<Rightarrow> node_memory res" where
  "set_prev m a x = rbind (node_at m a) (\<lambda>n. Inr (m(a \<mapsto> n\<lparr>node_prev := x\<rparr>)))"

record IntrusiveLinkedList =
  list_head :: "u64 option"
  list_tail :: "u64 option"
  list_len :: u64

definition IntrusiveLinkedList_new :: IntrusiveLinkedList where
  "IntrusiveLinkedList_new = \<lparr>list_head = None, list_tail = None, list_len = 0\<rparr>"

definition IntrusiveLinkedList_push_front ::
    "node_memory \<Rightarrow> IntrusiveLinkedList \<Rightarrow> u64 \<Rightarrow> (node_memory \<times> IntrusiveLinkedList) res" where
  "IntrusiveLinkedList_push_front m self new =
     rbind (case list_head self of
         Some head \<Rightarrow>
           rbind (set_next m new (Some head)) (\<lambda>m1.
           rbind (set_prev m1 head (Some new)) (\<lambda>m2. Inr (m2, self\<lparr>list_head := Some new\<rparr>)))
       | None \<Rightarrow> Inr (m, self\<lparr>list_head := Some new, list_tail := Some new\<rparr>)) (\<lambda>(m', self').
     rbind (op_add (list_len self') 1) (\<lambda>n. Inr (m', self'\<lparr>list_len := n\<rparr>)))"

definition IntrusiveLinkedList_push_back ::
    "node_memory \<Rightarrow> IntrusiveLinkedList \<Rightarrow> u64 \<Rightarrow> (node_memory \<times> IntrusiveLinkedList) res" where
  "IntrusiveLinkedList_push_back m self new =
     rbind (case list_tail self of
         Some tail \<Rightarrow>
           rbind (set_next m tail (Some new)) (\<lambda>m1.
           rbind (set_prev m1 new (Some tail)) (\<lambda>m2. Inr (m2, self\<lparr>list_tail := Some new\<rparr>)))
       | None \<Rightarrow> Inr (m, self\<lparr>list_head := Some new, list_tail := Some new\<rparr>)) (\<lambda>(m', self').
     rbind (op_add (list_len self') 1) (\<lambda>n. Inr (m', self'\<lparr>list_len := n\<rparr>)))"

definition clear_next :: "node_memory \<Rightarrow> u64 option \<Rightarrow> node_memory res" where
  "clear_next m p = (case p of None \<Rightarrow> Inr m | Some a \<Rightarrow> set_next m a None)"

definition IntrusiveLinkedList_pop_front ::
    "node_memory \<Rightarrow> IntrusiveLinkedList \<Rightarrow> (u64 option \<times> node_memory \<times> IntrusiveLinkedList) res" where
  "IntrusiveLinkedList_pop_front m self =
     (case list_head self of
        None \<Rightarrow> Inr (None, m, self)
      | Some head \<Rightarrow>
          rbind (expect (list_tail self)) (\<lambda>tail.
          rbind (if head = tail then Inr (m, self\<lparr>list_head := None, list_tail := None\<rparr>)
                 else rbind (node_at m head) (\<lambda>n.
                      rbind (clear_next m (node_next n)) (\<lambda>m'.
                      Inr (m', self\<lparr>list_head := node_next n\<rparr>)))) (\<lambda>(m', self').
          rbind (op_sub (list_len self') 1) (\<lambda>n. Inr (Some head, m', self'\<lparr>list_len := n\<rparr>)))))"

definition IntrusiveLinkedList_pop_back ::
    "node_memory \<Rightarrow> IntrusiveLinkedList \<Rightarrow> (u64 option \<times> node_memory \<times> IntrusiveLinkedList) res" where
  "IntrusiveLinkedList_pop_back m self =
     (case list_tail self of
        None \<Rightarrow> Inr (None, m, self)
      | Some tail \<Rightarrow>
          rbind (expect (list_head self)) (\<lambda>head.
          rbind (if head = tail then Inr (m, self\<lparr>list_head := None, list_tail := None\<rparr>)
                 else rbind (node_at m tail) (\<lambda>n.
                      rbind (clear_next m (node_prev n)) (\<lambda>m'.
                      Inr (m', self\<lparr>list_tail := node_prev n\<rparr>)))) (\<lambda>(m', self').
          rbind (op_sub (list_len self') 1) (\<lambda>n. Inr (Some tail, m', self'\<lparr>list_len := n\<rparr>)))))"

definition IntrusiveLinkedList_is_empty :: "IntrusiveLinkedList \<Rightarrow> bool" where
  "IntrusiveLinkedList_is_empty self \<longleftrightarrow> list_head self = None"

section \<open>The list a structure represents\<close>

text \<open>
  Neighbours point to each other. What the links beyond both ends hold is left open: the
  operations do not keep it.
\<close>

fun linked :: "node_memory \<Rightarrow> u64 list \<Rightarrow> bool" where
  "linked m [] \<longleftrightarrow> True"
| "linked m [a] \<longleftrightarrow> a \<in> dom m"
| "linked m (a # b # xs) \<longleftrightarrow>
     (\<exists>n n'. m a = Some n \<and> m b = Some n' \<and> node_next n = Some b \<and> node_prev n' = Some a) \<and> linked m (b # xs)"

definition list_rep :: "node_memory \<Rightarrow> IntrusiveLinkedList \<Rightarrow> u64 list \<Rightarrow> bool" where
  "list_rep m l xs \<longleftrightarrow>
     linked m xs \<and> distinct xs \<and> unat (list_len l) = length xs \<and>
     list_head l = (if xs = [] then None else Some (hd xs)) \<and>
     list_tail l = (if xs = [] then None else Some (last xs))"

lemma linked_dom: "linked m xs \<Longrightarrow> a \<in> set xs \<Longrightarrow> a \<in> dom m"
  by (induction m xs rule: linked.induct) auto

lemma linked_upd: "linked m xs \<Longrightarrow> a \<notin> set xs \<Longrightarrow> linked (m(a \<mapsto> n)) xs"
  by (induction m xs rule: linked.induct) auto

text \<open>The outer link of an end node may change.\<close>

lemma linked_set_hd_prev:
  "linked m (a # xs) \<Longrightarrow> distinct (a # xs) \<Longrightarrow> m a = Some n \<Longrightarrow> linked (m(a \<mapsto> n\<lparr>node_prev := p\<rparr>)) (a # xs)"
  using linked_upd [of m xs a] by (cases xs) auto

lemma linked_append:
  "linked m (xs @ [a, b]) \<longleftrightarrow> linked m (xs @ [a]) \<and>
     (\<exists>n n'. m a = Some n \<and> m b = Some n' \<and> node_next n = Some b \<and> node_prev n' = Some a)"
proof (induction xs)
  case Nil
  show ?case by auto
next
  case (Cons c xs)
  then show ?case by (cases xs) auto
qed

lemma linked_set_last_next:
  assumes "linked m (xs @ [a])" "a \<notin> set xs" "m a = Some n"
  shows "linked (m(a \<mapsto> n\<lparr>node_next := p\<rparr>)) (xs @ [a])"
  using assms
proof (induction xs)
  case Nil
  then show ?case by auto
next
  case (Cons c xs)
  then show ?case by (cases xs) auto
qed

lemma linked_butlast: "linked m (xs @ [a]) \<Longrightarrow> linked m xs"
proof (induction xs)
  case (Cons c xs)
  then show ?case by (cases xs) auto
qed simp

section \<open>Properties\<close>

text \<open>
  C36. \<open>push_front\<close> and \<open>push_back\<close> of a node that is not in the list put it at the front and at the
  back: the structure then represents the list with the node added, and \<open>len\<close> is its length.
\<close>

theorem intrusive_push:
  assumes "list_rep m l xs" "a \<in> dom m" "a \<notin> set xs" "length xs + 1 < 2 ^ 64"
  shows "(\<exists>m' l'. IntrusiveLinkedList_push_front m l a = Inr (m', l') \<and> list_rep m' l' (a # xs)) \<and>
     (\<exists>m' l'. IntrusiveLinkedList_push_back m l a = Inr (m', l') \<and> list_rep m' l' (xs @ [a]))"
proof -
  note rep = assms(1) [unfolded list_rep_def]
  obtain na where na: "m a = Some na" using assms(2) by auto
  have len: "op_add (list_len l) 1 = Inr (list_len l + 1)" "unat (list_len l + 1) = length xs + 1"
    using rep assms(4) by (simp_all add: op_add_def unat_plus_nowrap)
  show ?thesis
  proof (cases xs)
    case Nil
    with rep len na show ?thesis
      by (auto simp: IntrusiveLinkedList_push_front_def IntrusiveLinkedList_push_back_def list_rep_def)
  next
    case (Cons b ys)
    then obtain nb where nb: "m b = Some nb" and ab: "a \<noteq> b" using linked_dom rep assms(3) by fastforce
    have "linked (m(a \<mapsto> na\<lparr>node_next := Some b\<rparr>)) xs" using linked_upd rep assms(3) by blast
    then have f: "linked (m(a \<mapsto> na\<lparr>node_next := Some b\<rparr>, b \<mapsto> nb\<lparr>node_prev := Some a\<rparr>)) (b # ys)"
      using linked_set_hd_prev [of _ b ys nb "Some a"] rep Cons nb ab by auto
    obtain zs c where c: "xs = zs @ [c]" using Cons by (metis list.distinct(1) rev_exhaust)
    then obtain nc where nc: "m c = Some nc" and ac: "a \<noteq> c" using linked_dom rep assms(3) by fastforce
    have "linked (m(c \<mapsto> nc\<lparr>node_next := Some a\<rparr>)) (zs @ [c])"
      using linked_set_last_next [of m zs c nc "Some a"] rep c nc by auto
    then have "linked (m(c \<mapsto> nc\<lparr>node_next := Some a\<rparr>, a \<mapsto> na\<lparr>node_prev := Some c\<rparr>)) (zs @ [c])"
      using linked_upd assms(3) c by metis
    then have bk: "linked (m(c \<mapsto> nc\<lparr>node_next := Some a\<rparr>, a \<mapsto> na\<lparr>node_prev := Some c\<rparr>)) (zs @ [c, a])"
      using ac by (simp add: linked_append)
    have "\<exists>m' l'. IntrusiveLinkedList_push_front m l a = Inr (m', l') \<and> list_rep m' l' (a # xs)"
      using f rep len na nb ab Cons assms(3)
      by (auto simp: IntrusiveLinkedList_push_front_def set_next_def set_prev_def node_at_def list_rep_def)
    moreover have "\<exists>m' l'. IntrusiveLinkedList_push_back m l a = Inr (m', l') \<and> list_rep m' l' (xs @ [a])"
      using bk rep len na nc ac c assms(3)
      by (auto simp: IntrusiveLinkedList_push_back_def set_next_def set_prev_def node_at_def list_rep_def hd_append)
    ultimately show ?thesis by blast
  qed
qed

theorem intrusive_push_witness:
  "\<exists>m' l'. IntrusiveLinkedList_push_back [8 \<mapsto> ListNode_new] IntrusiveLinkedList_new 8 = Inr (m', l') \<and>
     list_rep m' l' [8]"
proof -
  have "list_rep [8 \<mapsto> ListNode_new] IntrusiveLinkedList_new []"
    by (simp add: list_rep_def IntrusiveLinkedList_new_def)
  from intrusive_push [OF this, of 8] show ?thesis by simp
qed

text \<open>
  \<open>pop_back\<close> returns the last node and leaves the list without it; on an empty list it returns
  \<open>None\<close> and changes nothing.
\<close>

theorem intrusive_pop_back:
  assumes "list_rep m l xs"
  shows "\<exists>m' l'. IntrusiveLinkedList_pop_back m l =
       Inr (if xs = [] then None else Some (last xs), m', l') \<and> list_rep m' l' (butlast xs)"
proof (cases xs rule: rev_cases)
  case Nil
  with assms show ?thesis by (simp add: IntrusiveLinkedList_pop_back_def list_rep_def)
next
  case (snoc ys c)
  note rep = assms [unfolded list_rep_def snoc]
  have len: "op_sub (list_len l) 1 = Inr (list_len l - 1)" "unat (list_len l - 1) = length ys"
    using rep by (auto simp: op_sub_def word_le_nat_alt unat_sub)
  show ?thesis
  proof (cases ys rule: rev_cases)
    case Nil
    with rep len snoc show ?thesis by (simp add: IntrusiveLinkedList_pop_back_def list_rep_def)
  next
    case ys: (snoc zs b)
    have hd: "hd (zs @ [b, c]) \<noteq> c" using rep ys by (cases zs) auto
    from rep ys have "linked m (zs @ [b, c])" by simp
    then obtain nb nc where n: "m b = Some nb" "m c = Some nc" "node_prev nc = Some b" and lk: "linked m (zs @ [b])"
      by (auto simp: linked_append)
    have "linked (m(b \<mapsto> nb\<lparr>node_next := None\<rparr>)) (zs @ [b])"
      using linked_set_last_next [OF lk _ n(1)] rep ys by auto
    with rep len snoc ys n hd show ?thesis
      by (auto simp: IntrusiveLinkedList_pop_back_def list_rep_def node_at_def clear_next_def set_next_def
          butlast_append hd_append split: if_splits)
  qed
qed

theorem intrusive_pop_back_witness:
  "\<exists>m' l'. IntrusiveLinkedList_pop_back (\<lambda>_. None) IntrusiveLinkedList_new = Inr (None, m', l') \<and> list_rep m' l' []"
  using intrusive_pop_back [of "\<lambda>_. None" IntrusiveLinkedList_new "[]"]
  by (simp add: list_rep_def IntrusiveLinkedList_new_def)

text \<open>
  \<open>pop_front\<close> breaks the list: it clears the \<open>next\<close> pointer of the new head (its \<open>prev\<close> pointer is
  the one to clear). From a list of three nodes or more the first two calls return the first two
  nodes, the third one finds no head and returns \<open>None\<close>, although \<open>len\<close> still counts the others.
\<close>

theorem intrusive_pop_front_truncates:
  assumes "list_rep m l (a # b # c # xs)"
  shows "\<exists>m1 l1 m2 l2. IntrusiveLinkedList_pop_front m l = Inr (Some a, m1, l1) \<and>
     IntrusiveLinkedList_pop_front m1 l1 = Inr (Some b, m2, l2) \<and>
     IntrusiveLinkedList_pop_front m2 l2 = Inr (None, m2, l2) \<and> unat (list_len l2) = length (c # xs)"
proof -
  note rep = assms [unfolded list_rep_def]
  from rep obtain na nb where n: "m a = Some na" "m b = Some nb" "node_next na = Some b" by auto
  have last: "last (c # xs) \<noteq> a" "last (c # xs) \<noteq> b" using rep last_in_set [of "c # xs"] by auto
  have len: "op_sub (list_len l) 1 = Inr (list_len l - 1)" "unat (list_len l - 1) = length xs + 2"
    "op_sub (list_len l - 1) 1 = Inr (list_len l - 1 - 1)" "unat (list_len l - 1 - 1) = length xs + 1"
    using rep by (auto simp: op_sub_def word_le_nat_alt unat_sub)
  have "a \<noteq> b" using rep by auto
  with rep n last len show ?thesis
    by (auto simp: IntrusiveLinkedList_pop_front_def node_at_def clear_next_def set_next_def)
qed

theorem intrusive_pop_front_truncates_witness:
  "\<exists>m1 l1 m2 l2.
     IntrusiveLinkedList_pop_front
       [8 \<mapsto> \<lparr>node_next = Some 16, node_prev = None\<rparr>, 16 \<mapsto> \<lparr>node_next = Some 24, node_prev = Some 8\<rparr>,
        24 \<mapsto> \<lparr>node_next = None, node_prev = Some 16\<rparr>]
       \<lparr>list_head = Some 8, list_tail = Some 24, list_len = 3\<rparr> = Inr (Some 8, m1, l1) \<and>
     IntrusiveLinkedList_pop_front m1 l1 = Inr (Some 16, m2, l2) \<and>
     IntrusiveLinkedList_pop_front m2 l2 = Inr (None, m2, l2)"
  using intrusive_pop_front_truncates [of "[8 \<mapsto> \<lparr>node_next = Some 16, node_prev = None\<rparr>,
      16 \<mapsto> \<lparr>node_next = Some 24, node_prev = Some 8\<rparr>, 24 \<mapsto> \<lparr>node_next = None, node_prev = Some 16\<rparr>]"
      "\<lparr>list_head = Some 8, list_tail = Some 24, list_len = 3\<rparr>" 8 16 24 "[]"]
  by (auto simp: list_rep_def)

end
