(* ===== verification/Byte_Memory.thy ===== *)
theory Byte_Memory
  imports Byte_Fields Paging
begin

text \<open>
  Bytes in the memory of the page tables. \<open>table_memory\<close> holds the 8-byte words at the addresses
  that are multiples of 8; raw pointers read and write single bytes of them, in the byte order of the
  processor. The functions of \<open>core::ptr\<close> that stage 4 uses on raw pointers are modelled here; a null
  pointer is undefined behaviour.
\<close>

definition read_byte :: "table_memory \<Rightarrow> u64 \<Rightarrow> u8" where
  "read_byte m a = ucast (drop_bit (8 * unat (a AND mask 3)) (m (a AND NOT (mask 3))))"

definition write_byte :: "table_memory \<Rightarrow> u64 \<Rightarrow> u8 \<Rightarrow> table_memory" where
  "write_byte m a b =
     (let w = a AND NOT (mask 3); k = 8 * unat (a AND mask 3)
      in m(w := (m w AND NOT (push_bit k (mask 8))) OR push_bit k (ucast b)))"

fun write_bytes :: "table_memory \<Rightarrow> u64 \<Rightarrow> u8 list \<Rightarrow> table_memory" where
  "write_bytes m a [] = m"
| "write_bytes m a (b # bs) = write_bytes (write_byte m a b) (a + 1) bs"

definition ptr_read :: "table_memory \<Rightarrow> u64 \<Rightarrow> nat \<Rightarrow> u8 list res" where
  "ptr_read m a n = (if a = 0 then Inl Undefined_Behaviour else Inr (map (\<lambda>i. read_byte m (a + of_nat i)) [0 ..< n]))"

definition ptr_write :: "table_memory \<Rightarrow> u64 \<Rightarrow> u8 list \<Rightarrow> table_memory res" where
  "ptr_write m a bs = (if a = 0 then Inl Undefined_Behaviour else Inr (write_bytes m a bs))"

section \<open>One byte\<close>

lemma word_eq_split: "(a :: u64) = b \<longleftrightarrow> a AND NOT (mask k) = b AND NOT (mask k) \<and> a AND mask k = b AND mask k"
  by (metis and_mask_plus_and_not_mask)

lemma unat_and_mask_3: "unat (a AND mask 3 :: u64) < 8"
  by (simp add: unat_and_mask)

lemma read_write_byte: "read_byte (write_byte m a b) a' = (if a' = a then b else read_byte m a')"
proof (cases "a' AND NOT (mask 3) = a AND NOT (mask 3)")
  case False
  then show ?thesis by (auto simp: read_byte_def write_byte_def Let_def)
next
  case True
  let ?k = "unat (a AND mask 3)" and ?k' = "unat (a' AND mask 3)" and ?w = "m (a AND NOT (mask 3))"
  have lt: "?k < 8" "?k' < 8" by (rule unat_and_mask_3)+
  have eq: "a' = a \<longleftrightarrow> ?k' = ?k" unfolding word_eq_split [of a' a 3] using True by (simp add: word_unat_eq_iff)
  have "bit (read_byte (write_byte m a b) a') i = bit (if a' = a then b else read_byte m a') i" if "i < 8" for i
  proof -
    have "8 * ?k' + i < 64" using lt that by simp
    then have "bit (read_byte (write_byte m a b) a') i \<longleftrightarrow>
        (bit ?w (8 * ?k' + i) \<and> \<not> (8 * ?k \<le> 8 * ?k' + i \<and> 8 * ?k' + i - 8 * ?k < 8)) \<or>
        (8 * ?k \<le> 8 * ?k' + i \<and> bit b (8 * ?k' + i - 8 * ?k))"
      using that by (auto simp: read_byte_def write_byte_def True Let_def bit_simps add.commute)
    moreover have "8 * ?k \<le> 8 * ?k' + i \<and> 8 * ?k' + i - 8 * ?k < 8 \<longleftrightarrow> ?k' = ?k"
    proof
      assume *: "8 * ?k \<le> 8 * ?k' + i \<and> 8 * ?k' + i - 8 * ?k < 8"
      then have "8 * ?k < 8 * ?k' + 8" "8 * ?k' < 8 * ?k + 8" using that by linarith+
      then show "?k' = ?k" by simp
    qed (use that in simp)
    moreover have "8 * ?k \<le> 8 * ?k' + i \<and> bit b (8 * ?k' + i - 8 * ?k) \<Longrightarrow> 8 * ?k' + i - 8 * ?k < 8"
      by (auto dest: bit_imp_le_length)
    ultimately show ?thesis
      unfolding eq using that by (auto simp: read_byte_def True bit_simps add.commute)
  qed
  then show ?thesis by (intro bit_word_eqI) simp
qed

lemma and_not_mask_mask: "k \<le> n \<Longrightarrow> (a AND NOT (mask k)) AND NOT (mask n) = (a :: u64) AND NOT (mask n)"
  by (rule bit_word_eqI) (auto simp: bit_simps)

text \<open>Pages: the words and the bytes of a page.\<close>

lemma write_byte_other_page:
  "x AND NOT (mask 12) \<noteq> a AND NOT (mask 12) \<Longrightarrow> write_byte m a b x = m x"
  using and_not_mask_mask [of 3 12 a] by (auto simp: write_byte_def Let_def)

lemma read_byte_cong:
  "(\<And>x. x AND NOT (mask 12) = a AND NOT (mask 12) \<Longrightarrow> m' x = m x) \<Longrightarrow> read_byte m' a = read_byte m a"
  using and_not_mask_mask [of 3 12 a] by (simp add: read_byte_def)

section \<open>Runs of bytes\<close>

lemma add_of_nat_Suc: "(a :: u64) + 1 + of_nat i = a + of_nat (Suc i)"
  by simp

lemma read_write_bytes_outside:
  "(\<And>i. i < length bs \<Longrightarrow> a' \<noteq> a + of_nat i) \<Longrightarrow> read_byte (write_bytes m a bs) a' = read_byte m a'"
proof (induction bs arbitrary: m a)
  case (Cons b bs)
  have "a' \<noteq> a" using Cons.prems [of 0] by simp
  moreover have "a' \<noteq> a + 1 + of_nat i" if "i < length bs" for i
    using Cons.prems [of "Suc i"] that unfolding add_of_nat_Suc by simp
  ultimately show ?case using Cons.IH [of "a + 1"] by (simp add: read_write_byte)
qed simp

lemma of_nat_inj_u64: "i < 2 ^ 64 \<Longrightarrow> j < 2 ^ 64 \<Longrightarrow> (of_nat i :: u64) = of_nat j \<longleftrightarrow> i = j"
  by (simp add: word_unat_eq_iff unat_of_nat)

lemma read_write_bytes_inside:
  "i < length bs \<Longrightarrow> length bs \<le> 2 ^ 64 \<Longrightarrow> read_byte (write_bytes m a bs) (a + of_nat i) = bs ! i"
proof (induction bs arbitrary: m a i)
  case (Cons b bs)
  show ?case
  proof (cases i)
    case 0
    have "a + of_nat i \<noteq> a + 1 + of_nat j" if "j < length bs" for j
      unfolding add_of_nat_Suc using of_nat_inj_u64 [of i "Suc j"] Cons.prems that 0
      by (simp del: of_nat_Suc)
    with 0 show ?thesis by (simp add: read_write_bytes_outside read_write_byte)
  next
    case (Suc j)
    with Cons.prems Cons.IH [of j "write_byte m a b" "a + 1"] show ?thesis
      unfolding add_of_nat_Suc by simp
  qed
qed simp

lemma write_bytes_other_page:
  "(\<And>i. i < length bs \<Longrightarrow> x AND NOT (mask 12) \<noteq> (a + of_nat i) AND NOT (mask 12)) \<Longrightarrow> write_bytes m a bs x = m x"
proof (induction bs arbitrary: m a)
  case (Cons b bs)
  have "x AND NOT (mask 12) \<noteq> a AND NOT (mask 12)" using Cons.prems [of 0] by simp
  moreover have "x AND NOT (mask 12) \<noteq> (a + 1 + of_nat i) AND NOT (mask 12)" if "i < length bs" for i
    using Cons.prems [of "Suc i"] that unfolding add_of_nat_Suc by simp
  ultimately show ?case using Cons.IH [of "a + 1"] by (simp add: write_byte_other_page)
qed simp

lemma frame_address:
  assumes "page_aligned Size4KiB f" "i < 4096"
  shows "(f + of_nat i) AND NOT (mask 12) = f" "(f + of_nat i) AND mask 12 = of_nat i" "unat (f + of_nat i) = unat f + i"
proof -
  obtain k where k: "unat f = 4096 * k" using assms(1) by (auto simp: page_aligned_iff_dvd elim!: dvdE)
  have "4096 * k < 2 ^ 64" using unat_less_exp [of f] k by simp
  then have lt: "unat f + i < 2 ^ 64" using assms(2) k by simp
  have ui: "unat (of_nat i :: u64) = i" using assms(2) by (simp add: unat_of_nat)
  show u: "unat (f + of_nat i) = unat f + i" using lt ui by (simp add: unat_plus_nowrap)
  have md: "(unat f + i) mod 4096 = i" using k assms(2) by simp
  show "(f + of_nat i) AND NOT (mask 12) = f" using md by (simp add: word_unat_eq_iff unat_and_not_mask u)
  show "(f + of_nat i) AND mask 12 = of_nat i" using md by (simp add: word_unat_eq_iff unat_and_mask u ui)
qed

text \<open>Writing inside a frame.\<close>

lemma frame_write:
  assumes "page_aligned Size4KiB f" "d + length bs \<le> 4096"
  shows "x AND NOT (mask 12) \<noteq> f \<Longrightarrow> write_bytes m (f + of_nat d) bs x = m x"
    and "j < 4096 \<Longrightarrow> read_byte (write_bytes m (f + of_nat d) bs) (f + of_nat j) =
      (if d \<le> j \<and> j < d + length bs then bs ! (j - d) else read_byte m (f + of_nat j))"
proof -
  have e: "f + of_nat d + of_nat i = f + of_nat (d + i)" for i by simp
  show "x AND NOT (mask 12) \<noteq> f \<Longrightarrow> write_bytes m (f + of_nat d) bs x = m x"
    using frame_address(1) [OF assms(1)] assms(2) by (intro write_bytes_other_page) (simp add: e del: of_nat_add)
  show "read_byte (write_bytes m (f + of_nat d) bs) (f + of_nat j) =
      (if d \<le> j \<and> j < d + length bs then bs ! (j - d) else read_byte m (f + of_nat j))" if "j < 4096"
  proof (cases "d \<le> j \<and> j < d + length bs")
    case True
    then have "j - d < length bs" "d + (j - d) = j" by auto
    with True assms(2) read_write_bytes_inside [of "j - d" bs m "f + of_nat d"] show ?thesis by (simp add: e del: of_nat_add)
  next
    case False
    have "f + of_nat j \<noteq> f + of_nat d + of_nat i" if "i < length bs" for i
      unfolding e using of_nat_inj_u64 [of j "d + i"] \<open>j < 4096\<close> assms(2) that False by (auto simp del: of_nat_add)
    then show ?thesis using False by (auto simp: read_write_bytes_outside)
  qed
qed

end
