(* ===== verification/Elf_Loader.thy ===== *)
theory Elf_Loader
  imports Fresh_Pages Byte_Memory
begin

text \<open>
  The loader of the kernel (\<open>stage4/src/elf.rs\<close>). The crate \<open>elfloader\<close> parses the file and calls the
  methods of \<open>KernelLoader\<close> back; it is not part of the sources, so that its three functions in use are a
  record argument, and what they return of a program header or a relocation entry is a record of values.
  Physical memory is mapped one to one in stage 4, so that a pointer made of a frame address reads and
  writes that frame. The text printed on the way is left out, the overflow checks of its arguments are not.
\<close>

section \<open>What the parser hands over\<close>

record ProgramHeader =
  ph_offset :: u64
  ph_virtual_addr :: u64
  ph_file_size :: u64
  ph_mem_size :: u64
  ph_is_execute :: bool
  ph_is_write :: bool

datatype RelocationType = R_AMD64_RELATIVE | R_AMD64_other | R_x86

record RelocationEntry =
  re_type :: RelocationType
  re_offset :: u64
  re_addend :: "u64 option"

text \<open>The trait \<open>ElfLoader\<close>; every method of \<open>KernelLoader\<close> returns \<open>Ok(())\<close> or panics.\<close>

record 's ElfLoader =
  elf_allocate :: "ProgramHeader list \<Rightarrow> 's \<Rightarrow> 's res"
  elf_relocate :: "RelocationEntry \<Rightarrow> 's \<Rightarrow> 's res"
  elf_load :: "u64 \<Rightarrow> u8 list \<Rightarrow> 's \<Rightarrow> 's res"
  elf_tls :: "u64 \<Rightarrow> u64 \<Rightarrow> u64 \<Rightarrow> u64 \<Rightarrow> 's \<Rightarrow> 's res"

text \<open>\<open>ElfBinary\<close>: parsing, the entry point, and loading through an \<open>ElfLoader\<close> (\<open>False\<close> for \<open>Err\<close>).\<close>

record ('e, 's) elf_crate =
  ElfBinary_new :: "u8 list \<Rightarrow> 'e option"
  entry_point :: "'e \<Rightarrow> u64"
  ElfBinary_load :: "'e \<Rightarrow> 's ElfLoader \<Rightarrow> 's \<Rightarrow> (bool \<times> 's) res"

section \<open>Relocations\<close>

text \<open>
  The body of the loop over the pages of a relocation, on the bytes of the value; the state is the memory
  and \<open>bytes_written\<close>.
\<close>

definition relocation_turn ::
    "crates \<Rightarrow> frame_mapping \<Rightarrow> VirtualAddress \<Rightarrow> VirtualAddress \<Rightarrow> u8 list \<Rightarrow> Page \<Rightarrow> table_memory \<times> nat \<Rightarrow>
     (table_memory \<times> nat) res" where
  "relocation_turn C P page_table virtual_address value_bytes page = (\<lambda>(m, bytes_written).
     rbind (translate_4KiB C P page_table m page) (\<lambda>t.
     case t of
       Inl _ \<Rightarrow> Inl Unwrap_None
     | Inr (frame, _) \<Rightarrow>
         rbind (if virtual_address > page then VirtualAddress_distance virtual_address page else Inr 0) (\<lambda>offset.
         rbind (VirtualAddress_add virtual_address (of_nat (length value_bytes))) (\<lambda>value_end.
         rbind (Page_end Size4KiB page) (\<lambda>page_end.
         rbind (if value_end > page_end
                then rbind (VirtualAddress_distance page_end virtual_address) (\<lambda>n. Inr (unat n))
                else if bytes_written \<le> length value_bytes then Inr (length value_bytes - bytes_written)
                else Inl Arithmetic_Overflow) (\<lambda>bytes_to_write.
         rbind (op_add frame offset) (\<lambda>address.
         rbind (slice value_bytes bytes_written (bytes_written + bytes_to_write)) (\<lambda>write_slice.
         rbind (ptr_write m address write_slice) (\<lambda>m.
         Inr (m, bytes_written + bytes_to_write))))))))))"

definition handle_relative_relocation ::
    "crates \<Rightarrow> frame_mapping \<Rightarrow> VirtualAddress \<Rightarrow> u64 \<Rightarrow> RelocationEntry \<Rightarrow> table_memory \<Rightarrow> table_memory res" where
  "handle_relative_relocation C P page_table virtual_base entry m =
     rbind (expect (re_addend entry)) (\<lambda>addend.
     rbind (op_add virtual_base addend) (\<lambda>val.
     let value_bytes = to_le_bytes 8 val in
     rbind (op_add virtual_base (re_offset entry)) (\<lambda>virtual_address.
     rbind (Page_containing_address Size4KiB virtual_address) (\<lambda>start_page.
     rbind (VirtualAddress_add virtual_address (of_nat (length value_bytes))) (\<lambda>value_end.
     rbind (Page_containing_address Size4KiB value_end) (\<lambda>end_page.
     rbind (page_range_for Size4KiB (relocation_turn C P page_table virtual_address value_bytes) (start_page, end_page) (m, 0))
       (\<lambda>(m, _). Inr m)))))))"

definition relocate ::
    "crates \<Rightarrow> frame_mapping \<Rightarrow> VirtualAddress \<Rightarrow> u64 \<Rightarrow> RelocationEntry \<Rightarrow> table_memory \<times> 'a \<Rightarrow> (table_memory \<times> 'a) res" where
  "relocate C P page_table virtual_base entry = (\<lambda>(m, a).
     case re_type entry of
       R_AMD64_RELATIVE \<Rightarrow> rbind (handle_relative_relocation C P page_table virtual_base entry m) (\<lambda>m. Inr (m, a))
     | _ \<Rightarrow> Inl Explicit_Panic)"

section \<open>Segments\<close>

definition COPIED :: PageTableEntryFlags where "COPIED = push_bit 9 1"

definition make_mutable ::
    "crates \<Rightarrow> frame_mapping \<Rightarrow> 'a allocate \<Rightarrow> VirtualAddress \<Rightarrow> Page \<Rightarrow> table_memory \<times> 'a \<Rightarrow>
     (PhysicalFrame \<times> table_memory \<times> 'a) res" where
  "make_mutable C P allocate page_table page = (\<lambda>(m, a).
     rbind (translate_4KiB C P page_table m page) (\<lambda>t.
     case t of
       Inl _ \<Rightarrow> Inl Unwrap_None
     | Inr (frame, flags) \<Rightarrow>
         if flags_contains C flags COPIED then Inr (frame, m, a)
         else rbind (allocate a) (\<lambda>(fo, a).
              rbind (expect fo) (\<lambda>new_frame.
              let new_flags = flags_union C flags COPIED in
              rbind (ptr_read m frame (unat (SIZE Size4KiB))) (\<lambda>bytes.
              rbind (ptr_write m new_frame bytes) (\<lambda>m.
              rbind (unmap_4KiB C P page_table page m) (\<lambda>(u, m).
              case u of
                Inl _ \<Rightarrow> Inl Unwrap_None
              | Inr _ \<Rightarrow>
                  rbind (expect_mapped (map_to_4KiB C P allocate page_table new_frame page new_flags m a)) (\<lambda>(m, a).
                  Inr (new_frame, m, a)))))))))"

definition segment_flags :: "crates \<Rightarrow> ProgramHeader \<Rightarrow> PageTableEntryFlags" where
  "segment_flags C header =
     (let flags = PRESENT;
          flags = (if \<not> ph_is_execute header then flags_union C flags NO_EXECUTE else flags)
      in if ph_is_write header then flags_union C flags WRITABLE else flags)"

text \<open>The body of the loop over the frames of a segment.\<close>

definition map_segment_frame ::
    "crates \<Rightarrow> frame_mapping \<Rightarrow> 'a allocate \<Rightarrow> VirtualAddress \<Rightarrow> PhysicalFrame \<Rightarrow> Page \<Rightarrow> PageTableEntryFlags \<Rightarrow>
     PhysicalFrame \<Rightarrow> table_memory \<times> 'a \<Rightarrow> (table_memory \<times> 'a) res" where
  "map_segment_frame C P allocate page_table start_frame start_page flags frame = (\<lambda>(m, a).
     rbind (PhysicalFrame_distance Size4KiB frame start_frame) (\<lambda>frame_offset.
     rbind (Page_add Size4KiB start_page frame_offset) (\<lambda>page.
     expect_mapped (map_to_4KiB C P allocate page_table frame page flags m a))))"

text \<open>The body of the loop over the pages of the uninitialised data.\<close>

definition map_zeroed_page ::
    "crates \<Rightarrow> frame_mapping \<Rightarrow> 'a allocate \<Rightarrow> VirtualAddress \<Rightarrow> PageTableEntryFlags \<Rightarrow> Page \<Rightarrow>
     table_memory \<times> 'a \<Rightarrow> (table_memory \<times> 'a) res" where
  "map_zeroed_page C P allocate page_table flags page = (\<lambda>(m, a).
     rbind (allocate a) (\<lambda>(fo, a).
     rbind (expect fo) (\<lambda>frame.
     rbind (ptr_write m frame (replicate (unat (SIZE Size4KiB)) 0)) (\<lambda>m.
     expect_mapped (map_to_4KiB C P allocate page_table frame page flags m a)))))"

text \<open>Zero the rest of the last page with data, on a copy of its frame.\<close>

definition zero_tail ::
    "crates \<Rightarrow> frame_mapping \<Rightarrow> 'a allocate \<Rightarrow> VirtualAddress \<Rightarrow> VirtualAddress \<Rightarrow> u64 \<Rightarrow> u64 \<Rightarrow>
     table_memory \<times> 'a \<Rightarrow> (table_memory \<times> 'a) res" where
  "zero_tail C P allocate page_table virtual_start_address file_sz data_bytes_before_zero st =
     rbind (VirtualAddress_add virtual_start_address file_sz) (\<lambda>e.
     rbind (VirtualAddress_sub e 1) (\<lambda>last_byte.
     rbind (Page_containing_address Size4KiB last_byte) (\<lambda>last_page.
     rbind (make_mutable C P allocate page_table last_page st) (\<lambda>(last_frame, m, a).
     rbind (op_sub (SIZE Size4KiB) data_bytes_before_zero) (\<lambda>n.
     if last_frame = 0 then Inl Undefined_Behaviour
     else rbind (ptr_write m (last_frame + data_bytes_before_zero) (replicate (unat n) 0)) (\<lambda>m.
          Inr (m, a)))))))"

definition map_bss ::
    "crates \<Rightarrow> frame_mapping \<Rightarrow> 'a allocate \<Rightarrow> VirtualAddress \<Rightarrow> VirtualAddress \<Rightarrow> ProgramHeader \<Rightarrow> PageTableEntryFlags \<Rightarrow>
     table_memory \<times> 'a \<Rightarrow> (table_memory \<times> 'a) res" where
  "map_bss C P allocate page_table virtual_start_address header flags st =
     rbind (VirtualAddress_add virtual_start_address (ph_file_size header)) (\<lambda>zero_start.
     rbind (VirtualAddress_add virtual_start_address (ph_mem_size header)) (\<lambda>zero_end.
     rbind (op_sub (SIZE Size4KiB) 1) (\<lambda>page_mask.
     let data_bytes_before_zero = zero_start AND page_mask in
     rbind (if data_bytes_before_zero \<noteq> 0
            then zero_tail C P allocate page_table virtual_start_address (ph_file_size header) data_bytes_before_zero st
            else Inr st) (\<lambda>st.
     rbind (VirtualAddress_align_up zero_start (SIZE Size4KiB)) (\<lambda>aligned.
     rbind (Page_containing_address Size4KiB aligned) (\<lambda>start_page.
     rbind (VirtualAddress_sub zero_end 1) (\<lambda>last_byte.
     rbind (Page_containing_address Size4KiB last_byte) (\<lambda>end_page.
     page_range_for Size4KiB (map_zeroed_page C P allocate page_table flags) (start_page, end_page) st))))))))"

definition allocate_header ::
    "crates \<Rightarrow> frame_mapping \<Rightarrow> 'a allocate \<Rightarrow> VirtualAddress \<Rightarrow> u64 \<Rightarrow> u64 \<Rightarrow> ProgramHeader \<Rightarrow>
     table_memory \<times> 'a \<Rightarrow> (table_memory \<times> 'a) res" where
  "allocate_header C P allocate page_table virtual_base kernel_start header st =
     rbind (op_add (ph_virtual_addr header) virtual_base) (\<lambda>_.
     rbind (op_add kernel_start (ph_offset header)) (\<lambda>physical_start_address.
     rbind (PhysicalFrame_containing_address Size4KiB physical_start_address) (\<lambda>start_frame.
     rbind (PhysicalAddress_add physical_start_address (ph_file_size header)) (\<lambda>file_end.
     rbind (PhysicalAddress_sub file_end 1) (\<lambda>file_last.
     rbind (PhysicalFrame_containing_address Size4KiB file_last) (\<lambda>end_frame.
     rbind (op_add virtual_base (ph_virtual_addr header)) (\<lambda>virtual_start_address.
     rbind (Page_containing_address Size4KiB virtual_start_address) (\<lambda>start_page.
     let flags = segment_flags C header in
     rbind (frame_range_for Size4KiB (map_segment_frame C P allocate page_table start_frame start_page flags)
              (start_frame, end_frame) st) (\<lambda>st.
     if ph_mem_size header > ph_file_size header
     then map_bss C P allocate page_table virtual_start_address header flags st
     else Inr st)))))))))"

definition allocate_headers ::
    "crates \<Rightarrow> frame_mapping \<Rightarrow> 'a allocate \<Rightarrow> VirtualAddress \<Rightarrow> u64 \<Rightarrow> u64 \<Rightarrow> ProgramHeader list \<Rightarrow>
     table_memory \<times> 'a \<Rightarrow> (table_memory \<times> 'a) res" where
  "allocate_headers C P allocate page_table virtual_base kernel_start load_headers st =
     rfold (allocate_header C P allocate page_table virtual_base kernel_start) load_headers st"

section \<open>The loader\<close>

text \<open>The segments are mapped in place, so that there is nothing to copy in \<open>load\<close>; thread local data is only reported.\<close>

definition KernelLoader_load :: "u64 \<Rightarrow> u8 list \<Rightarrow> 's \<Rightarrow> 's res" where
  "KernelLoader_load base region st = Inr st"

definition KernelLoader_tls :: "u64 \<Rightarrow> u64 \<Rightarrow> u64 \<Rightarrow> u64 \<Rightarrow> 's \<Rightarrow> 's res" where
  "KernelLoader_tls tdata_start tdata_length total_size align st = rbind (op_add tdata_start total_size) (\<lambda>tls_end. Inr st)"

definition KernelLoader ::
    "crates \<Rightarrow> frame_mapping \<Rightarrow> 'a allocate \<Rightarrow> VirtualAddress \<Rightarrow> u64 \<Rightarrow> u64 \<Rightarrow> (table_memory \<times> 'a) ElfLoader" where
  "KernelLoader C P allocate page_table virtual_base kernel_start =
     \<lparr>elf_allocate = allocate_headers C P allocate page_table virtual_base kernel_start,
      elf_relocate = relocate C P page_table virtual_base,
      elf_load = KernelLoader_load,
      elf_tls = KernelLoader_tls\<rparr>"

definition load_kernel ::
    "('e, table_memory \<times> 'a) elf_crate \<Rightarrow> crates \<Rightarrow> frame_mapping \<Rightarrow> 'a allocate \<Rightarrow> VirtualAddress \<Rightarrow> u64 \<Rightarrow> u64 \<Rightarrow> u64 \<Rightarrow>
     table_memory \<times> 'a \<Rightarrow> (VirtualAddress \<times> table_memory \<times> 'a) res" where
  "load_kernel E C P allocate page_table virtual_base kernel_start kernel_size = (\<lambda>(m, a).
     rbind (ptr_read m kernel_start (unat kernel_size)) (\<lambda>kern.
     rbind (expect (ElfBinary_new E kern)) (\<lambda>kernel_elf.
     rbind (ElfBinary_load E kernel_elf (KernelLoader C P allocate page_table virtual_base kernel_start) (m, a)) (\<lambda>(ok, m, a).
     if \<not> ok then Inl Unwrap_None
     else rbind (op_add virtual_base (entry_point E kernel_elf)) (\<lambda>entry. Inr (entry, m, a))))))"

end
