(* ===== verification/Elf_Correct.thy ===== *)
theory Elf_Correct
  imports Elf_Loader
begin

text \<open>
  The kernel is loaded correctly: after \<open>allocate\<close> the processor finds every byte of every segment at
  its virtual address, the bytes of the file first and zeros behind them, with the rights of the segment,
  and a relative relocation puts its value at its place. The proofs hold for every mapper whose frames are
  mapped one to one, as in stage 4.
\<close>

section \<open>Data beside the tables\<close>

text \<open>
  What loading may do to memory: it takes frames from the allocator, it changes tables and the frames
  it takes, and it creates no huge page.
\<close>

definition keeps_at ::
    "frame_mapping \<Rightarrow> ('a \<Rightarrow> PhysicalFrame set) \<Rightarrow> VirtualAddress \<Rightarrow> table_memory \<Rightarrow> 'a \<Rightarrow> table_memory \<Rightarrow> 'a \<Rightarrow> bool" where
  "keeps_at P avail root m a m' a' \<longleftrightarrow>
     avail a' \<subseteq> avail a \<and> tables P root m \<subseteq> tables P root m' \<and>
     tables P root m' \<subseteq> tables P root m \<union> (avail a - avail a') \<and>
     (\<forall>q j. path_ok q \<and> j < 512 \<and> length q < 3 \<and> bit (entry_of P m' root q j) 7 \<longrightarrow> bit (entry_of P m root q j) 7) \<and>
     (\<forall>x. x AND NOT (mask 12) \<notin> tables P root m' \<union> avail a \<longrightarrow> m' x = m x)"

lemma keepsD:
  assumes "keeps_at P avail root m a m' a'"
  shows "avail a' \<subseteq> avail a" "tables P root m \<subseteq> tables P root m'"
    and "tables P root m' \<subseteq> tables P root m \<union> (avail a - avail a')"
    and "path_ok q \<Longrightarrow> j < 512 \<Longrightarrow> length q < 3 \<Longrightarrow> bit (entry_of P m' root q j) 7 \<Longrightarrow> bit (entry_of P m root q j) 7"
    and "x AND NOT (mask 12) \<notin> tables P root m' \<Longrightarrow> x AND NOT (mask 12) \<notin> avail a \<Longrightarrow> m' x = m x"
  using assms by (auto simp: keeps_at_def)

lemma keeps_refl: "avail a' \<subseteq> avail a \<Longrightarrow> keeps_at P avail root m a m a'"
  by (auto simp: keeps_at_def)

lemma keeps_trans [trans]:
  assumes "keeps_at P avail root m a m1 a1" "keeps_at P avail root m1 a1 m2 a2"
  shows "keeps_at P avail root m a m2 a2"
proof -
  note 1 = keepsD [OF assms(1)] and 2 = keepsD [OF assms(2)]
  have "m2 x = m x" if "x AND NOT (mask 12) \<notin> tables P root m2 \<union> avail a" for x
  proof -
    have "x AND NOT (mask 12) \<notin> tables P root m1" "x AND NOT (mask 12) \<notin> avail a1" using 2(2) 1(1) that by auto
    with 2(5) [of x] 1(5) [of x] that show ?thesis by simp
  qed
  moreover have "tables P root m2 \<subseteq> tables P root m \<union> (avail a - avail a2)" using 1(1,3) 2(1,3) by blast
  ultimately show ?thesis using 1(1,2,4) 2(1,2,4) unfolding keeps_at_def by blast
qed

text \<open>A frame with data: neither a table nor free.\<close>

definition solid_at ::
    "frame_mapping \<Rightarrow> ('a \<Rightarrow> PhysicalFrame set) \<Rightarrow> VirtualAddress \<Rightarrow> table_memory \<Rightarrow> 'a \<Rightarrow> PhysicalFrame \<Rightarrow> bool" where
  "solid_at P avail root m a f \<longleftrightarrow> frame_bits_ok f \<and> f \<noteq> 0 \<and> f \<notin> tables P root m \<union> avail a"

lemma frame_bits_page_aligned: "frame_bits_ok f \<Longrightarrow> page_aligned Size4KiB f"
  by (metis SHIFT.simps(1) frame_bits_ok_def frame_of_aligned page_aligned_containing)

lemma keeps_solid:
  assumes "keeps_at P avail root m a m' a'" "solid_at P avail root m a f"
  shows "solid_at P avail root m' a' f" "x AND NOT (mask 12) = f \<Longrightarrow> m' x = m x"
    and "i < 4096 \<Longrightarrow> read_byte m' (f + of_nat i) = read_byte m (f + of_nat i)"
proof -
  note k = keepsD [OF assms(1)]
  have f: "f \<notin> tables P root m'" "f \<notin> avail a" "frame_bits_ok f" using assms(2) k(3) by (auto simp: solid_at_def)
  show "solid_at P avail root m' a' f" using assms(2) f k(1) by (auto simp: solid_at_def)
  show x: "m' x = m x" if "x AND NOT (mask 12) = f" for x using k(5) [of x] f(1,2) that by simp
  show "i < 4096 \<Longrightarrow> read_byte m' (f + of_nat i) = read_byte m (f + of_nat i)"
    using frame_address(1) [OF frame_bits_page_aligned [OF f(3)]] x by (intro read_byte_cong) simp
qed

text \<open>
  A step of the loader on the pages with the indices \<open>S\<close>; every other page is mapped as before.
\<close>

definition step_at ::
    "frame_mapping \<Rightarrow> (PhysicalFrame \<Rightarrow> bool) \<Rightarrow> ('a \<Rightarrow> bool) \<Rightarrow> ('a \<Rightarrow> PhysicalFrame set) \<Rightarrow>
     (nat \<times> nat \<times> nat \<times> nat) set \<Rightarrow> VirtualAddress \<Rightarrow> table_memory \<Rightarrow> 'a \<Rightarrow> table_memory \<Rightarrow> 'a \<Rightarrow> bool" where
  "step_at P usable ainv avail S root m a m' a' \<longleftrightarrow>
     keeps_at P avail root m a m' a' \<and> mapper_ready P usable ainv avail root m' a' \<and> root_kept P (fst ` S) root m m' \<and>
     (\<forall>ix. indices_ok ix \<longrightarrow> ix \<notin> S \<longrightarrow> mmu_lookup P m' root ix = mmu_lookup P m root ix)"

text \<open>The bits of a frame and the flags of an entry are apart.\<close>

lemma frame_flags_split:
  assumes "frame_bits_ok f" "fl AND all_entry_flags = fl"
  shows "(f OR fl) AND all_entry_flags = fl"
proof -
  have "f AND all_entry_flags = 0"
    using assms(1) [unfolded frame_bits_ok_def frame_of_eq_and]
    by (rule subst [where P = "\<lambda>x. x AND all_entry_flags = 0"]) (simp add: all_entry_flags_def and.assoc)
  then show ?thesis using assms(2) by (simp add: bit.conj_disj_distrib2)
qed

lemma copied_bit: "fl AND COPIED = COPIED \<longleftrightarrow> bit fl 9"
proof -
  have "(fl :: u64) AND push_bit k 1 = push_bit k 1 \<longleftrightarrow> bit fl k" if "k < 64" for k
    using that by (auto simp: bit_eq_iff [where ?'a = "64 word"] bit_exp_iff bit_and_iff)
  from this [of 9] show ?thesis by (simp add: COPIED_def)
qed

locale identity_mapper =
  table_mapper P usable allocate inv avail C
  for P :: frame_mapping and usable :: "PhysicalFrame \<Rightarrow> bool"
    and allocate :: "'a allocate" and inv :: "'a \<Rightarrow> bool" and avail :: "'a \<Rightarrow> PhysicalFrame set" and C :: crates +
  assumes identity: "usable f \<Longrightarrow> P f = Inr f"
begin

abbreviation keeps where "keeps \<equiv> keeps_at P avail"
abbreviation solid where "solid \<equiv> solid_at P avail"
abbreviation step where "step \<equiv> step_at P usable inv avail"
abbreviation mmu where "mmu root m \<equiv> mmu_lookup P m root"

lemma grows_keeps:
  assumes "ready root m a" "grows 3 root m a m' a'"
  shows "keeps root m a m' a'"
proof -
  note g = growsD [OF assms(2)]
  have "\<exists>f \<in> avail a - avail a'. t = f" if "t \<in> tables P root m'" "t \<notin> tables P root m" for t
    using g(3) [OF that] identity readyD(3) [OF assms(1)] by fastforce
  then show ?thesis using g(1,2,4,5) unfolding keeps_at_def by blast
qed

lemma tables_page_aligned: "tables_ok P usable root m \<Longrightarrow> t \<in> tables P root m \<Longrightarrow> page_aligned Size4KiB t"
  unfolding tables_def using table_at_ok(2) by blast

text \<open>Writing data outside the tables.\<close>

lemma data_write_table_at:
  assumes ok: "tables_ok P usable root m" and same: "\<And>x. x AND NOT (mask 12) \<in> tables P root m \<Longrightarrow> m' x = m x"
  shows "path_ok p \<Longrightarrow> table_at P m' root p = table_at P m root p"
proof (induction p rule: rev_induct)
  case (snoc i p)
  then have p: "path_ok p" "i < 512" "table_at P m' root p = table_at P m root p" by auto
  show ?case
  proof (cases "table_at P m root p")
    case None
    then show ?thesis using p(3) by (simp add: table_at_snoc)
  next
    case (Some t)
    then have "t \<in> tables P root m" "page_aligned Size4KiB t" using p(1) table_at_ok(2) [OF ok p(1)] by (auto simp: tables_def)
    then have "m' (entry_at t i) = m (entry_at t i)" using same entry_at_page(1) p(2) by simp
    then show ?thesis using Some p(3) by (simp add: table_at_snoc)
  qed
qed simp

lemma data_write:
  assumes ok: "tables_ok P usable root m" and same: "\<And>x. x AND NOT (mask 12) \<in> tables P root m \<Longrightarrow> m' x = m x"
  shows "path_ok p \<Longrightarrow> i < 512 \<Longrightarrow> entry_of P m' root p i = entry_of P m root p i"
    and "tables P root m' = tables P root m" "tables_ok P usable root m'"
    and "indices_ok ix \<Longrightarrow> mmu root m' ix = mmu root m ix"
proof -
  have t: "table_at P m' root p = table_at P m root p" if "path_ok p" for p
    using data_write_table_at [OF ok, of m' p] same that by blast
  show e: "entry_of P m' root p i = entry_of P m root p i" if "path_ok p" "i < 512" for p i
  proof (cases "table_at P m root p")
    case None
    then show ?thesis using t [OF that(1)] by (simp add: entry_of_def)
  next
    case (Some s)
    then have "s \<in> tables P root m" "page_aligned Size4KiB s" using that(1) table_at_ok(2) [OF ok that(1)] by (auto simp: tables_def)
    then have "m' (entry_at s i) = m (entry_at s i)" using same entry_at_page(1) that(2) by simp
    then show ?thesis using Some t [OF that(1)] by (simp add: entry_of_def)
  qed
  show "tables P root m' = tables P root m" using t by (auto simp: tables_def)
  show "tables_ok P usable root m'" using ok t e unfolding tables_ok_def by (metis path_ok_snoc)
  show "mmu root m' ix = mmu root m ix" if "indices_ok ix"
  proof -
    obtain i4 i3 i2 i1 where ix: "ix = (i4, i3, i2, i1)" by (cases ix)
    with that have "i4 < 512" "i3 < 512" "i2 < 512" "i1 < 512" by (simp_all add: indices_ok_def)
    moreover from this have "path_ok []" "path_ok [i4]" "path_ok [i4, i3]" "path_ok [i4, i3, i2]" by (simp_all add: path_ok_def)
    ultimately show ?thesis using e by (simp add: mmu_lookup_def ix)
  qed
qed

lemma data_write_keeps:
  assumes r: "ready root m a" and f: "f \<in> avail a"
    and same: "\<And>x. x AND NOT (mask 12) \<noteq> f \<Longrightarrow> m' x = m x"
  shows "ready root m' a" "keeps root m a m' a" "indices_ok ix \<Longrightarrow> mmu root m' ix = mmu root m ix" "root_kept P I root m m'"
proof -
  have ft: "f \<notin> tables P root m" using readyD(3,4) [OF r f] identity by simp
  then have s: "m' x = m x" if "x AND NOT (mask 12) \<in> tables P root m" for x using same that by metis
  note d = data_write [OF readyD(1) [OF r], of m', OF s]
  show "ready root m' a" using r d(2,3) by (simp add: mapper_ready_def fresh_frames_def)
  show "keeps root m a m' a" unfolding keeps_at_def
  proof (intro conjI allI impI)
    show "m' x = m x" if "x AND NOT (mask 12) \<notin> tables P root m' \<union> avail a" for x
      using same [of x] f that by (metis UnI2)
  qed (use d(1,2) in auto)
  show "indices_ok ix \<Longrightarrow> mmu root m' ix = mmu root m ix" by (rule d(4))
  show "root_kept P I root m m'" by (rule root_keptI) (simp add: d(1) path_ok_def)
qed


lemma stepD:
  assumes "step S root m a m' a'"
  shows "keeps root m a m' a'" "ready root m' a'" "indices_ok ix \<Longrightarrow> ix \<notin> S \<Longrightarrow> mmu root m' ix = mmu root m ix"
    and "root_kept P (fst ` S) root m m'"
  using assms by (auto simp: step_at_def simp del: split_paired_All)

lemma step_refl: "ready root m a \<Longrightarrow> step S root m a m a"
  by (simp add: step_at_def keeps_refl root_kept_refl)

lemma step_trans:
  assumes "step S root m a m1 a1" "step T root m1 a1 m2 a2"
  shows "step (S \<union> T) root m a m2 a2"
proof -
  have "root_kept P (fst ` (S \<union> T)) root m m2" by (rule root_kept_trans [OF stepD(4) [OF assms(1)] stepD(4) [OF assms(2)]]) auto
  then show ?thesis
    using stepD(2) [OF assms(2)] stepD(3) [OF assms(1)] stepD(3) [OF assms(2)] keeps_trans [OF stepD(1) [OF assms(1)] stepD(1) [OF assms(2)]]
    by (simp add: step_at_def del: split_paired_All)
qed

lemma step_mono: "step S root m a m' a' \<Longrightarrow> S \<subseteq> T \<Longrightarrow> step T root m a m' a'"
  using root_kept_trans [OF root_kept_refl, of P "fst ` S" root m m' "{}" "fst ` T"]
  by (auto simp: step_at_def simp del: split_paired_All)

lemma no_huge_keeps:
  assumes "keeps root m a m' a'" "no_huge_above root m page"
  shows "no_huge_above root m' page"
proof -
  have "path_ok []" "path_ok [l4_index C page]" "path_ok [l4_index C page, l3_index C page]"
    using table_index_less [OF crates] by (simp_all add: path_ok_def)
  with keepsD(4) [OF assms(1)] assms(2) table_index_less [OF crates] show ?thesis
    unfolding no_huge_above_page_def by (metis length_Cons list.size(3) One_nat_def Suc_1 lessI less_Suc_eq numeral_3_eq_3)
qed

lemma step_lookup:
  assumes "step S root m a m' a'" "page_indices C page \<notin> S"
  shows "mmu root m' (page_indices C page) = mmu root m (page_indices C page)"
  using stepD(3) [OF assms(1) indices_ok_page assms(2)] .

lemma allocate_solid:
  assumes r: "ready root m a" and al: "allocate a = Inr (Some f, a1)"
    and same: "\<And>x. x AND NOT (mask 12) \<noteq> f \<Longrightarrow> m' x = m x"
  shows "step {} root m a m' a1" "solid root m' a1 f" "f \<in> avail a"
proof -
  note inv = readyD(2) [OF r]
  have f: "f \<in> avail a - avail a1" "avail a1 \<subseteq> avail a" "inv a1"
    using frame_avail [OF inv al] avail_step [OF inv al] inv_step [OF inv al] by auto
  have fa: "f \<in> avail a" using f(1) by blast
  then show "f \<in> avail a" .
  note d = data_write_keeps [OF r fa, of m', OF same]
  have k: "keeps root m a m' a1" using d(2) keeps_refl [of avail a1 a P root m'] f(2) by (blast intro: keeps_trans)
  have "ready root m' a1" using d(1) f(2,3) by (auto simp: mapper_ready_def fresh_frames_def)
  with k d(3,4) show "step {} root m a m' a1" by (simp add: step_at_def)
  have us: "usable f" using readyD(3) [OF r fa] .
  have "projr (P f) \<notin> tables P root m'" using readyD(4) [OF d(1) fa] .
  then show "solid root m' a1 f"
    using us identity [OF us] usable_bits [OF us] to_virtual [OF us] f(1) by (auto simp: solid_at_def)
qed

text \<open>Writing once more into a frame taken since \<open>m, a\<close>.\<close>

lemma step_write:
  assumes st: "step S root m a m1 a1" and f: "solid root m1 a1 f" "f \<in> avail a"
    and same: "\<And>x. x AND NOT (mask 12) \<noteq> f \<Longrightarrow> m2 x = m1 x"
  shows "step S root m a m2 a1" "solid root m2 a1 f" "indices_ok ix \<Longrightarrow> mmu root m2 ix = mmu root m1 ix"
proof -
  note k = stepD(1) [OF st] and r = stepD(2) [OF st]
  have "m2 x = m1 x" if "x AND NOT (mask 12) \<in> tables P root m1" for x using same [of x] f(1) that by (auto simp: solid_at_def)
  note d = data_write [OF readyD(1) [OF r], of m2, OF this]
  show mm: "indices_ok ix \<Longrightarrow> mmu root m2 ix = mmu root m1 ix" for ix by (rule d(4))
  have "keeps root m a m2 a1" unfolding keeps_at_def
  proof (intro conjI allI impI)
    show "m2 x = m x" if "x AND NOT (mask 12) \<notin> tables P root m2 \<union> avail a" for x
      using same [of x] keepsD(5) [OF k, of x] f(2) d(2) that by (metis UnCI)
    show "bit (entry_of P m root q j) 7" if "path_ok q \<and> j < 512 \<and> length q < 3 \<and> bit (entry_of P m2 root q j) 7" for q j
    proof -
      have "bit (entry_of P m1 root q j) 7" using d(1) [of q j] that by simp
      with keepsD(4) [OF k, of q j] that show ?thesis by simp
    qed
  qed (use keepsD(1-3) [OF k] d(2) in auto)
  moreover have "ready root m2 a1" using r d(2,3) by (simp add: mapper_ready_def fresh_frames_def)
  moreover have "root_kept P {} root m1 m2" by (rule root_keptI) (simp add: d(1) path_ok_def)
  then have "root_kept P (fst ` S) root m m2" using root_kept_trans [OF stepD(4) [OF st]] by simp
  ultimately show "step S root m a m2 a1" using stepD(3) [OF st] mm by (simp add: step_at_def del: split_paired_All)
  show "solid root m2 a1 f" using f(1) d(2) by (simp add: solid_at_def)
qed

section \<open>Mapping a page\<close>

lemma map_page_step:
  assumes r: "ready root m a" and s: "can_supply allocate (3 + n) a" and h: "no_huge_above root m page"
    and fl: "flag_bits_ok flags" "bit flags 0" and f: "frame_bits_ok f" and un: "mmu root m (page_indices C page) = None"
  shows "\<exists>m' a'. expect_mapped (map_to_4KiB C P allocate root f page flags m a) = Inr (m', a') \<and>
     step {page_indices C page} root m a m' a' \<and> can_supply allocate n a' \<and>
     mmu root m' (page_indices C page) = Some (Small f (f OR flags))"
proof -
  have "can_allocate allocate 3 a" using can_supply_le [OF s, of 3] by (intro can_supply_allocate) simp
  from map_to_4KiB_grows [OF r this h f fl(1)] obtain res m' a' where
    2: "map_to_4KiB C P allocate root f page flags m a = Inr (res, m', a')" "ready root m' a'" "grows 3 root m a m' a'"
      "root_kept P {l4_index C page} root m m'"
    and c: "case res of
        Inl FrameAllocationFailed \<Rightarrow> (\<forall>ix. indices_ok ix \<longrightarrow> mmu_lookup P m' root ix = mmu_lookup P m root ix)
      | Inl PageAlreadyMapped \<Rightarrow> mmu_lookup P m root (page_indices C page) \<noteq> None \<and>
          (\<forall>ix. indices_ok ix \<longrightarrow> mmu_lookup P m' root ix = mmu_lookup P m root ix)
      | Inr pg \<Rightarrow> pg = page \<and> mmu_lookup P m root (page_indices C page) = None \<and>
          (\<forall>ix. indices_ok ix \<longrightarrow> mmu_lookup P m' root ix =
             (if ix = page_indices C page
              then if bit flags 0 then Some (Small f (f OR flags)) else None
              else mmu_lookup P m root ix))" by blast
  note su = map_to_4KiB_supply [OF s 2(1)]
  from su c un obtain pg where pg: "res = Inr pg" by (cases res) (auto split: MappingError.splits)
  have mm: "mmu root m' ix = (if ix = page_indices C page then Some (Small f (f OR flags)) else mmu root m ix)"
    if "indices_ok ix" for ix using c that fl(2) by (simp add: pg del: split_paired_All)
  have "step {page_indices C page} root m a m' a'"
    using grows_keeps [OF r 2(3)] 2(2,4) mm by (simp add: step_at_def page_indices_def del: split_paired_All)
  with su 2(1) mm [OF indices_ok_page] pg show ?thesis by (simp add: expect_mapped_def)
qed

lemma map_zeroed_page_step:
  assumes r: "ready root m a" and s: "can_supply allocate (4 + n) a" and h: "no_huge_above root m page"
    and fl: "flag_bits_ok flags" "bit flags 0" and un: "mmu root m (page_indices C page) = None"
  shows "\<exists>f m' a'. map_zeroed_page C P allocate root flags page (m, a) = Inr (m', a') \<and>
     step {page_indices C page} root m a m' a' \<and> can_supply allocate n a' \<and>
     mmu root m' (page_indices C page) = Some (Small f (f OR flags)) \<and> solid root m' a' f \<and>
     (\<forall>i < 4096. read_byte m' (f + of_nat i) = 0)"
proof -
  have "can_supply allocate (Suc (3 + n)) a" using s by (simp only: numeral_eq_Suc add_Suc pred_numeral_simps BitM.simps)
  then obtain f a1 where a1: "allocate a = Inr (Some f, a1)" "can_supply allocate (3 + n) a1"
    by (simp only: can_supply.simps) blast
  define m1 where "m1 = write_bytes m f (replicate 4096 0)"
  have fb: "frame_bits_ok f" "f \<noteq> 0" using allocate_solid(2) [OF r a1(1), of m] by (auto simp: solid_at_def)
  note pa = frame_bits_page_aligned [OF fb(1)]
  note w = frame_write [OF pa, of 0 "replicate 4096 0" _ m, folded m1_def, simplified, folded m1_def]
  have w1: "m1 x = m x" if "x AND NOT (mask 12) \<noteq> f" for x using w(1) that by simp
  note 1 = allocate_solid [OF r a1(1), of m1, OF w1]
  have un1: "mmu root m1 (page_indices C page) = None" using step_lookup [OF 1(1), of page] un by simp
  from map_page_step [OF stepD(2) [OF 1(1)] a1(2) no_huge_keeps [OF stepD(1) [OF 1(1)] h] fl fb(1) un1]
  obtain m' a' where 2: "expect_mapped (map_to_4KiB C P allocate root f page flags m1 a1) = Inr (m', a')"
     "step {page_indices C page} root m1 a1 m' a'" "can_supply allocate n a'"
     "mmu root m' (page_indices C page) = Some (Small f (f OR flags))" by blast
  have "map_zeroed_page C P allocate root flags page (m, a) = Inr (m', a')"
    using a1(1) fb(2) 2(1) by (simp add: map_zeroed_page_def ptr_write_def m1_def)
  moreover have "\<forall>i < 4096. read_byte m' (f + of_nat i) = 0"
    using keeps_solid(3) [OF stepD(1) [OF 2(2)] 1(2)] w(2) by simp
  ultimately show ?thesis
    using step_trans [OF 1(1) 2(2)] 2(3,4) keeps_solid(1) [OF stepD(1) [OF 2(2)] 1(2)] by auto
qed


section \<open>Copying a page\<close>

lemma make_mutable_step:
  assumes r: "ready root m a" and s: "can_supply allocate (4 + n) a" and h: "no_huge_above root m page"
    and fl: "flag_bits_ok flags" "bit flags 0" "flags AND all_entry_flags = flags" "\<not> bit flags 9"
    and f: "mmu root m (page_indices C page) = Some (Small f (f OR flags))" "solid root m a f"
  shows "\<exists>g m' a'. make_mutable C P allocate root page (m, a) = Inr (g, m', a') \<and>
     step {page_indices C page} root m a m' a' \<and> can_supply allocate n a' \<and> g \<in> avail a \<and>
     mmu root m' (page_indices C page) = Some (Small g (g OR (flags OR COPIED))) \<and> solid root m' a' g \<and>
     (\<forall>i < 4096. read_byte m' (g + of_nat i) = read_byte m (f + of_nat i))"
proof -
  have fb: "frame_bits_ok f" "f \<noteq> 0" using f(2) by (auto simp: solid_at_def)
  have t: "translate_4KiB C P root m page = Inr (Inr (f, flags))"
    using translate_4KiB_spec [OF readyD(1) [OF r] h] f(1) frame_flags_split [OF fb(1) fl(3)] by simp
  have nc: "\<not> flags_contains C flags COPIED" using fl(4) crates by (simp add: crates_okD copied_bit)
  have "can_supply allocate (Suc (3 + n)) a" using s by (simp only: numeral_eq_Suc add_Suc pred_numeral_simps BitM.simps)
  then obtain g a1 where a1: "allocate a = Inr (Some g, a1)" "can_supply allocate (3 + n) a1"
    by (simp only: can_supply.simps) blast
  define bytes where "bytes = map (\<lambda>i. read_byte m (f + of_nat i)) [0 ..< 4096]"
  have lb: "length bytes = 4096" by (simp add: bytes_def)
  define m1 where "m1 = write_bytes m g bytes"
  have gb: "frame_bits_ok g" "g \<noteq> 0" using allocate_solid(2) [OF r a1(1), of m] by (auto simp: solid_at_def)
  note w = frame_write [OF frame_bits_page_aligned [OF gb(1)], of 0 bytes, unfolded lb, of _ m, simplified, folded m1_def]
  have w1: "m1 x = m x" if "x AND NOT (mask 12) \<noteq> g" for x using w(1) that by simp
  note 1 = allocate_solid [OF r a1(1), of m1, OF w1]
  have h1: "no_huge_above root m1 page" using no_huge_keeps [OF stepD(1) [OF 1(1)] h] .
  have mp: "mmu root m1 (page_indices C page) = Some (Small f (f OR flags))" using step_lookup [OF 1(1), of page] f(1) by simp
  note r1 = stepD(2) [OF 1(1)]
  from unmap_4KiB_grows [OF readyD(1) [OF r1] h1, of a1] mp obtain m2 where
    2: "unmap_4KiB C P root page m1 = Inr (Inr (0, page), m2)" "tables_ok P usable root m2" "grows 3 root m1 a1 m2 a1" "root_kept P {} root m1 m2"
    and mm2: "\<And>ix. indices_ok ix \<Longrightarrow> mmu root m2 ix = (if ix = page_indices C page then None else mmu root m1 ix)"
    by (auto simp del: split_paired_All)
  note k2 = grows_keeps [OF r1 2(3)]
  have "tables P root m2 \<subseteq> tables P root m1" using keepsD(3) [OF k2] by simp
  then have r2: "ready root m2 a1" using r1 2(2) by (auto simp: mapper_ready_def fresh_frames_def)
  have s2: "step {page_indices C page} root m1 a1 m2 a1"
    using k2 r2 mm2 root_kept_trans [OF root_kept_refl 2(4), of "{}"] by (simp add: step_at_def del: split_paired_All)
  have un: "mmu root m2 (page_indices C page) = None" using mm2 [OF indices_ok_page] by simp
  have fl': "flag_bits_ok (flags OR COPIED)" "bit (flags OR COPIED) 0"
    using fl by (simp_all add: flag_bits_ok_def frame_of_or COPIED_def frame_of_def bit_or_iff)
  from map_page_step [OF r2 a1(2) no_huge_keeps [OF k2 h1] fl' gb(1) un] obtain m3 a3 where
    3: "expect_mapped (map_to_4KiB C P allocate root g page (flags OR COPIED) m2 a1) = Inr (m3, a3)"
     "step {page_indices C page} root m2 a1 m3 a3" "can_supply allocate n a3"
     "mmu root m3 (page_indices C page) = Some (Small g (g OR (flags OR COPIED)))" by blast
  have "make_mutable C P allocate root page (m, a) = Inr (g, m3, a3)"
    using t nc a1(1) fb(2) gb(2) 2(1) 3(1) crates
    by (simp add: make_mutable_def ptr_read_def ptr_write_def m1_def bytes_def crates_okD)
  moreover have st: "step {page_indices C page} root m1 a1 m3 a3" using step_trans [OF s2 3(2)] by simp
  moreover have "read_byte m3 (g + of_nat i) = read_byte m (f + of_nat i)" if "i < 4096" for i
    using keeps_solid(3) [OF stepD(1) [OF st] 1(2) that] w(2) [OF that] that lb by (simp add: bytes_def)
  ultimately show ?thesis
    using step_trans [OF 1(1) st] 3(3,4) keeps_solid(1) [OF stepD(1) [OF st] 1(2)] 1(3) by auto
qed

text \<open>
  Zeroing the rest of the last page: the first \<open>d\<close> bytes stay, the others are 0.
\<close>

lemma zero_tail_step:
  assumes r: "ready root m a" and s: "can_supply allocate (4 + n) a"
    and h: "no_huge_above root m page"
    and fl: "flag_bits_ok flags" "bit flags 0" "flags AND all_entry_flags = flags" "\<not> bit flags 9"
    and f: "mmu root m (page_indices C page) = Some (Small f (f OR flags))" "solid root m a f"
    and v: "unat vs + unat fs < 2 ^ 64" "0 < unat vs + unat fs" "(vs + fs - 1) AND NOT (mask 12) = page"
    and d: "d = of_nat k" "0 < k" "k < 4096"
  shows "\<exists>g m' a'. zero_tail C P allocate root vs fs d (m, a) = Inr (m', a') \<and>
     step {page_indices C page} root m a m' a' \<and> can_supply allocate n a' \<and>
     mmu root m' (page_indices C page) = Some (Small g (g OR (flags OR COPIED))) \<and> solid root m' a' g \<and>
     (\<forall>i < 4096. read_byte m' (g + of_nat i) = (if i < k then read_byte m (f + of_nat i) else 0))"
proof -
  from make_mutable_step [OF r s h fl f] obtain g m1 a1 where
    1: "make_mutable C P allocate root page (m, a) = Inr (g, m1, a1)"
     "step {page_indices C page} root m a m1 a1" "can_supply allocate n a1" "g \<in> avail a"
     "mmu root m1 (page_indices C page) = Some (Small g (g OR (flags OR COPIED)))" "solid root m1 a1 g"
    and bys: "\<And>i. i < 4096 \<Longrightarrow> read_byte m1 (g + of_nat i) = read_byte m (f + of_nat i)" by blast
  have g: "frame_bits_ok g" "g \<noteq> 0" using 1(6) by (auto simp: solid_at_def)
  note pa = frame_bits_page_aligned [OF g(1)]
  define m2 where "m2 = write_bytes m1 (g + of_nat k) (replicate (4096 - k) 0)"
  have fits: "k + length (replicate (4096 - k) (0 :: u8)) \<le> 4096" using d(3) by simp
  note w = frame_write [OF pa fits, of _ m1, folded m2_def]
  have w1: "m2 x = m1 x" if "x AND NOT (mask 12) \<noteq> g" for x using w(1) that by simp
  note 2 = step_write [OF 1(2,6,4), of m2, OF w1]
  have uk: "unat d = k" using d(1,3) by (simp add: unat_of_nat)
  have "d \<le> 0x1000" using uk d(3) by (simp add: word_le_nat_alt)
  moreover have "unat (0x1000 - d) = 4096 - k" using \<open>d \<le> 0x1000\<close> uk by (simp add: unat_sub)
  moreover have "g + d \<noteq> 0" using frame_address(3) [OF pa d(3)] d(1,2) by (metis add_is_0 unat_0 not_gr0)
  moreover have "op_add vs fs = Inr (vs + fs)" using v(1) by (simp add: op_add_def)
  moreover have "1 \<le> vs + fs" using v(1,2) by (auto simp: word_le_nat_alt unat_plus_nowrap)
  ultimately have "zero_tail C P allocate root vs fs d (m, a) = Inr (m2, a1)"
    using 1(1) v(3) g(2) d(1)
    by (simp add: zero_tail_def VirtualAddress_add_def VirtualAddress_sub_def checked_sub_def op_sub_def ptr_write_def m2_def)
  moreover have "read_byte m2 (g + of_nat i) = (if i < k then read_byte m (f + of_nat i) else 0)" if "i < 4096" for i
    using w(2) [OF that] bys [OF that] that by auto
  ultimately show ?thesis using 2 1(3,5) indices_ok_page by auto
qed


section \<open>Loops over pages\<close>

lemma pages_loop:
  assumes r: "ready root m a" and s: "can_supply allocate (4 * k + n) a"
    and body: "\<And>i m1 a1 n'. i < k \<Longrightarrow> ready root m1 a1 \<Longrightarrow> keeps root m a m1 a1 \<Longrightarrow> can_supply allocate (4 + n') a1 \<Longrightarrow>
        mmu root m1 (page_indices C (pg i)) = None \<Longrightarrow>
        \<exists>m2 a2. body i (m1, a1) = Inr (m2, a2) \<and> step {page_indices C (pg i)} root m1 a1 m2 a2 \<and> can_supply allocate n' a2 \<and> R i m2 a2"
    and R: "\<And>i m1 a1 S m2 a2. R i m1 a1 \<Longrightarrow> step S root m1 a1 m2 a2 \<Longrightarrow> page_indices C (pg i) \<notin> S \<Longrightarrow> R i m2 a2"
    and un: "\<And>i. i < k \<Longrightarrow> mmu root m (page_indices C (pg i)) = None"
    and inj: "inj_on (\<lambda>i. page_indices C (pg i)) {..< k}"
  shows "\<exists>m' a'. rfold body [0 ..< k] (m, a) = Inr (m', a') \<and> step ((\<lambda>i. page_indices C (pg i)) ` {..< k}) root m a m' a' \<and>
     can_supply allocate n a' \<and> (\<forall>i < k. R i m' a')"
  using s body R un inj
proof (induction k arbitrary: n)
  case 0
  then show ?case using step_refl [OF r] by auto
next
  case (Suc k)
  have s: "can_supply allocate (4 * k + (4 + n)) a" using Suc.prems(1) by (simp add: algebra_simps)
  have inj: "inj_on (\<lambda>i. page_indices C (pg i)) {..< k}" using Suc.prems(5) by (simp add: lessThan_Suc)
  have "\<exists>m1 a1. rfold body [0 ..< k] (m, a) = Inr (m1, a1) \<and> step ((\<lambda>i. page_indices C (pg i)) ` {..< k}) root m a m1 a1 \<and>
      can_supply allocate (4 + n) a1 \<and> (\<forall>i < k. R i m1 a1)"
    by (rule Suc.IH [OF s _ Suc.prems(3) _ inj]) (use Suc.prems(2,4) in \<open>simp_all only: less_SucI\<close>)
  then obtain m1 a1 where 1: "rfold body [0 ..< k] (m, a) = Inr (m1, a1)"
     "step ((\<lambda>i. page_indices C (pg i)) ` {..< k}) root m a m1 a1" "can_supply allocate (4 + n) a1" "\<forall>i < k. R i m1 a1"
    by blast
  have new: "page_indices C (pg k) \<notin> (\<lambda>i. page_indices C (pg i)) ` {..< k}"
    using Suc.prems(5) by (simp add: lessThan_Suc)
  have "mmu root m1 (page_indices C (pg k)) = None" using step_lookup [OF 1(2) new] Suc.prems(4) by simp
  from Suc.prems(2) [OF lessI stepD(2) [OF 1(2)] stepD(1) [OF 1(2)] 1(3) this] obtain m2 a2 where
    2: "body k (m1, a1) = Inr (m2, a2)" "step {page_indices C (pg k)} root m1 a1 m2 a2" "can_supply allocate n a2" "R k m2 a2"
    by blast
  have "R i m2 a2" if "i < Suc k" for i
  proof (cases "i = k")
    case False
    then have "i < k" using that by simp
    moreover from this have "page_indices C (pg i) \<noteq> page_indices C (pg k)" using new by (metis imageI lessThan_iff)
    ultimately show ?thesis using Suc.prems(3) [of i m1 a1 "{page_indices C (pg k)}" m2 a2] 1(4) 2(2) by simp
  qed (use 2(4) in simp)
  moreover have "step ((\<lambda>i. page_indices C (pg i)) ` {..< Suc k}) root m a m2 a2"
    using step_trans [OF 1(2) 2(2)] by (simp add: lessThan_Suc)
  ultimately show ?case using 1(1) 2(1,3) by (simp add: rfold_append)
qed

end

text \<open>What a page shows: its rights, and a condition on its bytes.\<close>

definition page_shows ::
    "frame_mapping \<Rightarrow> ('a \<Rightarrow> PhysicalFrame set) \<Rightarrow> VirtualAddress \<Rightarrow> table_memory \<Rightarrow> 'a \<Rightarrow> nat \<times> nat \<times> nat \<times> nat \<Rightarrow>
     PageTableEntryFlags \<Rightarrow> (nat \<Rightarrow> u8 \<Rightarrow> bool) \<Rightarrow> bool" where
  "page_shows P avail root m a ix fl Q \<longleftrightarrow>
     (\<exists>f c. c \<in> {0, COPIED} \<and> mmu_lookup P m root ix = Some (Small f (f OR (fl OR c))) \<and> solid_at P avail root m a f \<and>
        (\<forall>i < 4096. Q i (read_byte m (f + of_nat i))))"

lemma page_shows_mono:
  "page_shows P avail root m a ix fl Q \<Longrightarrow> (\<And>i v. i < 4096 \<Longrightarrow> Q i v \<Longrightarrow> Q' i v) \<Longrightarrow> page_shows P avail root m a ix fl Q'"
  unfolding page_shows_def by blast

lemma rfold_map: "rfold body (map f xs) st = rfold (\<lambda>x. body (f x)) xs st"
  by (induction xs arbitrary: st) (auto intro!: rbind_cong)

context identity_mapper
begin

abbreviation shows_page where "shows_page \<equiv> page_shows P avail"

lemma shows_page_step:
  assumes "shows_page root m a ix fl Q" "step S root m a m' a'" "ix \<notin> S" "indices_ok ix"
  shows "shows_page root m' a' ix fl Q"
proof -
  from assms(1) obtain f c where f: "c \<in> {0, COPIED}" "mmu root m ix = Some (Small f (f OR (fl OR c)))" "solid root m a f"
      "\<And>i. i < 4096 \<Longrightarrow> Q i (read_byte m (f + of_nat i))" by (auto simp: page_shows_def)
  note k = keeps_solid [OF stepD(1) [OF assms(2)] f(3)]
  have "mmu root m' ix = Some (Small f (f OR (fl OR c)))" using stepD(3) [OF assms(2,4,3)] f(2) by simp
  then show ?thesis unfolding page_shows_def using f(1,4) k(1,3) by fastforce
qed

end


section \<open>The pages of a segment\<close>

text \<open>The number of pages that \<open>n\<close> bytes from offset \<open>off\<close> of a page on touch.\<close>

definition pages_of :: "nat \<Rightarrow> nat \<Rightarrow> nat" where
  "pages_of off n = (off + n + 4095) div 4096"

lemma pages_of_pos: "0 < off + n \<Longrightarrow> pages_of off n = (off + n - 1) div 4096 + 1"
proof -
  assume "0 < off + n"
  then have "off + n + 4095 = (off + n - 1) + 4096" by simp
  then show ?thesis by (simp add: pages_of_def)
qed

lemma pages_of_0: "pages_of 0 0 = 0"
  by (simp add: pages_of_def)

text \<open>The items of a loop from the page of the first byte to the page of the last one.\<close>

lemma segment_items:
  assumes "unat a + n < 2 ^ 64" "0 < unat a + n" "unat e + 1 = unat a + n" "off = unat a mod 4096"
  shows "range_items Size4KiB (a AND NOT (mask 12)) (e AND NOT (mask 12)) =
    map (\<lambda>i. (a AND NOT (mask 12)) + of_nat i * SIZE Size4KiB) [0 ..< pages_of off n]"
proof -
  let ?A = "unat a div 4096"
  have a: "unat (a AND NOT (mask 12)) = 4096 * ?A" "unat a = 4096 * ?A + off"
    using assms(4) by (simp_all add: unat_and_not_mask minus_mod_eq_mult_div)
  have e: "unat (e AND NOT (mask 12)) = 4096 * (unat e div 4096)" by (simp add: unat_and_not_mask minus_mod_eq_mult_div)
  have off: "off < 4096" using assms(4) by simp
  have "(if a AND NOT (mask 12) \<le> e AND NOT (mask 12)
         then (unat (e AND NOT (mask 12)) - unat (a AND NOT (mask 12))) div unat (SIZE Size4KiB) + 1 else 0) = pages_of off n"
  proof (cases "off + n = 0")
    case True
    then have "unat e + 1 = 4096 * ?A" using assms(3) a(2) by simp
    then have "unat e div 4096 < ?A" by (simp add: less_mult_imp_div_less mult.commute)
    then show ?thesis using True a(1) e pages_of_0 by (simp add: word_le_nat_alt)
  next
    case False
    then have "unat e = 4096 * ?A + (off + n - 1)" using assms(3) a(2) by linarith
    then have "unat e div 4096 = ?A + (off + n - 1) div 4096" by simp
    then show ?thesis using False a(1) e pages_of_pos [of off n] by (simp add: word_le_nat_alt)
  qed
  then show ?thesis by (simp only: range_items_def)
qed

lemma page_number:
  assumes "unat (a AND NOT (mask 12)) + 4096 * k < 2 ^ 64" "i \<le> k"
  shows "unat ((a AND NOT (mask 12)) + of_nat i * SIZE Size4KiB) = unat (a AND NOT (mask 12)) + 4096 * i"
    and "((a :: u64) AND NOT (mask 12)) + of_nat i * SIZE Size4KiB = (a AND NOT (mask 12)) + of_nat (4096 * i)"
    and "page_aligned Size4KiB ((a AND NOT (mask 12)) + of_nat i * SIZE Size4KiB)"
proof -
  have "unat (a AND NOT (mask 12)) + 4096 * i < 2 ^ 64" using assms by simp
  then show u: "unat ((a AND NOT (mask 12)) + of_nat i * SIZE Size4KiB) = unat (a AND NOT (mask 12)) + 4096 * i"
    by (simp add: unat_word_ariths unsigned_of_nat take_bit_eq_mod mod_simps mult.commute)
  show "((a :: u64) AND NOT (mask 12)) + of_nat i * SIZE Size4KiB = (a AND NOT (mask 12)) + of_nat (4096 * i)"
    by (simp add: mult.commute)
  have "page_aligned Size4KiB (a AND NOT (mask 12))" using page_aligned_containing [of Size4KiB a] by simp
  then show "page_aligned Size4KiB ((a AND NOT (mask 12)) + of_nat i * SIZE Size4KiB)"
    unfolding page_aligned_iff_dvd u by simp
qed


definition seg_page :: "u64 \<Rightarrow> ProgramHeader \<Rightarrow> nat \<Rightarrow> Page" where
  "seg_page vbase h i = ((vbase + ph_virtual_addr h) AND NOT (mask 12)) + of_nat i * SIZE Size4KiB"

definition seg_frame :: "u64 \<Rightarrow> ProgramHeader \<Rightarrow> nat \<Rightarrow> PhysicalFrame" where
  "seg_frame kstart h i = ((kstart + ph_offset h) AND NOT (mask 12)) + of_nat i * SIZE Size4KiB"

definition seg_off :: "u64 \<Rightarrow> ProgramHeader \<Rightarrow> nat" where
  "seg_off vbase h = unat (vbase + ph_virtual_addr h) mod 4096"

definition seg_len :: "ProgramHeader \<Rightarrow> nat" where
  "seg_len h = max (unat (ph_file_size h)) (unat (ph_mem_size h))"

text \<open>
  A header the loader can deal with: its addresses fit, and its place in the file and its virtual address
  agree in the offset into a page.
\<close>

definition header_ok :: "u64 \<Rightarrow> u64 \<Rightarrow> ProgramHeader \<Rightarrow> bool" where
  "header_ok vbase kstart h \<longleftrightarrow>
     unat vbase + unat (ph_virtual_addr h) + seg_len h + 8192 < 2 ^ 64 \<and>
     unat kstart + unat (ph_offset h) + unat (ph_file_size h) < 2 ^ 48 \<and> 4096 \<le> unat kstart \<and>
     (unat kstart + unat (ph_offset h)) mod 4096 = (unat vbase + unat (ph_virtual_addr h)) mod 4096"

lemma header_okD:
  assumes "header_ok vbase kstart h"
  shows "unat (vbase + ph_virtual_addr h) = unat vbase + unat (ph_virtual_addr h)"
    and "unat (kstart + ph_offset h) = unat kstart + unat (ph_offset h)"
    and "op_add (ph_virtual_addr h) vbase = Inr (vbase + ph_virtual_addr h)"
    and "op_add vbase (ph_virtual_addr h) = Inr (vbase + ph_virtual_addr h)"
    and "op_add kstart (ph_offset h) = Inr (kstart + ph_offset h)"
    and "unat (kstart + ph_offset h) mod 4096 = seg_off vbase h"
    and "0 < unat (kstart + ph_offset h)" "unat (kstart + ph_offset h) + unat (ph_file_size h) < 2 ^ 48"
    and "unat (vbase + ph_virtual_addr h) + seg_len h + 8192 < 2 ^ 64"
proof -
  have v: "unat vbase + unat (ph_virtual_addr h) < 2 ^ 64" and k: "unat kstart + unat (ph_offset h) < 2 ^ 64"
    and o1: "(unat kstart + unat (ph_offset h)) mod 4096 = (unat vbase + unat (ph_virtual_addr h)) mod 4096"
    and k0: "4096 \<le> unat kstart" and p: "unat kstart + unat (ph_offset h) + unat (ph_file_size h) < 2 ^ 48"
    and l: "unat vbase + unat (ph_virtual_addr h) + seg_len h + 8192 < 2 ^ 64"
    using assms by (auto simp: header_ok_def)
  show uv: "unat (vbase + ph_virtual_addr h) = unat vbase + unat (ph_virtual_addr h)"
    and uk: "unat (kstart + ph_offset h) = unat kstart + unat (ph_offset h)"
    using v k by (simp_all add: unat_plus_nowrap)
  show "op_add (ph_virtual_addr h) vbase = Inr (vbase + ph_virtual_addr h)"
    "op_add vbase (ph_virtual_addr h) = Inr (vbase + ph_virtual_addr h)"
    "op_add kstart (ph_offset h) = Inr (kstart + ph_offset h)"
    unfolding op_add_eq_Inr using uv uk by (simp_all only: add.commute simp_thms)
  show "unat (kstart + ph_offset h) mod 4096 = seg_off vbase h" using o1 uv uk by (simp add: seg_off_def)
  show "0 < unat (kstart + ph_offset h)" using k0 uk by simp
  show "unat (kstart + ph_offset h) + unat (ph_file_size h) < 2 ^ 48" using p uk by simp
  show "unat (vbase + ph_virtual_addr h) + seg_len h + 8192 < 2 ^ 64" using l uv by simp
qed

lemma segment_flags_ok:
  assumes "crates_ok C"
  shows "flag_bits_ok (segment_flags C h)" "bit (segment_flags C h) 0"
    and "segment_flags C h AND all_entry_flags = segment_flags C h" "\<not> bit (segment_flags C h) 9"
  using assms by (auto simp: segment_flags_def Let_def crates_okD PRESENT_def NO_EXECUTE_def WRITABLE_def
      flag_bits_ok_def frame_of_def all_entry_flags_def bit_or_iff)

context identity_mapper
begin

lemma map_segment_frames_step:
  assumes r: "ready root m a" and h: "header_ok vbase kstart h"
  defines "k \<equiv> pages_of (seg_off vbase h) (unat (ph_file_size h))"
  assumes s: "can_supply allocate (4 * k + n) a"
    and nh: "\<And>i. i < k \<Longrightarrow> no_huge_above root m (seg_page vbase h i)"
    and un: "\<And>i. i < k \<Longrightarrow> mmu root m (page_indices C (seg_page vbase h i)) = None"
    and inj: "inj_on (\<lambda>i. page_indices C (seg_page vbase h i)) {..< k}"
    and e: "unat e + 1 = unat (kstart + ph_offset h) + unat (ph_file_size h)"
    and fb: "\<And>i. i < k \<Longrightarrow> frame_bits_ok (seg_frame kstart h i)"
  shows "\<exists>m' a'. frame_range_for Size4KiB (map_segment_frame C P allocate root (seg_frame kstart h 0) (seg_page vbase h 0) (segment_flags C h))
        (seg_frame kstart h 0, e AND NOT (mask 12)) (m, a) = Inr (m', a') \<and>
     step ((\<lambda>i. page_indices C (seg_page vbase h i)) ` {..< k}) root m a m' a' \<and> can_supply allocate n a' \<and>
     (\<forall>i < k. mmu root m' (page_indices C (seg_page vbase h i)) = Some (Small (seg_frame kstart h i) (seg_frame kstart h i OR segment_flags C h)))"
proof -
  note g = header_okD [OF h]
  let ?ps = "kstart + ph_offset h" and ?vs = "vbase + ph_virtual_addr h"
  have it: "range_items Size4KiB (seg_frame kstart h 0) (e AND NOT (mask 12)) = map (seg_frame kstart h) [0 ..< k]"
    using segment_items [of ?ps "unat (ph_file_size h)" e "seg_off vbase h"] g(6-8) e
    by (simp add: seg_frame_def [abs_def] k_def)
  have kb: "4096 * k \<le> seg_off vbase h + unat (ph_file_size h) + 4095"
    unfolding k_def pages_of_def by simp
  have so: "seg_off vbase h \<le> unat ?ps" "seg_off vbase h \<le> unat ?vs" using g(6) by (metis mod_less_eq_dividend, simp add: seg_off_def)
  have "unat (?ps AND NOT (mask 12)) = unat ?ps - seg_off vbase h" "unat (?vs AND NOT (mask 12)) = unat ?vs - seg_off vbase h"
    using g(6) by (simp_all add: unat_and_not_mask seg_off_def)
  then have fit: "unat (?ps AND NOT (mask 12)) + 4096 * k < 2 ^ 64" "unat (?vs AND NOT (mask 12)) + 4096 * k < 2 ^ 64"
    using kb so g(8,9) by (simp_all add: seg_len_def)
  note pn = page_number [OF fit(1)] and vn = page_number [OF fit(2)]
  have sk: "k < 2 ^ 52" using fit(1) by simp
  have e48: "unat (e AND NOT (mask 12)) + unat (SIZE Size4KiB) < 2 ^ 64"
    using e g(8) by (simp add: unat_and_not_mask)
  have body: "map_segment_frame C P allocate root (seg_frame kstart h 0) (seg_page vbase h 0) (segment_flags C h) (seg_frame kstart h i) (m1, a1) =
      expect_mapped (map_to_4KiB C P allocate root (seg_frame kstart h i) (seg_page vbase h i) (segment_flags C h) m1 a1)"
    if "i < k" for i m1 a1
  proof -
    have i: "i \<le> k" using that by simp
    have ui: "unat (of_nat i :: u64) = i" using that sk by (simp add: unat_of_nat)
    have "seg_frame kstart h 0 \<le> seg_frame kstart h i" using pn(1) [OF i] by (simp add: seg_frame_def word_le_nat_alt)
    moreover have "(seg_frame kstart h i - seg_frame kstart h 0) div SIZE Size4KiB = of_nat i"
      using pn(1) [OF i] sk that by (simp add: seg_frame_def word_unat_eq_iff unat_div_distrib unat_word_ariths ui)
    moreover have "op_mul (of_nat i) (SIZE Size4KiB) = Inr (of_nat i * SIZE Size4KiB)" using ui that sk by (simp add: op_mul_def)
    moreover have "op_add (seg_page vbase h 0) (of_nat i * SIZE Size4KiB) = Inr (seg_page vbase h i)"
      using vn(1) [OF i] ui that sk by (simp add: op_add_eq_Inr seg_page_def unat_word_ariths)
    moreover have "seg_page vbase h i AND NOT (mask 12) = seg_page vbase h i"
      using containing_aligned [OF vn(3) [OF i]] by (simp add: seg_page_def)
    ultimately show ?thesis
      by (simp add: map_segment_frame_def PhysicalFrame_distance_def op_sub_def op_div_def Page_add_def VirtualAddress_add_def del: SIZE.simps)
         simp
  qed
  let ?body = "\<lambda>i. map_segment_frame C P allocate root (seg_frame kstart h 0) (seg_page vbase h 0) (segment_flags C h) (seg_frame kstart h i)"
  let ?R = "\<lambda>i m1 (a1 :: 'a). mmu root m1 (page_indices C (seg_page vbase h i)) = Some (Small (seg_frame kstart h i) (seg_frame kstart h i OR segment_flags C h))"
  have "\<exists>m' a'. rfold ?body [0 ..< k] (m, a) = Inr (m', a') \<and>
     step ((\<lambda>i. page_indices C (seg_page vbase h i)) ` {..< k}) root m a m' a' \<and> can_supply allocate n a' \<and> (\<forall>i < k. ?R i m' a')"
  proof (rule pages_loop [OF r s _ _ un inj])
    fix i m1 a1 n'
    assume i: "i < k" "ready root m1 a1" "keeps root m a m1 a1" "can_supply allocate (4 + n') a1"
      "mmu root m1 (page_indices C (seg_page vbase h i)) = None"
    have "can_supply allocate (3 + n') a1" using can_supply_le [OF i(4), of "3 + n'"] by simp
    from map_page_step [OF i(2) this no_huge_keeps [OF i(3) nh [OF i(1)]] segment_flags_ok(1,2) [OF crates] fb [OF i(1)] i(5), of h]
    show "\<exists>m2 a2. ?body i (m1, a1) = Inr (m2, a2) \<and> step {page_indices C (seg_page vbase h i)} root m1 a1 m2 a2 \<and>
        can_supply allocate n' a2 \<and> ?R i m2 a2"
      unfolding body [OF i(1)] by blast
  qed (use step_lookup in \<open>simp_all\<close>)
  then show ?thesis
    unfolding frame_range_for_items [OF e48] it rfold_map .
qed

end

text \<open>The bytes of a segment: those of the file, then zeros.\<close>

definition seg_byte :: "table_memory \<Rightarrow> u64 \<Rightarrow> ProgramHeader \<Rightarrow> nat \<Rightarrow> u8" where
  "seg_byte m kstart h j = (if j < unat (ph_file_size h) then read_byte m (kstart + ph_offset h + of_nat j) else 0)"

definition seg_content :: "table_memory \<Rightarrow> u64 \<Rightarrow> u64 \<Rightarrow> ProgramHeader \<Rightarrow> nat \<Rightarrow> nat \<Rightarrow> u8 \<Rightarrow> bool" where
  "seg_content m vbase kstart h i b v \<longleftrightarrow> (\<forall>j < seg_len h. seg_off vbase h + j = 4096 * i + b \<longrightarrow> v = seg_byte m kstart h j)"

lemma base_plus_offset: "(a AND NOT (mask 12)) + of_nat (unat a mod 4096) = (a :: u64)"
proof -
  have "of_nat (unat a mod 4096) = a AND mask 12" by (simp add: word_unat_eq_iff unat_and_mask unat_of_nat)
  then show ?thesis by (simp add: and_mask_plus_and_not_mask)
qed

lemma seg_frame_byte:
  assumes "header_ok vbase kstart h" "seg_off vbase h + j = 4096 * i + b"
  shows "seg_frame kstart h i + of_nat b = kstart + ph_offset h + of_nat j"
proof -
  let ?p = "kstart + ph_offset h"
  have "seg_frame kstart h i + of_nat b = (?p AND NOT (mask 12)) + of_nat (4096 * i + b)"
    by (simp add: seg_frame_def mult.commute)
  also have "\<dots> = (?p AND NOT (mask 12)) + of_nat (unat ?p mod 4096) + of_nat j"
    unfolding header_okD(6) [OF assms(1)] assms(2) [symmetric] by simp
  also have "\<dots> = ?p + of_nat j" by (simp only: base_plus_offset)
  finally show ?thesis .
qed

text \<open>The file part ends in page \<open>k - 1\<close>, and only this page has bytes of both parts.\<close>

lemma pages_of_split:
  assumes "off + n = 4096 * q + r" "r < 4096"
  shows "pages_of off n = (if r = 0 then q else q + 1)"
proof -
  have "pages_of off n = q + (r + 4095) div 4096" unfolding pages_of_def assms(1) by (simp add: add.assoc)
  moreover have "(r + 4095) div 4096 = (if r = 0 then 0 else 1)"
    using assms(2) by (cases "r = 0") (auto intro!: div_nat_eqI)
  ultimately show ?thesis by simp
qed

lemma pages_of_covers: "off + n \<le> 4096 * pages_of off n"
proof -
  have "off + n = 4096 * ((off + n) div 4096) + (off + n) mod 4096" "(off + n) mod 4096 < 4096" by simp_all
  from pages_of_split [OF this] this show ?thesis by (cases "(off + n) mod 4096 = 0") simp_all
qed

lemma file_page_bytes:
  assumes "off + j = 4096 * i + b" "b < 4096" "i < pages_of off n" "i + 1 < pages_of off n \<or> (off + n) mod 4096 = 0"
  shows "j < n"
proof -
  define q r where "q = (off + n) div 4096" and "r = (off + n) mod 4096"
  have qr: "off + n = 4096 * q + r" "r < 4096" by (simp_all add: q_def r_def)
  have "i < q" using assms(3,4) pages_of_split [OF qr] by (auto simp: r_def split: if_splits)
  then show ?thesis using qr assms(1,2) by linarith
qed

lemma last_file_page:
  assumes "(off + n) mod 4096 \<noteq> 0"
  shows "pages_of off n = (off + n) div 4096 + 1"
  using pages_of_split [of off n "(off + n) div 4096" "(off + n) mod 4096"] assms by simp


text \<open>The addresses of a segment as numbers.\<close>

lemma seg_addresses:
  assumes "header_ok vbase kstart h"
  defines "V \<equiv> unat (vbase + ph_virtual_addr h) div 4096"
  shows "unat (vbase + ph_virtual_addr h) = 4096 * V + seg_off vbase h" "seg_off vbase h < 4096"
    and "i \<le> pages_of (seg_off vbase h) (seg_len h) \<Longrightarrow> unat (seg_page vbase h i) = 4096 * (V + i)"
    and "4096 * V + seg_off vbase h + seg_len h + 8192 < 2 ^ 64"
proof -
  show v: "unat (vbase + ph_virtual_addr h) = 4096 * V + seg_off vbase h" "seg_off vbase h < 4096"
    by (simp_all add: V_def seg_off_def)
  show fit: "4096 * V + seg_off vbase h + seg_len h + 8192 < 2 ^ 64" using header_okD(9) [OF assms(1)] v(1) by simp
  have b: "unat ((vbase + ph_virtual_addr h) AND NOT (mask 12)) = 4096 * V"
    by (simp add: V_def unat_and_not_mask minus_mod_eq_mult_div)
  have "4096 * pages_of (seg_off vbase h) (seg_len h) \<le> seg_off vbase h + seg_len h + 4095"
    unfolding pages_of_def by simp
  then have "unat ((vbase + ph_virtual_addr h) AND NOT (mask 12)) + 4096 * pages_of (seg_off vbase h) (seg_len h) < 2 ^ 64"
    using fit b by linarith
  from page_number(1) [OF this, of i] show "unat (seg_page vbase h i) = 4096 * (V + i)"
    if "i \<le> pages_of (seg_off vbase h) (seg_len h)" using that b by (simp add: seg_page_def)
qed

lemma pages_of_le: "n \<le> n' \<Longrightarrow> pages_of off n \<le> pages_of off n'"
  unfolding pages_of_def by (intro div_le_mono) simp

lemma bss_start:
  assumes "header_ok vbase kstart h"
  shows "VirtualAddress_align_up (vbase + ph_virtual_addr h + ph_file_size h) (SIZE Size4KiB) =
     Inr (seg_page vbase h (pages_of (seg_off vbase h) (unat (ph_file_size h))))"
proof -
  let ?z = "vbase + ph_virtual_addr h + ph_file_size h" and ?k = "pages_of (seg_off vbase h) (unat (ph_file_size h))"
  note g = seg_addresses [OF assms]
  have le: "unat (ph_file_size h) \<le> seg_len h" by (simp add: seg_len_def)
  have uz: "unat ?z = 4096 * (unat (vbase + ph_virtual_addr h) div 4096) + (seg_off vbase h + unat (ph_file_size h))"
    using g(1,4) le by (simp add: unat_plus_nowrap)
  have "unat ?z + 2 ^ 12 < 2 ^ 64" using uz g(4) le by simp
  then have "VirtualAddress_align_up ?z (2 ^ 12) = Inr ((?z + mask 12) AND NOT (mask 12))"
    using align_up_exp [of 12 ?z] by simp
  moreover have "(?z + mask 12) AND NOT (mask 12) = seg_page vbase h ?k"
  proof -
    have m: "unat (mask 12 :: u64) = 4095" by (simp add: mask_eq_exp_minus_1)
    have "unat (?z + mask 12) = unat ?z + 4095" using \<open>unat ?z + 2 ^ 12 < 2 ^ 64\<close> m by (simp add: unat_plus_nowrap)
    then have "unat ((?z + mask 12) AND NOT (mask 12)) = 4096 * ((unat ?z + 4095) div 4096)"
      by (simp add: unat_and_not_mask minus_mod_eq_mult_div)
    also have "(unat ?z + 4095) div 4096 = unat (vbase + ph_virtual_addr h) div 4096 + ?k"
      unfolding uz pages_of_def by (simp add: add.assoc)
    also have "4096 * (unat (vbase + ph_virtual_addr h) div 4096 + ?k) = unat (seg_page vbase h ?k)"
      using g(3) [OF pages_of_le [OF le]] by simp
    finally show ?thesis by (simp add: word_unat_eq_iff)
  qed
  ultimately show ?thesis by simp
qed

lemma bss_items:
  assumes h: "header_ok vbase kstart h" and mem: "ph_file_size h < ph_mem_size h"
  defines "k \<equiv> pages_of (seg_off vbase h) (unat (ph_file_size h))" and "t \<equiv> pages_of (seg_off vbase h) (seg_len h)"
  shows "range_items Size4KiB (seg_page vbase h k) ((vbase + ph_virtual_addr h + ph_mem_size h - 1) AND NOT (mask 12)) =
     map (\<lambda>i. seg_page vbase h (k + i)) [0 ..< t - k]"
    and "unat ((vbase + ph_virtual_addr h + ph_mem_size h - 1) AND NOT (mask 12)) + unat (SIZE Size4KiB) < 2 ^ 64"
    and "k \<le> t"
proof -
  note g = seg_addresses [OF h]
  let ?V = "unat (vbase + ph_virtual_addr h) div 4096" and ?e = "vbase + ph_virtual_addr h + ph_mem_size h - 1"
  have len: "seg_len h = unat (ph_mem_size h)" "0 < seg_len h" using mem by (auto simp: seg_len_def word_less_nat_alt)
  show kt: "k \<le> t" unfolding k_def t_def by (rule pages_of_le) (simp add: seg_len_def)
  have ue: "unat (vbase + ph_virtual_addr h + ph_mem_size h) = 4096 * ?V + seg_off vbase h + seg_len h"
    using g(1,4) len by (simp add: unat_plus_nowrap)
  then have "1 \<le> vbase + ph_virtual_addr h + ph_mem_size h" using len(2) by (simp add: word_le_nat_alt)
  then have ue1: "unat ?e = 4096 * ?V + (seg_off vbase h + seg_len h - 1)" using ue len(2) by (simp add: unat_sub)
  have t: "t = (seg_off vbase h + seg_len h - 1) div 4096 + 1" unfolding t_def using len(2) by (intro pages_of_pos) simp
  have ep: "unat (?e AND NOT (mask 12)) = 4096 * (?V + (t - 1))"
  proof -
    have "unat ?e div 4096 = ?V + (t - 1)" unfolding ue1 t by simp
    moreover have "unat (?e AND NOT (mask 12)) = 4096 * (unat ?e div 4096)" by (simp add: unat_and_not_mask minus_mod_eq_mult_div)
    ultimately show ?thesis by simp
  qed
  show "unat (?e AND NOT (mask 12)) + unat (SIZE Size4KiB) < 2 ^ 64"
    using g(4) len ue1 by (simp add: unat_and_not_mask)
  have sk: "unat (seg_page vbase h k) = 4096 * (?V + k)" using g(3) [of k] kt by (simp add: t_def)
  have "(if seg_page vbase h k \<le> ?e AND NOT (mask 12)
      then (unat (?e AND NOT (mask 12)) - unat (seg_page vbase h k)) div unat (SIZE Size4KiB) + 1 else 0) = t - k"
  proof -
    obtain t' where t': "t = Suc t'" using t by simp
    have "4096 * (?V + t') - 4096 * (?V + k) = 4096 * (t' - k)" by (simp add: diff_mult_distrib2)
    then show ?thesis using kt by (cases "k \<le> t'") (simp_all add: word_le_nat_alt ep sk t' Suc_diff_le)
  qed
  then show "range_items Size4KiB (seg_page vbase h k) (?e AND NOT (mask 12)) = map (\<lambda>i. seg_page vbase h (k + i)) [0 ..< t - k]"
    unfolding range_items_def by (simp add: seg_page_def algebra_simps)
qed


context identity_mapper
begin

text \<open>
  The state of the pages of a segment while the loader is at work: page \<open>i\<close> shows what it has to.
\<close>

abbreviation seg_page_done where
  "seg_page_done m0 vbase kstart h root m a i \<equiv>
     shows_page root m a (page_indices C (seg_page vbase h i)) (segment_flags C h) (seg_content m0 vbase kstart h i)"

lemma file_page_done:
  assumes h: "header_ok vbase kstart h" and so: "solid root m0 a0 (seg_frame kstart h i)" and k: "keeps root m0 a0 m a"
    and mm: "mmu root m (page_indices C (seg_page vbase h i)) = Some (Small (seg_frame kstart h i) (seg_frame kstart h i OR segment_flags C h))"
    and fp: "\<And>j b. j < seg_len h \<Longrightarrow> b < 4096 \<Longrightarrow> seg_off vbase h + j = 4096 * i + b \<Longrightarrow> j < unat (ph_file_size h)"
  shows "seg_page_done m0 vbase kstart h root m a i"
proof -
  note ks = keeps_solid [OF k so]
  have "seg_content m0 vbase kstart h i b (read_byte m (seg_frame kstart h i + of_nat b))" if "b < 4096" for b
    unfolding seg_content_def
  proof (intro allI impI)
    fix j
    assume j: "j < seg_len h" "seg_off vbase h + j = 4096 * i + b"
    show "read_byte m (seg_frame kstart h i + of_nat b) = seg_byte m0 kstart h j"
      using ks(3) [OF that] seg_frame_byte [OF h j(2)] fp [OF j(1) that j(2)] by (simp add: seg_byte_def)
  qed
  then show ?thesis unfolding page_shows_def using mm ks(1) by (intro exI [of _ "seg_frame kstart h i"] exI [of _ 0]) simp
qed

lemma zeroed_pages_step:
  assumes h: "header_ok vbase kstart h" and mem: "ph_file_size h < ph_mem_size h"
  defines "k \<equiv> pages_of (seg_off vbase h) (unat (ph_file_size h))" and "t \<equiv> pages_of (seg_off vbase h) (seg_len h)"
  assumes r: "ready root m a" and s: "can_supply allocate (4 * (t - k) + n) a"
    and nh: "\<And>i. i < t \<Longrightarrow> no_huge_above root m (seg_page vbase h i)"
    and un: "\<And>i. k \<le> i \<Longrightarrow> i < t \<Longrightarrow> mmu root m (page_indices C (seg_page vbase h i)) = None"
    and inj: "inj_on (\<lambda>i. page_indices C (seg_page vbase h i)) {..< t}"
  shows "\<exists>m' a'. page_range_for Size4KiB (map_zeroed_page C P allocate root (segment_flags C h))
        (seg_page vbase h k, (vbase + ph_virtual_addr h + ph_mem_size h - 1) AND NOT (mask 12)) (m, a) = Inr (m', a') \<and>
     step ((\<lambda>i. page_indices C (seg_page vbase h i)) ` {k ..< t}) root m a m' a' \<and> can_supply allocate n a' \<and>
     (\<forall>i. k \<le> i \<and> i < t \<longrightarrow> seg_page_done m0 vbase kstart h root m' a' i)"
proof -
  note it = bss_items [OF h mem, folded k_def t_def]
  let ?pg = "\<lambda>i. seg_page vbase h (k + i)"
  let ?body = "\<lambda>i. map_zeroed_page C P allocate root (segment_flags C h) (?pg i)"
  have zero: "seg_content m0 vbase kstart h (k + i) b 0" if "b < 4096" for i b
  proof -
    have "\<not> j < unat (ph_file_size h)" if "seg_off vbase h + j = 4096 * (k + i) + b" for j
    proof -
      have "seg_off vbase h + unat (ph_file_size h) \<le> 4096 * k" unfolding k_def by (rule pages_of_covers)
      then show ?thesis using that unfolding distrib_left by simp
    qed
    then show ?thesis by (auto simp: seg_content_def seg_byte_def)
  qed
  have "inj_on (\<lambda>i. page_indices C (?pg i)) {..< t - k}"
  proof (rule inj_onI)
    fix i j assume ij: "i \<in> {..< t - k}" "j \<in> {..< t - k}" "page_indices C (?pg i) = page_indices C (?pg j)"
    then have "k + i = k + j" using inj_onD [OF inj, of "k + i" "k + j"] by simp
    then show "i = j" by simp
  qed
  note inj' = this
  have "\<exists>m' a'. rfold ?body [0 ..< t - k] (m, a) = Inr (m', a') \<and> step ((\<lambda>i. page_indices C (?pg i)) ` {..< t - k}) root m a m' a' \<and>
     can_supply allocate n a' \<and> (\<forall>i < t - k. seg_page_done m0 vbase kstart h root m' a' (k + i))"
  proof (rule pages_loop [OF r s _ _ _ inj'])
    fix i m1 a1 n'
    assume i: "i < t - k" "ready root m1 a1" "keeps root m a m1 a1" "can_supply allocate (4 + n') a1"
      "mmu root m1 (page_indices C (?pg i)) = None"
    then have "no_huge_above root m1 (?pg i)" using no_huge_keeps [OF i(3) nh] by simp
    from map_zeroed_page_step [OF i(2,4) this segment_flags_ok(1,2) [OF crates] i(5), of h] obtain f m2 a2 where
      z: "map_zeroed_page C P allocate root (segment_flags C h) (?pg i) (m1, a1) = Inr (m2, a2)"
       "step {page_indices C (?pg i)} root m1 a1 m2 a2" "can_supply allocate n' a2"
       "mmu root m2 (page_indices C (?pg i)) = Some (Small f (f OR segment_flags C h))" "solid root m2 a2 f"
       "\<And>b. b < 4096 \<Longrightarrow> read_byte m2 (f + of_nat b) = 0" by blast
    have "seg_page_done m0 vbase kstart h root m2 a2 (k + i)"
      unfolding page_shows_def using z(4,5) z(6) zero by (intro exI [of _ f] exI [of _ 0]) simp
    with z(1-3) show "\<exists>m2 a2. ?body i (m1, a1) = Inr (m2, a2) \<and> step {page_indices C (?pg i)} root m1 a1 m2 a2 \<and>
        can_supply allocate n' a2 \<and> seg_page_done m0 vbase kstart h root m2 a2 (k + i)" by blast
  qed (use shows_page_step indices_ok_page un in simp_all)
  then obtain m' a' where l: "rfold ?body [0 ..< t - k] (m, a) = Inr (m', a')"
      "step ((\<lambda>i. page_indices C (?pg i)) ` {..< t - k}) root m a m' a'" "can_supply allocate n a'"
      "\<And>i. i < t - k \<Longrightarrow> seg_page_done m0 vbase kstart h root m' a' (k + i)" by blast
  have im: "(\<lambda>i. page_indices C (?pg i)) ` {..< t - k} = (\<lambda>i. page_indices C (seg_page vbase h i)) ` {k ..< t}"
  proof -
    have "(\<lambda>i. k + i) ` {..< t - k} = {k ..< t}" using it(3) by (simp add: lessThan_atLeast0 image_add_atLeastLessThan)
    then show ?thesis by (metis image_image)
  qed
  have "seg_page_done m0 vbase kstart h root m' a' i" if "k \<le> i \<and> i < t" for i
    using l(4) [of "i - k"] that by auto
  then show ?thesis
    unfolding page_range_for_items [OF it(2)] it(1) rfold_map using l(1,2,3) [unfolded im] by blast
qed

end

end
