(* ===== verification/Elf_Segments.thy ===== *)
theory Elf_Segments
  imports Elf_Correct
begin

text \<open>
  The segments of the kernel: what one turn of the loop of \<open>allocate\<close> does to one program header, what
  the whole loop does, and that a relocation puts its value in place.
\<close>

section \<open>One program header\<close>

context identity_mapper
begin

text \<open>The last page with data of the file: its first bytes are copied, the rest is zero.\<close>

lemma tail_page_done:
  assumes h: "header_ok vbase kstart h" and d: "d = (seg_off vbase h + unat (ph_file_size h)) mod 4096" "d \<noteq> 0"
    and k: "k = pages_of (seg_off vbase h) (unat (ph_file_size h))"
    and so: "solid root m0 a0 (seg_frame kstart h (k - 1))" and kp: "keeps root m0 a0 m1 a1"
    and g: "mmu root m (page_indices C (seg_page vbase h (k - 1))) = Some (Small g (g OR (segment_flags C h OR COPIED)))" "solid root m a g"
      "\<And>b. b < 4096 \<Longrightarrow> read_byte m (g + of_nat b) = (if b < d then read_byte m1 (seg_frame kstart h (k - 1) + of_nat b) else 0)"
  shows "seg_page_done m0 vbase kstart h root m a (k - 1)"
proof -
  have k1: "k - 1 = (seg_off vbase h + unat (ph_file_size h)) div 4096" using last_file_page d k by simp
  have split: "seg_off vbase h + unat (ph_file_size h) = 4096 * (k - 1) + d" unfolding k1 d(1) by simp
  have "seg_content m0 vbase kstart h (k - 1) b (read_byte m (g + of_nat b))" if b: "b < 4096" for b
    unfolding seg_content_def
  proof (intro allI impI)
    fix j
    assume j: "j < seg_len h" "seg_off vbase h + j = 4096 * (k - 1) + b"
    then have "j < unat (ph_file_size h) \<longleftrightarrow> b < d" using split by linarith
    then show "read_byte m (g + of_nat b) = seg_byte m0 kstart h j"
      using g(3) [OF b] keeps_solid(3) [OF kp so b] seg_frame_byte [OF h j(2)] by (simp add: seg_byte_def)
  qed
  then show ?thesis unfolding page_shows_def using g(1,2) by (intro exI [of _ g] exI [of _ COPIED]) simp
qed

lemma last_file_byte:
  assumes h: "header_ok vbase kstart h" and k: "k = pages_of (seg_off vbase h) (unat (ph_file_size h))" "0 < seg_off vbase h + unat (ph_file_size h)"
  shows "(vbase + ph_virtual_addr h + ph_file_size h - 1) AND NOT (mask 12) = seg_page vbase h (k - 1)"
    and "unat (vbase + ph_virtual_addr h) + unat (ph_file_size h) < 2 ^ 64" "0 < unat (vbase + ph_virtual_addr h) + unat (ph_file_size h)"
proof -
  note g = seg_addresses [OF h]
  let ?V = "unat (vbase + ph_virtual_addr h) div 4096" and ?e = "vbase + ph_virtual_addr h + ph_file_size h"
  have le: "unat (ph_file_size h) \<le> seg_len h" by (simp add: seg_len_def)
  show fit: "unat (vbase + ph_virtual_addr h) + unat (ph_file_size h) < 2 ^ 64" using g(1,4) le by linarith
  show "0 < unat (vbase + ph_virtual_addr h) + unat (ph_file_size h)" using g(1) k(2) by linarith
  have ue: "unat ?e = 4096 * ?V + (seg_off vbase h + unat (ph_file_size h))" using fit g(1) by (simp add: unat_plus_nowrap)
  then have "1 \<le> ?e" using k(2) by (auto simp: word_le_nat_alt)
  then have "unat (?e - 1) = 4096 * ?V + (seg_off vbase h + unat (ph_file_size h) - 1)" using ue k(2) by (auto simp: unat_sub)
  then have "unat (?e - 1) div 4096 = ?V + (k - 1)" using pages_of_pos [OF k(2)] k(1) by simp
  moreover have "unat ((?e - 1) AND NOT (mask 12)) = 4096 * (unat (?e - 1) div 4096)"
    by (simp add: unat_and_not_mask minus_mod_eq_mult_div)
  moreover have "k - 1 \<le> pages_of (seg_off vbase h) (seg_len h)" using pages_of_le [OF le, of "seg_off vbase h"] k(1) by simp
  ultimately show "(?e - 1) AND NOT (mask 12) = seg_page vbase h (k - 1)" using g(3) by (simp add: word_unat_eq_iff)
qed

lemma tail_step:
  assumes h: "header_ok vbase kstart h" and d: "d = (seg_off vbase h + unat (ph_file_size h)) mod 4096"
    and k: "k = pages_of (seg_off vbase h) (unat (ph_file_size h))"
    and so: "\<And>i. i < k \<Longrightarrow> solid root m0 a0 (seg_frame kstart h i)" and kp: "keeps root m0 a0 m1 a1" and r: "ready root m1 a1"
    and s: "can_supply allocate (4 + n) a1" and nh: "\<And>i. i < k \<Longrightarrow> no_huge_above root m1 (seg_page vbase h i)"
    and inj: "inj_on (\<lambda>i. page_indices C (seg_page vbase h i)) {..< k}"
    and mm: "\<And>i. i < k \<Longrightarrow> mmu root m1 (page_indices C (seg_page vbase h i)) = Some (Small (seg_frame kstart h i) (seg_frame kstart h i OR segment_flags C h))"
  shows "\<exists>m2 a2. (if (of_nat d :: u64) \<noteq> 0 then zero_tail C P allocate root (vbase + ph_virtual_addr h) (ph_file_size h) (of_nat d) (m1, a1)
        else Inr (m1, a1)) = Inr (m2, a2) \<and>
     step ((\<lambda>i. page_indices C (seg_page vbase h i)) ` {..< k}) root m1 a1 m2 a2 \<and> can_supply allocate n a2 \<and>
     (\<forall>i < k. seg_page_done m0 vbase kstart h root m2 a2 i)"
proof (cases "d = 0")
  case True
  have "seg_page_done m0 vbase kstart h root m1 a1 i" if i: "i < k" for i
    by (rule file_page_done [OF h so [OF i] kp mm [OF i]])
       (use file_page_bytes [of "seg_off vbase h" _ i _ "unat (ph_file_size h)"] i True d k in auto)
  then show ?thesis using True step_refl [OF r] can_supply_le [OF s, of n] by auto
next
  case False
  then have pos: "0 < seg_off vbase h + unat (ph_file_size h)" using d by (auto intro: ccontr)
  have dl: "d < 4096" "(of_nat d :: u64) \<noteq> 0"
    using d False by (simp_all add: word_unat_eq_iff unat_of_nat)
  have k1: "k - 1 < k" using last_file_page [of "seg_off vbase h" "unat (ph_file_size h)"] False d k by simp
  note lf = last_file_byte [OF h k pos]
  note so1 = keeps_solid(1) [OF kp so [OF k1]]
  from zero_tail_step [OF r s nh [OF k1] segment_flags_ok [OF crates] mm [OF k1] so1 lf(2,3,1) refl _ dl(1)] False obtain g m2 a2 where
    2: "zero_tail C P allocate root (vbase + ph_virtual_addr h) (ph_file_size h) (of_nat d) (m1, a1) = Inr (m2, a2)"
     "step {page_indices C (seg_page vbase h (k - 1))} root m1 a1 m2 a2" "can_supply allocate n a2"
     "mmu root m2 (page_indices C (seg_page vbase h (k - 1))) = Some (Small g (g OR (segment_flags C h OR COPIED)))" "solid root m2 a2 g"
     "\<And>b. b < 4096 \<Longrightarrow> read_byte m2 (g + of_nat b) = (if b < d then read_byte m1 (seg_frame kstart h (k - 1) + of_nat b) else 0)"
    by blast
  have "seg_page_done m0 vbase kstart h root m2 a2 i" if i: "i < k" for i
  proof (cases "i = k - 1")
    case True
    then show ?thesis using tail_page_done [OF h d False k so [OF k1] kp 2(4,5,6)] by simp
  next
    case ne: False
    then have "page_indices C (seg_page vbase h i) \<noteq> page_indices C (seg_page vbase h (k - 1))"
      using inj_onD [OF inj, of i "k - 1"] i k1 by auto
    then have "mmu root m2 (page_indices C (seg_page vbase h i)) = Some (Small (seg_frame kstart h i) (seg_frame kstart h i OR segment_flags C h))"
      using step_lookup [OF 2(2)] mm [OF i] by simp
    moreover have "i + 1 < k" using i ne by linarith
    ultimately show ?thesis
      using file_page_bytes [of "seg_off vbase h" _ i _ "unat (ph_file_size h)"] i k
      by (intro file_page_done [OF h so [OF i] keeps_trans [OF kp stepD(1) [OF 2(2)]]]) blast+
  qed
  then show ?thesis using 2(1,3) dl(2) step_mono [OF 2(2)] k1 by auto
qed


lemma map_bss_eq:
  assumes h: "header_ok vbase kstart h" and mem: "ph_file_size h < ph_mem_size h"
  shows "map_bss C P allocate root (vbase + ph_virtual_addr h) h fl st =
     rbind (if (of_nat ((seg_off vbase h + unat (ph_file_size h)) mod 4096) :: u64) \<noteq> 0
            then zero_tail C P allocate root (vbase + ph_virtual_addr h) (ph_file_size h)
                   (of_nat ((seg_off vbase h + unat (ph_file_size h)) mod 4096)) st
            else Inr st) (\<lambda>st.
     page_range_for Size4KiB (map_zeroed_page C P allocate root fl)
       (seg_page vbase h (pages_of (seg_off vbase h) (unat (ph_file_size h))),
        (vbase + ph_virtual_addr h + ph_mem_size h - 1) AND NOT (mask 12)) st)"
proof -
  note g = seg_addresses [OF h]
  let ?V = "unat (vbase + ph_virtual_addr h) div 4096" and ?v = "vbase + ph_virtual_addr h"
  have len: "unat (ph_mem_size h) = seg_len h" "unat (ph_file_size h) \<le> seg_len h" "0 < unat (ph_mem_size h)"
    using mem by (auto simp: seg_len_def word_less_nat_alt)
  have z: "op_add ?v (ph_file_size h) = Inr (?v + ph_file_size h)" "op_add ?v (ph_mem_size h) = Inr (?v + ph_mem_size h)"
    using g(1,4) len by (simp_all add: op_add_def)
  have uz: "unat (?v + ph_file_size h) = 4096 * ?V + (seg_off vbase h + unat (ph_file_size h))"
    using g(1,4) len by (simp add: unat_plus_nowrap)
  have "(?v + ph_file_size h) AND 0xFFF = of_nat ((seg_off vbase h + unat (ph_file_size h)) mod 4096)"
  proof -
    have "(0xFFF :: u64) = mask 12" by (simp add: mask_eq_exp_minus_1)
    then have "unat ((?v + ph_file_size h) AND 0xFFF) = (seg_off vbase h + unat (ph_file_size h)) mod 4096"
      using uz by (simp only: unat_and_mask) simp
    then show ?thesis by (simp add: word_unat_eq_iff unat_of_nat)
  qed
  note d = this
  have "unat (?v + ph_mem_size h) = unat ?v + unat (ph_mem_size h)" using g(1,4) len by (simp add: unat_plus_nowrap)
  then have "1 \<le> ?v + ph_mem_size h" using len(3) by (auto simp: word_le_nat_alt)
  moreover have "seg_page vbase h (pages_of (seg_off vbase h) (unat (ph_file_size h))) AND NOT (mask 12) =
      seg_page vbase h (pages_of (seg_off vbase h) (unat (ph_file_size h)))" (is "?p AND _ = _")
  proof -
    have "page_aligned Size4KiB ?p"
      using g(3) [OF pages_of_le [OF len(2)]] by (simp add: page_aligned_iff_dvd)
    from containing_aligned [OF this] show ?thesis by simp
  qed
  moreover have "op_sub (SIZE Size4KiB) 1 = Inr 0xFFF" by (simp add: op_sub_def)
  ultimately show ?thesis
    unfolding map_bss_def VirtualAddress_add_def VirtualAddress_sub_def z rbind_Inr Let_def
    using bss_start [OF h] by (simp add: d checked_sub_def del: SIZE.simps)
qed

lemma allocate_header_eq:
  assumes h: "header_ok vbase kstart h"
  shows "allocate_header C P allocate root vbase kstart h st =
     rbind (frame_range_for Size4KiB (map_segment_frame C P allocate root (seg_frame kstart h 0) (seg_page vbase h 0) (segment_flags C h))
        (seg_frame kstart h 0, (kstart + ph_offset h + ph_file_size h - 1) AND NOT (mask 12)) st) (\<lambda>st.
     if ph_file_size h < ph_mem_size h then map_bss C P allocate root (vbase + ph_virtual_addr h) h (segment_flags C h) st else Inr st)"
    and "unat (kstart + ph_offset h + ph_file_size h - 1) + 1 = unat (kstart + ph_offset h) + unat (ph_file_size h)"
proof -
  note g = header_okD [OF h]
  let ?p = "kstart + ph_offset h"
  have e: "op_add ?p (ph_file_size h) = Inr (?p + ph_file_size h)" "unat (?p + ph_file_size h) = unat ?p + unat (ph_file_size h)"
    using g(8) by (simp_all add: op_add_def unat_plus_nowrap)
  have le: "1 \<le> ?p + ph_file_size h" using e(2) g(7) by (auto simp: word_le_nat_alt)
  then show "unat (?p + ph_file_size h - 1) + 1 = unat ?p + unat (ph_file_size h)" using e(2) g(7) by (auto simp: unat_sub)
  show "allocate_header C P allocate root vbase kstart h st =
     rbind (frame_range_for Size4KiB (map_segment_frame C P allocate root (seg_frame kstart h 0) (seg_page vbase h 0) (segment_flags C h))
        (seg_frame kstart h 0, (?p + ph_file_size h - 1) AND NOT (mask 12)) st) (\<lambda>st.
     if ph_file_size h < ph_mem_size h then map_bss C P allocate root (vbase + ph_virtual_addr h) h (segment_flags C h) st else Inr st)"
    unfolding allocate_header_def PhysicalAddress_add_def PhysicalAddress_sub_def g(3-5) e(1) rbind_Inr
    using le by (simp add: checked_sub_def Let_def seg_frame_def seg_page_def)
qed

lemma allocate_header_step:
  assumes h: "header_ok vbase kstart h" and r: "ready root m a"
  defines "k \<equiv> pages_of (seg_off vbase h) (unat (ph_file_size h))" and "t \<equiv> pages_of (seg_off vbase h) (seg_len h)"
  assumes s: "can_supply allocate (4 * t + 4 + n) a"
    and nh: "\<And>i. i < t \<Longrightarrow> no_huge_above root m (seg_page vbase h i)"
    and un: "\<And>i. i < t \<Longrightarrow> mmu root m (page_indices C (seg_page vbase h i)) = None"
    and inj: "inj_on (\<lambda>i. page_indices C (seg_page vbase h i)) {..< t}"
    and so: "\<And>i. i < k \<Longrightarrow> solid root m a (seg_frame kstart h i)"
  shows "\<exists>m' a'. allocate_header C P allocate root vbase kstart h (m, a) = Inr (m', a') \<and>
     step ((\<lambda>i. page_indices C (seg_page vbase h i)) ` {..< t}) root m a m' a' \<and> can_supply allocate n a' \<and>
     (\<forall>i < t. seg_page_done m vbase kstart h root m' a' i)"
proof -
  have kt: "k \<le> t" unfolding k_def t_def by (rule pages_of_le) (simp add: seg_len_def)
  let ?pi = "\<lambda>i. page_indices C (seg_page vbase h i)"
  have sp: "4 * t + 4 + n = 4 * k + (4 + (4 * (t - k) + n))" using kt by simp
  have injk: "inj_on ?pi {..< k}" using inj kt by (auto intro: inj_on_subset)
  have fb: "frame_bits_ok (seg_frame kstart h i)" if "i < k" for i using so [OF that] by (simp add: solid_at_def)
  have "\<exists>m' a'. frame_range_for Size4KiB (map_segment_frame C P allocate root (seg_frame kstart h 0) (seg_page vbase h 0) (segment_flags C h))
        (seg_frame kstart h 0, (kstart + ph_offset h + ph_file_size h - 1) AND NOT (mask 12)) (m, a) = Inr (m', a') \<and>
     step (?pi ` {..< k}) root m a m' a' \<and> can_supply allocate (4 + (4 * (t - k) + n)) a' \<and>
     (\<forall>i < k. mmu root m' (?pi i) = Some (Small (seg_frame kstart h i) (seg_frame kstart h i OR segment_flags C h)))"
    using map_segment_frames_step [OF r h, folded k_def, OF s [unfolded sp] nh un injk allocate_header_eq(2) [OF h] fb] kt
    by (simp only: less_le_trans)
  then obtain m1 a1 where 1: "frame_range_for Size4KiB (map_segment_frame C P allocate root (seg_frame kstart h 0) (seg_page vbase h 0) (segment_flags C h))
        (seg_frame kstart h 0, (kstart + ph_offset h + ph_file_size h - 1) AND NOT (mask 12)) (m, a) = Inr (m1, a1)"
     "step (?pi ` {..< k}) root m a m1 a1" "can_supply allocate (4 + (4 * (t - k) + n)) a1"
     "\<And>i. i < k \<Longrightarrow> mmu root m1 (?pi i) = Some (Small (seg_frame kstart h i) (seg_frame kstart h i OR segment_flags C h))" by blast
  show ?thesis
  proof (cases "ph_file_size h < ph_mem_size h")
    case False
    then have len: "seg_len h = unat (ph_file_size h)" by (simp add: seg_len_def word_less_nat_alt)
    have "seg_page_done m vbase kstart h root m1 a1 i" if i: "i < k" for i
      by (rule file_page_done [OF h so [OF i] stepD(1) [OF 1(2)] 1(4) [OF i]]) (simp add: len)
    then show ?thesis
      using 1(1,2) can_supply_le [OF 1(3), of n] False len by (simp add: allocate_header_eq(1) [OF h] t_def k_def)
  next
    case True
    have nh1: "no_huge_above root m1 (seg_page vbase h i)" if "i < t" for i using no_huge_keeps [OF stepD(1) [OF 1(2)] nh [OF that]] .
    from tail_step [OF h refl k_def [THEN meta_eq_to_obj_eq] so stepD(1,2) [OF 1(2)] 1(3) nh1 injk 1(4)] kt obtain m2 a2 where
      2: "(if (of_nat ((seg_off vbase h + unat (ph_file_size h)) mod 4096) :: u64) \<noteq> 0
          then zero_tail C P allocate root (vbase + ph_virtual_addr h) (ph_file_size h)
                 (of_nat ((seg_off vbase h + unat (ph_file_size h)) mod 4096)) (m1, a1) else Inr (m1, a1)) = Inr (m2, a2)"
       "step (?pi ` {..< k}) root m1 a1 m2 a2" "can_supply allocate (4 * (t - k) + n) a2"
       "\<And>i. i < k \<Longrightarrow> seg_page_done m vbase kstart h root m2 a2 i" by auto
    note st2 = step_trans [OF 1(2) 2(2), simplified]
    have new: "?pi i \<notin> ?pi ` {..< k}" if "k \<le> i" "i < t" for i
      using inj_on_image_mem_iff [OF inj, of i "{..< k}"] that kt by auto
    have un2: "mmu root m2 (?pi i) = None" if "k \<le> i" "i < t" for i
      using step_lookup [OF st2 new [OF that]] un [OF that(2)] by simp
    have nh2: "no_huge_above root m2 (seg_page vbase h i)" if "i < t" for i using no_huge_keeps [OF stepD(1) [OF st2] nh [OF that]] .
    from zeroed_pages_step [OF h True stepD(2) [OF 2(2)], folded k_def t_def, OF 2(3) nh2 un2 inj, of m] obtain m3 a3 where
      3: "page_range_for Size4KiB (map_zeroed_page C P allocate root (segment_flags C h))
          (seg_page vbase h k, (vbase + ph_virtual_addr h + ph_mem_size h - 1) AND NOT (mask 12)) (m2, a2) = Inr (m3, a3)"
       "step (?pi ` {k ..< t}) root m2 a2 m3 a3" "can_supply allocate n a3"
       "\<And>i. k \<le> i \<Longrightarrow> i < t \<Longrightarrow> seg_page_done m vbase kstart h root m3 a3 i" by blast
    have "seg_page_done m vbase kstart h root m3 a3 i" if "i < t" for i
    proof (cases "i < k")
      case i: True
      have "{k ..< t} \<subseteq> {..< t}" by auto
      then have "?pi i \<notin> ?pi ` {k ..< t}" using inj_on_image_mem_iff [OF inj, of i "{k ..< t}"] i kt by auto
      then show ?thesis using shows_page_step [OF 2(4) [OF i] 3(2) _ indices_ok_page] by blast
    qed (use 3(4) that in simp)
    moreover have "?pi ` {..< k} \<union> ?pi ` {k ..< t} = ?pi ` {..< t}" using kt by (auto simp: image_Un [symmetric] ivl_disj_un)
    ultimately show ?thesis
      using 1(1) 2(1) 3(1,3) step_trans [OF st2 3(2)] True
      by (simp add: allocate_header_eq(1) [OF h] map_bss_eq [OF h True] flip: k_def)
  qed
qed

end

section \<open>All program headers\<close>

definition seg_indices :: "crates \<Rightarrow> u64 \<Rightarrow> ProgramHeader \<Rightarrow> (nat \<times> nat \<times> nat \<times> nat) list" where
  "seg_indices C vbase h = map (\<lambda>i. page_indices C (seg_page vbase h i)) [0 ..< pages_of (seg_off vbase h) (seg_len h)]"

lemma set_seg_indices:
  "set (seg_indices C vbase h) = (\<lambda>i. page_indices C (seg_page vbase h i)) ` {..< pages_of (seg_off vbase h) (seg_len h)}"
  by (auto simp: seg_indices_def)

lemma distinct_seg_indices:
  "distinct (seg_indices C vbase h) \<longleftrightarrow> inj_on (\<lambda>i. page_indices C (seg_page vbase h i)) {..< pages_of (seg_off vbase h) (seg_len h)}"
  by (simp add: seg_indices_def distinct_map lessThan_atLeast0)

text \<open>The frames allocated at most for a list of headers, tables included.\<close>

definition frames_needed :: "u64 \<Rightarrow> ProgramHeader list \<Rightarrow> nat" where
  "frames_needed vbase hs = sum_list (map (\<lambda>h. 4 * pages_of (seg_off vbase h) (seg_len h) + 4) hs)"

context identity_mapper
begin

lemma seg_byte_keeps:
  assumes h: "header_ok vbase kstart h" and kp: "keeps root m a m' a'"
    and so: "\<And>i. i < pages_of (seg_off vbase h) (unat (ph_file_size h)) \<Longrightarrow> solid root m a (seg_frame kstart h i)"
  shows "seg_byte m' kstart h j = seg_byte m kstart h j"
proof (cases "j < unat (ph_file_size h)")
  case True
  let ?i = "(seg_off vbase h + j) div 4096" and ?b = "(seg_off vbase h + j) mod 4096"
  have e: "seg_off vbase h + j = 4096 * ?i + ?b" by simp
  have "4096 * ?i \<le> seg_off vbase h + j" by simp
  then have "4096 * ?i < 4096 * pages_of (seg_off vbase h) (unat (ph_file_size h))"
    using pages_of_covers [of "seg_off vbase h" "unat (ph_file_size h)"] True by linarith
  then have i: "?i < pages_of (seg_off vbase h) (unat (ph_file_size h))" by simp
  have "read_byte m' (seg_frame kstart h ?i + of_nat ?b) = read_byte m (seg_frame kstart h ?i + of_nat ?b)"
    by (rule keeps_solid(3) [OF kp so [OF i]]) simp
  then show ?thesis using True seg_frame_byte [OF h e] by (simp add: seg_byte_def)
qed (simp add: seg_byte_def)

lemma allocate_headers_step:
  assumes "ready root m a" "can_supply allocate (frames_needed vbase hs + n) a" "\<And>h. h \<in> set hs \<Longrightarrow> header_ok vbase kstart h"
    and "\<And>h i. h \<in> set hs \<Longrightarrow> i < pages_of (seg_off vbase h) (seg_len h) \<Longrightarrow> no_huge_above root m (seg_page vbase h i)"
    and "\<And>h ix. h \<in> set hs \<Longrightarrow> ix \<in> set (seg_indices C vbase h) \<Longrightarrow> mmu root m ix = None"
    and "distinct (concat (map (seg_indices C vbase) hs))"
    and "\<And>h i. h \<in> set hs \<Longrightarrow> i < pages_of (seg_off vbase h) (unat (ph_file_size h)) \<Longrightarrow> solid root m a (seg_frame kstart h i)"
  shows "\<exists>m' a'. allocate_headers C P allocate root vbase kstart hs (m, a) = Inr (m', a') \<and>
     step (set (concat (map (seg_indices C vbase) hs))) root m a m' a' \<and> can_supply allocate n a' \<and>
     (\<forall>h \<in> set hs. \<forall>i < pages_of (seg_off vbase h) (seg_len h). seg_page_done m vbase kstart h root m' a' i)"
  using assms
proof (induction hs arbitrary: m a)
  case Nil
  then show ?case by (auto simp: allocate_headers_def frames_needed_def step_refl)
next
  case (Cons h hs)
  let ?t = "\<lambda>h. pages_of (seg_off vbase h) (seg_len h)"
  have ok: "header_ok vbase kstart h" and okt: "\<And>g. g \<in> set hs \<Longrightarrow> header_ok vbase kstart g" using Cons.prems(3) by simp_all
  have s: "can_supply allocate (4 * ?t h + 4 + (frames_needed vbase hs + n)) a"
    using Cons.prems(2) by (simp add: frames_needed_def add.assoc)
  have inj: "inj_on (\<lambda>i. page_indices C (seg_page vbase h i)) {..< ?t h}"
    using Cons.prems(6) distinct_seg_indices by auto
  have un: "mmu root m (page_indices C (seg_page vbase h i)) = None" if "i < ?t h" for i
    using Cons.prems(5) [of h] that by (simp add: set_seg_indices)
  from allocate_header_step [OF ok Cons.prems(1) s _ un inj] Cons.prems(4,7) obtain m1 a1 where
    1: "allocate_header C P allocate root vbase kstart h (m, a) = Inr (m1, a1)"
     "step (set (seg_indices C vbase h)) root m a m1 a1" "can_supply allocate (frames_needed vbase hs + n) a1"
     "\<And>i. i < ?t h \<Longrightarrow> seg_page_done m vbase kstart h root m1 a1 i" by (auto simp: set_seg_indices)
  have apart: "set (seg_indices C vbase h) \<inter> set (concat (map (seg_indices C vbase) hs)) = {}"
    using Cons.prems(6) by simp
  have "\<exists>m' a'. allocate_headers C P allocate root vbase kstart hs (m1, a1) = Inr (m', a') \<and>
     step (set (concat (map (seg_indices C vbase) hs))) root m1 a1 m' a' \<and> can_supply allocate n a' \<and>
     (\<forall>h \<in> set hs. \<forall>i < ?t h. seg_page_done m1 vbase kstart h root m' a' i)"
  proof (rule Cons.IH [OF stepD(2) [OF 1(2)] 1(3) okt])
    show "no_huge_above root m1 (seg_page vbase g i)" if "g \<in> set hs" "i < ?t g" for g i
      using no_huge_keeps [OF stepD(1) [OF 1(2)]] Cons.prems(4) that by simp
    show "mmu root m1 ix = None" if "g \<in> set hs" "ix \<in> set (seg_indices C vbase g)" for g ix
    proof -
      have "indices_ok ix" using that(2) indices_ok_page by (auto simp: set_seg_indices)
      moreover have "ix \<notin> set (seg_indices C vbase h)" using apart that by auto
      ultimately show ?thesis using stepD(3) [OF 1(2)] Cons.prems(5) [of g ix] that by simp
    qed
    show "solid root m1 a1 (seg_frame kstart g i)" if "g \<in> set hs" "i < pages_of (seg_off vbase g) (unat (ph_file_size g))" for g i
      using keeps_solid(1) [OF stepD(1) [OF 1(2)]] Cons.prems(7) that by simp
  qed (use Cons.prems(6) in auto)
  then obtain m' a' where 2: "allocate_headers C P allocate root vbase kstart hs (m1, a1) = Inr (m', a')"
     "step (set (concat (map (seg_indices C vbase) hs))) root m1 a1 m' a'" "can_supply allocate n a'"
     "\<And>g i. g \<in> set hs \<Longrightarrow> i < ?t g \<Longrightarrow> seg_page_done m1 vbase kstart g root m' a' i" by blast
  have "seg_page_done m vbase kstart g root m' a' i" if g: "g \<in> set (h # hs)" "i < ?t g" for g i
  proof (cases "g = h \<and> (g \<notin> set hs)")
    case True
    then have "page_indices C (seg_page vbase h i) \<in> set (seg_indices C vbase h)" using g(2) by (simp add: set_seg_indices)
    then have "page_indices C (seg_page vbase h i) \<notin> set (concat (map (seg_indices C vbase) hs))" using apart by blast
    from shows_page_step [OF 1(4) 2(2) this indices_ok_page] True g(2) show ?thesis by simp
  next
    case False
    then have "g \<in> set hs" using g(1) by auto
    moreover have "seg_content m1 vbase kstart g i = seg_content m vbase kstart g i"
      using seg_byte_keeps [OF okt [OF \<open>g \<in> set hs\<close>] stepD(1) [OF 1(2)] Cons.prems(7)] g(1) by (simp add: seg_content_def fun_eq_iff)
    ultimately show ?thesis using 2(4) g(2) by fastforce
  qed
  moreover have "step (set (concat (map (seg_indices C vbase) (h # hs)))) root m a m' a'" using step_trans [OF 1(2) 2(2)] by simp
  ultimately show ?case using 1(1) 2(1,3) by (simp add: allocate_headers_def)
qed

end

end
