(* ===== verification/Elf_Relocation.thy ===== *)
theory Elf_Relocation
  imports Elf_Segments Offset_Page_Table
begin

text \<open>
  The view of the processor on the loaded kernel: the physical address and the rights behind a virtual
  address. A relative relocation writes its value at its virtual address, also across a page boundary,
  and nothing else.
\<close>

section \<open>Addresses through the page tables\<close>

definition translate_address ::
    "crates \<Rightarrow> frame_mapping \<Rightarrow> table_memory \<Rightarrow> VirtualAddress \<Rightarrow> VirtualAddress \<Rightarrow> (PhysicalAddress \<times> PageTableEntryFlags) option" where
  "translate_address C P m root va =
     (case mmu_lookup P m root (page_indices C (va AND NOT (mask 12))) of
        None \<Rightarrow> None
      | Some (Small f e) \<Rightarrow> Some (f + (va AND mask 12), e AND all_entry_flags)
      | Some (Huge f e) \<Rightarrow> Some (f + (va AND mask 21), e AND all_entry_flags))"

text \<open>A segment is loaded: every byte is at its virtual address, with the rights of the segment.\<close>

definition segment_loaded ::
    "crates \<Rightarrow> frame_mapping \<Rightarrow> VirtualAddress \<Rightarrow> table_memory \<Rightarrow> table_memory \<Rightarrow> u64 \<Rightarrow> u64 \<Rightarrow> ProgramHeader \<Rightarrow> bool" where
  "segment_loaded C P root m0 m vbase kstart h \<longleftrightarrow>
     (\<forall>j < seg_len h. \<exists>p c. c \<in> {0, COPIED} \<and>
        translate_address C P m root (vbase + ph_virtual_addr h + of_nat j) = Some (p, segment_flags C h OR c) \<and>
        read_byte m p = seg_byte m0 kstart h j)"

lemma seg_address_page:
  assumes "header_ok vbase kstart h" "j < seg_len h"
  shows "(vbase + ph_virtual_addr h + of_nat j) AND NOT (mask 12) = seg_page vbase h ((seg_off vbase h + j) div 4096)"
    and "(vbase + ph_virtual_addr h + of_nat j) AND mask 12 = of_nat ((seg_off vbase h + j) mod 4096)"
    and "(seg_off vbase h + j) div 4096 < pages_of (seg_off vbase h) (seg_len h)"
proof -
  note g = seg_addresses [OF assms(1)]
  let ?v = "vbase + ph_virtual_addr h" and ?i = "(seg_off vbase h + j) div 4096"
  have uj: "unat (of_nat j :: u64) = j" using g(4) assms(2) by (simp add: unat_of_nat)
  have u: "unat (?v + of_nat j) = 4096 * (unat ?v div 4096) + (seg_off vbase h + j)"
    using g(1,4) assms(2) uj by (simp add: unat_plus_nowrap)
  have "4096 * ?i \<le> seg_off vbase h + j" by simp
  then have "4096 * ?i < 4096 * pages_of (seg_off vbase h) (seg_len h)"
    using pages_of_covers [of "seg_off vbase h" "seg_len h"] assms(2) by linarith
  then show i: "?i < pages_of (seg_off vbase h) (seg_len h)" by simp
  have "unat (?v + of_nat j) div 4096 = unat ?v div 4096 + ?i" unfolding u by simp
  moreover have "unat ((?v + of_nat j) AND NOT (mask 12)) = 4096 * (unat (?v + of_nat j) div 4096)"
    by (simp add: unat_and_not_mask minus_mod_eq_mult_div)
  ultimately show "(?v + of_nat j) AND NOT (mask 12) = seg_page vbase h ?i" using g(3) [of ?i] i by (simp add: word_unat_eq_iff)
  show "(?v + of_nat j) AND mask 12 = of_nat ((seg_off vbase h + j) mod 4096)"
    by (simp add: word_unat_eq_iff unat_and_mask u unat_of_nat)
qed

lemma segment_flags_copied:
  assumes "crates_ok C" "c \<in> {0, COPIED}"
  shows "(segment_flags C h OR c) AND all_entry_flags = segment_flags C h OR c"
proof -
  have "c AND all_entry_flags = c" using assms(2) by (auto simp: COPIED_def all_entry_flags_def)
  then show ?thesis using segment_flags_ok(3) [OF assms(1), of h] by (simp add: bit.conj_disj_distrib2)
qed

context identity_mapper
begin

lemma segment_loadedI:
  assumes h: "header_ok vbase kstart h"
    and pages: "\<And>i. i < pages_of (seg_off vbase h) (seg_len h) \<Longrightarrow> seg_page_done m0 vbase kstart h root m a i"
  shows "segment_loaded C P root m0 m vbase kstart h"
  unfolding segment_loaded_def
proof (intro allI impI)
  fix j assume j: "j < seg_len h"
  let ?i = "(seg_off vbase h + j) div 4096" and ?b = "(seg_off vbase h + j) mod 4096"
  note s = seg_address_page [OF h j]
  from pages [OF s(3)] obtain f c where f: "c \<in> {0, COPIED}"
      "mmu root m (page_indices C (seg_page vbase h ?i)) = Some (Small f (f OR (segment_flags C h OR c)))" "solid root m a f"
      "\<And>b. b < 4096 \<Longrightarrow> seg_content m0 vbase kstart h ?i b (read_byte m (f + of_nat b))" by (auto simp: page_shows_def)
  have "(f OR (segment_flags C h OR c)) AND all_entry_flags = segment_flags C h OR c"
    using f(3) frame_flags_split segment_flags_copied [OF crates f(1)] by (auto simp: solid_at_def)
  then have "translate_address C P m root (vbase + ph_virtual_addr h + of_nat j) = Some (f + of_nat ?b, segment_flags C h OR c)"
    using f(2) s(1,2) by (simp add: translate_address_def)
  moreover have "read_byte m (f + of_nat ?b) = seg_byte m0 kstart h j"
    using f(4) [of ?b] j by (simp add: seg_content_def)
  ultimately show "\<exists>p c. c \<in> {0, COPIED} \<and>
      translate_address C P m root (vbase + ph_virtual_addr h + of_nat j) = Some (p, segment_flags C h OR c) \<and>
      read_byte m p = seg_byte m0 kstart h j" using f(1) by blast
qed

end

section \<open>Relocations\<close>

text \<open>A page whose frame holds data, not a table.\<close>

definition data_page :: "crates \<Rightarrow> frame_mapping \<Rightarrow> VirtualAddress \<Rightarrow> table_memory \<Rightarrow> Page \<Rightarrow> PhysicalFrame \<Rightarrow> bool" where
  "data_page C P root m page f \<longleftrightarrow>
     (\<exists>e. mmu_lookup P m root (page_indices C page) = Some (Small f e)) \<and> frame_bits_ok f \<and> f \<noteq> 0 \<and> f \<notin> tables P root m"

context identity_mapper
begin

lemma data_page_translate:
  assumes "tables_ok P usable root m" "data_page C P root m page f"
  shows "\<exists>fl. translate_4KiB C P root m page = Inr (Inr (f, fl))"
proof -
  from assms(2) obtain e where e: "mmu root m (page_indices C page) = Some (Small f e)" by (auto simp: data_page_def)
  show ?thesis using translate_4KiB_spec [OF assms(1) mmu_Small_no_huge [OF e]] e by simp
qed

text \<open>Writing bytes of a data page.\<close>

lemma data_page_write:
  assumes ok: "tables_ok P usable root m" and f: "data_page C P root m page f" and b: "b + length bs \<le> 4096"
  defines "m' \<equiv> write_bytes m (f + of_nat b) bs"
  shows "tables_ok P usable root m'" "indices_ok ix \<Longrightarrow> mmu root m' ix = mmu root m ix" "tables P root m' = tables P root m"
    and "data_page C P root m q g \<Longrightarrow> data_page C P root m' q g"
    and "path_ok w \<Longrightarrow> j < 512 \<Longrightarrow> entry_of P m' root w j = entry_of P m root w j"
proof -
  have fb: "frame_bits_ok f" "f \<notin> tables P root m" using f by (auto simp: data_page_def)
  have same: "m' x = m x" if "x AND NOT (mask 12) \<in> tables P root m" for x
    unfolding m'_def by (rule frame_write(1) [OF frame_bits_page_aligned [OF fb(1)] b]) (use that fb(2) in auto)
  note d = data_write [OF ok, of m', OF same]
  show "tables_ok P usable root m'" "indices_ok ix \<Longrightarrow> mmu root m' ix = mmu root m ix" "tables P root m' = tables P root m"
    and "path_ok w \<Longrightarrow> j < 512 \<Longrightarrow> entry_of P m' root w j = entry_of P m root w j"
    using d by simp_all
  show "data_page C P root m q g \<Longrightarrow> data_page C P root m' q g"
    using d(2) d(4) [OF _ indices_ok_page] by (simp add: data_page_def)
qed

lemma relocation_turn_first:
  assumes ok: "tables_ok P usable root m" and f: "data_page C P root m (va AND NOT (mask 12)) f"
    and bs: "length bs = 8" and b: "b = unat va mod 4096" and fit: "unat va + 8192 < 2 ^ 64" and n: "n = min 8 (4096 - b)"
  shows "relocation_turn C P root va bs (va AND NOT (mask 12)) (m, 0) = Inr (write_bytes m (f + of_nat b) (take n bs), n)"
proof -
  let ?p = "va AND NOT (mask 12)"
  obtain fl where t: "translate_4KiB C P root m ?p = Inr (Inr (f, fl))" using data_page_translate [OF ok f] by blast
  have up: "unat ?p = unat va - b" "b \<le> unat va" "b < 4096" using b by (simp_all add: unat_and_not_mask)
  have off: "(if va > ?p then VirtualAddress_distance va ?p else Inr 0) = Inr (of_nat b)"
  proof (cases "b = 0")
    case True
    then have "?p = va" using up by (simp add: word_unat_eq_iff)
    then show ?thesis using True by simp
  next
    case False
    then have "?p < va" using up by (simp add: word_less_nat_alt)
    moreover from this have "va - ?p = of_nat b" using up by (simp add: word_unat_eq_iff unat_sub unat_of_nat)
    ultimately show ?thesis by (simp add: VirtualAddress_distance_def checked_sub_def)
  qed
  have ve: "VirtualAddress_add va (of_nat (length bs)) = Inr (va + 8)" "unat (va + 8) = unat va + 8"
    using fit bs by (simp_all add: VirtualAddress_add_def op_add_def unat_plus_nowrap)
  have pe: "Page_end Size4KiB ?p = Inr (?p + 0x1000)" "unat (?p + 0x1000) = unat ?p + 4096"
    using fit up by (simp_all add: Page_end_def VirtualAddress_add_def op_add_def unat_plus_nowrap)
  have gt: "va + 8 > ?p + 0x1000 \<longleftrightarrow> 4096 - b < 8" using ve(2) pe(2) up by (auto simp: word_less_nat_alt)
  have le: "va \<le> ?p + 0x1000" using pe(2) up by (simp add: word_le_nat_alt)
  have di: "unat (?p + 0x1000 - va) = 4096 - b" using le pe(2) up by (simp add: unat_sub)
  have fb: "frame_bits_ok f" "f \<noteq> 0" using f by (auto simp: data_page_def)
  note fa = frame_address(3) [OF frame_bits_page_aligned [OF fb(1)] up(3)]
  have ad: "op_add f (of_nat b) = Inr (f + of_nat b)" using fa up(3) by (simp add: op_add_eq_Inr unat_of_nat)
  have nz: "f + of_nat b \<noteq> 0" using fa fb(2) by (metis add_is_0 unat_0 unat_eq_zero)
  show ?thesis
    unfolding relocation_turn_def
    using t off ve(1) pe(1) gt le di ad nz bs n
    by (auto simp: VirtualAddress_distance_def checked_sub_def ptr_write_def min_def)
qed

lemma relocation_turn_second:
  assumes ok: "tables_ok P usable root m" and f: "data_page C P root m p f"
    and bs: "length bs = 8" and p: "unat p = unat va - unat va mod 4096 + 4096" and fit: "unat va + 16384 < 2 ^ 64" and n: "n \<le> 8"
  shows "relocation_turn C P root va bs p (m, n) = Inr (write_bytes m f (drop n bs), 8)"
proof -
  obtain fl where t: "translate_4KiB C P root m p = Inr (Inr (f, fl))" using data_page_translate [OF ok f] by blast
  have m: "unat va mod 4096 < 4096" "unat va mod 4096 \<le> unat va" by simp_all
  have "\<not> va > p" using p m by (simp add: word_less_nat_alt)
  moreover have ve: "VirtualAddress_add va (of_nat (length bs)) = Inr (va + 8)" "unat (va + 8) = unat va + 8"
    using fit bs by (simp_all add: VirtualAddress_add_def op_add_def unat_plus_nowrap)
  moreover have pe: "Page_end Size4KiB p = Inr (p + 0x1000)" "unat (p + 0x1000) = unat p + 4096"
    using fit p m by (simp_all add: Page_end_def VirtualAddress_add_def op_add_def unat_plus_nowrap)
  moreover have "\<not> va + 8 > p + 0x1000" using ve(2) pe(2) p m by (simp add: word_less_nat_alt)
  moreover have "op_add f 0 = Inr f" by (simp add: op_add_eq_Inr)
  moreover have "f \<noteq> 0" using f by (simp add: data_page_def)
  ultimately show ?thesis
    unfolding relocation_turn_def using t bs n by (simp add: ptr_write_def)
qed

end

lemma page_of_offset:
  fixes va :: u64
  assumes "b = unat va mod 4096" "unat va + 8192 < 2 ^ 64" "j \<le> 8"
  shows "(va + of_nat j) AND NOT (mask 12) = (if b + j < 4096 then va AND NOT (mask 12) else (va AND NOT (mask 12)) + 0x1000)"
    and "unat ((va AND NOT (mask 12)) + 0x1000) = unat va - b + 4096"
proof -
  let ?V = "unat va div 4096"
  have v: "unat va = 4096 * ?V + b" "b < 4096" using assms(1) by simp_all
  have "unat (of_nat j :: u64) = j" using assms(3) by (simp add: unat_of_nat)
  then have "unat (va + of_nat j) = unat va + j" using assms(2,3) unat_plus_nowrap [of va "of_nat j"] by simp
  then have u: "unat (va + of_nat j) = 4096 * ?V + (b + j)" using v(1) by linarith
  have p: "unat (va AND NOT (mask 12)) = 4096 * ?V" by (simp add: unat_and_not_mask minus_mod_eq_mult_div)
  then have p1: "unat ((va AND NOT (mask 12)) + 0x1000) = 4096 * (?V + 1)" using assms(2) v by (simp add: unat_plus_nowrap)
  then show "unat ((va AND NOT (mask 12)) + 0x1000) = unat va - b + 4096" using v by simp
  have "unat ((va + of_nat j) AND NOT (mask 12)) = 4096 * (unat (va + of_nat j) div 4096)"
    by (simp add: unat_and_not_mask minus_mod_eq_mult_div)
  also have "unat (va + of_nat j) div 4096 = ?V + (if b + j < 4096 then 0 else 1)"
    unfolding u using v(2) assms(3) by (auto intro!: div_nat_eqI)
  finally show "(va + of_nat j) AND NOT (mask 12) = (if b + j < 4096 then va AND NOT (mask 12) else (va AND NOT (mask 12)) + 0x1000)"
    using p p1 by (simp add: word_unat_eq_iff)
qed

text \<open>The two parts of a write across a page boundary.\<close>

lemma two_part_write:
  fixes m :: table_memory
  assumes al: "page_aligned Size4KiB f" "page_aligned Size4KiB g" and bs: "length bs = 8" and b: "4088 \<le> b" "b < 4096" and n: "n = 4096 - b"
  defines "m' \<equiv> write_bytes (write_bytes m (f + of_nat b) (take n bs)) g (drop n bs)"
  defines "at \<equiv> \<lambda>j. if b + j < 4096 then f + of_nat (b + j) else g + of_nat (b + j - 4096)"
  shows "j < 8 \<Longrightarrow> read_byte m' (at j) = bs ! j" "(\<And>j. j < 8 \<Longrightarrow> x \<noteq> at j) \<Longrightarrow> read_byte m' x = read_byte m x"
proof -
  let ?m1 = "write_bytes m (f + of_nat b) (take n bs)"
  have n8: "0 < n" "n \<le> 8" "b + n = 4096" using b n by simp_all
  have ln: "b + length (take n bs) \<le> 4096" "0 + length (drop n bs) \<le> 4096" using bs n8 by simp_all
  note w1 = frame_write(2) [OF al(1) ln(1), of _ m] and w2 = frame_write(2) [OF al(2) ln(2), of _ ?m1, simplified, folded m'_def]
  show "read_byte m' (at j) = bs ! j" if j: "j < 8"
  proof (cases "b + j < 4096")
    case True
    have ne: "f + of_nat (b + j) \<noteq> g + of_nat i" if "i < length (drop n bs)" for i
    proof
      assume e: "f + of_nat (b + j) = g + of_nat i"
      have i: "i < 4096" "i < b + j" using that bs n8 b by simp_all
      have "of_nat (b + j) = (of_nat i :: u64)"
        using arg_cong [OF e, of "\<lambda>x. x AND mask 12"] frame_address(2) [OF al(1) True] frame_address(2) [OF al(2) i(1)] by simp
      then show False using of_nat_inj_u64 [of "b + j" i] True i by simp
    qed
    have "read_byte m' (f + of_nat (b + j)) = read_byte ?m1 (f + of_nat (b + j))"
      unfolding m'_def by (rule read_write_bytes_outside) (use ne in blast)
    then show ?thesis using w1 [OF True] True n8 bs by (simp add: at_def)
  next
    case False
    then have "b + j - 4096 = j - n" "n \<le> j" "j - n < 4096" "j - n < 8 - n" using n8 j by linarith+
    then show ?thesis using w2 [of "j - n"] False j bs n8 by (simp add: at_def)
  qed
  show "read_byte m' x = read_byte m x" if x: "\<And>j. j < 8 \<Longrightarrow> x \<noteq> at j"
  proof -
    have ng: "x \<noteq> g + of_nat i" if "i < length (drop n bs)" for i
    proof -
      have ni: "b + (n + i) - 4096 = i" "\<not> b + (n + i) < 4096" "n + i < 8" using that bs n8 by simp_all
      have "at (n + i) = g + of_nat i" unfolding at_def if_not_P [OF ni(2)] ni(1) ..
      with x [OF ni(3)] show ?thesis by metis
    qed
    have nf: "x \<noteq> f + of_nat b + of_nat i" if "i < length (take n bs)" for i
      using x [of i] that bs n8 by (simp add: at_def add.assoc)
    have "read_byte m' x = read_byte ?m1 x" unfolding m'_def by (rule read_write_bytes_outside) (use ng in blast)
    also have "\<dots> = read_byte m x" by (rule read_write_bytes_outside) (use nf in blast)
    finally show ?thesis .
  qed
qed

context identity_mapper
begin

lemma data_page_address:
  assumes "data_page C P root m ((va + of_nat j) AND NOT (mask 12)) f" "b = unat va mod 4096" "unat va + j < 2 ^ 64"
  shows "\<exists>fl. translate_address C P m root (va + of_nat j) = Some (f + of_nat ((b + j) mod 4096), fl)"
proof -
  have "unat (of_nat j :: u64) = j" using assms(3) by (simp add: unat_of_nat)
  then have "unat (va + of_nat j) = unat va + j" using assms(3) by (simp add: unat_plus_nowrap)
  then have "unat ((va + of_nat j) AND mask 12) = (b + j) mod 4096" using assms(2) by (simp add: unat_and_mask mod_simps)
  then have "(va + of_nat j) AND mask 12 = of_nat ((b + j) mod 4096)" by (simp add: word_unat_eq_iff unat_of_nat)
  with assms(1) show ?thesis by (auto simp: translate_address_def data_page_def)
qed

lemma handle_relocation_eq:
  assumes "re_addend entry = Some ad" "unat vbase + unat ad < 2 ^ 64" "unat vbase + unat (re_offset entry) + 16384 < 2 ^ 64"
    and va: "va = vbase + re_offset entry" and b: "b = unat va mod 4096"
  shows "handle_relative_relocation C P root vbase entry m =
    rbind (rfold (relocation_turn C P root va (to_le_bytes 8 (vbase + ad)))
      ((va AND NOT (mask 12)) # (if b + 8 < 4096 then [] else [(va AND NOT (mask 12)) + 0x1000])) (m, 0)) (\<lambda>(m, _). Inr m)"
proof -
  let ?p = "va AND NOT (mask 12)" and ?q = "(va + 8) AND NOT (mask 12)"
  have uv: "unat va = unat vbase + unat (re_offset entry)" using assms(3) va by (simp add: unat_plus_nowrap)
  have ops: "op_add vbase ad = Inr (vbase + ad)" "op_add vbase (re_offset entry) = Inr va" "op_add va 8 = Inr (va + 8)"
    using assms(2,3) va uv by (simp_all add: op_add_def)
  have u8: "unat (va + 8) = unat va + 8" using uv assms(3) by (simp add: unat_plus_nowrap)
  have stop: "unat ?q + unat (SIZE Size4KiB) < 2 ^ 64" using u8 uv assms(3) by (simp add: unat_and_not_mask)
  have "range_items Size4KiB ?p ?q = map (\<lambda>i. ?p + of_nat i * SIZE Size4KiB) [0 ..< pages_of b 9]"
    by (rule segment_items) (use u8 uv assms(3) b in simp_all)
  moreover have "pages_of b 9 = (if b + 8 < 4096 then 1 else 2)"
    unfolding pages_of_def using b mod_less_divisor [of 4096 "unat va"] by (auto intro!: div_nat_eqI)
  ultimately have it: "range_items Size4KiB ?p ?q = ?p # (if b + 8 < 4096 then [] else [?p + 0x1000])"
    by (simp add: numeral_2_eq_2)
  show ?thesis
    unfolding handle_relative_relocation_def using assms(1) ops
    by (simp add: VirtualAddress_add_def page_range_for_items [OF stop] it del: rfold.simps)
qed

lemma relocation_step:
  assumes ok: "tables_ok P usable root m"
    and ad: "re_addend entry = Some ad" "unat vbase + unat ad < 2 ^ 64" "unat vbase + unat (re_offset entry) + 16384 < 2 ^ 64"
    and va: "va = vbase + re_offset entry"
    and pages: "data_page C P root m (va AND NOT (mask 12)) f" "data_page C P root m ((va + 8) AND NOT (mask 12)) g"
  shows "\<exists>m'. handle_relative_relocation C P root vbase entry m = Inr m' \<and> tables_ok P usable root m' \<and>
     tables P root m' = tables P root m \<and> (\<forall>ix. indices_ok ix \<longrightarrow> mmu root m' ix = mmu root m ix) \<and>
     (\<forall>q j. path_ok q \<and> j < 512 \<longrightarrow> entry_of P m' root q j = entry_of P m root q j) \<and>
     (\<forall>j < 8. \<exists>p fl. translate_address C P m root (va + of_nat j) = Some (p, fl) \<and> read_byte m' p = to_le_bytes 8 (vbase + ad) ! j) \<and>
     (\<forall>x. (\<forall>j < 8. \<forall>fl. translate_address C P m root (va + of_nat j) \<noteq> Some (x, fl)) \<longrightarrow> read_byte m' x = read_byte m x)"
proof -
  define b bs where "b = unat va mod 4096" and "bs = to_le_bytes 8 (vbase + ad)"
  define n where "n = min 8 (4096 - b)"
  have lb: "length bs = 8" by (simp add: bs_def)
  have b: "b < 4096" by (simp add: b_def)
  have uv: "unat va = unat vbase + unat (re_offset entry)" using ad(3) va by (simp add: unat_plus_nowrap)
  have fit: "unat va + 16384 < 2 ^ 64" "unat va + 8192 < 2 ^ 64" using uv ad(3) by simp_all
  note po = page_of_offset [OF b_def fit(2)]
  have al: "page_aligned Size4KiB f" "page_aligned Size4KiB g" using pages frame_bits_page_aligned by (auto simp: data_page_def)
  note eq = handle_relocation_eq [OF ad va b_def, folded bs_def]
  have l1: "b + length (take n bs) \<le> 4096" using b lb by (simp add: n_def)
  define m1 where "m1 = write_bytes m (f + of_nat b) (take n bs)"
  note t1 = relocation_turn_first [OF ok pages(1) lb b_def fit(2) n_def, folded m1_def]
  note d1 = data_page_write [OF ok pages(1) l1, folded m1_def]
  let ?at = "\<lambda>j. if b + j < 4096 then f + of_nat (b + j) else g + of_nat (b + j - 4096)"
  have addr: "\<exists>fl. translate_address C P m root (va + of_nat j) = Some ((if b + j < 4096 then f + of_nat (b + j) else g + of_nat (b + j - 4096)), fl)"
    if "j < 8" for j
  proof -
    have "data_page C P root m ((va + of_nat j) AND NOT (mask 12)) (if b + j < 4096 then f else g)"
      using po(1) [of j] po(1) [of 8] pages that by (simp split: if_splits)
    moreover have "(b + j) mod 4096 = (if b + j < 4096 then b + j else b + j - 4096)" using that b by (simp add: mod_if)
    moreover have "unat va + j < 2 ^ 64" using that fit by simp
    ultimately obtain fl where "translate_address C P m root (va + of_nat j) =
        Some ((if b + j < 4096 then f else g) + of_nat (if b + j < 4096 then b + j else b + j - 4096), fl)"
      using data_page_address [OF _ b_def, of root m j "if b + j < 4096 then f else g"] by auto
    then show ?thesis by (cases "b + j < 4096") (simp_all only: if_True if_False, blast+)
  qed
  have fin: "(\<forall>j < 8. \<exists>p fl. translate_address C P m root (va + of_nat j) = Some (p, fl) \<and> read_byte m' p = to_le_bytes 8 (vbase + ad) ! j) \<and>
     (\<forall>x. (\<forall>j < 8. \<forall>fl. translate_address C P m root (va + of_nat j) \<noteq> Some (x, fl)) \<longrightarrow> read_byte m' x = read_byte m x)"
    if rd: "\<forall>j < 8. read_byte m' (?at j) = bs ! j" and out: "\<forall>x. (\<forall>j < 8. x \<noteq> ?at j) \<longrightarrow> read_byte m' x = read_byte m x" for m'
  proof (intro conjI allI impI)
    show "\<exists>p fl. translate_address C P m root (va + of_nat j) = Some (p, fl) \<and> read_byte m' p = to_le_bytes 8 (vbase + ad) ! j" if j: "j < 8" for j
      using addr [OF j] rd j unfolding bs_def by blast
    show "read_byte m' x = read_byte m x" if x: "\<forall>j < 8. \<forall>fl. translate_address C P m root (va + of_nat j) \<noteq> Some (x, fl)" for x
    proof -
      have "x \<noteq> ?at j" if "j < 8" for j using addr [OF that] x that by blast
      then show ?thesis using out by blast
    qed
  qed
  show ?thesis
  proof (cases "b + 8 < 4096")
    case True
    then have n: "n = 8" "take n bs = bs" using lb by (simp_all add: n_def)
    have h: "handle_relative_relocation C P root vbase entry m = Inr m1" using eq t1 True by simp
    have rd: "read_byte m1 (f + of_nat (b + j)) = bs ! j" if "j < 8" for j
      using frame_write(2) [OF al(1) l1, of "b + j" m] True that lb n by (simp add: m1_def)
    have out: "read_byte m1 x = read_byte m x" if "\<And>j. j < 8 \<Longrightarrow> x \<noteq> f + of_nat (b + j)" for x
      unfolding m1_def by (rule read_write_bytes_outside) (use that lb n in \<open>simp add: add.assoc\<close>)
    have "?at j = f + of_nat (b + j)" if "j < 8" for j using True that by simp
    with rd out have "\<forall>j < 8. read_byte m1 (?at j) = bs ! j" "\<forall>x. (\<forall>j < 8. x \<noteq> ?at j) \<longrightarrow> read_byte m1 x = read_byte m x" by simp_all
    from fin [OF this] show ?thesis using h d1(1-3,5) by (intro exI [of _ m1]) (simp del: split_paired_All)
  next
    case False
    have n: "n = 4096 - b" "n \<le> 8" "4088 \<le> b" using False by (simp_all add: n_def)
    have g: "data_page C P root m1 ((va AND NOT (mask 12)) + 0x1000) g"
      using d1(4) pages(2) po(1) [of 8] False by simp
    define m2 where "m2 = write_bytes m1 g (drop n bs)"
    have t2: "relocation_turn C P root va bs ((va AND NOT (mask 12)) + 0x1000) (m1, n) = Inr (m2, 8)"
      using relocation_turn_second [OF d1(1) g lb _ fit(1) n(2)] po(2) [of 0] by (simp add: b_def m2_def)
    have h: "handle_relative_relocation C P root vbase entry m = Inr m2" using eq t1 t2 False by simp
    have "0 + length (drop n bs) \<le> 4096" using lb by simp
    note d2 = data_page_write [OF d1(1) g this, simplified, folded m2_def]
    note w = two_part_write [OF al lb n(3) b n(1), where m = m, folded m1_def m2_def]
    have "\<forall>j < 8. read_byte m2 (?at j) = bs ! j" "\<forall>x. (\<forall>j < 8. x \<noteq> ?at j) \<longrightarrow> read_byte m2 x = read_byte m x"
      using w by blast+
    from fin [OF this] show ?thesis using h d1(2,3,5) d2(1-3,5) by (intro exI [of _ m2]) (simp del: split_paired_All)
  qed
qed

end

end
