(* ===== verification/Kernel_Loading.thy ===== *)
theory Kernel_Loading
  imports Elf_Relocation Boot_Info
begin

text \<open>
  Loading the kernel as a whole, in the setting of stage 4: physical memory is mapped one to one and the
  frames come from the memory map of the BIOS. The parser of the file calls \<open>allocate\<close>, \<open>load\<close> for
  every segment and \<open>relocate\<close> for every entry, in this order, as the documentation of \<open>elfloader\<close> says;
  afterwards every byte of the kernel is at its virtual address.
\<close>

section \<open>All relocations\<close>

definition physical_of :: "crates \<Rightarrow> frame_mapping \<Rightarrow> table_memory \<Rightarrow> VirtualAddress \<Rightarrow> VirtualAddress \<Rightarrow> PhysicalAddress option" where
  "physical_of C P m root va = map_option fst (translate_address C P m root va)"

text \<open>
  The byte at the physical address \<open>x\<close> after the relocations, \<open>v\<close> being the byte before them and \<open>T\<close> the
  translation of virtual addresses.
\<close>

definition reloc_one :: "(VirtualAddress \<Rightarrow> PhysicalAddress option) \<Rightarrow> u64 \<Rightarrow> RelocationEntry \<Rightarrow> PhysicalAddress \<Rightarrow> u8 \<Rightarrow> u8" where
  "reloc_one T vbase r x v =
     (case find (\<lambda>j. T (vbase + re_offset r + of_nat j) = Some x) [0 ..< 8] of
        None \<Rightarrow> v
      | Some j \<Rightarrow> to_le_bytes 8 (vbase + the (re_addend r)) ! j)"

primrec reloc_byte :: "(VirtualAddress \<Rightarrow> PhysicalAddress option) \<Rightarrow> u64 \<Rightarrow> RelocationEntry list \<Rightarrow> PhysicalAddress \<Rightarrow> u8 \<Rightarrow> u8" where
  "reloc_byte T vbase [] x v = v"
| "reloc_byte T vbase (r # rs) x v = reloc_byte T vbase rs x (reloc_one T vbase r x v)"

text \<open>A relocation the loader can deal with, on the pages \<open>pgs\<close>.\<close>

definition relocation_ok :: "u64 \<Rightarrow> Page set \<Rightarrow> RelocationEntry \<Rightarrow> bool" where
  "relocation_ok vbase pgs r \<longleftrightarrow> re_type r = R_AMD64_RELATIVE \<and>
     (case re_addend r of None \<Rightarrow> False | Some ad \<Rightarrow> unat vbase + unat ad < 2 ^ 64) \<and>
     unat vbase + unat (re_offset r) + 16384 < 2 ^ 64 \<and>
     (vbase + re_offset r) AND NOT (mask 12) \<in> pgs \<and> (vbase + re_offset r + 8) AND NOT (mask 12) \<in> pgs"

lemma find_hit:
  assumes "\<And>j. j < 8 \<Longrightarrow> \<exists>p. T (va + of_nat j) = Some p \<and> rd p = bs ! j"
    and "(\<And>j. j < 8 \<Longrightarrow> T (va + of_nat j) \<noteq> Some x) \<Longrightarrow> rd x = v"
  shows "rd x = (case find (\<lambda>j. T (va + of_nat j) = Some x) [0 ..< 8] of None \<Rightarrow> v | Some j \<Rightarrow> bs ! j)"
proof (cases "find (\<lambda>j. T (va + of_nat j) = Some x) [0 ..< 8]")
  case None
  then have "T (va + of_nat j) \<noteq> Some x" if "j < 8" for j using that by (simp add: find_None_iff)
  from assms(2) [OF this] show ?thesis by (simp add: None)
next
  case (Some j)
  then have "j < 8" "T (va + of_nat j) = Some x" by (auto simp: find_Some_iff)
  with Some assms(1) show ?thesis by fastforce
qed

context identity_mapper
begin

lemma translate_address_cong:
  assumes "\<And>ix. indices_ok ix \<Longrightarrow> mmu root m' ix = mmu root m ix"
  shows "translate_address C P m' root = translate_address C P m root" "physical_of C P m' root = physical_of C P m root"
proof -
  show t: "translate_address C P m' root = translate_address C P m root"
    using assms [OF indices_ok_page] by (simp add: translate_address_def fun_eq_iff)
  show "physical_of C P m' root = physical_of C P m root" by (simp add: physical_of_def t fun_eq_iff)
qed

lemma relocate_step:
  assumes ok: "tables_ok P usable root m" and r: "relocation_ok vbase pgs r"
    and pages: "\<And>p. p \<in> pgs \<Longrightarrow> \<exists>f. data_page C P root m p f"
  shows "\<exists>m'. relocate C P root vbase r (m, a) = Inr (m', a) \<and> tables_ok P usable root m' \<and>
     tables P root m' = tables P root m \<and> (\<forall>ix. indices_ok ix \<longrightarrow> mmu root m' ix = mmu root m ix) \<and>
     (\<forall>q j. path_ok q \<and> j < 512 \<longrightarrow> entry_of P m' root q j = entry_of P m root q j) \<and>
     (\<forall>x. read_byte m' x = reloc_one (physical_of C P m root) vbase r x (read_byte m x))"
proof -
  from r obtain ad where ad: "re_type r = R_AMD64_RELATIVE" "re_addend r = Some ad" "unat vbase + unat ad < 2 ^ 64"
      "unat vbase + unat (re_offset r) + 16384 < 2 ^ 64"
      "(vbase + re_offset r) AND NOT (mask 12) \<in> pgs" "(vbase + re_offset r + 8) AND NOT (mask 12) \<in> pgs"
    by (auto simp: relocation_ok_def split: option.splits)
  from pages ad(5,6) obtain f g where "data_page C P root m ((vbase + re_offset r) AND NOT (mask 12)) f"
      "data_page C P root m ((vbase + re_offset r + 8) AND NOT (mask 12)) g" by blast
  from relocation_step [OF ok ad(2-4) refl this] obtain m' where
    1: "handle_relative_relocation C P root vbase r m = Inr m'" "tables_ok P usable root m'"
      "tables P root m' = tables P root m" "\<forall>ix. indices_ok ix \<longrightarrow> mmu root m' ix = mmu root m ix"
      "\<forall>q j. path_ok q \<and> j < 512 \<longrightarrow> entry_of P m' root q j = entry_of P m root q j"
    and rd: "\<And>j. j < 8 \<Longrightarrow> \<exists>p fl. translate_address C P m root (vbase + re_offset r + of_nat j) = Some (p, fl) \<and>
        read_byte m' p = to_le_bytes 8 (vbase + ad) ! j"
    and out: "\<And>x. (\<And>j fl. j < 8 \<Longrightarrow> translate_address C P m root (vbase + re_offset r + of_nat j) \<noteq> Some (x, fl)) \<Longrightarrow>
        read_byte m' x = read_byte m x" by blast
  have "read_byte m' x = reloc_one (physical_of C P m root) vbase r x (read_byte m x)" for x
    unfolding reloc_one_def ad(2) option.sel
  proof (rule find_hit)
    show "\<exists>p. physical_of C P m root (vbase + re_offset r + of_nat j) = Some p \<and> read_byte m' p = to_le_bytes 8 (vbase + ad) ! j"
      if "j < 8" for j using rd [OF that] by (auto simp: physical_of_def)
    show "read_byte m' x = read_byte m x" if "\<And>j. j < 8 \<Longrightarrow> physical_of C P m root (vbase + re_offset r + of_nat j) \<noteq> Some x"
      by (rule out) (use that in \<open>fastforce simp: physical_of_def\<close>)
  qed
  then show ?thesis using 1 ad(1) by (auto simp: relocate_def simp del: split_paired_All)
qed

lemma relocates_step:
  assumes "tables_ok P usable root m" "\<And>r. r \<in> set rs \<Longrightarrow> relocation_ok vbase pgs r"
    and "\<And>p. p \<in> pgs \<Longrightarrow> \<exists>f. data_page C P root m p f"
  shows "\<exists>m'. rfold (relocate C P root vbase) rs (m, a) = Inr (m', a) \<and> tables_ok P usable root m' \<and>
     tables P root m' = tables P root m \<and> (\<forall>ix. indices_ok ix \<longrightarrow> mmu root m' ix = mmu root m ix) \<and>
     (\<forall>q j. path_ok q \<and> j < 512 \<longrightarrow> entry_of P m' root q j = entry_of P m root q j) \<and>
     (\<forall>x. read_byte m' x = reloc_byte (physical_of C P m root) vbase rs x (read_byte m x))"
  using assms
proof (induction rs arbitrary: m)
  case (Cons r rs)
  have ok: "relocation_ok vbase pgs r" "\<And>r. r \<in> set rs \<Longrightarrow> relocation_ok vbase pgs r" using Cons.prems(2) by simp_all
  from relocate_step [OF Cons.prems(1) ok(1) Cons.prems(3), of a] obtain m1 where
    1: "relocate C P root vbase r (m, a) = Inr (m1, a)" "tables_ok P usable root m1" "tables P root m1 = tables P root m"
      "\<And>ix. indices_ok ix \<Longrightarrow> mmu root m1 ix = mmu root m ix"
      "\<And>q j. path_ok q \<Longrightarrow> j < 512 \<Longrightarrow> entry_of P m1 root q j = entry_of P m root q j"
      "\<And>x. read_byte m1 x = reloc_one (physical_of C P m root) vbase r x (read_byte m x)"
    by blast
  have pg: "\<exists>f. data_page C P root m1 p f" if "p \<in> pgs" for p
    using Cons.prems(3) [OF that] 1(3) 1(4) [OF indices_ok_page] by (simp add: data_page_def)
  from Cons.IH [OF 1(2) ok(2) pg] obtain m2 where
    2: "rfold (relocate C P root vbase) rs (m1, a) = Inr (m2, a)" "tables_ok P usable root m2" "tables P root m2 = tables P root m1"
      "\<And>ix. indices_ok ix \<Longrightarrow> mmu root m2 ix = mmu root m1 ix"
      "\<And>q j. path_ok q \<Longrightarrow> j < 512 \<Longrightarrow> entry_of P m2 root q j = entry_of P m1 root q j"
      "\<And>x. read_byte m2 x = reloc_byte (physical_of C P m1 root) vbase rs x (read_byte m1 x)"
    by blast
  have "physical_of C P m1 root = physical_of C P m root" by (rule translate_address_cong(2)) (rule 1(4))
  then show ?case using 1 2 by (auto simp del: split_paired_All)
qed simp

end

section \<open>The kernel is loaded\<close>

text \<open>
  What \<open>ElfBinary::load\<close> of the crate does with a file that has the loadable headers \<open>hs\<close>, the raw
  segments \<open>loads\<close>, the relocation entries \<open>rs\<close> and no thread-local storage.
\<close>

definition elf_file ::
    "('e, 's) elf_crate \<Rightarrow> 'e \<Rightarrow> ProgramHeader list \<Rightarrow> (u64 \<times> u8 list) list \<Rightarrow> RelocationEntry list \<Rightarrow> bool" where
  "elf_file E e hs loads rs \<longleftrightarrow>
     (\<forall>L st. ElfBinary_load E e L st =
        rbind (elf_allocate L hs st) (\<lambda>st.
        rbind (rfold (\<lambda>(va, bytes). elf_load L va bytes) loads st) (\<lambda>st.
        rbind (rfold (elf_relocate L) rs st) (\<lambda>st. Inr (True, st)))))"

definition seg_pages :: "u64 \<Rightarrow> ProgramHeader list \<Rightarrow> Page set" where
  "seg_pages vbase hs = (\<Union>h \<in> set hs. seg_page vbase h ` {..< pages_of (seg_off vbase h) (seg_len h)})"

text \<open>An image the loader can load: the pages are apart and not yet mapped, the frames of the file hold data.\<close>

definition image_ok ::
    "crates \<Rightarrow> frame_mapping \<Rightarrow> ('a \<Rightarrow> PhysicalFrame set) \<Rightarrow> VirtualAddress \<Rightarrow> table_memory \<Rightarrow> 'a \<Rightarrow> u64 \<Rightarrow> u64 \<Rightarrow>
     ProgramHeader list \<Rightarrow> RelocationEntry list \<Rightarrow> bool" where
  "image_ok C P avail root m a vbase kstart hs rs \<longleftrightarrow>
     (\<forall>h \<in> set hs. header_ok vbase kstart h) \<and> distinct (concat (map (seg_indices C vbase) hs)) \<and>
     (\<forall>p \<in> seg_pages vbase hs. no_huge_above_page C P root m p \<and> mmu_lookup P m root (page_indices C p) = None) \<and>
     (\<forall>h \<in> set hs. \<forall>i < pages_of (seg_off vbase h) (unat (ph_file_size h)). solid_at P avail root m a (seg_frame kstart h i)) \<and>
     (\<forall>r \<in> set rs. relocation_ok vbase (seg_pages vbase hs) r)"

text \<open>Every byte of every segment is at its virtual address, relocated.\<close>

definition kernel_loaded ::
    "crates \<Rightarrow> frame_mapping \<Rightarrow> VirtualAddress \<Rightarrow> table_memory \<Rightarrow> table_memory \<Rightarrow> u64 \<Rightarrow> u64 \<Rightarrow> ProgramHeader list \<Rightarrow> RelocationEntry list \<Rightarrow> bool" where
  "kernel_loaded C P root m0 m vbase kstart hs rs \<longleftrightarrow>
     (\<forall>h \<in> set hs. \<forall>j < seg_len h. \<exists>p c. c \<in> {0, COPIED} \<and>
        translate_address C P m root (vbase + ph_virtual_addr h + of_nat j) = Some (p, segment_flags C h OR c) \<and>
        read_byte m p = reloc_byte (physical_of C P m root) vbase rs p (seg_byte m0 kstart h j))"

definition solid_page :: "crates \<Rightarrow> frame_mapping \<Rightarrow> ('a \<Rightarrow> PhysicalFrame set) \<Rightarrow> VirtualAddress \<Rightarrow> table_memory \<Rightarrow> 'a \<Rightarrow> Page \<Rightarrow> bool" where
  "solid_page C P avail root m a page \<longleftrightarrow>
     (\<exists>f e. mmu_lookup P m root (page_indices C page) = Some (Small f e) \<and> solid_at P avail root m a f)"

text \<open>The loader takes frames, but no data and no place of a table.\<close>

definition grown_at ::
    "crates \<Rightarrow> frame_mapping \<Rightarrow> ('a \<Rightarrow> PhysicalFrame set) \<Rightarrow> VirtualAddress \<Rightarrow> table_memory \<Rightarrow> 'a \<Rightarrow> table_memory \<Rightarrow> 'a \<Rightarrow> bool" where
  "grown_at C P avail root m a m' a' \<longleftrightarrow> avail a' \<subseteq> avail a \<and>
     (\<forall>page. no_huge_above_page C P root m page \<longrightarrow> no_huge_above_page C P root m' page) \<and>
     (\<forall>f. solid_at P avail root m a f \<longrightarrow> solid_at P avail root m' a' f)"

context identity_mapper
begin

abbreviation grown where "grown \<equiv> grown_at C P avail"

lemma step_grown: "step S root m a m' a' \<Longrightarrow> grown root m a m' a'"
  using no_huge_keeps keeps_solid(1) keepsD(1) stepD(1) unfolding grown_at_def by metis

lemma grown_trans: "grown root m a m1 a1 \<Longrightarrow> grown root m1 a1 m2 a2 \<Longrightarrow> grown root m a m2 a2"
  by (auto simp: grown_at_def)

lemma loads_ignored:
  "rfold (\<lambda>(va, bytes). elf_load (KernelLoader C P allocate root vbase kstart) va bytes) loads st = Inr st"
  by (induction loads) (auto simp: KernelLoader_def KernelLoader_load_def)

lemma segments_relocated:
  assumes "segment_loaded C P root m0 m1 vbase kstart h" "h \<in> set hs"
    and "\<And>ix. indices_ok ix \<Longrightarrow> mmu root m2 ix = mmu root m1 ix"
    and "\<And>x. read_byte m2 x = reloc_byte (physical_of C P m1 root) vbase rs x (read_byte m1 x)" "j < seg_len h"
  shows "\<exists>p c. c \<in> {0, COPIED} \<and>
        translate_address C P m2 root (vbase + ph_virtual_addr h + of_nat j) = Some (p, segment_flags C h OR c) \<and>
        read_byte m2 p = reloc_byte (physical_of C P m2 root) vbase rs p (seg_byte m0 kstart h j)"
proof -
  note t = translate_address_cong [OF assms(3)]
  from assms(1,5) obtain p c where "c \<in> {0, COPIED}"
    "translate_address C P m1 root (vbase + ph_virtual_addr h + of_nat j) = Some (p, segment_flags C h OR c)"
    "read_byte m1 p = seg_byte m0 kstart h j" unfolding segment_loaded_def by blast
  then show ?thesis using assms(4) [of p] t by (intro exI [of _ p] exI [of _ c]) simp
qed

lemma load_kernel_step:
  assumes r: "ready root m a" and s: "can_supply allocate (frames_needed vbase hs + n) a"
    and E: "ptr_read m kstart (unat ksize) = Inr kern" "ElfBinary_new E kern = Some e" "elf_file E e hs loads rs"
       "unat vbase + unat (entry_point E e) < 2 ^ 64"
    and im: "image_ok C P avail root m a vbase kstart hs rs"
  shows "\<exists>m' a'. load_kernel E C P allocate root vbase kstart ksize (m, a) = Inr (vbase + entry_point E e, m', a') \<and>
     ready root m' a' \<and> can_supply allocate n a' \<and> grown root m a m' a' \<and>
     root_kept P (l4_index C ` seg_pages vbase hs) root m m' \<and>
     (\<forall>ix. indices_ok ix \<and> ix \<notin> page_indices C ` seg_pages vbase hs \<longrightarrow> mmu root m' ix = mmu root m ix) \<and>
     (\<forall>p \<in> seg_pages vbase hs. solid_page C P avail root m' a' p) \<and>
     kernel_loaded C P root m m' vbase kstart hs rs"
proof -
  let ?t = "\<lambda>h. pages_of (seg_off vbase h) (seg_len h)" and ?ix = "set (concat (map (seg_indices C vbase) hs))"
  have ix: "?ix = page_indices C ` seg_pages vbase hs" by (auto simp: set_seg_indices seg_pages_def)
  have pg: "seg_page vbase h i \<in> seg_pages vbase hs" if "h \<in> set hs" "i < ?t h" for h i using that by (auto simp: seg_pages_def)
  note i = im [unfolded image_ok_def]
  have ok: "header_ok vbase kstart h" if "h \<in> set hs" for h using i that by blast
  have "\<exists>m' a'. allocate_headers C P allocate root vbase kstart hs (m, a) = Inr (m', a') \<and>
     step ?ix root m a m' a' \<and> can_supply allocate n a' \<and>
     (\<forall>h \<in> set hs. \<forall>i < ?t h. seg_page_done m vbase kstart h root m' a' i)"
    by (rule allocate_headers_step [OF r s ok]) (use i pg in \<open>auto simp: set_seg_indices\<close>)
  then obtain m1 a1 where 1: "allocate_headers C P allocate root vbase kstart hs (m, a) = Inr (m1, a1)" "step ?ix root m a m1 a1"
     "can_supply allocate n a1" "\<And>h i. h \<in> set hs \<Longrightarrow> i < ?t h \<Longrightarrow> seg_page_done m vbase kstart h root m1 a1 i" by blast
  note r1 = stepD(2) [OF 1(2)]
  have sp: "solid_page C P avail root m1 a1 p" if "p \<in> seg_pages vbase hs" for p
    using that 1(4) unfolding seg_pages_def solid_page_def page_shows_def by blast
  then have dp: "\<exists>f. data_page C P root m1 p f" if "p \<in> seg_pages vbase hs" for p
    using that by (fastforce simp: data_page_def solid_page_def solid_at_def)
  have ro: "relocation_ok vbase (seg_pages vbase hs) x" if "x \<in> set rs" for x using i that by blast
  from relocates_step [OF readyD(1) [OF r1] ro dp, where a = a1] obtain m2 where
    2: "rfold (relocate C P root vbase) rs (m1, a1) = Inr (m2, a1)" "tables_ok P usable root m2" "tables P root m2 = tables P root m1"
      "\<And>ix. indices_ok ix \<Longrightarrow> mmu root m2 ix = mmu root m1 ix"
      "\<And>q j. path_ok q \<Longrightarrow> j < 512 \<Longrightarrow> entry_of P m2 root q j = entry_of P m1 root q j"
      "\<And>x. read_byte m2 x = reloc_byte (physical_of C P m1 root) vbase rs x (read_byte m1 x)" by blast
  have "load_kernel E C P allocate root vbase kstart ksize (m, a) = Inr (vbase + entry_point E e, m2, a1)"
    using E 1(1) 2(1) loads_ignored [of root vbase kstart loads "(m1, a1)"]
    by (simp add: load_kernel_def elf_file_def KernelLoader_def op_add_def expect_def)
  moreover have "ready root m2 a1" using r1 2(2,3) by (simp add: mapper_ready_def fresh_frames_def)
  moreover have "grown root m1 a1 m2 a1"
    using 2(3) 2(5) table_index_less [OF crates] by (simp add: grown_at_def solid_at_def no_huge_above_page_def path_ok_def)
  then have "grown root m a m2 a1" by (rule grown_trans [OF step_grown [OF 1(2)]])
  moreover have "root_kept P {} root m1 m2" by (rule root_keptI) (simp add: 2(5) path_ok_def)
  then have "root_kept P (l4_index C ` seg_pages vbase hs) root m m2"
    by (rule root_kept_trans [OF stepD(4) [OF 1(2) [unfolded ix]]]) (auto simp: page_indices_def)
  moreover have "mmu root m2 jx = mmu root m jx" if "indices_ok jx" "jx \<notin> page_indices C ` seg_pages vbase hs" for jx
    using 2(4) [OF that(1)] stepD(3) [OF 1(2) [unfolded ix] that] by simp
  moreover have "solid_page C P avail root m2 a1 p" if "p \<in> seg_pages vbase hs" for p
    using sp [OF that] 2(3) 2(4) [OF indices_ok_page] by (simp add: solid_page_def solid_at_def)
  moreover have "kernel_loaded C P root m m2 vbase kstart hs rs"
    unfolding kernel_loaded_def
    using segments_relocated [OF segment_loadedI [OF ok 1(4)] _ 2(4,6)] by blast
  ultimately show ?thesis using 1(3) by blast
qed

end

end
