(* ===== verification/Stage4_Main.thy ===== *)
theory Stage4_Main
  imports Kernel_Loading Memory_Maps Interrupts Registers
begin

text \<open>
  The last stage of the boot loader (\<open>stage4/src/main.rs\<close>): it builds the page tables of the kernel, loads
  the kernel, gives it a stack, a table of segments and the boot information, maps the physical memory for
  it and jumps into it. Structures that other code reads as such (the memory map of the BIOS, the boot
  information and its regions) are kept as values at their addresses, everything else is bytes of memory.
  The text printed on the way is left out.
\<close>

section \<open>Constants and registers\<close>

definition KERNEL_VIRTUAL_BASE :: u64 where "KERNEL_VIRTUAL_BASE = 0xffffffff80000000"
definition KERNEL_STACK_TOP :: u64 where "KERNEL_STACK_TOP = 0xffffffff00000000"
definition KERNEL_STACK_SIZE :: u64 where "KERNEL_STACK_SIZE = 128 * 1024"
definition PHYSICAL_MEMORY_OFFSET :: u64 where "PHYSICAL_MEMORY_OFFSET = 10 * 1024 ^ 4"

definition stage4_interrupts_init :: "crates \<Rightarrow> (kernel_handler \<Rightarrow> u64) \<Rightarrow> u64 \<Rightarrow> cpu \<Rightarrow> cpu" where
  "stage4_interrupts_init C addr idt_ptr s =
     s\<lparr>cpu_idtr := InterruptTableDescriptor_for (stage4_IDT C (CS_read s) addr) idt_ptr\<rparr>"

definition enable_nxe_bit :: "crates \<Rightarrow> cpu \<Rightarrow> cpu" where
  "enable_nxe_bit C = Efer_update C (\<lambda>val. flags_union C val NO_EXECUTE_ENABLE)"

definition enable_write_protect_bit :: "crates \<Rightarrow> cpu \<Rightarrow> cpu" where
  "enable_write_protect_bit C = Cr0_update C (\<lambda>val. flags_union C val WRITE_PROTECT)"

section \<open>The stack, the way into the kernel and the table of segments\<close>

definition data_flags :: "crates \<Rightarrow> PageTableEntryFlags" where
  "data_flags C = flags_union C (flags_union C PRESENT WRITABLE) NO_EXECUTE"

definition allocate_and_map_stack ::
    "crates \<Rightarrow> frame_mapping \<Rightarrow> 'a allocate \<Rightarrow> VirtualAddress \<Rightarrow> table_memory \<times> 'a \<Rightarrow>
     (VirtualAddress \<times> table_memory \<times> 'a) res" where
  "allocate_and_map_stack C P allocate page_table st =
     rbind (Page_containing_address Size4KiB KERNEL_STACK_TOP) (\<lambda>end_page.
     rbind (op_sub KERNEL_STACK_TOP KERNEL_STACK_SIZE) (\<lambda>bottom.
     rbind (Page_containing_address Size4KiB bottom) (\<lambda>start_page.
     rbind (page_range_for Size4KiB (map_fresh_page C P allocate page_table (data_flags C)) (start_page, end_page) st) (\<lambda>st.
     rbind (VirtualAddress_sub start_page (SIZE Size4KiB)) (\<lambda>below.
     rbind (Page_containing_address Size4KiB below) (\<lambda>guard_page.
     rbind (rassert (guard_page \<noteq> start_page)) (\<lambda>_.
     rbind (map_fresh_page C P allocate page_table NONE guard_page st) (\<lambda>st.
     Inr (end_page, st)))))))))"

text \<open>\<open>context_switch_address\<close> is the address of the function \<open>context_switch\<close>.\<close>

definition identity_map_context_switch_function ::
    "crates \<Rightarrow> frame_mapping \<Rightarrow> 'a allocate \<Rightarrow> VirtualAddress \<Rightarrow> u64 \<Rightarrow> table_memory \<times> 'a \<Rightarrow> (table_memory \<times> 'a) res" where
  "identity_map_context_switch_function C P allocate page_table context_switch_address = (\<lambda>(m, a).
     rbind (PhysicalFrame_containing_address Size4KiB context_switch_address) (\<lambda>frame.
     expect_mapped (identity_map_4KiB C P allocate page_table frame PRESENT m a)))"

text \<open>The bytes of a table of segments: the entries and the field \<open>size\<close>.\<close>

definition gdt_bytes :: "GlobalDescriptorTable \<Rightarrow> u8 list" where
  "gdt_bytes gdt = concat (map (to_le_bytes 8) (gdt_entries gdt)) @ to_le_bytes 8 (of_nat (gdt_size gdt) :: u64)"

definition initialize_and_map_gdt ::
    "crates \<Rightarrow> frame_mapping \<Rightarrow> 'a allocate \<Rightarrow> VirtualAddress \<Rightarrow> cpu \<times> table_memory \<times> 'a \<Rightarrow> (cpu \<times> table_memory \<times> 'a) res" where
  "initialize_and_map_gdt C P allocate page_table = (\<lambda>(s, m, a).
     rbind (allocate a) (\<lambda>(fo, a).
     rbind (expect fo) (\<lambda>frame.
     rbind (stage4_GDT C) (\<lambda>gdt.
     rbind (ptr_write m frame (gdt_bytes gdt)) (\<lambda>m.
     let s = GlobalDescriptorTable_load gdt frame s in
     rbind (expect_mapped (identity_map_4KiB C P allocate page_table frame PRESENT m a)) (\<lambda>(m, a).
     Inr (s, m, a)))))))"

section \<open>The boot information\<close>

type_synonym boot_memory = "region_memory \<times> (u64 \<Rightarrow> BootInfo)"

text \<open>The sizes of \<open>BootInfo\<close> (24 + 40 + 16 + 8) and of the regions behind it.\<close>

definition BootInfo_size_of :: u64 where "BootInfo_size_of = 88"

primrec write_regions :: "u64 \<Rightarrow> nat \<Rightarrow> PhysicalMemoryRegion list \<Rightarrow> region_memory \<Rightarrow> region_memory" where
  "write_regions ptr idx [] rm = rm"
| "write_regions ptr idx (r # rs) rm =
     write_regions ptr (Suc idx) rs (rm(ptr + of_nat idx * PhysicalMemoryRegion_size_of := r))"

definition allocate_and_map_boot_info ::
    "crates \<Rightarrow> frame_mapping \<Rightarrow> 'a allocate \<Rightarrow> VirtualAddress \<Rightarrow> BiosInfo \<Rightarrow> E820MemoryRegion list \<Rightarrow>
     boot_memory \<times> table_memory \<times> 'a \<Rightarrow> (VirtualAddress \<times> boot_memory \<times> table_memory \<times> 'a) res" where
  "allocate_and_map_boot_info C P allocate page_table info e820_memory_map = (\<lambda>((rm, bm), m, a).
     rbind (allocate a) (\<lambda>(fo, a).
     rbind (expect fo) (\<lambda>frame.
     rbind (build_memory_map Size4KiB e820_memory_map frame) (\<lambda>memory_map.
     let usable_memory_regions_amount = length (filter (\<lambda>r. r \<noteq> None) memory_map);
         memory_regions_offset = BootInfo_size_of;
         combined_size = unat BootInfo_size_of + usable_memory_regions_amount * unat PhysicalMemoryRegion_size_of in
     rbind (rassert (combined_size \<le> unat (SIZE Size4KiB))) (\<lambda>_.
     rbind (PhysicalAddress_add frame memory_regions_offset) (\<lambda>memory_regions_ptr.
     let rm = write_regions memory_regions_ptr 0 (reported_regions memory_map) rm;
         memory_regions = PhysicalMemoryRegions_new memory_regions_ptr usable_memory_regions_amount;
         boot_info = BootInfo_new (bios_kernel info) (bios_framebuffer info) memory_regions PHYSICAL_MEMORY_OFFSET in
     if frame = 0 then Inl Undefined_Behaviour
     else let bm = bm(frame := boot_info) in
     rbind (Page_for_address Size4KiB frame) (\<lambda>page.
     rbind (expect_mapped (map_to_4KiB C P allocate page_table frame page PRESENT m a)) (\<lambda>(m, a).
     Inr (frame, (rm, bm), m, a)))))))))"

section \<open>The physical memory\<close>

definition map_physical_frame ::
    "crates \<Rightarrow> frame_mapping \<Rightarrow> 'a allocate \<Rightarrow> VirtualAddress \<Rightarrow> VirtualAddress \<Rightarrow> PhysicalFrame \<Rightarrow> table_memory \<times> 'a \<Rightarrow>
     (table_memory \<times> 'a) res" where
  "map_physical_frame C P allocate page_table offset frame = (\<lambda>(m, a).
     rbind (VirtualAddress_add offset frame) (\<lambda>address.
     rbind (Page_containing_address Size2MiB address) (\<lambda>page.
     expect_mapped (map_to_2MiB C P allocate page_table frame page (data_flags C) m a))))"

definition map_complete_physical_memory_space_into_kernel ::
    "crates \<Rightarrow> frame_mapping \<Rightarrow> 'a allocate \<Rightarrow> VirtualAddress \<Rightarrow> PhysicalAddress \<Rightarrow> VirtualAddress \<Rightarrow> table_memory \<times> 'a \<Rightarrow>
     (table_memory \<times> 'a) res" where
  "map_complete_physical_memory_space_into_kernel C P allocate page_table highest_physical_address offset st =
     rbind (PhysicalFrame_containing_address Size2MiB 0) (\<lambda>start.
     rbind (PhysicalFrame_containing_address Size2MiB highest_physical_address) (\<lambda>stop.
     rbind (rassert (offset mod SIZE Size2MiB = 0)) (\<lambda>_.
     frame_range_for Size2MiB (map_physical_frame C P allocate page_table offset) (start, stop) st)))"

section \<open>The jump\<close>

record kernel_entry =
  ke_rip :: u64
  ke_rsp :: u64
  ke_rdi :: u64
  ke_rbp :: u64

text \<open>
  \<open>code\<close> are the addresses of the instructions behind \<open>mov cr3\<close>: they are fetched through the new tables,
  and so is the word that is pushed. A fault there finds no handler.
\<close>

definition executable_address :: "crates \<Rightarrow> frame_mapping \<Rightarrow> table_memory \<Rightarrow> VirtualAddress \<Rightarrow> VirtualAddress \<Rightarrow> bool" where
  "executable_address C P m page_table ip \<longleftrightarrow>
     (case translate_address C P m page_table ip of None \<Rightarrow> False | Some (_, flags) \<Rightarrow> \<not> bit flags 63)"

definition context_switch ::
    "crates \<Rightarrow> frame_mapping \<Rightarrow> u64 list \<Rightarrow> u64 \<Rightarrow> u64 \<Rightarrow> u64 \<Rightarrow> u64 \<Rightarrow> cpu \<times> table_memory \<Rightarrow> (kernel_entry \<times> cpu \<times> table_memory) res" where
  "context_switch C P code page_table stack_top entry boot_info = (\<lambda>(s, m).
     let s = s\<lparr>cpu_cr3 := page_table\<rparr>;
         rsp = stack_top - 8 in
     if \<not> list_all (executable_address C P m page_table) code then Inl Undefined_Behaviour
     else case translate_address C P m page_table rsp of
        None \<Rightarrow> Inl Undefined_Behaviour
      | Some (address, flags) \<Rightarrow>
          if \<not> bit flags 1 then Inl Undefined_Behaviour
          else Inr (\<lparr>ke_rip = entry, ke_rsp = rsp, ke_rdi = boot_info, ke_rbp = 0\<rparr>, s,
                    write_bytes m address (replicate 8 0)))"

section \<open>Stage 4\<close>

definition E820_from_raw_parts :: "(u64 \<Rightarrow> E820MemoryRegion) \<Rightarrow> u64 \<Rightarrow> nat \<Rightarrow> E820MemoryRegion list" where
  "E820_from_raw_parts em address n = map (\<lambda>i. em (address + of_nat i * 24)) [0 ..< n]"

abbreviation e820_frames_allocator :: "E820MemoryRegion BumpFrameAllocator allocate" where
  "e820_frames_allocator \<equiv> bump_allocate_frame E820MemoryRegion_MemoryRegion"

type_synonym e820_allocator = "E820MemoryRegion BumpFrameAllocator"

definition stage4_start ::
    "('e, table_memory \<times> e820_allocator) elf_crate \<Rightarrow> crates \<Rightarrow> (kernel_handler \<Rightarrow> u64) \<Rightarrow> u64 \<Rightarrow> u64 \<Rightarrow> u64 list \<Rightarrow>
     (u64 \<Rightarrow> E820MemoryRegion) \<Rightarrow> BiosInfo \<Rightarrow> boot_memory \<Rightarrow> cpu \<Rightarrow> table_memory \<Rightarrow>
     (kernel_entry \<times> cpu \<times> boot_memory \<times> table_memory \<times> e820_allocator) res" where
  "stage4_start E C addr idt_ptr context_switch_address code em info bm s m =
     (let s = stage4_interrupts_init C addr idt_ptr s;
          s = enable_nxe_bit C s;
          s = enable_write_protect_bit C s;
          memory_map = E820_from_raw_parts em (memory_map_address info) (unat (memory_map_size info));
          P = PhysicalOffset_frame_to_virtual 0 in
      rbind (PhysicalFrame_containing_address Size4KiB (last_physical_address info)) (\<lambda>last_frame.
      rbind (PhysicalFrame_add Size4KiB last_frame 1) (\<lambda>next_free_frame.
      rbind (BumpFrameAllocator_new_starting_at E820MemoryRegion_MemoryRegion next_free_frame memory_map) (\<lambda>a.
      rbind (e820_frames_allocator a) (\<lambda>(fo, a).
      rbind (expect fo) (\<lambda>kernel_page_table_frame.
      rbind (PageTable_initialize_empty_at_address m kernel_page_table_frame) (\<lambda>m.
      rbind (load_kernel E C P e820_frames_allocator kernel_page_table_frame KERNEL_VIRTUAL_BASE
               (pmr_start (bios_kernel info)) (pmr_size (bios_kernel info)) (m, a)) (\<lambda>(kernel_entry_point, m, a).
      rbind (allocate_and_map_stack C P e820_frames_allocator kernel_page_table_frame (m, a)) (\<lambda>(stack_top, m, a).
      rbind (identity_map_context_switch_function C P e820_frames_allocator kernel_page_table_frame
               context_switch_address (m, a)) (\<lambda>(m, a).
      rbind (initialize_and_map_gdt C P e820_frames_allocator kernel_page_table_frame (s, m, a)) (\<lambda>(s, m, a).
      rbind (allocate_and_map_boot_info C P e820_frames_allocator kernel_page_table_frame info memory_map (bm, m, a))
        (\<lambda>(boot_info_address, bm, m, a).
      rbind (max_physical_address E820MemoryRegion_MemoryRegion a) (\<lambda>highest.
      rbind (map_complete_physical_memory_space_into_kernel C P e820_frames_allocator kernel_page_table_frame
               highest PHYSICAL_MEMORY_OFFSET (m, a)) (\<lambda>(m, a).
      rbind (context_switch C P code kernel_page_table_frame stack_top kernel_entry_point boot_info_address (s, m))
        (\<lambda>(ke, s, m). Inr (ke, s, bm, m, a))))))))))))))))"

end
