(* ===== verification/Stage4_Correct.thy ===== *)
theory Stage4_Correct
  imports Stage4_Main
begin

text \<open>
  Stage 4 prepares the kernel: the operations of \<open>Stage4_Main\<close> one after the other, each as a step that
  keeps the data and the pages of the ones before it.
\<close>

section \<open>Fresh pages\<close>

context identity_mapper
begin

lemma grows_step:
  assumes r: "ready root m a" and "ready root m' a'" "grows 3 root m a m' a'"
    and "\<And>ix. indices_ok ix \<Longrightarrow> ix \<notin> S \<Longrightarrow> mmu root m' ix = mmu root m ix" "root_kept P (fst ` S) root m m'"
  shows "step S root m a m' a'"
  using grows_keeps [OF r assms(3)] assms(2,4,5) by (simp add: step_at_def del: split_paired_All)

lemma fresh_solid:
  assumes r: "ready root m a" and f: "f \<in> avail a - avail a'" "projr (P f) \<notin> tables P root m'"
  shows "solid root m' a' f"
proof -
  have us: "usable f" using readyD(3) [OF r] f(1) by blast
  show ?thesis using f identity [OF us] usable_bits [OF us] to_virtual [OF us] by (auto simp: solid_at_def)
qed

lemma guard_page_step:
  assumes r: "ready root m a" and s: "can_supply allocate (4 + n) a" and h: "no_huge_above root m page"
    and un: "mmu root m (page_indices C page) = None"
  shows "\<exists>m' a'. map_fresh_page C P allocate root NONE page (m, a) = Inr (m', a') \<and>
     step {page_indices C page} root m a m' a' \<and> can_supply allocate n a' \<and> mmu root m' (page_indices C page) = None"
proof -
  have "flag_bits_ok NONE" by (simp add: flag_bits_ok_def NONE_def frame_of_def)
  from map_fresh_page_spec [OF r s h this un] obtain f m' a' where
    1: "map_fresh_page C P allocate root NONE page (m, a) = Inr (m', a')" "ready root m' a'" "grows 3 root m a m' a'" "can_supply allocate n a'"
      "root_kept P {l4_index C page} root m m'"
    and mm: "\<And>ix. indices_ok ix \<Longrightarrow> mmu root m' ix =
        (if ix = page_indices C page then if bit NONE 0 then Some (Small f (f OR NONE)) else None else mmu root m ix)" by blast
  have "step {page_indices C page} root m a m' a'" by (rule grows_step [OF r 1(2,3)]) (use mm 1(5) in \<open>simp_all add: page_indices_def\<close>)
  then show ?thesis using 1 mm [OF indices_ok_page] by (simp add: NONE_def)
qed

end

text \<open>The pages are mapped to the given frames, which are distinct and hold data.\<close>

definition pages_mapped ::
    "crates \<Rightarrow> frame_mapping \<Rightarrow> ('a \<Rightarrow> PhysicalFrame set) \<Rightarrow> PageTableEntryFlags \<Rightarrow> Page list \<Rightarrow> PhysicalFrame list \<Rightarrow>
     VirtualAddress \<Rightarrow> table_memory \<Rightarrow> 'a \<Rightarrow> bool" where
  "pages_mapped C P avail fl pages fs root m a \<longleftrightarrow> length fs = length pages \<and> distinct fs \<and>
     (\<forall>i < length pages. mmu_lookup P m root (page_indices C (pages ! i)) = Some (Small (fs ! i) (fs ! i OR fl)) \<and>
        solid_at P avail root m a (fs ! i))"

context identity_mapper
begin

lemma pages_mapped_step:
  assumes "pages_mapped C P avail fl pages fs root m a" "step S root m a m' a'" "S \<inter> page_indices C ` set pages = {}"
  shows "pages_mapped C P avail fl pages fs root m' a'"
proof -
  have "page_indices C (pages ! i) \<notin> S" if "i < length pages" for i using assms(3) nth_mem [OF that] by blast
  with step_lookup [OF assms(2)] keeps_solid(1) [OF stepD(1) [OF assms(2)]] assms(1) show ?thesis
    unfolding pages_mapped_def by simp
qed

lemma fresh_pages_step:
  assumes r: "ready root m a" and s: "can_supply allocate (4 * length pages + n) a"
    and h: "\<And>p. p \<in> set pages \<Longrightarrow> no_huge_above root m p" and fl: "flag_bits_ok flags" "bit flags 0"
    and un: "\<And>p. p \<in> set pages \<Longrightarrow> mmu root m (page_indices C p) = None" and ds: "distinct (map (page_indices C) pages)"
  shows "\<exists>fs m' a'. rfold (map_fresh_page C P allocate root flags) pages (m, a) = Inr (m', a') \<and>
     step (page_indices C ` set pages) root m a m' a' \<and> can_supply allocate n a' \<and> set fs \<subseteq> avail a \<and>
     pages_mapped C P avail flags pages fs root m' a'"
proof -
  from map_fresh_pages_spec [OF r s h fl(1) un ds] obtain fs m' a' where
    1: "rfold (map_fresh_page C P allocate root flags) pages (m, a) = Inr (m', a')" "ready root m' a'" "grows 3 root m a m' a'"
      "length fs = length pages" "distinct fs" "set fs \<subseteq> avail a - avail a'" "can_supply allocate n a'"
      "\<forall>f \<in> set fs. projr (P f) \<notin> tables P root m'" "root_kept P (l4_index C ` set pages) root m m'"
    and mm: "\<And>ix. indices_ok ix \<Longrightarrow> mmu root m' ix = mapped_pages C flags (zip pages fs) (mmu root m) ix" by blast
  have "mmu root m' ix = mmu root m ix" if "indices_ok ix" "ix \<notin> page_indices C ` set pages" for ix
    using mm [OF that(1)] mapped_pages_other [OF that(2) 1(4)] by simp
  moreover have "root_kept P (fst ` page_indices C ` set pages) root m m'" using 1(9) by (simp add: image_image page_indices_def)
  ultimately have st: "step (page_indices C ` set pages) root m a m' a'" by (rule grows_step [OF r 1(2,3)])
  have "mmu root m' (page_indices C (pages ! i)) = Some (Small (fs ! i) (fs ! i OR flags)) \<and> solid root m' a' (fs ! i)"
    if i: "i < length pages" for i
  proof -
    have "mmu root m' (page_indices C (pages ! i)) = Some (Small (fs ! i) (fs ! i OR flags))"
      using mm [OF indices_ok_page] mapped_pages_nth [OF ds 1(4) i fl(2)] by simp
    moreover have "fs ! i \<in> set fs" using i 1(4) by simp
    then have "solid root m' a' (fs ! i)" using 1(6,8) by (intro fresh_solid [OF r]) blast+
    ultimately show ?thesis ..
  qed
  then have "pages_mapped C P avail flags pages fs root m' a'" unfolding pages_mapped_def using 1(4,5) by blast
  then show ?thesis using 1(1,6,7) st by blast
qed

end

section \<open>The stack\<close>

definition stack_pages :: "Page list" where
  "stack_pages = map (\<lambda>i. 0xfffffffefffe0000 + of_nat i * SIZE Size4KiB) [0 ..< 33]"

definition stack_guard :: Page where
  "stack_guard = 0xfffffffefffdf000"

lemma data_flags_ok:
  assumes "crates_ok C"
  shows "data_flags C = 0x8000000000000003" "flag_bits_ok (data_flags C)" "bit (data_flags C) 0"
proof -
  show e: "data_flags C = 0x8000000000000003"
    using assms by (simp add: data_flags_def crates_okD PRESENT_def WRITABLE_def NO_EXECUTE_def)
  show "flag_bits_ok (data_flags C)" "bit (data_flags C) 0" unfolding e by (simp_all add: flag_bits_ok_def frame_of_def)
qed

lemma stack_range: "range_items Size4KiB 0xfffffffefffe0000 KERNEL_STACK_TOP = stack_pages"
  by (simp add: range_items_def stack_pages_def KERNEL_STACK_TOP_def)

lemma stack_pages_34: "stack_guard # stack_pages = map (\<lambda>i. stack_guard + of_nat i * SIZE Size4KiB) [0 ..< 34]"
proof -
  have "[0 ..< 34] = 0 # map Suc [0 ..< 33]" by (simp add: upt_rec map_Suc_upt)
  then show ?thesis by (simp add: stack_pages_def stack_guard_def algebra_simps)
qed

lemma distinct_stack_pages: "crates_ok C \<Longrightarrow> distinct (map (page_indices C) (stack_guard # stack_pages))"
  unfolding stack_pages_34 by (rule distinct_range_pages) (simp_all add: stack_guard_def page_aligned_def)

lemma allocate_and_map_stack_eq:
  "allocate_and_map_stack C P allocate root st =
     rbind (rfold (map_fresh_page C P allocate root (data_flags C)) stack_pages st) (\<lambda>st.
     rbind (map_fresh_page C P allocate root NONE stack_guard st) (\<lambda>st. Inr (KERNEL_STACK_TOP, st)))"
proof -
  have c: "Page_containing_address Size4KiB KERNEL_STACK_TOP = Inr KERNEL_STACK_TOP"
    "Page_containing_address Size4KiB 0xfffffffefffe0000 = Inr 0xfffffffefffe0000" "Page_containing_address Size4KiB stack_guard = Inr stack_guard"
    by (simp_all add: KERNEL_STACK_TOP_def stack_guard_def mask_eq_exp_minus_1)
  have d: "op_sub KERNEL_STACK_TOP KERNEL_STACK_SIZE = Inr 0xfffffffefffe0000"
    "VirtualAddress_sub 0xfffffffefffe0000 (SIZE Size4KiB) = Inr stack_guard" "rassert (stack_guard \<noteq> 0xfffffffefffe0000) = Inr ()"
    by (simp_all add: op_sub_def KERNEL_STACK_TOP_def KERNEL_STACK_SIZE_def VirtualAddress_sub_def checked_sub_def stack_guard_def)
  have l: "page_range_for Size4KiB body (0xfffffffefffe0000, KERNEL_STACK_TOP) st = rfold body stack_pages st" for body
    unfolding stack_range [symmetric] by (rule page_range_for_items) (simp add: KERNEL_STACK_TOP_def)
  show ?thesis by (simp only: allocate_and_map_stack_def c d rbind_Inr l)
qed

context identity_mapper
begin

lemma stack_step:
  assumes r: "ready root m a" and s: "can_supply allocate (136 + n) a"
    and h: "\<And>p. p \<in> set (stack_guard # stack_pages) \<Longrightarrow> no_huge_above root m p"
    and un: "\<And>p. p \<in> set (stack_guard # stack_pages) \<Longrightarrow> mmu root m (page_indices C p) = None"
  shows "\<exists>fs m' a'. allocate_and_map_stack C P allocate root (m, a) = Inr (KERNEL_STACK_TOP, m', a') \<and>
     step (page_indices C ` set (stack_guard # stack_pages)) root m a m' a' \<and> can_supply allocate n a' \<and> set fs \<subseteq> avail a \<and>
     pages_mapped C P avail (data_flags C) stack_pages fs root m' a' \<and> mmu root m' (page_indices C stack_guard) = None"
proof -
  have ds: "distinct (map (page_indices C) stack_pages)" "page_indices C stack_guard \<notin> page_indices C ` set stack_pages"
    using distinct_stack_pages [OF crates] by simp_all
  have "length stack_pages = 33" by (simp add: stack_pages_def)
  then have s': "can_supply allocate (4 * length stack_pages + (4 + n)) a" using s by simp
  from fresh_pages_step [OF r s' h data_flags_ok(2,3) [OF crates] un ds(1)] obtain fs m1 a1 where
    1: "rfold (map_fresh_page C P allocate root (data_flags C)) stack_pages (m, a) = Inr (m1, a1)"
     "step (page_indices C ` set stack_pages) root m a m1 a1" "can_supply allocate (4 + n) a1"
     "pages_mapped C P avail (data_flags C) stack_pages fs root m1 a1" "set fs \<subseteq> avail a" by auto
  have g: "no_huge_above root m1 stack_guard" "mmu root m1 (page_indices C stack_guard) = None"
    using no_huge_keeps [OF stepD(1) [OF 1(2)]] h step_lookup [OF 1(2) ds(2)] un by simp_all
  from guard_page_step [OF stepD(2) [OF 1(2)] 1(3) g] obtain m2 a2 where
    2: "map_fresh_page C P allocate root NONE stack_guard (m1, a1) = Inr (m2, a2)" "step {page_indices C stack_guard} root m1 a1 m2 a2"
      "can_supply allocate n a2" "mmu root m2 (page_indices C stack_guard) = None" by blast
  show ?thesis
    using 1(1,5) 2(1,3,4) step_trans [OF 1(2) 2(2)] pages_mapped_step [OF 1(4) 2(2)] ds(2)
    by (intro exI [of _ fs] exI [of _ m2] exI [of _ a2]) (simp add: allocate_and_map_stack_eq)
qed

section \<open>Identity mapped pages\<close>

lemma identity_page_step:
  assumes r: "ready root m a" and s: "can_supply allocate (3 + n) a" and f: "frame_bits_ok f"
    and h: "no_huge_above root m f" and un: "mmu root m (page_indices C f) = None"
  shows "\<exists>m' a'. expect_mapped (identity_map_4KiB C P allocate root f PRESENT m a) = Inr (m', a') \<and>
     step {page_indices C f} root m a m' a' \<and> can_supply allocate n a' \<and>
     mmu root m' (page_indices C f) = Some (Small f (f OR PRESENT))"
proof -
  have fl: "flag_bits_ok PRESENT" "bit PRESENT 0" by (simp_all add: flag_bits_ok_def frame_of_def PRESENT_def)
  have "Page_containing_address Size4KiB f = Inr f"
    using containing_aligned [OF frame_bits_page_aligned [OF f]] by simp
  then have e: "identity_map_4KiB C P allocate root f PRESENT m a = map_to_4KiB C P allocate root f f PRESENT m a"
    by (simp add: identity_map_4KiB_def)
  from map_page_step [OF r s h fl f un] show ?thesis unfolding e .
qed

lemma gdt_step:
  assumes r: "ready root m a" and s: "can_supply allocate (4 + n) a" and g: "stage4_GDT C = Inr gdt" "length (gdt_bytes gdt) \<le> 4096"
    and h: "\<And>f. f \<in> avail a \<Longrightarrow> no_huge_above root m f" and un: "\<And>f. f \<in> avail a \<Longrightarrow> mmu root m (page_indices C f) = None"
  shows "\<exists>f m' a'. initialize_and_map_gdt C P allocate root (s0, m, a) = Inr (GlobalDescriptorTable_load gdt f s0, m', a') \<and>
     step {page_indices C f} root m a m' a' \<and> can_supply allocate n a' \<and> f \<in> avail a - avail a' \<and>
     mmu root m' (page_indices C f) = Some (Small f (f OR PRESENT)) \<and> solid root m' a' f \<and>
     (\<forall>i < length (gdt_bytes gdt). read_byte m' (f + of_nat i) = gdt_bytes gdt ! i)"
proof -
  have "can_supply allocate (Suc (3 + n)) a" using s by (simp only: numeral_eq_Suc add_Suc pred_numeral_simps BitM.simps)
  then obtain f a1 where a1: "allocate a = Inr (Some f, a1)" "can_supply allocate (3 + n) a1"
    by (simp only: can_supply.simps) blast
  define m1 where "m1 = write_bytes m f (gdt_bytes gdt)"
  have fb: "frame_bits_ok f" "f \<noteq> 0" using allocate_solid(2) [OF r a1(1), of m] by (auto simp: solid_at_def)
  note pa = frame_bits_page_aligned [OF fb(1)]
  note w = frame_write [OF pa, of 0 "gdt_bytes gdt" _ m, simplified, OF g(2), folded m1_def]
  have w1: "m1 x = m x" if "x AND NOT (mask 12) \<noteq> f" for x using w(1) that by simp
  note 1 = allocate_solid [OF r a1(1), of m1, OF w1]
  have un1: "mmu root m1 (page_indices C f) = None" using step_lookup [OF 1(1), of f] un [OF 1(3)] by simp
  from identity_page_step [OF stepD(2) [OF 1(1)] a1(2) fb(1) no_huge_keeps [OF stepD(1) [OF 1(1)] h [OF 1(3)]] un1]
  obtain m' a' where 2: "expect_mapped (identity_map_4KiB C P allocate root f PRESENT m1 a1) = Inr (m', a')"
     "step {page_indices C f} root m1 a1 m' a'" "can_supply allocate n a'"
     "mmu root m' (page_indices C f) = Some (Small f (f OR PRESENT))" by blast
  have "initialize_and_map_gdt C P allocate root (s0, m, a) = Inr (GlobalDescriptorTable_load gdt f s0, m', a')"
    using a1(1) fb(2) 2(1) g(1) by (simp add: initialize_and_map_gdt_def ptr_write_def m1_def)
  moreover have "\<forall>i < length (gdt_bytes gdt). read_byte m' (f + of_nat i) = gdt_bytes gdt ! i"
    using keeps_solid(3) [OF stepD(1) [OF 2(2)] 1(2)] w(2) g(2) by simp
  moreover have so: "solid root m' a' f" using keeps_solid(1) [OF stepD(1) [OF 2(2)] 1(2)] .
  then have "f \<in> avail a - avail a'" using 1(3) by (auto simp: solid_at_def)
  ultimately show ?thesis using step_trans [OF 1(1) 2(2)] 2(3,4) so by auto
qed

end

section \<open>The boot information\<close>

lemma region_address_inj:
  assumes "i < 1000" "j < 1000" "(ptr :: u64) + of_nat i * 24 = ptr + of_nat j * 24"
  shows "i = j"
proof -
  have "of_nat (24 * i) = (of_nat (24 * j) :: u64)" using assms(3) by (simp add: mult.commute)
  then show ?thesis using of_nat_inj_u64 [of "24 * i" "24 * j"] assms(1,2) by simp
qed

lemma write_regions_read:
  "idx + length rs \<le> 1000 \<Longrightarrow> j < idx + length rs \<Longrightarrow>
     write_regions ptr idx rs rm (ptr + of_nat j * PhysicalMemoryRegion_size_of) =
       (if idx \<le> j then rs ! (j - idx) else rm (ptr + of_nat j * PhysicalMemoryRegion_size_of))"
proof (induction rs arbitrary: idx rm)
  case (Cons r rs)
  have ne: "ptr + of_nat j * PhysicalMemoryRegion_size_of \<noteq> ptr + of_nat idx * PhysicalMemoryRegion_size_of" if "j \<noteq> idx"
    using region_address_inj [of j idx ptr] Cons.prems that by (auto simp: PhysicalMemoryRegion_size_of_def)
  show ?case
  proof (cases "j < Suc idx + length rs")
    case True
    then have "write_regions ptr (Suc idx) rs (rm(ptr + of_nat idx * PhysicalMemoryRegion_size_of := r)) (ptr + of_nat j * PhysicalMemoryRegion_size_of) =
      (if Suc idx \<le> j then rs ! (j - Suc idx) else (rm(ptr + of_nat idx * PhysicalMemoryRegion_size_of := r)) (ptr + of_nat j * PhysicalMemoryRegion_size_of))"
      using Cons.prems by (intro Cons.IH) simp_all
    then show ?thesis using ne by (cases "j = idx") (auto simp: nth_Cons')
  qed (use Cons.prems in simp)
qed simp

lemma write_regions_deref:
  assumes "length rs \<le> 1000"
  shows "PhysicalMemoryRegions_deref (write_regions ptr 0 rs rm) (PhysicalMemoryRegions_new ptr (length rs)) = rs"
  using write_regions_read [of 0 rs] assms
  by (intro nth_equalityI) (simp_all add: PhysicalMemoryRegions_deref_def PhysicalMemoryRegions_new_def)

lemma index_set_length: "index_set xs i v = Inr ys \<Longrightarrow> length ys = length xs"
  by (auto simp: index_set_def split: if_splits)

lemma memory_map_turn_length:
  "memory_map_turn S f r (a, i) = Inr (a', i') \<Longrightarrow> length a' = length a"
  by (auto simp: memory_map_turn_def Let_def rbind_eq_Inr split: if_splits dest!: index_set_length)

lemma memory_map_turns_length:
  "rfold (memory_map_turn S f) rs (a, i) = Inr (a', i') \<Longrightarrow> length a' = length a"
proof (induction rs arbitrary: a i)
  case (Cons r rs)
  then obtain b j where "memory_map_turn S f r (a, i) = Inr (b, j)" "rfold (memory_map_turn S f) rs (b, j) = Inr (a', i')"
    by (auto simp: rbind_eq_Inr)
  then show ?case using Cons.IH memory_map_turn_length by metis
qed simp

lemma build_memory_map_length:
  assumes "build_memory_map S rs f = Inr mm"
  shows "length mm = 32" "length (filter (\<lambda>r. r \<noteq> None) mm) = length (reported_regions mm)" "length (reported_regions mm) \<le> 32"
proof -
  show l: "length mm = 32"
    using assms memory_map_turns_length by (fastforce simp: build_memory_map_def rbind_eq_Inr)
  show e: "length (filter (\<lambda>r. r \<noteq> None) mm) = length (reported_regions mm)"
    by (simp add: reported_regions_def List.map_filter_def)
  show "length (reported_regions mm) \<le> 32" using l length_filter_le [of "\<lambda>r. r \<noteq> None" mm] e by simp
qed

context identity_mapper
begin

lemma boot_info_step:
  assumes r: "ready root m a" and s: "can_supply allocate (4 + n) a"
    and h: "\<And>f. f \<in> avail a \<Longrightarrow> no_huge_above root m f" and un: "\<And>f. f \<in> avail a \<Longrightarrow> mmu root m (page_indices C f) = None"
    and bm: "\<And>f. f \<in> avail a \<Longrightarrow> \<exists>mm. build_memory_map Size4KiB rs f = Inr mm"
  shows "\<exists>f mm m' a'. build_memory_map Size4KiB rs f = Inr mm \<and>
     allocate_and_map_boot_info C P allocate root info rs ((rm, bm), m, a) =
       Inr (f, (write_regions (f + 88) 0 (reported_regions mm) rm,
            bm(f := BootInfo_new (bios_kernel info) (bios_framebuffer info)
                 (PhysicalMemoryRegions_new (f + 88) (length (reported_regions mm))) PHYSICAL_MEMORY_OFFSET)), m', a') \<and>
     step {page_indices C f} root m a m' a' \<and> can_supply allocate n a' \<and> f \<in> avail a - avail a' \<and>
     mmu root m' (page_indices C f) = Some (Small f (f OR PRESENT)) \<and> solid root m' a' f"
proof -
  have "can_supply allocate (Suc (3 + n)) a" using s by (simp only: numeral_eq_Suc add_Suc pred_numeral_simps BitM.simps)
  then obtain f a1 where a1: "allocate a = Inr (Some f, a1)" "can_supply allocate (3 + n) a1"
    by (simp only: can_supply.simps) blast
  note 1 = allocate_solid [OF r a1(1), of m, OF refl]
  have fb: "frame_bits_ok f" "f \<noteq> 0" using 1(2) by (auto simp: solid_at_def)
  note pa = frame_bits_page_aligned [OF fb(1)]
  obtain mm where mm: "build_memory_map Size4KiB rs f = Inr mm" using bm [OF 1(3)] by blast
  note l = build_memory_map_length [OF mm]
  have un1: "mmu root m (page_indices C f) = None" using un [OF 1(3)] .
  from identity_page_step [OF stepD(2) [OF 1(1)] a1(2) fb(1) h [OF 1(3)] un1]
  obtain m' a' where 2: "expect_mapped (identity_map_4KiB C P allocate root f PRESENT m a1) = Inr (m', a')"
     "step {page_indices C f} root m a1 m' a'" "can_supply allocate n a'"
     "mmu root m' (page_indices C f) = Some (Small f (f OR PRESENT))" by blast
  have e: "expect_mapped (map_to_4KiB C P allocate root f f PRESENT m a1) = Inr (m', a')"
    using 2(1) containing_aligned [OF pa] by (simp add: identity_map_4KiB_def)
  have "PhysicalAddress_add f 88 = Inr (f + 88)"
    using frame_address(3) [OF pa, of 88] by (simp add: PhysicalAddress_add_def op_add_eq_Inr)
  then have "allocate_and_map_boot_info C P allocate root info rs ((rm, bm), m, a) =
       Inr (f, (write_regions (f + 88) 0 (reported_regions mm) rm,
            bm(f := BootInfo_new (bios_kernel info) (bios_framebuffer info)
                 (PhysicalMemoryRegions_new (f + 88) (length (reported_regions mm))) PHYSICAL_MEMORY_OFFSET)), m', a')"
    using a1(1) fb(2) e mm l(2,3) Page_for_address_aligned [OF pa]
    by (simp add: allocate_and_map_boot_info_def BootInfo_size_of_def PhysicalMemoryRegion_size_of_def Let_def)
  moreover have so: "solid root m' a' f" using keeps_solid(1) [OF stepD(1) [OF 2(2)] 1(2)] .
  then have "f \<in> avail a - avail a'" using 1(3) by (auto simp: solid_at_def)
  ultimately show ?thesis using step_trans [OF 1(1) 2(2)] mm 2(3,4) so by (metis sup_bot.left_neutral)
qed

end

end
