(* ===== verification/Physical_Map.thy ===== *)
theory Physical_Map
  imports Stage4_Main
begin

text \<open>
  The mapping of the whole physical memory (\<open>map_complete_physical_memory_space_into_kernel\<close> of
  \<open>stage4/src/main.rs\<close>): afterwards every physical address up to the highest one is reached at the fixed
  offset, and nothing else changes.
\<close>

section \<open>Pages of two megabytes\<close>

definition big_indices :: "crates \<Rightarrow> Page \<Rightarrow> nat \<times> nat \<times> nat" where
  "big_indices C p = (l4_index C p, l3_index C p, l2_index C p)"

definition big_frame :: "nat \<Rightarrow> PhysicalFrame" where
  "big_frame i = of_nat i * SIZE Size2MiB"

lemma unat_big_frame: "i < 2 ^ 27 \<Longrightarrow> unat (big_frame i) = 2 ^ 21 * i"
proof -
  assume i: "i < 2 ^ 27"
  have "big_frame i = of_nat (2 ^ 21 * i)" by (simp add: big_frame_def)
  moreover have "unat (of_nat (2 ^ 21 * i) :: u64) = 2 ^ 21 * i" unfolding unat_of_nat by (rule mod_less) (use i in simp)
  ultimately show ?thesis by (simp only:)
qed

lemma big_indices_eq:
  assumes "crates_ok C"
  shows "big_indices C p = (unat p div 2 ^ 39 mod 512, unat p div 2 ^ 30 mod 512, unat p div 2 ^ 21 mod 512)"
  by (simp add: big_indices_def unat_index [OF assms])

text \<open>The indices are those of the number of the page of two megabytes.\<close>

lemma big_indices_number:
  assumes "crates_ok C" "unat p div 2 ^ 21 = k"
  shows "big_indices C p = (k div 2 ^ 18 mod 512, k div 2 ^ 9 mod 512, k mod 512)"
proof -
  have "unat p div 2 ^ 39 = k div 2 ^ 18" "unat p div 2 ^ 30 = k div 2 ^ 9"
    unfolding assms(2) [symmetric] div_mult2_eq [symmetric] by simp_all
  then show ?thesis using assms by (simp add: big_indices_eq)
qed

lemma number_inj:
  assumes "k < 2 ^ 27" "l < 2 ^ 27"
    and "(k div 2 ^ 18 mod 512, k div 2 ^ 9 mod 512, k mod 512) = (l div 2 ^ 18 mod 512, l div 2 ^ 9 mod 512, l mod (512 :: nat))"
  shows "k = l"
proof -
  have d: "x = 512 * (512 * (x div 2 ^ 18 mod 512) + x div 2 ^ 9 mod 512) + x mod 512" if "x < 2 ^ 27" for x :: nat
  proof -
    have "x div 2 ^ 18 < 512" using that by (simp add: less_mult_imp_div_less)
    moreover have "x div 2 ^ 18 = x div 512 div 512" by (simp add: div_mult2_eq [symmetric])
    ultimately show ?thesis by (simp add: mult_div_mod_eq)
  qed
  have e: "k div 2 ^ 18 mod 512 = l div 2 ^ 18 mod 512" "k div 2 ^ 9 mod 512 = l div 2 ^ 9 mod 512" "k mod 512 = l mod 512"
    using assms(3) by simp_all
  have "k = 512 * (512 * (l div 2 ^ 18 mod 512) + l div 2 ^ 9 mod 512) + l mod 512"
    by (rule trans [OF d [OF assms(1)]]) (simp only: e)
  also have "\<dots> = l" by (rule d [OF assms(2), symmetric])
  finally show ?thesis .
qed

context identity_mapper
begin

lemma physical_frame_step:
  assumes r: "ready root m a" and s: "can_supply allocate (2 + n) a"
    and page: "VirtualAddress_add offset f = Inr page" "page_aligned Size2MiB page" and f: "frame_bits_ok f"
    and h: "\<not> bit (entry_of P m root [] (l4_index C page)) 7" "\<not> bit (entry_of P m root [l4_index C page] (l3_index C page)) 7"
    and un: "\<not> bit (entry_of P m root [l4_index C page, l3_index C page] (l2_index C page)) 0"
    and fl: "flag_bits_ok (data_flags C)" "bit (data_flags C) 0"
  shows "\<exists>m' a'. map_physical_frame C P allocate root offset f (m, a) = Inr (m', a') \<and> ready root m' a' \<and> grows 2 root m a m' a' \<and>
     can_supply allocate n a' \<and> (entry_of P m root [] (l4_index C page) = 0 \<longrightarrow> took_table P (avail a) root m') \<and>
     (\<forall>q j. path_ok q \<and> j < 512 \<and> length q = 2 \<and> (q, j) \<noteq> ([l4_index C page, l3_index C page], l2_index C page) \<longrightarrow>
        entry_of P m' root q j = entry_of P m root q j) \<and>
     (\<forall>j4 j3 j2 j1. indices_ok (j4, j3, j2, j1) \<longrightarrow> mmu root m' (j4, j3, j2, j1) =
        (if (j4, j3, j2) = big_indices C page then Some (Huge f (f OR data_flags C OR HUGE_PAGE)) else mmu root m (j4, j3, j2, j1)))"
proof -
  have ca: "can_allocate allocate 2 a" using can_supply_le [OF s, of 2] by (intro can_supply_allocate) simp
  have e: "map_physical_frame C P allocate root offset f (m, a) =
      expect_mapped (map_to_2MiB C P allocate root f page (data_flags C) m a)"
    using page(1) containing_aligned [OF page(2)] by (simp add: map_physical_frame_def)
  from map_to_2MiB_grows [OF r ca h f fl(1)] obtain res m' a' where
    1: "map_to_2MiB C P allocate root f page (data_flags C) m a = Inr (res, m', a')" "ready root m' a'" "grows 2 root m a m' a'"
      "\<forall>q j. path_ok q \<and> j < 512 \<and> length q = 2 \<and> (q, j) \<noteq> ([l4_index C page, l3_index C page], l2_index C page) \<longrightarrow>
        entry_of P m' root q j = entry_of P m root q j"
      "(\<exists>pg. res = Inr pg) \<and> entry_of P m root [] (l4_index C page) = 0 \<longrightarrow> took_table P (avail a) root m'"
    and c: "case res of
        Inl err \<Rightarrow> (err = PageAlreadyMapped \<longrightarrow>
            bit (entry_of P m root [l4_index C page, l3_index C page] (l2_index C page)) 0) \<and>
          (\<forall>ix. indices_ok ix \<longrightarrow> mmu_lookup P m' root ix = mmu_lookup P m root ix)
      | Inr pg \<Rightarrow> pg = page \<and>
          (\<forall>j4 j3 j2 j1. indices_ok (j4, j3, j2, j1) \<longrightarrow> mmu_lookup P m' root (j4, j3, j2, j1) =
             (if (j4, j3, j2) = (l4_index C page, l3_index C page, l2_index C page)
              then if bit (data_flags C) 0 then Some (Huge f (f OR data_flags C OR HUGE_PAGE)) else None
              else mmu_lookup P m root (j4, j3, j2, j1)))" by blast
  note su = map_to_2MiB_supply [OF s 1(1)]
  from su c un obtain pg where pg: "res = Inr pg" by (cases res) (auto simp del: split_paired_All intro: MappingError.exhaust)
  with c fl(2) su 1 show ?thesis
    by (intro exI [of _ m'] exI [of _ a']) (simp add: e expect_mapped_def big_indices_def del: split_paired_All)
qed

end

section \<open>All pages\<close>

text \<open>The place where the processor looks up a page of two megabytes is free.\<close>

definition big_page_free :: "crates \<Rightarrow> frame_mapping \<Rightarrow> VirtualAddress \<Rightarrow> table_memory \<Rightarrow> Page \<Rightarrow> bool" where
  "big_page_free C P root m page \<longleftrightarrow>
     \<not> bit (entry_of P m root [] (l4_index C page)) 7 \<and>
     \<not> bit (entry_of P m root [l4_index C page] (l3_index C page)) 7 \<and>
     \<not> bit (entry_of P m root [l4_index C page, l3_index C page] (l2_index C page)) 0"

text \<open>The pages behind \<open>offset\<close> are mapped to the first \<open>k\<close> frames of two megabytes.\<close>

definition physical_mapped :: "crates \<Rightarrow> frame_mapping \<Rightarrow> VirtualAddress \<Rightarrow> nat \<Rightarrow> VirtualAddress \<Rightarrow> table_memory \<Rightarrow> bool" where
  "physical_mapped C P offset k root m \<longleftrightarrow>
     (\<forall>i < k. \<forall>j4 j3 j2 j1. (j4, j3, j2) = big_indices C (offset + big_frame i) \<longrightarrow> j1 < 512 \<longrightarrow>
        mmu_lookup P m root (j4, j3, j2, j1) = Some (Huge (big_frame i) (big_frame i OR data_flags C OR HUGE_PAGE)))"

lemma big_page_address:
  assumes "unat offset = 2 ^ 21 * K" "K + k \<le> 2 ^ 27" "i < k"
  shows "VirtualAddress_add offset (big_frame i) = Inr (offset + big_frame i)" "unat (offset + big_frame i) = 2 ^ 21 * (K + i)"
    and "page_aligned Size2MiB (offset + big_frame i)" "frame_bits_ok (big_frame i)"
proof -
  have u: "unat (big_frame i) = 2 ^ 21 * i" using assms by (intro unat_big_frame) simp
  have lt: "unat offset + unat (big_frame i) < 2 ^ 64" using assms u by simp
  then show "VirtualAddress_add offset (big_frame i) = Inr (offset + big_frame i)" by (simp add: VirtualAddress_add_def op_add_def)
  show p: "unat (offset + big_frame i) = 2 ^ 21 * (K + i)" using lt u assms(1) by (simp add: unat_plus_nowrap)
  then show "page_aligned Size2MiB (offset + big_frame i)" by (simp add: page_aligned_iff_dvd)
  show "frame_bits_ok (big_frame i)" by (rule frame_bits_okI) (use u assms in \<open>simp_all add: page_aligned_iff_dvd dvd_mult2\<close>)
qed

lemma big_page_inj:
  assumes "crates_ok C" "unat offset = 2 ^ 21 * K" "K + k \<le> 2 ^ 27" "i < k" "j < k"
    and "big_indices C (offset + big_frame i) = big_indices C (offset + big_frame j)"
  shows "i = j"
proof -
  have n: "unat (offset + big_frame x) div 2 ^ 21 = K + x" if "x < k" for x using big_page_address(2) [OF assms(2,3) that] by simp
  have "K + i < 2 ^ 27" "K + j < 2 ^ 27" using assms by simp_all
  from number_inj [OF this] big_indices_number [OF assms(1) n [OF assms(4)]] big_indices_number [OF assms(1) n [OF assms(5)]] assms(6)
  show ?thesis by simp
qed

context identity_mapper
begin

lemma physical_frames_step:
  assumes r: "ready root m a" and fl: "flag_bits_ok (data_flags C)" "bit (data_flags C) 0" and off: "unat offset = 2 ^ 21 * K"
  shows "K + k \<le> 2 ^ 27 \<Longrightarrow> can_supply allocate (2 * k + n) a \<Longrightarrow> (\<And>i. i < k \<Longrightarrow> big_page_free C P root m (offset + big_frame i)) \<Longrightarrow>
     \<exists>m' a'. rfold (map_physical_frame C P allocate root offset) (map big_frame [0 ..< k]) (m, a) = Inr (m', a') \<and>
       ready root m' a' \<and> grows 2 root m a m' a' \<and> can_supply allocate n a' \<and>
       (0 < k \<and> entry_of P m root [] (l4_index C offset) = 0 \<longrightarrow> took_table P (avail a) root m') \<and>
       (\<forall>j4 j3 j2. path_ok [j4, j3] \<and> j2 < 512 \<and> (j4, j3, j2) \<notin> (\<lambda>i. big_indices C (offset + big_frame i)) ` {..< k} \<longrightarrow>
          entry_of P m' root [j4, j3] j2 = entry_of P m root [j4, j3] j2) \<and>
       physical_mapped C P offset k root m' \<and>
       (\<forall>j4 j3 j2 j1. indices_ok (j4, j3, j2, j1) \<and> (j4, j3, j2) \<notin> (\<lambda>i. big_indices C (offset + big_frame i)) ` {..< k} \<longrightarrow>
          mmu root m' (j4, j3, j2, j1) = mmu root m (j4, j3, j2, j1))"
proof (induction k arbitrary: n)
  case 0
  then show ?case using r by (auto simp: grows_refl physical_mapped_def)
next
  case (Suc k)
  have s: "can_supply allocate (2 * k + (2 + n)) a" using Suc.prems(2) by (simp add: algebra_simps)
  have k: "K + k \<le> 2 ^ 27" using Suc.prems(1) by simp
  have fr: "big_page_free C P root m (offset + big_frame i)" if "i < k" for i using Suc.prems(3) that by simp
  let ?B = "(\<lambda>i. big_indices C (offset + big_frame i)) ` {..< k}" and ?p = "offset + big_frame k"
  from Suc.IH [OF k s fr] obtain m1 a1 where
    1: "rfold (map_physical_frame C P allocate root offset) (map big_frame [0 ..< k]) (m, a) = Inr (m1, a1)"
      "ready root m1 a1" "grows 2 root m a m1 a1" "can_supply allocate (2 + n) a1" "physical_mapped C P offset k root m1"
      "0 < k \<and> entry_of P m root [] (l4_index C offset) = 0 \<longrightarrow> took_table P (avail a) root m1"
    and e1: "\<And>j4 j3 j2. path_ok [j4, j3] \<Longrightarrow> j2 < 512 \<Longrightarrow> (j4, j3, j2) \<notin> ?B \<Longrightarrow>
          entry_of P m1 root [j4, j3] j2 = entry_of P m root [j4, j3] j2"
    and mm1: "\<And>j4 j3 j2 j1. indices_ok (j4, j3, j2, j1) \<Longrightarrow> (j4, j3, j2) \<notin> ?B \<Longrightarrow>
          mmu root m1 (j4, j3, j2, j1) = mmu root m (j4, j3, j2, j1)" by blast
  note pa = big_page_address [OF off Suc.prems(1) lessI]
  note ix = table_index_less [OF crates]
  have new: "big_indices C ?p \<notin> ?B"
  proof
    assume "big_indices C ?p \<in> ?B"
    then obtain i where "i < k" "big_indices C ?p = big_indices C (offset + big_frame i)" by blast
    with big_page_inj [OF crates off Suc.prems(1) lessI, of i] show False by simp
  qed
  have free: "big_page_free C P root m ?p" using Suc.prems(3) by simp
  have h: "\<not> bit (entry_of P m1 root [] (l4_index C ?p)) 7" "\<not> bit (entry_of P m1 root [l4_index C ?p] (l3_index C ?p)) 7"
    using growsD(4) [OF 1(3), of "[]" "l4_index C ?p"] growsD(4) [OF 1(3), of "[l4_index C ?p]" "l3_index C ?p"] free ix
    by (auto simp: big_page_free_def path_ok_def)
  have un: "\<not> bit (entry_of P m1 root [l4_index C ?p, l3_index C ?p] (l2_index C ?p)) 0"
    using e1 [of "l4_index C ?p" "l3_index C ?p" "l2_index C ?p"] new free ix by (simp add: big_page_free_def big_indices_def path_ok_def)
  from physical_frame_step [OF 1(2,4) pa(1,3,4) h un fl] obtain m2 a2 where
    2: "map_physical_frame C P allocate root offset (big_frame k) (m1, a1) = Inr (m2, a2)" "ready root m2 a2" "grows 2 root m1 a1 m2 a2"
      "can_supply allocate n a2" "entry_of P m1 root [] (l4_index C ?p) = 0 \<longrightarrow> took_table P (avail a1) root m2"
    and e2: "\<And>q j. path_ok q \<Longrightarrow> j < 512 \<Longrightarrow> length q = 2 \<Longrightarrow> (q, j) \<noteq> ([l4_index C ?p, l3_index C ?p], l2_index C ?p) \<Longrightarrow>
        entry_of P m2 root q j = entry_of P m1 root q j"
    and mm2: "\<And>j4 j3 j2 j1. indices_ok (j4, j3, j2, j1) \<Longrightarrow> mmu root m2 (j4, j3, j2, j1) =
        (if (j4, j3, j2) = big_indices C ?p then Some (Huge (big_frame k) (big_frame k OR data_flags C OR HUGE_PAGE))
         else mmu root m1 (j4, j3, j2, j1))" by blast
  have B: "(\<lambda>i. big_indices C (offset + big_frame i)) ` {..< Suc k} = insert (big_indices C ?p) ?B" by (simp add: lessThan_Suc)
  have "physical_mapped C P offset (Suc k) root m2"
    unfolding physical_mapped_def
  proof (intro allI impI)
    fix i j4 j3 j2 j1 :: nat assume i: "i < Suc k" "(j4, j3, j2) = big_indices C (offset + big_frame i)" "j1 < 512"
    have ok: "indices_ok (j4, j3, j2, j1)" using i(2,3) ix by (simp add: big_indices_def indices_ok_def)
    show "mmu root m2 (j4, j3, j2, j1) = Some (Huge (big_frame i) (big_frame i OR data_flags C OR HUGE_PAGE))"
    proof (cases "i = k")
      case False
      then have "i < k" using i(1) by simp
      moreover from this have "(j4, j3, j2) \<in> ?B" unfolding i(2) by (intro imageI) simp
      then have "(j4, j3, j2) \<noteq> big_indices C ?p" using new by metis
      ultimately show ?thesis using mm2 [OF ok] 1(5) i(2,3) unfolding physical_mapped_def by simp
    qed (use mm2 [OF ok] i(2) in simp)
  qed
  moreover have "took_table P (avail a) root m2" if z: "entry_of P m root [] (l4_index C offset) = 0"
  proof (cases "k = 0")
    case True
    then have "m1 = m" "a1 = a" "?p = offset" using 1(1) by (simp_all add: big_frame_def)
    with 2(5) z show ?thesis by simp
  next
    case False
    then show ?thesis using 1(6) z growsD(2) [OF 2(3)] unfolding took_table_def by blast
  qed
  moreover have "entry_of P m2 root [j4, j3] j2 = entry_of P m root [j4, j3] j2"
    if "path_ok [j4, j3]" "j2 < 512" "(j4, j3, j2) \<notin> insert (big_indices C ?p) ?B" for j4 j3 j2
    using e2 [OF that(1,2)] e1 [OF that(1,2)] that(3) by (simp add: big_indices_def)
  moreover have "mmu root m2 (j4, j3, j2, j1) = mmu root m (j4, j3, j2, j1)"
    if "indices_ok (j4, j3, j2, j1)" "(j4, j3, j2) \<notin> insert (big_indices C ?p) ?B" for j4 j3 j2 j1
    using mm2 [OF that(1)] mm1 [OF that(1)] that(2) by simp
  ultimately show ?case
    unfolding B using 1(1) 2 grows_trans [OF 1(3) 2(3)] by (simp add: rfold_append)
qed

end

lemma map_complete_eq:
  assumes "unat offset = 2 ^ 21 * K" "unat highest + 2 ^ 21 < 2 ^ 64"
  shows "map_complete_physical_memory_space_into_kernel C P allocate root highest offset st =
     rfold (map_physical_frame C P allocate root offset) (map big_frame [0 ..< unat highest div 2 ^ 21 + 1]) st"
proof -
  let ?e = "highest AND NOT (mask 21)"
  have u: "unat ?e = 2 ^ 21 * (unat highest div 2 ^ 21)" by (simp add: unat_and_not_mask minus_mod_eq_mult_div)
  have le: "unat ?e \<le> unat highest" by (simp add: unat_and_not_mask)
  have "range_items Size2MiB 0 ?e = map big_frame [0 ..< unat highest div 2 ^ 21 + 1]"
    unfolding range_items_def big_frame_def by (simp add: u)
  moreover have "frame_range_for Size2MiB body (0, ?e) st = rfold body (range_items Size2MiB 0 ?e) st" for body
    by (rule frame_range_for_items) (use le assms(2) in simp)
  moreover have "offset mod SIZE Size2MiB = 0"
    using assms(1) by (simp add: word_unat_eq_iff unat_mod)
  ultimately show ?thesis
    by (simp add: map_complete_physical_memory_space_into_kernel_def)
qed

text \<open>The processor finds every physical address below the \<open>k\<close>-th frame at the offset.\<close>

lemma physical_mapped_translate:
  assumes C: "crates_ok C" and off: "unat offset = 2 ^ 21 * K" "K + k \<le> 2 ^ 27" and pm: "physical_mapped C P offset k root m"
    and x: "unat x < 2 ^ 21 * k"
  shows "translate_address C P m root (offset + x) = Some (x, data_flags C OR HUGE_PAGE)"
proof -
  let ?va = "offset + x" and ?i = "unat x div 2 ^ 21" and ?p = "(offset + x) AND NOT (mask 12)"
  have i: "?i < k" using x by (simp add: less_mult_imp_div_less mult.commute)
  note a = big_page_address [OF off i]
  have uv: "unat ?va = 2 ^ 21 * K + unat x" using off x by (simp add: unat_plus_nowrap)
  have "unat ?p = 4096 * (unat ?va div 4096)" by (simp add: unat_and_not_mask minus_mod_eq_mult_div)
  then have "unat ?p div 2 ^ 21 = unat ?va div 4096 div 2 ^ 9" by (simp add: div_mult2_eq [symmetric])
  also have "\<dots> = K + ?i" unfolding div_mult2_eq [symmetric] by (simp add: uv)
  finally have n: "unat ?p div 2 ^ 21 = K + ?i" .
  have "unat (offset + big_frame ?i) div 2 ^ 21 = K + ?i" using a(2) by simp
  then have b: "big_indices C ?p = big_indices C (offset + big_frame ?i)" using big_indices_number [OF C] n by simp
  have "l1_index C ?p < 512" using table_index_less [OF C] by simp
  then have "mmu_lookup P m root (page_indices C ?p) = Some (Huge (big_frame ?i) (big_frame ?i OR data_flags C OR HUGE_PAGE))"
    using pm i b unfolding physical_mapped_def page_indices_def big_indices_def by simp
  moreover have "big_frame ?i + (?va AND mask 21) = x"
  proof -
    have "unat (?va AND mask 21) = unat x mod 2 ^ 21" by (simp add: unat_and_mask uv)
    moreover have "unat (big_frame ?i) = 2 ^ 21 * ?i" using i off by (intro unat_big_frame) simp
    ultimately have s: "unat (big_frame ?i) + unat (?va AND mask 21) = unat x" by simp
    then have "unat (big_frame ?i + (?va AND mask 21)) = unat x"
      using unat_plus_nowrap [of "big_frame ?i" "?va AND mask 21"] unat_less_exp [of x] by simp
    then show ?thesis by (simp only: word_unat_eq_iff)
  qed
  moreover have "(big_frame ?i OR (data_flags C OR HUGE_PAGE)) AND all_entry_flags = data_flags C OR HUGE_PAGE"
    by (rule frame_flags_split [OF a(4)])
      (simp add: data_flags_def crates_okD [OF C] PRESENT_def WRITABLE_def NO_EXECUTE_def HUGE_PAGE_def all_entry_flags_def)
  ultimately show ?thesis by (simp add: translate_address_def or.assoc)
qed

end
