(* ===== verification/Stage4_Boot.thy ===== *)
theory Stage4_Boot
  imports Stage4_Correct Physical_Map
begin

text \<open>
  Stage 4 from its start to the jump into the kernel. The parts of the address space are apart by their
  indices: the identity mapped frames lie below 10 TiB, the physical memory between 10 and 20 TiB, the
  stack and the kernel at the top.
\<close>

section \<open>The parts of the address space\<close>

definition low_address :: "u64 \<Rightarrow> bool" where
  "low_address a \<longleftrightarrow> unat a < 10 * 2 ^ 40"

lemma index_low: "crates_ok C \<Longrightarrow> low_address f \<Longrightarrow> l4_index C f < 20"
  by (simp add: unat_index low_address_def less_mult_imp_div_less)

lemma index_low_inj:
  assumes C: "crates_ok C" and "low_address f" "low_address g" "page_aligned Size4KiB f" "page_aligned Size4KiB g"
    and eq: "page_indices C f = page_indices C g"
  shows "f = g"
proof -
  have d: "unat x = 4096 * (512 * (512 * (512 * (unat x div 2 ^ 39 mod 512) + unat x div 2 ^ 30 mod 512) + unat x div 2 ^ 21 mod 512) + unat x div 2 ^ 12 mod 512)"
    if "low_address x" "page_aligned Size4KiB x" for x
  proof -
    have "unat x div 2 ^ 39 < 512" using that(1) by (simp add: low_address_def less_mult_imp_div_less)
    moreover have "unat x div 2 ^ 39 = unat x div 4096 div 512 div 512 div 512" "unat x div 2 ^ 30 = unat x div 4096 div 512 div 512"
      "unat x div 2 ^ 21 = unat x div 4096 div 512" unfolding div_mult2_eq [symmetric] by simp_all
    moreover have "4096 * (unat x div 4096) = unat x" using that(2) by (simp add: page_aligned_iff_dvd)
    ultimately show ?thesis by simp
  qed
  have "unat f div 2 ^ 39 mod 512 = unat g div 2 ^ 39 mod 512" "unat f div 2 ^ 30 mod 512 = unat g div 2 ^ 30 mod 512"
    "unat f div 2 ^ 21 mod 512 = unat g div 2 ^ 21 mod 512" "unat f div 2 ^ 12 mod 512 = unat g div 2 ^ 12 mod 512"
    using eq by (simp_all add: page_indices_def unat_index [OF C])
  then have "unat f = unat g" using d [OF assms(2,4)] d [OF assms(3,5)] by (simp only:)
  then show ?thesis by (simp add: word_unat_eq_iff)
qed

lemma index_stack:
  assumes "crates_ok C" "p \<in> set (stack_guard # stack_pages)"
  shows "l4_index C p = 511" "l3_index C p < 510"
proof -
  from assms(2) obtain i where i: "i < 34" "p = stack_guard + of_nat i * SIZE Size4KiB" unfolding stack_pages_34 by auto
  have "unat (of_nat i * SIZE Size4KiB) = 4096 * i" using i(1) by (simp add: unat_word_ariths unat_of_nat)
  then have u: "unat p = 0xfffffffefffdf000 + 4096 * i" using i by (simp add: unat_plus_nowrap stack_guard_def)
  have "unat p div 2 ^ 39 = 33554431" using i(1) u by (intro div_nat_eqI) simp_all
  then show "l4_index C p = 511" by (simp add: unat_index [OF assms(1)])
  have "unat p div 2 ^ 30 \<in> {17179869179, 17179869180}"
  proof (cases "i < 33")
    case True
    then have "unat p div 2 ^ 30 = 17179869179" using u by (intro div_nat_eqI) simp_all
    then show ?thesis by simp
  next
    case False
    then have "unat p div 2 ^ 30 = 17179869180" using u i(1) by (intro div_nat_eqI) simp_all
    then show ?thesis by simp
  qed
  then show "l3_index C p < 510" by (auto simp: unat_index [OF assms(1)])
qed

lemma index_segment:
  assumes C: "crates_ok C" and h: "\<And>h. h \<in> set hs \<Longrightarrow> header_ok KERNEL_VIRTUAL_BASE kstart h"
    and p: "p \<in> seg_pages KERNEL_VIRTUAL_BASE hs"
  shows "l4_index C p = 511" "510 \<le> l3_index C p"
proof -
  from p obtain h i where i: "h \<in> set hs" "i < pages_of (seg_off KERNEL_VIRTUAL_BASE h) (seg_len h)" "p = seg_page KERNEL_VIRTUAL_BASE h i"
    by (auto simp: seg_pages_def)
  note g = seg_addresses [OF h [OF i(1)]]
  let ?v = "KERNEL_VIRTUAL_BASE + ph_virtual_addr h"
  have "unat ?v = unat KERNEL_VIRTUAL_BASE + unat (ph_virtual_addr h)" using header_okD(1) [OF h [OF i(1)]] .
  then have v: "0xffffffff80000000 \<le> unat ?v" by (simp add: KERNEL_VIRTUAL_BASE_def)
  have "unat p = 4096 * (unat ?v div 4096 + i)" using g(3) i by simp
  moreover have "4096 * (unat ?v div 4096) \<ge> 0xffffffff80000000" using v by simp
  ultimately have lo: "0xffffffff80000000 \<le> unat p" by simp
  have hi: "unat p < 2 ^ 64" using unat_less_exp [of p] by simp
  have "unat p div 2 ^ 39 = 33554431" using lo hi by (intro div_nat_eqI) simp_all
  then show "l4_index C p = 511" by (simp add: unat_index [OF C])
  have "17179869182 \<le> unat p div 2 ^ 30" "unat p div 2 ^ 30 < 17179869184" using lo hi by (simp_all add: less_mult_imp_div_less div_le_mono)
  then have "unat p div 2 ^ 30 \<in> {17179869182, 17179869183}" by auto
  then show "510 \<le> l3_index C p" by (auto simp: unat_index [OF C])
qed

lemma index_physical:
  assumes C: "crates_ok C" and i: "i \<le> 10 * 2 ^ 19"
  shows "l4_index C (PHYSICAL_MEMORY_OFFSET + big_frame i) \<in> {20 .. 40}"
proof -
  have o: "unat PHYSICAL_MEMORY_OFFSET = 2 ^ 21 * (10 * 2 ^ 19)" by (simp add: PHYSICAL_MEMORY_OFFSET_def)
  have "unat (PHYSICAL_MEMORY_OFFSET + big_frame i) = 2 ^ 21 * (10 * 2 ^ 19 + i)"
    by (rule big_page_address(2) [OF o, of "Suc i"]) (use i in simp_all)
  then have "unat (PHYSICAL_MEMORY_OFFSET + big_frame i) div 2 ^ 39 \<in> {20 .. 40}" using i by auto
  then show ?thesis by (simp add: unat_index [OF C])
qed

section \<open>Stack, way out, segments and boot information\<close>

definition boot_info_of :: "BiosInfo \<Rightarrow> PhysicalFrame \<Rightarrow> PhysicalMemoryRegion option list \<Rightarrow> BootInfo" where
  "boot_info_of info bf mm = BootInfo_new (bios_kernel info) (bios_framebuffer info)
     (PhysicalMemoryRegions_new (bf + 88) (length (reported_regions mm))) PHYSICAL_MEMORY_OFFSET"

context identity_mapper
begin

lemma furnish:
  assumes r: "ready root m a" and s: "can_supply allocate (136 + (3 + (4 + (4 + n)))) a"
    and free: "\<And>p. l4_index C p < 20 \<or> p \<in> set (stack_guard # stack_pages) \<Longrightarrow> no_huge_above root m p \<and> mmu root m (page_indices C p) = None"
    and low: "\<And>f. f \<in> avail a \<Longrightarrow> low_address f"
    and cs: "solid root m a (cs AND NOT (mask 12))" "low_address cs"
    and g: "stage4_GDT C = Inr gdt" "length (gdt_bytes gdt) \<le> 4096"
    and bmap: "\<And>f. f \<in> avail a \<Longrightarrow> \<exists>mm. build_memory_map Size4KiB e820 f = Inr mm"
  shows "\<exists>fs gf bf mm m' a'. build_memory_map Size4KiB e820 bf = Inr mm \<and>
     rbind (allocate_and_map_stack C P allocate root (m, a)) (\<lambda>(stack_top, m, a).
     rbind (identity_map_context_switch_function C P allocate root cs (m, a)) (\<lambda>(m, a).
     rbind (initialize_and_map_gdt C P allocate root (s0, m, a)) (\<lambda>(s, m, a).
     rbind (allocate_and_map_boot_info C P allocate root info e820 ((rm, bm), m, a)) (\<lambda>(bi, bm, m, a).
     rest stack_top s bi bm m a)))) =
       rest KERNEL_STACK_TOP (GlobalDescriptorTable_load gdt gf s0) bf
         (write_regions (bf + 88) 0 (reported_regions mm) rm,
          bm(bf := boot_info_of info bf mm)) m' a' \<and>
     step (page_indices C ` (set (stack_guard # stack_pages) \<union> {cs AND NOT (mask 12), gf, bf})) root m a m' a' \<and>
     can_supply allocate n a' \<and> set fs \<subseteq> avail a \<and> {gf, bf} \<subseteq> avail a - avail a' - set fs \<and>
     pages_mapped C P avail (data_flags C) stack_pages fs root m' a' \<and> mmu root m' (page_indices C stack_guard) = None \<and>
     (\<forall>f \<in> {cs AND NOT (mask 12), gf, bf}. mmu root m' (page_indices C f) = Some (Small f (f OR PRESENT)) \<and> solid root m' a' f) \<and>
     (\<forall>i < length (gdt_bytes gdt). read_byte m' (gf + of_nat i) = gdt_bytes gdt ! i)"
proof -
  let ?c = "cs AND NOT (mask 12)" and ?S = "page_indices C ` set (stack_guard # stack_pages)"
  have "unat ?c \<le> unat cs" by (simp add: unat_and_not_mask)
  then have lc: "low_address ?c" using cs(2) by (simp add: low_address_def)
  have fr: "frame_bits_ok f" "page_aligned Size4KiB f" "low_address f" if "f \<in> avail a" for f
    using readyD(3) [OF r that] usable_bits frame_bits_page_aligned low [OF that] by blast+
  have off: "page_indices C f \<notin> ?S" if "low_address f" for f
  proof -
    have "l4_index C p = 511" if "p \<in> set (stack_guard # stack_pages)" for p using index_stack(1) [OF crates that] .
    then show ?thesis using index_low [OF crates that] by (auto simp: page_indices_def)
  qed
  obtain fs m1 a1 where 1: "allocate_and_map_stack C P allocate root (m, a) = Inr (KERNEL_STACK_TOP, m1, a1)"
     "step ?S root m a m1 a1" "can_supply allocate (3 + (4 + (4 + n))) a1" "set fs \<subseteq> avail a"
     "pages_mapped C P avail (data_flags C) stack_pages fs root m1 a1" "mmu root m1 (page_indices C stack_guard) = None"
    using stack_step [OF r s] free by blast
  have f1: "no_huge_above root m1 f" "mmu root m1 (page_indices C f) = None" if "low_address f" for f
    using no_huge_keeps [OF stepD(1) [OF 1(2)]] step_lookup [OF 1(2) off [OF that]] free [of f] index_low [OF crates that] by auto
  have c1: "solid root m1 a1 ?c" "frame_bits_ok ?c" using keeps_solid(1) [OF stepD(1) [OF 1(2)] cs(1)] cs(1) by (auto simp: solid_at_def)
  note ca = frame_bits_page_aligned [OF c1(2)]
  obtain m2 a2 where 2: "expect_mapped (identity_map_4KiB C P allocate root ?c PRESENT m1 a1) = Inr (m2, a2)"
     "step {page_indices C ?c} root m1 a1 m2 a2" "can_supply allocate (4 + (4 + n)) a2"
     "mmu root m2 (page_indices C ?c) = Some (Small ?c (?c OR PRESENT))"
    using identity_page_step [OF stepD(2) [OF 1(2)] 1(3) c1(2) f1 [OF lc]] by blast
  have c2: "solid root m2 a2 ?c" using keeps_solid(1) [OF stepD(1) [OF 2(2)] c1(1)] .
  have ne: "page_indices C f \<noteq> page_indices C g" if "low_address f" "page_aligned Size4KiB f" "low_address g" "page_aligned Size4KiB g" "f \<noteq> g" for f g
    using index_low_inj [OF crates that(1,3,2,4)] that(5) by blast
  have f2: "no_huge_above root m2 f" "mmu root m2 (page_indices C f) = None" if "low_address f" "page_aligned Size4KiB f" "f \<noteq> ?c" for f
    using no_huge_keeps [OF stepD(1) [OF 2(2)]] step_lookup [OF 2(2)] f1 [OF that(1)] ne [OF that(1,2) lc ca that(3)] by simp_all
  have a2: "avail a2 \<subseteq> avail a" using keepsD(1) [OF stepD(1) [OF 1(2)]] keepsD(1) [OF stepD(1) [OF 2(2)]] by blast
  have n2: "f \<noteq> ?c" if "f \<in> avail a2" for f using that c2 by (auto simp: solid_at_def)
  obtain gf m3 a3 where 3: "initialize_and_map_gdt C P allocate root (s0, m2, a2) = Inr (GlobalDescriptorTable_load gdt gf s0, m3, a3)"
     "step {page_indices C gf} root m2 a2 m3 a3" "can_supply allocate (4 + n) a3" "gf \<in> avail a2 - avail a3"
     "mmu root m3 (page_indices C gf) = Some (Small gf (gf OR PRESENT))" "solid root m3 a3 gf"
     "\<And>i. i < length (gdt_bytes gdt) \<Longrightarrow> read_byte m3 (gf + of_nat i) = gdt_bytes gdt ! i"
    using gdt_step [OF stepD(2) [OF 2(2)] 2(3) g, where ?s0.0 = s0] f2 fr a2 n2 by blast
  have gfa: "low_address gf" "page_aligned Size4KiB gf" "gf \<noteq> ?c" using fr n2 3(4) a2 by blast+
  have f3: "no_huge_above root m3 f" "mmu root m3 (page_indices C f) = None"
    if "low_address f" "page_aligned Size4KiB f" "f \<noteq> ?c" "f \<noteq> gf" for f
    using no_huge_keeps [OF stepD(1) [OF 3(2)]] step_lookup [OF 3(2)] f2 [OF that(1-3)] ne [OF that(1,2) gfa(1,2) that(4)] by simp_all
  have a3: "avail a3 \<subseteq> avail a2" using keepsD(1) [OF stepD(1) [OF 3(2)]] .
  have bm3: "\<exists>mm. build_memory_map Size4KiB e820 f = Inr mm" "no_huge_above root m3 f" "mmu root m3 (page_indices C f) = None" if "f \<in> avail a3" for f
  proof -
    have f: "f \<in> avail a" "f \<noteq> ?c" "f \<noteq> gf" using that a2 a3 n2 3(4) by blast+
    show "\<exists>mm. build_memory_map Size4KiB e820 f = Inr mm" "no_huge_above root m3 f" "mmu root m3 (page_indices C f) = None"
      using bmap [OF f(1)] f3 [OF fr(3,2) f(2,3)] f(1) by blast+
  qed
  obtain bf mm m4 a4 where 4: "build_memory_map Size4KiB e820 bf = Inr mm"
     "allocate_and_map_boot_info C P allocate root info e820 ((rm, bm), m3, a3) =
       Inr (bf, (write_regions (bf + 88) 0 (reported_regions mm) rm,
            bm(bf := boot_info_of info bf mm)), m4, a4)"
     "step {page_indices C bf} root m3 a3 m4 a4" "can_supply allocate n a4" "bf \<in> avail a3 - avail a4"
     "mmu root m4 (page_indices C bf) = Some (Small bf (bf OR PRESENT))" "solid root m4 a4 bf"
    using boot_info_step [OF stepD(2) [OF 3(2)] 3(3) bm3(2,3,1), where info = info and rm = rm and bm = bm, folded boot_info_of_def] by blast
  have bfa: "low_address bf" "page_aligned Size4KiB bf" "bf \<noteq> ?c" "bf \<noteq> gf" using fr n2 3(4) 4(5) a2 a3 by blast+
  have c_gf: "page_indices C ?c \<noteq> page_indices C gf" and c_bf: "page_indices C ?c \<noteq> page_indices C bf"
    and g_bf: "page_indices C gf \<noteq> page_indices C bf"
    using ne [OF lc ca gfa(1,2)] ne [OF lc ca bfa(1,2)] ne [OF gfa(1,2) bfa(1,2)] gfa(3) bfa(3,4) by blast+
  have st: "step (page_indices C ` (set (stack_guard # stack_pages) \<union> {?c, gf, bf})) root m a m4 a4"
    using step_trans [OF step_trans [OF step_trans [OF 1(2) 2(2)] 3(2)] 4(3)] by (rule step_mono) auto
  have out: "page_indices C p \<noteq> page_indices C f" if "p \<in> set (stack_guard # stack_pages)" "low_address f" for p f
    using off [OF that(2)] that(1) by (metis imageI)
  note late = step_trans [OF step_trans [OF 2(2) 3(2)] 4(3)]
  have "pages_mapped C P avail (data_flags C) stack_pages fs root m4 a4"
    by (rule pages_mapped_step [OF 1(5) late]) (use out [OF _ lc] out [OF _ gfa(1)] out [OF _ bfa(1)] in fastforce)
  moreover have "mmu root m4 (page_indices C stack_guard) = None"
    using step_lookup [OF late, of stack_guard] 1(6) out [OF _ lc] out [OF _ gfa(1)] out [OF _ bfa(1)] by simp
  moreover have "mmu root m4 (page_indices C ?c) = Some (Small ?c (?c OR PRESENT))" "solid root m4 a4 ?c"
    using step_lookup [OF step_trans [OF 3(2) 4(3)], of ?c] c_gf c_bf 2(4)
      keeps_solid(1) [OF stepD(1) [OF step_trans [OF 3(2) 4(3)]] c2] by simp_all
  moreover have "mmu root m4 (page_indices C gf) = Some (Small gf (gf OR PRESENT))" "solid root m4 a4 gf"
    "\<And>i. i < length (gdt_bytes gdt) \<Longrightarrow> read_byte m4 (gf + of_nat i) = gdt_bytes gdt ! i"
    using step_lookup [OF 4(3), of gf] g_bf 3(5,7) keeps_solid(1,3) [OF stepD(1) [OF 4(3)] 3(6)] g(2) by simp_all
  moreover have "identity_map_context_switch_function C P allocate root cs (m1, a1) = Inr (m2, a2)"
    using 2(1) by (simp add: identity_map_context_switch_function_def)
  moreover have "f \<notin> avail a1" if "f \<in> set fs" for f using that 1(5) by (auto simp: pages_mapped_def solid_at_def in_set_conv_nth)
  then have "{gf, bf} \<subseteq> avail a - avail a4 - set fs"
    using 3(4) 4(5) a2 a3 keepsD(1) [OF stepD(1) [OF 4(3)]] keepsD(1) [OF stepD(1) [OF 2(2)]] by blast
  ultimately show ?thesis
    using 1(1,4) 3(1) 4(1,2,4,6,7) st by (intro exI [of _ fs] exI [of _ gf] exI [of _ bf] exI [of _ mm] exI [of _ m4] exI [of _ a4]) simp
qed

section \<open>The physical memory\<close>

lemma empty_root_free:
  assumes "entry_of P m root [] (l4_index C page) = 0"
  shows "big_page_free C P root m page"
proof -
  let ?i4 = "l4_index C page" and ?i3 = "l3_index C page"
  have t: "table_at P m root [?i4] = None"
    using table_at_snoc_entry [of P m root "[]" ?i4] assms by (simp add: child_def table_entry_def)
  have "table_at P m root [?i4, ?i3] = None" using table_at_snoc [of P m root "[?i4]" ?i3] unfolding t by simp
  with t assms show ?thesis by (simp add: big_page_free_def entry_of_def)
qed

lemma physical_step:
  assumes r: "ready root m a" and s: "can_supply allocate (2 * k + n) a" and hi: "low_address highest" "k = unat highest div 2 ^ 21 + 1"
    and em: "\<And>i. i \<in> {20 .. 40} \<Longrightarrow> entry_of P m root [] i = 0"
  shows "\<exists>m' a'. map_complete_physical_memory_space_into_kernel C P allocate root highest PHYSICAL_MEMORY_OFFSET (m, a) = Inr (m', a') \<and>
     ready root m' a' \<and> can_supply allocate n a' \<and> took_table P (avail a) root m' \<and>
     physical_mapped C P PHYSICAL_MEMORY_OFFSET k root m' \<and>
     (\<forall>f. solid root m a f \<longrightarrow> solid root m' a' f \<and> (\<forall>i < 4096. read_byte m' (f + of_nat i) = read_byte m (f + of_nat i))) \<and>
     (\<forall>p. l4_index C p \<notin> {20 .. 40} \<longrightarrow> mmu root m' (page_indices C p) = mmu root m (page_indices C p))"
proof -
  have o: "unat PHYSICAL_MEMORY_OFFSET = 2 ^ 21 * (10 * 2 ^ 19)" by (simp add: PHYSICAL_MEMORY_OFFSET_def)
  have "unat highest div 2 ^ 21 < 10 * 2 ^ 19" using hi(1) by (intro less_mult_imp_div_less) (simp add: low_address_def)
  then have k: "k \<le> 10 * 2 ^ 19" "10 * 2 ^ 19 + k \<le> 2 ^ 27" using hi(2) by simp_all
  have hs: "unat highest + 2 ^ 21 < 2 ^ 64" using hi(1) by (simp add: low_address_def)
  have ix: "l4_index C (PHYSICAL_MEMORY_OFFSET + big_frame i) \<in> {20 .. 40}" if "i < k" for i
    using index_physical [OF crates] that k(1) by simp
  have fr: "big_page_free C P root m (PHYSICAL_MEMORY_OFFSET + big_frame i)" if "i < k" for i
    by (rule empty_root_free [OF em [OF ix [OF that]]])
  from physical_frames_step [OF r data_flags_ok(2,3) [OF crates] o k(2) s fr] obtain m' a' where
    1: "rfold (map_physical_frame C P allocate root PHYSICAL_MEMORY_OFFSET) (map big_frame [0 ..< k]) (m, a) = Inr (m', a')"
      "ready root m' a'" "grows 2 root m a m' a'" "can_supply allocate n a'" "physical_mapped C P PHYSICAL_MEMORY_OFFSET k root m'"
      "0 < k \<and> entry_of P m root [] (l4_index C PHYSICAL_MEMORY_OFFSET) = 0 \<longrightarrow> took_table P (avail a) root m'"
    and mm: "\<And>j4 j3 j2 j1. indices_ok (j4, j3, j2, j1) \<Longrightarrow> (j4, j3, j2) \<notin> (\<lambda>i. big_indices C (PHYSICAL_MEMORY_OFFSET + big_frame i)) ` {..< k} \<Longrightarrow>
        mmu root m' (j4, j3, j2, j1) = mmu root m (j4, j3, j2, j1)" by blast
  have "mmu root m' (page_indices C p) = mmu root m (page_indices C p)" if p: "l4_index C p \<notin> {20 .. 40}" for p
  proof -
    have "(l4_index C p, l3_index C p, l2_index C p) \<notin> (\<lambda>i. big_indices C (PHYSICAL_MEMORY_OFFSET + big_frame i)) ` {..< k}"
      using ix p by (auto simp: big_indices_def)
    with mm [of "l4_index C p" "l3_index C p" "l2_index C p" "l1_index C p"] indices_ok_page [of p] show ?thesis
      by (simp add: page_indices_def)
  qed
  moreover have "solid root m' a' f \<and> (\<forall>i < 4096. read_byte m' (f + of_nat i) = read_byte m (f + of_nat i))" if f: "solid root m a f" for f
  proof -
    have us: "P g = Inr g" if "g \<in> avail a" for g using identity readyD(3) [OF r that] by blast
    have t: "f \<notin> tables P root m'"
    proof
      assume "f \<in> tables P root m'"
      with f growsD(3) [OF 1(3)] obtain g where "g \<in> avail a" "f = projr (P g)" by (auto simp: solid_at_def)
      with us f show False by (auto simp: solid_at_def)
    qed
    have pa: "page_aligned Size4KiB f" using f frame_bits_page_aligned by (auto simp: solid_at_def)
    have "read_byte m' (f + of_nat i) = read_byte m (f + of_nat i)" if "i < 4096" for i
      using frame_address(1) [OF pa that] t by (intro read_byte_cong) (simp add: growsD(5) [OF 1(3)])
    with t f growsD(1) [OF 1(3)] show ?thesis by (auto simp: solid_at_def)
  qed
  moreover have "map_complete_physical_memory_space_into_kernel C P allocate root highest PHYSICAL_MEMORY_OFFSET (m, a) = Inr (m', a')"
    unfolding map_complete_eq [OF o hs] hi(2) [symmetric] by (rule 1(1))
  moreover have "0 < k" "entry_of P m root [] (l4_index C PHYSICAL_MEMORY_OFFSET) = 0"
    using hi(2) em [OF ix [of 0]] by (simp_all add: big_frame_def)
  then have "took_table P (avail a) root m'" using 1(6) by simp
  ultimately show ?thesis using 1(2,4,5) by blast
qed

end

section \<open>The kernel stays loaded\<close>

lemma reloc_byte_cong:
  assumes "\<And>r j. r \<in> set rs \<Longrightarrow> j < 8 \<Longrightarrow> T (vbase + re_offset r + of_nat j) = T' (vbase + re_offset r + of_nat j)"
  shows "reloc_byte T vbase rs x v = reloc_byte T' vbase rs x v"
  using assms
proof (induction rs arbitrary: v)
  case (Cons r rs)
  have "find (\<lambda>j. T (vbase + re_offset r + of_nat j) = Some x) [0 ..< 8] = find (\<lambda>j. T' (vbase + re_offset r + of_nat j) = Some x) [0 ..< 8]"
    by (rule find_cong [OF refl]) (use Cons.prems in simp)
  then have "reloc_one T vbase r x v = reloc_one T' vbase r x v" by (simp add: reloc_one_def)
  then show ?case using Cons.IH Cons.prems by simp
qed simp

lemma relocation_pages:
  assumes "relocation_ok vbase pgs r" "j < 8"
  shows "(vbase + re_offset r + of_nat j) AND NOT (mask 12) \<in> pgs"
proof -
  let ?va = "vbase + re_offset r"
  have "unat vbase + unat (re_offset r) + 16384 < 2 ^ 64" using assms(1) by (simp add: relocation_ok_def)
  then have "unat ?va + 8192 < 2 ^ 64" by (simp add: unat_plus_nowrap)
  from page_of_offset(1) [OF refl this, of j] page_of_offset(1) [OF refl this, of 8] assms show ?thesis
    by (auto simp: relocation_ok_def split: if_splits)
qed

lemma kernel_loaded_keep:
  assumes l: "kernel_loaded C P root m0 m1 vbase kstart hs rs"
    and h: "\<And>h. h \<in> set hs \<Longrightarrow> header_ok vbase kstart h" and ro: "\<And>r. r \<in> set rs \<Longrightarrow> relocation_ok vbase (seg_pages vbase hs) r"
    and keep: "\<And>p. p \<in> seg_pages vbase hs \<Longrightarrow> \<exists>f e. mmu_lookup P m1 root (page_indices C p) = Some (Small f e) \<and>
        mmu_lookup P m2 root (page_indices C p) = Some (Small f e) \<and> (\<forall>i < 4096. read_byte m2 (f + of_nat i) = read_byte m1 (f + of_nat i))"
  shows "kernel_loaded C P root m0 m2 vbase kstart hs rs"
  unfolding kernel_loaded_def
proof (intro ballI allI impI)
  fix h j assume hj: "h \<in> set hs" "j < seg_len h"
  let ?va = "vbase + ph_virtual_addr h + of_nat j"
  have tr: "translate_address C P m2 root va = translate_address C P m1 root va" if "va AND NOT (mask 12) \<in> seg_pages vbase hs" for va
    using keep [OF that] by (auto simp: translate_address_def)
  note sa = seg_address_page [OF h [OF hj(1)] hj(2)]
  have pg: "?va AND NOT (mask 12) \<in> seg_pages vbase hs" using sa(1,3) hj(1) by (auto simp: seg_pages_def)
  from l hj obtain p c where p: "c \<in> {0, COPIED}" "translate_address C P m1 root ?va = Some (p, segment_flags C h OR c)"
    "read_byte m1 p = reloc_byte (physical_of C P m1 root) vbase rs p (seg_byte m0 kstart h j)" unfolding kernel_loaded_def by blast
  from keep [OF pg] p(2) obtain f where f: "p = f + (?va AND mask 12)" "\<And>i. i < 4096 \<Longrightarrow> read_byte m2 (f + of_nat i) = read_byte m1 (f + of_nat i)"
    by (auto simp: translate_address_def)
  have "read_byte m2 p = read_byte m1 p" unfolding f(1) sa(2) by (rule f(2)) simp
  moreover have "reloc_byte (physical_of C P m2 root) vbase rs p v = reloc_byte (physical_of C P m1 root) vbase rs p v" for v
    by (rule reloc_byte_cong) (simp add: physical_of_def tr [OF relocation_pages [OF ro]])
  ultimately show "\<exists>p c. c \<in> {0, COPIED} \<and> translate_address C P m2 root ?va = Some (p, segment_flags C h OR c) \<and>
      read_byte m2 p = reloc_byte (physical_of C P m2 root) vbase rs p (seg_byte m0 kstart h j)"
    using p tr [OF pg] by (intro exI [of _ p] exI [of _ c]) simp
qed

section \<open>The jump\<close>

lemma top_of_stack:
  "(KERNEL_STACK_TOP - 8) AND NOT (mask 12) = stack_pages ! 31" "(KERNEL_STACK_TOP - 8) AND mask 12 = of_nat 4088" "length stack_pages = 33"
  by (simp_all add: KERNEL_STACK_TOP_def stack_pages_def mask_eq_exp_minus_1)

context identity_mapper
begin

lemma translate_small:
  assumes "mmu root m (page_indices C (va AND NOT (mask 12))) = Some (Small f (f OR fl))" "frame_bits_ok f" "fl AND all_entry_flags = fl"
  shows "translate_address C P m root va = Some (f + (va AND mask 12), fl)"
  using assms frame_flags_split [OF assms(2,3)] by (simp add: translate_address_def)

lemma context_switch_step:
  assumes r: "ready root m a" and c: "mmu root m (page_indices C c) = Some (Small c (c OR PRESENT))" "frame_bits_ok c"
    and code: "\<And>ip. ip \<in> set code \<Longrightarrow> ip AND NOT (mask 12) = c" and st: "pages_mapped C P avail (data_flags C) stack_pages fs root m a"
  shows "\<exists>m'. context_switch C P code root KERNEL_STACK_TOP entry bi (s, m) =
       Inr (\<lparr>ke_rip = entry, ke_rsp = KERNEL_STACK_TOP - 8, ke_rdi = bi, ke_rbp = 0\<rparr>, s\<lparr>cpu_cr3 := root\<rparr>, m') \<and>
     ready root m' a \<and> tables P root m' = tables P root m \<and> (\<forall>ix. indices_ok ix \<longrightarrow> mmu root m' ix = mmu root m ix) \<and>
     (\<forall>f i. solid root m a f \<and> f \<notin> set fs \<and> i < 4096 \<longrightarrow> read_byte m' (f + of_nat i) = read_byte m (f + of_nat i))"
proof -
  let ?f = "fs ! 31" and ?m = "write_bytes m (fs ! 31 + of_nat 4088) (replicate 8 0)"
  have f: "mmu root m (page_indices C (stack_pages ! 31)) = Some (Small ?f (?f OR data_flags C))" "solid root m a ?f" "?f \<in> set fs"
    using st by (simp_all add: pages_mapped_def top_of_stack(3))
  have fb: "frame_bits_ok ?f" "?f \<notin> tables P root m" using f(2) by (auto simp: solid_at_def)
  have fl: "data_flags C AND all_entry_flags = data_flags C" "PRESENT AND all_entry_flags = PRESENT"
    by (simp_all add: data_flags_ok(1) [OF crates] all_entry_flags_def PRESENT_def)
  have "translate_address C P m root (KERNEL_STACK_TOP - 8) = Some (?f + of_nat 4088, data_flags C)"
    using translate_small [of m root "KERNEL_STACK_TOP - 8" ?f "data_flags C"] f(1) fb(1) fl(1) unfolding top_of_stack by simp
  moreover have "executable_address C P m root ip" if "ip \<in> set code" for ip
    using translate_small [of m root ip c PRESENT] c fl(2) code [OF that] by (simp add: executable_address_def PRESENT_def)
  moreover have "bit (data_flags C) 1" by (simp add: data_flags_ok(1) [OF crates])
  ultimately have e: "context_switch C P code root KERNEL_STACK_TOP entry bi (s, m) =
       Inr (\<lparr>ke_rip = entry, ke_rsp = KERNEL_STACK_TOP - 8, ke_rdi = bi, ke_rbp = 0\<rparr>, s\<lparr>cpu_cr3 := root\<rparr>, ?m)"
    by (simp add: context_switch_def list_all_iff del: replicate.simps)
  have b8: "4088 + length (replicate 8 (0 :: u8)) \<le> 4096" by simp
  note w = frame_write(1) [OF frame_bits_page_aligned [OF fb(1)] b8]
  have "?m x = m x" if "x AND NOT (mask 12) \<in> tables P root m" for x by (rule w) (use that fb(2) in metis)
  note d = data_write [OF readyD(1) [OF r], of ?m, OF this]
  have "ready root ?m a" using r d(2,3) by (simp add: mapper_ready_def fresh_frames_def)
  moreover have "read_byte ?m (g + of_nat i) = read_byte m (g + of_nat i)" if g: "solid root m a g" "g \<notin> set fs" "i < 4096" for g i
  proof -
    have "page_aligned Size4KiB g" using g(1) frame_bits_page_aligned by (auto simp: solid_at_def)
    from frame_address(1) [OF this g(3)] have "(g + of_nat i) AND NOT (mask 12) = g" .
    moreover have "g \<noteq> ?f" using g(2) f(3) by blast
    ultimately show ?thesis by (intro read_byte_cong w) simp
  qed
  ultimately show ?thesis using e d(2,4) by (intro exI [of _ ?m]) (simp del: split_paired_All replicate.simps)
qed

end

section \<open>All of it\<close>

text \<open>
  What the kernel finds: itself, a writable stack with a guard page below it, the table of segments and the
  boot information at the addresses of their frames, and every physical address up to the highest one at
  the offset.
\<close>

definition boot_ready ::
    "crates \<Rightarrow> frame_mapping \<Rightarrow> ('a \<Rightarrow> PhysicalFrame set) \<Rightarrow> VirtualAddress \<Rightarrow> table_memory \<Rightarrow> table_memory \<Rightarrow> 'a \<Rightarrow> u64 \<Rightarrow>
     ProgramHeader list \<Rightarrow> RelocationEntry list \<Rightarrow> GlobalDescriptorTable \<Rightarrow> PhysicalFrame \<Rightarrow> PhysicalFrame \<Rightarrow> PhysicalAddress \<Rightarrow> bool" where
  "boot_ready C P avail root m0 m a kstart hs rs gdt gf bf highest \<longleftrightarrow>
     kernel_loaded C P root m0 m KERNEL_VIRTUAL_BASE kstart hs rs \<and>
     (\<exists>fs. pages_mapped C P avail (data_flags C) stack_pages fs root m a) \<and>
     mmu_lookup P m root (page_indices C stack_guard) = None \<and>
     (\<forall>f \<in> {gf, bf}. mmu_lookup P m root (page_indices C f) = Some (Small f (f OR PRESENT)) \<and> solid_at P avail root m a f) \<and>
     (\<forall>i < length (gdt_bytes gdt). read_byte m (gf + of_nat i) = gdt_bytes gdt ! i) \<and>
     (\<forall>x \<le> highest. translate_address C P m root (PHYSICAL_MEMORY_OFFSET + x) = Some (x, data_flags C OR HUGE_PAGE))"

context identity_mapper
begin

lemma empty_root:
  assumes "\<And>i. i < 512 \<Longrightarrow> entry_of P m root [] i = 0"
  shows "no_huge_above root m page" "indices_ok ix \<Longrightarrow> mmu root m ix = None"
proof -
  let ?i4 = "l4_index C page" and ?i3 = "l3_index C page"
  have e: "entry_of P m root [] ?i4 = 0" using assms table_index_less [OF crates] by simp
  have t: "table_at P m root [?i4] = None"
    using table_at_snoc_entry [of P m root "[]" ?i4] e by (simp add: child_def table_entry_def)
  have "table_at P m root [?i4, ?i3] = None" using table_at_snoc [of P m root "[?i4]" ?i3] unfolding t by simp
  with t e show "no_huge_above root m page" by (simp add: no_huge_above_page_def entry_of_def)
  show "indices_ok ix \<Longrightarrow> mmu root m ix = None" using assms by (cases ix) (simp add: indices_ok_def mmu_lookup_def Let_def)
qed

lemma finish_boot:
  assumes r: "ready root m a" and s: "can_supply allocate (2 * k + n) a" and hi: "low_address highest" "k = unat highest div 2 ^ 21 + 1"
    and em: "\<And>i. i \<in> {20 .. 40} \<Longrightarrow> entry_of P m root [] i = 0"
    and c: "mmu root m (page_indices C c) = Some (Small c (c OR PRESENT))" "solid root m a c" "l4_index C c < 20"
    and code: "\<And>ip. ip \<in> set code \<Longrightarrow> ip AND NOT (mask 12) = c" and st: "pages_mapped C P avail (data_flags C) stack_pages fs root m a"
  shows "\<exists>m' a'.
     rbind (map_complete_physical_memory_space_into_kernel C P allocate root highest PHYSICAL_MEMORY_OFFSET (m, a)) (\<lambda>(m, a).
     rbind (context_switch C P code root KERNEL_STACK_TOP entry bi (s0, m)) (\<lambda>(ke, s, m). Inr (ke, s, bm, m, a))) =
       Inr (\<lparr>ke_rip = entry, ke_rsp = KERNEL_STACK_TOP - 8, ke_rdi = bi, ke_rbp = 0\<rparr>, s0\<lparr>cpu_cr3 := root\<rparr>, bm, m', a') \<and>
     ready root m' a' \<and> took_table P (avail a) root m' \<and> (\<forall>f. solid root m a f \<longrightarrow> solid root m' a' f) \<and>
     (\<forall>f i. solid root m a f \<and> f \<notin> set fs \<and> i < 4096 \<longrightarrow> read_byte m' (f + of_nat i) = read_byte m (f + of_nat i)) \<and>
     (\<forall>p. l4_index C p \<notin> {20 .. 40} \<longrightarrow> mmu root m' (page_indices C p) = mmu root m (page_indices C p)) \<and>
     (\<forall>x \<le> highest. translate_address C P m' root (PHYSICAL_MEMORY_OFFSET + x) = Some (x, data_flags C OR HUGE_PAGE))"
proof -
  from physical_step [OF r s hi em] obtain m1 a1 where
    1: "map_complete_physical_memory_space_into_kernel C P allocate root highest PHYSICAL_MEMORY_OFFSET (m, a) = Inr (m1, a1)"
     "ready root m1 a1" "physical_mapped C P PHYSICAL_MEMORY_OFFSET k root m1" "took_table P (avail a) root m1"
    and so: "\<And>f. solid root m a f \<Longrightarrow> solid root m1 a1 f"
      "\<And>f i. solid root m a f \<Longrightarrow> i < 4096 \<Longrightarrow> read_byte m1 (f + of_nat i) = read_byte m (f + of_nat i)"
    and mm: "\<And>p. l4_index C p \<notin> {20 .. 40} \<Longrightarrow> mmu root m1 (page_indices C p) = mmu root m (page_indices C p)" by blast
  have "l4_index C (stack_pages ! i) = 511" if "i < 33" for i using index_stack(1) [OF crates, of "stack_pages ! i"] that by (simp add: top_of_stack(3))
  then have st1: "pages_mapped C P avail (data_flags C) stack_pages fs root m1 a1"
    using st so(1) mm by (simp add: pages_mapped_def top_of_stack(3))
  have c1: "mmu root m1 (page_indices C c) = Some (Small c (c OR PRESENT))" "frame_bits_ok c"
    using mm [of c] c by (simp_all add: solid_at_def)
  from context_switch_step [OF 1(2) c1 code st1, where entry = entry and bi = bi and s = s0] obtain m2 where
    2: "context_switch C P code root KERNEL_STACK_TOP entry bi (s0, m1) =
       Inr (\<lparr>ke_rip = entry, ke_rsp = KERNEL_STACK_TOP - 8, ke_rdi = bi, ke_rbp = 0\<rparr>, s0\<lparr>cpu_cr3 := root\<rparr>, m2)"
     "ready root m2 a1" "tables P root m2 = tables P root m1" "\<And>ix. indices_ok ix \<Longrightarrow> mmu root m2 ix = mmu root m1 ix"
     "\<And>f i. solid root m1 a1 f \<Longrightarrow> f \<notin> set fs \<Longrightarrow> i < 4096 \<Longrightarrow> read_byte m2 (f + of_nat i) = read_byte m1 (f + of_nat i)" by blast
  have "translate_address C P m2 root (PHYSICAL_MEMORY_OFFSET + x) = Some (x, data_flags C OR HUGE_PAGE)" if x: "x \<le> highest" for x
  proof -
    have o: "unat PHYSICAL_MEMORY_OFFSET = 2 ^ 21 * (10 * 2 ^ 19)" by (simp add: PHYSICAL_MEMORY_OFFSET_def)
    have "unat highest div 2 ^ 21 < 10 * 2 ^ 19" using hi(1) by (intro less_mult_imp_div_less) (simp add: low_address_def)
    then have k: "10 * 2 ^ 19 + k \<le> 2 ^ 27" using hi(2) by simp
    have "unat highest < 2 ^ 21 * k" using hi(2) mod_less_divisor [of "2 ^ 21" "unat highest"] div_mult_mod_eq [of "unat highest" "2 ^ 21"] by simp
    then have "unat x < 2 ^ 21 * k" using x by (simp add: word_le_nat_alt)
    from physical_mapped_translate [OF crates o k 1(3) this] translate_address_cong(1) [OF 2(4)] show ?thesis by simp
  qed
  moreover have "solid root m2 a1 f" if "solid root m a f" for f using so(1) [OF that] 2(3) by (simp add: solid_at_def)
  moreover have "mmu root m2 (page_indices C p) = mmu root m (page_indices C p)" if "l4_index C p \<notin> {20 .. 40}" for p
    using 2(4) [OF indices_ok_page] mm [OF that] by simp
  moreover have "read_byte m2 (f + of_nat i) = read_byte m (f + of_nat i)" if "solid root m a f" "f \<notin> set fs" "i < 4096" for f i
    using 2(5) [OF so(1)] so(2) that by simp
  moreover have "took_table P (avail a) root m2" using 1(4) 2(3) by (simp add: took_table_def)
  ultimately show ?thesis using 1(1) 2(1,2) by (intro exI [of _ m2] exI [of _ a1]) simp
qed

lemma boot_kernel:
  assumes r: "ready root m a" and em: "\<And>i. i < 512 \<Longrightarrow> entry_of P m root [] i = 0"
    and s: "can_supply allocate (frames_needed KERNEL_VIRTUAL_BASE hs + (136 + (3 + (4 + (4 + (2 * k + n)))))) a"
    and E: "ptr_read m kstart (unat ksize) = Inr kern" "ElfBinary_new E kern = Some e" "elf_file E e hs loads rs"
       "unat KERNEL_VIRTUAL_BASE + unat (entry_point E e) < 2 ^ 64"
    and im: "image_ok C P avail root m a KERNEL_VIRTUAL_BASE kstart hs rs"
    and low: "\<And>f. f \<in> avail a \<Longrightarrow> low_address f"
    and cs: "solid root m a (cs AND NOT (mask 12))" "low_address cs" "\<And>ip. ip \<in> set code \<Longrightarrow> ip AND NOT (mask 12) = cs AND NOT (mask 12)"
    and g: "stage4_GDT C = Inr gdt" "length (gdt_bytes gdt) \<le> 4096"
    and bmap: "\<And>f. f \<in> avail a \<Longrightarrow> \<exists>mm. build_memory_map Size4KiB e820 f = Inr mm"
    and mx: "\<And>a. inv a \<Longrightarrow> mx a = Inr highest" and hi: "low_address highest" "k = unat highest div 2 ^ 21 + 1"
  shows "\<exists>gf bf mm m' a'. build_memory_map Size4KiB e820 bf = Inr mm \<and>
     rbind (load_kernel E C P allocate root KERNEL_VIRTUAL_BASE kstart ksize (m, a)) (\<lambda>(entry, m, a).
     rbind (allocate_and_map_stack C P allocate root (m, a)) (\<lambda>(stack_top, m, a).
     rbind (identity_map_context_switch_function C P allocate root cs (m, a)) (\<lambda>(m, a).
     rbind (initialize_and_map_gdt C P allocate root (s0, m, a)) (\<lambda>(s, m, a).
     rbind (allocate_and_map_boot_info C P allocate root info e820 ((rm, bm), m, a)) (\<lambda>(bi, bm, m, a).
     rbind (mx a) (\<lambda>highest.
     rbind (map_complete_physical_memory_space_into_kernel C P allocate root highest PHYSICAL_MEMORY_OFFSET (m, a)) (\<lambda>(m, a).
     rbind (context_switch C P code root stack_top entry bi (s, m)) (\<lambda>(ke, s, m). Inr (ke, s, bm, m, a))))))))) =
       Inr (\<lparr>ke_rip = KERNEL_VIRTUAL_BASE + entry_point E e, ke_rsp = KERNEL_STACK_TOP - 8, ke_rdi = bf, ke_rbp = 0\<rparr>,
            (GlobalDescriptorTable_load gdt gf s0)\<lparr>cpu_cr3 := root\<rparr>,
            (write_regions (bf + 88) 0 (reported_regions mm) rm, bm(bf := boot_info_of info bf mm)), m', a') \<and>
     ready root m' a' \<and> {gf, bf} \<subseteq> avail a \<and>
     (\<exists>a2. inv a2 \<and> avail a2 \<subseteq> avail a \<and> bf \<notin> avail a2 \<and> took_table P (avail a2) root m') \<and> boot_ready C P avail root m m' a' kstart hs rs gdt gf bf highest"
proof -
  let ?K = KERNEL_VIRTUAL_BASE and ?c = "cs AND NOT (mask 12)" and ?St = "set (stack_guard # stack_pages)"
  note i = im [unfolded image_ok_def]
  have hd: "header_ok ?K kstart h" if "h \<in> set hs" for h using i that by blast
  have ro: "relocation_ok ?K (seg_pages ?K hs) x" if "x \<in> set rs" for x using i that by blast
  have sx: "l4_index C p = 511" "510 \<le> l3_index C p" if "p \<in> seg_pages ?K hs" for p
    using index_segment [OF crates _ that] hd by blast+
  note kx = index_stack [OF crates]
  have "unat ?c \<le> unat cs" by (simp add: unat_and_not_mask)
  then have lc: "low_address ?c" using cs(2) by (simp add: low_address_def)
  from load_kernel_step [OF r s E im] obtain m1 a1 where
    1: "load_kernel E C P allocate root ?K kstart ksize (m, a) = Inr (?K + entry_point E e, m1, a1)"
      "ready root m1 a1" "can_supply allocate (136 + (3 + (4 + (4 + (2 * k + n))))) a1" "grown root m a m1 a1"
      "root_kept P (l4_index C ` seg_pages ?K hs) root m m1"
      "\<And>ix. indices_ok ix \<Longrightarrow> ix \<notin> page_indices C ` seg_pages ?K hs \<Longrightarrow> mmu root m1 ix = mmu root m ix"
      "\<And>p. p \<in> seg_pages ?K hs \<Longrightarrow> solid_page C P avail root m1 a1 p" "kernel_loaded C P root m m1 ?K kstart hs rs" by blast
  have a1: "avail a1 \<subseteq> avail a" using 1(4) by (simp add: grown_at_def)
  have out: "page_indices C p \<notin> page_indices C ` seg_pages ?K hs" if "l4_index C p < 20 \<or> p \<in> ?St" for p
  proof
    assume "page_indices C p \<in> page_indices C ` seg_pages ?K hs"
    then obtain q where q: "q \<in> seg_pages ?K hs" "page_indices C p = page_indices C q" by blast
    with sx [OF q(1)] kx [of p] that show False by (auto simp: page_indices_def)
  qed
  have free: "no_huge_above root m1 p \<and> mmu root m1 (page_indices C p) = None" if "l4_index C p < 20 \<or> p \<in> ?St" for p
    using 1(6) [OF indices_ok_page out [OF that]] empty_root [OF em] indices_ok_page 1(4) by (auto simp: grown_at_def)
  have c1: "solid root m1 a1 ?c" using 1(4) cs(1) by (simp add: grown_at_def)
  have low1: "low_address f" "\<exists>mm. build_memory_map Size4KiB e820 f = Inr mm" if "f \<in> avail a1" for f using that a1 low bmap by blast+
  define R where "R = (\<lambda>stack_top s bi (bm :: boot_memory) m a. rbind (mx a) (\<lambda>highest.
     rbind (map_complete_physical_memory_space_into_kernel C P allocate root highest PHYSICAL_MEMORY_OFFSET (m, a)) (\<lambda>(m, a).
     rbind (context_switch C P code root stack_top (?K + entry_point E e) bi (s, m)) (\<lambda>(ke, s, m). Inr (ke, s, bm, m, a)))))"
  from furnish [OF 1(2,3) free low1(1) c1 cs(2) g low1(2), where rest = R and ?s0.0 = s0 and info = info and rm = rm and bm = bm]
  obtain fs gf bf mm m2 a2 where
    2: "build_memory_map Size4KiB e820 bf = Inr mm"
      "rbind (allocate_and_map_stack C P allocate root (m1, a1)) (\<lambda>(stack_top, m, a).
       rbind (identity_map_context_switch_function C P allocate root cs (m, a)) (\<lambda>(m, a).
       rbind (initialize_and_map_gdt C P allocate root (s0, m, a)) (\<lambda>(s, m, a).
       rbind (allocate_and_map_boot_info C P allocate root info e820 ((rm, bm), m, a)) (\<lambda>(bi, bm, m, a).
       R stack_top s bi bm m a)))) =
         R KERNEL_STACK_TOP (GlobalDescriptorTable_load gdt gf s0) bf
           (write_regions (bf + 88) 0 (reported_regions mm) rm, bm(bf := boot_info_of info bf mm)) m2 a2"
      "step (page_indices C ` (?St \<union> {?c, gf, bf})) root m1 a1 m2 a2" "can_supply allocate (2 * k + n) a2"
      "set fs \<subseteq> avail a1" "{gf, bf} \<subseteq> avail a1 - avail a2 - set fs"
      "pages_mapped C P avail (data_flags C) stack_pages fs root m2 a2" "mmu root m2 (page_indices C stack_guard) = None"
      "\<And>f. f \<in> {?c, gf, bf} \<Longrightarrow> mmu root m2 (page_indices C f) = Some (Small f (f OR PRESENT)) \<and> solid root m2 a2 f"
      "\<And>i. i < length (gdt_bytes gdt) \<Longrightarrow> read_byte m2 (gf + of_nat i) = gdt_bytes gdt ! i"
    by - (drule meta_mp, assumption, drule meta_mp, assumption, drule meta_mp, assumption,
      elim exE conjE, rule that, assumption+, erule (1) bspec, simp)
  have lo: "l4_index C f < 20" if "f \<in> {?c, gf, bf}" for f
    using index_low [OF crates] lc low1(1) 2(6) that by blast
  have em2: "entry_of P m2 root [] x = 0" if x: "x \<in> {20 .. 40}" for x
  proof -
    have "x \<notin> l4_index C ` seg_pages ?K hs" using sx(1) x by auto
    moreover have "x \<notin> fst ` page_indices C ` (?St \<union> {?c, gf, bf})"
    proof
      assume "x \<in> fst ` page_indices C ` (?St \<union> {?c, gf, bf})"
      then obtain p where "p \<in> ?St \<union> {?c, gf, bf}" "x = fst (page_indices C p)" by blast
      with kx(1) [of p] lo [of p] x show False by (auto simp: page_indices_def)
    qed
    ultimately show ?thesis using 1(5) stepD(4) [OF 2(3)] em [of x] x unfolding root_kept_def by simp
  qed
  have c2: "mmu root m2 (page_indices C ?c) = Some (Small ?c (?c OR PRESENT))" "solid root m2 a2 ?c" "l4_index C ?c < 20"
    using 2(9) [of ?c] lo [of ?c] by simp_all
  from finish_boot [OF stepD(2) [OF 2(3)] 2(4) hi em2 c2 cs(3) 2(7), where ?s0.0 = "GlobalDescriptorTable_load gdt gf s0" and bi = bf
      and entry = "?K + entry_point E e" and bm = "(write_regions (bf + 88) 0 (reported_regions mm) rm, bm(bf := boot_info_of info bf mm))"]
  obtain m3 a3 where
    3: "rbind (map_complete_physical_memory_space_into_kernel C P allocate root highest PHYSICAL_MEMORY_OFFSET (m2, a2)) (\<lambda>(m, a).
       rbind (context_switch C P code root KERNEL_STACK_TOP (?K + entry_point E e) bf (GlobalDescriptorTable_load gdt gf s0, m)) (\<lambda>(ke, s, m).
         Inr (ke, s, (write_regions (bf + 88) 0 (reported_regions mm) rm, bm(bf := boot_info_of info bf mm)), m, a))) =
       Inr (\<lparr>ke_rip = ?K + entry_point E e, ke_rsp = KERNEL_STACK_TOP - 8, ke_rdi = bf, ke_rbp = 0\<rparr>,
            (GlobalDescriptorTable_load gdt gf s0)\<lparr>cpu_cr3 := root\<rparr>,
            (write_regions (bf + 88) 0 (reported_regions mm) rm, bm(bf := boot_info_of info bf mm)), m3, a3)"
      "ready root m3 a3" "\<And>f. solid root m2 a2 f \<Longrightarrow> solid root m3 a3 f"
      "\<And>f i. solid root m2 a2 f \<Longrightarrow> f \<notin> set fs \<Longrightarrow> i < 4096 \<Longrightarrow> read_byte m3 (f + of_nat i) = read_byte m2 (f + of_nat i)"
      "\<And>p. l4_index C p \<notin> {20 .. 40} \<Longrightarrow> mmu root m3 (page_indices C p) = mmu root m2 (page_indices C p)"
      "\<forall>x \<le> highest. translate_address C P m3 root (PHYSICAL_MEMORY_OFFSET + x) = Some (x, data_flags C OR HUGE_PAGE)"
      "took_table P (avail a2) root m3" by blast
  have "kernel_loaded C P root m m3 ?K kstart hs rs"
  proof (rule kernel_loaded_keep [OF 1(8) hd ro])
    fix p assume p: "p \<in> seg_pages ?K hs"
    from 1(7) [OF p] obtain f e where f: "mmu root m1 (page_indices C p) = Some (Small f e)" "solid root m1 a1 f" by (auto simp: solid_page_def)
    have "page_indices C p \<notin> page_indices C ` (?St \<union> {?c, gf, bf})"
    proof
      assume "page_indices C p \<in> page_indices C ` (?St \<union> {?c, gf, bf})"
      then obtain q where q: "q \<in> ?St \<union> {?c, gf, bf}" "page_indices C p = page_indices C q" by blast
      have "page_indices C q \<notin> page_indices C ` seg_pages ?K hs" by (rule out) (use q(1) lo in blast)
      then show False using imageI [OF p, of "page_indices C"] q(2) by metis
    qed
    then have "mmu root m3 (page_indices C p) = Some (Small f e)" using step_lookup [OF 2(3)] 3(5) [of p] sx(1) [OF p] f(1) by simp
    moreover have "f \<notin> set fs" using f(2) 2(5) by (auto simp: solid_at_def)
    then have "\<forall>i < 4096. read_byte m3 (f + of_nat i) = read_byte m1 (f + of_nat i)"
      using 3(4) keeps_solid [OF stepD(1) [OF 2(3)] f(2)] by simp
    ultimately show "\<exists>f e. mmu root m1 (page_indices C p) = Some (Small f e) \<and> mmu root m3 (page_indices C p) = Some (Small f e) \<and>
        (\<forall>i < 4096. read_byte m3 (f + of_nat i) = read_byte m1 (f + of_nat i))" using f(1) by blast
  qed
  moreover have "pages_mapped C P avail (data_flags C) stack_pages fs root m3 a3"
    using 2(7) 3(3,5) kx(1) by (simp add: pages_mapped_def)
  moreover have "mmu root m3 (page_indices C stack_guard) = None" using 2(8) 3(5) [of stack_guard] kx(1) [of stack_guard] by simp
  moreover have "\<forall>f \<in> {gf, bf}. mmu root m3 (page_indices C f) = Some (Small f (f OR PRESENT)) \<and> solid root m3 a3 f"
    using 2(9) 3(3,5) lo by (simp add: not_le)
  moreover have "\<forall>i < length (gdt_bytes gdt). read_byte m3 (gf + of_nat i) = gdt_bytes gdt ! i"
    using 2(6,9,10) 3(4) [of gf] g(2) by simp
  ultimately have "boot_ready C P avail root m m3 a3 kstart hs rs gdt gf bf highest" unfolding boot_ready_def using 3(6) by blast
  moreover have "inv a2" using readyD(2) [OF stepD(2) [OF 2(3)]] .
  moreover from this have "mx a2 = Inr highest" by (rule mx)
  moreover have "avail a2 \<subseteq> avail a" using keepsD(1) [OF stepD(1) [OF 2(3)]] a1 by blast
  ultimately show ?thesis
    using 1(1) 2(1) 2(2) [unfolded R_def] 3(1,2,7) 2(6) a1 by (intro exI [of _ gf] exI [of _ bf] exI [of _ mm] exI [of _ m3] exI [of _ a3]) auto
qed

end

end
