(* ===== verification/Stage4_Start.thy ===== *)
theory Stage4_Start
  imports Stage4_Boot
begin

text \<open>
  The loader on its own instances: physical memory mapped one to one, frames from the memory map of the
  BIOS. Stage 4 hands a kernel over that finds itself, its stack, its boot information and the physical
  memory in place; and the boot information does not know of the tables that are made after it.
\<close>

section \<open>The contracts are met\<close>

text \<open>The bump allocator keeps its memory map.\<close>

definition e820_inv :: "E820MemoryRegion list \<Rightarrow> e820_allocator \<Rightarrow> bool" where
  "e820_inv mm a \<longleftrightarrow> bump_inv E820MemoryRegion_MemoryRegion a \<and> bump_memory_map a = mm"

abbreviation e820_avail :: "e820_allocator \<Rightarrow> PhysicalFrame set" where
  "e820_avail \<equiv> bump_avail E820MemoryRegion_MemoryRegion"

context memory_region
begin

lemma fixed_map_allocator: "frame_allocator (bump_allocate_frame D) (\<lambda>a. bump_inv D a \<and> bump_memory_map a = mm) (bump_avail D)"
proof (unfold_locales, goal_cases)
  case (1 a fo a')
  then show ?case using bump.inv_step bump_allocate_frameE by fastforce
qed (use bump.avail_step bump.frame_avail bump.frame_aligned in blast)+

end

interpretation e820_bump: frame_allocator e820_frames_allocator "e820_inv mm" e820_avail for mm
  unfolding e820_inv_def by (rule memory_region.fixed_map_allocator [OF e820_region.memory_region_axioms])

lemma stage4_mapper:
  "crates_ok C \<Longrightarrow> identity_mapper (PhysicalOffset_frame_to_virtual 0) (usable_offset 0) e820_frames_allocator (e820_inv mm) e820_avail C"
  by (intro identity_mapper.intro identity_mapper_axioms.intro table_mapper.intro table_mapper_axioms.intro
      offset_mapping.page_table_frame_mapping_axioms e820_bump.frame_allocator_axioms)
    (simp_all add: usable_offset_def PhysicalOffset_frame_to_virtual_def op_add_def)

interpretation stage4_tables: identity_mapper
  "PhysicalOffset_frame_to_virtual 0" "usable_offset 0" e820_frames_allocator "e820_inv mm" e820_avail reference_crates for mm
  by (rule stage4_mapper [OF reference_crates_ok])

section \<open>An empty level 4 table\<close>

lemma cleared_root:
  fixes m :: table_memory
  assumes "root \<noteq> 0" "page_aligned Size4KiB root"
  defines "m0 \<equiv> write_empty_table m root"
  shows "i < 512 \<Longrightarrow> entry_of P m0 root [] i = 0" "path_ok p \<Longrightarrow> table_at P m0 root p = (if p = [] then Some root else None)"
    and "tables P root m0 = {root}" "tables_ok P usable root m0"
proof -
  have z: "m0 (entry_at root i) = 0" if "i < 512" for i 
    using entry_at_page(1) [OF assms(2) that] by (simp add: m0_def write_empty_table_def)
  show e: "i < 512 \<Longrightarrow> entry_of P m0 root [] i = 0" for i using z by (simp add: entry_of_def)
  show t: "path_ok p \<Longrightarrow> table_at P m0 root p = (if p = [] then Some root else None)" for p
    using z by (cases p) (auto simp: path_ok_def child_def table_entry_def)
  show "tables P root m0 = {root}"
  proof -
    have "path_ok []" by (simp add: path_ok_def)
    then show ?thesis using t by (auto simp: tables_def split: if_splits)
  qed
  show "tables_ok P usable root m0"
    using t e assms(1,2) by (auto simp: tables_ok_def entry_of_def table_entry_def split: option.splits if_splits)
qed

section \<open>Stage 4 starts the kernel\<close>

text \<open>
  The state in which stage 4 can do its work: the allocator \<open>a\<close> starts behind the memory in use and has
  frames enough, all below 10 TiB; the file of the kernel, its segments and the code of stage 4 are in
  memory the allocator does not hand out; the headers and relocations of the kernel fit.
\<close>

definition frames_wanted :: "ProgramHeader list \<Rightarrow> PhysicalAddress \<Rightarrow> nat" where
  "frames_wanted hs highest = frames_needed KERNEL_VIRTUAL_BASE hs + 148 + 2 * (unat highest div 2 ^ 21 + 1)"

definition stage4_ready ::
    "crates \<Rightarrow> u64 \<Rightarrow> u64 list \<Rightarrow> E820MemoryRegion list \<Rightarrow> BiosInfo \<Rightarrow> e820_allocator \<Rightarrow> PhysicalAddress \<Rightarrow>
     ProgramHeader list \<Rightarrow> RelocationEntry list \<Rightarrow> bool" where
  "stage4_ready C cs code e820 info a highest hs rs \<longleftrightarrow>
     unat (last_physical_address info) + 4096 < 2 ^ 64 \<and>
     BumpFrameAllocator_new_starting_at E820MemoryRegion_MemoryRegion ((last_physical_address info AND NOT (mask 12)) + 0x1000) e820 = Inr a \<and>
     bump_inv E820MemoryRegion_MemoryRegion a \<and>
     max_physical_address E820MemoryRegion_MemoryRegion a = Inr highest \<and> low_address highest \<and>
     frames_wanted hs highest \<le> length (map_frames E820MemoryRegion_MemoryRegion (bump_memory_map a)) \<and>
     frames_wanted hs highest < 2 ^ 64 \<and>
     (\<forall>f \<in> e820_avail a. frame_bits_ok f \<and> f \<noteq> 0 \<and> low_address f \<and> (\<exists>mm. build_memory_map Size4KiB e820 f = Inr mm)) \<and>
     (\<forall>h \<in> set hs. header_ok KERNEL_VIRTUAL_BASE (pmr_start (bios_kernel info)) h \<and>
        (\<forall>i < pages_of (seg_off KERNEL_VIRTUAL_BASE h) (unat (ph_file_size h)).
           frame_bits_ok (seg_frame (pmr_start (bios_kernel info)) h i) \<and> seg_frame (pmr_start (bios_kernel info)) h i \<noteq> 0 \<and>
           seg_frame (pmr_start (bios_kernel info)) h i \<notin> e820_avail a)) \<and>
     (\<forall>j < unat (pmr_size (bios_kernel info)). (pmr_start (bios_kernel info) + of_nat j) AND NOT (mask 12) \<notin> e820_avail a) \<and>
     distinct (concat (map (seg_indices C KERNEL_VIRTUAL_BASE) hs)) \<and>
     (\<forall>r \<in> set rs. relocation_ok KERNEL_VIRTUAL_BASE (seg_pages KERNEL_VIRTUAL_BASE hs) r) \<and>
     low_address cs \<and> frame_bits_ok (cs AND NOT (mask 12)) \<and> cs AND NOT (mask 12) \<noteq> 0 \<and> cs AND NOT (mask 12) \<notin> e820_avail a \<and>
     (\<forall>ip \<in> set code. ip AND NOT (mask 12) = cs AND NOT (mask 12))"

section \<open>The first frame\<close>

lemma length_gdt_bytes: "length (gdt_bytes gdt) = 8 * length (gdt_entries gdt) + 8"
proof -
  have "length (concat (map (to_le_bytes 8) es)) = 8 * length es" for es :: "u64 list" by (induction es) simp_all
  then show ?thesis by (simp add: gdt_bytes_def del: length_concat)
qed

lemma stage4_GDT_fits:
  assumes "crates_ok C"
  shows "\<exists>gdt. stage4_GDT C = Inr gdt \<and> length (gdt_bytes gdt) \<le> 4096 \<and> (\<forall>p. GlobalDescriptorTableDescriptor_new gdt p = (23, p))"
  by (simp add: stage4_GDT_def kernel_code_segment_def kernel_data_segment_def two_segment_gdt_def
      segment_values [OF assms] segment_privilege add_entry_defs length_gdt_bytes GlobalDescriptorTableDescriptor_new_def)

lemma stage4_root:
  assumes "stage4_ready C cs code e820 info a highest hs rs"
  shows "\<exists>root a1. e820_frames_allocator a = Inr (Some root, a1) \<and> root \<in> e820_avail a - e820_avail a1 \<and>
     e820_avail a1 \<subseteq> e820_avail a \<and> e820_inv (bump_memory_map a) a1 \<and>
     can_supply e820_frames_allocator (frames_needed KERNEL_VIRTUAL_BASE hs + (136 + (3 + (4 + (4 + (2 * (unat highest div 2 ^ 21 + 1) + 0)))))) a1"
proof -
  let ?n = "frames_needed KERNEL_VIRTUAL_BASE hs + (136 + (3 + (4 + (4 + (2 * (unat highest div 2 ^ 21 + 1) + 0)))))"
  have w: "frames_wanted hs highest = Suc ?n" by (simp add: frames_wanted_def)
  have i: "bump_inv E820MemoryRegion_MemoryRegion a" using assms by (simp add: stage4_ready_def)
  have "bump_next a = 0" using assms by (auto simp: stage4_ready_def BumpFrameAllocator_new_starting_at_def rbind_eq_Inr)
  then have "can_supply e820_frames_allocator (Suc ?n) a"
    using assms i w [symmetric] by (intro memory_region.bump_can_supply [OF e820_region.memory_region_axioms]) (simp_all add: stage4_ready_def)
  then obtain root a1 where 1: "e820_frames_allocator a = Inr (Some root, a1)" "can_supply e820_frames_allocator ?n a1"
    unfolding can_supply.simps by blast
  have e: "e820_inv (bump_memory_map a) a" using i by (simp add: e820_inv_def)
  from 1 e820_bump.inv_step [OF e 1(1)] e820_bump.avail_step [OF e 1(1)] e820_bump.frame_avail [OF e 1(1)] show ?thesis by blast
qed

lemma read_byte_cleared: "x AND NOT (mask 12) \<noteq> root \<Longrightarrow> read_byte (write_empty_table m root) x = read_byte m x"
  by (rule read_byte_cong) (simp add: write_empty_table_def)

lemma seg_byte_cleared:
  assumes h: "header_ok vbase kstart h"
    and so: "\<And>i. i < pages_of (seg_off vbase h) (unat (ph_file_size h)) \<Longrightarrow> frame_bits_ok (seg_frame kstart h i) \<and> seg_frame kstart h i \<noteq> root"
  shows "seg_byte (write_empty_table m root) kstart h j = seg_byte m kstart h j"
proof (cases "j < unat (ph_file_size h)")
  case True
  let ?i = "(seg_off vbase h + j) div 4096" and ?b = "(seg_off vbase h + j) mod 4096"
  have e: "seg_off vbase h + j = 4096 * ?i + ?b" by simp
  have "4096 * ?i \<le> seg_off vbase h + j" by simp
  then have "4096 * ?i < 4096 * pages_of (seg_off vbase h) (unat (ph_file_size h))"
    using pages_of_covers [of "seg_off vbase h" "unat (ph_file_size h)"] True by linarith
  then have i: "?i < pages_of (seg_off vbase h) (unat (ph_file_size h))" by simp
  have "(seg_frame kstart h ?i + of_nat ?b) AND NOT (mask 12) = seg_frame kstart h ?i"
    using so [OF i] by (intro frame_address frame_bits_page_aligned) simp_all
  then have "read_byte (write_empty_table m root) (seg_frame kstart h ?i + of_nat ?b) = read_byte m (seg_frame kstart h ?i + of_nat ?b)"
    using so [OF i] by (intro read_byte_cleared) simp
  then show ?thesis using True seg_frame_byte [OF h e] by (simp add: seg_byte_def)
qed (simp add: seg_byte_def)

section \<open>From the start to the jump\<close>

definition stage4_cpu :: "crates \<Rightarrow> (kernel_handler \<Rightarrow> u64) \<Rightarrow> u64 \<Rightarrow> cpu \<Rightarrow> cpu" where
  "stage4_cpu C addr idt_ptr s = enable_write_protect_bit C (enable_nxe_bit C (stage4_interrupts_init C addr idt_ptr s))"

lemma stage4_cpu_bits:
  assumes "crates_ok C"
  shows "bit (cpu_msr (stage4_cpu C addr idt_ptr s) MSR_NUM) 11" "bit (cpu_cr0 (stage4_cpu C addr idt_ptr s)) 16"
    "cpu_idtr (stage4_cpu C addr idt_ptr s) = InterruptTableDescriptor_for (stage4_IDT C (cpu_cs s) addr) idt_ptr"
  using crates_okD(2,5) [OF assms]
  by (simp_all add: stage4_cpu_def enable_write_protect_bit_def enable_nxe_bit_def stage4_interrupts_init_def CS_read_def
      Efer_update_def Efer_write_def Efer_write_raw_def Msr_write_eq Cr0_update_def Cr0_write_def Cr0_write_raw_def
      NO_EXECUTE_ENABLE_def WRITE_PROTECT_def bit_simps)

lemma stage4_image:
  fixes m :: table_memory
  assumes C: "crates_ok C" and rd: "stage4_ready C cs code e820 info a highest hs rs"
    and root: "root \<in> e820_avail a - e820_avail a1" "e820_avail a1 \<subseteq> e820_avail a" "e820_inv (bump_memory_map a) a1"
  defines "m0 \<equiv> write_empty_table m root" and "P \<equiv> PhysicalOffset_frame_to_virtual 0"
  shows "mapper_ready P (usable_offset 0) (e820_inv (bump_memory_map a)) e820_avail root m0 a1"
    and "image_ok C P e820_avail root m0 a1 KERNEL_VIRTUAL_BASE (pmr_start (bios_kernel info)) hs rs"
    and "solid_at P e820_avail root m0 a1 (cs AND NOT (mask 12))"
    and "\<And>i. i < 512 \<Longrightarrow> entry_of P m0 root [] i = 0"
proof -
  note r = rd [unfolded stage4_ready_def]
  have f: "frame_bits_ok f" "f \<noteq> 0" "page_aligned Size4KiB f" if "f \<in> e820_avail a" for f
    using r that frame_bits_page_aligned by blast+
  have rt: "root \<noteq> 0" "page_aligned Size4KiB root" using f root(1) by blast+
  note c = cleared_root [OF rt, where m = m, folded m0_def]
  have t: "tables P root m0 = {root}" using c(3) by blast
  have "usable_offset 0 f \<and> projr (P f) = f" if "f \<in> e820_avail a" for f
    using f [OF that] unat_less_exp [of f] by (simp add: usable_offset_def P_def PhysicalOffset_frame_to_virtual_def op_add_def page_aligned_def)
  then show "mapper_ready P (usable_offset 0) (e820_inv (bump_memory_map a)) e820_avail root m0 a1"
    unfolding mapper_ready_def fresh_frames_def using c(4) root t by auto
  show e: "entry_of P m0 root [] i = 0" if "i < 512" for i using c(1) that by blast
  have so: "solid_at P e820_avail root m0 a1 g" if "frame_bits_ok g" "g \<noteq> 0" "g \<notin> e820_avail a" for g
    using that root t by (auto simp: solid_at_def)
  show "solid_at P e820_avail root m0 a1 (cs AND NOT (mask 12))" using r so by blast
  note em = identity_mapper.empty_root [OF stage4_mapper [OF C], folded P_def, of m0 root, OF e]
  show "image_ok C P e820_avail root m0 a1 KERNEL_VIRTUAL_BASE (pmr_start (bios_kernel info)) hs rs"
    unfolding image_ok_def using r so em table_mapper.indices_ok_page [OF identity_mapper.axioms(1) [OF stage4_mapper [OF C]]] by blast
qed

lemma stage4_boots:
  fixes E :: "('e, table_memory \<times> e820_allocator) elf_crate"
  assumes C: "crates_ok C" and e820: "e820 = E820_from_raw_parts em (memory_map_address info) (unat (memory_map_size info))"
    and rd: "stage4_ready C cs code e820 info a highest hs rs"
    and E: "ptr_read m (pmr_start (bios_kernel info)) (unat (pmr_size (bios_kernel info))) = Inr kern" "ElfBinary_new E kern = Some e"
      "elf_file E e hs loads rs" "unat KERNEL_VIRTUAL_BASE + unat (entry_point E e) < 2 ^ 64"
  defines "P \<equiv> PhysicalOffset_frame_to_virtual 0"
  shows "\<exists>gdt root gf bf mm m' a'. stage4_GDT C = Inr gdt \<and> (\<forall>p. GlobalDescriptorTableDescriptor_new gdt p = (23, p)) \<and>
     build_memory_map Size4KiB e820 bf = Inr mm \<and>
     stage4_start E C addr idt_ptr cs code em info (rm, bm) s m =
       Inr (\<lparr>ke_rip = KERNEL_VIRTUAL_BASE + entry_point E e, ke_rsp = KERNEL_STACK_TOP - 8, ke_rdi = bf, ke_rbp = 0\<rparr>,
            (GlobalDescriptorTable_load gdt gf (stage4_cpu C addr idt_ptr s))\<lparr>cpu_cr3 := root\<rparr>,
            (write_regions (bf + 88) 0 (reported_regions mm) rm, bm(bf := boot_info_of info bf mm)), m', a') \<and>
     {root, gf, bf} \<subseteq> e820_avail a \<and>
     mapper_ready P (usable_offset 0) (e820_inv (bump_memory_map a)) e820_avail root m' a' \<and>
     (\<exists>a2. e820_inv (bump_memory_map a) a2 \<and> e820_avail a2 \<subseteq> e820_avail a \<and> bf \<notin> e820_avail a2 \<and> took_table P (e820_avail a2) root m') \<and>
     boot_ready C P e820_avail root m m' a' (pmr_start (bios_kernel info)) hs rs gdt gf bf highest"
proof -
  let ?k = "bios_kernel info" and ?h = "unat highest div 2 ^ 21 + 1"
  note r = rd [unfolded stage4_ready_def]
  obtain gdt where g: "stage4_GDT C = Inr gdt" "length (gdt_bytes gdt) \<le> 4096" "\<forall>p. GlobalDescriptorTableDescriptor_new gdt p = (23, p)"
    using stage4_GDT_fits [OF C] by blast
  from stage4_root [OF rd] obtain root a1 where
    1: "e820_frames_allocator a = Inr (Some root, a1)" "root \<in> e820_avail a - e820_avail a1" "e820_avail a1 \<subseteq> e820_avail a"
      "e820_inv (bump_memory_map a) a1"
      "can_supply e820_frames_allocator (frames_needed KERNEL_VIRTUAL_BASE hs + (136 + (3 + (4 + (4 + (2 * ?h + 0)))))) a1" by blast
  define m0 where "m0 = write_empty_table m root"
  note i = stage4_image [OF C rd 1(2-4), where m = m, folded m0_def P_def]
  have rt: "root \<noteq> 0" "page_aligned Size4KiB root" using r 1(2) frame_bits_page_aligned by blast+
  have k0: "ptr_read m0 (pmr_start ?k) (unat (pmr_size ?k)) = Inr kern"
  proof -
    have "read_byte m0 (pmr_start ?k + of_nat j) = read_byte m (pmr_start ?k + of_nat j)" if "j < unat (pmr_size ?k)" for j
      unfolding m0_def by (rule read_byte_cleared) (use r 1(2) that in blast)
    then show ?thesis using E(1) by (auto simp: ptr_read_def split: if_splits)
  qed
  have mx: "max_physical_address E820MemoryRegion_MemoryRegion b = Inr highest" if "e820_inv (bump_memory_map a) b" for b
    using r that by (simp add: max_physical_address_def e820_inv_def)
  have lo: "low_address f" "\<exists>mm. build_memory_map Size4KiB e820 f = Inr mm" if "f \<in> e820_avail a1" for f using r 1(3) that by blast+
  have cs: "low_address cs" "low_address highest" and code: "\<And>ip. ip \<in> set code \<Longrightarrow> ip AND NOT (mask 12) = cs AND NOT (mask 12)" using r by blast+
  have nf: "PhysicalFrame_containing_address Size4KiB (last_physical_address info) = Inr (last_physical_address info AND NOT (mask 12))"
    "PhysicalFrame_add Size4KiB (last_physical_address info AND NOT (mask 12)) 1 = Inr ((last_physical_address info AND NOT (mask 12)) + 0x1000)"
  proof -
    let ?l = "last_physical_address info AND NOT (mask 12)"
    have "unat ?l \<le> unat (last_physical_address info)" by (simp add: unat_and_not_mask)
    then have u: "unat ?l + 4096 < 2 ^ 64" using r by simp
    have "page_aligned Size4KiB (?l + 0x1000)"
      using page_aligned_containing [of Size4KiB "last_physical_address info"] u
      by (simp add: page_aligned_iff_dvd unat_plus_nowrap dvd_add)
    from containing_aligned [OF this] u show "PhysicalFrame_add Size4KiB ?l 1 = Inr (?l + 0x1000)"
      by (simp add: PhysicalFrame_add_def op_mul_def op_add_def PhysicalAddress_add_def)
  qed simp
  have init: "PageTable_initialize_empty_at_address m root = Inr m0" 
    unfolding m0_def using rt by (rule PageTable_at_address_aligned(2))
  have bn: "BumpFrameAllocator_new_starting_at E820MemoryRegion_MemoryRegion ((last_physical_address info AND NOT (mask 12)) + 0x1000) e820 = Inr a"
    using r by blast
  have eq: "stage4_start E C addr idt_ptr cs code em info (rm, bm) s m =
     rbind (load_kernel E C P e820_frames_allocator root KERNEL_VIRTUAL_BASE (pmr_start ?k) (pmr_size ?k) (m0, a1)) (\<lambda>(entry, m, a).
     rbind (allocate_and_map_stack C P e820_frames_allocator root (m, a)) (\<lambda>(stack_top, m, a).
     rbind (identity_map_context_switch_function C P e820_frames_allocator root cs (m, a)) (\<lambda>(m, a).
     rbind (initialize_and_map_gdt C P e820_frames_allocator root (stage4_cpu C addr idt_ptr s, m, a)) (\<lambda>(s, m, a).
     rbind (allocate_and_map_boot_info C P e820_frames_allocator root info e820 ((rm, bm), m, a)) (\<lambda>(bi, bm, m, a).
     rbind (max_physical_address E820MemoryRegion_MemoryRegion a) (\<lambda>highest.
     rbind (map_complete_physical_memory_space_into_kernel C P e820_frames_allocator root highest PHYSICAL_MEMORY_OFFSET (m, a)) (\<lambda>(m, a).
     rbind (context_switch C P code root stack_top entry bi (s, m)) (\<lambda>(ke, s, m). Inr (ke, s, bm, m, a)))))))))"
    by (simp only: stage4_start_def Let_def e820 [symmetric] bn stage4_cpu_def [symmetric] P_def [symmetric] nf 1(1) init
        rbind_Inr split_conv expect_simps)
  have kl: "kernel_loaded C P root m m' KERNEL_VIRTUAL_BASE (pmr_start ?k) hs rs"
    if "kernel_loaded C P root m0 m' KERNEL_VIRTUAL_BASE (pmr_start ?k) hs rs" for m'
  proof -
    have "seg_byte m0 (pmr_start ?k) h j = seg_byte m (pmr_start ?k) h j" if "h \<in> set hs" for h j
      unfolding m0_def using r 1(2) that by (intro seg_byte_cleared [where vbase = KERNEL_VIRTUAL_BASE]) blast+
    then show ?thesis using that by (simp add: kernel_loaded_def)
  qed
  from identity_mapper.boot_kernel [OF stage4_mapper [OF C], folded P_def, where mx = "max_physical_address E820MemoryRegion_MemoryRegion"
      and ?s0.0 = "stage4_cpu C addr idt_ptr s" and info = info and rm = rm and bm = bm and code = code,
      OF i(1,4) 1(5) k0 E(2-4) i(2) lo(1) i(3) cs(1) code g(1,2) lo(2) mx cs(2) refl, folded eq]
  obtain gf bf mm m' a' where
    b: "build_memory_map Size4KiB e820 bf = Inr mm"
      "stage4_start E C addr idt_ptr cs code em info (rm, bm) s m =
        Inr (\<lparr>ke_rip = KERNEL_VIRTUAL_BASE + entry_point E e, ke_rsp = KERNEL_STACK_TOP - 8, ke_rdi = bf, ke_rbp = 0\<rparr>,
            (GlobalDescriptorTable_load gdt gf (stage4_cpu C addr idt_ptr s))\<lparr>cpu_cr3 := root\<rparr>,
            (write_regions (bf + 88) 0 (reported_regions mm) rm, bm(bf := boot_info_of info bf mm)), m', a')"
      "mapper_ready P (usable_offset 0) (e820_inv (bump_memory_map a)) e820_avail root m' a'" "{gf, bf} \<subseteq> e820_avail a1"
      "\<exists>a2. e820_inv (bump_memory_map a) a2 \<and> e820_avail a2 \<subseteq> e820_avail a1 \<and> bf \<notin> e820_avail a2 \<and> took_table P (e820_avail a2) root m'"
      "boot_ready C P e820_avail root m0 m' a' (pmr_start ?k) hs rs gdt gf bf highest"
    by - ((drule meta_mp, assumption)+, elim exE conjE, rule that, assumption+, intro exI conjI, assumption+)
  have "boot_ready C P e820_avail root m m' a' (pmr_start ?k) hs rs gdt gf bf highest"
    using b(6) unfolding boot_ready_def by (elim conjE) (intro conjI, erule kl, assumption+)
  moreover have "\<exists>a2. e820_inv (bump_memory_map a) a2 \<and> e820_avail a2 \<subseteq> e820_avail a \<and> bf \<notin> e820_avail a2 \<and> took_table P (e820_avail a2) root m'"
    using b(5) 1(3) by blast
  moreover have "{root, gf, bf} \<subseteq> e820_avail a" using b(4) 1(2,3) by blast
  ultimately show ?thesis using b(1-3) g(1,3)
    by - ((rule exI)+, (rule conjI, assumption)+, assumption)
qed

end
