(* ===== verification/Stage4_Properties.thy ===== *)
theory Stage4_Properties
  imports Stage4_Start
begin

text \<open>
  What stage 4 hands over, as properties of \<open>start\<close>: the kernel is entered with everything in place, and
  the memory map of its boot information counts frames as free that hold its page tables. Both are
  applied to an example with one region of memory and a kernel of one segment.
\<close>

section \<open>A memory map with one region\<close>

definition single_region :: "BiosInfo \<Rightarrow> E820MemoryRegion \<Rightarrow> bool" where
  "single_region info r \<longleftrightarrow> E820MemoryRegion_is_usable r \<and> (last_physical_address info AND NOT (mask 12)) + 0x1000 = e820_start r \<and>
     e820_start r \<noteq> 0 \<and> page_aligned Size4KiB (e820_start r) \<and> page_aligned Size4KiB (e820_size r) \<and>
     unat (e820_start r) + unat (e820_size r) < 2 ^ 64"

lemma single_region_frames:
  assumes "single_region info r"
  shows "map_frames E820MemoryRegion_MemoryRegion [r] = map (\<lambda>i. e820_start r + of_nat i * 0x1000) [0 ..< unat (e820_size r) div 4096]"
    and "\<And>i. i < unat (e820_size r) div 4096 \<Longrightarrow> unat (e820_start r + of_nat i * 0x1000) = unat (e820_start r) + 4096 * i"
proof -
  let ?D = E820MemoryRegion_MemoryRegion and ?n = "unat (e820_size r) div 4096"
  obtain k where k: "unat (e820_size r) = 4096 * k" using assms by (auto simp: single_region_def page_aligned_iff_dvd elim!: dvdE)
  then have n: "unat (e820_size r) = 4096 * ?n" and c: "(unat (e820_size r) + 4095) div 4096 = ?n" by simp_all
  show u: "unat (e820_start r + of_nat i * 0x1000) = unat (e820_start r) + 4096 * i" if "i < ?n" for i
  proof -
    have "unat (e820_start r) + 4096 * i < 2 ^ 64" "4096 * i < 2 ^ 64" using that n assms by (simp_all add: single_region_def)
    then show ?thesis by (simp add: unat_word_ariths unat_of_nat mod_simps mult.commute)
  qed
  have "(e820_start r + of_nat i * 0x1000) AND NOT (mask 12) = e820_start r + of_nat i * 0x1000" if "i < ?n" for i
  proof -
    have "page_aligned Size4KiB (e820_start r + of_nat i * 0x1000)"
      using u [OF that] assms by (simp add: single_region_def page_aligned_iff_dvd dvd_add)
    from containing_aligned [OF this] show ?thesis by simp
  qed
  then show "map_frames ?D [r] = map (\<lambda>i. e820_start r + of_nat i * 0x1000) [0 ..< ?n]"
    using assms c by (auto simp: region_frames_def E820MemoryRegion_MemoryRegion_def single_region_def)
qed

lemma single_region_allocator:
  assumes "single_region info r" "BumpFrameAllocator_new_starting_at E820MemoryRegion_MemoryRegion ((last_physical_address info AND NOT (mask 12)) + 0x1000) [r] = Inr a"
  shows "a = \<lparr>bump_memory_map = [r], bump_next = 0\<rparr>"
proof -
  let ?D = E820MemoryRegion_MemoryRegion
  have "region_in_range ?D r" "mr_is_usable ?D r" "mr_set_start ?D r (e820_start r) = r" "mr_start ?D r = e820_start r"
    using assms(1) by (simp_all add: single_region_def region_in_range_def E820MemoryRegion_MemoryRegion_def)
  then have "advance_to_frame ?D (e820_start r) [r] = Inr [r]"
    using memory_region.advance_to_frame_hit [OF e820_region.memory_region_axioms, of r "e820_start r" "[]"] by simp
  then show ?thesis using assms by (simp add: single_region_def BumpFrameAllocator_new_starting_at_def)
qed

text \<open>The frames behind the last one that is cut off are reported as free.\<close>

lemma frames_behind_free:
  assumes sr: "single_region info r" and b: "build_memory_map Size4KiB [r] bf = Inr mm"
    and bf: "unat bf = unat (e820_start r) + 4096 * j" and t: "t = e820_start r + of_nat i * 0x1000" "j < i" "i < unat (e820_size r) div 4096"
  shows "t \<in> bump_avail PhysicalMemoryRegion_MemoryRegion (BumpFrameAllocator_new (reported_regions mm))"
proof -
  let ?s = "e820_start r" and ?z = "e820_size r" and ?D = PhysicalMemoryRegion_MemoryRegion
  obtain k where k: "unat ?z = 4096 * k" using sr by (auto simp: single_region_def page_aligned_iff_dvd elim!: dvdE)
  have ik: "i < k" using t(3) k by simp
  have e: "unat (?s + ?z) = unat ?s + 4096 * k" using sr k by (simp add: single_region_def unat_plus_nowrap)
  have f: "unat (bf + 4096) = unat ?s + 4096 * Suc j"
    using bf t(2) ik e unat_less_exp [of "?s + ?z"] by (simp add: unat_plus_nowrap)
  have cut: "cut_by bf r" using sr bf t(2) ik k by (simp add: cut_by_def single_region_def)
  have ne: "bf + 4096 \<noteq> ?s + ?z"
  proof
    assume "bf + 4096 = ?s + ?z"
    with f e have "4096 * Suc j = 4096 * k" by simp
    with ik t(2) show False by simp
  qed
  let ?w = "?s + ?z - (bf + 4096)"
  have w: "unat ?w = 4096 * (k - Suc j)"
    using f e ik t(2) by (simp add: unat_sub_if_size word_size diff_mult_distrib2 del: mult_Suc_right)
  have sp: "split_region bf r = [PhysicalMemoryRegion_new ?s (bf + 4096 - ?s) Reserved, PhysicalMemoryRegion_new (bf + 4096) ?w Free]"
    using cut ne by (simp add: split_region_def)
  have "splittable bf r" "\<not> low_region r" using sr bf ik t(2) k by (simp_all add: splittable_def single_region_def low_region_def)
  with build_memory_map_split [of bf "[r]"] b sp have rr: "reported_regions mm = split_region bf r" by auto
  have "unat t = unat ?s + 4096 * i" using single_region_frames(2) [OF sr t(3)] t(1) by simp
  then have ut: "t = bf + 4096 + of_nat (i - Suc j) * 0x1000" "page_aligned Size4KiB t"
  proof -
    obtain d where d: "i = Suc j + d" using t(2) by (metis less_iff_Suc_add add_Suc)
    have bw: "bf = ?s + of_nat j * 0x1000" using single_region_frames(2) [OF sr, of j] t bf by (simp add: word_unat_eq_iff)
    show "t = bf + 4096 + of_nat (i - Suc j) * 0x1000" unfolding t(1) bw d by (simp add: algebra_simps)
    show "page_aligned Size4KiB t" using \<open>unat t = unat ?s + 4096 * i\<close> sr by (simp add: single_region_def page_aligned_iff_dvd dvd_add)
  qed
  then have "t = (bf + 4096 + of_nat (i - Suc j) * SIZE Size4KiB) AND NOT (mask 12)" using containing_aligned [OF ut(2)] by simp
  moreover have "i - Suc j < (unat ?w + 4095) div 4096" using w ik t(2) by simp
  ultimately have "t \<in> set (region_frames ?D (PhysicalMemoryRegion_new (bf + 4096) ?w Free))"
    unfolding region_frames_def PhysicalMemoryRegion_MemoryRegion_def PhysicalMemoryRegion_new_def by auto
  then show ?thesis
    unfolding rr sp by (simp add: bump_avail_def BumpFrameAllocator_new_def PhysicalMemoryRegion_MemoryRegion_def
        PhysicalMemoryRegion_is_usable_def PhysicalMemoryRegion_new_def)
qed

section \<open>Relocations at the end of a page\<close>

context identity_mapper
begin

lemma relocation_page_end:
  assumes ok: "tables_ok P usable root m"
    and ad: "re_addend entry = Some ad" "unat vbase + unat ad < 2 ^ 64" "unat vbase + unat (re_offset entry) + 16384 < 2 ^ 64"
    and va: "va = vbase + re_offset entry" "unat va mod 4096 = 4088"
    and pages: "data_page C P root m (va AND NOT (mask 12)) f"
      "no_huge_above root m (va + 8)" "mmu root m (page_indices C (va + 8)) = None"
  shows "handle_relative_relocation C P root vbase entry m = Inl Unwrap_None"
proof -
  define bs where "bs = to_le_bytes 8 (vbase + ad)"
  define m1 where "m1 = write_bytes m (f + of_nat 4088) bs"
  let ?p = "va AND NOT (mask 12)"
  have lb: "length bs = 8" by (simp add: bs_def)
  have uv: "unat va = unat vbase + unat (re_offset entry)" using ad(3) va by (simp add: unat_plus_nowrap)
  have fit: "unat va + 8192 < 2 ^ 64" using uv ad(3) by simp
  have "(va + of_nat 8) AND NOT (mask 12) = ?p + 0x1000" using page_of_offset(1) [OF va(2) [symmetric] fit, of 8] by simp
  moreover have "(unat va + 8) mod 4096 = (unat va mod 4096 + 8) mod 4096" by (simp only: mod_add_left_eq)
  then have "(unat va + 8) mod 4096 = 0" unfolding va(2) by simp
  then have "page_aligned Size4KiB (va + 8)" using fit by (simp add: page_aligned_def unat_plus_nowrap)
  ultimately have q: "?p + 0x1000 = va + 8" using containing_aligned [of Size4KiB "va + 8"] by simp
  have t1: "relocation_turn C P root va bs ?p (m, 0) = Inr (m1, 8)"
    using relocation_turn_first [OF ok pages(1) lb va(2) [symmetric] fit, of 8] lb by (simp add: m1_def)
  have w: "4088 + length bs \<le> 4096" using lb by simp
  note d = data_page_write [OF ok pages(1) w, folded m1_def]
  have "no_huge_above root m1 (va + 8)"
    using pages(2) d(5) table_index_less [OF crates] by (simp add: no_huge_above_page_def path_ok_def)
  from translate_4KiB_spec [OF d(1) this] d(2) [OF indices_ok_page] pages(3)
  have "translate_4KiB C P root m1 (va + 8) = Inr (Inl NotMapped)" by simp
  then have t2: "relocation_turn C P root va bs (va + 8) (m1, 8) = Inl Unwrap_None" by (simp add: relocation_turn_def)
  show ?thesis unfolding handle_relocation_eq [OF ad va(1) va(2) [symmetric]] bs_def [symmetric] q using t1 t2 by simp
qed

end

section \<open>An example\<close>

definition example_region :: E820MemoryRegion where
  "example_region = \<lparr>e820_start = 0x100000, e820_size = 0x100000, e820_typ = E820_Normal, acpi_extended_attributes = 1\<rparr>"

definition example_header :: ProgramHeader where
  "example_header = \<lparr>ph_offset = 0x1000, ph_virtual_addr = 0x1000, ph_file_size = 0x800, ph_mem_size = 0x1800,
     ph_is_execute = True, ph_is_write = False\<rparr>"

definition example_relocation :: RelocationEntry where
  "example_relocation = \<lparr>re_type = R_AMD64_RELATIVE, re_offset = 0x1010, re_addend = Some 0x1000\<rparr>"

definition example_elf :: "(unit, 's) elf_crate" where
  "example_elf = \<lparr>ElfBinary_new = (\<lambda>_. Some ()), entry_point = (\<lambda>_. 0x1000),
     ElfBinary_load = (\<lambda>_ L st. rbind (elf_allocate L [example_header] st) (\<lambda>st.
        rbind (elf_relocate L example_relocation st) (\<lambda>st. Inr (True, st))))\<rparr>"

definition example_boot_info :: BootInfo where
  "example_boot_info = BootInfo_new (PhysicalMemoryRegion_new 0 0 Used)
     (FramebufferInfo_new (PhysicalMemoryRegion_new 0 0 Used) 0 0 0 0 Rgb) (PhysicalMemoryRegions_new 0 1) 0"

definition example_bios_info :: BiosInfo where
  "example_bios_info = BiosInfo_new (PhysicalMemoryRegion_new 0x9000 0x10000 Reserved) (PhysicalMemoryRegion_new 0x40000 0x2000 Reserved)
     (bi_framebuffer example_boot_info) 0xFF000 0x500 1"

definition example_allocator :: e820_allocator where
  "example_allocator = \<lparr>bump_memory_map = [example_region], bump_next = 0\<rparr>"

lemma example_elf_file: "elf_file example_elf () [example_header] [] [example_relocation]"
  by (simp add: elf_file_def example_elf_def rbind_assoc)

lemma example_single: "single_region example_bios_info example_region"
  by (simp add: single_region_def example_bios_info_def BiosInfo_new_def example_region_def E820MemoryRegion_is_usable_def
      page_aligned_def mask_eq_exp_minus_1)

lemma example_avail: "f \<in> e820_avail example_allocator \<longleftrightarrow> (\<exists>i < 256. f = 0x100000 + of_nat i * 0x1000)"
  "i < 256 \<Longrightarrow> unat (0x100000 + of_nat i * 0x1000 :: u64) = 0x100000 + 4096 * i"
  using single_region_frames [OF example_single]
  by (auto simp: bump_avail_def example_allocator_def example_region_def)

lemma example_frame:
  assumes "f \<in> e820_avail example_allocator"
  shows "0x100000 \<le> unat f" "unat f + 4096 \<le> 0x200000" "page_aligned Size4KiB f"
  using assms by (auto simp: example_avail page_aligned_iff_dvd)

lemma example_outside: "unat f < 0x100000 \<Longrightarrow> f \<notin> e820_avail example_allocator"
  using example_frame(1) [of f] by auto

lemma example_pages:
  "pages_of (seg_off KERNEL_VIRTUAL_BASE example_header) (seg_len example_header) = 2"
  "pages_of (seg_off KERNEL_VIRTUAL_BASE example_header) (unat (ph_file_size example_header)) = 1"
  "seg_page KERNEL_VIRTUAL_BASE example_header 0 = 0xffffffff80001000" "seg_page KERNEL_VIRTUAL_BASE example_header (Suc 0) = 0xffffffff80002000"
  "seg_frame 0x40000 example_header 0 = 0x41000"
  by (simp_all add: seg_page_def seg_off_def seg_len_def pages_of_def KERNEL_VIRTUAL_BASE_def example_header_def
      seg_frame_def mask_eq_exp_minus_1)

lemma example_segment:
  "seg_pages KERNEL_VIRTUAL_BASE [example_header] = {0xffffffff80001000, 0xffffffff80002000}"
  "frames_needed KERNEL_VIRTUAL_BASE [example_header] = 12"
proof -
  have "{..< (2 :: nat)} = {0, 1}" by auto
  then show "seg_pages KERNEL_VIRTUAL_BASE [example_header] = {0xffffffff80001000, 0xffffffff80002000}"
    by (simp add: seg_pages_def example_pages)
  show "frames_needed KERNEL_VIRTUAL_BASE [example_header] = 12" by (simp add: frames_needed_def example_pages)
qed

lemma example_distinct: "distinct (seg_indices reference_crates KERNEL_VIRTUAL_BASE example_header)"
proof -
  have "[0 ..< (2 :: nat)] = [0, 1]" by (simp add: upt_rec)
  moreover have "l1_index reference_crates (0xffffffff80001000 :: u64) \<noteq> l1_index reference_crates 0xffffffff80002000"
    by (simp add: unat_index [OF reference_crates_ok])
  ultimately show ?thesis by (simp add: seg_indices_def example_pages page_indices_def)
qed

lemma example_relocation_ok: "relocation_ok KERNEL_VIRTUAL_BASE {0xffffffff80001000, 0xffffffff80002000} example_relocation"
  by (simp add: relocation_ok_def example_relocation_def KERNEL_VIRTUAL_BASE_def mask_eq_exp_minus_1)

lemma example_memory_map:
  assumes "f \<in> e820_avail example_allocator"
  shows "\<exists>mm. build_memory_map Size4KiB [example_region] f = Inr mm"
proof -
  have "list_all (splittable f) [example_region]" "\<not> list_ex low_region [example_region]"
    "length (concat (map (split_region f) [example_region])) < 0x20"
    using example_frame [OF assms] by (simp_all add: splittable_def split_region_def low_region_def example_region_def)
  from build_memory_map_split [OF this] show ?thesis by blast
qed

lemma example_stage4_ready:
  "stage4_ready reference_crates 0x9000 [0x9003, 0x9006] [example_region] example_bios_info example_allocator 0x200000
     [example_header] [example_relocation]"
proof -
  let ?D = E820MemoryRegion_MemoryRegion
  have k: "pmr_start (bios_kernel example_bios_info) = 0x40000" "pmr_size (bios_kernel example_bios_info) = 0x2000"
    "last_physical_address example_bios_info = 0xFF000"
    by (simp_all add: example_bios_info_def BiosInfo_new_def PhysicalMemoryRegion_new_def)
  have new: "BumpFrameAllocator_new_starting_at ?D ((0xFF000 AND NOT (mask 12)) + 0x1000) [example_region] = Inr example_allocator"
  proof -
    have "advance_to_frame ?D 0x100000 [example_region] = Inr [example_region]"
      by (simp add: E820MemoryRegion_MemoryRegion_def E820MemoryRegion_contains_def E820MemoryRegion_end_def op_add_def
          example_region_def E820MemoryRegion_is_usable_def)
    then show ?thesis by (simp add: BumpFrameAllocator_new_starting_at_def example_allocator_def mask_eq_exp_minus_1)
  qed
  have "well_formed_map ?D [example_region]"
    by (simp add: region_in_range_def page_aligned_def E820MemoryRegion_MemoryRegion_def example_region_def)
  then have inv: "bump_inv ?D example_allocator" by (intro well_formed_map_bump_inv) (simp add: example_allocator_def)
  have hi: "max_physical_address ?D example_allocator = Inr 0x200000"
    by (simp add: max_physical_address_def example_allocator_def E820MemoryRegion_MemoryRegion_def E820MemoryRegion_end_def
        example_region_def op_add_def)
  have len: "length (map_frames ?D (bump_memory_map example_allocator)) = 256"
    using single_region_frames(1) [OF example_single] by (simp add: example_allocator_def example_region_def)
  have fr: "frame_bits_ok f \<and> f \<noteq> 0 \<and> low_address f \<and> (\<exists>mm. build_memory_map Size4KiB [example_region] f = Inr mm)"
    if "f \<in> e820_avail example_allocator" for f
    using example_frame [OF that] example_memory_map [OF that] by (auto intro: frame_bits_okI simp: low_address_def)
  have fb: "frame_bits_ok 0x41000" "frame_bits_ok 0x9000" by (simp_all add: frame_bits_ok_def frame_of_eq_and)
  have hd: "header_ok KERNEL_VIRTUAL_BASE 0x40000 example_header"
    by (simp add: header_ok_def KERNEL_VIRTUAL_BASE_def example_header_def seg_len_def)
  have kern: "(0x40000 + of_nat j) AND NOT (mask 12) \<notin> e820_avail example_allocator" if "j < unat (0x2000 :: u64)" for j
  proof (rule example_outside)
    have "unat (0x40000 + of_nat j :: u64) = 0x40000 + j" using that by (simp add: unat_word_ariths unat_of_nat)
    then show "unat ((0x40000 + of_nat j :: u64) AND NOT (mask 12)) < 0x100000" using that by (simp add: unat_and_not_mask)
  qed
  show ?thesis
    unfolding stage4_ready_def k using new inv hi len fr hd kern example_distinct example_relocation_ok fb
    by (simp add: example_pages example_segment frames_wanted_def low_address_def example_outside mask_eq_exp_minus_1)
qed

lemma example_start:
  "[example_region] = E820_from_raw_parts (\<lambda>_. example_region) (memory_map_address example_bios_info) (unat (memory_map_size example_bios_info))"
  "ptr_read (\<lambda>_. 0) (pmr_start (bios_kernel example_bios_info)) (unat (pmr_size (bios_kernel example_bios_info))) =
      Inr (map (\<lambda>i. read_byte (\<lambda>_. 0) (0x40000 + of_nat i)) [0 ..< 0x2000])"
  "ElfBinary_new example_elf bytes = Some ()" "unat KERNEL_VIRTUAL_BASE + unat (entry_point example_elf ()) < 2 ^ 64"
  by (simp_all add: E820_from_raw_parts_def example_bios_info_def BiosInfo_new_def ptr_read_def PhysicalMemoryRegion_new_def
      example_elf_def KERNEL_VIRTUAL_BASE_def del: upt_rec_numeral)

section \<open>Properties\<close>

lemma drop_order:
  assumes "x \<in> set xs" "x \<notin> set (drop n xs)" "y \<in> set (drop n xs)"
  shows "\<exists>j i. j < i \<and> i < length xs \<and> x = xs ! j \<and> y = xs ! i"
proof -
  obtain j where j: "j < length xs" "x = xs ! j" using assms(1) by (auto simp: in_set_conv_nth)
  obtain i where i: "i < length xs - n" "y = xs ! (n + i)" using assms(3) by (auto simp: in_set_conv_nth)
  have "j < n"
  proof (rule ccontr)
    assume "\<not> j < n"
    then have "x = drop n xs ! (j - n)" "j - n < length (drop n xs)" using j by simp_all
    then show False using assms(2) by (metis nth_mem)
  qed
  with i j show ?thesis by (intro exI [of _ j] exI [of _ "n + i"]) simp
qed

text \<open>
  C2. Stage 4 starts the kernel: when the state is as \<open>stage4_ready\<close> says, the kernel's file parses and
  its entry point does not wrap around, \<open>start\<close> reaches the jump. The kernel is entered at its entry
  point with its stack and the address of the boot information in \<open>rdi\<close>; the new tables are in CR3, the
  no-execute and write-protect bits are set and the table of segments is loaded. Under the new tables
  every byte of every segment is at its virtual address, relocated and with the flags of the segment,
  the stack is mapped to frames of its own above an unmapped guard page, the boot information and the table
  of segments are mapped to themselves, and all physical memory is mapped at the offset the boot
  information names; the regions it refers to are the ones \<open>build_memory_map\<close> computed.
\<close>

theorem stage4_start_correct:
  fixes E :: "('e, table_memory \<times> e820_allocator) elf_crate"
  assumes "crates_ok C" "e820 = E820_from_raw_parts em (memory_map_address info) (unat (memory_map_size info))"
    and "stage4_ready C cs code e820 info a highest hs rs"
    and "ptr_read m (pmr_start (bios_kernel info)) (unat (pmr_size (bios_kernel info))) = Inr kern" "ElfBinary_new E kern = Some e"
    and "elf_file E e hs loads rs" "unat KERNEL_VIRTUAL_BASE + unat (entry_point E e) < 2 ^ 64"
  shows "\<exists>gdt gf bf mm s' rm' bm' m' a'. stage4_GDT C = Inr gdt \<and> build_memory_map Size4KiB e820 bf = Inr mm \<and>
     stage4_start E C addr idt_ptr cs code em info (rm, bm) s m =
       Inr (\<lparr>ke_rip = KERNEL_VIRTUAL_BASE + entry_point E e, ke_rsp = KERNEL_STACK_TOP - 8, ke_rdi = bf, ke_rbp = 0\<rparr>,
            s', (rm', bm'), m', a') \<and>
     bit (cpu_msr s' MSR_NUM) 11 \<and> bit (cpu_cr0 s') 16 \<and> cpu_gdtr s' = (23, gf) \<and>
     bm' bf = BootInfo_new (bios_kernel info) (bios_framebuffer info) (PhysicalMemoryRegions_new (bf + 88) (length (reported_regions mm)))
       PHYSICAL_MEMORY_OFFSET \<and>
     PhysicalMemoryRegions_deref rm' (bi_memory_regions (bm' bf)) = reported_regions mm \<and>
     {cpu_cr3 s', gf, bf} \<subseteq> e820_avail a \<and>
     mapper_ready (PhysicalOffset_frame_to_virtual 0) (usable_offset 0) (e820_inv (bump_memory_map a)) e820_avail (cpu_cr3 s') m' a' \<and>
     boot_ready C (PhysicalOffset_frame_to_virtual 0) e820_avail (cpu_cr3 s') m m' a' (pmr_start (bios_kernel info)) hs rs gdt gf bf highest"
proof -
  from stage4_boots [OF assms, of addr idt_ptr rm bm s] obtain gdt root gf bf mm m' a' where
    1: "stage4_GDT C = Inr gdt" "\<forall>p. GlobalDescriptorTableDescriptor_new gdt p = (23, p)" "build_memory_map Size4KiB e820 bf = Inr mm"
     "stage4_start E C addr idt_ptr cs code em info (rm, bm) s m =
       Inr (\<lparr>ke_rip = KERNEL_VIRTUAL_BASE + entry_point E e, ke_rsp = KERNEL_STACK_TOP - 8, ke_rdi = bf, ke_rbp = 0\<rparr>,
            (GlobalDescriptorTable_load gdt gf (stage4_cpu C addr idt_ptr s))\<lparr>cpu_cr3 := root\<rparr>,
            (write_regions (bf + 88) 0 (reported_regions mm) rm, bm(bf := boot_info_of info bf mm)), m', a')"
     "{root, gf, bf} \<subseteq> e820_avail a"
     "mapper_ready (PhysicalOffset_frame_to_virtual 0) (usable_offset 0) (e820_inv (bump_memory_map a)) e820_avail root m' a'"
     "boot_ready C (PhysicalOffset_frame_to_virtual 0) e820_avail root m m' a' (pmr_start (bios_kernel info)) hs rs gdt gf bf highest"
    by (elim exE conjE) (rule that)
  define s' where "s' = (GlobalDescriptorTable_load gdt gf (stage4_cpu C addr idt_ptr s))\<lparr>cpu_cr3 := root\<rparr>"
  define bm' where "bm' = bm(bf := boot_info_of info bf mm)"
  have cr3: "cpu_cr3 s' = root" by (simp add: s'_def)
  have "bit (cpu_msr s' MSR_NUM) 11" "bit (cpu_cr0 s') 16" "cpu_gdtr s' = (23, gf)"
    using stage4_cpu_bits [OF assms(1)] 1(2) by (simp_all add: s'_def GlobalDescriptorTable_load_def)
  moreover have "length (reported_regions mm) \<le> 1000" using build_memory_map_length [OF 1(3)] by simp
  then have "PhysicalMemoryRegions_deref (write_regions (bf + 88) 0 (reported_regions mm) rm) (bi_memory_regions (bm' bf)) = reported_regions mm"
    using write_regions_deref [of "reported_regions mm"] by (simp add: bm'_def boot_info_of_def BootInfo_new_def)
  moreover have "bm' bf = BootInfo_new (bios_kernel info) (bios_framebuffer info)
      (PhysicalMemoryRegions_new (bf + 88) (length (reported_regions mm))) PHYSICAL_MEMORY_OFFSET"
    by (simp add: bm'_def boot_info_of_def)
  moreover note 1(1,3) 1(4) [folded s'_def bm'_def] 1(5-7) [folded cr3]
  ultimately show ?thesis by - ((rule exI)+, (rule conjI, assumption)+, assumption)
qed

theorem stage4_start_correct_witness:
  "\<exists>bf s' rm' bm' m' a'. stage4_start example_elf reference_crates (\<lambda>_. 0x40) 0x30 0x9000 [0x9003, 0x9006] (\<lambda>_. example_region)
       example_bios_info (\<lambda>_. PhysicalMemoryRegion_new 0 0 Reserved, \<lambda>_. example_boot_info) example_cpu (\<lambda>_. 0) =
     Inr (\<lparr>ke_rip = 0xffffffff80001000, ke_rsp = 0xfffffffefffffff8, ke_rdi = bf, ke_rbp = 0\<rparr>, s', (rm', bm'), m', a') \<and>
     bi_physical_memory_offset (bm' bf) = 0xA0000000000"
proof -
  have v: "KERNEL_VIRTUAL_BASE + entry_point example_elf () = 0xffffffff80001000" "KERNEL_STACK_TOP - 8 = 0xfffffffefffffff8"
    by (simp_all add: example_elf_def KERNEL_VIRTUAL_BASE_def KERNEL_STACK_TOP_def)
  from stage4_start_correct [OF reference_crates_ok example_start(1) example_stage4_ready example_start(2,3) example_elf_file example_start(4),
      where addr = "\<lambda>_. 0x40" and idt_ptr = "0x30" and rm = "\<lambda>_. PhysicalMemoryRegion_new 0 0 Reserved" and bm = "\<lambda>_. example_boot_info"
        and s = example_cpu]
  show ?thesis unfolding v
    by (elim exE conjE) (intro exI conjI, assumption, simp add: BootInfo_new_def PHYSICAL_MEMORY_OFFSET_def)
qed

text \<open>
  C22. The boot information counts page tables as free memory: with one region of usable memory, which
  starts behind the memory in use, \<open>start\<close> returns, but it computes the memory map for the kernel before
  it maps the physical memory. A table that it makes for that mapping lies in a region the boot
  information reports as free, so that the frame allocator the kernel builds from it hands the frame out,
  and the kernel overwrites its own page table.
\<close>

theorem boot_info_omits_tables:
  fixes E :: "('e, table_memory \<times> e820_allocator) elf_crate"
  assumes "crates_ok C" "[r] = E820_from_raw_parts em (memory_map_address info) (unat (memory_map_size info))"
    and "stage4_ready C cs code [r] info a highest hs rs" "single_region info r"
    and "ptr_read m (pmr_start (bios_kernel info)) (unat (pmr_size (bios_kernel info))) = Inr kern" "ElfBinary_new E kern = Some e"
    and "elf_file E e hs loads rs" "unat KERNEL_VIRTUAL_BASE + unat (entry_point E e) < 2 ^ 64"
  shows "\<exists>ke s' rm' bm' m' a' t. stage4_start E C addr idt_ptr cs code em info (rm, bm) s m = Inr (ke, s', (rm', bm'), m', a') \<and>
     t \<in> tables (PhysicalOffset_frame_to_virtual 0) (cpu_cr3 s') m' \<and>
     t \<in> bump_avail PhysicalMemoryRegion_MemoryRegion
       (BumpFrameAllocator_new (PhysicalMemoryRegions_deref rm' (bi_memory_regions (bm' (ke_rdi ke)))))"
proof -
  let ?P = "PhysicalOffset_frame_to_virtual 0" and ?s = "e820_start r" and ?n = "unat (e820_size r) div 4096"
  let ?fs = "map_frames E820MemoryRegion_MemoryRegion [r]"
  have a: "a = \<lparr>bump_memory_map = [r], bump_next = 0\<rparr>"
    using single_region_allocator [OF assms(4)] assms(3) by (simp add: stage4_ready_def)
  from stage4_boots [OF assms(1-3,5-8), of addr idt_ptr rm bm s] obtain gdt root gf bf mm m' a' a2 where
    1: "build_memory_map Size4KiB [r] bf = Inr mm"
     "stage4_start E C addr idt_ptr cs code em info (rm, bm) s m =
       Inr (\<lparr>ke_rip = KERNEL_VIRTUAL_BASE + entry_point E e, ke_rsp = KERNEL_STACK_TOP - 8, ke_rdi = bf, ke_rbp = 0\<rparr>,
            (GlobalDescriptorTable_load gdt gf (stage4_cpu C addr idt_ptr s))\<lparr>cpu_cr3 := root\<rparr>,
            (write_regions (bf + 88) 0 (reported_regions mm) rm, bm(bf := boot_info_of info bf mm)), m', a')"
     "bf \<in> e820_avail a" "e820_inv (bump_memory_map a) a2" "bf \<notin> e820_avail a2" "took_table ?P (e820_avail a2) root m'"
    by (elim exE conjE) (erule that, assumption, simp, assumption+)
  note fs = single_region_frames [OF assms(4)]
  have "?P f = Inr f" for f using unat_less_exp [of f] by (simp add: PhysicalOffset_frame_to_virtual_def op_add_def)
  then obtain t where t: "t \<in> e820_avail a2" "t \<in> tables ?P root m'"
    using 1(6) by (auto simp: took_table_def)
  have "e820_avail a2 = set (drop (unat (bump_next a2)) ?fs)" "e820_avail a = set ?fs"
    using 1(4) a by (simp_all add: bump_avail_def e820_inv_def)
  with drop_order [of bf ?fs "unat (bump_next a2)" t] 1(3,5) t(1) obtain j i where ji: "j < i" "i < length ?fs" "bf = ?fs ! j" "t = ?fs ! i"
    by blast
  have "i < ?n" "bf = ?s + of_nat j * 0x1000" "t = ?s + of_nat i * 0x1000" using ji unfolding fs(1) by simp_all
  then have free: "t \<in> bump_avail PhysicalMemoryRegion_MemoryRegion (BumpFrameAllocator_new (reported_regions mm))"
    using fs(2) [of j] ji(1) by (intro frames_behind_free [OF assms(4) 1(1), of j _ i]) simp_all
  have "length (reported_regions mm) \<le> 1000" using build_memory_map_length [OF 1(1)] by simp
  then have d: "PhysicalMemoryRegions_deref (write_regions (bf + 88) 0 (reported_regions mm) rm)
      (bi_memory_regions ((bm(bf := boot_info_of info bf mm)) bf)) = reported_regions mm"
    using write_regions_deref [of "reported_regions mm"] by (simp add: boot_info_of_def BootInfo_new_def)
  show ?thesis using 1(2) t(2) free d by (intro exI conjI) (assumption, simp_all)
qed

theorem boot_info_omits_tables_witness:
  "\<exists>ke s' rm' bm' m' a' t. stage4_start example_elf reference_crates (\<lambda>_. 0x40) 0x30 0x9000 [0x9003, 0x9006] (\<lambda>_. example_region)
       example_bios_info (\<lambda>_. PhysicalMemoryRegion_new 0 0 Reserved, \<lambda>_. example_boot_info) example_cpu (\<lambda>_. 0) =
     Inr (ke, s', (rm', bm'), m', a') \<and> t \<in> tables (PhysicalOffset_frame_to_virtual 0) (cpu_cr3 s') m' \<and>
     t \<in> bump_avail PhysicalMemoryRegion_MemoryRegion
       (BumpFrameAllocator_new (PhysicalMemoryRegions_deref rm' (bi_memory_regions (bm' (ke_rdi ke)))))"
  by (rule boot_info_omits_tables [OF reference_crates_ok example_start(1) example_stage4_ready example_single example_start(2,3)
      example_elf_file example_start(4)])

text \<open>
  C40. A relocation whose eight bytes end where a page ends makes the loader panic when the next page is not
  mapped: the range of pages is inclusive and its end is computed from the byte behind the value, so that
  the loop also translates the page behind it, although it has nothing to write there.
\<close>

theorem relocation_at_page_end_panics:
  fixes vbase va :: u64
  assumes "crates_ok C" "tables_ok (PhysicalOffset_frame_to_virtual 0) (usable_offset 0) root m"
    and "re_type entry = R_AMD64_RELATIVE" "re_addend entry = Some ad" "unat vbase + unat ad < 2 ^ 64"
    and "unat vbase + unat (re_offset entry) + 16384 < 2 ^ 64" "va = vbase + re_offset entry" "unat va mod 4096 = 4088"
    and "data_page C (PhysicalOffset_frame_to_virtual 0) root m (va AND NOT (mask 12)) f"
    and "no_huge_above_page C (PhysicalOffset_frame_to_virtual 0) root m (va + 8)"
    and "mmu_lookup (PhysicalOffset_frame_to_virtual 0) m root (page_indices C (va + 8)) = None"
  shows "elf_relocate (KernelLoader C (PhysicalOffset_frame_to_virtual 0) e820_frames_allocator root vbase kernel_start) entry (m, a) =
     Inl Unwrap_None"
  using identity_mapper.relocation_page_end [OF stage4_mapper [OF assms(1)] assms(2,4-11)] assms(3)
  by (simp add: KernelLoader_def relocate_def)

theorem relocation_at_page_end_panics_witness:
  "\<exists>root m. data_page reference_crates (PhysicalOffset_frame_to_virtual 0) root m 0xffffffff80001000 0x41000 \<and>
     elf_relocate (KernelLoader reference_crates (PhysicalOffset_frame_to_virtual 0) e820_frames_allocator root KERNEL_VIRTUAL_BASE 0x40000)
       \<lparr>re_type = R_AMD64_RELATIVE, re_offset = 0x1ff8, re_addend = Some 0x1000\<rparr> (m, example_allocator) = Inl Unwrap_None"
proof -
  let ?P = "PhysicalOffset_frame_to_virtual 0" and ?C = reference_crates and ?p = "0xffffffff80001000 :: u64" and ?q = "0xffffffff80002000 :: u64"
  note im = stage4_mapper [OF reference_crates_ok, of "[example_region]"]
  from stage4_root [OF example_stage4_ready] obtain root a1 where
    1: "root \<in> e820_avail example_allocator - e820_avail a1" "e820_avail a1 \<subseteq> e820_avail example_allocator"
      "e820_inv (bump_memory_map example_allocator) a1" "can_supply e820_frames_allocator 3 a1"
    by (elim exE conjE) (rule that, assumption+, erule can_supply_le, simp)
  have mm: "bump_memory_map example_allocator = [example_region]" by (simp add: example_allocator_def)
  define m0 where "m0 = write_empty_table (\<lambda>_. 0) root"
  note i = stage4_image [OF reference_crates_ok example_stage4_ready 1(1-3), where m = "\<lambda>_. 0", folded m0_def, unfolded mm]
  note em = identity_mapper.empty_root [OF im i(4)]
  have fb: "frame_bits_ok 0x41000" by (simp add: frame_bits_ok_def frame_of_eq_and)
  have fl: "flag_bits_ok PRESENT" "bit PRESENT 0" by (simp_all add: flag_bits_ok_def PRESENT_def frame_of_eq_and)
  have ix: "indices_ok (page_indices ?C page)" for page using table_index_less [OF reference_crates_ok] by (simp add: indices_ok_def page_indices_def)
  have s0: "can_supply e820_frames_allocator (3 + 0) a1" using 1(4) by simp
  from stage4_tables.map_page_step [OF i(1) s0 em(1) fl fb em(2) [OF _ ix], of ?p]
  obtain m a where m: "step_at ?P (usable_offset 0) (e820_inv [example_region]) e820_avail {page_indices ?C ?p} root m0 a1 m a"
      "mmu_lookup ?P m root (page_indices ?C ?p) = Some (Small 0x41000 (0x41000 OR PRESENT))" by auto
  note st = stage4_tables.stepD [OF m(1)]
  have rt: "root \<noteq> 0" "page_aligned Size4KiB root" "root \<noteq> 0x41000" using 1(1) example_frame [of root] by auto
  have so: "solid_at ?P e820_avail root m0 a1 0x41000"
    using 1(2) example_outside [of "0x41000"] fb cleared_root(3) [OF rt(1,2), of ?P "\<lambda>_. 0"] rt(3) by (auto simp: solid_at_def m0_def)
  have d: "data_page ?C ?P root m ?p 0x41000" using keeps_solid(1) [OF st(1) so] m(2) by (auto simp: data_page_def solid_at_def)
  have ne: "page_indices ?C ?q \<noteq> page_indices ?C ?p" by (simp add: page_indices_def unat_index [OF reference_crates_ok])
  have "no_huge_above_page ?C ?P root m ?q" using stage4_tables.no_huge_keeps [OF st(1) em(1)] .
  moreover have "mmu_lookup ?P m root (page_indices ?C ?q) = None" using st(3) [OF ix, of ?q] ne em(2) [OF _ ix, of ?q] by simp
  moreover have "tables_ok ?P (usable_offset 0) root m" using st(2) by (simp add: mapper_ready_def)
  ultimately show ?thesis
    using d relocation_at_page_end_panics [OF reference_crates_ok, of root m "\<lparr>re_type = R_AMD64_RELATIVE, re_offset = 0x1ff8, re_addend = Some 0x1000\<rparr>"
        "0x1000" KERNEL_VIRTUAL_BASE "0xffffffff80001ff8" "0x41000" "0x40000" example_allocator]
    by (intro exI [of _ root] exI [of _ m]) (simp add: KERNEL_VIRTUAL_BASE_def mask_eq_exp_minus_1)
qed

end
