(* ===== verification/Stage3.thy ===== *)
theory Stage3
  imports Physical_Map Spin_Mutex
begin

text \<open>
  Stage 3 of the boot loader (\<open>stage3/src/paging.rs\<close> and \<open>main.rs\<close>), which runs in protected mode: it builds
  page tables that map the first 10 GiB to themselves with pages of 2 MiB, switches the processor to long mode
  and jumps to stage 4. The text that is printed is left out.
\<close>

section \<open>The page tables\<close>

text \<open>
  The statics \<open>PML4T\<close>, \<open>PDPT\<close> and \<open>PDT\<close> are locks around tables. The value behind a lock is the address of its
  table (of the first of ten consecutive ones for \<open>PDT\<close>); the entries are words of the memory.
\<close>

definition map_huge_page :: "u64 \<Rightarrow> u64 \<Rightarrow> u64 \<Rightarrow> nat \<Rightarrow> table_memory \<Rightarrow> table_memory res" where
  "map_huge_page flags table offset j m =
     rbind (op_mul (of_nat j) (2 * MIB)) (\<lambda>d.
     rbind (op_add offset d) (\<lambda>address.
     rbind (PageTable_index table j) (\<lambda>slot.
     Inr (m(slot := address OR flags OR HUGE_PAGE)))))"

definition map_gigabyte :: "u64 \<Rightarrow> u64 \<Rightarrow> u64 \<Rightarrow> nat \<Rightarrow> table_memory \<Rightarrow> table_memory res" where
  "map_gigabyte flags l3 l2 i m =
     (let table = l2 + of_nat i * PageTable_SIZE in
      rbind (PageTable_index l3 i) (\<lambda>slot.
      rbind (op_mul (of_nat i) (1 * GIB)) (\<lambda>offset.
      rfold (map_huge_page flags table offset) [0 ..< TABLE_ENTRY_COUNT] (m(slot := table OR flags)))))"

type_synonym stage3_statics = "u64 Mutex \<times> u64 Mutex \<times> u64 Mutex"

definition create_mappings :: "crates \<Rightarrow> stage3_statics \<Rightarrow> table_memory \<Rightarrow> (stage3_statics \<times> table_memory) res" where
  "create_mappings C = (\<lambda>(PML4T, PDPT, PDT) m.
     let flags = flags_union C WRITABLE PRESENT in
     rbind (static_lock PML4T) (\<lambda>l4.
     rbind (static_lock PDPT) (\<lambda>l3.
     rbind (static_lock PDT) (\<lambda>l2.
     rbind (PageTable_index (mutex_inner l4) 0) (\<lambda>slot.
     rbind (rfold (map_gigabyte flags (mutex_inner l3) (mutex_inner l2)) [0 ..< 10] (m(slot := mutex_inner l3 OR flags))) (\<lambda>m.
     Inr ((MutexGuard_drop l4, MutexGuard_drop l3, MutexGuard_drop l2), m)))))))"

section \<open>Long mode\<close>

text \<open>
  The processor is in protected mode: \<open>mov\<close> from and to a control register moves 32 bits. \<open>code\<close> are the addresses
  of the instructions behind the one that enables paging: they are fetched through the tables.
\<close>

definition enable_paging :: "crates \<Rightarrow> u64 list \<Rightarrow> stage3_statics \<Rightarrow> cpu \<times> table_memory \<Rightarrow> (stage3_statics \<times> cpu) res" where
  "enable_paging C code = (\<lambda>(PML4T, PDPT, PDT) (s, m).
     rbind (static_lock PML4T) (\<lambda>guard.
     let l4 = ucast (mutex_inner guard) :: u32;
         PML4T = MutexGuard_drop guard;
         s = s\<lparr>cpu_cr3 := ucast l4\<rparr>;
         eax = ucast (cpu_cr4 s) :: u32;
         s = s\<lparr>cpu_cr4 := ucast (eax OR push_bit 5 1)\<rparr>;
         ecx = 0xC0000080;
         eax = ucast (cpu_msr s ecx) :: u32;
         edx = ucast (drop_bit 32 (cpu_msr s ecx)) :: u32;
         eax = eax OR push_bit 8 1;
         s = s\<lparr>cpu_msr := (cpu_msr s)(ecx := push_bit 32 (ucast edx) OR ucast eax)\<rparr>;
         eax = ucast (cpu_cr0 s) :: u32;
         s = s\<lparr>cpu_cr0 := ucast (eax OR push_bit 31 1)\<rparr> in
     if list_all (executable_address C (PhysicalOffset_frame_to_virtual 0) m (cpu_cr3 s)) code
     then Inr ((PML4T, PDPT, PDT), s) else Inl Undefined_Behaviour))"

definition init_and_switch_to_long_mode ::
    "crates \<Rightarrow> u64 list \<Rightarrow> stage3_statics \<Rightarrow> cpu \<times> table_memory \<Rightarrow> (stage3_statics \<times> cpu \<times> table_memory) res" where
  "init_and_switch_to_long_mode C code statics = (\<lambda>(s, m).
     rbind (create_mappings C statics m) (\<lambda>(statics, m).
     rbind (enable_paging C code statics (s, m)) (\<lambda>(statics, s).
     Inr (statics, s, m))))"

section \<open>The jump\<close>

record stage4_entry =
  s4_rip :: u64
  s4_rsp :: u64
  s4_rdi :: u64

text \<open>The words that are pushed in 32-bit code and popped in pairs in 64-bit code.\<close>

definition pop_rax :: "u32 list \<Rightarrow> u64 \<times> u32 list" where
  "pop_rax ws = (ucast (ws ! 0) OR push_bit 32 (ucast (ws ! 1)), drop 2 ws)"

definition jump_to_stage4 :: "u32 \<Rightarrow> u32 \<Rightarrow> BiosInfo \<Rightarrow> cpu \<Rightarrow> stage4_entry \<times> cpu" where
  "jump_to_stage4 esp info_ptr info s =
     (let esp = esp AND 0xffffff00;
          ws = [0];
          ws = info_ptr # ws;
          ws = 0 # ws;
          ws = ucast (pmr_start (bios_stage4 info)) # ws;
          esp = esp - 16;
          s = s\<lparr>cpu_cs := 0x8\<rparr>;
          s = s\<lparr>cpu_ss := 0, cpu_ds := 0, cpu_es := 0, cpu_fs := 0, cpu_gs := 0\<rparr>;
          (rax, ws) = pop_rax ws;
          (rdi, ws) = pop_rax ws;
          rsp = ucast esp + 16 in
      (\<lparr>s4_rip = rax, s4_rsp = rsp - 8, s4_rdi = rdi\<rparr>, s))"

definition stage3_start ::
    "crates \<Rightarrow> u64 list \<Rightarrow> u64 \<Rightarrow> u32 \<Rightarrow> u32 \<Rightarrow> BiosInfo \<Rightarrow> stage3_statics \<Rightarrow> cpu \<times> table_memory \<Rightarrow>
     (stage4_entry \<times> cpu \<times> stage3_statics \<times> table_memory) res" where
  "stage3_start C code gdt_ptr esp info_ptr info statics st =
     rbind (init_and_switch_to_long_mode C code statics st) (\<lambda>(statics, s, m).
     rbind (stage3_GDT C) (\<lambda>GDT.
     let s = clear_interrupts_and_load GDT gdt_ptr s;
         (entry, s) = jump_to_stage4 esp info_ptr info s in
     Inr (entry, s, statics, m)))"

section \<open>The tables that are built\<close>

lemma rfold_writes:
  assumes "\<And>j m. j < n \<Longrightarrow> body j m = Inr (m(f j := g j))" "inj_on f {..< n}"
  shows "\<exists>m'. rfold body [0 ..< n] m = Inr m' \<and> (\<forall>j < n. m' (f j) = g j) \<and> (\<forall>x. x \<notin> f ` {..< n} \<longrightarrow> m' x = m x)"
  using assms
proof (induction n)
  case (Suc n)
  have "inj_on f {..< n}" using Suc.prems(2) by (rule inj_on_subset) auto
  with Suc obtain m1 where 1: "rfold body [0 ..< n] m = Inr m1" "\<And>j. j < n \<Longrightarrow> m1 (f j) = g j" "\<And>x. x \<notin> f ` {..< n} \<Longrightarrow> m1 x = m x"
    by (metis less_SucI)
  have "(m1(f n := g n)) (f j) = g j" if "j < Suc n" for j
    using that 1(2) [of j] inj_onD [OF Suc.prems(2), of j n] by (cases "j = n") auto
  moreover have "(m1(f n := g n)) x = m x" if "x \<notin> f ` {..< Suc n}" for x
    using that 1(3) [of x] by (auto simp: lessThan_Suc)
  ultimately show ?case using 1(1) Suc.prems(1) [of n m1]
    by (intro exI [of _ "m1(f n := g n)"]) (simp add: rfold_append del: fun_upd_apply)
qed simp

lemma unat_of_nat_small: "n < 2 ^ 34 \<Longrightarrow> unat (of_nat n :: u64) = n"
  unfolding unat_of_nat by (rule mod_less) simp

text \<open>Where the tables are: page aligned, apart from each other, and below 4 GiB. The first two are empty.\<close>

definition stage3_tables_at :: "u64 \<Rightarrow> u64 \<Rightarrow> u64 \<Rightarrow> bool" where
  "stage3_tables_at l4 l3 l2 \<longleftrightarrow>
     page_aligned Size4KiB l4 \<and> page_aligned Size4KiB l3 \<and> page_aligned Size4KiB l2 \<and>
     unat l4 < 2 ^ 32 \<and> unat l3 < 2 ^ 32 \<and> unat l2 + 10 * 4096 \<le> 2 ^ 32 \<and> l4 \<noteq> l3 \<and>
     (\<forall>i < 10. l2 + of_nat i * 4096 \<noteq> l4 \<and> l2 + of_nat i * 4096 \<noteq> l3)"

lemma pdt_address:
  assumes "stage3_tables_at l4 l3 l2" "i < 10"
  shows "unat (l2 + of_nat i * 4096) = unat l2 + i * 4096" "page_aligned Size4KiB (l2 + of_nat i * 4096)"
    and "frame_bits_ok (l2 + of_nat i * 4096)"
proof -
  have "(of_nat i * 4096 :: u64) = of_nat (i * 4096)" by simp
  then have u: "unat (of_nat i * 4096 :: u64) = i * 4096" using assms(2) by (simp add: unat_of_nat_small del: of_nat_mult)
  have l: "unat l2 + i * 4096 < 2 ^ 32" using assms by (simp add: stage3_tables_at_def)
  then show v: "unat (l2 + of_nat i * 4096) = unat l2 + i * 4096" using u by (simp add: unat_plus_nowrap)
  then show a: "page_aligned Size4KiB (l2 + of_nat i * 4096)"
    using assms(1) by (simp add: stage3_tables_at_def page_aligned_iff_dvd)
  show "frame_bits_ok (l2 + of_nat i * 4096)" by (rule frame_bits_okI [OF a]) (use v l in simp)
qed

lemma pdt_inj:
  assumes "stage3_tables_at l4 l3 l2" "i < 10" "j < 10" "l2 + of_nat i * 4096 = l2 + of_nat j * 4096"
  shows "i = j"
proof -
  have "unat l2 + i * 4096 = unat l2 + j * 4096"
    unfolding pdt_address(1) [OF assms(1,2), symmetric] pdt_address(1) [OF assms(1,3), symmetric] assms(4) ..
  then show ?thesis by simp
qed

lemma huge_page_write:
  assumes "i < 10" "j < 512"
  shows "map_huge_page flags table (of_nat i * GIB) j m =
     Inr (m(entry_at table j := big_frame (512 * i + j) OR flags OR HUGE_PAGE))"
proof -
  have ui: "unat (of_nat i * GIB) = 2 ^ 30 * i" and uj: "unat (of_nat j * (2 * MIB)) = 2 ^ 21 * j"
  proof -
    have "of_nat i * GIB = of_nat (2 ^ 30 * i)" "of_nat j * (2 * MIB) = of_nat (2 ^ 21 * j)"
      by (simp_all add: GIB_def MIB_def KIB_def)
    then show "unat (of_nat i * GIB) = 2 ^ 30 * i" "unat (of_nat j * (2 * MIB)) = 2 ^ 21 * j"
      using assms by (simp_all add: unat_of_nat_small del: of_nat_mult of_nat_power of_nat_numeral)
  qed
  have "unat (of_nat j :: u64) = j" "unat (2 * MIB) = 2 ^ 21" using assms(2) by (simp_all add: unat_of_nat MIB_def KIB_def)
  then have j: "op_mul (of_nat j) (2 * MIB) = Inr (of_nat j * (2 * MIB))" using assms(2) by (simp add: op_mul_def)
  have lt: "unat (of_nat i * GIB) + unat (of_nat j * (2 * MIB)) < 2 ^ 64" using ui uj assms by simp
  then have a: "op_add (of_nat i * GIB) (of_nat j * (2 * MIB)) = Inr (of_nat i * GIB + of_nat j * (2 * MIB))" by (simp add: op_add_def)
  have "unat (of_nat i * GIB + of_nat j * (2 * MIB)) = unat (big_frame (512 * i + j))"
    using lt ui uj unat_big_frame [of "512 * i + j"] assms by (simp add: unat_plus_nowrap)
  then have "of_nat i * GIB + of_nat j * (2 * MIB) = big_frame (512 * i + j)" by (simp only: word_unat_eq_iff)
  with j a assms(2) show ?thesis by (simp add: map_huge_page_def)
qed


text \<open>The first \<open>k\<close> gigabytes are mapped.\<close>

definition gigabytes_mapped :: "u64 \<Rightarrow> u64 \<Rightarrow> u64 \<Rightarrow> nat \<Rightarrow> table_memory \<Rightarrow> table_memory \<Rightarrow> bool" where
  "gigabytes_mapped flags l3 l2 k m m' \<longleftrightarrow>
     (\<forall>i < k. m' (entry_at l3 i) = (l2 + of_nat i * 4096) OR flags) \<and>
     (\<forall>i < k. \<forall>j < 512. m' (entry_at (l2 + of_nat i * 4096) j) = big_frame (512 * i + j) OR flags OR HUGE_PAGE) \<and>
     (\<forall>x. x \<notin> entry_at l3 ` {..< k} \<and> (\<forall>i < k. x \<notin> entry_at (l2 + of_nat i * 4096) ` {..< 512}) \<longrightarrow> m' x = m x)"

lemma gigabyte_step:
  assumes t: "stage3_tables_at l4 l3 l2" and k: "k < 10" and g: "gigabytes_mapped flags l3 l2 k m m1"
  shows "\<exists>m2. map_gigabyte flags l3 l2 k m1 = Inr m2 \<and> gigabytes_mapped flags l3 l2 (Suc k) m m2"
proof -
  let ?t = "\<lambda>i. l2 + of_nat i * 4096" and ?g = "\<lambda>j. big_frame (512 * k + j) OR flags OR HUGE_PAGE"
  let ?m = "m1(entry_at l3 k := ?t k OR flags)"
  have al: "page_aligned Size4KiB l3" "\<And>i. i < 10 \<Longrightarrow> page_aligned Size4KiB (?t i)" "\<And>i. i < 10 \<Longrightarrow> ?t i \<noteq> l3"
    using t pdt_address(2) [OF t] by (auto simp: stage3_tables_at_def)
  have inj: "inj_on (entry_at (?t k)) {..< 512}" using entry_at_inj [OF al(2) al(2)] k by (auto intro!: inj_onI)
  from rfold_writes [of 512 "map_huge_page flags (?t k) (of_nat k * GIB)" "entry_at (?t k)" ?g, OF huge_page_write [OF k] inj]
  obtain m2 where 2: "rfold (map_huge_page flags (?t k) (of_nat k * GIB)) [0 ..< 512] ?m = Inr m2"
      "\<And>j. j < 512 \<Longrightarrow> m2 (entry_at (?t k) j) = ?g j" "\<And>x. x \<notin> entry_at (?t k) ` {..< 512} \<Longrightarrow> m2 x = ?m x"
    by blast
  have "unat (of_nat k :: u64) = k" "unat GIB = 2 ^ 30" using k by (simp_all add: unat_of_nat GIB_def MIB_def KIB_def)
  then have "op_mul (of_nat k) GIB = Inr (of_nat k * GIB)" using k by (simp add: op_mul_def)
  then have r: "map_gigabyte flags l3 l2 k m1 = Inr m2"
    using 2(1) k by (simp add: map_gigabyte_def PageTable_SIZE_def TABLE_ENTRY_COUNT_def)
  have o3: "entry_at l3 i \<notin> entry_at (?t j) ` {..< 512}" if "i < 10" "j < 10" for i j
    using that entry_at_inj [OF al(1) al(2) [OF that(2)]] al(3) [OF that(2)] by (auto simp: image_iff)
  have o2: "entry_at (?t i) j \<notin> entry_at (?t k) ` {..< 512}" "entry_at (?t i) j \<noteq> entry_at l3 k" if "i < k" "j < 512" for i j
  proof -
    have i: "i < 10" using that k by simp
    have "?t i \<noteq> ?t k" using pdt_inj [OF t i k] that by auto
    then show "entry_at (?t i) j \<notin> entry_at (?t k) ` {..< 512}"
      using that entry_at_inj [OF al(2) [OF i] al(2) [OF k]] by (auto simp: image_iff)
    show "entry_at (?t i) j \<noteq> entry_at l3 k" using that k entry_at_inj [OF al(2) [OF i] al(1)] al(3) [OF i] by simp
  qed
  have "m2 (entry_at l3 i) = ?t i OR flags" if "i < Suc k" for i
  proof -
    have i: "i < 10" using that k by simp
    have "i \<noteq> k \<Longrightarrow> entry_at l3 i \<noteq> entry_at l3 k" using entry_at_inj [OF al(1) al(1), of i k] i k by simp
    then show ?thesis using 2(3) [OF o3 [OF i k]] g that by (cases "i = k") (auto simp: gigabytes_mapped_def)
  qed
  moreover have "m2 (entry_at (?t i) j) = big_frame (512 * i + j) OR flags OR HUGE_PAGE" if "i < Suc k" "j < 512" for i j
  proof (cases "i = k")
    case False
    then have "i < k" using that by simp
    then show ?thesis using 2(3) [OF o2(1)] o2(2) g that by (auto simp: gigabytes_mapped_def)
  qed (use 2(2) that in simp)
  moreover have "m2 x = m x" if "x \<notin> entry_at l3 ` {..< Suc k}" "\<forall>i < Suc k. x \<notin> entry_at (?t i) ` {..< 512}" for x
  proof -
    have "x \<notin> entry_at l3 ` {..< k}" "x \<noteq> entry_at l3 k" using that(1) by (auto simp: lessThan_Suc)
    moreover have "\<forall>i < k. x \<notin> entry_at (?t i) ` {..< 512}" "x \<notin> entry_at (?t k) ` {..< 512}" using that(2) by simp_all
    ultimately show ?thesis using 2(3) [of x] g by (simp add: gigabytes_mapped_def)
  qed
  ultimately have "gigabytes_mapped flags l3 l2 (Suc k) m m2" by (simp add: gigabytes_mapped_def)
  with r show ?thesis by blast
qed

lemma gigabytes:
  assumes "stage3_tables_at l4 l3 l2" "k \<le> 10"
  shows "\<exists>m'. rfold (map_gigabyte flags l3 l2) [0 ..< k] m = Inr m' \<and> gigabytes_mapped flags l3 l2 k m m'"
  using assms(2)
proof (induction k)
  case (Suc k)
  then obtain m1 where 1: "rfold (map_gigabyte flags l3 l2) [0 ..< k] m = Inr m1" "gigabytes_mapped flags l3 l2 k m m1" by auto
  from gigabyte_step [OF assms(1) _ 1(2)] Suc.prems obtain m2 where "map_gigabyte flags l3 l2 k m1 = Inr m2" "gigabytes_mapped flags l3 l2 (Suc k) m m2"
    by auto
  with 1(1) show ?case by (simp add: rfold_append)
qed (simp add: gigabytes_mapped_def)

section \<open>What the processor sees\<close>

lemma PhysicalOffset_zero: "PhysicalOffset_frame_to_virtual 0 f = Inr f"
  using unat_less_exp [of f] by (simp add: PhysicalOffset_frame_to_virtual_def op_add_def)

lemma table_entry_low_flags:
  assumes "frame_bits_ok f"
  shows "child (PhysicalOffset_frame_to_virtual 0) (f OR 3) = Some f" "bit (f OR 3) 0"
proof -
  show 1: "bit (f OR 3) 0" by (simp add: bit_simps)
  have "flag_bits_ok 3" by (simp add: flag_bits_ok_def frame_of_def)
  then have f: "frame_of (f OR 3) = f" by (rule frame_of_entry [OF assms])
  have "\<not> bit f 7" using bit_frame_of [of f 7] assms by (simp add: frame_bits_ok_def)
  then have "\<not> bit (f OR 3) 7" by (simp add: bit_or_iff)
  moreover have "f OR 3 \<noteq> 0" using 1 by auto
  ultimately show "child (PhysicalOffset_frame_to_virtual 0) (f OR 3) = Some f"
    using f by (simp add: child_def table_entry_def PhysicalOffset_zero)
qed


lemma stage3_lookup:
  assumes t: "stage3_tables_at l4 l3 l2" and g: "gigabytes_mapped 3 l3 l2 10 (m(entry_at l4 0 := l3 OR 3)) m'"
    and em: "\<forall>i < 512. m (entry_at l4 i) = 0 \<and> m (entry_at l3 i) = 0"
    and ix: "i4 < 512" "i3 < 512" "i2 < 512"
  shows "mmu_lookup (PhysicalOffset_frame_to_virtual 0) m' l4 (i4, i3, i2, i1) =
     (if i4 = 0 \<and> i3 < 10 then Some (Huge (big_frame (512 * i3 + i2)) (big_frame (512 * i3 + i2) OR 3 OR HUGE_PAGE)) else None)"
proof -
  let ?P = "PhysicalOffset_frame_to_virtual 0" and ?t = "\<lambda>i. l2 + of_nat i * 4096"
  have al: "page_aligned Size4KiB l4" "page_aligned Size4KiB l3" "l4 \<noteq> l3" "unat l3 < 2 ^ 32"
      "\<And>i. i < 10 \<Longrightarrow> ?t i \<noteq> l3" "\<And>i. i < 10 \<Longrightarrow> ?t i \<noteq> l4" using t by (auto simp: stage3_tables_at_def)
  note at = pdt_address(2) [OF t] and ft = pdt_address(3) [OF t]
  have n4: "entry_at l4 i4 \<notin> entry_at l3 ` {..< 10}" "\<forall>i < 10. entry_at l4 i4 \<notin> entry_at (?t i) ` {..< 512}"
    using entry_at_inj [OF al(1,2) ix(1)] al(3) entry_at_inj [OF al(1) at ix(1)] al(6) by (auto simp: image_iff)
  have e4: "m' (entry_at l4 i4) = (if i4 = 0 then l3 OR 3 else 0)"
    using g n4 em ix(1) entry_at_inj [OF al(1,1) ix(1), of 0] by (simp add: gigabytes_mapped_def)
  have n3: "entry_at l3 i3 \<notin> entry_at l3 ` {..< 10}" if "10 \<le> i3"
    using that entry_at_inj [OF al(2,2) ix(2)] by (auto simp: image_iff)
  have n3': "\<forall>i < 10. entry_at l3 i3 \<notin> entry_at (?t i) ` {..< 512}" "entry_at l3 i3 \<noteq> entry_at l4 0"
    using entry_at_inj [OF al(2) at ix(2)] al(3,5) entry_at_inj [OF al(2,1) ix(2), of 0] by (auto simp: image_iff)
  have e3: "m' (entry_at l3 i3) = (if i3 < 10 then ?t i3 OR 3 else 0)"
    using g n3 n3' em ix(2) by (auto simp: gigabytes_mapped_def)
  have e2: "m' (entry_at (?t i3) i2) = big_frame (512 * i3 + i2) OR 3 OR HUGE_PAGE" if "i3 < 10"
    using g that ix(3) by (simp add: gigabytes_mapped_def)
  have "frame_bits_ok l3" by (rule frame_bits_okI [OF al(2)]) (use al(4) in simp)
  note c3 = table_entry_low_flags [OF this]
  have z: "child ?P 0 = None" by (simp add: child_def table_entry_def)
  have h: "bit (v OR 3 OR HUGE_PAGE) 0" "bit (v OR 3 OR HUGE_PAGE) 7" for v :: u64 by (simp_all add: bit_simps HUGE_PAGE_def)
  have fr: "frame_of (big_frame (512 * i3 + i2) OR 3 OR HUGE_PAGE) = big_frame (512 * i3 + i2)" if "i3 < 10"
  proof -
    have u: "unat (big_frame (512 * i3 + i2)) = 2 ^ 21 * (512 * i3 + i2)" using that ix(3) by (intro unat_big_frame) simp
    have "frame_bits_ok (big_frame (512 * i3 + i2))"
      by (rule frame_bits_okI) (use u that ix(3) in \<open>simp_all add: page_aligned_iff_dvd dvd_mult2\<close>)
    moreover have "flag_bits_ok (3 OR HUGE_PAGE)" by (simp add: flag_bits_ok_def frame_of_def HUGE_PAGE_def)
    ultimately show ?thesis by (simp add: frame_of_entry or.assoc)
  qed
  consider "i4 \<noteq> 0" | "i4 = 0" "\<not> i3 < 10" | "i4 = 0" "i3 < 10" by blast
  then show ?thesis
  proof cases
    case 3
    then have "table_at ?P m' l4 [i4] = Some l3" "table_at ?P m' l4 [i4, i3] = Some (?t i3)"
      using e4 e3 c3 table_entry_low_flags [OF ft] by simp_all
    then show ?thesis
      using 3 e4 e3 e2 c3 h fr table_entry_low_flags(2) [OF ft]
      by (simp add: mmu_lookup_def entry_of_def Let_def del: table_at.simps(2))
  qed (use e4 e3 c3 in \<open>simp_all add: mmu_lookup_def entry_of_def Let_def\<close>)
qed

lemma stage3_translate:
  assumes C: "crates_ok C" and t: "stage3_tables_at l4 l3 l2"
    and g: "gigabytes_mapped 3 l3 l2 10 (m(entry_at l4 0 := l3 OR 3)) m'"
    and em: "\<forall>i < 512. m (entry_at l4 i) = 0 \<and> m (entry_at l3 i) = 0" and x: "unat x < 2 ^ 48"
  shows "translate_address C (PhysicalOffset_frame_to_virtual 0) m' l4 x =
     (if unat x < 10 * 2 ^ 30 then Some (x, PRESENT OR WRITABLE OR HUGE_PAGE) else None)"
proof -
  let ?p = "x AND NOT (mask 12)" and ?k = "unat x div 2 ^ 21"
  have k: "?k < 2 ^ 27" using x by (simp add: less_mult_imp_div_less)
  have "unat ?p = 4096 * (unat x div 4096)" by (simp add: unat_and_not_mask minus_mod_eq_mult_div)
  then have "unat ?p div 2 ^ 21 = unat x div 4096 div 2 ^ 9" by (simp add: div_mult2_eq [symmetric])
  then have n: "unat ?p div 2 ^ 21 = ?k" unfolding div_mult2_eq [symmetric] by simp
  from big_indices_number [OF C n]
  have i: "l4_index C ?p = ?k div 2 ^ 18" "l3_index C ?p = ?k div 2 ^ 9 mod 512" "l2_index C ?p = ?k mod 512"
    using k by (simp_all add: big_indices_def less_mult_imp_div_less)
  note ix = table_index_less [OF C]
  have c: "l4_index C ?p = 0 \<and> l3_index C ?p < 10 \<longleftrightarrow> unat x < 10 * 2 ^ 30" unfolding i
  proof -
    have "?k div 2 ^ 9 div 2 ^ 9 = ?k div 2 ^ 18" by (simp add: div_mult2_eq [symmetric])
    then have "?k div 2 ^ 18 = 0 \<and> ?k div 2 ^ 9 mod 512 < 10 \<longleftrightarrow> ?k div 2 ^ 9 < 10"
      by (cases "?k div 2 ^ 9 < 512") (auto simp: div_eq_0_iff)
    moreover have "?k div 2 ^ 9 < 10 \<longleftrightarrow> unat x < 10 * 2 ^ 30"
      unfolding div_mult2_eq [symmetric] by (simp add: div_less_iff_less_mult)
    ultimately show "?k div 2 ^ 18 = 0 \<and> ?k div 2 ^ 9 mod 512 < 10 \<longleftrightarrow> unat x < 10 * 2 ^ 30" by (simp only:)
  qed
  note l = stage3_lookup [OF t g em ix(1,2,3) [of ?p], folded c, of "l1_index C ?p"]
  show ?thesis
  proof (cases "unat x < 10 * 2 ^ 30")
    case True
    then have kk: "?k < 5120" by (simp add: less_mult_imp_div_less)
    then have "?k div 2 ^ 9 < 512" by (simp add: less_mult_imp_div_less)
    then have e: "512 * l3_index C ?p + l2_index C ?p = ?k" unfolding i by simp
    have u: "unat (big_frame ?k) = 2 ^ 21 * ?k" using k by (rule unat_big_frame)
    have "unat (x AND mask 21) = unat x mod 2 ^ 21" by (simp add: unat_and_mask)
    with u have "unat (big_frame ?k) + unat (x AND mask 21) = unat x" by simp
    then have "unat (big_frame ?k + (x AND mask 21)) = unat x"
      using unat_plus_nowrap [of "big_frame ?k" "x AND mask 21"] unat_less_exp [of x] by simp
    then have a: "big_frame ?k + (x AND mask 21) = x" by (simp only: word_unat_eq_iff)
    have "frame_bits_ok (big_frame ?k)"
      by (rule frame_bits_okI) (use u kk in \<open>simp_all add: page_aligned_iff_dvd dvd_mult2\<close>)
    then have f: "(big_frame ?k OR (3 OR HUGE_PAGE)) AND all_entry_flags = 3 OR HUGE_PAGE"
      by (rule frame_flags_split) (simp add: HUGE_PAGE_def all_entry_flags_def)
    have "3 OR HUGE_PAGE = PRESENT OR WRITABLE OR HUGE_PAGE" by (simp add: PRESENT_def WRITABLE_def HUGE_PAGE_def)
    then show ?thesis using True c l e a f by (simp add: translate_address_def page_indices_def or.assoc)
  next
    case False
    then show ?thesis using c l by (simp add: translate_address_def page_indices_def)
  qed
qed


section \<open>Stage 3 from start to end\<close>

lemma create_mappings_spec:
  assumes C: "crates_ok C" and t: "stage3_tables_at l4 l3 l2"
  shows "\<exists>m'. create_mappings C (Mutex_new l4, Mutex_new l3, Mutex_new l2) m = Inr ((Mutex_new l4, Mutex_new l3, Mutex_new l2), m') \<and>
     gigabytes_mapped 3 l3 l2 10 (m(entry_at l4 0 := l3 OR 3)) m'"
proof -
  have "flags_union C WRITABLE PRESENT = 3" by (simp add: crates_okD [OF C] WRITABLE_def PRESENT_def)
  moreover obtain m' where "rfold (map_gigabyte 3 l3 l2) [0 ..< 10] (m(entry_at l4 0 := l3 OR 3)) = Inr m'"
      "gigabytes_mapped 3 l3 l2 10 (m(entry_at l4 0 := l3 OR 3)) m'"
    using gigabytes [OF t order_refl] by blast
  ultimately show ?thesis by (simp add: create_mappings_def static_lock_new MutexGuard_drop_new)
qed

lemma gigabytes_mapped_frame:
  assumes t: "stage3_tables_at l4 l3 l2" and g: "gigabytes_mapped 3 l3 l2 10 (m(entry_at l4 0 := v)) m'"
    and x: "x AND NOT (mask 12) \<notin> {l4, l3}" "\<forall>i < 10. x AND NOT (mask 12) \<noteq> l2 + of_nat i * 4096"
  shows "m' x = m x"
proof -
  have al: "page_aligned Size4KiB l4" "page_aligned Size4KiB l3" using t by (simp_all add: stage3_tables_at_def)
  have "x \<noteq> entry_at l4 0" "x \<notin> entry_at l3 ` {..< 10}" "\<forall>i < 10. x \<notin> entry_at (l2 + of_nat i * 4096) ` {..< 512}"
    using x entry_at_page(1) [OF al(1), of 0] entry_at_page(1) [OF al(2)] entry_at_page(1) [OF pdt_address(2) [OF t]] by auto
  with g show ?thesis by (simp add: gigabytes_mapped_def)
qed

lemma ucast_round: "unat (x :: u64) < 2 ^ 32 \<Longrightarrow> ucast (ucast x :: u32) = x"
  by (simp add: word_unat_eq_iff unsigned_ucast_eq unsigned_take_bit_eq take_bit_nat_eq_self)

lemma bit_set_low: "k < 32 \<Longrightarrow> bit (ucast ((ucast (a :: u64) :: u32) OR push_bit k 1) :: u64) n \<longleftrightarrow> n < 32 \<and> (bit a n \<or> n = k)"
  by (auto simp: bit_simps)

lemma enable_paging_spec:
  assumes "unat l4 < 2 ^ 32" "list_all (executable_address C (PhysicalOffset_frame_to_virtual 0) m l4) code"
  shows "\<exists>cr0 cr4 efer. enable_paging C code (Mutex_new l4, PDPT, PDT) (s, m) =
       Inr ((Mutex_new l4, PDPT, PDT), s\<lparr>cpu_cr0 := cr0, cpu_cr3 := l4, cpu_cr4 := cr4, cpu_msr := (cpu_msr s)(0xC0000080 := efer)\<rparr>) \<and>
     (\<forall>n. bit cr0 n \<longleftrightarrow> n < 32 \<and> (bit (cpu_cr0 s) n \<or> n = 31)) \<and> (\<forall>n. bit cr4 n \<longleftrightarrow> n < 32 \<and> (bit (cpu_cr4 s) n \<or> n = 5)) \<and>
     (\<forall>n. bit efer n \<longleftrightarrow> bit (cpu_msr s 0xC0000080) n \<or> n = 8)"
proof -
  let ?cr0 = "ucast ((ucast (cpu_cr0 s) :: u32) OR push_bit 31 1) :: u64"
    and ?cr4 = "ucast ((ucast (cpu_cr4 s) :: u32) OR push_bit 5 1) :: u64"
    and ?efer = "push_bit 32 (ucast (ucast (drop_bit 32 (cpu_msr s 0xC0000080)) :: u32)) OR
      ucast ((ucast (cpu_msr s 0xC0000080) :: u32) OR push_bit 8 1) :: u64"
  have "enable_paging C code (Mutex_new l4, PDPT, PDT) (s, m) =
      Inr ((Mutex_new l4, PDPT, PDT), s\<lparr>cpu_cr0 := ?cr0, cpu_cr3 := l4, cpu_cr4 := ?cr4, cpu_msr := (cpu_msr s)(0xC0000080 := ?efer)\<rparr>)"
    using assms by (simp add: enable_paging_def static_lock_new MutexGuard_drop_new ucast_round)
  moreover have "bit ?cr0 n \<longleftrightarrow> n < 32 \<and> (bit (cpu_cr0 s) n \<or> n = 31)" "bit ?cr4 n \<longleftrightarrow> n < 32 \<and> (bit (cpu_cr4 s) n \<or> n = 5)" for n
    by (simp_all only: bit_set_low)
  moreover have "bit ?efer n \<longleftrightarrow> bit (cpu_msr s 0xC0000080) n \<or> n = 8" for n
    using bit_imp_le_length [of "cpu_msr s 0xC0000080" n] by (subst bit_or_iff, simp only: bit_set_low) (auto simp: bit_simps)
  ultimately show ?thesis by blast
qed

lemma stage3_GDT_values:
  assumes "crates_ok C"
  shows "\<exists>g. stage3_GDT C = Inr g \<and> take (gdt_size g) (gdt_entries g) = [0, 0x00A09B0000000000, 0x0080930000000000] \<and>
     GlobalDescriptorTableDescriptor_new g a = (23, a)"
  by (simp add: stage3_GDT_def two_segment_gdt_def segment_values [OF assms] segment_privilege add_entry_defs
      GlobalDescriptorTableDescriptor_new_def)

lemma jump_to_stage4_eq:
  assumes "unat (pmr_start (bios_stage4 info)) < 2 ^ 32" "0x100 \<le> esp"
  shows "jump_to_stage4 esp info_ptr info s =
    (\<lparr>s4_rip = pmr_start (bios_stage4 info), s4_rsp = ucast (esp AND 0xffffff00) - 8, s4_rdi = ucast info_ptr\<rparr>,
     s\<lparr>cpu_cs := 8, cpu_ss := 0, cpu_ds := 0, cpu_es := 0, cpu_fs := 0, cpu_gs := 0\<rparr>)"
proof -
  have "(0xffffff00 :: u32) = NOT (mask 8)" by (simp add: mask_eq_exp_minus_1 word_eq_iff_unsigned)
  then have e: "esp AND 0xffffff00 = esp AND NOT (mask 8)" by (simp only:)
  have "0x100 \<le> unat esp" using assms(2) by (simp add: word_le_nat_alt)
  then have "256 * 1 \<le> 256 * (unat esp div 256)" by (intro mult_le_mono2) (simp add: Suc_le_eq div_greater_zero_iff)
  then have "16 \<le> unat (esp AND 0xffffff00)" unfolding e unat_and_not_mask by (simp add: minus_mod_eq_mult_div)
  then have u: "unat ((esp AND 0xffffff00) - 16) = unat (esp AND 0xffffff00) - 16" "16 \<le> unat (esp AND 0xffffff00)"
    by (simp_all add: unat_sub word_le_nat_alt)
  have "unat (ucast ((esp AND 0xffffff00) - 16) + 16 :: u64) = unat (ucast (esp AND 0xffffff00) :: u64)"
    using u unat_less_exp [of "esp AND 0xffffff00"]
    by (subst unat_plus_nowrap) (simp_all add: unsigned_ucast_eq unsigned_take_bit_eq take_bit_nat_eq_self)
  then have "ucast ((esp AND 0xffffff00) - 16) + 16 = (ucast (esp AND 0xffffff00) :: u64)" by (simp only: word_unat_eq_iff)
  then show ?thesis using assms(1) by (simp add: jump_to_stage4_def pop_rax_def ucast_round add.commute)
qed


text \<open>
  C15. Stage 3 brings the processor to long mode. With the three tables where the linker may put them, the first two of them
  empty, it enters stage 4 at its start with the pointer to the BIOS information. Then the first 10 GiB are mapped to
  themselves, present and writable, and nothing else is; so is the code that runs while paging is switched on.
  Paging, long mode and physical address extension are on and the other bits of the control registers are kept,
  interrupts are off, the code segment is the 64-bit one of the new descriptor table, the locks are free again, and
  the rest of the memory is as before.
\<close>

theorem stage3_start_correct:
  assumes "crates_ok C" "stage3_tables_at l4 l3 l2" "\<forall>i < 512. m (entry_at l4 i) = 0 \<and> m (entry_at l3 i) = 0"
    and "\<forall>ip \<in> set code. unat ip < 2 ^ 32" "unat (pmr_start (bios_stage4 info)) < 2 ^ 32" "0x100 \<le> esp"
  shows "\<exists>s' m' gdt. stage3_start C code gdt_ptr esp info_ptr info (Mutex_new l4, Mutex_new l3, Mutex_new l2) (s, m) =
       Inr (\<lparr>s4_rip = pmr_start (bios_stage4 info), s4_rsp = ucast (esp AND 0xffffff00) - 8, s4_rdi = ucast info_ptr\<rparr>,
            s', (Mutex_new l4, Mutex_new l3, Mutex_new l2), m') \<and>
     (\<forall>x. unat x < 2 ^ 48 \<longrightarrow> translate_address C (PhysicalOffset_frame_to_virtual 0) m' (cpu_cr3 s') x =
        (if unat x < 10 * 2 ^ 30 then Some (x, PRESENT OR WRITABLE OR HUGE_PAGE) else None)) \<and>
     cpu_cr3 s' = l4 \<and> (\<forall>n. bit (cpu_cr0 s') n \<longleftrightarrow> n < 32 \<and> (bit (cpu_cr0 s) n \<or> n = 31)) \<and>
     (\<forall>n. bit (cpu_cr4 s') n \<longleftrightarrow> n < 32 \<and> (bit (cpu_cr4 s) n \<or> n = 5)) \<and>
     (\<forall>n. bit (cpu_msr s' 0xC0000080) n \<longleftrightarrow> bit (cpu_msr s 0xC0000080) n \<or> n = 8) \<and>
     \<not> cpu_interrupts s' \<and> cpu_gdtr s' = (23, gdt_ptr) \<and> stage3_GDT C = Inr gdt \<and>
     take (gdt_size gdt) (gdt_entries gdt) = [0, 0x00A09B0000000000, 0x0080930000000000] \<and> cpu_cs s' = 8 \<and>
     (\<forall>x. x AND NOT (mask 12) \<notin> {l4, l3} \<and> (\<forall>i < 10. x AND NOT (mask 12) \<noteq> l2 + of_nat i * 4096) \<longrightarrow> m' x = m x)"
proof -
  from create_mappings_spec [OF assms(1,2)] obtain m' where
    1: "create_mappings C (Mutex_new l4, Mutex_new l3, Mutex_new l2) m = Inr ((Mutex_new l4, Mutex_new l3, Mutex_new l2), m')"
      "gigabytes_mapped 3 l3 l2 10 (m(entry_at l4 0 := l3 OR 3)) m'" by blast
  note tr = stage3_translate [OF assms(1,2) 1(2) assms(3)]
  have "\<not> bit (PRESENT OR WRITABLE OR HUGE_PAGE) 63" by (simp add: PRESENT_def WRITABLE_def HUGE_PAGE_def)
  then have ex: "list_all (executable_address C (PhysicalOffset_frame_to_virtual 0) m' l4) code"
    using assms(4) tr by (auto simp: list_all_iff executable_address_def)
  have "unat l4 < 2 ^ 32" using assms(2) by (simp add: stage3_tables_at_def)
  from enable_paging_spec [OF this ex, of "Mutex_new l3" "Mutex_new l2" s] obtain cr0 cr4 efer where
    2: "enable_paging C code (Mutex_new l4, Mutex_new l3, Mutex_new l2) (s, m') = Inr ((Mutex_new l4, Mutex_new l3, Mutex_new l2),
        s\<lparr>cpu_cr0 := cr0, cpu_cr3 := l4, cpu_cr4 := cr4, cpu_msr := (cpu_msr s)(0xC0000080 := efer)\<rparr>)"
      "\<forall>n. bit cr0 n \<longleftrightarrow> n < 32 \<and> (bit (cpu_cr0 s) n \<or> n = 31)" "\<forall>n. bit cr4 n \<longleftrightarrow> n < 32 \<and> (bit (cpu_cr4 s) n \<or> n = 5)"
      "\<forall>n. bit efer n \<longleftrightarrow> bit (cpu_msr s 0xC0000080) n \<or> n = 8" by blast
  from stage3_GDT_values [OF assms(1)] obtain g where
    3: "stage3_GDT C = Inr g" "take (gdt_size g) (gdt_entries g) = [0, 0x00A09B0000000000, 0x0080930000000000]"
      "GlobalDescriptorTableDescriptor_new g gdt_ptr = (23, gdt_ptr)" by blast
  note j = jump_to_stage4_eq [OF assms(5,6)]
  show ?thesis
    using 1(1) 2 3 tr gigabytes_mapped_frame [OF assms(2) 1(2)]
    by (simp add: stage3_start_def init_and_switch_to_long_mode_def j clear_interrupts_and_load_def GlobalDescriptorTable_load_def
        interrupts_disable_def)
qed

theorem stage3_start_correct_witness:
  "\<exists>entry s' statics m'. stage3_start reference_crates [0x100010] 0x100200 0x7c00 0x9000
       (BiosInfo_new (PhysicalMemoryRegion_new 0x120000 0x10000 Reserved) (PhysicalMemoryRegion_new 0x200000 0x2000 Reserved)
          (FramebufferInfo_new (PhysicalMemoryRegion_new 0 0 Used) 0 0 0 0 Rgb) 0 0 0) (Mutex_new 0x101000, Mutex_new 0x102000, Mutex_new 0x103000) (example_cpu, \<lambda>_. 0) = Inr (entry, s', statics, m') \<and>
     s4_rip entry = 0x120000 \<and> s4_rdi entry = 0x9000 \<and>
     translate_address reference_crates (PhysicalOffset_frame_to_virtual 0) m' (cpu_cr3 s') 0x234567890 =
       Some (0x234567890, PRESENT OR WRITABLE OR HUGE_PAGE) \<and>
     translate_address reference_crates (PhysicalOffset_frame_to_virtual 0) m' (cpu_cr3 s') 0x280000000 = None"
proof -
  have a: "stage3_tables_at 0x101000 0x102000 0x103000"
  proof -
    have "0x103000 + of_nat i * 4096 \<noteq> (0x101000 :: u64)" "0x103000 + of_nat i * 4096 \<noteq> (0x102000 :: u64)" if "i < 10" for i
    proof -
      have "0x103000 + of_nat i * 4096 = (of_nat (0x103000 + i * 4096) :: u64)" by simp
      then have "unat (0x103000 + of_nat i * 4096 :: u64) = 0x103000 + i * 4096"
        using unat_of_nat_small [of "0x103000 + i * 4096"] that by (simp del: of_nat_add of_nat_mult of_nat_numeral)
      then show "0x103000 + of_nat i * 4096 \<noteq> (0x101000 :: u64)" "0x103000 + of_nat i * 4096 \<noteq> (0x102000 :: u64)"
        by (auto simp: word_unat_eq_iff)
    qed
    then show ?thesis by (auto simp: stage3_tables_at_def page_aligned_def)
  qed
  show ?thesis
    using stage3_start_correct [OF reference_crates_ok a, of "\<lambda>_. 0" "[0x100010]"
        "BiosInfo_new (PhysicalMemoryRegion_new 0x120000 0x10000 Reserved) (PhysicalMemoryRegion_new 0x200000 0x2000 Reserved)
           (FramebufferInfo_new (PhysicalMemoryRegion_new 0 0 Used) 0 0 0 0 Rgb) 0 0 0"
        "0x7c00" "0x100200" "0x9000" example_cpu]
    by (auto simp: BiosInfo_new_def PhysicalMemoryRegion_new_def)
qed

end
