(* ===== verification/Mapper_Types.thy ===== *)
theory Mapper_Types
  imports Offset_Page_Table
begin

text \<open>
  Sequences of calls of the kernel's mapper (\<open>OffsetPageTable\<close> with the bump frame allocator). A call is
  well-typed in a state when its frame and its flags have only the bits an entry has for them, and no huge
  page lies above its page; \<open>unmap\<close> asks for a mapped page besides. Well-typed calls return and keep the tables
  well-formed, whatever was called before.
\<close>

section \<open>Calls\<close>

datatype mapper_call =
    Map_4KiB PhysicalFrame Page PageTableEntryFlags
  | Map_2MiB PhysicalFrame Page PageTableEntryFlags
  | Unmap_4KiB Page
  | Translate_4KiB Page

type_synonym mapper_state = "table_memory \<times> PhysicalMemoryRegion BumpFrameAllocator"

fun run_call :: "crates \<Rightarrow> u64 \<Rightarrow> VirtualAddress \<Rightarrow> mapper_call \<Rightarrow> mapper_state \<Rightarrow> mapper_state res" where
  "run_call C offset root (Map_4KiB frame page flags) (m, a) =
     rbind (OffsetPageTable_map_to_4KiB C offset region_frames_allocator root frame page flags m a) (\<lambda>(_, m, a). Inr (m, a))"
| "run_call C offset root (Map_2MiB frame page flags) (m, a) =
     rbind (OffsetPageTable_map_to_2MiB C offset region_frames_allocator root frame page flags m a) (\<lambda>(_, m, a). Inr (m, a))"
| "run_call C offset root (Unmap_4KiB page) (m, a) =
     rbind (OffsetPageTable_unmap_4KiB C offset root page m) (\<lambda>(_, m). Inr (m, a))"
| "run_call C offset root (Translate_4KiB page) (m, a) =
     rbind (OffsetPageTable_translate_4KiB C offset root m page) (\<lambda>_. Inr (m, a))"

fun call_ok :: "crates \<Rightarrow> u64 \<Rightarrow> VirtualAddress \<Rightarrow> mapper_call \<Rightarrow> mapper_state \<Rightarrow> bool" where
  "call_ok C offset root (Map_4KiB frame page flags) (m, a) \<longleftrightarrow>
     frame_bits_ok frame \<and> flag_bits_ok flags \<and> offset_no_huge C offset root m page \<and> unat (bump_next a) + 3 < 2 ^ 64"
| "call_ok C offset root (Map_2MiB frame page flags) (m, a) \<longleftrightarrow>
     frame_bits_ok frame \<and> flag_bits_ok flags \<and> offset_no_huge C offset root m page \<and> unat (bump_next a) + 2 < 2 ^ 64"
| "call_ok C offset root (Unmap_4KiB page) (m, a) \<longleftrightarrow>
     offset_no_huge C offset root m page \<and> offset_mmu offset m root (page_indices C page) \<noteq> None"
| "call_ok C offset root (Translate_4KiB page) (m, a) \<longleftrightarrow> offset_no_huge C offset root m page"

inductive mapper_step :: "crates \<Rightarrow> u64 \<Rightarrow> VirtualAddress \<Rightarrow> mapper_state \<Rightarrow> mapper_state \<Rightarrow> bool" for C offset root where
  Call: "call_ok C offset root c st \<Longrightarrow> run_call C offset root c st = Inr st' \<Longrightarrow> mapper_step C offset root st st'"

inductive_cases mapper_stepE: "mapper_step C offset root st st'"

section \<open>One call\<close>

text \<open>What a call may do to the memory: the tables only grow, and only tables are written.\<close>

definition only_tables_written :: "u64 \<Rightarrow> VirtualAddress \<Rightarrow> table_memory \<Rightarrow> table_memory \<Rightarrow> bool" where
  "only_tables_written offset root m m' \<longleftrightarrow>
     tables (PhysicalOffset_frame_to_virtual offset) root m \<subseteq> tables (PhysicalOffset_frame_to_virtual offset) root m' \<and>
     (\<forall>x. x AND NOT (mask 12) \<notin> tables (PhysicalOffset_frame_to_virtual offset) root m' \<longrightarrow> m' x = m x)"

lemma only_tables_written_refl [simp]: "only_tables_written offset root m m"
  by (simp add: only_tables_written_def)

lemma only_tables_written_trans:
  "only_tables_written offset root m m1 \<Longrightarrow> only_tables_written offset root m1 m2 \<Longrightarrow> only_tables_written offset root m m2"
  unfolding only_tables_written_def by (metis subset_eq)

lemma only_tables_writtenI:
  "grows_at n (PhysicalOffset_frame_to_virtual offset) avail root m a m' a' \<Longrightarrow> only_tables_written offset root m m'"
  by (simp add: only_tables_written_def grows_at_def)

lemma run_call_ok:
  assumes C: "crates_ok C" and r: "offset_ready offset root m a" and ok: "call_ok C offset root c (m, a)"
  shows "\<exists>m' a'. run_call C offset root c (m, a) = Inr (m', a') \<and> offset_ready offset root m' a' \<and> only_tables_written offset root m m'"
proof -
  note T = offset_table_mapper [OF C, of offset] and r' = r [unfolded offset_defs]
  have al: "can_allocate region_frames_allocator n a" if "unat (bump_next a) + n < 2 ^ 64" for n
    using r that by (intro bump_can_allocate) (simp_all add: offset_ready_def mapper_ready_def)
  show ?thesis
  proof (cases c)
    case (Map_4KiB frame page flags)
    with ok have o: "frame_bits_ok frame" "flag_bits_ok flags" "offset_no_huge C offset root m page" "unat (bump_next a) + 3 < 2 ^ 64" by simp_all
    from table_mapper.map_to_4KiB_grows [OF T r' al [OF o(4)] o(3) [unfolded offset_defs] o(1,2)] obtain res m' a' where
      1: "OffsetPageTable_map_to_4KiB C offset region_frames_allocator root frame page flags m a = Inr (res, m', a')" "offset_ready offset root m' a'"
        "grows_at 3 (PhysicalOffset_frame_to_virtual offset) (bump_avail PhysicalMemoryRegion_MemoryRegion) root m a m' a'"
      unfolding offset_defs by blast
    then show ?thesis using only_tables_writtenI [OF 1(3)] Map_4KiB by simp
  next
    case (Map_2MiB frame page flags)
    with ok have o: "frame_bits_ok frame" "flag_bits_ok flags" "offset_no_huge C offset root m page" "unat (bump_next a) + 2 < 2 ^ 64" by simp_all
    then have "\<not> bit (entry_of (PhysicalOffset_frame_to_virtual offset) m root [] (l4_index C page)) 7"
      "\<not> bit (entry_of (PhysicalOffset_frame_to_virtual offset) m root [l4_index C page] (l3_index C page)) 7"
      by (simp_all add: offset_no_huge_def no_huge_above_page_def)
    from table_mapper.map_to_2MiB_grows [OF T r' al [OF o(4)] this o(1,2)] obtain res m' a' where
      1: "OffsetPageTable_map_to_2MiB C offset region_frames_allocator root frame page flags m a = Inr (res, m', a')" "offset_ready offset root m' a'"
        "grows_at 2 (PhysicalOffset_frame_to_virtual offset) (bump_avail PhysicalMemoryRegion_MemoryRegion) root m a m' a'"
      unfolding offset_defs by blast
    then show ?thesis using only_tables_writtenI [OF 1(3)] Map_2MiB by simp
  next
    case (Unmap_4KiB page)
    with ok have o: "offset_no_huge C offset root m page" "offset_mmu offset m root (page_indices C page) \<noteq> None" by simp_all
    have tk: "tables_ok (PhysicalOffset_frame_to_virtual offset) (usable_offset offset) root m"
      using r' by (simp add: mapper_ready_def)
    from table_mapper.unmap_4KiB_grows [OF T tk o [unfolded offset_defs], of a] obtain m' where
      1: "unmap_4KiB C (PhysicalOffset_frame_to_virtual offset) root page m = Inr (Inr (0, page), m')"
        "tables_ok (PhysicalOffset_frame_to_virtual offset) (usable_offset offset) root m'"
        "grows_at 3 (PhysicalOffset_frame_to_virtual offset) (bump_avail PhysicalMemoryRegion_MemoryRegion) root m a m' a"
      by (auto simp del: split_paired_All)
    have "tables (PhysicalOffset_frame_to_virtual offset) root m' \<subseteq> tables (PhysicalOffset_frame_to_virtual offset) root m"
      using growsD(3) [OF 1(3)] by blast
    then have "offset_ready offset root m' a" using r' 1(2) by (auto simp: offset_ready_def mapper_ready_def fresh_frames_def)
    with 1 Unmap_4KiB show ?thesis by (auto simp: OffsetPageTable_unmap_4KiB_def intro: only_tables_writtenI)
  next
    case (Translate_4KiB page)
    with ok have o: "offset_no_huge C offset root m page" by simp
    have "tables_ok (PhysicalOffset_frame_to_virtual offset) (usable_offset offset) root m"
      using r' by (simp add: mapper_ready_def)
    from table_mapper.translate_4KiB_spec [OF T this o [unfolded offset_defs]] r Translate_4KiB show ?thesis
      by (simp add: OffsetPageTable_translate_4KiB_def)
  qed
qed

section \<open>Properties\<close>

text \<open>
  C20. The tables are typed: in every state that well-typed calls of \<open>map_to\<close>, \<open>unmap\<close> and \<open>translate\<close> reach from
  well-formed tables the tables are a tree again (every entry that points to a table is present and points to a
  frame of its own, which the allocator does not hand out any more), the tables have only grown, no memory
  outside them has been written, and the next well-typed call returns: it neither panics nor reads a frame
  that is no table.
\<close>

theorem mapper_type_safe:
  assumes "crates_ok C" "offset_ready offset root m a" "(mapper_step C offset root)\<^sup>*\<^sup>* (m, a) (m', a')"
  shows "offset_ready offset root m' a' \<and>
     tables (PhysicalOffset_frame_to_virtual offset) root m \<subseteq> tables (PhysicalOffset_frame_to_virtual offset) root m' \<and>
     (\<forall>x. x AND NOT (mask 12) \<notin> tables (PhysicalOffset_frame_to_virtual offset) root m' \<longrightarrow> m' x = m x) \<and>
     (\<forall>c. call_ok C offset root c (m', a') \<longrightarrow> (\<exists>st. run_call C offset root c (m', a') = Inr st))"
proof -
  from assms(3) have "offset_ready offset root m' a' \<and> only_tables_written offset root m m'"
  proof (induction "(m', a')" arbitrary: m' a' rule: rtranclp_induct)
    case base
    then show ?case using assms(2) by simp
  next
    case (step st)
    obtain m1 a1 where st: "st = (m1, a1)" by (cases st)
    from step(2) [unfolded st] obtain c where c: "call_ok C offset root c (m1, a1)" "run_call C offset root c (m1, a1) = Inr (m', a')"
      by (auto elim: mapper_stepE)
    with run_call_ok [OF assms(1) _ c(1)] step(3) [OF st] only_tables_written_trans show ?case by fastforce
  qed
  then show ?thesis using run_call_ok [OF assms(1)] unfolding only_tables_written_def by blast
qed

theorem mapper_type_safe_witness:
  "\<exists>m' a'. mapper_step reference_crates 0 0x1000 (\<lambda>_. 0, example_frames) (m', a') \<and> offset_ready 0 0x1000 m' a' \<and>
     offset_mmu 0 m' 0x1000 (page_indices reference_crates 0x444444440000) \<noteq> None \<and>
     (\<exists>st. run_call reference_crates 0 0x1000 (Unmap_4KiB 0x444444440000) (m', a') = Inr st)"
proof -
  obtain m' a' where m: "OffsetPageTable_map_to_4KiB reference_crates 0 region_frames_allocator 0x1000
      0x40000 0x444444440000 3 (\<lambda>_. 0) example_frames = Inr (Inr 0x444444440000, m', a')"
    "offset_mmu 0 m' 0x1000 (page_indices reference_crates 0x444444440000) = Some (Small 0x40000 0x40003)"
    using example_mapped by blast
  have s: "mapper_step reference_crates 0 0x1000 (\<lambda>_. 0, example_frames) (m', a')"
    by (rule mapper_step.Call [of _ _ _ "Map_4KiB 0x40000 0x444444440000 3"])
      (use m(1) example_bits example_no_huge example_ready(2) in simp_all)
  have "offset_no_huge reference_crates 0 0x1000 m' 0x444444440000"
    unfolding offset_no_huge_def by (rule mmu_Small_no_huge) (use m(2) in \<open>simp add: offset_mmu_def\<close>)
  then have "call_ok reference_crates 0 0x1000 (Unmap_4KiB 0x444444440000) (m', a')" using m(2) by simp
  with mapper_type_safe [OF reference_crates_ok example_ready(1) r_into_rtranclp, OF s] s m(2) show ?thesis by blast
qed

end
