(* ===== verification/Spec2Isabelle.thy ===== *)
theory Spec2Isabelle
  imports Kernel_Start Storage_List Disk_Image Intrusive_List Fat_Termination Stage4_Properties Stage3 Stage2_Correct Mapper_Types
begin

text \<open>
  MiniatureOs is a 64-bit operating system for PCs with a BIOS: a boot loader in four stages, the library
  \<open>x86_64\<close> that the last stages share with the kernel, and the kernel itself. This development models
  the boot from the disk image to the running kernel, with the memory management and the interrupts.

  \<^bold>\<open>The program.\<close> A builder on the host writes the disk image. The BIOS loads the boot sector (stage 1), which loads
  stage 2; stage 2 runs in real mode and loads stage 3, stage 4 and the kernel from a FAT volume, with the memory map
  and a video mode from the BIOS; stage 3 switches to long mode with the first 10 GiB mapped to themselves; stage 4 builds the
  address space of the kernel, loads its ELF file, and jumps into it with the boot information; the kernel
  sets up its segments, its interrupts and its heap.

  \<^bold>\<open>Language.\<close> \<open>Rust_Prelude\<close> has the machine integers, the checked operations and the faults (\<open>'a res\<close>: a panic, undefined
  behaviour or not returning is \<open>Inl\<close>). The kernel and the stages 2 to 4 are compiled with overflow checks, stage 1
  without. \<open>Byte_Fields\<close> and \<open>Byte_Memory\<close> have bytes in slices and in memory. \<open>External_Crates\<close> is the record
  of the functions of \<open>bit_field\<close> and \<open>bitflags\<close> that the code calls; theorems assume \<open>crates_ok\<close>, and
  \<open>reference_crates\<close> shows that it can hold.

  \<^bold>\<open>Memory management\<close> (\<open>src/x86_64\<close>).
  \<^item> \<open>Memory\<close> (\<open>memory.rs\<close>): addresses, regions, frames, pages and ranges. Locales \<open>memory_region\<close> and \<open>frame_allocator\<close>.
  \<^item> \<open>Bump_Frame_Allocator\<close> (\<open>paging/bump_frame_allocator.rs\<close>): every usable frame once and in order; it interprets
    \<open>frame_allocator\<close>.
  \<^item> \<open>Paging\<close> (\<open>paging/mod.rs\<close>, \<open>mapped_page_table.rs\<close>, \<open>offset_page_table.rs\<close>): tables in an explicit store.
    \<open>Page_Tree\<close>: the invariant that the tables are a tree, and the walk of the processor, which is the specification.
    \<open>Page_Mapper\<close>: \<open>map_to\<close>, \<open>unmap\<close> and \<open>translate\<close> against it, in the locales \<open>page_table_frame_mapping\<close> and
    \<open>table_mapper\<close>. \<open>Offset_Page_Table\<close>: the instance of the kernel, and the properties. \<open>Fresh_Pages\<close>: many
    pages in a row. \<open>Mapper_Types\<close>: sequences of calls.
  \<^item> \<open>Segments\<close>, \<open>Registers\<close>, \<open>Interrupts\<close>, \<open>Port_IO\<close>, \<open>Spin_Mutex\<close> (\<open>gdt.rs\<close>, \<open>tss.rs\<close>, \<open>register.rs\<close>, \<open>idt.rs\<close>,
    \<open>interrupts.rs\<close>, \<open>port.rs\<close>, \<open>uart.rs\<close>, \<open>print.rs\<close>, \<open>mutex.rs\<close>, with \<open>kernel/src/interrupts\<close>): descriptor tables as the
    processor reads them, control registers, interrupt gates and wrappers, the interrupt controllers and
    the serial line, and the lock as a step relation over interleaved threads.

  \<^bold>\<open>The kernel\<close> (\<open>src/kernel\<close>).
  \<^item> \<open>Buddy_Blocks\<close>, \<open>Buddy_Spec\<close>: the buddy algorithm on abstract free lists. \<open>Buddy_List\<close>, \<open>Buddy_Allocator\<close>
    (\<open>allocator/buddy_allocator.rs\<close>): the code, with headers in the free memory. \<open>Buddy_Correct\<close>: it refines the
    abstract lists. \<open>Buddy_Heap\<close>: the contract of an allocator (locale \<open>global_allocator\<close>), its interpretation, and clients
    that allocate, write and release in any order. \<open>Storage_List\<close>: the list with its own storage.
  \<^item> \<open>Kernel_Init\<close> (\<open>lib.rs\<close>, \<open>allocator.rs\<close>, \<open>paging.rs\<close>): \<open>kernel_init\<close>. \<open>Buddy_Self_Test\<close>, \<open>Kernel_Start\<close> (\<open>main.rs\<close>,
    \<open>qemu.rs\<close>, the test kernel): the self test of the heap, \<open>start\<close>, and the end of the virtual machine.
  \<^item> \<open>Intrusive_List\<close> (\<open>src/util/intrusive_linked_list\<close>): the doubly linked list.

  \<^bold>\<open>The boot loader\<close> (\<open>src/bootloader\<close>).
  \<^item> \<open>Disk_Image\<close> (\<open>src/lib.rs\<close>): the builder of the image; stage 1 and stage 2 find what it has written.
  \<^item> \<open>Boot_Sector\<close> (\<open>mbr\<close>, \<open>common/src/mbr.rs\<close>): the partition table and stage 1.
  \<^item> \<open>Bios_Disk\<close>, \<open>Fat_Volume\<close>, \<open>Fat_Files\<close> (\<open>stage2/src/disk.rs\<close>, \<open>dap.rs\<close>, \<open>fat.rs\<close>): reading sectors and files;
    \<open>Fat_Correct\<close>: a file is loaded completely and in order; \<open>Fat_Termination\<close>: loading ends on every disk.
  \<^item> \<open>Memory_Maps\<close>, \<open>Vesa\<close>, \<open>Stage2_Main\<close>, \<open>Stage2_Correct\<close> (\<open>stage2/src/memory_map.rs\<close>, \<open>vesa.rs\<close>,
    \<open>protected_mode.rs\<close>, \<open>main.rs\<close>): the map of the memory, the video mode, and stage 2 from start to end.
  \<^item> \<open>Stage3\<close> (\<open>stage3\<close>): the identity mapping and long mode.
  \<^item> \<open>Boot_Info\<close> (\<open>api\<close>, \<open>common\<close>), \<open>Elf_Loader\<close>, \<open>Elf_Correct\<close>, \<open>Elf_Segments\<close>, \<open>Elf_Relocation\<close>, \<open>Kernel_Loading\<close>,
    \<open>Physical_Map\<close>, \<open>Stage4_Main\<close>, \<open>Stage4_Correct\<close>, \<open>Stage4_Boot\<close>, \<open>Stage4_Start\<close>, \<open>Stage4_Properties\<close> (\<open>stage4\<close>): loading the
    kernel and preparing its address space. The locale \<open>identity_mapper\<close> extends the contract of the mapper by physical memory
    that is mapped one to one; it is interpreted on the instances of stage 4.

  \<^bold>\<open>The properties\<close> are stated for the operations as the code has them, for all inputs that their conditions allow: each stage of
  the boot does its work and leaves memory and registers as stated, the heap and the page tables keep their
  invariants and do what their specifications say, loading and searching end. Others state where the code
  departs from what it means to do: a relocation at the end of a page panics, the registers that an interrupt
  wrapper restores are in the wrong order, \<open>unmap\<close> returns frame 0, the low memory is missing from the map.

  The last step of the boot does not compose. The theorems on the start of the kernel (\<open>kernel_init_correct\<close>,
  \<open>kernel_start_correct\<close>, \<open>test_kernel_succeeds\<close>) need the frames that the kernel will hand out to be free of page tables
  (part of \<open>heap_ready\<close>). Stage 4 does not provide this: \<open>boot_info_omits_tables\<close> shows that it makes tables after it has
  computed the map. They say what the kernel does with a hand-over that keeps this condition.

  \<^bold>\<open>Arguments.\<close> What is not in the repository is an argument: the BIOS services (\<open>bios_reads\<close>, \<open>vbe_ready\<close> and others say what a
  BIOS does), the devices behind the ports, the ELF parser (\<open>elf_file\<close>: it calls the loader for the segments and the
  relocations of the file), \<open>mbrman\<close> and \<open>fatfs\<close>, addresses that the linker chooses, and the bytes that memory holds at the start.

  \<^bold>\<open>Fuel and bounds.\<close> A loop without a bound in the code takes fuel; running out of it is \<open>Diverges\<close>, and the theorems show that
  enough fuel never does. Loading a file takes at most \<open>2 ^ 23 + 9\<close> turns, cyclic cluster chains included: after
  4 GiB at the latest the counter of the bytes read overflows, which panics. Asking for the memory map
  takes a turn for each region. Other loops are total by a measure (the search for a mode, stage 1, the splits and merges of the
  heap) or a \<open>partial_function\<close> (removing from a list that may be cyclic). Stage 4 needs as many free frames as the pages and
  tables it makes; the conditions count them.

  \<^bold>\<open>Not modelled.\<close> The assembly before the first Rust code, the build scripts and the launcher, which only run other programs; the text
  that the boot stages print; \<open>hlt\<close>, \<open>int3\<close> and the translation cache (an \<open>invlpg\<close> has no effect); the tests of the
  kernel on \<open>Box\<close> and \<open>Vec\<close>, whose growth the standard library leaves open; formatting beyond what the kernel prints; a
  struct of stage 3 for graphics without operations. The threads of the lock are sequentially consistent and use it only
  through \<open>lock\<close>. Interrupts that arrive while the kernel starts, and the delays of \<open>io_wait\<close>, are not part of the runs. The
  walk of the processor ignores the permissions of the upper levels and pages of 1 GiB, which no code here makes. The fault of a write to CR0
  that the processor refuses is left out. The files that stage 2 loads are taken not to overlap with its own code and buffers. Which video modes
  are usable is what \<open>mode_supported\<close> of the code says.
\<close>

section \<open>The kernel is initialised\<close>

text \<open>
  C1. From the boot information to a working heap: with the locks free, a serial line that accepts
  characters, tables that are well-formed and map nothing in the heap's range, and 104 free frames,
  \<open>kernel_init\<close> returns. The segment registers, the task register and the two descriptor table
  registers are those of the kernel's tables, and interrupts are allowed; the 25 pages of the heap are
  mapped to distinct frames, writable and not executable, the guard page behind them is not mapped,
  every other page is mapped as before; and from there on the heap keeps its invariant whatever its
  clients allocate, write and release.
\<close>

theorem kernel_init_correct:
  assumes "crates_ok C" "SerialPort_new base = Inr sp" "\<forall>w. eventually_set answer (base + 5) 5 w"
    and "offset = bi_physical_memory_offset bi" "root = (cpu_cr3 s AND 0x000ffffffffff000) + offset"
    and "unat (cpu_cr3 s AND 0x000ffffffffff000) + unat offset < 2 ^ 64"
    and "heap_ready C offset root m (BumpFrameAllocator_new (PhysicalMemoryRegions_deref rm (bi_memory_regions bi)))"
  shows "\<exists>s' w' fs m' a' h. kernel_init C (log_ports answer) (Mutex_new sp) (Mutex_new ChainedPics_new) tss_ptr gdt_ptr idt_ptr addr
         bi rm (Locked_new (BuddyAllocator_new hm)) s w m = Inr (s', w', root, (m', a'), Locked_new h) \<and>
     s' = s\<lparr>cpu_cs := 0x18, cpu_ds := 0x20, cpu_es := 0x20, cpu_ss := 0x20, cpu_tr := 0x08,
       cpu_gdtr := (39, gdt_ptr), cpu_idtr := (4095, idt_ptr), cpu_interrupts := True\<rparr> \<and>
     heap_mapped C offset root m m' fs \<and> offset_ready offset root m' a' \<and>
     (\<forall>h' live. heap_step\<^sup>*\<^sup>* (h, []) (h', live) \<longrightarrow> heap_inv (h', live))"
proof -
  obtain w' fs m' a' h where k: "kernel_init C (log_ports answer) (Mutex_new sp) (Mutex_new ChainedPics_new) tss_ptr gdt_ptr idt_ptr addr
         bi rm (Locked_new (BuddyAllocator_new hm)) s w m = Inr (kernel_cpu gdt_ptr idt_ptr s, w', root, (m', a'), Locked_new h)"
     "heap_mapped C offset root m m' fs" "offset_ready offset root m' a'" "heap_inv (h, [])"
    using kernel_init_runs [OF assms, of tss_ptr gdt_ptr idt_ptr addr hm w] by blast
  moreover have "heap_inv (h', live)" if "heap_step\<^sup>*\<^sup>* (h, []) (h', live)" for h' live
    using that k(4) by (rule kernel_heap.client_inv_reachable)
  ultimately show ?thesis unfolding kernel_cpu_def by blast
qed

theorem kernel_init_correct_witness:
  "\<exists>sp s' w' m' a' h. SerialPort_new 0x3F8 = Inr sp \<and>
     kernel_init reference_crates (log_ports (\<lambda>_ _. 0x60)) (Mutex_new sp) (Mutex_new ChainedPics_new) 0x10 0x20 0x30 (\<lambda>_. 0x40)
       example_boot_info (\<lambda>_. PhysicalMemoryRegion_new 0x100000 0x100000 Free) (Locked_new (BuddyAllocator_new (\<lambda>_. None))) example_cpu []
       (\<lambda>_. 0) = Inr (s', w', 0x1000, (m', a'), Locked_new h) \<and> cpu_cs s' = 0x18 \<and> heap_inv (h, [])"
proof -
  obtain sp where sp: "SerialPort_new 0x3F8 = Inr sp" by (simp add: SerialPort_new_def op_add_def)
  have ev: "\<forall>w. eventually_set (\<lambda>_ _. 0x60) (0x3F8 + 5) 5 w" by (simp add: eventually_set_def)
  have d: "PhysicalMemoryRegions_deref (\<lambda>_. PhysicalMemoryRegion_new 0x100000 0x100000 Free) (bi_memory_regions example_boot_info) =
      [PhysicalMemoryRegion_new 0x100000 0x100000 Free]" "bi_physical_memory_offset example_boot_info = 0"
    by (simp_all add: PhysicalMemoryRegions_deref_def example_boot_info_def BootInfo_new_def PhysicalMemoryRegions_new_def)
  have r: "0x1000 = (cpu_cr3 example_cpu AND 0x000ffffffffff000) + 0"
    "unat (cpu_cr3 example_cpu AND 0x000ffffffffff000) + unat (0 :: u64) < 2 ^ 64" by (simp_all add: example_cpu_def)
  obtain s' w' fs m' a' h where k: "kernel_init reference_crates (log_ports (\<lambda>_ _. 0x60)) (Mutex_new sp) (Mutex_new ChainedPics_new)
       0x10 0x20 0x30 (\<lambda>_. 0x40) example_boot_info (\<lambda>_. PhysicalMemoryRegion_new 0x100000 0x100000 Free)
       (Locked_new (BuddyAllocator_new (\<lambda>_. None))) example_cpu [] (\<lambda>_. 0) = Inr (s', w', 0x1000, (m', a'), Locked_new h)"
     "cpu_cs s' = 0x18" "\<forall>h' live. heap_step\<^sup>*\<^sup>* (h, []) (h', live) \<longrightarrow> heap_inv (h', live)"
    using kernel_init_correct [OF reference_crates_ok sp ev d(2) [symmetric] r example_heap_ready [folded d(1)],
      of "0x10" "0x20" "0x30" "\<lambda>_. 0x40" "\<lambda>_. None" "[]"] by force
  moreover have "heap_inv (h, [])" using k(3) by blast
  ultimately show ?thesis using sp by blast
qed

end
